(* ===== verification/Prelude.thy ===== *)
theory Prelude
  imports Main "HOL-Library.Word" "HOL-Library.Sublist" "HOL-Library.Multiset" "HOL-Library.List_Lexorder"
    "HOL-Library.Char_ord" "HOL-Library.Product_Lexorder" "HOL-Library.Option_ord"
begin

text \<open>
  Shared vocabulary of the development: bytes, Rust strings (as the sequence of their
  bytes, written with HOL's \<open>string\<close>), and the operations of Rust's
  \<open>str\<close>, slice and formatting libraries that several components call, each with the
  lemmas the component proofs use.
\<close>

section \<open>Bytes and strings\<close>

type_synonym byte = "8 word"
type_synonym bytes = "8 word list"

named_theorems str_simps \<open>evaluation rules of the string operations\<close>

definition str_bytes :: "string \<Rightarrow> bytes" where
  "str_bytes s = map (\<lambda>c. of_nat (of_char c)) s"

lemma byte_of_char_inj: "(of_nat (of_char c) :: byte) = of_nat (of_char d) \<longleftrightarrow> c = d"
proof
  assume "(of_nat (of_char c) :: byte) = of_nat (of_char d)"
  then have "unat (of_nat (of_char c) :: byte) = unat (of_nat (of_char d) :: byte)" by simp
  then have "(of_char c :: nat) = of_char d"
    by (simp add: unat_of_nat take_bit_nat_eq_self_iff)
  then show "c = d" by simp
qed simp

lemma str_bytes_Nil [simp]: "str_bytes [] = []"
  by (simp add: str_bytes_def)

lemma str_bytes_Cons [simp]: "str_bytes (c # s) = of_nat (of_char c) # str_bytes s"
  by (simp add: str_bytes_def)

lemma length_str_bytes [simp]: "length (str_bytes s) = length s"
  by (simp add: str_bytes_def)

lemma str_bytes_inj [simp]: "str_bytes s = str_bytes t \<longleftrightarrow> s = t"
proof
  show "str_bytes s = str_bytes t \<Longrightarrow> s = t"
  proof (induction s arbitrary: t)
    case (Cons c s)
    then show ?case by (cases t) (auto simp: byte_of_char_inj)
  qed (metis length_0_conv length_str_bytes)
qed simp

text \<open>\<open>str::starts_with\<close>, \<open>str::ends_with\<close>, \<open>strip_prefix\<close>, \<open>strip_suffix\<close>.\<close>

definition starts_with :: "string \<Rightarrow> string \<Rightarrow> bool" where
  "starts_with s p = (take (length p) s = p)"

definition ends_with :: "string \<Rightarrow> string \<Rightarrow> bool" where
  "ends_with s p = (length p \<le> length s \<and> drop (length s - length p) s = p)"

definition strip_prefix :: "string \<Rightarrow> string \<Rightarrow> string option" where
  "strip_prefix s p = (if starts_with s p then Some (drop (length p) s) else None)"

definition strip_suffix :: "string \<Rightarrow> string \<Rightarrow> string option" where
  "strip_suffix s p = (if ends_with s p then Some (take (length s - length p) s) else None)"

lemma starts_with_iff: "starts_with s p \<longleftrightarrow> (\<exists>r. s = p @ r)"
  by (metis append_eq_conv_conj append_take_drop_id starts_with_def)

lemma starts_with_append [simp]: "starts_with (p @ r) p"
  by (auto simp: starts_with_iff)

lemma ends_with_iff: "ends_with s p \<longleftrightarrow> (\<exists>r. s = r @ p)"
proof
  assume "ends_with s p"
  then show "\<exists>r. s = r @ p" unfolding ends_with_def by (metis append_take_drop_id)
qed (auto simp: ends_with_def)

lemma strip_prefix_Some: "strip_prefix s p = Some r \<longleftrightarrow> s = p @ r"
  unfolding strip_prefix_def starts_with_def
  by (auto simp: append_eq_conv_conj) (metis append_take_drop_id)

lemma strip_suffix_Some: "strip_suffix s p = Some r \<longleftrightarrow> s = r @ p"
proof
  assume "strip_suffix s p = Some r"
  then show "s = r @ p"
    by (auto simp: strip_suffix_def ends_with_def split: if_splits)
      (metis append_take_drop_id)
qed (auto simp: strip_suffix_def ends_with_def)

text \<open>\<open>str::split\<close> on one character: always at least one segment.\<close>

fun split_on :: "char \<Rightarrow> string \<Rightarrow> string list" where
  "split_on c [] = [[]]"
| "split_on c (x # xs) =
     (if x = c then [] # split_on c xs
      else (case split_on c xs of [] \<Rightarrow> [[x]] | s # ss \<Rightarrow> (x # s) # ss))"

fun join_with :: "char \<Rightarrow> string list \<Rightarrow> string" where
  "join_with c [] = []"
| "join_with c [s] = s"
| "join_with c (s # ss) = s @ c # join_with c ss"

lemma split_on_nonempty [simp]: "split_on c s \<noteq> []"
  by (induction s) (auto split: list.splits)

lemma split_on_join [simp]: "join_with c (split_on c s) = s"
proof (induction s)
  case (Cons x xs)
  obtain t ts where s: "split_on c xs = t # ts"
    by (metis list.exhaust split_on_nonempty)
  show ?case using Cons s by (cases ts) auto
qed simp

lemma split_on_id: "c \<notin> set s \<Longrightarrow> split_on c s = [s]"
  by (induction s) auto

lemma split_on_cons: "c \<notin> set s \<Longrightarrow> split_on c (s @ c # t) = s # split_on c t"
  by (induction s) auto

lemma split_on_parts: "\<lbrakk> seg \<in> set (split_on c s) \<rbrakk> \<Longrightarrow> c \<notin> set seg"
proof (induction s arbitrary: seg)
  case (Cons x xs)
  obtain t ts where s: "split_on c xs = t # ts"
    by (metis list.exhaust split_on_nonempty)
  show ?case using Cons s by (auto split: if_splits)
qed auto

lemma split_join: "\<lbrakk> ss \<noteq> []; \<forall>s\<in>set ss. c \<notin> set s \<rbrakk> \<Longrightarrow> split_on c (join_with c ss) = ss"
  by (induction c ss rule: join_with.induct) (auto simp: split_on_id split_on_cons)

text \<open>Trimming of a trailing character (\<open>str::trim_end_matches\<close>).\<close>

definition trim_end :: "char \<Rightarrow> string \<Rightarrow> string" where
  "trim_end c s = rev (dropWhile (\<lambda>x. x = c) (rev s))"

lemma trim_end_id: "s \<noteq> [] \<Longrightarrow> last s \<noteq> c \<Longrightarrow> trim_end c s = s"
  by (cases s rule: rev_cases) (auto simp: trim_end_def)

lemma trim_end_snoc [simp]: "trim_end c (s @ [c]) = trim_end c s"
  by (simp add: trim_end_def)

section \<open>Decimal formatting\<close>

fun dec_digits :: "nat \<Rightarrow> string" where
  "dec_digits n = (if n < 10 then [char_of (48 + n)]
                   else dec_digits (n div 10) @ [char_of (48 + n mod 10)])"

declare dec_digits.simps [simp del]

definition show_nat :: "nat \<Rightarrow> string" where
  "show_nat n = dec_digits n"

definition show_int :: "int \<Rightarrow> string" where
  "show_int i = (if i < 0 then CHR ''-'' # show_nat (nat (- i)) else show_nat (nat i))"

text \<open>\<open>{:02}\<close>: at least two characters, padded with zeros after the sign.\<close>

definition pad2 :: "nat \<Rightarrow> string" where
  "pad2 n = (if n < 10 then CHR ''0'' # show_nat n else show_nat n)"

fun undigits :: "string \<Rightarrow> nat" where
  "undigits [] = 0"
| "undigits (c # cs) = (of_char c - 48) * 10 ^ length cs + undigits cs"

lemma undigits_snoc: "undigits (s @ [c]) = undigits s * 10 + (of_char c - 48)"
  by (induction s) (auto simp: algebra_simps)

lemma undigits_dec_digits: "undigits (dec_digits n) = n"
proof (induction n rule: dec_digits.induct)
  case (1 n)
  show ?case
  proof (cases "n < 10")
    case True
    then show ?thesis by (subst dec_digits.simps) simp
  next
    case False
    have "n mod 10 < 10" by simp
    then have "(of_char (char_of (48 + n mod 10) :: char) :: nat) = 48 + n mod 10"
      by simp
    moreover have "undigits (dec_digits n)
      = undigits (dec_digits (n div 10)) * 10
        + (of_char (char_of (48 + n mod 10) :: char) - 48)"
      using False by (subst dec_digits.simps) (simp only: undigits_snoc if_False)
    ultimately show ?thesis using 1 [OF False] by simp
  qed
qed

lemma show_nat_inj [simp]: "show_nat m = show_nat n \<longleftrightarrow> m = n"
  by (metis show_nat_def undigits_dec_digits)

lemma dec_digits_digit: "c \<in> set (dec_digits n) \<Longrightarrow> (48::nat) \<le> of_char c \<and> of_char c \<le> (57::nat)"
proof (induction n rule: dec_digits.induct)
  case (1 n)
  have b: "(48::nat) \<le> of_char (char_of (48 + k) :: char)
      \<and> of_char (char_of (48 + k) :: char) \<le> (57::nat)" if "k < 10" for k :: nat
    using that by simp
  show ?case
  proof (cases "n < 10")
    case True
    then have "c = char_of (48 + n)" using 1(2) by (subst (asm) dec_digits.simps) simp
    then show ?thesis using b [OF True] by simp
  next
    case False
    then have "c \<in> set (dec_digits (n div 10)) \<or> c = char_of (48 + n mod 10)"
      using 1(2) by (subst (asm) dec_digits.simps) auto
    then show ?thesis using 1(1) [OF False] b [of "n mod 10"] by auto
  qed
qed

text \<open>\<open>str::split_once\<close>.\<close>

fun split_once :: "char \<Rightarrow> string \<Rightarrow> (string \<times> string) option" where
  "split_once c [] = None"
| "split_once c (x # xs) =
     (if x = c then Some ([], xs)
      else case split_once c xs of None \<Rightarrow> None | Some (a, b) \<Rightarrow> Some (x # a, b))"

section \<open>Lists, options and sets\<close>

lemma remdups_first_seen_set: "set (rev (remdups (rev xs))) = set xs"
  by simp

lemma map_upd_mono: "f \<subseteq>\<^sub>m g \<Longrightarrow> f k = None \<Longrightarrow> f \<subseteq>\<^sub>m g(k \<mapsto> v)"
  by (auto simp: map_le_def dom_def)

lemma sort_key_perm_eq:
  assumes "mset xs = mset ys" "distinct (map f xs)"
  shows "sort_key f xs = sort_key f ys"
proof -
  have d: "distinct (map f ys)"
    using assms by (metis mset_eq_imp_distinct_iff mset_map)
  have inj: "inj_on f (set xs)" "set ys = set xs"
    using assms by (auto simp: distinct_map dest: mset_eq_setD)
  show ?thesis
  proof (rule map_sorted_distinct_set_unique [of f])
    show "inj_on f (set (sort_key f xs) \<union> set (sort_key f ys))"
      using inj by simp
    show "set (sort_key f xs) = set (sort_key f ys)" using inj by simp
    show "sorted (map f (sort_key f xs))" "sorted (map f (sort_key f ys))" by simp_all
    show "distinct (map f (sort_key f xs))" "distinct (map f (sort_key f ys))"
      using assms(2) d by (simp_all add: distinct_map)
  qed
qed

end
