(* ===== verification/Effects.thy ===== *)
theory Effects
  imports Prelude
begin

text \<open>
  Errors and effects. \<open>error\<close> is the enum of aegis-core/src/error.rs (an operating
  system error is kept as the path it happened on), with two more constructors: a Rust
  panic, which the program does not catch, and the end of the fuel of a recursion whose
  depth the data does not bound. A \<open>Result<T>\<close> is \<open>error + 'a\<close>; code that reads
  or changes state is \<open>('s, 'a) io\<close>, which returns the state also when it fails, so
  that what a failed operation leaves behind is part of every statement. \<open>wp m Q s\<close>
  says that running \<open>m\<close> from \<open>s\<close> ends in a result and a state satisfying \<open>Q\<close>.
\<close>

section \<open>Errors\<close>

datatype error =
    Io string
  | RepoExists string
  | RepoNotFound string
  | UnsupportedFormat "32 word" "32 word"
  | SnapshotNotFound string
  | MissingBlob string
  | BadPath string
  | MalformedBlob string
  | DecompressFailed
  | CorruptBlob string
  | KdfFailed
  | EncryptFailed
  | DecryptFailed
  | WrongPassphrase
  | NoPassphrase
  | KeyError string
  | Malformed string
  | InvalidChunkerConfig
  | Ssh string
  | Catalog string
  | Unauthorized
  | RateLimited
  | InvalidInput string
  | HostKeyChanged string
  | Panicked string
  | OutOfFuel

type_synonym 'a res = "error + 'a"

definition is_ok :: "'a res \<Rightarrow> bool" where
  "is_ok r = (case r of Inl _ \<Rightarrow> False | Inr _ \<Rightarrow> True)"

lemma is_ok_simps [simp]: "is_ok (Inr a)" "\<not> is_ok (Inl e)"
  by (simp_all add: is_ok_def)

lemma is_ok_iff: "is_ok r \<longleftrightarrow> (\<exists>a. r = Inr a)"
  by (cases r) auto

text \<open>\<open>?\<close> on a result, \<open>map_err\<close>, and \<open>try_for_each\<close> over a vector.\<close>

definition res_bind :: "'a res \<Rightarrow> ('a \<Rightarrow> 'b res) \<Rightarrow> 'b res" where
  "res_bind r f = (case r of Inl e \<Rightarrow> Inl e | Inr a \<Rightarrow> f a)"

definition map_err :: "(error \<Rightarrow> error) \<Rightarrow> 'a res \<Rightarrow> 'a res" where
  "map_err g r = (case r of Inl e \<Rightarrow> Inl (g e) | Inr a \<Rightarrow> Inr a)"

definition ok_or :: "error \<Rightarrow> 'a option \<Rightarrow> 'a res" where
  "ok_or e opt = (case opt of None \<Rightarrow> Inl e | Some a \<Rightarrow> Inr a)"

fun try_for_each :: "('a \<Rightarrow> unit res) \<Rightarrow> 'a list \<Rightarrow> unit res" where
  "try_for_each f [] = Inr ()"
| "try_for_each f (x # xs) = res_bind (f x) (\<lambda>_. try_for_each f xs)"

lemma try_for_each_cong [fundef_cong]:
  "\<lbrakk> xs = ys; \<And>x. x \<in> set ys \<Longrightarrow> f x = g x \<rbrakk> \<Longrightarrow> try_for_each f xs = try_for_each g ys"
  by (induction xs arbitrary: ys) auto

lemma res_bind_simps [simp]: "res_bind (Inl e) f = Inl e" "res_bind (Inr a) f = f a"
  by (simp_all add: res_bind_def)

lemma res_bind_Inr: "res_bind r f = Inr b \<longleftrightarrow> (\<exists>a. r = Inr a \<and> f a = Inr b)"
  by (cases r) auto

lemma ok_or_simps [simp]: "ok_or e None = Inl e" "ok_or e (Some a) = Inr a"
  by (simp_all add: ok_or_def)

lemma ok_or_Inr [simp]: "ok_or e opt = Inr a \<longleftrightarrow> opt = Some a"
  by (cases opt) auto

lemma map_err_simps [simp]: "map_err g (Inl e) = Inl (g e)" "map_err g (Inr a) = Inr a"
  by (simp_all add: map_err_def)

lemma map_err_Inr [simp]: "map_err g r = Inr a \<longleftrightarrow> r = Inr a"
  by (cases r) auto

lemma try_for_each_ok: "try_for_each f xs = Inr () \<longleftrightarrow> (\<forall>x\<in>set xs. f x = Inr ())"
  by (induction xs) (auto simp: res_bind_Inr)

lemma try_for_each_err: "try_for_each f xs = Inl e \<Longrightarrow> \<exists>x\<in>set xs. f x = Inl e"
  by (induction xs) (auto simp: res_bind_def split: sum.splits)

section \<open>State with errors\<close>

type_synonym ('s, 'a) io = "'s \<Rightarrow> 'a res \<times> 's"

definition ret :: "'a \<Rightarrow> ('s, 'a) io" where
  "ret a = (\<lambda>s. (Inr a, s))"

definition raise :: "error \<Rightarrow> ('s, 'a) io" where
  "raise e = (\<lambda>s. (Inl e, s))"

definition bnd :: "('s, 'a) io \<Rightarrow> ('a \<Rightarrow> ('s, 'b) io) \<Rightarrow> ('s, 'b) io" where
  "bnd m f = (\<lambda>s. case m s of (Inl e, t) \<Rightarrow> (Inl e, t) | (Inr a, t) \<Rightarrow> f a t)"

definition lift_res :: "'a res \<Rightarrow> ('s, 'a) io" where
  "lift_res r = (\<lambda>s. (r, s))"

definition gets :: "('s \<Rightarrow> 'a) \<Rightarrow> ('s, 'a) io" where
  "gets f = (\<lambda>s. (Inr (f s), s))"

definition modify :: "('s \<Rightarrow> 's) \<Rightarrow> ('s, unit) io" where
  "modify f = (\<lambda>s. (Inr (), f s))"

text \<open>\<open>match m.await { Ok(a) => ..., Err(e) => ... }\<close>.\<close>

definition try_io :: "('s, 'a) io \<Rightarrow> (error \<Rightarrow> ('s, 'b) io) \<Rightarrow> ('a \<Rightarrow> ('s, 'b) io) \<Rightarrow> ('s, 'b) io" where
  "try_io m h f = (\<lambda>s. case m s of (Inl e, t) \<Rightarrow> h e t | (Inr a, t) \<Rightarrow> f a t)"

text \<open>\<open>for x in xs { acc = step(acc, x)? }\<close>, and its special cases.\<close>

fun fold_io :: "('acc \<Rightarrow> 'a \<Rightarrow> ('s, 'acc) io) \<Rightarrow> 'acc \<Rightarrow> 'a list \<Rightarrow> ('s, 'acc) io" where
  "fold_io f acc [] = ret acc"
| "fold_io f acc (x # xs) = bnd (f acc x) (\<lambda>acc'. fold_io f acc' xs)"

fun for_io :: "('a \<Rightarrow> ('s, unit) io) \<Rightarrow> 'a list \<Rightarrow> ('s, unit) io" where
  "for_io f [] = ret ()"
| "for_io f (x # xs) = bnd (f x) (\<lambda>_. for_io f xs)"

lemma fold_io_cong [fundef_cong]:
  "\<lbrakk> a = b; xs = ys; \<And>acc x. x \<in> set ys \<Longrightarrow> f acc x = g acc x \<rbrakk>
    \<Longrightarrow> fold_io f a xs = fold_io g b ys"
proof (induction xs arbitrary: a b ys)
  case (Cons x xs)
  then show ?case by (auto simp: bnd_def intro!: ext split: prod.splits sum.splits)
qed auto

lemma for_io_cong [fundef_cong]:
  "\<lbrakk> xs = ys; \<And>x. x \<in> set ys \<Longrightarrow> f x = g x \<rbrakk> \<Longrightarrow> for_io f xs = for_io g ys"
  by (induction xs arbitrary: ys) auto

section \<open>Weakest preconditions\<close>

definition wp :: "('s, 'a) io \<Rightarrow> ('a res \<Rightarrow> 's \<Rightarrow> bool) \<Rightarrow> 's \<Rightarrow> bool" where
  "wp m Q s = (case m s of (r, t) \<Rightarrow> Q r t)"

named_theorems wp_simps \<open>weakest preconditions of the combinators\<close>

lemma wp_ret [wp_simps]: "wp (ret a) Q s = Q (Inr a) s"
  by (simp add: wp_def ret_def)

lemma wp_raise [wp_simps]: "wp (raise e) Q s = Q (Inl e) s"
  by (simp add: wp_def raise_def)

lemma wp_lift_res [wp_simps]: "wp (lift_res r) Q s = Q r s"
  by (simp add: wp_def lift_res_def)

lemma wp_gets [wp_simps]: "wp (gets f) Q s = Q (Inr (f s)) s"
  by (simp add: wp_def gets_def)

lemma wp_modify [wp_simps]: "wp (modify f) Q s = Q (Inr ()) (f s)"
  by (simp add: wp_def modify_def)

lemma wp_bnd [wp_simps]:
  "wp (bnd m f) Q s
    = wp m (\<lambda>r t. case r of Inl e \<Rightarrow> Q (Inl e) t | Inr a \<Rightarrow> wp (f a) Q t) s"
  by (auto simp: wp_def bnd_def split: prod.splits sum.splits)

lemma wp_try_io [wp_simps]:
  "wp (try_io m h f) Q s
    = wp m (\<lambda>r t. case r of Inl e \<Rightarrow> wp (h e) Q t | Inr a \<Rightarrow> wp (f a) Q t) s"
  by (auto simp: wp_def try_io_def split: prod.splits sum.splits)

lemma wp_if [wp_simps]:
  "wp (if b then m else n) Q s = (if b then wp m Q s else wp n Q s)"
  by simp

lemma wp_mono: "\<lbrakk> wp m Q s; \<And>r t. Q r t \<Longrightarrow> R r t \<rbrakk> \<Longrightarrow> wp m R s"
  by (auto simp: wp_def split: prod.splits)

lemma wp_conj: "wp m (\<lambda>r t. Q r t \<and> R r t) s \<longleftrightarrow> wp m Q s \<and> wp m R s"
  by (auto simp: wp_def split: prod.splits)

lemma wp_run: "wp m Q s \<Longrightarrow> m s = (r, t) \<Longrightarrow> Q r t"
  by (simp add: wp_def)

lemma wp_iff: "wp m Q s \<longleftrightarrow> (\<forall>r t. m s = (r, t) \<longrightarrow> Q r t)"
  by (auto simp: wp_def split: prod.splits)

lemma wpI: "(\<And>r t. m s = (r, t) \<Longrightarrow> Q r t) \<Longrightarrow> wp m Q s"
  by (simp add: wp_iff)

text \<open>
  A sequence keeps a postcondition when its first part ends in a mid-condition that
  both its error exit and its continuation reach the postcondition from.
\<close>

lemma wp_bndI:
  assumes "wp m M s"
    and "\<And>e t. M (Inl e) t \<Longrightarrow> Q (Inl e) t"
    and "\<And>a t. M (Inr a) t \<Longrightarrow> wp (f a) Q t"
  shows "wp (bnd m f) Q s"
  unfolding wp_bnd by (rule wp_mono [OF assms(1)]) (auto split: sum.splits intro: assms(2,3))

lemma wp_try_ioI:
  assumes "wp m M s"
    and "\<And>e t. M (Inl e) t \<Longrightarrow> wp (h e) Q t"
    and "\<And>a t. M (Inr a) t \<Longrightarrow> wp (f a) Q t"
  shows "wp (try_io m h f) Q s"
  unfolding wp_try_io by (rule wp_mono [OF assms(1)]) (auto split: sum.splits intro: assms(2,3))

text \<open>Loop rules: an invariant over the processed prefix, or one that ignores it.\<close>

lemma wp_fold_io:
  assumes "Inv [] acc s"
    and step: "\<And>done x rest a t. \<lbrakk> xs = done @ x # rest; Inv done a t \<rbrakk>
      \<Longrightarrow> wp (f a x) (\<lambda>r u. case r of Inl e \<Rightarrow> Q (Inl e) u | Inr b \<Rightarrow> Inv (done @ [x]) b u) t"
    and fin: "\<And>a t. Inv xs a t \<Longrightarrow> Q (Inr a) t"
  shows "wp (fold_io f acc xs) Q s"
proof -
  have "wp (fold_io f a ys) Q t" if "xs = done @ ys" "Inv done a t" for "done" a ys t
    using that
  proof (induction ys arbitrary: "done" a t)
    case Nil
    then show ?case by (simp add: wp_simps fin)
  next
    case (Cons y ys)
    show ?case
      by (simp add: wp_simps, rule wp_mono [OF step [OF Cons.prems]])
        (auto split: sum.splits intro: Cons.IH [of "done @ [y]"] simp: Cons.prems)
  qed
  then show ?thesis using assms(1) by simp
qed

lemma wp_for_io:
  assumes "Inv [] s"
    and step: "\<And>done x rest t. \<lbrakk> xs = done @ x # rest; Inv done t \<rbrakk>
      \<Longrightarrow> wp (f x) (\<lambda>r u. case r of Inl e \<Rightarrow> Q (Inl e) u | Inr b \<Rightarrow> Inv (done @ [x]) u) t"
    and fin: "\<And>t. Inv xs t \<Longrightarrow> Q (Inr ()) t"
  shows "wp (for_io f xs) Q s"
proof -
  have "wp (for_io f ys) Q t" if "xs = done @ ys" "Inv done t" for "done" ys t
    using that
  proof (induction ys arbitrary: "done" t)
    case Nil
    then show ?case by (simp add: wp_simps fin)
  next
    case (Cons y ys)
    show ?case
      by (simp add: wp_simps, rule wp_mono [OF step [OF Cons.prems]])
        (auto split: sum.splits intro: Cons.IH [of "done @ [y]"] simp: Cons.prems)
  qed
  then show ?thesis using assms(1) by simp
qed

lemma wp_fold_io_inv:
  assumes "I s"
    and "\<And>a x t. \<lbrakk> x \<in> set xs; I t \<rbrakk> \<Longrightarrow> wp (f a x) (\<lambda>r u. I u) t"
  shows "wp (fold_io f acc xs) (\<lambda>r u. I u) s"
  by (rule wp_fold_io [where Inv = "\<lambda>_ _ t. I t"])
    (auto intro!: assms wp_mono [OF assms(2)] split: sum.splits)

lemma wp_for_io_inv:
  assumes "I s"
    and "\<And>x t. \<lbrakk> x \<in> set xs; I t \<rbrakk> \<Longrightarrow> wp (f x) (\<lambda>r u. I u) t"
  shows "wp (for_io f xs) (\<lambda>r u. I u) s"
  by (rule wp_for_io [where Inv = "\<lambda>_ t. I t"])
    (auto intro!: assms wp_mono [OF assms(2)] split: sum.splits)

text \<open>Evaluation rules, for running a definition on a concrete state.\<close>

named_theorems run_simps \<open>rules that run a monadic definition on a concrete state\<close>

lemma run_ret [run_simps]: "ret a s = (Inr a, s)" by (simp add: ret_def)
lemma run_raise [run_simps]: "raise e s = (Inl e, s)" by (simp add: raise_def)
lemma run_lift_res [run_simps]: "lift_res r s = (r, s)" by (simp add: lift_res_def)
lemma run_gets [run_simps]: "gets f s = (Inr (f s), s)" by (simp add: gets_def)
lemma run_modify [run_simps]: "modify f s = (Inr (), f s)" by (simp add: modify_def)

lemma run_bnd [run_simps]:
  "bnd m f s = (case m s of (Inl e, t) \<Rightarrow> (Inl e, t) | (Inr a, t) \<Rightarrow> f a t)"
  by (simp add: bnd_def)

lemma run_try_io [run_simps]:
  "try_io m h f s = (case m s of (Inl e, t) \<Rightarrow> h e t | (Inr a, t) \<Rightarrow> f a t)"
  by (simp add: try_io_def)

text \<open>A step that returns or fails at once.\<close>

lemma bnd_ret [simp]: "bnd (ret a) f = f a"
  by (rule ext) (simp add: bnd_def ret_def)

lemma lift_res_Inr [simp]: "lift_res (Inr a) = ret a"
  by (rule ext) (simp add: lift_res_def ret_def)

lemma lift_res_Inl [simp]: "lift_res (Inl e) = raise e"
  by (rule ext) (simp add: lift_res_def raise_def)

lemma bnd_raise [simp]: "bnd (raise e) f = raise e"
  by (rule ext) (simp add: bnd_def raise_def)

end
