(* ===== verification/File_System.thy ===== *)
theory File_System
  imports Effects "HOL-Library.AList"
begin

text \<open>
  The operating system's file system as the program uses it through \<open>std::fs\<close> and
  \<open>tokio::fs\<close>: a finite map from absolute paths (component lists) to entries. The
  standard library calls are total functions over it; \<open>os_state\<close> adds a schedule of
  faults, one entry per call, so that every statement can quantify over the calls that
  fail (\<open>Some n\<close>: the call fails, a write after \<open>n\<close> bytes). An entry is a file, a
  directory, a symbolic link or something else, on which every call but a removal fails.

  The operations of the first group address the entry a path is, with no link on the way;
  they serve the files the program itself lays out below a physical path. The operations
  named \<open>follow_\<close> are the same calls with the path lookup of the operating system, which
  goes through links; a restore, which writes into a directory it does not own, uses them.
\<close>

type_synonym path = "string list"

datatype fs_entry = EFile bytes "32 word option" "int option" | EDir | ELink path | EOther

text \<open>
  A file carries its contents, the permission bits and the modification time when a call
  set them (\<open>None\<close>: the defaults of the process and of the write); a link carries the
  absolute path it denotes.
\<close>

type_synonym fs = "(path \<times> fs_entry) list"

datatype io_kind = NotFound | OtherKind

definition path_str :: "path \<Rightarrow> string" where
  "path_str p = CHR ''/'' # join_with (CHR ''/'') p"

definition ent :: "fs \<Rightarrow> path \<Rightarrow> fs_entry option" where
  "ent fs p = (if p = [] then Some EDir else map_of fs p)"

definition parents :: "path \<Rightarrow> path list" where
  "parents p = map (\<lambda>n. take n p) [0..<length p]"

definition is_dir :: "fs \<Rightarrow> path \<Rightarrow> bool" where
  "is_dir fs p \<longleftrightarrow> ent fs p = Some EDir"

text \<open>
  \<open>PathBuf::push\<close> of one segment, with the meaning the operating system gives the result:
  \<open>..\<close> is the parent.
\<close>

definition join_seg :: "path \<Rightarrow> string \<Rightarrow> path" where
  "join_seg p seg = (if seg = [] \<or> seg = ''.'' then p else if seg = ''..'' then butlast p else p @ [seg])"

definition plain_seg :: "string \<Rightarrow> bool" where
  "plain_seg s \<longleftrightarrow> s \<noteq> [] \<and> s \<noteq> ''.'' \<and> s \<noteq> ''..''"

lemma foldl_join: "\<forall>seg\<in>set q. plain_seg seg \<Longrightarrow> foldl join_seg root q = root @ q"
  by (induction q arbitrary: root) (auto simp: join_seg_def plain_seg_def)

text \<open>A tree-shaped file system: the parent of every entry is a directory.\<close>

definition fs_wf :: "fs \<Rightarrow> bool" where
  "fs_wf fs \<longleftrightarrow> distinct (map fst fs) \<and> (\<forall>p. p \<noteq> [] \<longrightarrow> ent fs p \<noteq> None \<longrightarrow> is_dir fs (butlast p))"

text \<open>
  Path lookup: a missing component is \<open>NotFound\<close>, a component that is not a directory
  is another error.
\<close>

definition stat :: "fs \<Rightarrow> path \<Rightarrow> io_kind + fs_entry" where
  "stat fs p = (case ent fs p of
      Some e \<Rightarrow> Inr e
    | None \<Rightarrow> if list_all (\<lambda>q. ent fs q = None \<or> ent fs q = Some EDir) (parents p)
              then Inl NotFound else Inl OtherKind)"

definition fs_set :: "path \<Rightarrow> fs_entry \<Rightarrow> fs \<Rightarrow> fs" where
  "fs_set p e fs = AList.update p e fs"

definition fs_del :: "path \<Rightarrow> fs \<Rightarrow> fs" where
  "fs_del p fs = AList.delete p fs"

definition fs_read :: "path \<Rightarrow> fs \<Rightarrow> io_kind + bytes \<times> fs" where
  "fs_read p fs = (case stat fs p of
      Inr (EFile d _ _) \<Rightarrow> Inr (d, fs) | Inr _ \<Rightarrow> Inl OtherKind | Inl k \<Rightarrow> Inl k)"

definition fs_stat :: "path \<Rightarrow> fs \<Rightarrow> io_kind + fs_entry \<times> fs" where
  "fs_stat p fs = (case stat fs p of Inl k \<Rightarrow> Inl k | Inr e \<Rightarrow> Inr (e, fs))"

text \<open>One step of \<open>create_dir_all\<close>: an existing directory is fine.\<close>

definition fs_mkdir :: "path \<Rightarrow> fs \<Rightarrow> io_kind + unit \<times> fs" where
  "fs_mkdir p fs = (case stat fs p of
      Inr EDir \<Rightarrow> Inr ((), fs)
    | Inr _ \<Rightarrow> Inl OtherKind
    | Inl OtherKind \<Rightarrow> Inl OtherKind
    | Inl NotFound \<Rightarrow> if is_dir fs (butlast p) then Inr ((), fs_set p EDir fs) else Inl NotFound)"

text \<open>\<open>File::create\<close>: create or truncate; an existing file keeps its permissions.\<close>

definition fs_create :: "path \<Rightarrow> fs \<Rightarrow> io_kind + unit \<times> fs" where
  "fs_create p fs = (case stat fs p of
      Inr (EFile _ m _) \<Rightarrow> Inr ((), fs_set p (EFile [] m None) fs)
    | Inr _ \<Rightarrow> Inl OtherKind
    | Inl OtherKind \<Rightarrow> Inl OtherKind
    | Inl NotFound \<Rightarrow> if is_dir fs (butlast p) then Inr ((), fs_set p (EFile [] None None) fs)
                       else Inl NotFound)"

definition fs_append :: "path \<Rightarrow> bytes \<Rightarrow> fs \<Rightarrow> fs" where
  "fs_append p d fs = (case ent fs p of
      Some (EFile c m _) \<Rightarrow> fs_set p (EFile (c @ d) m None) fs | _ \<Rightarrow> fs)"

definition fs_rename :: "path \<Rightarrow> path \<Rightarrow> fs \<Rightarrow> io_kind + unit \<times> fs" where
  "fs_rename p q fs = (case stat fs p of
      Inl k \<Rightarrow> Inl k
    | Inr EDir \<Rightarrow> Inl OtherKind
    | Inr e \<Rightarrow> (case stat fs q of
          Inr EDir \<Rightarrow> Inl OtherKind
        | Inl OtherKind \<Rightarrow> Inl OtherKind
        | _ \<Rightarrow> if is_dir fs (butlast q) then Inr ((), fs_set q e (fs_del p fs)) else Inl NotFound))"

definition fs_remove_file :: "path \<Rightarrow> fs \<Rightarrow> io_kind + unit \<times> fs" where
  "fs_remove_file p fs = (case stat fs p of
      Inl k \<Rightarrow> Inl k | Inr EDir \<Rightarrow> Inl OtherKind | Inr _ \<Rightarrow> Inr ((), fs_del p fs))"

definition fs_read_dir :: "path \<Rightarrow> fs \<Rightarrow> io_kind + (string \<times> fs_entry) list \<times> fs" where
  "fs_read_dir p fs = (case stat fs p of
      Inl k \<Rightarrow> Inl k
    | Inr EDir \<Rightarrow> Inr (map (\<lambda>(q, e). (last q, e)) (filter (\<lambda>(q, e). q \<noteq> [] \<and> butlast q = p) fs), fs)
    | Inr _ \<Rightarrow> Inl OtherKind)"

section \<open>Following links\<close>

definition SYMLOOP_MAX :: nat where
  "SYMLOOP_MAX = 40"

text \<open>
  Path lookup component by component: a link is replaced by what it denotes, up to forty
  times. The result is the physical path; whether something is there is for the call to find out.
\<close>

function resolve_links :: "fs \<Rightarrow> nat \<Rightarrow> path \<Rightarrow> string list \<Rightarrow> path option" where
  "resolve_links fs fuel at [] = Some at"
| "resolve_links fs fuel at (c # rest) = (case ent fs (at @ [c]) of
      Some (ELink t) \<Rightarrow> (case fuel of 0 \<Rightarrow> None | Suc f \<Rightarrow> resolve_links fs f [] (t @ rest))
    | _ \<Rightarrow> resolve_links fs fuel (at @ [c]) rest)"
  by pat_completeness auto
termination
  by (relation "measures [\<lambda>(_, fuel, _, _). fuel, \<lambda>(_, _, _, rest). length rest]") auto

definition real_path :: "fs \<Rightarrow> path \<Rightarrow> path option" where
  "real_path fs p = resolve_links fs SYMLOOP_MAX [] p"

text \<open>
  One step of \<open>create_dir_all\<close>: the last component is not followed, but a link to a
  directory counts as one.
\<close>

definition follow_mkdir :: "path \<Rightarrow> fs \<Rightarrow> io_kind + unit \<times> fs" where
  "follow_mkdir p fs = (if p = [] then Inr ((), fs) else case real_path fs (butlast p) of
      None \<Rightarrow> Inl OtherKind
    | Some d \<Rightarrow> (case ent fs (d @ [last p]) of
          Some (ELink _) \<Rightarrow> (case real_path fs p of
              None \<Rightarrow> Inl OtherKind | Some q \<Rightarrow> if is_dir fs q then Inr ((), fs) else Inl OtherKind)
        | _ \<Rightarrow> fs_mkdir (d @ [last p]) fs))"

text \<open>\<open>File::create\<close> yields a handle on the file it opened: its physical path.\<close>

definition follow_create :: "path \<Rightarrow> fs \<Rightarrow> io_kind + path \<times> fs" where
  "follow_create p fs = (case real_path fs p of
      None \<Rightarrow> Inl OtherKind
    | Some h \<Rightarrow> (case fs_create h fs of Inl k \<Rightarrow> Inl k | Inr (_, fs') \<Rightarrow> Inr (h, fs')))"

definition fs_chmod :: "path \<Rightarrow> 32 word \<Rightarrow> fs \<Rightarrow> io_kind + unit \<times> fs" where
  "fs_chmod p mode fs = (case stat fs p of
      Inl k \<Rightarrow> Inl k
    | Inr (EFile d _ t) \<Rightarrow> Inr ((), fs_set p (EFile d (Some (and mode 0xFFF)) t) fs)
    | Inr _ \<Rightarrow> Inr ((), fs))"

definition fs_set_mtime :: "path \<Rightarrow> int \<Rightarrow> fs \<Rightarrow> io_kind + unit \<times> fs" where
  "fs_set_mtime p t fs = (case stat fs p of
      Inl k \<Rightarrow> Inl k
    | Inr (EFile d m _) \<Rightarrow> Inr ((), fs_set p (EFile d m (Some t)) fs)
    | Inr _ \<Rightarrow> Inr ((), fs))"

definition follow_chmod :: "path \<Rightarrow> 32 word \<Rightarrow> fs \<Rightarrow> io_kind + unit \<times> fs" where
  "follow_chmod p mode fs = (case real_path fs p of None \<Rightarrow> Inl OtherKind | Some q \<Rightarrow> fs_chmod q mode fs)"

definition follow_set_mtime :: "path \<Rightarrow> int \<Rightarrow> fs \<Rightarrow> io_kind + unit \<times> fs" where
  "follow_set_mtime p t fs = (case real_path fs p of None \<Rightarrow> Inl OtherKind | Some q \<Rightarrow> fs_set_mtime q t fs)"

section \<open>Calls that may fail\<close>

record os_state =
  os_fs :: fs
  os_faults :: "nat option list"

definition faultless :: "os_state \<Rightarrow> bool" where
  "faultless s \<longleftrightarrow> list_all (\<lambda>x. x = None) (os_faults s)"

definition next_fault :: "os_state \<Rightarrow> nat option" where
  "next_fault s = (case os_faults s of [] \<Rightarrow> None | x # _ \<Rightarrow> x)"

definition used_fault :: "os_state \<Rightarrow> os_state" where
  "used_fault s = s\<lparr> os_faults := tl (os_faults s) \<rparr>"

text \<open>A call whose error kind the caller inspects, and one whose error becomes \<open>Error::Io\<close>.\<close>

definition os_try :: "(fs \<Rightarrow> io_kind + 'a \<times> fs) \<Rightarrow> (os_state, io_kind + 'a) io" where
  "os_try f = (\<lambda>s. let t = used_fault s in
      case next_fault s of
        Some _ \<Rightarrow> (Inr (Inl OtherKind), t)
      | None \<Rightarrow> (case f (os_fs s) of
            Inl k \<Rightarrow> (Inr (Inl k), t) | Inr (a, fs) \<Rightarrow> (Inr (Inr a), t\<lparr> os_fs := fs \<rparr>)))"

definition os_call :: "path \<Rightarrow> (fs \<Rightarrow> io_kind + 'a \<times> fs) \<Rightarrow> (os_state, 'a) io" where
  "os_call p f = bnd (os_try f) (\<lambda>r. case r of Inl _ \<Rightarrow> raise (Io (path_str p)) | Inr a \<Rightarrow> ret a)"

text \<open>A write to the open file \<open>h\<close>; an error names the path \<open>p\<close>.\<close>

definition os_write_to :: "path \<Rightarrow> path \<Rightarrow> bytes \<Rightarrow> (os_state, unit) io" where
  "os_write_to p h d = (\<lambda>s. let t = used_fault s in
      case next_fault s of
        Some n \<Rightarrow> (Inl (Io (path_str p)), t\<lparr> os_fs := fs_append h (take n d) (os_fs s) \<rparr>)
      | None \<Rightarrow> (Inr (), t\<lparr> os_fs := fs_append h d (os_fs s) \<rparr>))"

definition os_write :: "path \<Rightarrow> bytes \<Rightarrow> (os_state, unit) io" where
  "os_write p d = os_write_to p p d"

definition create_dir_all :: "path \<Rightarrow> (os_state, unit) io" where
  "create_dir_all p = for_io (\<lambda>n. os_call p (fs_mkdir (take n p))) [1..<Suc (length p)]"

definition follow_dir_all :: "path \<Rightarrow> (os_state, unit) io" where
  "follow_dir_all p = for_io (\<lambda>n. os_call p (follow_mkdir (take n p))) [1..<Suc (length p)]"

section \<open>Lemmas\<close>

lemma ent_Nil [simp]: "ent fs [] = Some EDir"
  by (simp add: ent_def)

lemma ent_set [simp]: "p \<noteq> [] \<Longrightarrow> ent (fs_set p e fs) q = (if q = p then Some e else ent fs q)"
  by (auto simp: ent_def fs_set_def update_conv')

lemma ent_del: "distinct (map fst fs) \<Longrightarrow> p \<noteq> [] \<Longrightarrow> ent (fs_del p fs) q = (if q = p then None else ent fs q)"
  by (auto simp: ent_def fs_del_def delete_conv')

lemma ent_del' [simp]: "p \<noteq> [] \<Longrightarrow> ent (fs_del p fs) q = (if q = p then None else ent fs q)"
  by (auto simp: ent_def fs_del_def delete_conv')

lemma distinct_set [simp]: "distinct (map fst fs) \<Longrightarrow> distinct (map fst (fs_set p e fs))"
  by (simp add: fs_set_def distinct_update)

lemma distinct_del [simp]: "distinct (map fst fs) \<Longrightarrow> distinct (map fst (fs_del p fs))"
  by (simp add: fs_del_def distinct_delete)

lemma fs_wf_distinct [simp]: "fs_wf fs \<Longrightarrow> distinct (map fst fs)"
  by (simp add: fs_wf_def)

lemma fs_wf_parent: "fs_wf fs \<Longrightarrow> ent fs p = Some e \<Longrightarrow> p \<noteq> [] \<Longrightarrow> is_dir fs (butlast p)"
  by (auto simp: fs_wf_def)

lemma is_dir_Nil [simp]: "is_dir fs []"
  by (simp add: is_dir_def)

lemma fs_wf_ancestor:
  assumes "fs_wf fs" "ent fs p = Some e" "n < length p"
  shows "is_dir fs (take n p)"
  using assms(2,3)
proof (induction p arbitrary: e rule: rev_induct)
  case (snoc x p)
  have d: "is_dir fs p" using fs_wf_parent [OF assms(1) snoc.prems(1)] by simp
  show ?case
  proof (cases "n = length p")
    case False
    then have "n < length p" using snoc.prems(2) by simp
    moreover have "ent fs p = Some EDir" using d by (simp add: is_dir_def)
    ultimately show ?thesis using snoc.IH by simp
  qed (use d in simp)
qed simp

lemma stat_Some [simp]: "ent fs p = Some e \<Longrightarrow> stat fs p = Inr e"
  by (simp add: stat_def)

lemma stat_Inr: "stat fs p = Inr e \<longleftrightarrow> ent fs p = Some e"
  by (auto simp: stat_def split: option.splits)

lemma parents_butlast: "p \<noteq> [] \<Longrightarrow> parents p = parents (butlast p) @ [butlast p]"
proof -
  assume "p \<noteq> []"
  then obtain q x where "p = q @ [x]" by (metis append_butlast_last_id)
  then show ?thesis by (simp add: parents_def)
qed

lemma stat_under_dir:
  assumes "fs_wf fs" "is_dir fs (butlast p)" "ent fs p = None"
  shows "stat fs p = Inl NotFound"
proof -
  have "p \<noteq> []" using assms(3) by auto
  have "list_all (\<lambda>q. ent fs q = None \<or> ent fs q = Some EDir) (parents p)"
  proof -
    have "is_dir fs (take n p)" if n: "n < length p" for n
    proof (cases "n = length p - 1")
      case True
      then show ?thesis using assms(2) by (simp add: butlast_conv_take)
    next
      case False
      then have "n < length (butlast p)" using n by simp
      then have "is_dir fs (take n (butlast p))"
        using fs_wf_ancestor [OF assms(1)] assms(2) by (auto simp: is_dir_def)
      moreover have "take n (butlast p) = take n p"
        using \<open>n < length (butlast p)\<close> by (simp add: take_butlast)
      ultimately show ?thesis by simp
    qed
    then show ?thesis by (auto simp: list_all_iff parents_def is_dir_def)
  qed
  then show ?thesis using assms(3) by (simp add: stat_def)
qed

text \<open>A path with no link on the way is physical, and following it changes nothing.\<close>

definition is_link :: "fs \<Rightarrow> path \<Rightarrow> bool" where
  "is_link fs p \<longleftrightarrow> (case ent fs p of Some (ELink _) \<Rightarrow> True | _ \<Rightarrow> False)"

definition unlinked :: "fs \<Rightarrow> path \<Rightarrow> bool" where
  "unlinked fs p \<longleftrightarrow> (\<forall>n\<le>length p. \<not> is_link fs (take n p))"

lemma is_link_ent: "is_link fs p \<longleftrightarrow> (\<exists>t. ent fs p = Some (ELink t))"
  by (auto simp: is_link_def split: option.splits fs_entry.splits)

lemma resolve_unlinked: "\<forall>n\<le>length rest. \<not> is_link fs (at @ take n rest) \<Longrightarrow> resolve_links fs f at rest = Some (at @ rest)"
proof (induction rest arbitrary: at)
  case (Cons c rest)
  have "\<not> is_link fs (at @ [c])" using Cons.prems [rule_format, of 1] by simp
  moreover have "resolve_links fs f (at @ [c]) rest = Some ((at @ [c]) @ rest)"
    by (rule Cons.IH) (use Cons.prems in \<open>auto dest: spec [of _ "Suc _"]\<close>)
  ultimately show ?case by (auto simp: is_link_def split: option.splits fs_entry.splits)
qed simp

lemma real_path_unlinked: "unlinked fs p \<Longrightarrow> real_path fs p = Some p"
  using resolve_unlinked [of p fs "[]"] by (simp add: real_path_def unlinked_def)

lemma unlinked_butlast: "unlinked fs p \<Longrightarrow> unlinked fs (butlast p)"
  by (auto simp: unlinked_def take_butlast butlast_conv_take min_def)

lemma unlinked_below:
  assumes "fs_wf fs" "is_dir fs (butlast p)" "\<not> is_link fs p"
  shows "unlinked fs p"
  unfolding unlinked_def
proof (intro allI impI)
  fix n
  assume n: "n \<le> length p"
  show "\<not> is_link fs (take n p)"
  proof (cases "n = length p")
    case False
    then have l: "n \<le> length (butlast p)" "p \<noteq> []" using n by auto
    have "is_dir fs (take n (butlast p))"
    proof (cases "n = length (butlast p)")
      case False
      then show ?thesis using l assms(2) fs_wf_ancestor [OF assms(1), of "butlast p" EDir n] by (simp add: is_dir_def)
    qed (use assms(2) in simp)
    moreover have "take n (butlast p) = take n p" using l by (cases p rule: rev_cases) auto
    ultimately show ?thesis by (simp add: is_dir_def is_link_def)
  qed (use assms(3) in simp)
qed

lemma unlinked_entry: "fs_wf fs \<Longrightarrow> ent fs p = Some e \<Longrightarrow> \<not> is_link fs p \<Longrightarrow> unlinked fs p"
  using fs_wf_parent [of fs p e] unlinked_below [of fs p] by (cases "p = []") (auto simp: unlinked_def)

lemma unlinked_dir: "fs_wf fs \<Longrightarrow> is_dir fs p \<Longrightarrow> unlinked fs p"
  by (rule unlinked_entry) (auto simp: is_dir_def is_link_def)

lemma follow_unlinked:
  assumes "unlinked fs p"
  shows "follow_mkdir p fs = (if p = [] then Inr ((), fs) else fs_mkdir p fs)"
    and "follow_create p fs = (case fs_create p fs of Inl k \<Rightarrow> Inl k | Inr (_, fs') \<Rightarrow> Inr (p, fs'))"
    and "follow_chmod p mode fs = fs_chmod p mode fs"
    and "follow_set_mtime p t fs = fs_set_mtime p t fs"
proof -
  have "\<not> is_link fs p" using assms unfolding unlinked_def by (auto dest: spec [of _ "length p"])
  then show "follow_mkdir p fs = (if p = [] then Inr ((), fs) else fs_mkdir p fs)"
    using real_path_unlinked [OF unlinked_butlast [OF assms]]
    by (auto simp: follow_mkdir_def is_link_def split: option.splits fs_entry.splits)
qed (simp_all add: follow_create_def follow_chmod_def follow_set_mtime_def real_path_unlinked [OF assms])

lemma fs_wf_set:
  assumes "fs_wf fs" "p \<noteq> []" "is_dir fs (butlast p)"
    and "e = EDir \<or> ent fs p \<noteq> Some EDir"
  shows "fs_wf (fs_set p e fs)"
  unfolding fs_wf_def
proof (intro conjI allI impI)
  show "distinct (map fst (fs_set p e fs))" using assms(1) by simp
  fix q
  assume q: "q \<noteq> []" "ent (fs_set p e fs) q \<noteq> None"
  show "is_dir (fs_set p e fs) (butlast q)"
  proof (cases "q = p")
    case True
    have "butlast p \<noteq> p" using assms(2) by (metis append_butlast_last_id append_self_conv list.distinct(1))
    then show ?thesis using assms True by (simp add: is_dir_def)
  next
    case False
    then have "is_dir fs (butlast q)" using q assms(1,2) by (auto simp: fs_wf_def)
    then show ?thesis using assms(2,4) by (auto simp: is_dir_def)
  qed
qed

lemma fs_wf_del:
  assumes "fs_wf fs" "p \<noteq> []" "ent fs p \<noteq> Some EDir"
  shows "fs_wf (fs_del p fs)"
  using assms by (auto simp: fs_wf_def is_dir_def)

text \<open>Weakest preconditions of the calls.\<close>

lemma wp_os_try [wp_simps]:
  "wp (os_try f) Q s =
    (case next_fault s of
        Some _ \<Rightarrow> Q (Inr (Inl OtherKind)) (used_fault s)
      | None \<Rightarrow> (case f (os_fs s) of
            Inl k \<Rightarrow> Q (Inr (Inl k)) (used_fault s)
          | Inr (a, fs) \<Rightarrow> Q (Inr (Inr a)) (used_fault s\<lparr> os_fs := fs \<rparr>)))"
  by (auto simp: wp_def os_try_def Let_def split: option.splits sum.splits prod.splits)

lemma wp_os_call [wp_simps]:
  "wp (os_call p f) Q s =
    (case next_fault s of
        Some _ \<Rightarrow> Q (Inl (Io (path_str p))) (used_fault s)
      | None \<Rightarrow> (case f (os_fs s) of
            Inl k \<Rightarrow> Q (Inl (Io (path_str p))) (used_fault s)
          | Inr (a, fs) \<Rightarrow> Q (Inr a) (used_fault s\<lparr> os_fs := fs \<rparr>)))"
  by (auto simp: os_call_def wp_simps split: option.splits sum.splits prod.splits)

lemma wp_os_write_to [wp_simps]:
  "wp (os_write_to p h d) Q s =
    (case next_fault s of
        Some n \<Rightarrow> Q (Inl (Io (path_str p))) (used_fault s\<lparr> os_fs := fs_append h (take n d) (os_fs s) \<rparr>)
      | None \<Rightarrow> Q (Inr ()) (used_fault s\<lparr> os_fs := fs_append h d (os_fs s) \<rparr>))"
  by (auto simp: wp_def os_write_to_def Let_def split: option.splits)

lemmas wp_os_write [wp_simps] = wp_os_write_to [of p p for p, folded os_write_def]

lemma os_fs_used [simp]: "os_fs (used_fault s) = os_fs s"
  by (simp add: used_fault_def)

lemma faultless_next: "faultless s \<Longrightarrow> next_fault s = None"
  by (auto simp: faultless_def next_fault_def split: list.splits)

lemma faultless_used [simp]: "faultless s \<Longrightarrow> faultless (used_fault s)"
  by (cases "os_faults s") (auto simp: faultless_def used_fault_def)

lemma faultless_upd [simp]: "faultless (s\<lparr> os_fs := fs \<rparr>) = faultless s"
  by (simp add: faultless_def)

lemma wp_each_prefix:
  fixes m :: "path \<Rightarrow> fs \<Rightarrow> io_kind + unit \<times> fs"
  assumes "Inv 0 s"
    and step: "\<And>n t. \<lbrakk> n < length p; Inv n t \<rbrakk> \<Longrightarrow> wp (os_call p (m (take (Suc n) p)))
      (\<lambda>r u. case r of Inl e \<Rightarrow> Q (Inl e) u | Inr _ \<Rightarrow> Inv (Suc n) u) t"
    and fin: "\<And>t. Inv (length p) t \<Longrightarrow> Q (Inr ()) t"
  shows "wp (for_io (\<lambda>n. os_call p (m (take n p))) [1..<Suc (length p)]) Q s"
  apply (rule wp_for_io [where Inv = "\<lambda>done t. Inv (length done) t"])
    apply (use assms(1) in simp)
  subgoal premises pr for dn n rest t
  proof -
    have len: "length dn < length p" using arg_cong [OF pr(1), of length] by (simp del: upt_Suc)
    have "n = [1..<Suc (length p)] ! length dn" using pr(1) by simp
    then have n: "n = Suc (length dn)" using len by (simp add: nth_upt del: upt_Suc)
    show ?thesis
      by (rule wp_mono [OF step [OF len pr(2), folded n]]) (auto simp: n split: sum.splits)
  qed
  subgoal using fin by (simp del: upt_Suc)
  done

lemmas wp_create_dir_all = wp_each_prefix [where m = fs_mkdir, folded create_dir_all_def]
  and wp_follow_dir_all = wp_each_prefix [where m = follow_mkdir, folded follow_dir_all_def]

end
