(* ===== verification/World.thy ===== *)
theory World
  imports File_System
begin

text \<open>
  The state an engine call runs in: the state of the storage backend (of any type
  \<open>'b\<close>), the supplies of randomness, identifiers and clock readings, the host name, the
  terminal, and the local file system a restore writes to. The supplies are infinite
  sequences with a read position, so a run is a function of its initial world and a
  statement about every world covers every outcome of the random generator.
\<close>

record 'b world =
  w_store :: 'b
  w_rng :: "nat \<Rightarrow> byte"
  w_rng_pos :: nat
  w_uuids :: "nat \<Rightarrow> string"
  w_uuid_pos :: nat
  w_clock :: "nat \<Rightarrow> string"
  w_clock_pos :: nat
  w_host :: "string option"
  w_env :: "string \<Rightarrow> string option"
  w_tty :: bool
  w_prompts :: "string option list"
  w_os :: os_state

definition on_store :: "('b, 'a) io \<Rightarrow> ('b world, 'a) io" where
  "on_store m = (\<lambda>w. case m (w_store w) of (r, b) \<Rightarrow> (r, w\<lparr> w_store := b \<rparr>))"

definition on_os :: "(os_state, 'a) io \<Rightarrow> ('b world, 'a) io" where
  "on_os m = (\<lambda>w. case m (w_os w) of (r, s) \<Rightarrow> (r, w\<lparr> w_os := s \<rparr>))"

text \<open>\<open>OsRng.fill_bytes\<close>, \<open>Uuid::new_v4\<close>, \<open>OffsetDateTime::now_utc\<close>, \<open>hostname::get\<close>.\<close>

definition random_bytes :: "nat \<Rightarrow> ('b world, bytes) io" where
  "random_bytes n = (\<lambda>w. (Inr (map (w_rng w) [w_rng_pos w..<w_rng_pos w + n]),
                        w\<lparr> w_rng_pos := w_rng_pos w + n \<rparr>))"

definition new_uuid :: "('b world, string) io" where
  "new_uuid = (\<lambda>w. (Inr (w_uuids w (w_uuid_pos w)), w\<lparr> w_uuid_pos := Suc (w_uuid_pos w) \<rparr>))"

definition now_rfc3339 :: "('b world, string) io" where
  "now_rfc3339 = (\<lambda>w. (Inr (w_clock w (w_clock_pos w)), w\<lparr> w_clock_pos := Suc (w_clock_pos w) \<rparr>))"

definition get_hostname :: "('b world, string) io" where
  "get_hostname = gets (\<lambda>w. case w_host w of None \<Rightarrow> ''unknown'' | Some h \<Rightarrow> h)"

text \<open>The hyphenated form of a UUID, from its 32 hexadecimal digits.\<close>

definition hyphenated :: "string \<Rightarrow> string" where
  "hyphenated u = take 8 u @ ''-'' @ take 4 (drop 8 u) @ ''-'' @ take 4 (drop 12 u) @ ''-''
     @ take 4 (drop 16 u) @ ''-'' @ drop 20 u"

section \<open>Weakest preconditions\<close>

lemma wp_on_store [wp_simps]:
  "wp (on_store m) Q w = wp m (\<lambda>r b. Q r (w\<lparr> w_store := b \<rparr>)) (w_store w)"
  by (auto simp: wp_def on_store_def split: prod.splits)

lemma wp_on_os [wp_simps]:
  "wp (on_os m) Q w = wp m (\<lambda>r s. Q r (w\<lparr> w_os := s \<rparr>)) (w_os w)"
  by (auto simp: wp_def on_os_def split: prod.splits)

lemma wp_random_bytes [wp_simps]:
  "wp (random_bytes n) Q w = Q (Inr (map (w_rng w) [w_rng_pos w..<w_rng_pos w + n]))
     (w\<lparr> w_rng_pos := w_rng_pos w + n \<rparr>)"
  by (simp add: wp_def random_bytes_def)

lemma wp_new_uuid [wp_simps]:
  "wp new_uuid Q w = Q (Inr (w_uuids w (w_uuid_pos w))) (w\<lparr> w_uuid_pos := Suc (w_uuid_pos w) \<rparr>)"
  by (simp add: wp_def new_uuid_def)

lemma wp_now [wp_simps]:
  "wp now_rfc3339 Q w = Q (Inr (w_clock w (w_clock_pos w))) (w\<lparr> w_clock_pos := Suc (w_clock_pos w) \<rparr>)"
  by (simp add: wp_def now_rfc3339_def)

lemma wp_get_hostname [wp_simps]:
  "wp get_hostname Q w = Q (Inr (case w_host w of None \<Rightarrow> ''unknown'' | Some h \<Rightarrow> h)) w"
  by (simp add: get_hostname_def wp_simps)

end
