(* ===== verification/Backend.thy ===== *)
theory Backend
  imports World
begin

text \<open>
  The storage interface of aegis-core/src/backend.rs. A trait object \<open>dyn Backend\<close> is a
  record of its six operations; what the engine relies on is the locale \<open>backend\<close>: an
  abstract flat store \<open>view\<close> from repository keys to objects, and for each operation
  what it returns and what it leaves, failures included. A failed write of an absent key
  leaves it absent or written; overwriting a present key may also lose it, unless the
  backend is an \<open>atomic_backend\<close>. \<open>reliable_backend\<close> adds that no operation fails in a
  \<open>ready\<close> state.
\<close>

record 'b backend =
  b_get :: "string \<Rightarrow> ('b, bytes) io"
  b_put :: "string \<Rightarrow> bytes \<Rightarrow> ('b, unit) io"
  b_exists :: "string \<Rightarrow> ('b, bool) io"
  b_list :: "string \<Rightarrow> ('b, string list) io"
  b_delete :: "string \<Rightarrow> ('b, unit) io"
  b_describe :: string

section \<open>Repository keys\<close>

text \<open>
  The keys the engine writes: \<open>config\<close>, \<open>keys/<slot>.json\<close>, \<open>snapshots/<id>.json\<close>,
  \<open>index/<id>.json\<close> and \<open>blobs/<xx>/<hash>\<close>. A backend may also hold the temporary
  object of an interrupted write beside such a key.
\<close>

definition ident_char :: "char \<Rightarrow> bool" where
  "ident_char c \<longleftrightarrow> (let n = (of_char c :: nat) in
     48 \<le> n \<and> n \<le> 57 \<or> 65 \<le> n \<and> n \<le> 90 \<or> 97 \<le> n \<and> n \<le> 122 \<or> n = 45 \<or> n = 95)"

definition ident :: "string \<Rightarrow> bool" where
  "ident s \<longleftrightarrow> s \<noteq> [] \<and> list_all ident_char s"

definition doc_dirs :: "string list" where
  "doc_dirs = [''keys'', ''snapshots'', ''index'']"

definition repo_path :: "string list \<Rightarrow> bool" where
  "repo_path p \<longleftrightarrow>
     p = [''config'']
   \<or> (\<exists>d\<in>set doc_dirs. \<exists>s. ident s \<and> p = [d, s @ ''.json''])
   \<or> (\<exists>h. ident h \<and> 2 \<le> length h \<and> p = [''blobs'', take 2 h, h])"

definition tmp_ext :: "string \<Rightarrow> string" where
  "tmp_ext u = ''.tmp-'' @ u"

definition temp_path :: "string list \<Rightarrow> bool" where
  "temp_path p \<longleftrightarrow>
     (\<exists>u. ident u \<and> p = [''config'' @ tmp_ext u])
   \<or> (\<exists>d\<in>set doc_dirs. \<exists>s u x. ident s \<and> ident u \<and> x \<in> {[], ''.json''} \<and> p = [d, s @ x @ tmp_ext u])
   \<or> (\<exists>h u. ident h \<and> ident u \<and> 2 \<le> length h \<and> p = [''blobs'', take 2 h, h @ tmp_ext u])"

definition key_path :: "string \<Rightarrow> string list" where
  "key_path k = split_on (CHR ''/'') k"

definition repo_key :: "string \<Rightarrow> bool" where
  "repo_key k \<longleftrightarrow> repo_path (key_path k)"

definition store_key :: "string \<Rightarrow> bool" where
  "store_key k \<longleftrightarrow> repo_path (key_path k) \<or> temp_path (key_path k)"

text \<open>The keys listed under a prefix, which may carry a trailing slash.\<close>

definition under :: "string \<Rightarrow> string \<Rightarrow> bool" where
  "under p k \<longleftrightarrow> starts_with k (trim_end (CHR ''/'') p @ ''/'')"

definition list_prefix :: "string \<Rightarrow> bool" where
  "list_prefix p \<longleftrightarrow> trim_end (CHR ''/'') p \<in> {''blobs'', ''keys'', ''snapshots'', ''index''}"

section \<open>The contract\<close>

locale backend =
  fixes B :: "'b backend"
    and view :: "'b \<Rightarrow> string \<Rightarrow> bytes option"
    and good :: "'b \<Rightarrow> bool"
  assumes view_keys: "good b \<Longrightarrow> view b k \<noteq> None \<Longrightarrow> repo_key k"
    and get_law: "good b \<Longrightarrow> wp (b_get B k)
      (\<lambda>r c. good c \<and> view c = view b \<and> (\<forall>d. r = Inr d \<longrightarrow> repo_key k \<longrightarrow> view b k = Some d)) b"
    and exists_law: "good b \<Longrightarrow> wp (b_exists B k)
      (\<lambda>r c. good c \<and> view c = view b \<and> (\<forall>t. r = Inr t \<longrightarrow> repo_key k \<longrightarrow> t = (view b k \<noteq> None))) b"
    and list_law: "good b \<Longrightarrow> list_prefix p \<Longrightarrow> wp (b_list B p)
      (\<lambda>r c. good c \<and> view c = view b \<and> (\<forall>ks. r = Inr ks \<longrightarrow>
          distinct ks \<and> (\<forall>k\<in>set ks. store_key k \<and> under p k)
          \<and> {k \<in> set ks. repo_key k} = {k. under p k \<and> view b k \<noteq> None})) b"
    and put_law: "good b \<Longrightarrow> repo_key k \<Longrightarrow> wp (b_put B k d)
      (\<lambda>r c. good c \<and> (case r of Inr _ \<Rightarrow> view c = (view b)(k \<mapsto> d)
                              | Inl _ \<Rightarrow> view c = view b \<or> view c = (view b)(k \<mapsto> d) \<or> view c = (view b)(k := None))) b"
    and delete_law: "good b \<Longrightarrow> store_key k \<Longrightarrow> wp (b_delete B k)
      (\<lambda>r c. good c \<and> (case r of Inr _ \<Rightarrow> view c = (view b)(k := None)
                              | Inl _ \<Rightarrow> view c = view b \<or> view c = (view b)(k := None))) b"

locale reliable_backend = backend +
  fixes ready :: "'b \<Rightarrow> bool"
  assumes get_ready: "good b \<Longrightarrow> ready b \<Longrightarrow> wp (b_get B k)
      (\<lambda>r c. ready c \<and> (repo_key k \<longrightarrow> view b k \<noteq> None \<longrightarrow> is_ok r)) b"
    and exists_ready: "good b \<Longrightarrow> ready b \<Longrightarrow> repo_key k \<Longrightarrow> wp (b_exists B k) (\<lambda>r c. ready c \<and> is_ok r) b"
    and list_ready: "good b \<Longrightarrow> ready b \<Longrightarrow> list_prefix p \<Longrightarrow> wp (b_list B p) (\<lambda>r c. ready c \<and> is_ok r) b"
    and put_ready: "good b \<Longrightarrow> ready b \<Longrightarrow> repo_key k \<Longrightarrow> wp (b_put B k d) (\<lambda>r c. ready c \<and> is_ok r) b"
    and delete_ready: "good b \<Longrightarrow> ready b \<Longrightarrow> store_key k \<Longrightarrow> wp (b_delete B k) (\<lambda>r c. ready c \<and> is_ok r) b"

locale atomic_backend = reliable_backend B view good ready
  for B :: "'b backend" and view :: "'b \<Rightarrow> string \<Rightarrow> bytes option" and good ready +
  assumes put_atomic: "good b \<Longrightarrow> repo_key k \<Longrightarrow> wp (b_put B k d)
      (\<lambda>r c. good c \<and> (case r of Inr _ \<Rightarrow> view c = (view b)(k \<mapsto> d)
                              | Inl _ \<Rightarrow> view c = view b \<or> view c = (view b)(k \<mapsto> d))) b"

section \<open>Facts on keys\<close>

lemma ident_char_plain: "ident_char c \<Longrightarrow> c \<noteq> CHR ''/'' \<and> c \<noteq> CHR ''.''"
  by (auto simp: ident_char_def)

lemma ident_no_slash: "ident s \<Longrightarrow> CHR ''/'' \<notin> set s"
  using ident_char_plain by (auto simp: ident_def list_all_iff)

lemma ident_no_dot: "ident s \<Longrightarrow> CHR ''.'' \<notin> set s"
  using ident_char_plain by (auto simp: ident_def list_all_iff)

lemma key_path_two: "CHR ''/'' \<notin> set d \<Longrightarrow> key_path (d @ CHR ''/'' # s) = d # key_path s"
  by (simp add: key_path_def split_on_cons)

lemma key_path_one: "CHR ''/'' \<notin> set s \<Longrightarrow> key_path s = [s]"
  by (simp add: key_path_def split_on_id)

lemma key_path_inj [simp]: "key_path k = key_path l \<longleftrightarrow> k = l"
  unfolding key_path_def by (metis split_on_join)

lemma key_path_nonempty [simp]: "key_path k \<noteq> []"
  by (simp add: key_path_def)

lemma repo_key_config [simp]: "repo_key ''config''"
  by (simp add: repo_key_def repo_path_def key_path_def)

lemma key_path_doc:
  assumes "CHR ''/'' \<notin> set d" "ident s"
  shows "key_path (d @ CHR ''/'' # s @ ''.json'') = [d, s @ ''.json'']"
  using assms ident_no_slash [OF assms(2)] by (simp add: key_path_two key_path_one)

lemma repo_key_doc:
  assumes "d \<in> set doc_dirs" "ident s"
  shows "repo_key (d @ CHR ''/'' # s @ ''.json'')"
proof -
  have "CHR ''/'' \<notin> set d" using assms(1) by (auto simp: doc_dirs_def)
  then show ?thesis using assms key_path_doc [OF _ assms(2)] by (auto simp: repo_key_def repo_path_def)
qed

lemma ident_take: "ident s \<Longrightarrow> 0 < n \<Longrightarrow> ident (take n s)"
  by (auto simp: ident_def list_all_iff dest: in_set_takeD)

lemma key_path_blob:
  assumes "ident h"
  shows "key_path (''blobs/'' @ take 2 h @ CHR ''/'' # h) = [''blobs'', take 2 h, h]"
proof -
  have "CHR ''/'' \<notin> set (take 2 h)" "CHR ''/'' \<notin> set h"
    using ident_no_slash [OF assms] by (auto dest: in_set_takeD)
  then show ?thesis
    using key_path_two [of "''blobs''" "take 2 h @ CHR ''/'' # h"]
    by (simp add: key_path_two [of "take 2 h"] key_path_one)
qed

lemma repo_key_blob:
  "ident h \<Longrightarrow> 2 \<le> length h \<Longrightarrow> repo_key (''blobs/'' @ take 2 h @ CHR ''/'' # h)"
  unfolding repo_key_def repo_path_def by (subst key_path_blob) auto

lemma repo_store_key: "repo_key k \<Longrightarrow> store_key k"
  by (simp add: repo_key_def store_key_def)

lemma before_dot: "ident r \<Longrightarrow> takeWhile (\<lambda>c. c \<noteq> CHR ''.'') (r @ CHR ''.'' # q) = r"
proof -
  assume "ident r"
  then have "\<And>c. c \<in> set r \<Longrightarrow> c \<noteq> CHR ''.''" using ident_no_dot by blast
  then show ?thesis by (simp add: takeWhile_append2)
qed

lemma json_not_tmp:
  assumes "ident s" "ident t" "x \<in> {[], ''.json''}"
  shows "s @ ''.json'' \<noteq> t @ x @ tmp_ext u"
proof
  assume e: "s @ ''.json'' = t @ x @ tmp_ext u"
  obtain y where y: "x @ tmp_ext u = CHR ''.'' # y" using assms(3) by (auto simp: tmp_ext_def)
  have "s = takeWhile (\<lambda>c. c \<noteq> CHR ''.'') (s @ ''.json'')" using before_dot [OF assms(1)] by simp
  also have "\<dots> = t" unfolding e y by (rule before_dot [OF assms(2)])
  finally show False using e assms(3) by (auto simp: tmp_ext_def)
qed

lemma ident_not_tmp: "ident h \<Longrightarrow> h \<noteq> t @ tmp_ext u"
  using ident_no_dot [of h] by (auto simp: tmp_ext_def)

lemma repo_not_temp:
  assumes "repo_path p"
  shows "\<not> temp_path p"
proof
  assume t: "temp_path p"
  consider "p = [''config'']" | d s where "p = [d, s @ ''.json'']" "ident s" "d \<in> set doc_dirs"
    | h where "p = [''blobs'', take 2 h, h]" "ident h"
    using assms unfolding repo_path_def by blast
  then show False
  proof cases
    case 1
    then show False using t unfolding temp_path_def by (simp add: tmp_ext_def)
  next
    case 2
    then show False using t json_not_tmp unfolding temp_path_def by auto
  next
    case 3
    then show False using t ident_not_tmp unfolding temp_path_def by auto
  qed
qed

end
