(* ===== verification/Documents.thy ===== *)
theory Documents
  imports Effects
begin

text \<open>
  The documents a repository consists of, as the structs and enums of aegis-core declare
  them: the snapshot tree (tree.rs), manifests and indexes (snapshot.rs), key files
  (crypto.rs, keys.rs), the repository config (repo.rs) and the chunker parameters
  (chunk.rs). \<open>u64\<close> and \<open>u32\<close> fields are words of their width, \<open>usize\<close> is
  \<open>nat\<close>, \<open>i64\<close> is \<open>int\<close>.
\<close>

section \<open>The snapshot tree\<close>

datatype node =
    File string "64 word" "32 word option" "int option" "string list"
  | Dir string "node list"
  | Ref string string

fun name :: "node \<Rightarrow> string" where
  "name (File n _ _ _ _) = n"
| "name (Dir n _) = n"
| "name (Ref n _) = n"

text \<open>Nesting of a node: what a JSON reader with a recursion limit counts.\<close>

fun node_height :: "node \<Rightarrow> nat" where
  "node_height (Dir _ cs) = foldr max (map (\<lambda>c. Suc (node_height c)) cs) 0"
| "node_height _ = 0"

lemma foldr_max_le: "foldr max xs (b::nat) \<le> n \<longleftrightarrow> b \<le> n \<and> (\<forall>x\<in>set xs. x \<le> n)"
  by (induction xs) auto

lemma node_height_Dir_le:
  "node_height (Dir d cs) \<le> n \<longleftrightarrow> (\<forall>c\<in>set cs. Suc (node_height c) \<le> n)"
  by (simp add: foldr_max_le)

lemma node_height_child: "c \<in> set cs \<Longrightarrow> node_height c < node_height (Dir d cs)"
  using node_height_Dir_le [of d cs "node_height (Dir d cs)"] by auto

lemma node_size_child: "c \<in> set cs \<Longrightarrow> size c < size (Dir d cs)"
  by (induction cs) auto

section \<open>Snapshots and indexes\<close>

record snapshot_stats =
  st_files :: "64 word"
  st_bytes :: "64 word"
  st_chunks :: "64 word"
  st_new_chunks :: "64 word"
  st_new_bytes :: "64 word"
  st_new_tree_nodes :: "64 word"

definition zero_stats :: snapshot_stats where
  "zero_stats = \<lparr> st_files = 0, st_bytes = 0, st_chunks = 0, st_new_chunks = 0,
     st_new_bytes = 0, st_new_tree_nodes = 0 \<rparr>"

record snapshot =
  sn_id :: string
  sn_time :: string
  sn_hostname :: string
  sn_paths :: "string list"
  sn_root :: node
  sn_stats :: snapshot_stats

datatype blob_kind = Chunk | TreeNode

record blob_ref =
  br_hash :: string
  br_size :: "64 word option"
  br_kind :: blob_kind

record snapshot_index =
  ix_snapshot_id :: string
  ix_blobs :: "blob_ref list"

section \<open>Keys, configuration and chunker parameters\<close>

record kdf_params =
  memory_kib :: "32 word"
  iterations :: "32 word"
  parallelism :: "32 word"

record wrapped_key =
  wk_id :: string
  wk_kdf :: kdf_params
  wk_salt :: string
  wk_nonce :: string
  wk_wrapped :: string
  wk_created :: string

record key_file =
  kf_slot :: string
  kf_wrapped_key :: wrapped_key

record chunker_config =
  min_size :: nat
  avg_size :: nat
  max_size :: nat

record repo_config =
  rc_version :: "32 word"
  rc_id :: string
  rc_chunker :: chunker_config
  rc_encrypted :: bool
  rc_key_slot :: string

section \<open>Time\<close>

text \<open>
  What the code reads off a parsed RFC 3339 timestamp: the Unix second, the UTC calendar
  date and the ISO week.
\<close>

record utc_time =
  unix_timestamp :: int
  tm_year :: int
  tm_month :: nat
  tm_day :: nat
  iso_year :: int
  iso_week :: nat

end
