(* ===== verification/Foreign.thy ===== *)
theory Foreign
  imports Documents
begin

text \<open>
  The third-party crates the engine calls (blake3, chacha20poly1305, argon2, zstd, base64,
  fastcdc, serde_json, time), as one record of functions that every definition using them
  takes as its argument, and the documented behaviour the theorems rely on as named
  predicates over such a record.
\<close>

record foreign =
  blake3_hex :: "bytes \<Rightarrow> string"
  aead_encrypt :: "bytes \<Rightarrow> bytes \<Rightarrow> bytes \<Rightarrow> bytes \<Rightarrow> bytes option"
  aead_decrypt :: "bytes \<Rightarrow> bytes \<Rightarrow> bytes \<Rightarrow> bytes \<Rightarrow> bytes option"
  argon2id :: "kdf_params \<Rightarrow> bytes \<Rightarrow> bytes \<Rightarrow> bytes option"
  zstd_encode :: "bytes \<Rightarrow> int \<Rightarrow> bytes option"
  zstd_decode :: "bytes \<Rightarrow> bytes option"
  base64_encode :: "bytes \<Rightarrow> string"
  base64_decode :: "string \<Rightarrow> bytes option"
  fastcdc :: "chunker_config \<Rightarrow> bytes \<Rightarrow> bytes list"
  node_json :: "node \<Rightarrow> bytes"
  node_parse :: "bytes \<Rightarrow> node option"
  snapshot_json :: "snapshot \<Rightarrow> bytes"
  snapshot_parse :: "bytes \<Rightarrow> snapshot option"
  index_json :: "snapshot_index \<Rightarrow> bytes"
  index_parse :: "bytes \<Rightarrow> snapshot_index option"
  config_json :: "repo_config \<Rightarrow> bytes"
  config_parse :: "bytes \<Rightarrow> repo_config option"
  keyfile_json :: "key_file \<Rightarrow> bytes"
  keyfile_parse :: "bytes \<Rightarrow> key_file option"
  rfc3339_parse :: "string \<Rightarrow> utc_time option"

text \<open>
  BLAKE3 in hex: 64 lowercase hexadecimal digits. No statement assumes that it is
  injective: where content addressing matters, a theorem names the set of byte strings
  on which no two collide.
\<close>

definition lower_hex :: "char \<Rightarrow> bool" where
  "lower_hex c \<longleftrightarrow> c \<in> set ''0123456789abcdef''"

definition hash_law :: "foreign \<Rightarrow> bool" where
  "hash_law L \<longleftrightarrow> (\<forall>d. length (blake3_hex L d) = 64 \<and> list_all lower_hex (blake3_hex L d))"

text \<open>
  XChaCha20-Poly1305: a ciphertext is sixteen bytes longer than its plaintext, and
  decryption under the same key, nonce and associated data gives the plaintext back.
\<close>

definition aead_law :: "foreign \<Rightarrow> bool" where
  "aead_law L \<longleftrightarrow> (\<forall>k n a p c. aead_encrypt L k n a p = Some c \<longrightarrow>
      length c = length p + 16 \<and> aead_decrypt L k n a c = Some p)"

definition kdf_law :: "foreign \<Rightarrow> bool" where
  "kdf_law L \<longleftrightarrow> (\<forall>ps pw salt k. argon2id L ps pw salt = Some k \<longrightarrow> length k = 32)"

definition zstd_law :: "foreign \<Rightarrow> bool" where
  "zstd_law L \<longleftrightarrow> (\<forall>p lvl c. zstd_encode L p lvl = Some c \<longrightarrow> zstd_decode L c = Some p)"

definition base64_law :: "foreign \<Rightarrow> bool" where
  "base64_law L \<longleftrightarrow> (\<forall>b. base64_decode L (base64_encode L b) = Some b)"

text \<open>
  FastCDC with valid parameters cuts its input into consecutive non-empty pieces of at
  most \<open>max_size\<close> bytes.
\<close>

definition fastcdc_law :: "foreign \<Rightarrow> bool" where
  "fastcdc_law L \<longleftrightarrow> (\<forall>cfg d.
      64 \<le> min_size cfg \<and> min_size cfg \<le> avg_size cfg \<and> avg_size cfg \<le> max_size cfg
        \<and> max_size cfg \<le> 2 ^ 30 \<longrightarrow>
      concat (fastcdc L cfg d) = d \<and> (\<forall>c\<in>set (fastcdc L cfg d). c \<noteq> [] \<and> length c \<le> max_size cfg))"

text \<open>
  serde_json: a document read back is the document written, except that the reader
  refuses nesting beyond its recursion limit of 128 containers. A tree node takes two
  containers per level (the object and its list), so the limit is reached by a node that
  has more than 62 levels below it.
\<close>

definition json_depth_limit :: nat where
  "json_depth_limit = 62"

definition codec_law :: "foreign \<Rightarrow> bool" where
  "codec_law L \<longleftrightarrow>
     (\<forall>n. node_height n \<le> json_depth_limit \<longrightarrow> node_parse L (node_json L n) = Some n)
   \<and> (\<forall>s. snapshot_parse L (snapshot_json L s)
        = (if node_height (sn_root s) \<le> json_depth_limit then Some s else None))
   \<and> (\<forall>i. index_parse L (index_json L i) = Some i)
   \<and> (\<forall>c. config_parse L (config_json L c) = Some c)
   \<and> (\<forall>k. keyfile_parse L (keyfile_json L k) = Some k)"

definition foreign_laws :: "foreign \<Rightarrow> bool" where
  "foreign_laws L \<longleftrightarrow> hash_law L \<and> aead_law L \<and> kdf_law L \<and> zstd_law L \<and> base64_law L
     \<and> fastcdc_law L \<and> codec_law L"

named_theorems foreign_facts \<open>consequences of the documented behaviour\<close>

lemma blake3_length [foreign_facts]: "foreign_laws L \<Longrightarrow> length (blake3_hex L d) = 64"
  by (simp add: foreign_laws_def hash_law_def)

lemma blake3_hex_digits: "foreign_laws L \<Longrightarrow> list_all lower_hex (blake3_hex L d)"
  by (simp add: foreign_laws_def hash_law_def)

lemma aead_roundtrip [foreign_facts]:
  "foreign_laws L \<Longrightarrow> aead_encrypt L k n a p = Some c \<Longrightarrow> aead_decrypt L k n a c = Some p"
  by (simp add: foreign_laws_def aead_law_def)

lemma aead_length: "foreign_laws L \<Longrightarrow> aead_encrypt L k n a p = Some c \<Longrightarrow> length c = length p + 16"
  unfolding foreign_laws_def aead_law_def by blast

lemma argon2_length: "foreign_laws L \<Longrightarrow> argon2id L ps pw salt = Some k \<Longrightarrow> length k = 32"
  by (simp add: foreign_laws_def kdf_law_def)

lemma zstd_roundtrip [foreign_facts]:
  "foreign_laws L \<Longrightarrow> zstd_encode L p lvl = Some c \<Longrightarrow> zstd_decode L c = Some p"
  unfolding foreign_laws_def zstd_law_def by blast

lemma base64_roundtrip [foreign_facts]:
  "foreign_laws L \<Longrightarrow> base64_decode L (base64_encode L b) = Some b"
  by (simp add: foreign_laws_def base64_law_def)

lemma node_parse_json [foreign_facts]:
  "foreign_laws L \<Longrightarrow> node_height n \<le> json_depth_limit \<Longrightarrow> node_parse L (node_json L n) = Some n"
  by (simp add: foreign_laws_def codec_law_def)

lemma snapshot_parse_json [foreign_facts]:
  "foreign_laws L \<Longrightarrow> node_height (sn_root s) \<le> json_depth_limit
    \<Longrightarrow> snapshot_parse L (snapshot_json L s) = Some s"
  by (simp add: foreign_laws_def codec_law_def)

lemma snapshot_parse_too_deep [foreign_facts]:
  "foreign_laws L \<Longrightarrow> json_depth_limit < node_height (sn_root s)
    \<Longrightarrow> snapshot_parse L (snapshot_json L s) = None"
  by (simp add: foreign_laws_def codec_law_def)

lemma index_parse_json [foreign_facts]:
  "foreign_laws L \<Longrightarrow> index_parse L (index_json L i) = Some i"
  by (simp add: foreign_laws_def codec_law_def)

lemma config_parse_json [foreign_facts]:
  "foreign_laws L \<Longrightarrow> config_parse L (config_json L c) = Some c"
  by (simp add: foreign_laws_def codec_law_def)

lemma keyfile_parse_json [foreign_facts]:
  "foreign_laws L \<Longrightarrow> keyfile_parse L (keyfile_json L k) = Some k"
  by (simp add: foreign_laws_def codec_law_def)

end
