(* ===== verification/Blobs.thy ===== *)
theory Blobs
  imports Foreign
begin

text \<open>
  The blob envelope of aegis-core/src/blobs.rs: the magic and the flags byte, the
  adaptive compression level, and the compress-then-wrap pipeline. The two encrypting
  entry points need the repository cipher and are in the theory of keys.
\<close>

section \<open>Envelope\<close>

definition MAGIC :: bytes where
  "MAGIC = [0x41, 0x45, 0x31, 0x01]"

definition FLAG_PLAIN :: byte where "FLAG_PLAIN = 1"
definition FLAG_ZSTD :: byte where "FLAG_ZSTD = 2"
definition FLAG_ENC :: byte where "FLAG_ENC = 4"

definition flags_valid :: "byte \<Rightarrow> bool" where
  "flags_valid f = (let storage = and f (not FLAG_ENC) in storage = FLAG_PLAIN \<or> storage = FLAG_ZSTD)"

definition wrap :: "byte \<Rightarrow> bytes \<Rightarrow> bytes" where
  "wrap flags payload = MAGIC @ [flags] @ payload"

definition unwrap :: "bytes \<Rightarrow> (byte \<times> bytes) res" where
  "unwrap blob =
     (if length blob < length MAGIC + 1
      then Inl (MalformedBlob ''blob shorter than envelope header'')
      else let magic = take (length MAGIC) blob; rest = drop (length MAGIC) blob in
        if magic \<noteq> MAGIC then Inl (MalformedBlob ''bad blob magic'')
        else let flags = hd rest in
          if \<not> flags_valid flags then Inl (MalformedBlob ''unknown blob flags'')
          else Inr (flags, tl rest))"

section \<open>Compression level\<close>

text \<open>
  The entropy probe: a strided walk over the payload with a table of the byte values
  seen, left as soon as more than 200 values have been seen. The stride is the number of
  positions per sampled byte and at least one, which bounds the walk.
\<close>

function probe :: "bytes \<Rightarrow> nat \<Rightarrow> bool list \<Rightarrow> nat \<Rightarrow> nat \<Rightarrow> int" where
  "probe payload step seen distinct_values i =
     (if i < length payload then
        let b = unat (payload ! i) in
        if \<not> seen ! b then
          if distinct_values + 1 > 200 then 1
          else probe payload step (seen[b := True]) (distinct_values + 1) (i + max step 1)
        else probe payload step seen distinct_values (i + max step 1)
      else 9)"
  by pat_completeness auto
termination
  by (relation "measure (\<lambda>(p, _, _, _, i). length p - i)") auto

declare probe.simps [simp del]

definition choose_level :: "bytes \<Rightarrow> int" where
  "choose_level payload =
     (if length payload < 1024 then 1
      else let sample_len = min (length payload) (8 * 1024);
               step = length payload div sample_len
           in probe payload step (replicate 256 False) 0 0)"

section \<open>Encoding and decoding\<close>

definition compress_payload :: "foreign \<Rightarrow> bytes \<Rightarrow> byte \<times> bytes" where
  "compress_payload L payload =
     (let level = choose_level payload in
      if level \<le> 1 then (FLAG_PLAIN, payload)
      else case zstd_encode L payload level of
          Some c \<Rightarrow> if length c < length payload then (FLAG_ZSTD, c) else (FLAG_PLAIN, payload)
        | None \<Rightarrow> (FLAG_PLAIN, payload))"

definition encode :: "foreign \<Rightarrow> bytes \<Rightarrow> bytes" where
  "encode L payload = (case compress_payload L payload of (flags, p) \<Rightarrow> wrap flags p)"

definition decompress_payload :: "foreign \<Rightarrow> byte \<Rightarrow> bytes \<Rightarrow> bytes res" where
  "decompress_payload L flags payload =
     (if and flags FLAG_ZSTD \<noteq> 0 then ok_or DecompressFailed (zstd_decode L payload)
      else Inr payload)"

definition decode :: "foreign \<Rightarrow> bytes \<Rightarrow> bytes res" where
  "decode L blob = res_bind (unwrap blob) (\<lambda>(flags, payload). decompress_payload L flags payload)"

section \<open>Facts on the envelope\<close>

named_theorems flag_simps \<open>the flag bits\<close>

lemma flags_valid_cases:
  "flags_valid f \<longleftrightarrow> f = 1 \<or> f = 2 \<or> f = 5 \<or> f = 6"
proof
  assume v: "flags_valid f"
  have "f = or (and f (not FLAG_ENC)) (and f FLAG_ENC)"
    by (simp add: bit_eq_iff bit_simps) blast
  moreover have "and f (2 ^ 2) = (if bit f 2 then 2 ^ 2 else 0)"
    by (rule bit_word_eqI) (auto simp: bit_and_iff bit_exp_iff simp del: power_numeral)
  then have "and f FLAG_ENC = 0 \<or> and f FLAG_ENC = 4" by (auto simp: FLAG_ENC_def)
  ultimately show "f = 1 \<or> f = 2 \<or> f = 5 \<or> f = 6"
    using v by (auto simp: flags_valid_def Let_def FLAG_PLAIN_def FLAG_ZSTD_def)
qed (auto simp: flags_valid_def FLAG_ENC_def FLAG_PLAIN_def FLAG_ZSTD_def)

lemma unwrap_wrap: "flags_valid f \<Longrightarrow> unwrap (wrap f p) = Inr (f, p)"
  by (simp add: unwrap_def wrap_def MAGIC_def)

lemma unwrap_Inr: "unwrap b = Inr (f, p) \<longleftrightarrow> b = wrap f p \<and> flags_valid f"
proof
  assume u: "unwrap b = Inr (f, p)"
  then have l: "\<not> length b < length MAGIC + 1" "take (length MAGIC) b = MAGIC"
    "f = hd (drop (length MAGIC) b)" "p = tl (drop (length MAGIC) b)" "flags_valid f"
    by (auto simp: unwrap_def Let_def split: if_splits)
  have "drop (length MAGIC) b \<noteq> []" using l(1) by simp
  then have "b = MAGIC @ [f] @ p" using l
    by (metis append_Cons append_Nil append_take_drop_id list.collapse)
  then show "b = wrap f p \<and> flags_valid f" using l by (simp add: wrap_def)
qed (simp add: unwrap_wrap)

lemma unwrap_err: "unwrap b = Inl e \<Longrightarrow> \<exists>m. e = MalformedBlob m"
  by (auto simp: unwrap_def Let_def split: if_splits)

lemma compress_flags:
  "compress_payload L p = (f, c) \<Longrightarrow> f = FLAG_PLAIN \<and> c = p \<or> f = FLAG_ZSTD \<and> (\<exists>lvl. zstd_encode L p lvl = Some c)"
  by (auto simp: compress_payload_def Let_def split: if_splits option.splits)

lemma compress_smaller: "compress_payload L p = (f, c) \<Longrightarrow> length c \<le> length p"
  by (auto simp: compress_payload_def Let_def split: if_splits option.splits)

lemma decompress_compress:
  "foreign_laws L \<Longrightarrow> compress_payload L p = (f, c) \<Longrightarrow> decompress_payload L f c = Inr p"
  using compress_flags [of L p f c]
  by (auto simp: decompress_payload_def FLAG_PLAIN_def FLAG_ZSTD_def foreign_facts)

lemma compress_valid: "compress_payload L p = (f, c) \<Longrightarrow> flags_valid f"
  using compress_flags [of L p f c] by (auto simp: flags_valid_cases FLAG_PLAIN_def FLAG_ZSTD_def)

section \<open>Facts on the compression level\<close>

text \<open>The byte values a strided walk meets.\<close>

definition sampled :: "bytes \<Rightarrow> nat \<Rightarrow> nat \<Rightarrow> byte set" where
  "sampled payload step i = {payload ! j | j. i \<le> j \<and> j < length payload \<and> max step 1 dvd (j - i)}"

lemma sampled_step:
  assumes "i < length payload"
  shows "sampled payload step i = insert (payload ! i) (sampled payload step (i + max step 1))"
proof -
  let ?m = "max step 1"
  have "{j. i \<le> j \<and> j < length payload \<and> ?m dvd (j - i)}
      = insert i {j. i + ?m \<le> j \<and> j < length payload \<and> ?m dvd (j - (i + ?m))}"
  proof (intro set_eqI iffI)
    fix j
    assume j: "j \<in> {j. i \<le> j \<and> j < length payload \<and> ?m dvd (j - i)}"
    show "j \<in> insert i {j. i + ?m \<le> j \<and> j < length payload \<and> ?m dvd (j - (i + ?m))}"
    proof (cases "j = i")
      case False
      then have "?m \<le> j - i" using j dvd_imp_le [of ?m "j - i"] by simp
      then have "j - i = ?m + (j - (i + ?m))" using j by (simp del: max.bounded_iff)
      then have "?m dvd (j - (i + ?m))" using j by (metis (mono_tags) dvd_add_right_iff dvd_refl mem_Collect_eq)
      then show ?thesis using j \<open>?m \<le> j - i\<close> by auto
    qed simp
  next
    fix j
    assume j: "j \<in> insert i {j. i + ?m \<le> j \<and> j < length payload \<and> ?m dvd (j - (i + ?m))}"
    show "j \<in> {j. i \<le> j \<and> j < length payload \<and> ?m dvd (j - i)}"
    proof (cases "j = i")
      case False
      then have b: "i + ?m \<le> j" "j < length payload" "?m dvd (j - (i + ?m))" using j by auto
      then have "j - i = ?m + (j - (i + ?m))" by simp
      then have "?m dvd (j - i)" using b(3) by (metis dvd_add dvd_refl)
      then show ?thesis using b by auto
    qed (use assms in simp)
  qed
  then show ?thesis unfolding sampled_def by (auto simp: setcompr_eq_image)
qed

lemma sampled_end: "\<not> i < length payload \<Longrightarrow> sampled payload step i = {}"
  by (auto simp: sampled_def)

lemma probe_classifies:
  assumes "length seen = 256" "S = {b. seen ! unat b}" "n = card S" "n \<le> 200"
  shows "probe payload step seen n i = (if card (S \<union> sampled payload step i) > 200 then 1 else 9)"
  using assms
proof (induction payload step seen n i arbitrary: S rule: probe.induct)
  case (1 payload step seen n i)
  show ?case
  proof (cases "i < length payload")
    case False
    then show ?thesis using 1(6) by (subst probe.simps) (simp add: sampled_end 1(5))
  next
    case True
    define b where "b = payload ! i"
    have lt: "unat b < 256" using unsigned_less [of b] by simp
    have u: "S \<union> sampled payload step i = insert b S \<union> sampled payload step (i + max step 1)"
      using sampled_step [OF True] b_def by blast
    have fin: "finite S" by simp
    show ?thesis
    proof (cases "seen ! unat b")
      case old: True
      then have "insert b S = S" using 1(4) by auto
      then show ?thesis using 1(2) [OF True refl _ 1(3-6)] old True u
        by (subst probe.simps) (simp add: b_def)
    next
      case new: False
      then have nb: "b \<notin> S" using 1(4) by simp
      have c: "card (insert b S) = n + 1" using nb fin 1(5) by simp
      show ?thesis
      proof (cases "n + 1 > 200")
        case big: True
        have "card (insert b S) \<le> card (S \<union> sampled payload step i)"
          unfolding u by (rule card_mono) auto
        then show ?thesis using new True big c by (subst probe.simps) (simp add: b_def)
      next
        case small: False
        have s: "insert b S = {x. (seen[unat b := True]) ! unat x}"
          using 1(3,4) lt by (auto simp: nth_list_update word_unat_eq_iff)
        have "probe payload step (seen[unat b := True]) (n + 1) (i + max step 1)
          = (if card (insert b S \<union> sampled payload step (i + max step 1)) > 200 then 1 else 9)"
          using 1(1) [OF True refl _ _ _ s [unfolded b_def]] new small c 1(3) by (simp add: b_def)
        then show ?thesis using new True small u by (subst probe.simps) (simp add: b_def)
      qed
    qed
  qed
qed

end
