(* ===== verification/Cipher.thy ===== *)
theory Cipher
  imports Blobs World
begin

text \<open>
  Client-side encryption: key derivation, sealing and opening (aegis-core/src/crypto.rs),
  the associated data that binds a ciphertext to its place, the wrapped master key and
  the repository cipher \<open>RepoCrypto\<close> (aegis-core/src/keys.rs), and the two encrypting
  entry points of the blob envelope (aegis-core/src/blobs.rs).
\<close>

section \<open>Primitives\<close>

definition KEY_LEN :: nat where "KEY_LEN = 32"
definition SALT_LEN :: nat where "SALT_LEN = 16"
definition NONCE_LEN :: nat where "NONCE_LEN = 24"

definition default_kdf :: kdf_params where
  "default_kdf = \<lparr> memory_kib = 64 * 1024, iterations = 3, parallelism = 1 \<rparr>"

definition derive_kek :: "foreign \<Rightarrow> string \<Rightarrow> bytes \<Rightarrow> kdf_params \<Rightarrow> bytes res" where
  "derive_kek L passphrase salt params = ok_or KdfFailed (argon2id L params (str_bytes passphrase) salt)"

definition seal :: "foreign \<Rightarrow> bytes \<Rightarrow> bytes \<Rightarrow> bytes \<Rightarrow> bytes \<Rightarrow> bytes res" where
  "seal L key nonce aad plaintext = ok_or EncryptFailed (aead_encrypt L key nonce aad plaintext)"

definition open_sealed :: "foreign \<Rightarrow> bytes \<Rightarrow> bytes \<Rightarrow> bytes \<Rightarrow> bytes res" where
  "open_sealed L key aad sealed =
     (if length sealed < NONCE_LEN + 16 then Inl DecryptFailed
      else let nonce = take NONCE_LEN sealed; ct = drop NONCE_LEN sealed
           in ok_or DecryptFailed (aead_decrypt L key nonce aad ct))"

section \<open>The wrapped master key\<close>

record wrapped_secret =
  ws_salt :: bytes
  ws_nonce :: bytes
  ws_sealed :: bytes

definition generate_master_key :: "('b world, bytes) io" where
  "generate_master_key = random_bytes KEY_LEN"

definition wrap_master_key ::
  "foreign \<Rightarrow> bytes \<Rightarrow> string \<Rightarrow> kdf_params \<Rightarrow> ('b world, wrapped_secret) io" where
  "wrap_master_key L master passphrase params =
     bnd (random_bytes SALT_LEN) (\<lambda>salt.
     bnd (lift_res (derive_kek L passphrase salt params)) (\<lambda>kek.
     bnd (random_bytes NONCE_LEN) (\<lambda>nonce.
     bnd (lift_res (seal L kek nonce (str_bytes ''aegis/key-wrap'') master)) (\<lambda>sealed.
     ret \<lparr> ws_salt = salt, ws_nonce = nonce, ws_sealed = sealed \<rparr>))))"

definition unwrap_master_key :: "foreign \<Rightarrow> wrapped_secret \<Rightarrow> string \<Rightarrow> kdf_params \<Rightarrow> bytes res" where
  "unwrap_master_key L secret passphrase params =
     res_bind (derive_kek L passphrase (ws_salt secret) params) (\<lambda>kek.
     res_bind (open_sealed L kek (str_bytes ''aegis/key-wrap'') (ws_nonce secret @ ws_sealed secret)) (\<lambda>opened.
     if length opened \<noteq> KEY_LEN then Inl DecryptFailed else Inr opened))"

section \<open>Associated data\<close>

datatype aead_context = CtxHash string | CtxDoc | CtxHost string

definition DOC_CONTEXT :: bytes where
  "DOC_CONTEXT = str_bytes ''aegis/doc/v1''"

fun aad :: "aead_context \<Rightarrow> bytes" where
  "aad (CtxHash hex) = str_bytes ''aegis/blob/v1:'' @ str_bytes hex"
| "aad CtxDoc = DOC_CONTEXT"
| "aad (CtxHost host_id) = str_bytes ''aegis/host/v1:'' @ str_bytes host_id"

section \<open>The repository cipher\<close>

record repo_crypto =
  cr_key_slot :: string
  cr_key :: bytes

definition b64_decode :: "foreign \<Rightarrow> string \<Rightarrow> bytes res" where
  "b64_decode L s = ok_or (KeyError ''invalid base64'') (base64_decode L s)"

definition new_wrapped ::
  "foreign \<Rightarrow> string \<Rightarrow> bytes \<Rightarrow> string \<Rightarrow> kdf_params \<Rightarrow> ('b world, repo_crypto \<times> key_file) io" where
  "new_wrapped L key_slot master passphrase params =
     bnd (wrap_master_key L master passphrase params) (\<lambda>secret.
     bnd now_rfc3339 (\<lambda>created.
     ret (\<lparr> cr_key_slot = key_slot, cr_key = master \<rparr>,
          \<lparr> kf_slot = key_slot,
            kf_wrapped_key = \<lparr> wk_id = key_slot, wk_kdf = params,
              wk_salt = base64_encode L (ws_salt secret),
              wk_nonce = base64_encode L (ws_nonce secret),
              wk_wrapped = base64_encode L (ws_sealed secret),
              wk_created = created \<rparr> \<rparr>)))"

definition from_key_file :: "foreign \<Rightarrow> key_file \<Rightarrow> string \<Rightarrow> repo_crypto res" where
  "from_key_file L file passphrase =
     (let w = kf_wrapped_key file in
      res_bind (b64_decode L (wk_salt w)) (\<lambda>salt.
      if length salt \<noteq> SALT_LEN then Inl (KeyError ''key file salt has the wrong length'')
      else res_bind (b64_decode L (wk_nonce w)) (\<lambda>nonce.
      if length nonce \<noteq> NONCE_LEN then Inl (KeyError ''key file nonce has the wrong length'')
      else res_bind (b64_decode L (wk_wrapped w)) (\<lambda>sealed.
      res_bind (map_err (\<lambda>_. WrongPassphrase)
        (unwrap_master_key L \<lparr> ws_salt = salt, ws_nonce = nonce, ws_sealed = sealed \<rparr> passphrase (wk_kdf w)))
      (\<lambda>key. Inr \<lparr> cr_key_slot = kf_slot file, cr_key = key \<rparr>)))))"

definition crypto_seal :: "foreign \<Rightarrow> repo_crypto \<Rightarrow> aead_context \<Rightarrow> bytes \<Rightarrow> ('b world, bytes) io" where
  "crypto_seal L c context plaintext =
     bnd (random_bytes NONCE_LEN) (\<lambda>nonce.
     bnd (lift_res (seal L (cr_key c) nonce (aad context) plaintext)) (\<lambda>sealed.
     ret (nonce @ sealed)))"

definition crypto_open :: "foreign \<Rightarrow> repo_crypto \<Rightarrow> aead_context \<Rightarrow> bytes \<Rightarrow> bytes res" where
  "crypto_open L c context sealed = open_sealed L (cr_key c) (aad context) sealed"

section \<open>Encrypted blobs\<close>

definition encrypt_and_encode ::
  "foreign \<Rightarrow> repo_crypto \<Rightarrow> aead_context \<Rightarrow> bytes \<Rightarrow> ('b world, bytes) io" where
  "encrypt_and_encode L c context payload =
     (case compress_payload L payload of (cflags, compressed) \<Rightarrow>
        bnd (crypto_seal L c context compressed) (\<lambda>sealed.
        ret (wrap (or cflags FLAG_ENC) sealed)))"

definition decrypt_and_decode :: "foreign \<Rightarrow> repo_crypto \<Rightarrow> aead_context \<Rightarrow> bytes \<Rightarrow> bytes res" where
  "decrypt_and_decode L c context blob =
     res_bind (unwrap blob) (\<lambda>(flags, payload).
     if and flags FLAG_ENC = 0
     then Inl (MalformedBlob ''blob is not encrypted but this repository requires encryption'')
     else res_bind (crypto_open L c context payload) (\<lambda>plaintext.
       decompress_payload L (and flags (not FLAG_ENC)) plaintext))"

section \<open>Facts\<close>

lemma open_seal:
  "\<lbrakk> foreign_laws L; seal L k n a p = Inr c; length n = NONCE_LEN \<rbrakk> \<Longrightarrow> open_sealed L k a (n @ c) = Inr p"
  by (auto simp: open_sealed_def seal_def foreign_facts Let_def dest: aead_length)

lemma aad_inj [simp]: "aad c = aad d \<longleftrightarrow> c = d"
  by (cases c; cases d) (simp_all add: DOC_CONTEXT_def)

text \<open>What sealing changes of the world: only the position of the random supply.\<close>

definition rng_only :: "'b world \<Rightarrow> 'b world \<Rightarrow> bool" where
  "rng_only w v \<longleftrightarrow> (\<exists>n. v = w\<lparr> w_rng_pos := n \<rparr>)"

lemma rng_only_refl [simp]: "rng_only w w"
  by (metis rng_only_def world.surjective world.update_convs(3))

lemma rng_only_upd [simp]: "rng_only w (w\<lparr> w_rng_pos := n \<rparr>)"
  by (auto simp: rng_only_def)

lemma wp_crypto_seal:
  assumes "foreign_laws L"
  shows "wp (crypto_seal L c ctx p)
    (\<lambda>r v. rng_only w v \<and> (\<forall>s. r = Inr s \<longrightarrow> crypto_open L c ctx s = Inr p)
      \<and> (\<forall>e. r = Inl e \<longrightarrow> e = EncryptFailed)) w"
  using open_seal [OF assms]
  by (auto simp: crypto_seal_def wp_simps crypto_open_def NONCE_LEN_def seal_def ok_or_def
      split: sum.splits option.splits)

lemma enc_flags:
  "f = FLAG_PLAIN \<or> f = FLAG_ZSTD \<Longrightarrow>
    flags_valid (or f FLAG_ENC) \<and> and (or f FLAG_ENC) FLAG_ENC \<noteq> 0
    \<and> and (or f FLAG_ENC) (not FLAG_ENC) = f"
  by (auto simp: flags_valid_def FLAG_PLAIN_def FLAG_ZSTD_def FLAG_ENC_def)

lemma decrypt_wrap:
  assumes L: "foreign_laws L" and z: "compress_payload L p = (f, z)"
    and o: "crypto_open L c ctx s = Inr z"
  shows "decrypt_and_decode L c ctx (wrap (or f FLAG_ENC) s) = Inr p"
proof -
  have "f = FLAG_PLAIN \<or> f = FLAG_ZSTD" using compress_flags [OF z] by auto
  note fl = enc_flags [OF this]
  show ?thesis
    using fl o decompress_compress [OF L z]
    by (simp add: decrypt_and_decode_def unwrap_wrap)
qed

lemma wp_encrypt_and_encode:
  assumes "foreign_laws L"
  shows "wp (encrypt_and_encode L c ctx p)
    (\<lambda>r v. rng_only w v \<and> (\<forall>s. r = Inr s \<longrightarrow> decrypt_and_decode L c ctx s = Inr p)
      \<and> (\<forall>e. r = Inl e \<longrightarrow> e = EncryptFailed)) w"
proof (cases "compress_payload L p")
  case (Pair f z)
  show ?thesis
    by (simp add: encrypt_and_encode_def Pair wp_simps,
        rule wp_mono [OF wp_crypto_seal [OF assms, of c ctx z]])
      (auto split: sum.splits simp: wp_simps decrypt_wrap [OF assms Pair])
qed

text \<open>A key file made for a passphrase opens with it and gives the wrapped key back.\<close>

lemma wp_new_wrapped:
  assumes L: "foreign_laws L" and m: "length master = KEY_LEN"
  shows "wp (new_wrapped L slot master pw params)
    (\<lambda>r v. \<forall>c f. r = Inr (c, f) \<longrightarrow>
        c = \<lparr> cr_key_slot = slot, cr_key = master \<rparr> \<and> kf_slot f = slot
        \<and> wk_kdf (kf_wrapped_key f) = params \<and> from_key_file L f pw = Inr c) w"
  using open_seal [OF L] m base64_roundtrip [OF L]
  by (auto simp: new_wrapped_def wrap_master_key_def wp_simps from_key_file_def Let_def b64_decode_def
      unwrap_master_key_def SALT_LEN_def NONCE_LEN_def split: sum.splits)

text \<open>What opening a repository key can fail with.\<close>

lemma from_key_file_errors:
  "from_key_file L f pw = Inl e \<Longrightarrow> e = WrongPassphrase \<or> (\<exists>m. e = KeyError m)"
  by (auto simp: from_key_file_def Let_def b64_decode_def ok_or_def res_bind_def map_err_def
      split: sum.splits option.splits if_splits)

end
