(* ===== verification/Tree.thy ===== *)
theory Tree
  imports Foreign
begin

text \<open>
  The snapshot tree of aegis-core/src/tree.rs: canonical order, validation, the hash
  collectors, and the split of a tree into an inline part and content-addressed node
  blobs. \<open>resolves f stored full\<close> is the abstract meaning of a stored tree: \<open>full\<close>
  is what it stands for when references are looked up with \<open>f\<close>; a referenced node
  is a valid one and not itself a reference.
\<close>

definition INLINE_LIMIT :: nat where
  "INLINE_LIMIT = 4 * 1024"

section \<open>Order\<close>

lemma list_child_size: "(c::node) \<in> set cs \<Longrightarrow> size c < Suc (size_list size cs)"
  using node_size_child [of c cs] by simp

function sort_node :: "node \<Rightarrow> node" where
  "sort_node (Dir n cs) = Dir n (map sort_node (sort_key name cs))"
| "sort_node (File n s m t chunks) = File n s m t chunks"
| "sort_node (Ref n h) = Ref n h"
  by pat_completeness auto
termination
  by (relation "measure size") (auto simp: list_child_size)

section \<open>Validation\<close>

definition check_name :: "string \<Rightarrow> unit res" where
  "check_name s =
     (if s = [] \<or> s = ''.'' \<or> s = ''..'' \<or> starts_with s ''/'' \<or> ends_with s ''/''
        \<or> CHR ''/'' \<in> set s \<or> CHR 0x5C \<in> set s \<or> CHR '':'' \<in> set s \<or> CHR 0x00 \<in> set s
      then Inl (BadPath s) else Inr ())"

definition ascii_hexdigit :: "char \<Rightarrow> bool" where
  "ascii_hexdigit c \<longleftrightarrow> (let n = (of_char c :: nat) in
     48 \<le> n \<and> n \<le> 57 \<or> 65 \<le> n \<and> n \<le> 70 \<or> 97 \<le> n \<and> n \<le> 102)"

definition check_hash :: "string \<Rightarrow> unit res" where
  "check_hash h = (if length h = 64 \<and> list_all ascii_hexdigit h then Inr () else Inl (BadPath h))"

fun validate :: "node \<Rightarrow> unit res" where
  "validate (File n _ _ _ _) = check_name n"
| "validate (Dir n cs) = res_bind (check_name n) (\<lambda>_. try_for_each validate cs)"
| "validate (Ref n h) = res_bind (check_name n) (\<lambda>_. check_hash h)"

section \<open>Collecting hashes\<close>

fun collect_refs :: "node \<Rightarrow> string list \<Rightarrow> string list" where
  "collect_refs (Ref _ h) out = out @ [h]"
| "collect_refs (Dir _ cs) out = fold collect_refs cs out"
| "collect_refs (File _ _ _ _ _) out = out"

fun collect_chunk_hashes :: "node \<Rightarrow> string list \<Rightarrow> string list" where
  "collect_chunk_hashes (File _ _ _ _ chunks) out = out @ chunks"
| "collect_chunk_hashes (Dir _ cs) out = fold collect_chunk_hashes cs out"
| "collect_chunk_hashes (Ref _ _) out = out"

fun collect_all_hashes :: "node \<Rightarrow> string list \<times> string list \<Rightarrow> string list \<times> string list" where
  "collect_all_hashes (File _ _ _ _ file_chunks) (chunks, tree_blobs) = (chunks @ file_chunks, tree_blobs)"
| "collect_all_hashes (Ref _ h) (chunks, tree_blobs) = (chunks, tree_blobs @ [h])"
| "collect_all_hashes (Dir _ cs) acc = fold collect_all_hashes cs acc"

section \<open>Hashing and the stored form\<close>

definition serialized :: "foreign \<Rightarrow> node \<Rightarrow> bytes" where
  "serialized L n = node_json L n"

definition hash_hex :: "foreign \<Rightarrow> node \<Rightarrow> string" where
  "hash_hex L n = blake3_hex L (serialized L n)"

definition verify_root_hash :: "foreign \<Rightarrow> node \<Rightarrow> string \<Rightarrow> bool" where
  "verify_root_hash L n expected \<longleftrightarrow> hash_hex L n = expected"

definition verify_node_blob :: "foreign \<Rightarrow> string \<Rightarrow> bytes \<Rightarrow> bool" where
  "verify_node_blob L expected d \<longleftrightarrow> blake3_hex L d = expected"

type_synonym node_blobs = "(string \<times> bytes) list"

definition inline_or_ref :: "foreign \<Rightarrow> node \<Rightarrow> node_blobs \<Rightarrow> (node \<times> node_blobs) res" where
  "inline_or_ref L n blobs =
     res_bind (validate n) (\<lambda>_.
       let d = serialized L n in
       if length d \<le> INLINE_LIMIT then Inr (n, blobs)
       else let h = blake3_hex L d in Inr (Ref (name n) h, blobs @ [(h, d)]))"

fun store_node :: "foreign \<Rightarrow> node \<Rightarrow> node_blobs \<Rightarrow> (node \<times> node_blobs) res"
  and store_children :: "foreign \<Rightarrow> node list \<Rightarrow> node_blobs \<Rightarrow> (node list \<times> node_blobs) res" where
  "store_node L (Dir n cs) blobs =
     res_bind (store_children L cs blobs) (\<lambda>(stored, blobs'). inline_or_ref L (Dir n stored) blobs')"
| "store_node L (File n s m t chunks) blobs = inline_or_ref L (File n s m t chunks) blobs"
| "store_node L (Ref n h) blobs = inline_or_ref L (Ref n h) blobs"
| "store_children L [] blobs = Inr ([], blobs)"
| "store_children L (c # cs) blobs =
     res_bind (store_node L c blobs) (\<lambda>(c', blobs1).
     res_bind (store_children L cs blobs1) (\<lambda>(cs', blobs2). Inr (c' # cs', blobs2)))"

definition build_stored :: "foreign \<Rightarrow> node \<Rightarrow> (node \<times> node_blobs) res" where
  "build_stored L root = store_node L root []"

section \<open>The meaning of a stored tree\<close>

fun is_ref :: "node \<Rightarrow> bool" where
  "is_ref (Ref _ _) = True" | "is_ref _ = False"

inductive resolves :: "(string \<Rightarrow> node option) \<Rightarrow> node \<Rightarrow> node \<Rightarrow> bool" for f where
  res_file: "resolves f (File n s m t cs) (File n s m t cs)"
| res_dir: "list_all2 (resolves f) cs ds \<Longrightarrow> resolves f (Dir n cs) (Dir n ds)"
| res_ref: "\<lbrakk> f h = Some stored; \<not> is_ref stored; validate stored = Inr (); resolves f stored full \<rbrakk>
    \<Longrightarrow> resolves f (Ref n h) full"

inductive_cases resolves_FileE: "resolves f (File n s m t cs) full"
inductive_cases resolves_DirE: "resolves f (Dir n cs) full"
inductive_cases resolves_RefE: "resolves f (Ref n h) full"
inductive_simps resolves_File [simp]: "resolves f (File n s m t cs) full"
inductive_simps resolves_Dir: "resolves f (Dir n cs) full"
inductive_simps resolves_Ref: "resolves f (Ref n h) full"

fun ref_free :: "node \<Rightarrow> bool" where
  "ref_free (File _ _ _ _ _) = True"
| "ref_free (Dir _ cs) = (\<forall>c\<in>set cs. ref_free c)"
| "ref_free (Ref _ _) = False"

fun subnodes :: "node \<Rightarrow> node list" where
  "subnodes (Dir n cs) = Dir n cs # concat (map subnodes cs)"
| "subnodes n = [n]"

definition safe_name :: "string \<Rightarrow> bool" where
  "safe_name s \<longleftrightarrow> s \<noteq> [] \<and> s \<noteq> ''.'' \<and> s \<noteq> ''..'' \<and> CHR ''/'' \<notin> set s
     \<and> CHR 0x5C \<notin> set s \<and> CHR '':'' \<notin> set s \<and> CHR 0x00 \<notin> set s"

section \<open>Facts\<close>

lemma check_name_ok [simp]: "check_name s = Inr () \<longleftrightarrow> safe_name s"
  by (auto simp: check_name_def safe_name_def starts_with_iff ends_with_iff)

lemma check_name_err: "check_name s = Inl e \<Longrightarrow> e = BadPath s"
  by (auto simp: check_name_def split: if_splits)

lemma check_hash_ok: "check_hash h = Inr () \<longleftrightarrow> length h = 64 \<and> list_all ascii_hexdigit h"
  by (auto simp: check_hash_def)

lemma validate_err: "validate n = Inl e \<Longrightarrow> \<exists>s. e = BadPath s"
proof (induction n rule: validate.induct)
  case (2 n cs)
  then show ?case
    by (auto simp: res_bind_def check_name_def split: if_splits sum.splits dest: try_for_each_err)
qed (auto simp: res_bind_def check_name_def check_hash_def split: if_splits sum.splits)

lemma validate_name: "validate n = Inr () \<Longrightarrow> safe_name (name n)"
  by (cases n) (auto simp: res_bind_Inr)

lemma validate_child: "validate (Dir n cs) = Inr () \<Longrightarrow> c \<in> set cs \<Longrightarrow> validate c = Inr ()"
  by (auto simp: res_bind_Inr try_for_each_ok)

lemma validate_Dir: "validate (Dir n cs) = Inr () \<longleftrightarrow> safe_name n \<and> (\<forall>c\<in>set cs. validate c = Inr ())"
  by (auto simp: res_bind_Inr try_for_each_ok)

lemma name_sort_node [simp]: "name (sort_node n) = name n"
  by (cases n) auto

lemma ref_free_sort [simp]: "ref_free (sort_node n) = ref_free n"
  by (induction n rule: sort_node.induct) auto

lemma node_height_sort [simp]: "node_height (sort_node n) = node_height n"
proof (induction n rule: sort_node.induct)
  case (1 d cs)
  have "node_height (sort_node (Dir d cs)) \<le> k \<longleftrightarrow> node_height (Dir d cs) \<le> k" for k
    unfolding sort_node.simps node_height_Dir_le using 1 by simp
  then show ?case by (metis le_antisym le_refl)
qed auto

text \<open>The collectors append the hashes of the subtree in order.\<close>

fun refs_of :: "node \<Rightarrow> string list" where
  "refs_of (File _ _ _ _ _) = []"
| "refs_of (Ref _ h) = [h]"
| "refs_of (Dir _ cs) = concat (map refs_of cs)"

fun chunks_of :: "node \<Rightarrow> string list" where
  "chunks_of (File _ _ _ _ chunks) = chunks"
| "chunks_of (Ref _ _) = []"
| "chunks_of (Dir _ cs) = concat (map chunks_of cs)"

lemma fold_append_out:
  assumes "\<And>x acc. x \<in> set xs \<Longrightarrow> f x acc = acc @ g x"
  shows "fold f xs acc = acc @ concat (map g xs)"
  using assms by (induction xs arbitrary: acc) auto

lemma collect_refs_eq: "collect_refs n out = out @ refs_of n"
proof (induction n arbitrary: out)
  case (Dir d cs)
  then have "\<And>acc. fold collect_refs cs acc = acc @ concat (map refs_of cs)"
    by (intro fold_append_out) auto
  then show ?case by simp
qed simp_all

lemma collect_chunks_eq: "collect_chunk_hashes n out = out @ chunks_of n"
proof (induction n arbitrary: out)
  case (Dir d cs)
  then have "\<And>acc. fold collect_chunk_hashes cs acc = acc @ concat (map chunks_of cs)"
    by (intro fold_append_out) auto
  then show ?case by simp
qed simp_all

lemma collect_all_eq: "collect_all_hashes n (cs, ts) = (cs @ chunks_of n, ts @ refs_of n)"
proof (induction n arbitrary: cs ts)
  case (Dir d ns)
  have "fold collect_all_hashes ns (cs, ts)
      = (cs @ concat (map chunks_of ns), ts @ concat (map refs_of ns))" for cs ts
    using Dir by (induction ns arbitrary: cs ts) auto
  then show ?case by simp
qed simp_all

section \<open>Facts on the stored form\<close>

lemma inline_or_ref_Inr:
  "inline_or_ref L n blobs = Inr (n', blobs') \<longleftrightarrow>
     validate n = Inr () \<and>
     (length (serialized L n) \<le> INLINE_LIMIT \<and> n' = n \<and> blobs' = blobs
      \<or> INLINE_LIMIT < length (serialized L n) \<and> n' = Ref (name n) (hash_hex L n)
          \<and> blobs' = blobs @ [(hash_hex L n, serialized L n)])"
  by (auto simp: inline_or_ref_def res_bind_Inr hash_hex_def Let_def)

lemma inline_or_ref_appends: "inline_or_ref L n blobs = Inr (n', blobs') \<Longrightarrow> \<exists>more. blobs' = blobs @ more"
  by (auto simp: inline_or_ref_Inr)

lemma store_appends:
  "store_node L n blobs = Inr (n', blobs') \<Longrightarrow> \<exists>more. blobs' = blobs @ more"
  "store_children L cs blobs = Inr (cs', blobs') \<Longrightarrow> \<exists>more. blobs' = blobs @ more"
proof (induction L n blobs and L cs blobs arbitrary: n' blobs' and cs' blobs' rule: store_node_store_children.induct)
  case (1 L n cs blobs)
  then show ?case by (auto simp: res_bind_Inr dest!: inline_or_ref_appends)
next
  case (5 L c cs blobs)
  from 5(3) obtain c1 b1 cs1 where a: "store_node L c blobs = Inr (c1, b1)"
    and b: "store_children L cs b1 = Inr (cs1, blobs')"
    by (auto simp: res_bind_Inr)
  show ?case using 5(1) [OF a] 5(2) [OF b] by auto
qed (auto dest: inline_or_ref_appends)

definition addressed :: "foreign \<Rightarrow> node_blobs \<Rightarrow> bool" where
  "addressed L blobs \<longleftrightarrow> (\<forall>(h, d)\<in>set blobs. h = blake3_hex L d \<and> INLINE_LIMIT < length d)"

lemma inline_or_ref_addressed:
  "inline_or_ref L n blobs = Inr (n', blobs') \<Longrightarrow> addressed L blobs \<Longrightarrow> addressed L blobs'"
  by (auto simp: inline_or_ref_Inr addressed_def hash_hex_def)

lemma store_content_addressed:
  "store_node L n blobs = Inr (n', blobs') \<Longrightarrow> addressed L blobs \<Longrightarrow> addressed L blobs'"
  "store_children L cs blobs = Inr (cs', blobs') \<Longrightarrow> addressed L blobs \<Longrightarrow> addressed L blobs'"
proof (induction L n blobs and L cs blobs arbitrary: n' blobs' and cs' blobs' rule: store_node_store_children.induct)
  case (1 L n cs blobs)
  then show ?case by (auto simp: res_bind_Inr intro: inline_or_ref_addressed)
next
  case (5 L c cs blobs)
  from 5(3) obtain c1 b1 cs1 where a: "store_node L c blobs = Inr (c1, b1)"
    and b: "store_children L cs b1 = Inr (cs1, blobs')"
    by (auto simp: res_bind_Inr)
  show ?case using 5(2) [OF b] 5(1) [OF a 5(4)] by auto
qed (auto intro: inline_or_ref_addressed)

text \<open>
  The stored tree stands for the original one under every lookup that finds the emitted
  blobs, provided no node nests beyond what the reader accepts.
\<close>

definition finds :: "foreign \<Rightarrow> (string \<Rightarrow> node option) \<Rightarrow> node_blobs \<Rightarrow> bool" where
  "finds L f blobs \<longleftrightarrow> (\<forall>(h, d)\<in>set blobs. f h = node_parse L d)"

lemma finds_append [simp]: "finds L f (xs @ ys) \<longleftrightarrow> finds L f xs \<and> finds L f ys"
  by (auto simp: finds_def)

lemma inline_or_ref_resolves:
  assumes L: "foreign_laws L" and s: "inline_or_ref L n blobs = Inr (n', blobs')"
    and h: "node_height n \<le> json_depth_limit" and f: "finds L f blobs'" and r: "resolves f n full"
    and nr: "\<not> is_ref n"
  shows "resolves f n' full \<and> node_height n' \<le> node_height n"
proof -
  have "f (hash_hex L n) = Some n" if "blobs' = blobs @ [(hash_hex L n, serialized L n)]"
    using f that h by (simp add: finds_def serialized_def node_parse_json [OF L])
  then show ?thesis using s r nr unfolding inline_or_ref_Inr by (auto intro: resolves.intros)
qed

lemma store_resolves:
  "\<lbrakk> store_node L n blobs = Inr (n', blobs'); foreign_laws L; ref_free n;
     node_height n \<le> json_depth_limit; finds L f blobs' \<rbrakk>
   \<Longrightarrow> resolves f n' n \<and> node_height n' \<le> node_height n"
  "\<lbrakk> store_children L cs blobs = Inr (cs', blobs'); foreign_laws L; \<forall>c\<in>set cs. ref_free c;
     \<forall>c\<in>set cs. node_height c \<le> json_depth_limit; finds L f blobs' \<rbrakk>
   \<Longrightarrow> list_all2 (resolves f) cs' cs \<and> list_all2 (\<lambda>a b. node_height a \<le> node_height b) cs' cs"
proof (induction L n blobs and L cs blobs arbitrary: n' blobs' and cs' blobs' rule: store_node_store_children.induct)
  case (1 L n cs blobs)
  obtain st bl where st: "store_children L cs blobs = Inr (st, bl)"
    and io: "inline_or_ref L (Dir n st) bl = Inr (n', blobs')"
    using 1(2) by (auto simp: res_bind_Inr)
  have f1: "finds L f bl" using io 1(6) by (auto simp: inline_or_ref_Inr)
  have hs: "\<forall>c\<in>set cs. Suc (node_height c) \<le> node_height (Dir n cs)"
    using node_height_Dir_le by blast
  have h1: "\<forall>c\<in>set cs. node_height c \<le> json_depth_limit"
    using 1(5) hs by (meson Suc_leD order_trans)
  have ih: "list_all2 (resolves f) st cs" "list_all2 (\<lambda>a b. node_height a \<le> node_height b) st cs"
    using 1(1) [OF st 1(3) _ h1 f1] 1(4) by auto
  have "node_height (Dir n st) \<le> node_height (Dir n cs)"
    unfolding node_height_Dir_le
  proof
    fix c assume "c \<in> set st"
    then obtain d where "d \<in> set cs" "node_height c \<le> node_height d"
      using ih(2) by (metis in_set_conv_nth list_all2_conv_all_nth)
    then show "Suc (node_height c) \<le> node_height (Dir n cs)" using hs by fastforce
  qed
  moreover have "resolves f (Dir n st) (Dir n cs)" using ih(1) by (rule res_dir)
  moreover have "\<not> is_ref (Dir n st)" by simp
  ultimately show ?case
    using inline_or_ref_resolves [OF 1(3) io _ 1(6)] 1(5) by (meson order_trans)
next
  case (2 L n s m t chunks blobs)
  then show ?case
    using inline_or_ref_resolves [of L "File n s m t chunks" blobs n' blobs' f] by (auto intro: res_file)
next
  case (5 L c cs blobs)
  obtain c1 b1 cs1 where a: "store_node L c blobs = Inr (c1, b1)"
    and b: "store_children L cs b1 = Inr (cs1, blobs')" and c: "cs' = c1 # cs1"
    using 5(3) by (auto simp: res_bind_Inr)
  have "finds L f b1" using store_appends(2) [OF b] 5(7) by auto
  then show ?case using 5(1) [OF a 5(4)] 5(2) [OF b 5(4)] 5(5-7) c by auto
qed auto

text \<open>Every stored node is valid: a reference carries the hash of a blob.\<close>

lemma lower_hexdigit: "lower_hex c \<Longrightarrow> ascii_hexdigit c"
  by (auto simp: lower_hex_def ascii_hexdigit_def)

lemma check_hash_blake3 [simp]: "foreign_laws L \<Longrightarrow> check_hash (blake3_hex L d) = Inr ()"
  using blake3_length blake3_hex_digits by (auto simp: check_hash_ok list_all_iff lower_hexdigit)

lemma store_node_valid: "store_node L n blobs = Inr (n', blobs') \<Longrightarrow> foreign_laws L \<Longrightarrow> validate n' = Inr ()"
proof -
  have io: "validate n' = Inr ()" if "inline_or_ref L n bl = Inr (n', bl')" "foreign_laws L" for n bl n' bl'
    using that validate_name [of n] by (auto simp: inline_or_ref_Inr hash_hex_def res_bind_Inr)
  assume "store_node L n blobs = Inr (n', blobs')" "foreign_laws L"
  then show ?thesis by (cases n) (auto simp: res_bind_Inr intro: io)
qed

end
