(* ===== verification/Chunking.thy ===== *)
theory Chunking
  imports Foreign
begin

text \<open>
  Content-defined chunking of aegis-core/src/chunk.rs: the parameter check and the three
  entry points, over a slice, a reader and an asynchronous reader. The boundaries come
  from the fastcdc crate.
\<close>

definition default_chunker :: chunker_config where
  "default_chunker = \<lparr> min_size = 512 * 1024, avg_size = 1024 * 1024, max_size = 8 * 1024 * 1024 \<rparr>"

definition chunker_validate :: "chunker_config \<Rightarrow> unit res" where
  "chunker_validate cfg =
     (if min_size cfg < 64 \<or> max_size cfg > 1024 * 1024 * 1024 then Inl InvalidChunkerConfig
      else if \<not> (min_size cfg \<le> avg_size cfg \<and> avg_size cfg \<le> max_size cfg) then Inl InvalidChunkerConfig
      else Inr ())"

definition chunker_new :: "nat \<Rightarrow> nat \<Rightarrow> nat \<Rightarrow> chunker_config res" where
  "chunker_new mn av mx =
     (let cfg = \<lparr> min_size = mn, avg_size = av, max_size = mx \<rparr>
      in res_bind (chunker_validate cfg) (\<lambda>_. Inr cfg))"

record chunk =
  ck_hash :: string
  ck_offset :: "64 word"
  ck_length :: nat

text \<open>The cut points of the chunker: each piece with the offset it starts at.\<close>

fun with_offsets :: "nat \<Rightarrow> bytes list \<Rightarrow> (nat \<times> bytes) list" where
  "with_offsets off [] = []"
| "with_offsets off (c # cs) = (off, c) # with_offsets (off + length c) cs"

definition chunk_bytes :: "foreign \<Rightarrow> bytes \<Rightarrow> chunker_config \<Rightarrow> chunk list res" where
  "chunk_bytes L data cfg =
     res_bind (chunker_validate cfg) (\<lambda>_.
       Inr (map (\<lambda>(off, c). \<lparr> ck_hash = blake3_hex L (take (length c) (drop off data)),
                             ck_offset = of_nat off, ck_length = length c \<rparr>)
             (with_offsets 0 (fastcdc L cfg data))))"

text \<open>
  A reader delivers its contents, or fails after some of the chunks. The stream of
  chunks is what the chunker's iterator yields on it.
\<close>

datatype reader = Reader bytes | FailingReader bytes nat

fun stream_items :: "foreign \<Rightarrow> chunker_config \<Rightarrow> reader \<Rightarrow> (nat \<times> bytes) res list" where
  "stream_items L cfg (Reader d) = map Inr (with_offsets 0 (fastcdc L cfg d))"
| "stream_items L cfg (FailingReader d n) =
     map Inr (take n (with_offsets 0 (fastcdc L cfg d))) @ [Inl (Io ''<stream>'')]"

definition chunk_stream ::
  "foreign \<Rightarrow> reader \<Rightarrow> chunker_config \<Rightarrow> ('acc \<Rightarrow> chunk \<Rightarrow> bytes \<Rightarrow> ('s, 'acc) io) \<Rightarrow> 'acc \<Rightarrow> ('s, 'acc) io" where
  "chunk_stream L rd cfg sink acc =
     bnd (lift_res (chunker_validate cfg)) (\<lambda>_.
     fold_io (\<lambda>a item. bnd (lift_res item) (\<lambda>(off, c).
         sink a \<lparr> ck_hash = blake3_hex L c, ck_offset = of_nat off, ck_length = length c \<rparr> c))
       acc (stream_items L cfg rd))"

definition chunk_async_stream ::
  "foreign \<Rightarrow> reader \<Rightarrow> chunker_config \<Rightarrow> ('acc \<Rightarrow> chunk \<Rightarrow> bytes \<Rightarrow> ('s, 'acc) io) \<Rightarrow> 'acc \<Rightarrow> ('s, 'acc) io" where
  "chunk_async_stream L rd cfg sink acc =
     bnd (lift_res (chunker_validate cfg)) (\<lambda>_.
     fold_io (\<lambda>a item. bnd (lift_res item) (\<lambda>(off, c).
         sink a \<lparr> ck_hash = blake3_hex L c, ck_offset = of_nat off, ck_length = length c \<rparr> c))
       acc (stream_items L cfg rd))"

section \<open>Facts\<close>

definition chunker_ok :: "chunker_config \<Rightarrow> bool" where
  "chunker_ok cfg \<longleftrightarrow> 64 \<le> min_size cfg \<and> min_size cfg \<le> avg_size cfg \<and> avg_size cfg \<le> max_size cfg
     \<and> max_size cfg \<le> 2 ^ 30"

lemma chunker_validate_ok [simp]: "chunker_validate cfg = Inr () \<longleftrightarrow> chunker_ok cfg"
  by (auto simp: chunker_validate_def chunker_ok_def)

lemma chunker_ok_validate: "chunker_ok cfg \<Longrightarrow> chunker_validate cfg = Inr ()"
  by simp

lemma chunker_validate_err: "chunker_validate cfg = Inl e \<Longrightarrow> e = InvalidChunkerConfig"
  by (auto simp: chunker_validate_def split: if_splits)

lemma fastcdc_concat: "foreign_laws L \<Longrightarrow> chunker_ok cfg \<Longrightarrow> concat (fastcdc L cfg d) = d"
  by (simp add: foreign_laws_def fastcdc_law_def chunker_ok_def)

lemma fastcdc_pieces:
  "foreign_laws L \<Longrightarrow> chunker_ok cfg \<Longrightarrow> c \<in> set (fastcdc L cfg d) \<Longrightarrow> c \<noteq> [] \<and> length c \<le> max_size cfg"
  by (simp add: foreign_laws_def fastcdc_law_def chunker_ok_def)

lemma with_offsets_snd [simp]: "map snd (with_offsets off cs) = cs"
  by (induction cs arbitrary: off) auto

lemma with_offsets_slice:
  "(i, c) \<in> set (with_offsets off cs) \<Longrightarrow> off \<le> i \<and> take (length c) (drop (i - off) (concat cs)) = c"
proof (induction cs arbitrary: off)
  case (Cons d ds)
  show ?case
  proof (cases "(i, c) = (off, d)")
    case False
    then have m: "(i, c) \<in> set (with_offsets (off + length d) ds)" using Cons.prems by auto
    note ih = Cons.IH [OF m]
    then have "i - off = length d + (i - (off + length d))" by simp
    then have "drop (i - off) (concat (d # ds)) = drop (i - (off + length d)) (concat ds)"
      by simp
    then show ?thesis using ih by (metis add_leD1)
  qed auto
qed simp

text \<open>Hashing a slice of the input is hashing the piece.\<close>

lemma chunk_bytes_eq:
  assumes "foreign_laws L" "chunker_ok cfg"
  shows "chunk_bytes L data cfg = Inr (map (\<lambda>(off, c). \<lparr> ck_hash = blake3_hex L c,
     ck_offset = of_nat off, ck_length = length c \<rparr>) (with_offsets 0 (fastcdc L cfg data)))"
proof -
  have "take (length c) (drop off data) = c" if "(off, c) \<in> set (with_offsets 0 (fastcdc L cfg data))" for off c
    using with_offsets_slice [OF that] fastcdc_concat [OF assms, of data] by simp
  then show ?thesis using assms by (auto simp: chunk_bytes_def chunker_ok_validate)
qed

end
