(* ===== verification/Repo_Core.thy ===== *)
theory Repo_Core
  imports Backend Cipher Tree Chunking
begin

text \<open>
  The open repository of aegis-core/src/repo.rs: its keys, the sealing of everything it
  stores, and the abstraction the other repository theories reason with: the content a
  store holds under each hash (\<open>contents\<close>), and what makes a store a consistent
  content-addressed one (\<open>store_ok\<close>).
\<close>

record 'b repository =
  rp_backend :: "'b backend"
  rp_config :: repo_config
  rp_crypto :: "repo_crypto option"

definition FORMAT_VERSION :: "32 word" where
  "FORMAT_VERSION = 1"

section \<open>Keys\<close>

text \<open>
  \<open>&s[..n]\<close> panics unless \<open>n\<close> is a character boundary inside the string.
\<close>

definition continuation_byte :: "char \<Rightarrow> bool" where
  "continuation_byte c \<longleftrightarrow> (let n = (of_char c :: nat) in 128 \<le> n \<and> n < 192)"

definition str_prefix :: "nat \<Rightarrow> string \<Rightarrow> string res" where
  "str_prefix n s =
     (if n \<le> length s \<and> (n = length s \<or> \<not> continuation_byte (s ! n)) then Inr (take n s)
      else Inl (Panicked ''byte index is not a char boundary''))"

definition blob_key :: "string \<Rightarrow> string res" where
  "blob_key hex = res_bind (str_prefix 2 hex) (\<lambda>p. Inr (''blobs'' @ ''/'' @ p @ ''/'' @ hex))"

definition snapshot_key :: "string \<Rightarrow> string" where
  "snapshot_key i = ''snapshots'' @ ''/'' @ i @ ''.json''"

definition index_key :: "string \<Rightarrow> string" where
  "index_key i = ''index'' @ ''/'' @ i @ ''.json''"

section \<open>Backend access and sealing\<close>

definition get_obj :: "'b repository \<Rightarrow> string \<Rightarrow> ('b world, bytes) io" where
  "get_obj R k = on_store (b_get (rp_backend R) k)"

definition put_obj :: "'b repository \<Rightarrow> string \<Rightarrow> bytes \<Rightarrow> ('b world, unit) io" where
  "put_obj R k d = on_store (b_put (rp_backend R) k d)"

definition exists_obj :: "'b repository \<Rightarrow> string \<Rightarrow> ('b world, bool) io" where
  "exists_obj R k = on_store (b_exists (rp_backend R) k)"

definition list_objs :: "'b repository \<Rightarrow> string \<Rightarrow> ('b world, string list) io" where
  "list_objs R p = on_store (b_list (rp_backend R) p)"

definition delete_obj :: "'b repository \<Rightarrow> string \<Rightarrow> ('b world, unit) io" where
  "delete_obj R k = on_store (b_delete (rp_backend R) k)"

definition seal_for ::
  "foreign \<Rightarrow> 'b repository \<Rightarrow> aead_context \<Rightarrow> bytes \<Rightarrow> ('b world, bytes) io" where
  "seal_for L R context data =
     (case rp_crypto R of
        Some c \<Rightarrow> encrypt_and_encode L c context data
      | None \<Rightarrow> ret (encode L data))"

definition open_for :: "foreign \<Rightarrow> 'b repository \<Rightarrow> aead_context \<Rightarrow> bytes \<Rightarrow> bytes res" where
  "open_for L R context stored =
     (case rp_crypto R of
        Some c \<Rightarrow> decrypt_and_decode L c context stored
      | None \<Rightarrow> decode L stored)"

definition decode_blob_hash_ctx :: "foreign \<Rightarrow> repo_crypto option \<Rightarrow> string \<Rightarrow> bytes \<Rightarrow> bytes res" where
  "decode_blob_hash_ctx L crypto hex stored =
     (case crypto of
        Some c \<Rightarrow> decrypt_and_decode L c (CtxHash hex) stored
      | None \<Rightarrow> decode L stored)"

section \<open>Content addressing\<close>

definition bkey :: "string \<Rightarrow> string" where
  "bkey h = ''blobs/'' @ take 2 h @ CHR ''/'' # h"

definition hash_name :: "string \<Rightarrow> bool" where
  "hash_name h \<longleftrightarrow> ident h \<and> 2 \<le> length h"

definition contents :: "foreign \<Rightarrow> 'b repository \<Rightarrow> (string \<Rightarrow> bytes option) \<Rightarrow> string \<Rightarrow> bytes option" where
  "contents L R v h = (case v (bkey h) of None \<Rightarrow> None
     | Some s \<Rightarrow> (case decode_blob_hash_ctx L (rp_crypto R) h s of Inl _ \<Rightarrow> None | Inr d \<Rightarrow> Some d))"

text \<open>Every blob decodes to bytes of \<open>U\<close> that hash to its address.\<close>

definition store_ok :: "foreign \<Rightarrow> 'b repository \<Rightarrow> bytes set \<Rightarrow> (string \<Rightarrow> bytes option) \<Rightarrow> bool" where
  "store_ok L R U v \<longleftrightarrow> (\<forall>h. hash_name h \<longrightarrow> v (bkey h) \<noteq> None \<longrightarrow>
      (\<exists>d\<in>U. contents L R v h = Some d \<and> blake3_hex L d = h))"

lemma continuation_not_ident: "ident_char c \<Longrightarrow> \<not> continuation_byte c"
  by (auto simp: ident_char_def continuation_byte_def Let_def)

lemma blob_key_hash: "hash_name h \<Longrightarrow> blob_key h = Inr (bkey h)"
  by (auto simp: blob_key_def str_prefix_def hash_name_def bkey_def ident_def list_all_iff
      continuation_not_ident)

lemma repo_key_bkey [simp]: "hash_name h \<Longrightarrow> repo_key (bkey h)"
  using repo_key_blob by (simp add: hash_name_def bkey_def)

lemma bkey_inj: "hash_name h \<Longrightarrow> hash_name h' \<Longrightarrow> bkey h = bkey h' \<longleftrightarrow> h = h'"
  unfolding hash_name_def bkey_def using key_path_blob by (metis list.inject)

lemma repo_key_snapshot: "ident i \<Longrightarrow> repo_key (snapshot_key i)"
  using repo_key_doc [of "''snapshots''" i] by (simp add: snapshot_key_def doc_dirs_def)

lemma repo_key_index: "ident i \<Longrightarrow> repo_key (index_key i)"
  using repo_key_doc [of "''index''" i] by (simp add: index_key_def doc_dirs_def)

lemma snapshot_key_inj [simp]: "snapshot_key i = snapshot_key j \<longleftrightarrow> i = j"
  by (simp add: snapshot_key_def)

lemma index_key_inj [simp]: "index_key i = index_key j \<longleftrightarrow> i = j"
  by (simp add: index_key_def)

lemma keys_disjoint [simp]:
  "snapshot_key i \<noteq> index_key j" "index_key j \<noteq> snapshot_key i"
  "bkey h \<noteq> snapshot_key i" "bkey h \<noteq> index_key i" "snapshot_key i \<noteq> bkey h" "index_key i \<noteq> bkey h"
  "snapshot_key i \<noteq> ''config''" "index_key i \<noteq> ''config''" "bkey h \<noteq> ''config''"
  by (simp_all add: snapshot_key_def index_key_def bkey_def)

lemma lower_hex_ident: "lower_hex c \<Longrightarrow> ident_char c"
  by (auto simp: lower_hex_def ident_char_def)

lemma hash_name_blake3 [simp]: "foreign_laws L \<Longrightarrow> hash_name (blake3_hex L d)"
proof -
  assume L: "foreign_laws L"
  have "list_all ident_char (blake3_hex L d)"
    using blake3_hex_digits [OF L, of d] by (auto simp: list_all_iff lower_hex_ident)
  moreover have "length (blake3_hex L d) = 64" by (rule blake3_length [OF L])
  ultimately show ?thesis by (auto simp: hash_name_def ident_def)
qed

lemma open_seal_for:
  assumes "foreign_laws L"
  shows "wp (seal_for L R ctx p)
    (\<lambda>r w'. rng_only w w' \<and> (\<forall>s. r = Inr s \<longrightarrow> open_for L R ctx s = Inr p)
      \<and> (\<forall>e. r = Inl e \<longrightarrow> e = EncryptFailed)) w"
proof (cases "rp_crypto R")
  case None
  obtain f z where z: "compress_payload L p = (f, z)" by fastforce
  have "decode L (encode L p) = Inr p"
    using compress_valid [OF z] decompress_compress [OF assms z]
    by (simp add: decode_def encode_def z unwrap_wrap)
  then show ?thesis by (simp add: seal_for_def open_for_def None wp_simps)
next
  case (Some c)
  then show ?thesis using wp_encrypt_and_encode [OF assms, of c ctx p w]
    by (simp add: seal_for_def open_for_def)
qed

lemma decode_hash_ctx_open: "decode_blob_hash_ctx L (rp_crypto R) h s = open_for L R (CtxHash h) s"
  by (simp add: decode_blob_hash_ctx_def open_for_def)

lemma contents_upd_other:
  "k \<noteq> bkey h \<Longrightarrow> contents L R (v(k \<mapsto> s)) h = contents L R v h"
  by (simp add: contents_def)

lemma contents_mono: "v \<subseteq>\<^sub>m v' \<Longrightarrow> contents L R v h = Some d \<Longrightarrow> contents L R v' h = Some d"
  by (force simp: contents_def map_le_def dom_def split: option.splits)

lemma store_ok_contents:
  assumes "store_ok L R U v" "inj_on (blake3_hex L) U" "d \<in> U" "foreign_laws L"
    and "v (bkey (blake3_hex L d)) \<noteq> None"
  shows "contents L R v (blake3_hex L d) = Some d"
  using assms unfolding store_ok_def by (metis hash_name_blake3 inj_on_def)

lemma store_ok_put:
  assumes "store_ok L R U v" "d \<in> U" "h = blake3_hex L d" "foreign_laws L"
    and "open_for L R (CtxHash h) s = Inr d"
  shows "store_ok L R U (v(bkey h \<mapsto> s))"
  unfolding store_ok_def
proof (intro allI impI)
  fix g
  assume g: "hash_name g" "(v(bkey h \<mapsto> s)) (bkey g) \<noteq> None"
  show "\<exists>d\<in>U. contents L R (v(bkey h \<mapsto> s)) g = Some d \<and> blake3_hex L d = g"
  proof (cases "g = h")
    case True
    then show ?thesis using assms by (auto simp: contents_def decode_hash_ctx_open)
  next
    case False
    then have "bkey g \<noteq> bkey h" using g(1) assms(3,4) bkey_inj hash_name_blake3 by metis
    then show ?thesis using assms(1) g by (auto simp: store_ok_def contents_upd_other)
  qed
qed

lemma store_ok_put_other:
  assumes "store_ok L R U v" "\<And>h. k \<noteq> bkey h"
  shows "store_ok L R U (v(k \<mapsto> s))"
  using assms by (auto simp: store_ok_def contents_upd_other)

end
