(* ===== verification/Store_Rules.thy ===== *)
theory Store_Rules
  imports Repo_Core
begin

text \<open>
  What a call to the backend changes in the world of an engine run, and the rules of the
  six backend calls there, from the backend contract. \<open>grown\<close> is the way a backup
  changes a store: blobs are added, nothing is overwritten.
\<close>

section \<open>What the operations change\<close>

text \<open>The part of the world a backup moves: the store and the random supply.\<close>

definition quiet :: "'b world \<Rightarrow> 'b world \<Rightarrow> bool" where
  "quiet w v \<longleftrightarrow> (\<exists>b n. v = w\<lparr> w_store := b, w_rng_pos := n \<rparr>)"

lemma quiet_refl [simp]: "quiet w w"
  unfolding quiet_def by (rule exI [of _ "w_store w"], rule exI [of _ "w_rng_pos w"]) simp

lemma quiet_trans: "quiet w v \<Longrightarrow> quiet v u \<Longrightarrow> quiet w u"
  unfolding quiet_def by (clarsimp, rename_tac b c n m, rule_tac x = c in exI, rule_tac x = m in exI) simp

lemma quiet_store [simp]: "quiet w (w\<lparr> w_store := b \<rparr>)"
  unfolding quiet_def by (rule exI [of _ b], rule exI [of _ "w_rng_pos w"]) simp

lemma rng_only_quiet: "rng_only w v \<Longrightarrow> quiet w v \<and> w_store v = w_store w"
proof -
  assume "rng_only w v"
  then obtain n where v: "v = w\<lparr> w_rng_pos := n \<rparr>" by (auto simp: rng_only_def)
  show ?thesis unfolding quiet_def v
    by (intro conjI exI [of _ "w_store w"] exI [of _ n]) simp_all
qed

lemma quiet_fields:
  "quiet w v \<Longrightarrow> w_os v = w_os w \<and> w_uuids v = w_uuids w \<and> w_uuid_pos v = w_uuid_pos w
    \<and> w_clock v = w_clock w \<and> w_clock_pos v = w_clock_pos w \<and> w_host v = w_host w \<and> w_rng v = w_rng w"
  by (auto simp: quiet_def)

text \<open>Growth of the store by content-addressed blobs only.\<close>

definition grown :: "foreign \<Rightarrow> 'b repository \<Rightarrow> bytes set \<Rightarrow> (string \<Rightarrow> bytes option) \<Rightarrow> (string \<Rightarrow> bytes option) \<Rightarrow> bool" where
  "grown L R U v v' \<longleftrightarrow> v \<subseteq>\<^sub>m v' \<and> (\<forall>k. v' k \<noteq> v k \<longrightarrow> (\<exists>h. hash_name h \<and> k = bkey h))
     \<and> (store_ok L R U v \<longrightarrow> store_ok L R U v')"

lemma grown_refl [simp]: "grown L R U v v"
  by (simp add: grown_def)

lemma grown_trans: "grown L R U v v' \<Longrightarrow> grown L R U v' v'' \<Longrightarrow> grown L R U v v''"
  unfolding grown_def by (metis map_le_trans)

lemma grown_Some: "grown L R U v v' \<Longrightarrow> v k \<noteq> None \<Longrightarrow> v' k \<noteq> None"
  unfolding grown_def map_le_def by (metis domIff)

text \<open>No document carries the id yet; storing blobs does not change that.\<close>

definition unused_id :: "(string \<Rightarrow> bytes option) \<Rightarrow> string \<Rightarrow> bool" where
  "unused_id v i \<longleftrightarrow> v (index_key i) = None \<and> v (snapshot_key i) = None"

lemma unused_grown: "grown L R U v v' \<Longrightarrow> unused_id v i \<Longrightarrow> unused_id v' i"
  unfolding grown_def unused_id_def by (metis keys_disjoint(3,4))

lemma grown_put:
  assumes "foreign_laws L" "d \<in> U" "h = blake3_hex L d" "open_for L R (CtxHash h) s = Inr d"
    and "v (bkey h) = None" "v' = v \<or> v' = v(bkey h \<mapsto> s)"
  shows "grown L R U v v'"
proof -
  have hn: "hash_name h" using assms(1,3) by simp
  have only: "\<forall>k. (v(bkey h \<mapsto> s)) k \<noteq> v k \<longrightarrow> (\<exists>g. hash_name g \<and> k = bkey g)"
    using hn by auto
  have "v \<subseteq>\<^sub>m v(bkey h \<mapsto> s)" using assms(5) by (auto simp: map_le_def)
  then have "grown L R U v (v(bkey h \<mapsto> s))"
    unfolding grown_def using only store_ok_put [OF _ assms(2,3,1,4), of v] by blast
  then show ?thesis using assms(6) by auto
qed

context backend
begin

lemma wp_get_obj:
  assumes "rp_backend R = B" "good (w_store w)"
  shows "wp (get_obj R k) (\<lambda>r w'. quiet w w' \<and> good (w_store w') \<and> view (w_store w') = view (w_store w)
     \<and> (\<forall>d. r = Inr d \<longrightarrow> repo_key k \<longrightarrow> view (w_store w) k = Some d)) w"
  unfolding get_obj_def assms(1) wp_on_store
  by (rule wp_mono [OF get_law [OF assms(2)]]) auto

lemma wp_exists_obj:
  assumes "rp_backend R = B" "good (w_store w)"
  shows "wp (exists_obj R k) (\<lambda>r w'. quiet w w' \<and> good (w_store w') \<and> view (w_store w') = view (w_store w)
     \<and> (\<forall>t. r = Inr t \<longrightarrow> repo_key k \<longrightarrow> t = (view (w_store w) k \<noteq> None))) w"
  unfolding exists_obj_def assms(1) wp_on_store
  by (rule wp_mono [OF exists_law [OF assms(2)]]) auto

lemma wp_list_objs:
  assumes "rp_backend R = B" "good (w_store w)" "list_prefix p"
  shows "wp (list_objs R p) (\<lambda>r w'. quiet w w' \<and> good (w_store w') \<and> view (w_store w') = view (w_store w)
     \<and> (\<forall>ks. r = Inr ks \<longrightarrow> distinct ks \<and> (\<forall>k\<in>set ks. store_key k \<and> under p k)
          \<and> {k \<in> set ks. repo_key k} = {k. under p k \<and> view (w_store w) k \<noteq> None})) w"
  unfolding list_objs_def assms(1) wp_on_store
  by (rule wp_mono [OF list_law [OF assms(2,3)]]) auto

lemma wp_create_obj:
  assumes "rp_backend R = B" "good (w_store w)" "repo_key k" "view (w_store w) k = None"
  shows "wp (put_obj R k d) (\<lambda>r w'. quiet w w' \<and> good (w_store w')
     \<and> (case r of Inr _ \<Rightarrow> view (w_store w') = (view (w_store w))(k \<mapsto> d)
        | Inl _ \<Rightarrow> view (w_store w') = view (w_store w) \<or> view (w_store w') = (view (w_store w))(k \<mapsto> d))) w"
  unfolding put_obj_def assms(1) wp_on_store
  by (rule wp_mono [OF put_law [OF assms(2,3)]]) (use assms(4) fun_upd_idem [of "view (w_store w)" k None] in \<open>auto split: sum.splits\<close>)

lemma wp_delete_obj:
  assumes "rp_backend R = B" "good (w_store w)" "store_key k"
  shows "wp (delete_obj R k) (\<lambda>r w'. quiet w w' \<and> good (w_store w')
     \<and> (case r of Inr _ \<Rightarrow> view (w_store w') = (view (w_store w))(k := None)
        | Inl _ \<Rightarrow> view (w_store w') = view (w_store w) \<or> view (w_store w') = (view (w_store w))(k := None))) w"
  unfolding delete_obj_def assms(1) wp_on_store
  by (rule wp_mono [OF delete_law [OF assms(2,3)]]) (auto split: sum.splits)

end

section \<open>The same calls on a backend that may be reliable\<close>

text \<open>
  Both contracts in one postcondition: what a call does whether or not it fails, and that
  in a ready state it succeeds and stays ready.
\<close>

definition same_store :: "('b \<Rightarrow> string \<Rightarrow> bytes option) \<Rightarrow> ('b \<Rightarrow> bool) \<Rightarrow> 'b world \<Rightarrow> 'b world \<Rightarrow> bool" where
  "same_store view good w t \<longleftrightarrow> quiet w t \<and> good (w_store t) \<and> view (w_store t) = view (w_store w)"

lemma same_store_refl: "good (w_store w) \<Longrightarrow> same_store view good w w"
  by (simp add: same_store_def)

lemma same_store_trans: "same_store view good w t \<Longrightarrow> same_store view good t u \<Longrightarrow> same_store view good w u"
  unfolding same_store_def using quiet_trans by metis

lemma same_store_good: "same_store view good w t \<Longrightarrow> good (w_store t)"
  by (simp add: same_store_def)

lemma same_store_view: "same_store view good w t \<Longrightarrow> view (w_store t) = view (w_store w)"
  by (simp add: same_store_def)

lemma same_store_os: "same_store view good w t \<Longrightarrow> w_os t = w_os w"
  by (simp add: same_store_def quiet_fields)

context reliable_backend
begin

lemma both:
  assumes "wp m (\<lambda>r b. P r b) b" "ready b \<Longrightarrow> wp m (\<lambda>r b. Q r b) b"
  shows "wp m (\<lambda>r c. P r c \<and> (ready b \<longrightarrow> Q r c)) b"
  using assms by (cases "ready b") (auto simp: wp_iff)

lemma wp_get:
  assumes "rp_backend R = B" "good (w_store w)"
  shows "wp (get_obj R k) (\<lambda>r t. same_store view good w t
     \<and> (\<forall>d. r = Inr d \<longrightarrow> repo_key k \<longrightarrow> view (w_store w) k = Some d)
     \<and> (ready (w_store w) \<longrightarrow> ready (w_store t) \<and> (repo_key k \<longrightarrow> view (w_store w) k \<noteq> None \<longrightarrow> is_ok r))) w"
  unfolding get_obj_def assms(1) wp_on_store same_store_def
  by (rule wp_mono [OF both [OF get_law get_ready]]) (auto simp: assms)

lemma wp_exists:
  assumes "rp_backend R = B" "good (w_store w)" "repo_key k"
  shows "wp (exists_obj R k) (\<lambda>r t. same_store view good w t
     \<and> (\<forall>b. r = Inr b \<longrightarrow> b = (view (w_store w) k \<noteq> None))
     \<and> (ready (w_store w) \<longrightarrow> ready (w_store t) \<and> is_ok r)) w"
  unfolding exists_obj_def assms(1) wp_on_store same_store_def
  by (rule wp_mono [OF both [OF exists_law exists_ready]]) (auto simp: assms)

lemma wp_exists_any:
  assumes "rp_backend R = B" "good (w_store w)"
  shows "wp (exists_obj R k) (\<lambda>r t. same_store view good w t) w"
  unfolding exists_obj_def assms(1) wp_on_store same_store_def
  by (rule wp_mono [OF exists_law]) (auto simp: assms)

lemma wp_list:
  assumes "rp_backend R = B" "good (w_store w)" "list_prefix p"
  shows "wp (list_objs R p) (\<lambda>r t. same_store view good w t
     \<and> (\<forall>ks. r = Inr ks \<longrightarrow> distinct ks \<and> (\<forall>k\<in>set ks. store_key k \<and> under p k)
          \<and> {k \<in> set ks. repo_key k} = {k. under p k \<and> view (w_store w) k \<noteq> None})
     \<and> (ready (w_store w) \<longrightarrow> ready (w_store t) \<and> is_ok r)) w"
  unfolding list_objs_def assms(1) wp_on_store same_store_def
  by (rule wp_mono [OF both [OF list_law list_ready]]) (auto simp: assms)

lemma wp_put:
  assumes "rp_backend R = B" "good (w_store w)" "repo_key k"
  shows "wp (put_obj R k d) (\<lambda>r t. quiet w t \<and> good (w_store t)
     \<and> (case r of Inr _ \<Rightarrow> view (w_store t) = (view (w_store w))(k \<mapsto> d)
        | Inl _ \<Rightarrow> view (w_store t) = view (w_store w) \<or> view (w_store t) = (view (w_store w))(k \<mapsto> d)
            \<or> view (w_store t) = (view (w_store w))(k := None))
     \<and> (ready (w_store w) \<longrightarrow> ready (w_store t) \<and> is_ok r)) w"
  unfolding put_obj_def assms(1) wp_on_store
  by (rule wp_mono [OF both [OF put_law put_ready]]) (auto simp: assms split: sum.splits)

lemma wp_delete:
  assumes "rp_backend R = B" "good (w_store w)" "store_key k"
  shows "wp (delete_obj R k) (\<lambda>r t. quiet w t \<and> good (w_store t)
     \<and> (case r of Inr _ \<Rightarrow> view (w_store t) = (view (w_store w))(k := None)
        | Inl _ \<Rightarrow> view (w_store t) = view (w_store w) \<or> view (w_store t) = (view (w_store w))(k := None))
     \<and> (ready (w_store w) \<longrightarrow> ready (w_store t) \<and> is_ok r)) w"
  unfolding delete_obj_def assms(1) wp_on_store
  by (rule wp_mono [OF both [OF delete_law delete_ready]]) (auto simp: assms split: sum.splits)

end

context atomic_backend
begin

lemma wp_put_atomic:
  assumes "rp_backend R = B" "good (w_store w)" "repo_key k"
  shows "wp (put_obj R k d) (\<lambda>r t. quiet w t \<and> good (w_store t)
     \<and> (case r of Inr _ \<Rightarrow> view (w_store t) = (view (w_store w))(k \<mapsto> d)
        | Inl _ \<Rightarrow> view (w_store t) = view (w_store w) \<or> view (w_store t) = (view (w_store w))(k \<mapsto> d))
     \<and> (ready (w_store w) \<longrightarrow> ready (w_store t) \<and> is_ok r)) w"
  unfolding put_obj_def assms(1) wp_on_store
  by (rule wp_mono [OF both [OF put_atomic put_ready]]) (auto simp: assms split: sum.splits)

end

end
