(* ===== verification/Reference_Instance.thy ===== *)
theory Reference_Instance
  imports Foreign
begin

text \<open>
  A concrete instance of the third-party functions, simple enough to evaluate, that
  satisfies every documented law. It shows that the hypotheses of the theorems can hold
  together and is what the witnesses run on. The codecs are prefix codes; hash, tag and
  derived key are digests of a polynomial number of their input.
\<close>

section \<open>Prefix codes\<close>

type_synonym 'a dec = "bytes \<Rightarrow> ('a \<times> bytes) option"

definition dret :: "'a \<Rightarrow> 'a dec" where
  "dret x = (\<lambda>bs. Some (x, bs))"

definition dbind :: "'a dec \<Rightarrow> ('a \<Rightarrow> 'b dec) \<Rightarrow> 'b dec" where
  "dbind d f = (\<lambda>bs. case d bs of None \<Rightarrow> None | Some (x, r) \<Rightarrow> f x r)"

lemma dret_simp [simp]: "dret x bs = Some (x, bs)" by (simp add: dret_def)

lemma dbind_simp [simp]: "d bs = Some (x, r) \<Longrightarrow> dbind d f bs = f x r"
  by (simp add: dbind_def)

definition enc_nat :: "nat \<Rightarrow> bytes" where
  "enc_nat n = replicate n 1 @ [0]"

fun dec_nat :: "nat dec" where
  "dec_nat [] = None"
| "dec_nat (b # bs) = (if b = 0 then Some (0, bs) else map_option (\<lambda>(n, r). (Suc n, r)) (dec_nat bs))"

lemma dec_enc_nat [simp]: "dec_nat (enc_nat n @ r) = Some (n, r)"
  by (induction n) (auto simp: enc_nat_def)

definition enc_list :: "('a \<Rightarrow> bytes) \<Rightarrow> 'a list \<Rightarrow> bytes" where
  "enc_list e xs = enc_nat (length xs) @ concat (map e xs)"

fun dec_n :: "'a dec \<Rightarrow> nat \<Rightarrow> 'a list dec" where
  "dec_n d 0 = dret []"
| "dec_n d (Suc n) = dbind d (\<lambda>x. dbind (dec_n d n) (\<lambda>xs. dret (x # xs)))"

definition dec_list :: "'a dec \<Rightarrow> 'a list dec" where
  "dec_list d = dbind dec_nat (dec_n d)"

lemma dec_n_concat:
  "\<lbrakk> \<And>x r. x \<in> set xs \<Longrightarrow> d (e x @ r) = Some (x, r) \<rbrakk>
    \<Longrightarrow> dec_n d (length xs) (concat (map e xs) @ r) = Some (xs, r)"
  by (induction xs) auto

lemma dec_enc_list:
  "\<lbrakk> \<And>x r. x \<in> set xs \<Longrightarrow> d (e x @ r) = Some (x, r) \<rbrakk>
    \<Longrightarrow> dec_list d (enc_list e xs @ r) = Some (xs, r)"
  by (simp add: dec_list_def enc_list_def dec_n_concat)

definition enc_str :: "string \<Rightarrow> bytes" where
  "enc_str s = enc_list (\<lambda>c. [of_nat (of_char c)]) s"

fun dec_char :: "char dec" where
  "dec_char [] = None"
| "dec_char (b # bs) = Some (char_of (unat b), bs)"

definition dec_str :: "string dec" where
  "dec_str = dec_list dec_char"

lemma dec_enc_str [simp]: "dec_str (enc_str s @ r) = Some (s, r)"
  unfolding dec_str_def enc_str_def
  by (rule dec_enc_list) (simp add: unat_of_nat take_bit_nat_eq_self)

definition enc_word :: "'a::len word \<Rightarrow> bytes" where "enc_word w = enc_nat (unat w)"
definition dec_word :: "'a::len word dec" where "dec_word = dbind dec_nat (\<lambda>n. dret (of_nat n))"

lemma dec_enc_word [simp]: "dec_word (enc_word w @ r) = Some (w, r)"
  by (simp add: dec_word_def enc_word_def)

definition enc_bool :: "bool \<Rightarrow> bytes" where "enc_bool b = [if b then 1 else 0]"
fun dec_bool :: "bool dec" where
  "dec_bool [] = None" | "dec_bool (b # bs) = Some (b \<noteq> 0, bs)"

lemma dec_enc_bool [simp]: "dec_bool (enc_bool b @ r) = Some (b, r)"
  by (simp add: enc_bool_def)

lemma dbind_bool [simp]: "dbind dec_bool f (enc_bool b @ r) = f b r"
  by (simp add: dbind_def)

definition enc_int :: "int \<Rightarrow> bytes" where "enc_int i = enc_bool (i < 0) @ enc_nat (nat \<bar>i\<bar>)"
definition dec_int :: "int dec" where
  "dec_int = dbind dec_bool (\<lambda>s. dbind dec_nat (\<lambda>n. dret (if s then - int n else int n)))"

lemma dec_enc_int [simp]: "dec_int (enc_int i @ r) = Some (i, r)"
  by (simp add: dec_int_def enc_int_def)

definition enc_opt :: "('a \<Rightarrow> bytes) \<Rightarrow> 'a option \<Rightarrow> bytes" where
  "enc_opt e m = (case m of None \<Rightarrow> enc_bool False | Some x \<Rightarrow> enc_bool True @ e x)"
definition dec_opt :: "'a dec \<Rightarrow> 'a option dec" where
  "dec_opt d = dbind dec_bool (\<lambda>b. if b then dbind d (\<lambda>x. dret (Some x)) else dret None)"

lemma dec_enc_opt:
  "(\<And>x r. d (e x @ r) = Some (x, r)) \<Longrightarrow> dec_opt d (enc_opt e m @ r) = Some (m, r)"
  by (cases m) (simp_all add: dec_opt_def enc_opt_def)

section \<open>Documents\<close>

fun enc_node :: "node \<Rightarrow> bytes" where
  "enc_node (File n s m t cs) =
     enc_nat 0 @ enc_str n @ enc_word s @ enc_opt enc_word m @ enc_opt enc_int t @ enc_list enc_str cs"
| "enc_node (Dir n cs) = enc_nat 1 @ enc_str n @ enc_nat (length cs) @ concat (map enc_node cs)"
| "enc_node (Ref n h) = enc_nat 2 @ enc_str n @ enc_str h"

fun dec_node :: "nat \<Rightarrow> node dec" where
  "dec_node 0 = (\<lambda>_. None)"
| "dec_node (Suc f) = dbind dec_nat (\<lambda>t.
     if t = 0 then dbind dec_str (\<lambda>n. dbind dec_word (\<lambda>s. dbind (dec_opt dec_word) (\<lambda>m.
        dbind (dec_opt dec_int) (\<lambda>tm. dbind (dec_list dec_str) (\<lambda>cs. dret (File n s m tm cs))))))
     else if t = 1 then dbind dec_str (\<lambda>n. dbind dec_nat (\<lambda>k. dbind (dec_n (dec_node f) k) (\<lambda>cs. dret (Dir n cs))))
     else dbind dec_str (\<lambda>n. dbind dec_str (\<lambda>h. dret (Ref n h))))"

lemma dec_enc_node: "node_height n < f \<Longrightarrow> dec_node f (enc_node n @ r) = Some (n, r)"
proof (induction n arbitrary: f r)
  case (File n s m t cs)
  then obtain g where "f = Suc g" by (cases f) auto
  then show ?case by (simp add: dec_enc_opt dec_enc_list)
next
  case (Dir n cs)
  then obtain g where g: "f = Suc g" by (cases f) auto
  have "\<And>c r. c \<in> set cs \<Longrightarrow> dec_node g (enc_node c @ r) = Some (c, r)"
    using Dir.IH Dir.prems node_height_child [of _ cs n] g by (metis less_Suc_eq_le less_le_trans)
  then have "dec_n (dec_node g) (length cs) (concat (map enc_node cs) @ r) = Some (cs, r)"
    by (rule dec_n_concat)
  then show ?case by (simp add: g)
next
  case (Ref n h)
  then obtain g where "f = Suc g" by (cases f) auto
  then show ?case by simp
qed

definition enc_stats :: "snapshot_stats \<Rightarrow> bytes" where
  "enc_stats s = enc_word (st_files s) @ enc_word (st_bytes s) @ enc_word (st_chunks s)
     @ enc_word (st_new_chunks s) @ enc_word (st_new_bytes s) @ enc_word (st_new_tree_nodes s)"

definition dec_stats :: "snapshot_stats dec" where
  "dec_stats = dbind dec_word (\<lambda>a. dbind dec_word (\<lambda>b. dbind dec_word (\<lambda>c. dbind dec_word (\<lambda>d.
     dbind dec_word (\<lambda>e. dbind dec_word (\<lambda>f. dret \<lparr> st_files = a, st_bytes = b, st_chunks = c,
       st_new_chunks = d, st_new_bytes = e, st_new_tree_nodes = f \<rparr>))))))"

lemma dec_enc_stats [simp]: "dec_stats (enc_stats s @ r) = Some (s, r)"
  by (simp add: dec_stats_def enc_stats_def)

definition enc_snapshot :: "snapshot \<Rightarrow> bytes" where
  "enc_snapshot s = enc_str (sn_id s) @ enc_str (sn_time s) @ enc_str (sn_hostname s)
     @ enc_list enc_str (sn_paths s) @ enc_stats (sn_stats s) @ enc_node (sn_root s)"

definition dec_snapshot :: "nat \<Rightarrow> snapshot dec" where
  "dec_snapshot f = dbind dec_str (\<lambda>i. dbind dec_str (\<lambda>t. dbind dec_str (\<lambda>h. dbind (dec_list dec_str) (\<lambda>p.
     dbind dec_stats (\<lambda>st. dbind (dec_node f) (\<lambda>rt. dret \<lparr> sn_id = i, sn_time = t, sn_hostname = h,
       sn_paths = p, sn_root = rt, sn_stats = st \<rparr>))))))"

lemma dec_enc_snapshot:
  "node_height (sn_root s) < f \<Longrightarrow> dec_snapshot f (enc_snapshot s @ r) = Some (s, r)"
  by (simp add: dec_snapshot_def enc_snapshot_def dec_enc_list dec_enc_node)

definition enc_ref :: "blob_ref \<Rightarrow> bytes" where
  "enc_ref b = enc_str (br_hash b) @ enc_opt enc_word (br_size b) @ enc_bool (br_kind b = Chunk)"

definition dec_ref :: "blob_ref dec" where
  "dec_ref = dbind dec_str (\<lambda>h. dbind (dec_opt dec_word) (\<lambda>s. dbind dec_bool (\<lambda>k.
     dret \<lparr> br_hash = h, br_size = s, br_kind = (if k then Chunk else TreeNode) \<rparr>)))"

lemma dec_enc_ref [simp]: "dec_ref (enc_ref b @ r) = Some (b, r)"
  by (cases "br_kind b") (auto simp: dec_ref_def enc_ref_def dec_enc_opt)

definition enc_index :: "snapshot_index \<Rightarrow> bytes" where
  "enc_index i = enc_str (ix_snapshot_id i) @ enc_list enc_ref (ix_blobs i)"

definition dec_index :: "snapshot_index dec" where
  "dec_index = dbind dec_str (\<lambda>i. dbind (dec_list dec_ref) (\<lambda>b. dret \<lparr> ix_snapshot_id = i, ix_blobs = b \<rparr>))"

lemma dec_enc_index [simp]: "dec_index (enc_index i @ r) = Some (i, r)"
  by (simp add: dec_index_def enc_index_def dec_enc_list)

definition enc_config :: "repo_config \<Rightarrow> bytes" where
  "enc_config c = enc_word (rc_version c) @ enc_str (rc_id c) @ enc_nat (min_size (rc_chunker c))
     @ enc_nat (avg_size (rc_chunker c)) @ enc_nat (max_size (rc_chunker c)) @ enc_bool (rc_encrypted c)
     @ enc_str (rc_key_slot c)"

definition dec_config :: "repo_config dec" where
  "dec_config = dbind dec_word (\<lambda>v. dbind dec_str (\<lambda>i. dbind dec_nat (\<lambda>a. dbind dec_nat (\<lambda>b. dbind dec_nat (\<lambda>c.
     dbind dec_bool (\<lambda>e. dbind dec_str (\<lambda>s. dret \<lparr> rc_version = v, rc_id = i,
       rc_chunker = \<lparr> min_size = a, avg_size = b, max_size = c \<rparr>, rc_encrypted = e, rc_key_slot = s \<rparr>)))))))"

lemma dec_enc_config [simp]: "dec_config (enc_config c @ r) = Some (c, r)"
  by (simp add: dec_config_def enc_config_def)

definition enc_keyfile :: "key_file \<Rightarrow> bytes" where
  "enc_keyfile k = (let w = kf_wrapped_key k in enc_str (kf_slot k) @ enc_str (wk_id w)
     @ enc_word (memory_kib (wk_kdf w)) @ enc_word (iterations (wk_kdf w)) @ enc_word (parallelism (wk_kdf w))
     @ enc_str (wk_salt w) @ enc_str (wk_nonce w) @ enc_str (wk_wrapped w) @ enc_str (wk_created w))"

definition dec_keyfile :: "key_file dec" where
  "dec_keyfile = dbind dec_str (\<lambda>sl. dbind dec_str (\<lambda>i. dbind dec_word (\<lambda>m. dbind dec_word (\<lambda>it. dbind dec_word (\<lambda>p.
     dbind dec_str (\<lambda>sa. dbind dec_str (\<lambda>n. dbind dec_str (\<lambda>w. dbind dec_str (\<lambda>c.
     dret \<lparr> kf_slot = sl, kf_wrapped_key = \<lparr> wk_id = i,
       wk_kdf = \<lparr> memory_kib = m, iterations = it, parallelism = p \<rparr>,
       wk_salt = sa, wk_nonce = n, wk_wrapped = w, wk_created = c \<rparr> \<rparr>)))))))))"

lemma dec_enc_keyfile [simp]: "dec_keyfile (enc_keyfile k @ r) = Some (k, r)"
  by (simp add: dec_keyfile_def enc_keyfile_def Let_def)

definition whole :: "'a dec \<Rightarrow> bytes \<Rightarrow> 'a option" where
  "whole d bs = (case d bs of Some (x, []) \<Rightarrow> Some x | _ \<Rightarrow> None)"

lemma whole_enc: "(\<And>r. d (b @ r) = Some (x, r)) \<Longrightarrow> whole d b = Some x"
proof -
  assume a: "\<And>r. d (b @ r) = Some (x, r)"
  show ?thesis using a [of "[]"] by (simp add: whole_def)
qed

section \<open>Digests\<close>

definition poly :: "bytes \<Rightarrow> nat" where
  "poly bs = foldl (\<lambda>a b. (a * 257 + unat b + 1) mod 2 ^ 256) 0 bs"

definition hex_digit :: "nat \<Rightarrow> char" where
  "hex_digit n = ''0123456789abcdef'' ! (n mod 16)"

definition ref_hash :: "bytes \<Rightarrow> string" where
  "ref_hash bs = map (\<lambda>i. hex_digit (poly bs div 16 ^ i)) [0..<64]"

definition poly_bytes :: "nat \<Rightarrow> bytes \<Rightarrow> bytes" where
  "poly_bytes n bs = map (\<lambda>i. of_nat (poly bs div 256 ^ i)) [0..<n]"

definition ref_encrypt :: "bytes \<Rightarrow> bytes \<Rightarrow> bytes \<Rightarrow> bytes \<Rightarrow> bytes option" where
  "ref_encrypt k n a p = Some (poly_bytes 16 (k @ n @ a) @ p)"

definition ref_decrypt :: "bytes \<Rightarrow> bytes \<Rightarrow> bytes \<Rightarrow> bytes \<Rightarrow> bytes option" where
  "ref_decrypt k n a c = (if take 16 c = poly_bytes 16 (k @ n @ a) then Some (drop 16 c) else None)"

definition ref_b64_encode :: "bytes \<Rightarrow> string" where
  "ref_b64_encode bs = map (\<lambda>b. char_of (unat b)) bs"

definition ref_b64_decode :: "string \<Rightarrow> bytes option" where
  "ref_b64_decode s = Some (str_bytes s)"

function blocks :: "nat \<Rightarrow> bytes \<Rightarrow> bytes list" where
  "blocks n bs = (if bs = [] \<or> n = 0 then [] else take n bs # blocks n (drop n bs))"
  by pat_completeness auto
termination by (relation "measure (\<lambda>(n, bs). length bs)") auto

declare blocks.simps [simp del]

definition ref_time :: "string \<Rightarrow> utc_time option" where
  "ref_time s = (if s = [] \<or> \<not> list_all (\<lambda>c. c \<in> set ''0123456789'') s then None
     else let n = undigits s in Some \<lparr> unix_timestamp = int n, tm_year = 1970 + int (n div 31104000),
       tm_month = 1 + n div 2592000 mod 12, tm_day = 1 + n div 86400 mod 30,
       iso_year = 1970 + int (n div 31449600), iso_week = 1 + n div 604800 mod 52 \<rparr>)"

definition ref_lib :: foreign where
  "ref_lib = \<lparr> blake3_hex = ref_hash, aead_encrypt = ref_encrypt, aead_decrypt = ref_decrypt,
     argon2id = (\<lambda>ps pw salt. Some (poly_bytes 32 (pw @ salt))),
     zstd_encode = (\<lambda>p lvl. Some (0 # p)), zstd_decode = (\<lambda>c. if c = [] then None else Some (tl c)),
     base64_encode = ref_b64_encode, base64_decode = ref_b64_decode,
     fastcdc = (\<lambda>cfg d. blocks (max_size cfg) d),
     node_json = enc_node, node_parse = whole (dec_node (Suc json_depth_limit)),
     snapshot_json = enc_snapshot,
     snapshot_parse = (\<lambda>bs. case whole (dec_snapshot (length bs)) bs of
        Some s \<Rightarrow> if node_height (sn_root s) \<le> json_depth_limit then Some s else None | None \<Rightarrow> None),
     index_json = enc_index, index_parse = whole dec_index,
     config_json = enc_config, config_parse = whole dec_config,
     keyfile_json = enc_keyfile, keyfile_parse = whole dec_keyfile,
     rfc3339_parse = ref_time \<rparr>"

section \<open>The laws hold\<close>

lemma blocks_concat: "0 < n \<Longrightarrow> concat (blocks n d) = d \<and> (\<forall>c\<in>set (blocks n d). c \<noteq> [] \<and> length c \<le> n)"
proof (induction n d rule: blocks.induct)
  case (1 n bs)
  show ?case
  proof (cases "bs = []")
    case True
    then show ?thesis by (subst (1 2) blocks.simps) simp
  next
    case False
    then show ?thesis using 1 by (subst (1 2) blocks.simps) auto
  qed
qed

lemma ref_hash_hex: "length (ref_hash d) = 64 \<and> list_all lower_hex (ref_hash d)"
proof -
  have "lower_hex (hex_digit n)" for n
    unfolding lower_hex_def hex_digit_def by (rule nth_mem) simp
  then show ?thesis by (simp add: ref_hash_def list_all_iff)
qed

lemma enc_node_height: "node_height n < length (enc_node n)"
proof (induction n)
  case (Dir n cs)
  have "Suc (node_height c) \<le> length (enc_node (Dir n cs)) - 1" if "c \<in> set cs" for c
  proof -
    have "length (enc_node c) \<le> length (concat (map enc_node cs))"
      using that by (induction cs) auto
    then show ?thesis using Dir [OF that] by (simp add: enc_nat_def)
  qed
  then have "node_height (Dir n cs) \<le> length (enc_node (Dir n cs)) - 1"
    unfolding node_height_Dir_le by blast
  moreover have "0 < length (enc_node (Dir n cs))" by (simp add: enc_nat_def)
  ultimately show ?case by linarith
qed (simp_all add: enc_nat_def)

lemma enc_snapshot_height: "node_height (sn_root s) < length (enc_snapshot s)"
  using enc_node_height [of "sn_root s"] by (simp add: enc_snapshot_def)

lemma byte_mod [simp]: "unat (x :: byte) mod 256 = unat x"
proof -
  have "unat x < 2 ^ LENGTH(8)" by (rule unsigned_less)
  then show ?thesis by simp
qed

theorem ref_lib_laws: "foreign_laws ref_lib"
  unfolding foreign_laws_def
proof (intro conjI)
  show "hash_law ref_lib" by (simp add: hash_law_def ref_lib_def ref_hash_hex)
  show "aead_law ref_lib"
    by (simp add: aead_law_def ref_lib_def ref_encrypt_def ref_decrypt_def poly_bytes_def)
  show "kdf_law ref_lib" by (auto simp: kdf_law_def ref_lib_def poly_bytes_def)
  show "zstd_law ref_lib" by (auto simp: zstd_law_def ref_lib_def)
  show "base64_law ref_lib"
    by (simp add: base64_law_def ref_lib_def ref_b64_encode_def ref_b64_decode_def str_bytes_def comp_def
        unat_of_nat take_bit_nat_eq_self)
  show "fastcdc_law ref_lib"
    unfolding fastcdc_law_def
  proof (intro allI impI)
    fix cfg :: chunker_config and d
    assume "64 \<le> min_size cfg \<and> min_size cfg \<le> avg_size cfg \<and> avg_size cfg \<le> max_size cfg
      \<and> max_size cfg \<le> 2 ^ 30"
    then have "0 < max_size cfg" by simp
    then show "concat (fastcdc ref_lib cfg d) = d
        \<and> (\<forall>c\<in>set (fastcdc ref_lib cfg d). c \<noteq> [] \<and> length c \<le> max_size cfg)"
      using blocks_concat [of "max_size cfg" d] by (simp add: ref_lib_def)
  qed
  show "codec_law ref_lib"
    unfolding codec_law_def
  proof (intro conjI allI impI)
    fix n assume "node_height n \<le> json_depth_limit"
    then show "node_parse ref_lib (node_json ref_lib n) = Some n"
      by (simp add: ref_lib_def del: dec_node.simps) (rule whole_enc, rule dec_enc_node, simp)
  next
    fix s
    have "whole (dec_snapshot (length (enc_snapshot s))) (enc_snapshot s) = Some s"
      by (rule whole_enc) (rule dec_enc_snapshot [OF enc_snapshot_height])
    then show "snapshot_parse ref_lib (snapshot_json ref_lib s)
        = (if node_height (sn_root s) \<le> json_depth_limit then Some s else None)"
      by (simp add: ref_lib_def)
  qed (auto simp: ref_lib_def intro!: whole_enc)
qed

section \<open>Sample documents\<close>

definition ref_snapshot :: "string \<Rightarrow> string \<Rightarrow> snapshot" where
  "ref_snapshot i t = \<lparr> sn_id = i, sn_time = t, sn_hostname = ''host'', sn_paths = [],
     sn_root = Dir ''root'' [], sn_stats = zero_stats \<rparr>"

end
