(* ===== verification/Retention.thy ===== *)
theory Retention
  imports Reference_Instance
begin

text \<open>
  Retention policy selection of aegis-core/src/retention.rs: which snapshots survive a
  prune. \<open>apply_policy\<close> is the code's algorithm (sort newest first, index set, one walk
  per bucket kind); \<open>bucket_firsts\<close> is the reference meaning of one walk.
\<close>

section \<open>Policy and keys\<close>

record retention_policy =
  keep_daily :: "32 word"
  keep_weekly :: "32 word"
  keep_monthly :: "32 word"
  keep_last :: "32 word"

definition default_policy :: retention_policy where
  "default_policy = \<lparr> keep_daily = 7, keep_weekly = 4, keep_monthly = 6, keep_last = 3 \<rparr>"

record retention_decision =
  kept :: "snapshot list"
  pruned :: "snapshot list"

definition parse_utc :: "foreign \<Rightarrow> string \<Rightarrow> utc_time option" where
  "parse_utc L t = rfc3339_parse L t"

definition day_key :: "foreign \<Rightarrow> string \<Rightarrow> string option" where
  "day_key L t = map_option (\<lambda>dt. show_int (tm_year dt) @ ''-'' @ pad2 (tm_month dt) @ ''-'' @ pad2 (tm_day dt))
     (parse_utc L t)"

definition week_key :: "foreign \<Rightarrow> string \<Rightarrow> string option" where
  "week_key L t = map_option (\<lambda>dt. show_int (iso_year dt) @ ''-W'' @ pad2 (iso_week dt)) (parse_utc L t)"

definition month_key :: "foreign \<Rightarrow> string \<Rightarrow> string option" where
  "month_key L t = map_option (\<lambda>dt. show_int (tm_year dt) @ ''-'' @ pad2 (tm_month dt)) (parse_utc L t)"

section \<open>Selection\<close>

type_synonym age_key = "int option \<times> string \<times> string"

definition age_key :: "foreign \<Rightarrow> snapshot \<Rightarrow> age_key" where
  "age_key L s = (map_option unix_timestamp (parse_utc L (sn_time s)), sn_time s, sn_id s)"

text \<open>\<open>sort_by(|a, b| key(b).cmp(&key(a)))\<close>: a stable sort, largest key first.\<close>

definition sort_desc :: "('a \<Rightarrow> 'k::linorder) \<Rightarrow> 'a list \<Rightarrow> 'a list" where
  "sort_desc key xs = rev (sort_key key (rev xs))"

fun bucket_walk ::
  "32 word \<Rightarrow> (string \<Rightarrow> string option) \<Rightarrow> (nat \<times> snapshot) list \<Rightarrow> 32 word \<Rightarrow> string set \<Rightarrow> nat set \<Rightarrow> nat set" where
  "bucket_walk limit key_of [] used seen kept_idx = kept_idx"
| "bucket_walk limit key_of ((i, s) # rest) used seen kept_idx =
     (if used \<ge> limit then kept_idx
      else case key_of (sn_time s) of
          Some key \<Rightarrow>
            if key \<notin> seen
            then bucket_walk limit key_of rest (used + 1) (insert key seen) (insert i kept_idx)
            else bucket_walk limit key_of rest used seen kept_idx
        | None \<Rightarrow> bucket_walk limit key_of rest used seen kept_idx)"

definition apply_policy :: "foreign \<Rightarrow> snapshot list \<Rightarrow> retention_policy \<Rightarrow> retention_decision" where
  "apply_policy L snapshots policy =
     (let sorted = sort_desc (age_key L) snapshots;
          numbered = enumerate 0 sorted;
          last_count = unat (min (keep_last policy) (of_nat (length sorted)));
          k0 = fold insert [0..<last_count] {};
          k1 = fold (\<lambda>(limit, key_of) k. if limit = 0 then k else bucket_walk limit key_of numbered 0 {} k)
                 [(keep_daily policy, day_key L), (keep_weekly policy, week_key L),
                  (keep_monthly policy, month_key L)] k0;
          k2 = fold (\<lambda>(i, s) k. if parse_utc L (sn_time s) = None then insert i k else k) numbered k1;
          k3 = (if sorted \<noteq> [] then insert 0 k2 else k2)
      in \<lparr> kept = map snd (filter (\<lambda>(i, _). i \<in> k3) numbered),
           pruned = map snd (filter (\<lambda>(i, _). i \<notin> k3) numbered) \<rparr>)"

section \<open>The meaning of a bucket walk\<close>

text \<open>
  The positions a bucket rule keeps: those whose bucket has not occurred at an earlier
  (newer) position, as long as fewer than \<open>limit\<close> buckets have occurred before it.
\<close>

definition buckets_before :: "(string \<Rightarrow> string option) \<Rightarrow> snapshot list \<Rightarrow> nat \<Rightarrow> string set" where
  "buckets_before key_of ss i = {k. \<exists>j<i. j < length ss \<and> key_of (sn_time (ss ! j)) = Some k}"

definition bucket_firsts :: "nat \<Rightarrow> (string \<Rightarrow> string option) \<Rightarrow> snapshot list \<Rightarrow> nat set" where
  "bucket_firsts limit key_of ss =
     {i. i < length ss \<and> (\<exists>k. key_of (sn_time (ss ! i)) = Some k
          \<and> k \<notin> buckets_before key_of ss i \<and> card (buckets_before key_of ss i) < limit)}"

lemma buckets_before_Suc:
  "i < length ss \<Longrightarrow> buckets_before key_of ss (Suc i)
     = (case key_of (sn_time (ss ! i)) of None \<Rightarrow> buckets_before key_of ss i
        | Some k \<Rightarrow> insert k (buckets_before key_of ss i))"
  by (auto simp: buckets_before_def less_Suc_eq split: option.splits)

lemma finite_buckets_before [simp]: "finite (buckets_before key_of ss i)"
proof -
  have "buckets_before key_of ss i \<subseteq> (\<lambda>j. the (key_of (sn_time (ss ! j)))) ` {..<i}"
    by (auto simp: buckets_before_def rev_image_eqI)
  then show ?thesis by (rule finite_subset) simp
qed

lemma buckets_before_mono: "i \<le> j \<Longrightarrow> buckets_before key_of ss i \<subseteq> buckets_before key_of ss j"
  unfolding buckets_before_def using less_le_trans by blast

lemma bucket_walk_from:
  assumes "n \<le> length ss" "seen = buckets_before key_of ss n" "unat used = card seen"
  shows "bucket_walk limit key_of (enumerate n (drop n ss)) used seen kp
    = kp \<union> (bucket_firsts (unat limit) key_of ss \<inter> {n..})"
  using assms
proof (induction "length ss - n" arbitrary: n used seen kp)
  case 0
  then show ?case by (auto simp: bucket_firsts_def)
next
  case (Suc d)
  then have n: "n < length ss" by simp
  then have dr: "drop n ss = ss ! n # drop (Suc n) ss" by (simp add: Cons_nth_drop_Suc)
  have split: "{n..} = insert n {Suc n..}" by auto
  show ?case
  proof (cases "used \<ge> limit")
    case True
    have "card (buckets_before key_of ss i) \<ge> unat limit" if "i \<ge> n" for i
    proof -
      have "card seen \<le> card (buckets_before key_of ss i)"
        unfolding Suc.prems(2) using that by (intro card_mono buckets_before_mono) simp_all
      then show ?thesis using True Suc.prems(3) by (simp add: word_le_nat_alt)
    qed
    then have "bucket_firsts (unat limit) key_of ss \<inter> {n..} = {}"
      by (fastforce simp: bucket_firsts_def)
    then show ?thesis using True by (simp add: dr)
  next
    case less: False
    then have lt: "unat used < unat limit" by (simp add: word_less_nat_alt not_le)
    show ?thesis
    proof (cases "key_of (sn_time (ss ! n))")
      case None
      then have "n \<notin> bucket_firsts (unat limit) key_of ss" by (simp add: bucket_firsts_def)
      moreover have "seen = buckets_before key_of ss (Suc n)"
        using None n Suc.prems(2) by (simp add: buckets_before_Suc)
      ultimately show ?thesis
        using less None Suc.hyps(1) [of "Suc n" seen used kp] Suc.hyps(2) n Suc.prems(3)
        by (auto simp: dr split)
    next
      case (Some k)
      show ?thesis
      proof (cases "k \<in> seen")
        case True
        then have "n \<notin> bucket_firsts (unat limit) key_of ss"
          using Some Suc.prems(2) by (simp add: bucket_firsts_def)
        moreover have "seen = buckets_before key_of ss (Suc n)"
          using Some True n Suc.prems(2) by (simp add: buckets_before_Suc insert_absorb)
        ultimately show ?thesis
          using less Some True Suc.hyps(1) [of "Suc n" seen used kp] Suc.hyps(2) n Suc.prems(3)
          by (auto simp: dr split)
      next
        case new: False
        have fin: "finite seen" using Suc.prems(2) by simp
        have u: "unat (used + 1) = card (insert k seen)"
        proof -
          have "unat limit < 2 ^ LENGTH(32)" by (rule unsigned_less)
          then have "unat used + 1 < 2 ^ LENGTH(32)" using lt by linarith
          then have "unat (used + 1) = unat used + 1"
            by (simp add: unat_word_ariths(1))
          then show ?thesis using Suc.prems(3) new fin by simp
        qed
        have s: "insert k seen = buckets_before key_of ss (Suc n)"
          using Some n Suc.prems(2) by (simp add: buckets_before_Suc)
        have "n \<in> bucket_firsts (unat limit) key_of ss"
          using Some n new lt Suc.prems(2,3) by (simp add: bucket_firsts_def)
        then show ?thesis
          using less Some new Suc.hyps(1) [of "Suc n" "insert k seen" "used + 1" "insert n kp"]
            Suc.hyps(2) n s u
          by (auto simp: dr split)
      qed
    qed
  qed
qed

lemma bucket_walk_meaning:
  "bucket_walk limit key_of (enumerate 0 ss) 0 {} kp = kp \<union> bucket_firsts (unat limit) key_of ss"
  using bucket_walk_from [of 0 ss "{}" key_of 0 limit kp] by (simp add: buckets_before_def)

section \<open>The decision as an index set\<close>

definition kept_indices :: "foreign \<Rightarrow> snapshot list \<Rightarrow> retention_policy \<Rightarrow> nat set" where
  "kept_indices L ss p =
     {..<unat (min (keep_last p) (of_nat (length ss)))}
     \<union> bucket_firsts (unat (keep_daily p)) (day_key L) ss
     \<union> bucket_firsts (unat (keep_weekly p)) (week_key L) ss
     \<union> bucket_firsts (unat (keep_monthly p)) (month_key L) ss
     \<union> {i. i < length ss \<and> parse_utc L (sn_time (ss ! i)) = None}
     \<union> (if ss = [] then {} else {0})"

lemma mset_sort_desc [simp]: "mset (sort_desc key xs) = mset xs"
  by (simp add: sort_desc_def)

lemma set_sort_desc [simp]: "set (sort_desc key xs) = set xs"
  by (simp add: sort_desc_def)

lemma length_sort_desc [simp]: "length (sort_desc key xs) = length xs"
  by (simp add: sort_desc_def)

lemma sort_desc_Nil [simp]: "sort_desc key xs = [] \<longleftrightarrow> xs = []"
  by (metis length_0_conv length_sort_desc)

lemma sorted_sort_desc: "sorted_wrt (\<lambda>a b. key b \<le> key a) (sort_desc key xs)"
  unfolding sort_desc_def sorted_wrt_rev
  using sorted_sort_key [of key "rev xs"] by (simp add: sorted_map)

lemma sort_desc_perm:
  "\<lbrakk> mset xs = mset ys; distinct (map f xs) \<rbrakk> \<Longrightarrow> sort_desc f xs = sort_desc f ys"
  unfolding sort_desc_def
  by (subst sort_key_perm_eq [of "rev xs" "rev ys"]) (simp_all add: rev_map [symmetric])

lemma fold_insert_set: "fold insert xs S = set xs \<union> S"
  by (induction xs arbitrary: S) auto

lemma bucket_firsts_zero [simp]: "bucket_firsts 0 key_of ss = {}"
  by (auto simp: bucket_firsts_def)

lemma fold_unparseable:
  "fold (\<lambda>(i, s) k. if P s then insert i k else k) (enumerate n ss) K
    = K \<union> {i. n \<le> i \<and> i < n + length ss \<and> P (ss ! (i - n))}"
proof (induction ss arbitrary: n K)
  case (Cons s ss)
  have eq: "{i. n \<le> i \<and> i < n + length (s # ss) \<and> P ((s # ss) ! (i - n))}
      = (if P s then {n} else {}) \<union> {i. Suc n \<le> i \<and> i < Suc n + length ss \<and> P (ss ! (i - Suc n))}"
  proof (intro set_eqI)
    fix i
    show "i \<in> {i. n \<le> i \<and> i < n + length (s # ss) \<and> P ((s # ss) ! (i - n))} \<longleftrightarrow>
      i \<in> (if P s then {n} else {}) \<union> {i. Suc n \<le> i \<and> i < Suc n + length ss \<and> P (ss ! (i - Suc n))}"
      by (cases "i = n"; cases "n \<le> i") (auto simp: nth_Cons' Suc_le_eq)
  qed
  have "fold (\<lambda>(i, s) k. if P s then insert i k else k) (enumerate n (s # ss)) K
      = (if P s then insert n K else K) \<union> {i. Suc n \<le> i \<and> i < Suc n + length ss \<and> P (ss ! (i - Suc n))}"
    by (simp add: Cons.IH)
  also have "\<dots> = K \<union> ((if P s then {n} else {}) \<union> {i. Suc n \<le> i \<and> i < Suc n + length ss \<and> P (ss ! (i - Suc n))})"
    by auto
  finally show ?case unfolding eq .
qed auto

lemma zip_select:
  "map snd (filter (\<lambda>(i, _). i \<in> K) (zip is xs)) = map fst (filter (\<lambda>p. snd p \<in> K) (zip xs is))"
proof (induction xs arbitrary: "is")
  case (Cons x xs)
  then show ?case by (cases "is") auto
qed simp

lemma enumerate_select: "map snd (filter (\<lambda>(i, _). i \<in> K) (enumerate 0 ss)) = nths ss K"
  unfolding nths_def enumerate_eq_zip zip_select by simp

lemma apply_policy_indices:
  "apply_policy L snapshots p =
    (let ss = sort_desc (age_key L) snapshots; K = kept_indices L ss p in
     \<lparr> kept = nths ss K, pruned = nths ss (- K) \<rparr>)"
proof -
  define ss where "ss = sort_desc (age_key L) snapshots"
  have neg: "map snd (filter (\<lambda>(i, _). i \<notin> K) (enumerate 0 ss)) = nths ss (- K)" for K
    using enumerate_select [of "- K" ss] by simp
  have ne: "(if ss \<noteq> [] then insert 0 K else K) = K \<union> (if ss = [] then {} else {0})" for K
    by simp
  have lim: "(if limit = 0 then K else bucket_walk limit key_of (enumerate 0 ss) 0 {} K)
      = K \<union> bucket_firsts (unat limit) key_of ss" for limit key_of K
    by (simp add: bucket_walk_meaning)
  have last: "fold insert [0..<n] {} = {..<n}" for n :: nat
    by (auto simp: fold_insert_set)
  show ?thesis
    unfolding apply_policy_def Let_def ss_def [symmetric] enumerate_select neg kept_indices_def ne
      fold_unparseable [where P = "\<lambda>s. parse_utc L (sn_time s) = None"] fold.simps comp_def
      id_apply case_prod_conv lim last
    by (simp add: Un_ac)
qed

lemma nths_partition: "mset (nths xs K) + mset (nths xs (- K)) = mset xs"
proof -
  have "mset (nths xs K) = mset (map fst (filter (\<lambda>p. snd p \<in> K) (zip xs [0..<length xs])))"
    "mset (nths xs (- K)) = mset (map fst (filter (\<lambda>p. \<not> snd p \<in> K) (zip xs [0..<length xs])))"
    by (simp_all add: nths_def)
  then have "mset (nths xs K) + mset (nths xs (- K))
      = image_mset fst (mset (zip xs [0..<length xs]))"
    by (simp only: mset_map mset_filter image_mset_union [symmetric] multiset_partition [symmetric])
  also have "\<dots> = mset xs" by (metis length_upt map_fst_zip minus_nat.diff_0 mset_map)
  finally show ?thesis .
qed

section \<open>Size of the selection\<close>

lemma bucket_firsts_card: "card (bucket_firsts n key_of ss) \<le> n"
proof -
  let ?c = "\<lambda>i. card (buckets_before key_of ss i)"
  have less: "?c i < ?c j" if ij: "i < j" "i \<in> bucket_firsts n key_of ss" for i j
  proof -
    obtain k where k: "i < length ss" "key_of (sn_time (ss ! i)) = Some k" "k \<notin> buckets_before key_of ss i"
      using ij(2) by (auto simp: bucket_firsts_def)
    have "insert k (buckets_before key_of ss i) \<subseteq> buckets_before key_of ss j"
      using k ij(1) buckets_before_mono [of i j key_of ss] by (auto simp: buckets_before_def)
    then have "card (insert k (buckets_before key_of ss i)) \<le> ?c j" by (intro card_mono) simp_all
    then show ?thesis using k(3) by simp
  qed
  have "inj_on ?c (bucket_firsts n key_of ss)"
    by (rule inj_onI) (metis less less_irrefl nat_neq_iff)
  moreover have "?c ` bucket_firsts n key_of ss \<subseteq> {..<n}"
    by (auto simp: bucket_firsts_def)
  ultimately show ?thesis
    by (metis card_lessThan card_inj_on_le finite_lessThan)
qed

lemma bucket_firsts_bounded: "bucket_firsts n key_of ss \<subseteq> {..<length ss}"
  by (auto simp: bucket_firsts_def)

lemma finite_bucket_firsts [simp]: "finite (bucket_firsts n key_of ss)"
  using bucket_firsts_bounded by (rule finite_subset) simp

text \<open>A rule with a quota keeps the newest snapshot first, so that one it shares with the others.\<close>

lemma bucket_firsts_newest:
  assumes "n \<noteq> 0" "ss \<noteq> []" "key_of (sn_time (ss ! 0)) \<noteq> None"
  shows "0 \<in> bucket_firsts n key_of ss"
  using assms by (auto simp: bucket_firsts_def buckets_before_def)

lemma bucket_firsts_others:
  assumes "ss \<noteq> []" "key_of (sn_time (ss ! 0)) \<noteq> None"
  shows "card (bucket_firsts n key_of ss - {0}) \<le> n - 1"
proof (cases "n = 0")
  case False
  then have "card (bucket_firsts n key_of ss - {0}) = card (bucket_firsts n key_of ss) - 1"
    using bucket_firsts_newest [of n ss key_of] assms by simp
  then show ?thesis using bucket_firsts_card [of n key_of ss] by linarith
qed simp

definition parsed_kept :: "foreign \<Rightarrow> snapshot list \<Rightarrow> retention_policy \<Rightarrow> nat set" where
  "parsed_kept L ss p = {i. i < length ss \<and> i \<in> kept_indices L ss p \<and> parse_utc L (sn_time (ss ! i)) \<noteq> None}"

lemma parsed_kept_card:
  assumes "ss \<noteq> []" "parse_utc L (sn_time (ss ! 0)) \<noteq> None"
  shows "card (parsed_kept L ss p)
    \<le> 1 + (unat (keep_last p) - 1) + (unat (keep_daily p) - 1) + (unat (keep_weekly p) - 1) + (unat (keep_monthly p) - 1)"
proof -
  let ?d = "bucket_firsts (unat (keep_daily p)) (day_key L) ss - {0}"
  let ?w = "bucket_firsts (unat (keep_weekly p)) (week_key L) ss - {0}"
  let ?m = "bucket_firsts (unat (keep_monthly p)) (month_key L) ss - {0}"
  let ?l = "{..<unat (min (keep_last p) (of_nat (length ss)))} - {0}"
  have keys: "day_key L (sn_time (ss ! 0)) \<noteq> None" "week_key L (sn_time (ss ! 0)) \<noteq> None"
    "month_key L (sn_time (ss ! 0)) \<noteq> None"
    using assms(2) by (simp_all add: day_key_def week_key_def month_key_def)
  have "unat (min (keep_last p) (of_nat (length ss))) \<le> unat (keep_last p)"
    by (simp add: min_def word_le_nat_alt)
  moreover have "card ({..<n} - {0}) \<le> n - 1" for n :: nat by (cases n) simp_all
  ultimately have l: "card ?l \<le> unat (keep_last p) - 1" by (meson diff_le_mono order_trans)
  have "parsed_kept L ss p \<subseteq> {0} \<union> ?l \<union> ?d \<union> ?w \<union> ?m"
    unfolding parsed_kept_def kept_indices_def by auto
  then have "card (parsed_kept L ss p) \<le> card ({0} \<union> ?l \<union> ?d \<union> ?w \<union> ?m)"
    by (intro card_mono) simp_all
  also have "\<dots> \<le> card {0::nat} + card ?l + card ?d + card ?w + card ?m"
    by (rule order_trans [OF card_Un_le] add_mono order_refl)+
  also have "\<dots> \<le> 1 + (unat (keep_last p) - 1) + (unat (keep_daily p) - 1) + (unat (keep_weekly p) - 1) + (unat (keep_monthly p) - 1)"
    using l bucket_firsts_others [of ss "day_key L"] bucket_firsts_others [of ss "week_key L"]
      bucket_firsts_others [of ss "month_key L"] assms(1) keys
    by (intro add_mono) simp_all
  finally show ?thesis .
qed

lemma length_filter_nths: "length (filter P (nths xs K)) = card {i. i < length xs \<and> i \<in> K \<and> P (xs ! i)}"
proof -
  have "length (filter P (nths xs K)) = length (filter (\<lambda>q. P (fst q) \<and> snd q \<in> K) (zip xs [0..<length xs]))"
    by (simp add: nths_def filter_map comp_def conj_commute)
  also have "\<dots> = card {i. i < length xs \<and> i \<in> K \<and> P (xs ! i)}"
    unfolding length_filter_conv_card by (rule arg_cong [where f = card]) auto
  finally show ?thesis .
qed

text \<open>Times that parse sort before those that do not.\<close>

lemma newest_parses:
  assumes "s \<in> set snapshots" "parse_utc L (sn_time s) \<noteq> None"
  shows "parse_utc L (sn_time (sort_desc (age_key L) snapshots ! 0)) \<noteq> None"
proof -
  let ?ss = "sort_desc (age_key L) snapshots"
  have "s \<in> set ?ss" using assms(1) by simp
  then have "age_key L s \<le> age_key L (?ss ! 0)"
    using sorted_sort_desc [of "age_key L" snapshots] by (cases ?ss) auto
  then show ?thesis
    using assms(2) by (cases "parse_utc L (sn_time (?ss ! 0))") (auto simp: age_key_def less_eq_prod_def split: option.splits)
qed

lemma nths_prefix:
  assumes "{..<n} \<subseteq> K" "n \<le> length xs"
  shows "take n (nths xs K) = take n xs"
proof -
  have "nths xs K = nths (take n xs) K @ nths (drop n xs) {j. j + length (take n xs) \<in> K}"
    by (metis append_take_drop_id nths_append)
  moreover have "nths (take n xs) K = take n xs"
    by (rule nths_all) (use assms in auto)
  ultimately show ?thesis using assms(2) by simp
qed

section \<open>Properties\<close>

text \<open>C13: The decision is the reference selection: the kept snapshots are, newest
  first, those at the positions of \<open>kept_indices\<close> (the newest \<open>keep_last\<close>, the newest
  of each of the first \<open>keep_daily\<close> days, \<open>keep_weekly\<close> weeks and \<open>keep_monthly\<close>
  months, every one whose time does not parse, and the newest overall), the pruned ones
  those at the other positions; together they are the input, each snapshot exactly once.\<close>

theorem apply_policy_reference:
  "kept (apply_policy L snapshots p)
      = nths (sort_desc (age_key L) snapshots) (kept_indices L (sort_desc (age_key L) snapshots) p)
   \<and> pruned (apply_policy L snapshots p)
      = nths (sort_desc (age_key L) snapshots) (- kept_indices L (sort_desc (age_key L) snapshots) p)
   \<and> mset (kept (apply_policy L snapshots p)) + mset (pruned (apply_policy L snapshots p)) = mset snapshots"
  by (simp add: apply_policy_indices Let_def nths_partition)

lemma kept_indices_last: "{..<unat (min (keep_last p) (of_nat (length ss)))} \<subseteq> kept_indices L ss p"
  by (auto simp: kept_indices_def)

lemma pruned_member:
  "s \<in> set (pruned (apply_policy L snapshots p)) \<Longrightarrow>
    \<exists>i < length snapshots. sort_desc (age_key L) snapshots ! i = s
      \<and> i \<notin> kept_indices L (sort_desc (age_key L) snapshots) p"
  by (auto simp: apply_policy_indices Let_def set_nths)

lemma kept_starts_with_newest:
  assumes "n \<le> length snapshots" "n \<le> unat (keep_last p) \<or> n \<le> 1" "length snapshots < 2 ^ 32"
  shows "take n (kept (apply_policy L snapshots p)) = take n (sort_desc (age_key L) snapshots)"
proof -
  let ?ss = "sort_desc (age_key L) snapshots"
  have "unat (of_nat (length ?ss) :: 32 word) = length ?ss" using assms(3) by (simp add: unat_of_nat take_bit_nat_eq_self)
  then have m: "unat (min (keep_last p) (of_nat (length ?ss))) = min (unat (keep_last p)) (length ?ss)"
    by (simp add: min_def word_le_nat_alt)
  have "{..<n} \<subseteq> kept_indices L ?ss p"
  proof (cases "n \<le> unat (keep_last p)")
    case True
    then show ?thesis using kept_indices_last [of p ?ss L] assms(1) unfolding m by auto
  next
    case False
    then have "n \<le> 1" using assms(2) by simp
    then show ?thesis using assms(1) by (cases "snapshots = []") (auto simp: kept_indices_def)
  qed
  then show ?thesis using assms(1) by (simp add: apply_policy_indices Let_def nths_prefix)
qed

text \<open>C14: The recovery points are safe: the newest snapshot is always the first one
  kept, the kept list starts with the \<open>keep_last\<close> newest snapshots, and a pruned snapshot
  has a timestamp that parses and is not newer than the first one kept.\<close>

theorem apply_policy_safe:
  assumes "snapshots \<noteq> []" "length snapshots < 2 ^ 32"
  shows "hd (kept (apply_policy L snapshots p)) \<in> set snapshots
    \<and> (\<forall>s \<in> set snapshots. age_key L s \<le> age_key L (hd (kept (apply_policy L snapshots p))))
    \<and> take (min (unat (keep_last p)) (length snapshots)) (kept (apply_policy L snapshots p))
        = take (unat (keep_last p)) (sort_desc (age_key L) snapshots)
    \<and> (\<forall>s \<in> set (pruned (apply_policy L snapshots p)). parse_utc L (sn_time s) \<noteq> None)"
proof (intro conjI)
  let ?ss = "sort_desc (age_key L) snapshots"
  have ne: "?ss \<noteq> []" using assms(1) by simp
  have "take 1 (kept (apply_policy L snapshots p)) = take 1 ?ss"
    using assms by (intro kept_starts_with_newest) (auto simp: Suc_le_eq)
  then have hd: "hd (kept (apply_policy L snapshots p)) = hd ?ss"
    using ne by (cases "kept (apply_policy L snapshots p)"; cases ?ss) auto
  show "hd (kept (apply_policy L snapshots p)) \<in> set snapshots"
    unfolding hd using ne hd_in_set [of ?ss] by simp
  show "\<forall>s \<in> set snapshots. age_key L s \<le> age_key L (hd (kept (apply_policy L snapshots p)))"
    unfolding hd using sorted_sort_desc [of "age_key L" snapshots] ne
    by (cases ?ss) (auto simp flip: set_sort_desc [of "age_key L" snapshots])
  have "take (min (unat (keep_last p)) (length snapshots)) (kept (apply_policy L snapshots p))
      = take (min (unat (keep_last p)) (length snapshots)) ?ss"
    by (rule kept_starts_with_newest) (use assms in auto)
  then show "take (min (unat (keep_last p)) (length snapshots)) (kept (apply_policy L snapshots p))
      = take (unat (keep_last p)) ?ss"
    by (simp add: min_def)
  show "\<forall>s \<in> set (pruned (apply_policy L snapshots p)). parse_utc L (sn_time s) \<noteq> None"
    using pruned_member [of _ L snapshots p] by (fastforce simp: kept_indices_def)
qed

lemma apply_policy_safe_witness:
  "hd (kept (apply_policy ref_lib [ref_snapshot ''a'' ''86400'', ref_snapshot ''b'' ''999''] default_policy))
      \<in> {ref_snapshot ''a'' ''86400'', ref_snapshot ''b'' ''999''}"
  using apply_policy_safe [of "[ref_snapshot ''a'' ''86400'', ref_snapshot ''b'' ''999'']" ref_lib default_policy]
  by simp

text \<open>C15: A prune bounds the repository by its quotas. Beside the snapshots whose timestamps do
  not parse, those kept are the newest one and, for each rule, at most one less than its
  quota: every rule with a quota keeps the newest snapshot first, so no rule goes over its
  quota.\<close>

theorem apply_policy_bounded:
  "length (filter (\<lambda>s. parse_utc L (sn_time s) \<noteq> None) (kept (apply_policy L snapshots p)))
    \<le> 1 + (unat (keep_last p) - 1) + (unat (keep_daily p) - 1) + (unat (keep_weekly p) - 1) + (unat (keep_monthly p) - 1)"
proof -
  let ?ss = "sort_desc (age_key L) snapshots"
  have eq: "length (filter (\<lambda>s. parse_utc L (sn_time s) \<noteq> None) (kept (apply_policy L snapshots p))) = card (parsed_kept L ?ss p)"
    by (simp add: apply_policy_indices Let_def length_filter_nths parsed_kept_def)
  show ?thesis
  proof (cases "parsed_kept L ?ss p = {}")
    case False
    then obtain i where i: "i < length ?ss" "parse_utc L (sn_time (?ss ! i)) \<noteq> None" by (auto simp: parsed_kept_def)
    then have "?ss ! i \<in> set snapshots" using nth_mem [OF i(1)] by simp
    then have "parse_utc L (sn_time (?ss ! 0)) \<noteq> None" using newest_parses i(2) by blast
    moreover have "?ss \<noteq> []" using i(1) by force
    ultimately show ?thesis unfolding eq by (rule parsed_kept_card [rotated])
  next
    case True
    then show ?thesis unfolding eq by (simp only: card.empty)
  qed
qed

text \<open>C16: The decision does not depend on the order in which the backend lists the
  snapshots, as long as no two carry the same id.\<close>

theorem apply_policy_order_independent:
  assumes "mset xs = mset ys" "distinct (map sn_id xs)"
  shows "apply_policy L xs p = apply_policy L ys p"
proof -
  have "distinct (map (age_key L) xs)"
    using assms(2) by (auto simp: distinct_map inj_on_def age_key_def)
  then have "sort_desc (age_key L) xs = sort_desc (age_key L) ys"
    by (rule sort_desc_perm [OF assms(1)])
  then show ?thesis by (simp add: apply_policy_indices)
qed

lemma apply_policy_order_independent_witness:
  "apply_policy ref_lib [ref_snapshot ''a'' ''86400'', ref_snapshot ''b'' ''999''] default_policy
    = apply_policy ref_lib [ref_snapshot ''b'' ''999'', ref_snapshot ''a'' ''86400''] default_policy"
  by (rule apply_policy_order_independent) (simp_all add: ref_snapshot_def)

end
