(* ===== verification/Repo_Read.thy ===== *)
theory Repo_Read
  imports Store_Rules Retention
begin

text \<open>
  Reading a repository (aegis-core/src/repo.rs, snapshot.rs): listing and finding
  snapshots, the blob index of a snapshot with its fallback, reachability, storage
  statistics, and the accessors of a snapshot. Chains of references may be arbitrarily
  long, and cyclic in a store that was tampered with, so the recursions that follow
  references take fuel: one unit per reference followed.
\<close>

section \<open>Snapshot accessors\<close>

definition root_hash :: "foreign \<Rightarrow> snapshot \<Rightarrow> string" where
  "root_hash L s = hash_hex L (sn_root s)"

definition short_id :: "snapshot \<Rightarrow> string res" where
  "short_id s = str_prefix (min 8 (length (sn_id s))) (sn_id s)"

definition display_time :: "snapshot \<Rightarrow> string" where
  "display_time s = (case split_once (CHR ''.'') (sn_time s) of
      Some (secs, _) \<Rightarrow> secs
    | None \<Rightarrow> trim_end (CHR ''Z'') (sn_time s))"

fun count_inline :: "node \<Rightarrow> 64 word" where
  "count_inline (File _ _ _ _ _) = 1"
| "count_inline (Ref _ _) = 0"
| "count_inline (Dir _ cs) = sum_list (map count_inline cs)"

definition count_files :: "snapshot \<Rightarrow> 64 word" where
  "count_files s = (if st_files (sn_stats s) > 0 then st_files (sn_stats s) else count_inline (sn_root s))"

section \<open>Fetching\<close>

text \<open>
  The blob behind a hash, and the tree node it holds: the sequence \<open>backend.get\<close>,
  \<open>decode_blob_hash_ctx\<close>, \<open>serde_json::from_slice\<close> of every reader of node blobs.
\<close>

definition fetch_blob :: "foreign \<Rightarrow> 'b repository \<Rightarrow> string \<Rightarrow> ('b world, bytes) io" where
  "fetch_blob L R hex =
     bnd (lift_res (blob_key hex)) (\<lambda>k.
     bnd (get_obj R k) (\<lambda>stored.
     lift_res (decode_blob_hash_ctx L (rp_crypto R) hex stored)))"

definition parse_node :: "foreign \<Rightarrow> string \<Rightarrow> bytes \<Rightarrow> node res" where
  "parse_node L hex d = ok_or (Malformed (''tree node '' @ hex)) (node_parse L d)"

definition fetch_node :: "foreign \<Rightarrow> 'b repository \<Rightarrow> string \<Rightarrow> ('b world, node) io" where
  "fetch_node L R hex = bnd (fetch_blob L R hex) (\<lambda>d. lift_res (parse_node L hex d))"

section \<open>Snapshots\<close>

definition load_manifest :: "foreign \<Rightarrow> 'b repository \<Rightarrow> string \<Rightarrow> ('b world, snapshot) io" where
  "load_manifest L R key =
     bnd (get_obj R key) (\<lambda>stored.
     bnd (lift_res (open_for L R CtxDoc stored)) (\<lambda>raw.
     lift_res (ok_or (Malformed (''snapshot manifest '' @ key)) (snapshot_parse L raw))))"

definition list_snapshots :: "foreign \<Rightarrow> 'b repository \<Rightarrow> ('b world, snapshot list) io" where
  "list_snapshots L R =
     bnd (list_objs R ''snapshots'') (\<lambda>keys.
     bnd (fold_io (\<lambda>out key.
            if \<not> ends_with key ''.json'' then ret out
            else bnd (load_manifest L R key) (\<lambda>s. ret (out @ [s]))) [] keys) (\<lambda>out.
     ret (sort_desc (\<lambda>s. (sn_time s, sn_id s)) out)))"

definition find_snapshot :: "foreign \<Rightarrow> 'b repository \<Rightarrow> string \<Rightarrow> ('b world, snapshot) io" where
  "find_snapshot L R id_or_prefix =
     bnd (list_snapshots L R) (\<lambda>all.
     case filter (\<lambda>s. starts_with (sn_id s) id_or_prefix) all of
       [s] \<Rightarrow> ret s
     | _ \<Rightarrow> raise (SnapshotNotFound id_or_prefix))"

section \<open>The index of a snapshot\<close>

function collect_node_blob_hashes ::
  "foreign \<Rightarrow> 'b repository \<Rightarrow> nat \<Rightarrow> node \<Rightarrow> blob_ref list \<times> string set \<Rightarrow> ('b world, blob_ref list \<times> string set) io" where
  "collect_node_blob_hashes L R fuel (Ref n h) acc = (case acc of (out, seen) \<Rightarrow>
     if h \<in> seen then ret (out, seen)
     else case fuel of
         0 \<Rightarrow> raise OutOfFuel
       | Suc f \<Rightarrow> bnd (fetch_node L R h) (\<lambda>inner.
           collect_node_blob_hashes L R f inner
             (out @ [\<lparr> br_hash = h, br_size = None, br_kind = TreeNode \<rparr>], insert h seen)))"
| "collect_node_blob_hashes L R fuel (Dir n cs) acc =
     fold_io (\<lambda>acc c. collect_node_blob_hashes L R fuel c acc) acc cs"
| "collect_node_blob_hashes L R fuel (File n s m t chunks) acc = ret acc"
  by pat_completeness auto
termination
  by (relation "measures [\<lambda>(_, _, fuel, _, _). fuel, \<lambda>(_, _, _, n, _). size n]") (auto simp: list_child_size)

fun dedup_hashes :: "blob_kind \<Rightarrow> string set \<Rightarrow> string list \<Rightarrow> blob_ref list" where
  "dedup_hashes kind seen [] = []"
| "dedup_hashes kind seen (h # rest) =
     (if h \<in> seen then dedup_hashes kind seen rest
      else \<lparr> br_hash = h, br_size = None, br_kind = kind \<rparr> # dedup_hashes kind (insert h seen) rest)"

definition derived_index :: "foreign \<Rightarrow> 'b repository \<Rightarrow> nat \<Rightarrow> snapshot \<Rightarrow> ('b world, snapshot_index) io" where
  "derived_index L R fuel s =
     (let chunks = collect_chunk_hashes (sn_root s) [];
          blobs = dedup_hashes Chunk {} chunks
      in bnd (collect_node_blob_hashes L R fuel (sn_root s) (blobs, set chunks)) (\<lambda>(blobs, _).
         ret \<lparr> ix_snapshot_id = sn_id s, ix_blobs = blobs \<rparr>))"

definition load_index :: "foreign \<Rightarrow> 'b repository \<Rightarrow> nat \<Rightarrow> snapshot \<Rightarrow> ('b world, snapshot_index) io" where
  "load_index L R fuel s =
     (let key = index_key (sn_id s) in
      bnd (exists_obj R key) (\<lambda>e.
      if e then
        bnd (get_obj R key) (\<lambda>stored.
        bnd (lift_res (open_for L R CtxDoc stored)) (\<lambda>raw.
        lift_res (ok_or (Malformed (''snapshot index '' @ key)) (index_parse L raw))))
      else derived_index L R fuel s))"

section \<open>Reachability and statistics\<close>

definition live_of :: "foreign \<Rightarrow> 'b repository \<Rightarrow> nat \<Rightarrow> string set \<Rightarrow> snapshot list \<Rightarrow> ('b world, string set) io" where
  "live_of L R fuel = fold_io (\<lambda>live s. bnd (load_index L R fuel s) (\<lambda>ix.
     ret (live \<union> set (map br_hash (ix_blobs ix)))))"

definition reachable_blobs ::
  "foreign \<Rightarrow> 'b repository \<Rightarrow> nat \<Rightarrow> snapshot list \<Rightarrow> ('b world, string \<Rightarrow> blob_kind option) io" where
  "reachable_blobs L R fuel = fold_io (\<lambda>out s. bnd (load_index L R fuel s) (\<lambda>ix.
     ret (fold (\<lambda>b out. if out (br_hash b) = None then out(br_hash b \<mapsto> br_kind b) else out) (ix_blobs ix) out)))
     Map.empty"

definition all_blob_keys :: "'b repository \<Rightarrow> ('b world, string list) io" where
  "all_blob_keys R = list_objs R ''blobs''"

definition delete_blob :: "'b repository \<Rightarrow> string \<Rightarrow> ('b world, unit) io" where
  "delete_blob R h = bnd (lift_res (blob_key h)) (delete_obj R)"

text \<open>
  \<open>dedup_ratio\<close> is an \<open>f64\<close> computed from the two counters; the model has its exact
  value as a fraction: \<open>None\<close> for 0.0, \<open>Some (w, l)\<close> for \<open>1 - w / l\<close>.
\<close>

record storage_stats =
  ss_repo :: string
  ss_bytes_stored :: "64 word"
  ss_bytes_logical :: "64 word"
  ss_bytes_written :: "64 word"
  ss_dedup_ratio :: "(64 word \<times> 64 word) option"
  ss_snapshots :: nat

definition saturating_add :: "64 word \<Rightarrow> 64 word \<Rightarrow> 64 word" where
  "saturating_add a b = (if unat a + unat b < 2 ^ 64 then a + b else - 1)"

definition stats_blob :: "string set \<times> 64 word \<Rightarrow> blob_ref \<Rightarrow> string set \<times> 64 word" where
  "stats_blob acc b = (case acc of (seen, stored) \<Rightarrow>
     if br_hash b \<in> seen then (seen, stored)
     else (insert (br_hash b) seen, saturating_add stored (case br_size b of None \<Rightarrow> 0 | Some n \<Rightarrow> n)))"

definition stats :: "foreign \<Rightarrow> 'b repository \<Rightarrow> nat \<Rightarrow> ('b world, storage_stats) io" where
  "stats L R fuel =
     bnd (list_snapshots L R) (\<lambda>snapshots.
     bnd (fold_io (\<lambda>(seen, stored, logical, written) s.
            let logical' = saturating_add logical (st_bytes (sn_stats s));
                written' = saturating_add written (st_new_bytes (sn_stats s))
            in bnd (load_index L R fuel s) (\<lambda>ix.
               case foldl stats_blob (seen, stored) (ix_blobs ix) of
                 (seen', stored') \<Rightarrow> ret (seen', stored', logical', written')))
          ({}, 0, 0, 0) snapshots) (\<lambda>(seen, stored, logical, written).
     ret \<lparr> ss_repo = b_describe (rp_backend R), ss_bytes_stored = stored, ss_bytes_logical = logical,
           ss_bytes_written = written,
           ss_dedup_ratio = (if logical = 0 then None else Some (written, logical)),
           ss_snapshots = length snapshots \<rparr>))"

end
