(* ===== verification/Read_Correct.thy ===== *)
theory Read_Correct
  imports Repo_Read
begin

text \<open>
  What the readers of a repository return, over any store that keeps the backend
  contract: the manifests and node blobs the store holds, and nothing else; and that they
  succeed when the backend is ready and what they look up is there.
\<close>

section \<open>Documents and nodes of a store\<close>

definition lookup :: "foreign \<Rightarrow> 'b repository \<Rightarrow> (string \<Rightarrow> bytes option) \<Rightarrow> string \<Rightarrow> node option" where
  "lookup L R v h = (case contents L R v h of None \<Rightarrow> None | Some d \<Rightarrow> node_parse L d)"

definition document :: "foreign \<Rightarrow> 'b repository \<Rightarrow> (bytes \<Rightarrow> 'a option) \<Rightarrow> (string \<Rightarrow> bytes option) \<Rightarrow> string \<Rightarrow> 'a option" where
  "document L R parse v k = (case v k of None \<Rightarrow> None
     | Some s \<Rightarrow> (case open_for L R CtxDoc s of Inl _ \<Rightarrow> None | Inr raw \<Rightarrow> parse raw))"

definition manifest :: "foreign \<Rightarrow> 'b repository \<Rightarrow> (string \<Rightarrow> bytes option) \<Rightarrow> string \<Rightarrow> snapshot option" where
  "manifest L R v i = document L R (snapshot_parse L) v (snapshot_key i)"

definition index_of :: "foreign \<Rightarrow> 'b repository \<Rightarrow> (string \<Rightarrow> bytes option) \<Rightarrow> string \<Rightarrow> snapshot_index option" where
  "index_of L R v i = document L R (index_parse L) v (index_key i)"

definition snapshot_ids :: "(string \<Rightarrow> bytes option) \<Rightarrow> string set" where
  "snapshot_ids v = {i. ident i \<and> v (snapshot_key i) \<noteq> None}"

text \<open>Every manifest can be read, and is stored under its own id.\<close>

definition manifests_ok :: "foreign \<Rightarrow> 'b repository \<Rightarrow> (string \<Rightarrow> bytes option) \<Rightarrow> bool" where
  "manifests_ok L R v \<longleftrightarrow> (\<forall>i\<in>snapshot_ids v. \<exists>s. manifest L R v i = Some s \<and> sn_id s = i)"

lemma lookup_check_hash: "check_hash h = Inr () \<Longrightarrow> hash_name h"
  unfolding check_hash_ok hash_name_def ident_def list_all_iff
  by (auto simp: ascii_hexdigit_def ident_char_def Let_def)

lemma tmp_not_json: "ident u \<Longrightarrow> \<not> ends_with (x @ tmp_ext u) ''.json''"
proof
  assume u: "ident u" and e: "ends_with (x @ tmp_ext u) ''.json''"
  then obtain y where y: "x @ tmp_ext u = y @ ''.json''" by (auto simp: ends_with_iff)
  have t: "takeWhile (\<lambda>c. c \<noteq> CHR ''.'') (rev (x @ tmp_ext u)) = rev u @ rev ''tmp-''"
  proof -
    have "\<And>c. c \<in> set (rev u @ rev ''tmp-'') \<Longrightarrow> c \<noteq> CHR ''.''" using ident_no_dot [OF u] by auto
    then have "takeWhile (\<lambda>c. c \<noteq> CHR ''.'') ((rev u @ rev ''tmp-'') @ CHR ''.'' # rev x) = rev u @ rev ''tmp-''"
      by (subst takeWhile_append2) auto
    moreover have "rev (x @ tmp_ext u) = (rev u @ rev ''tmp-'') @ CHR ''.'' # rev x" by (simp add: tmp_ext_def)
    ultimately show ?thesis by simp
  qed
  have "takeWhile (\<lambda>c. c \<noteq> CHR ''.'') (rev (y @ ''.json'')) = rev ''json''" by simp
  then have "rev u @ rev ''tmp-'' = rev ''json''" using t y by simp
  then show False using arg_cong [of _ _ "\<lambda>s. CHR ''-'' \<in> set s"] by fastforce
qed

lemma doc_key_cases:
  assumes d: "d \<in> set doc_dirs" and k: "store_key k" "under d k" "ends_with k ''.json''"
  shows "\<exists>i. ident i \<and> k = d @ ''/'' @ i @ ''.json''"
proof -
  have ds: "CHR ''/'' \<notin> set d" "trim_end (CHR ''/'') d = d" "d \<noteq> ''blobs''"
    using d by (auto simp: doc_dirs_def trim_end_def)
  obtain r where r: "k = d @ CHR ''/'' # r" using k(2) ds by (auto simp: under_def starts_with_iff)
  have kp: "key_path k = d # key_path r" using key_path_two [OF ds(1)] r by simp
  have one: "r = x" if "key_path r = [x]" for x
    using that unfolding key_path_def by (metis join_with.simps(2) split_on_join)
  from k(1) show ?thesis
    unfolding store_key_def
  proof
    assume "repo_path (key_path k)"
    then obtain i where "ident i" "key_path r = [i @ ''.json'']"
      unfolding repo_path_def kp using ds(3) by auto
    then show ?thesis using one r by auto
  next
    assume "temp_path (key_path k)"
    then obtain s x u where "ident u" "key_path r = [s @ x @ tmp_ext u]"
      unfolding temp_path_def kp using ds(3) by auto
    then have "k = (d @ CHR ''/'' # s @ x) @ tmp_ext u" using one r by auto
    then show ?thesis using tmp_not_json [OF \<open>ident u\<close>] k(3) by blast
  qed
qed

lemma snapshot_key_listed:
  assumes "store_key k" "under ''snapshots'' k"
  shows "ends_with k ''.json'' \<longleftrightarrow> (\<exists>i. ident i \<and> k = snapshot_key i)"
  using doc_key_cases [of "''snapshots''" k] assms
  by (auto simp: doc_dirs_def snapshot_key_def ends_with_iff)

lemma under_snapshot_key [simp]: "under ''snapshots'' (snapshot_key i)"
  by (simp add: under_def trim_end_def snapshot_key_def starts_with_iff)

section \<open>Rules\<close>

context reliable_backend
begin

lemma wp_fetch_blob:
  assumes R: "rp_backend R = B" and w: "good (w_store w)"
  shows "wp (fetch_blob L R h) (\<lambda>r t. same_store view good w t
     \<and> (hash_name h \<longrightarrow> (\<forall>d. r = Inr d \<longrightarrow> contents L R (view (w_store w)) h = Some d))
     \<and> (ready (w_store w) \<longrightarrow> ready (w_store t) \<and>
          (hash_name h \<longrightarrow> contents L R (view (w_store w)) h \<noteq> None \<longrightarrow> is_ok r))) w"
proof (cases "blob_key h")
  case (Inl e)
  then show ?thesis using blob_key_hash [of h] w
    by (auto simp: fetch_blob_def wp_simps same_store_refl)
next
  case (Inr k)
  have k: "hash_name h \<Longrightarrow> k = bkey h" using blob_key_hash [of h] Inr by simp
  show ?thesis
    unfolding fetch_blob_def Inr lift_res_Inr bnd_ret wp_bnd
    by (rule wp_mono [OF wp_get [OF R w]])
      (use k in \<open>auto simp: wp_simps contents_def split: sum.splits option.splits\<close>)
qed

lemma wp_fetch_node:
  assumes R: "rp_backend R = B" and w: "good (w_store w)"
  shows "wp (fetch_node L R h) (\<lambda>r t. same_store view good w t
     \<and> (hash_name h \<longrightarrow> (\<forall>n. r = Inr n \<longrightarrow> lookup L R (view (w_store w)) h = Some n))
     \<and> (ready (w_store w) \<longrightarrow> ready (w_store t) \<and>
          (hash_name h \<longrightarrow> lookup L R (view (w_store w)) h \<noteq> None \<longrightarrow> is_ok r))) w"
  unfolding fetch_node_def wp_bnd
  by (rule wp_mono [OF wp_fetch_blob [OF R w]])
    (auto simp: wp_simps lookup_def parse_node_def is_ok_iff split: sum.splits option.splits)

lemma wp_document:
  assumes R: "rp_backend R = B" and w: "good (w_store w)" and k: "repo_key k"
  shows "wp (bnd (get_obj R k) (\<lambda>stored. bnd (lift_res (open_for L R CtxDoc stored)) (\<lambda>raw. lift_res (ok_or e (parse raw)))))
    (\<lambda>r t. same_store view good w t
     \<and> (\<forall>s. r = Inr s \<longrightarrow> document L R parse (view (w_store w)) k = Some s)
     \<and> (ready (w_store w) \<longrightarrow> ready (w_store t) \<and> (document L R parse (view (w_store w)) k \<noteq> None \<longrightarrow> is_ok r))) w"
  unfolding wp_bnd
  by (rule wp_mono [OF wp_get [OF R w]])
    (use k in \<open>auto simp: wp_simps document_def is_ok_iff split: sum.splits option.splits\<close>)

lemma wp_load_manifest:
  assumes R: "rp_backend R = B" and w: "good (w_store w)" and i: "ident i"
  shows "wp (load_manifest L R (snapshot_key i)) (\<lambda>r t. same_store view good w t
     \<and> (\<forall>s. r = Inr s \<longrightarrow> manifest L R (view (w_store w)) i = Some s)
     \<and> (ready (w_store w) \<longrightarrow> ready (w_store t) \<and> (manifest L R (view (w_store w)) i \<noteq> None \<longrightarrow> is_ok r))) w"
  unfolding load_manifest_def manifest_def by (rule wp_document [OF R w repo_key_snapshot [OF i]])

lemma wp_list_snapshots:
  assumes R: "rp_backend R = B" and w: "good (w_store w)"
  shows "wp (list_snapshots L R) (\<lambda>r t. same_store view good w t
     \<and> (\<forall>ss. r = Inr ss \<longrightarrow>
          (\<exists>ids. distinct ids \<and> set ids = snapshot_ids (view (w_store w))
            \<and> (\<forall>i\<in>set ids. manifest L R (view (w_store w)) i \<noteq> None)
            \<and> mset ss = mset (map (\<lambda>i. the (manifest L R (view (w_store w)) i)) ids))
        \<and> sorted_wrt (\<lambda>a b. (sn_time b, sn_id b) \<le> (sn_time a, sn_id a)) ss)
     \<and> (ready (w_store w) \<longrightarrow> ready (w_store t)
          \<and> ((\<forall>i\<in>snapshot_ids (view (w_store w)). manifest L R (view (w_store w)) i \<noteq> None) \<longrightarrow> is_ok r))) w"
proof -
  let ?v = "view (w_store w)"
  let ?man = "manifest L R ?v"
  define I where "I = (\<lambda>done (out :: snapshot list) t. same_store view good w t
     \<and> (\<exists>ids. map snapshot_key ids = filter (\<lambda>k. ends_with k ''.json'') done \<and> (\<forall>i\<in>set ids. ident i \<and> ?man i \<noteq> None)
          \<and> out = map (\<lambda>i. the (?man i)) ids)
     \<and> (ready (w_store w) \<longrightarrow> ready (w_store t)))"
  let ?step = "\<lambda>out key. if \<not> ends_with key ''.json'' then ret out
            else bnd (load_manifest L R key) (\<lambda>s. ret (out @ [s]))"
  have loop: "wp (fold_io ?step [] keys) (\<lambda>r t. case r of
        Inl _ \<Rightarrow> same_store view good w t \<and> (ready (w_store w) \<longrightarrow> ready (w_store t) \<and> (\<exists>i\<in>snapshot_ids ?v. ?man i = None))
      | Inr out \<Rightarrow> I keys out t) u"
    if u: "same_store view good w u" "ready (w_store w) \<longrightarrow> ready (w_store u)"
      and keys: "\<forall>k\<in>set keys. store_key k \<and> under ''snapshots'' k"
      and listed: "\<forall>k\<in>set keys. repo_key k \<longrightarrow> ?v k \<noteq> None" for keys u
  proof (rule wp_fold_io [where Inv = I])
    show "I [] [] u" using u by (simp add: I_def)
  next
    fix "done" k rest out t
    assume split: "keys = done @ k # rest" and inv: "I done out t"
    have st: "same_store view good w t" and rd: "ready (w_store w) \<longrightarrow> ready (w_store t)" using inv by (auto simp: I_def)
    have kk: "store_key k" "under ''snapshots'' k" using keys split by auto
    show "wp (?step out k) (\<lambda>r u. case r of
          Inl e \<Rightarrow> (case Inl e of Inl _ \<Rightarrow> same_store view good w u \<and> (ready (w_store w) \<longrightarrow> ready (w_store u) \<and> (\<exists>i\<in>snapshot_ids ?v. ?man i = None))
            | Inr out \<Rightarrow> I keys out u)
        | Inr b \<Rightarrow> I (done @ [k]) b u) t"
    proof (cases "ends_with k ''.json''")
      case False
      then show ?thesis using inv by (simp add: wp_simps I_def)
    next
      case True
      obtain i where i: "ident i" "k = snapshot_key i" using snapshot_key_listed [OF kk] True by blast
      have id: "i \<in> snapshot_ids ?v" using listed split i repo_key_snapshot by (auto simp: snapshot_ids_def)
      have next_ok: "I (done @ [k]) (out @ [s]) t'" if "same_store view good t t'" "ready (w_store t) \<longrightarrow> ready (w_store t')"
        "?man i = Some s" for s t'
      proof -
        obtain ids where ids: "map snapshot_key ids = filter (\<lambda>k. ends_with k ''.json'') done"
          "\<forall>i\<in>set ids. ident i \<and> ?man i \<noteq> None" "out = map (\<lambda>i. the (?man i)) ids"
          using inv by (auto simp: I_def)
        show ?thesis
          unfolding I_def
          using same_store_trans [OF st that(1)] rd that(2,3) ids i True
          by (intro conjI exI [of _ "ids @ [i]"]) auto
      qed
      show ?thesis
        using True
        apply (simp add: wp_bnd i(2))
        apply (rule wp_mono [OF wp_load_manifest [OF R same_store_good [OF st] i(1)]])
        apply (use next_ok i id st rd in \<open>auto simp: wp_simps same_store_view [OF st] is_ok_iff
            split: sum.splits intro: same_store_trans\<close>)
        done
    qed
  qed simp
  have fin: "(\<exists>ids. distinct ids \<and> set ids = snapshot_ids ?v \<and> (\<forall>i\<in>set ids. ?man i \<noteq> None)
        \<and> mset (sort_desc f out) = mset (map (\<lambda>i. the (?man i)) ids))"
    if inv: "I keys out t" and d: "distinct keys" and repo: "{k \<in> set keys. repo_key k} = {k. under ''snapshots'' k \<and> ?v k \<noteq> None}"
    for keys out t and f :: "snapshot \<Rightarrow> string \<times> string"
  proof -
    obtain ids where ids: "map snapshot_key ids = filter (\<lambda>k. ends_with k ''.json'') keys"
      "\<forall>i\<in>set ids. ident i \<and> ?man i \<noteq> None" "out = map (\<lambda>i. the (?man i)) ids"
      using inv by (auto simp: I_def)
    have "distinct (map snapshot_key ids)" using d unfolding ids(1) by simp
    then have "distinct ids" by (simp only: distinct_map)
    moreover have "i \<in> set ids \<longleftrightarrow> i \<in> snapshot_ids ?v" for i
    proof -
      have "i \<in> set ids \<longleftrightarrow> snapshot_key i \<in> set (map snapshot_key ids)" by auto
      also have "\<dots> \<longleftrightarrow> snapshot_key i \<in> set keys \<and> ends_with (snapshot_key i) ''.json''" unfolding ids(1) by auto
      also have "\<dots> \<longleftrightarrow> snapshot_key i \<in> set keys" by (simp add: snapshot_key_def ends_with_iff)
      finally have eq: "i \<in> set ids \<longleftrightarrow> snapshot_key i \<in> set keys" .
      show ?thesis
      proof
        assume i: "i \<in> set ids"
        then have "repo_key (snapshot_key i)" using ids(2) repo_key_snapshot by blast
        then show "i \<in> snapshot_ids ?v" using repo i eq ids(2) by (auto simp: snapshot_ids_def)
      next
        assume "i \<in> snapshot_ids ?v"
        then show "i \<in> set ids" using repo eq by (auto simp: snapshot_ids_def)
      qed
    qed
    ultimately show ?thesis using ids by (intro exI [of _ ids]) auto
  qed
  show ?thesis
    unfolding list_snapshots_def
  proof (rule wp_bndI [OF wp_list [OF R w]], goal_cases)
    case 1
    show ?case by (simp add: list_prefix_def trim_end_def)
  next
    case (2 e t)
    then show ?case by simp
  next
    case (3 keys t)
    have keys: "\<forall>k\<in>set keys. store_key k \<and> under ''snapshots'' k" "distinct keys"
      "{k \<in> set keys. repo_key k} = {k. under ''snapshots'' k \<and> ?v k \<noteq> None}"
      and u: "same_store view good w t" "ready (w_store w) \<longrightarrow> ready (w_store t)" using 3 by auto
    have listed: "\<forall>k\<in>set keys. repo_key k \<longrightarrow> ?v k \<noteq> None" using keys(3) by blast
    have end_I: "same_store view good w t' \<and> (ready (w_store w) \<longrightarrow> ready (w_store t'))" if "I keys out t'" for out t'
      using that by (auto simp: I_def)
    have srt: "sorted_wrt (\<lambda>a b. (sn_time b, sn_id b) \<le> (sn_time a, sn_id a))
        (sort_desc (\<lambda>s. (sn_time s, sn_id s)) out)" for out
      by (rule sorted_sort_desc)
    show ?case
      by (rule wp_bndI [OF loop [OF u keys(1) listed]])
        (use srt fin [OF _ keys(2,3)] end_I in \<open>auto simp: wp_simps is_ok_iff\<close>)
  qed
qed

text \<open>A prefix that belongs to exactly one stored snapshot finds it.\<close>

lemma wp_find_snapshot:
  assumes R: "rp_backend R = B" and w: "good (w_store w)"
  shows "wp (find_snapshot L R p) (\<lambda>r t. same_store view good w t
     \<and> (\<forall>s. r = Inr s \<longrightarrow> starts_with (sn_id s) p \<and> (\<exists>i\<in>snapshot_ids (view (w_store w)).
            manifest L R (view (w_store w)) i = Some s
          \<and> (\<forall>j\<in>snapshot_ids (view (w_store w)). j \<noteq> i \<longrightarrow>
               \<not> starts_with (sn_id (the (manifest L R (view (w_store w)) j))) p)))
     \<and> (ready (w_store w) \<longrightarrow> ready (w_store t)
          \<and> (manifests_ok L R (view (w_store w)) \<longrightarrow> (\<exists>!i. i \<in> snapshot_ids (view (w_store w)) \<and> starts_with i p) \<longrightarrow>
              is_ok r))) w"
proof -
  let ?v = "view (w_store w)"
  let ?man = "manifest L R ?v"
  let ?P = "\<lambda>s. starts_with (sn_id s) p"
  have found: "starts_with (sn_id s) p \<and> (\<exists>i\<in>snapshot_ids ?v. ?man i = Some s \<and> (\<forall>j\<in>snapshot_ids ?v. j \<noteq> i \<longrightarrow> \<not> ?P (the (?man j))))"
    if ids: "distinct ids" "set ids = snapshot_ids ?v" "\<forall>i\<in>set ids. ?man i \<noteq> None" "mset ss = mset (map (\<lambda>i. the (?man i)) ids)"
      and one: "filter ?P ss = [s]" for ids ss s
  proof -
    have "mset (filter ?P (map (\<lambda>i. the (?man i)) ids)) = mset [s]"
      using arg_cong [OF ids(4), of "filter_mset ?P"] one by (metis mset_filter)
    then have "mset (filter ?P (map (\<lambda>i. the (?man i)) ids)) = {#s#}" by (simp only: mset.simps)
    then have "filter ?P (map (\<lambda>i. the (?man i)) ids) = [s]" by (rule mset_single_iff [THEN iffD1])
    then have l: "map (\<lambda>i. the (?man i)) (filter (\<lambda>i. ?P (the (?man i))) ids) = [s]"
      by (simp only: filter_map comp_def)
    then obtain i where i: "filter (\<lambda>i. ?P (the (?man i))) ids = [i]" "the (?man i) = s" by auto
    have sel: "j \<in> set ids \<and> ?P (the (?man j)) \<longleftrightarrow> j = i" for j
      using arg_cong [OF i(1), of set] by auto
    then have "i \<in> set ids" "?P s" using i(2) by blast+
    moreover have "\<not> ?P (the (?man j))" if "j \<in> set ids" "j \<noteq> i" for j
      using sel that by blast
    ultimately show ?thesis using ids i(2) by force
  qed
  have unique: "\<exists>s. filter ?P ss = [s]"
    if ids: "distinct ids" "set ids = snapshot_ids ?v" "mset ss = mset (map (\<lambda>i. the (?man i)) ids)"
      and m: "manifests_ok L R ?v" and ex: "\<exists>!i. i \<in> snapshot_ids ?v \<and> starts_with i p" for ids ss
  proof -
    have n: "sn_id (the (?man i)) = i" if "i \<in> set ids" for i using m ids(2) that by (force simp: manifests_ok_def)
    have "filter (\<lambda>i. ?P (the (?man i))) ids = filter (\<lambda>i. starts_with i p) ids"
      by (rule filter_cong) (auto simp: n)
    moreover have "length (filter (\<lambda>i. starts_with i p) ids) = 1"
    proof -
      have "card (set (filter (\<lambda>i. starts_with i p) ids)) = 1"
        using ex ids(2) by (auto simp: card_1_singleton_iff)
      then show ?thesis using distinct_card [of "filter (\<lambda>i. starts_with i p) ids"] ids(1) by simp
    qed
    moreover have "length (filter ?P ss) = length (filter ?P (map (\<lambda>i. the (?man i)) ids))"
      using ids(3) by (metis mset_filter size_mset)
    ultimately have "length (filter ?P ss) = 1" by (simp add: filter_map comp_def)
    then show ?thesis by (auto simp: length_Suc_conv)
  qed
  show ?thesis
    unfolding find_snapshot_def
  proof (rule wp_bndI [OF wp_list_snapshots [OF R w]], goal_cases)
    case (1 e t)
    moreover have "manifests_ok L R ?v \<longrightarrow> (\<forall>i\<in>snapshot_ids ?v. ?man i \<noteq> None)"
      by (force simp: manifests_ok_def)
    ultimately show ?case by auto
  next
    case (2 ss t)
    then obtain ids where ids: "distinct ids" "set ids = snapshot_ids ?v" "\<forall>i\<in>set ids. ?man i \<noteq> None"
      "mset ss = mset (map (\<lambda>i. the (?man i)) ids)" by blast
    have kept: "same_store view good w t" "ready (w_store w) \<longrightarrow> ready (w_store t)" using 2 by blast+
    show ?case
    proof (cases "\<exists>s. filter ?P ss = [s]")
      case True
      then obtain s where s: "filter ?P ss = [s]" by blast
      show ?thesis unfolding s list.case wp_ret using kept found [OF ids s] by simp
    next
      case False
      then have none: "(case filter ?P ss of [s] \<Rightarrow> ret s | _ \<Rightarrow> raise (SnapshotNotFound p))
          = (raise (SnapshotNotFound p) :: ('b world, snapshot) io)"
        by (auto split: list.splits)
      have "\<not> (manifests_ok L R ?v \<and> (\<exists>!i. i \<in> snapshot_ids ?v \<and> starts_with i p))"
        using unique [OF ids(1,2,4)] False by blast
      then show ?thesis unfolding none wp_raise using kept by simp
    qed
  qed
qed

end

end
