(* ===== verification/Repo_Restore.thy ===== *)
theory Repo_Restore
  imports Repo_Read
begin

text \<open>
  Restoring (aegis-core/src/repo.rs): \<open>restore\<close>, \<open>restore_path\<close>, \<open>load_root\<close> and the
  recursion over nodes that writes directories and files below the target. File contents
  pass through a buffered writer of 8 KiB, so that a restore that fails has written only
  what the buffer had passed on. Every call follows symbolic links, as the operating system
  does: a link that is already in the target redirects what is restored at its name.
\<close>

section \<open>The buffered writer\<close>

definition BUF_CAPACITY :: nat where
  "BUF_CAPACITY = 8 * 1024"

text \<open>The open file \<open>h\<close> is written; \<open>p\<close> is its path as the caller has it, for the errors.\<close>

definition buf_flush :: "path \<Rightarrow> path \<Rightarrow> bytes \<Rightarrow> (os_state, unit) io" where
  "buf_flush p h buf = (if buf = [] then ret () else os_write_to p h buf)"

definition buf_write :: "path \<Rightarrow> path \<Rightarrow> bytes \<Rightarrow> bytes \<Rightarrow> (os_state, bytes) io" where
  "buf_write p h buf d =
     bnd (if length buf + length d > BUF_CAPACITY then bnd (buf_flush p h buf) (\<lambda>_. ret []) else ret buf) (\<lambda>buf'.
     if length d \<ge> BUF_CAPACITY then bnd (os_write_to p h d) (\<lambda>_. ret buf') else ret (buf' @ d))"

section \<open>One file\<close>

definition safe_join :: "path \<Rightarrow> string \<Rightarrow> path res" where
  "safe_join base rel =
     (let segs = split_on (CHR ''/'') rel in
      if \<exists>seg\<in>set segs. seg = [] \<or> seg = ''.'' \<or> seg = ''..'' \<or> CHR 0x5C \<in> set seg \<or> CHR '':'' \<in> set seg
      then Inl (BadPath rel) else Inr (foldl join_seg base segs))"

definition restore_file :: "foreign \<Rightarrow> 'b repository \<Rightarrow> path \<Rightarrow> string list \<Rightarrow> ('b world, unit) io" where
  "restore_file L R dest chunks =
     bnd (if dest = [] then ret () else on_os (follow_dir_all (butlast dest))) (\<lambda>_.
     bnd (on_os (os_call dest (follow_create dest))) (\<lambda>h.
     bnd (fold_io (\<lambda>buf hex.
            bnd (lift_res (blob_key hex)) (\<lambda>key.
            bnd (exists_obj R key) (\<lambda>e.
            if \<not> e then raise (MissingBlob hex)
            else bnd (fetch_blob L R hex) (\<lambda>d. on_os (buf_write dest h buf d))))) [] chunks) (\<lambda>buf.
     on_os (buf_flush dest h buf))))"

definition restore_mode :: "path \<Rightarrow> 32 word option \<Rightarrow> ('b world, unit) io" where
  "restore_mode p mode = (case mode of
      None \<Rightarrow> ret ()
    | Some m \<Rightarrow> if and m 0xFFF = 0 then ret () else on_os (os_call p (follow_chmod p m)))"

definition restore_mtime :: "path \<Rightarrow> int option \<Rightarrow> ('b world, unit) io" where
  "restore_mtime p mtime = (case mtime of
      None \<Rightarrow> ret ()
    | Some secs \<Rightarrow> bnd (on_os (os_try (follow_set_mtime p secs))) (\<lambda>_. ret ()))"

section \<open>Trees\<close>

function restore_node :: "foreign \<Rightarrow> 'b repository \<Rightarrow> nat \<Rightarrow> node \<Rightarrow> path \<Rightarrow> ('b world, unit) io" where
  "restore_node L R fuel (File n s mode mtime chunks) dir =
     bnd (lift_res (validate (File n s mode mtime chunks))) (\<lambda>_.
     bnd (lift_res (safe_join dir n)) (\<lambda>dest.
     bnd (restore_file L R dest chunks) (\<lambda>_.
     bnd (restore_mode dest mode) (\<lambda>_.
     restore_mtime dest mtime))))"
| "restore_node L R fuel (Dir n cs) dir =
     bnd (lift_res (validate (Dir n cs))) (\<lambda>_.
     bnd (lift_res (safe_join dir n)) (\<lambda>here.
     bnd (on_os (follow_dir_all here)) (\<lambda>_.
     for_io (\<lambda>c. restore_node L R fuel c here) cs)))"
| "restore_node L R fuel (Ref n h) dir =
     bnd (lift_res (validate (Ref n h))) (\<lambda>_.
     case fuel of
       0 \<Rightarrow> raise OutOfFuel
     | Suc f \<Rightarrow> bnd (fetch_node L R h) (\<lambda>inner. restore_node L R f inner dir))"
  by pat_completeness auto
termination
  by (relation "measures [\<lambda>(_, _, fuel, _, _). fuel, \<lambda>(_, _, _, n, _). size n]") (auto simp: list_child_size)

definition load_root :: "foreign \<Rightarrow> 'b repository \<Rightarrow> snapshot \<Rightarrow> ('b world, node) io" where
  "load_root L R s = (case sn_root s of
      Ref _ h \<Rightarrow> bnd (fetch_node L R h) (\<lambda>n. bnd (lift_res (validate n)) (\<lambda>_. ret n))
    | other \<Rightarrow> ret other)"

definition top_nodes :: "node \<Rightarrow> node list" where
  "top_nodes root = (case root of Dir _ cs \<Rightarrow> cs | other \<Rightarrow> [other])"

definition restore_snapshot :: "foreign \<Rightarrow> 'b repository \<Rightarrow> nat \<Rightarrow> snapshot \<Rightarrow> path \<Rightarrow> ('b world, snapshot) io" where
  "restore_snapshot L R fuel s target =
     bnd (on_os (follow_dir_all target)) (\<lambda>_.
     bnd (load_root L R s) (\<lambda>root.
     bnd (for_io (\<lambda>n. restore_node L R fuel n target) (top_nodes root)) (\<lambda>_. ret s)))"

definition restore :: "foreign \<Rightarrow> 'b repository \<Rightarrow> nat \<Rightarrow> string \<Rightarrow> path \<Rightarrow> ('b world, snapshot) io" where
  "restore L R fuel id_or_prefix target =
     bnd (find_snapshot L R id_or_prefix) (\<lambda>s. restore_snapshot L R fuel s target)"

section \<open>Part of a snapshot\<close>

text \<open>
  The descent of \<open>restore_path\<close>: the nodes it ends with and the number of components it
  matched. It stops at the first component that matches no node.
\<close>

fun descend :: "node list \<Rightarrow> string list \<Rightarrow> nat \<Rightarrow> node list \<times> nat" where
  "descend nodes [] matched = (nodes, matched)"
| "descend nodes (c # comps) matched =
     (case find (\<lambda>n. name n = c) nodes of
        None \<Rightarrow> (nodes, matched)
      | Some n \<Rightarrow> descend (case n of Dir _ cs \<Rightarrow> cs | _ \<Rightarrow> []) comps (Suc matched))"

definition path_components :: "string \<Rightarrow> string list" where
  "path_components p = filter (\<lambda>c. c \<noteq> [] \<and> c \<noteq> ''.'') (split_on (CHR ''/'') p)"

definition restore_path ::
  "foreign \<Rightarrow> 'b repository \<Rightarrow> nat \<Rightarrow> string \<Rightarrow> string \<Rightarrow> path \<Rightarrow> ('b world, snapshot) io" where
  "restore_path L R fuel id_or_prefix path_in_snapshot target =
     bnd (find_snapshot L R id_or_prefix) (\<lambda>s.
     let components = path_components path_in_snapshot in
     if components = [] then restore L R fuel (sn_id s) target
     else
       bnd (load_root L R s) (\<lambda>root.
       case descend (top_nodes root) components 0 of (nodes, matched) \<Rightarrow>
         if matched = 0 then
           bnd (lift_res (short_id s)) (\<lambda>short.
           raise (InvalidInput (CHR 0x60 # path_in_snapshot @ CHR 0x60 # '' is not in snapshot '' @ short)))
         else
           bnd (on_os (follow_dir_all target)) (\<lambda>_.
           bnd (for_io (\<lambda>n. restore_node L R fuel n target) nodes) (\<lambda>_. ret s))))"

end
