(* ===== verification/Restore_Correct.thy ===== *)
theory Restore_Correct
  imports Read_Correct Repo_Restore
begin

text \<open>
  Restoring, proved over any backend that keeps the contract: a restore changes nothing
  outside its target directory, whatever the manifest says and whichever calls fail, as long
  as there is no symbolic link below that directory, and one that returns has written exactly the tree the stored nodes stand for.
\<close>

section \<open>Changes of a file system\<close>

text \<open>Only entries at or below \<open>p\<close> change, and none becomes a link.\<close>

definition no_new_links :: "fs \<Rightarrow> fs \<Rightarrow> bool" where
  "no_new_links fs fs' \<longleftrightarrow> (\<forall>q. is_link fs' q \<longrightarrow> is_link fs q)"

definition within :: "path \<Rightarrow> fs \<Rightarrow> fs \<Rightarrow> bool" where
  "within p fs fs' \<longleftrightarrow> fs_wf fs' \<and> no_new_links fs fs' \<and> (\<forall>q. \<not> prefix p q \<longrightarrow> ent fs' q = ent fs q)"

definition strictly_within :: "path \<Rightarrow> fs \<Rightarrow> fs \<Rightarrow> bool" where
  "strictly_within p fs fs' \<longleftrightarrow> fs_wf fs' \<and> no_new_links fs fs' \<and> (\<forall>q. \<not> strict_prefix p q \<longrightarrow> ent fs' q = ent fs q)"

definition linkless :: "fs \<Rightarrow> path \<Rightarrow> bool" where
  "linkless fs p \<longleftrightarrow> (\<forall>q. \<not> is_link fs (p @ q))"

lemma no_new_links_refl [simp]: "no_new_links fs fs"
  by (simp add: no_new_links_def)

lemma no_new_links_trans: "no_new_links fs g \<Longrightarrow> no_new_links g h \<Longrightarrow> no_new_links fs h"
  by (simp add: no_new_links_def)

lemma no_new_links_set: "p \<noteq> [] \<Longrightarrow> (\<And>t. e \<noteq> ELink t) \<Longrightarrow> no_new_links fs (fs_set p e fs)"
  by (auto simp: no_new_links_def is_link_ent split: if_splits)

lemma linkless_kept: "linkless fs p \<Longrightarrow> no_new_links fs fs' \<Longrightarrow> linkless fs' p"
  by (auto simp: linkless_def no_new_links_def)

lemma linkless_below: "linkless fs p \<Longrightarrow> linkless fs (p @ q)"
  by (simp add: linkless_def)

lemma linkless_child: "linkless fs p \<Longrightarrow> \<not> is_link fs (p @ [n])"
  by (simp add: linkless_def)

lemma within_refl: "fs_wf fs \<Longrightarrow> within p fs fs"
  by (simp add: within_def)

lemma strictly_refl: "fs_wf fs \<Longrightarrow> strictly_within p fs fs"
  by (simp add: strictly_within_def)

lemma within_trans: "within p fs g \<Longrightarrow> within p g h \<Longrightarrow> within p fs h"
  by (auto simp: within_def intro: no_new_links_trans)

lemma strictly_trans: "strictly_within p fs g \<Longrightarrow> strictly_within p g h \<Longrightarrow> strictly_within p fs h"
  by (auto simp: strictly_within_def intro: no_new_links_trans)

lemma strictly_within: "strictly_within p fs g \<Longrightarrow> within p fs g"
  by (auto simp: strictly_within_def within_def strict_prefix_def)

lemma within_child: "within (p @ [n]) fs g \<Longrightarrow> strictly_within p fs g"
  unfolding within_def strictly_within_def
  by (metis prefix_order.dual_order.strict_trans2 prefix_order.less_le strict_prefix_def prefixI append_self_conv list.distinct(1))

lemma within_wf: "within p fs g \<Longrightarrow> fs_wf g"
  by (simp add: within_def)

lemma strictly_wf: "strictly_within p fs g \<Longrightarrow> fs_wf g"
  by (simp add: strictly_within_def)

lemma strictly_dir: "strictly_within p fs g \<Longrightarrow> is_dir fs p \<Longrightarrow> is_dir g p"
  by (simp add: strictly_within_def is_dir_def)

lemma not_under_child: "\<not> prefix (p @ [n]) p"
  by (auto simp: prefix_def)

section \<open>Calls on one path\<close>

text \<open>\<open>create_dir_all\<close> below an existing directory creates at most that one entry.\<close>

lemma wp_create_here:
  assumes wf: "fs_wf (os_fs s)" and d: "is_dir (os_fs s) dir" and nl: "\<not> is_link (os_fs s) (dir @ [n])"
  shows "wp (follow_dir_all (dir @ [n])) (\<lambda>r t. within (dir @ [n]) (os_fs s) (os_fs t)
     \<and> (\<forall>q. q \<noteq> dir @ [n] \<longrightarrow> ent (os_fs t) q = ent (os_fs s) q)
     \<and> (is_ok r \<longrightarrow> is_dir (os_fs t) (dir @ [n]))
     \<and> (faultless s \<longrightarrow> faultless t \<and> (ent (os_fs s) (dir @ [n]) = None \<longrightarrow> is_ok r))) s"
proof -
  let ?p = "dir @ [n]"
  define I where "I = (\<lambda>k t. within ?p (os_fs s) (os_fs t)
     \<and> (\<forall>q. q \<noteq> ?p \<longrightarrow> ent (os_fs t) q = ent (os_fs s) q)
     \<and> (k < length ?p \<longrightarrow> os_fs t = os_fs s) \<and> (k = length ?p \<longrightarrow> is_dir (os_fs t) ?p)
     \<and> (faultless s \<longrightarrow> faultless t))"
  show ?thesis
  proof (rule wp_follow_dir_all [where Inv = I])
    show "I 0 s" using wf by (simp add: I_def within_refl)
  next
    fix k t
    assume k: "k < length ?p" and I: "I k t"
    have t: "os_fs t = os_fs s" "faultless s \<longrightarrow> faultless t" using I k by (auto simp: I_def)
    show "wp (os_call ?p (follow_mkdir (take (Suc k) ?p)))
      (\<lambda>r u. case r of Inl e \<Rightarrow> within ?p (os_fs s) (os_fs u)
           \<and> (\<forall>q. q \<noteq> ?p \<longrightarrow> ent (os_fs u) q = ent (os_fs s) q)
           \<and> (is_ok (Inl e :: unit res) \<longrightarrow> is_dir (os_fs u) ?p)
           \<and> (faultless s \<longrightarrow> faultless u \<and> (ent (os_fs s) ?p = None \<longrightarrow> is_ok (Inl e :: unit res)))
         | Inr _ \<Rightarrow> I (Suc k) u) t"
    proof (cases "Suc k = length ?p")
      case False
      then have "Suc k \<le> length dir" using k by simp
      then have "is_dir (os_fs s) (take (Suc k) ?p)"
      proof (cases "Suc k = length dir")
        case True
        then show ?thesis using d by simp
      next
        case False
        then have "Suc k < length dir" using \<open>Suc k \<le> length dir\<close> by simp
        moreover have "ent (os_fs s) dir = Some EDir" using d by (simp add: is_dir_def)
        ultimately have "is_dir (os_fs s) (take (Suc k) dir)" using fs_wf_ancestor [OF wf] by blast
        then show ?thesis using \<open>Suc k \<le> length dir\<close> by simp
      qed
      then have "stat (os_fs s) (take (Suc k) ?p) = Inr EDir" "unlinked (os_fs s) (take (Suc k) ?p)"
        using unlinked_dir [OF wf] by (simp_all add: is_dir_def)
      then show ?thesis
        using t wf d False I k by (auto simp: wp_simps follow_unlinked fs_mkdir_def faultless_next I_def split: option.splits)
    next
      case True
      have st: "stat (os_fs s) ?p = (case ent (os_fs s) ?p of None \<Rightarrow> Inl NotFound | Some e \<Rightarrow> Inr e)"
        using stat_under_dir [OF wf, of ?p] d by (auto split: option.splits)
      have "within ?p (os_fs s) (fs_set ?p EDir (os_fs s))"
        using fs_wf_set [OF wf, of ?p EDir] d by (auto simp: within_def no_new_links_set)
      moreover have "follow_mkdir ?p (os_fs s) = fs_mkdir ?p (os_fs s)"
        using follow_unlinked(1) [OF unlinked_below [OF wf _ nl]] d by simp
      ultimately show ?thesis
        using t wf d True st
        by (auto simp: wp_simps fs_mkdir_def faultless_next I_def within_refl is_dir_def split: option.splits fs_entry.splits)
    qed
  next
    fix t
    assume "I (length ?p) t"
    then show "within ?p (os_fs s) (os_fs t) \<and> (\<forall>q. q \<noteq> ?p \<longrightarrow> ent (os_fs t) q = ent (os_fs s) q)
        \<and> (is_ok (Inr () :: unit res) \<longrightarrow> is_dir (os_fs t) ?p)
        \<and> (faultless s \<longrightarrow> faultless t \<and> (ent (os_fs s) ?p = None \<longrightarrow> is_ok (Inr () :: unit res)))"
      by (simp add: I_def)
  qed
qed

lemma wp_create_existing:
  assumes wf: "fs_wf (os_fs s)" and d: "is_dir (os_fs s) dir"
  shows "wp (follow_dir_all dir) (\<lambda>r t. os_fs t = os_fs s \<and> (faultless s \<longrightarrow> faultless t \<and> is_ok r)) s"
proof (rule wp_follow_dir_all [where Inv = "\<lambda>_ t. os_fs t = os_fs s \<and> (faultless s \<longrightarrow> faultless t)"], goal_cases)
  case (2 n t)
  have "is_dir (os_fs s) (take (Suc n) dir)"
  proof (cases "Suc n = length dir")
    case False
    then have "Suc n < length dir" using 2 by simp
    moreover have "ent (os_fs s) dir = Some EDir" using d by (simp add: is_dir_def)
    ultimately show ?thesis using fs_wf_ancestor [OF wf] by blast
  qed (use d in simp)
  then have "stat (os_fs s) (take (Suc n) dir) = Inr EDir" "unlinked (os_fs s) (take (Suc n) dir)"
    using unlinked_dir [OF wf] by (simp_all add: is_dir_def)
  then show ?case using 2 by (auto simp: wp_simps follow_unlinked fs_mkdir_def faultless_next split: option.splits)
qed auto

section \<open>One file\<close>

text \<open>A file being written: what is on disk and what is still buffered make up \<open>acc\<close>.\<close>

definition writing :: "path \<Rightarrow> fs \<Rightarrow> 32 word option \<Rightarrow> bytes \<Rightarrow> bytes \<Rightarrow> os_state \<Rightarrow> bool" where
  "writing p fs0 m acc buf s \<longleftrightarrow> within p fs0 (os_fs s)
     \<and> (\<exists>c. ent (os_fs s) p = Some (EFile c m None) \<and> c @ buf = acc)"

lemma within_set_file:
  assumes "within p fs0 fs" "ent fs p = Some (EFile c m t)" "p \<noteq> []"
  shows "within p fs0 (fs_set p (EFile c' m' t') fs)"
proof -
  have "is_dir fs (butlast p)" using fs_wf_parent [OF within_wf [OF assms(1)] assms(2,3)] .
  then have "fs_wf (fs_set p (EFile c' m' t') fs)"
    using fs_wf_set [OF within_wf [OF assms(1)] assms(3)] assms(2) by simp
  then show ?thesis using assms by (auto simp: within_def intro: no_new_links_trans no_new_links_set)
qed

lemma wp_os_write_here:
  assumes "writing p fs0 m acc [] s" "p \<noteq> []"
  shows "wp (os_write_to p p d) (\<lambda>r t. within p fs0 (os_fs t) \<and> (is_ok r \<longrightarrow> writing p fs0 m (acc @ d) [] t)
     \<and> (faultless s \<longrightarrow> faultless t \<and> is_ok r)) s"
proof -
  have e: "within p fs0 (os_fs s)" "ent (os_fs s) p = Some (EFile acc m None)"
    using assms(1) by (auto simp: writing_def)
  then show ?thesis
    using assms(2) within_set_file [OF e assms(2)]
    by (auto simp: wp_os_write_to fs_append_def writing_def faultless_next split: option.splits)
qed

lemma writing_split: "writing p fs0 m acc buf s \<Longrightarrow> \<exists>c. acc = c @ buf \<and> writing p fs0 m c [] s"
  by (auto simp: writing_def)

lemma writing_join: "writing p fs0 m c [] s \<Longrightarrow> writing p fs0 m (c @ buf) buf s"
  by (auto simp: writing_def)

lemma wp_buf_flush:
  assumes "writing p fs0 m acc buf s" "p \<noteq> []"
  shows "wp (buf_flush p p buf) (\<lambda>r t. within p fs0 (os_fs t) \<and> (is_ok r \<longrightarrow> writing p fs0 m acc [] t)
     \<and> (faultless s \<longrightarrow> faultless t \<and> is_ok r)) s"
proof (cases "buf = []")
  case True
  then show ?thesis using assms by (auto simp: buf_flush_def wp_simps writing_def)
next
  case False
  obtain c where c: "acc = c @ buf" "writing p fs0 m c [] s" using writing_split [OF assms(1)] by blast
  show ?thesis using False wp_os_write_here [OF c(2) assms(2), of buf] c(1) by (simp add: buf_flush_def)
qed

lemma wp_buf_write:
  assumes w: "writing p fs0 m acc buf s" and p: "p \<noteq> []"
  shows "wp (buf_write p p buf d) (\<lambda>r t. within p fs0 (os_fs t)
     \<and> (\<forall>buf'. r = Inr buf' \<longrightarrow> writing p fs0 m (acc @ d) buf' t)
     \<and> (faultless s \<longrightarrow> faultless t \<and> is_ok r)) s"
proof -
  let ?Q = "\<lambda>r t. within p fs0 (os_fs t) \<and> (\<forall>buf'. r = Inr buf' \<longrightarrow> writing p fs0 m (acc @ d) buf' t)
     \<and> (faultless s \<longrightarrow> faultless t \<and> is_ok r)"
  have second: "wp (if length d \<ge> BUF_CAPACITY then bnd (os_write_to p p d) (\<lambda>_. ret b) else ret (b @ d)) ?Q t"
    if b: "writing p fs0 m acc b t" "b = [] \<or> length d < BUF_CAPACITY" "faultless s \<longrightarrow> faultless t" for b t
  proof (cases "length d \<ge> BUF_CAPACITY")
    case True
    then have "b = []" using b(2) by simp
    then show ?thesis
      using True b
      by (simp add: wp_bnd, intro wp_mono [OF wp_os_write_here [OF _ p, of fs0 m acc t d]])
        (auto simp: wp_simps split: sum.splits)
  next
    case False
    have "writing p fs0 m (acc @ d) (b @ d) t" using b(1) by (auto simp: writing_def)
    then show ?thesis using False b(1,3) by (auto simp: wp_simps writing_def)
  qed
  show ?thesis
  proof (cases "length buf + length d > BUF_CAPACITY")
    case True
    show ?thesis
      unfolding buf_write_def if_P [OF True]
    proof (rule wp_bndI [where M = "\<lambda>r t. within p fs0 (os_fs t) \<and> (\<forall>b. r = Inr b \<longrightarrow> b = [] \<and> writing p fs0 m acc [] t)
            \<and> (faultless s \<longrightarrow> faultless t \<and> is_ok r)"], goal_cases)
      case 1
      show ?case unfolding wp_bnd
        by (rule wp_mono [OF wp_buf_flush [OF w p]]) (auto simp: wp_ret split: sum.splits)
    next
      case (3 b t)
      then show ?case by (intro second) auto
    qed simp
  next
    case False
    then have "buf = [] \<or> length d < BUF_CAPACITY" by (cases buf) auto
    then show ?thesis unfolding buf_write_def if_not_P [OF False] bnd_ret using second [OF w] by simp
  qed
qed

lemma wp_follow_create:
  assumes wf: "fs_wf (os_fs s)" and d: "is_dir (os_fs s) (butlast p)" and p: "p \<noteq> []" and nl: "\<not> is_link (os_fs s) p"
  shows "wp (os_call p (follow_create p)) (\<lambda>r t. within p (os_fs s) (os_fs t)
     \<and> (\<forall>h. r = Inr h \<longrightarrow> h = p \<and> writing p (os_fs s) (case ent (os_fs s) p of Some (EFile _ m _) \<Rightarrow> m | _ \<Rightarrow> None) [] [] t)
     \<and> (faultless s \<longrightarrow> faultless t \<and> (ent (os_fs s) p = None \<longrightarrow> is_ok r))) s"
proof -
  have st: "stat (os_fs s) p = (case ent (os_fs s) p of None \<Rightarrow> Inl NotFound | Some e \<Rightarrow> Inr e)"
    using stat_under_dir [OF wf d] by (auto split: option.splits)
  have "within p (os_fs s) (fs_set p (EFile [] m None) (os_fs s))" if "ent (os_fs s) p \<noteq> Some EDir" for m
    using fs_wf_set [OF wf p d, of "EFile [] m None"] that p by (auto simp: within_def no_new_links_set)
  then show ?thesis
    using wf d p st within_refl [OF wf]
    by (auto simp: wp_simps follow_unlinked(2) [OF unlinked_below [OF wf d nl]] fs_create_def writing_def faultless_next split: option.splits fs_entry.splits)
qed

text \<open>What a restore may change in the world, and when nothing is going to fail.\<close>

definition restoring :: "('b \<Rightarrow> string \<Rightarrow> bytes option) \<Rightarrow> ('b \<Rightarrow> bool) \<Rightarrow> 'b world \<Rightarrow> 'b world \<Rightarrow> bool" where
  "restoring view good w t \<longleftrightarrow> (\<exists>b n s. t = w\<lparr> w_store := b, w_rng_pos := n, w_os := s \<rparr>)
     \<and> good (w_store t) \<and> view (w_store t) = view (w_store w)"

definition alive :: "('b \<Rightarrow> bool) \<Rightarrow> 'b world \<Rightarrow> bool" where
  "alive ready w \<longleftrightarrow> ready (w_store w) \<and> faultless (w_os w)"

abbreviation wfs :: "'b world \<Rightarrow> fs" where
  "wfs w \<equiv> os_fs (w_os w)"

lemma restoring_refl: "good (w_store w) \<Longrightarrow> restoring view good w w"
  unfolding restoring_def
  by (intro conjI exI [of _ "w_store w"] exI [of _ "w_rng_pos w"] exI [of _ "w_os w"]) auto

lemma restoring_trans: "restoring view good w t \<Longrightarrow> restoring view good t u \<Longrightarrow> restoring view good w u"
proof -
  assume a: "restoring view good w t" "restoring view good t u"
  obtain b n s where u: "u = t\<lparr> w_store := b, w_rng_pos := n, w_os := s \<rparr>" using a(2) by (auto simp: restoring_def)
  then have "u = w\<lparr> w_store := b, w_rng_pos := n, w_os := s \<rparr>" using a(1) by (auto simp: restoring_def)
  then show ?thesis using a by (auto simp: restoring_def)
qed

lemma restoring_os: "good (w_store w) \<Longrightarrow> restoring view good w (w\<lparr> w_os := s \<rparr>)"
  unfolding restoring_def
  by (intro conjI exI [of _ "w_store w"] exI [of _ "w_rng_pos w"] exI [of _ s]) auto

lemma same_store_restoring: "same_store view good w t \<Longrightarrow> restoring view good w t"
proof -
  assume a: "same_store view good w t"
  then obtain b n where "t = w\<lparr> w_store := b, w_rng_pos := n \<rparr>" by (auto simp: same_store_def quiet_def)
  then have "t = w\<lparr> w_store := b, w_rng_pos := n, w_os := w_os w \<rparr>" by simp
  then show ?thesis using a unfolding restoring_def same_store_def by blast
qed

lemma restoring_good: "restoring view good w t \<Longrightarrow> good (w_store t)"
  by (simp add: restoring_def)

lemma restoring_step: "restoring view good w t \<Longrightarrow> restoring view good w (t\<lparr> w_os := s \<rparr>)"
  using restoring_trans restoring_os restoring_good by blast

lemma restoring_view: "restoring view good w t \<Longrightarrow> view (w_store t) = view (w_store w)"
  by (simp add: restoring_def)

definition file_bytes :: "(string \<Rightarrow> bytes option) \<Rightarrow> string list \<Rightarrow> bytes" where
  "file_bytes c hs = concat (map (\<lambda>h. the (c h)) hs)"

definition old_mode :: "fs \<Rightarrow> path \<Rightarrow> 32 word option" where
  "old_mode fs p = (case ent fs p of Some (EFile _ m _) \<Rightarrow> m | _ \<Rightarrow> None)"

context reliable_backend
begin

lemma wp_restore_chunks:
  assumes R: "rp_backend R = B" and w: "good (w_store w)" and p: "p \<noteq> []"
    and wr: "writing p fs0 m [] [] (w_os w)" and rd: "A \<longrightarrow> alive ready w \<and> (\<forall>h\<in>set chunks. hash_name h)"
  shows "wp (fold_io (\<lambda>buf hex.
            bnd (lift_res (blob_key hex)) (\<lambda>key.
            bnd (exists_obj R key) (\<lambda>e.
            if \<not> e then raise (MissingBlob hex)
            else bnd (fetch_blob L R hex) (\<lambda>d. on_os (buf_write p p buf d))))) [] chunks)
    (\<lambda>r t. restoring view good w t \<and> within p fs0 (wfs t)
       \<and> (\<forall>buf. r = Inr buf \<longrightarrow> (\<exists>acc. writing p fs0 m acc buf (w_os t)
            \<and> ((\<forall>h\<in>set chunks. hash_name h) \<longrightarrow> acc = file_bytes (contents L R (view (w_store w))) chunks)))
       \<and> (A \<longrightarrow> alive ready t \<and> ((\<forall>h\<in>set chunks. contents L R (view (w_store w)) h \<noteq> None) \<longrightarrow> is_ok r))) w"
proof -
  let ?c = "contents L R (view (w_store w))"
  define I where "I = (\<lambda>done buf t. restoring view good w t \<and> (A \<longrightarrow> alive ready t)
       \<and> (\<exists>acc. writing p fs0 m acc buf (w_os t) \<and> ((\<forall>h\<in>set done. hash_name h) \<longrightarrow> acc = file_bytes ?c done)))"
  show ?thesis
  proof (rule wp_fold_io [where Inv = I])
    show "I [] [] w" using wr rd w by (auto simp: I_def restoring_refl file_bytes_def)
  next
    fix "done" h rest buf t
    assume split: "chunks = done @ h # rest" and inv: "I done buf t"
    obtain acc where t: "restoring view good w t" "A \<longrightarrow> alive ready t" "writing p fs0 m acc buf (w_os t)"
      "(\<forall>h\<in>set done. hash_name h) \<longrightarrow> acc = file_bytes ?c done"
      using inv by (auto simp: I_def)
    note g = restoring_good [OF t(1)] and v = restoring_view [OF t(1)]
    let ?ok = "\<forall>h\<in>set chunks. ?c h \<noteq> None"
    have hn: "A \<longrightarrow> hash_name h" using rd split by simp
    let ?E = "\<lambda>r u. case r of Inl e \<Rightarrow> restoring view good w u \<and> within p fs0 (wfs u) \<and> (A \<longrightarrow> alive ready u \<and> \<not> ?ok)
        | Inr b \<Rightarrow> I (done @ [h]) b u"
    have wi: "within p fs0 (wfs t)" using t(3) by (simp add: writing_def)
    have here: "within p fs0 (wfs u) \<and> writing p fs0 m acc buf (w_os u) \<and> (A \<longrightarrow> ready (w_store u) \<longrightarrow> alive ready u)
        \<and> restoring view good w u \<and> good (w_store u) \<and> view (w_store u) = view (w_store w)"
      if "same_store view good t u" for u
      using that t wi restoring_trans [OF t(1) same_store_restoring [OF that]] v
      by (auto simp: same_store_os [OF that] alive_def same_store_def)
    have last: "wp (on_os (buf_write p p buf d)) ?E u"
      if u: "same_store view good t u" "A \<longrightarrow> ready (w_store u)" and d: "hash_name h \<longrightarrow> ?c h = Some d" for d u
    proof -
      have wu: "writing p fs0 m acc buf (w_os u)" using here [OF u(1)] by blast
      show ?thesis
        unfolding wp_on_os
      proof (rule wp_mono [OF wp_buf_write [OF wu p, of d]])
        fix r :: "bytes res" and s
        assume q: "within p fs0 (os_fs s) \<and> (\<forall>buf'. r = Inr buf' \<longrightarrow> writing p fs0 m (acc @ d) buf' s)
          \<and> (faultless (w_os u) \<longrightarrow> faultless s \<and> is_ok r)"
        have ru: "restoring view good w (u\<lparr> w_os := s \<rparr>)"
          using restoring_trans [of view good w u] here [OF u(1)] restoring_os by blast
        have al: "A \<longrightarrow> alive ready (u\<lparr> w_os := s \<rparr>) \<and> is_ok r"
          using here [OF u(1)] u(2) q by (auto simp: alive_def)
        have ac: "(\<forall>x\<in>set (done @ [h]). hash_name x) \<longrightarrow> acc @ d = file_bytes ?c (done @ [h])"
          using t(4) d by (simp add: file_bytes_def)
        show "?E r (u\<lparr> w_os := s \<rparr>)"
        proof (cases r)
          case (Inl e)
          then show ?thesis using ru q al by auto
        next
          case (Inr b)
          then have "writing p fs0 m (acc @ d) b s" using q by simp
          then show ?thesis unfolding Inr sum.case I_def using ru al ac Inr by auto
        qed
      qed
    qed
    have "wp (bnd (lift_res (blob_key h)) (\<lambda>key.
            bnd (exists_obj R key) (\<lambda>e.
            if \<not> e then raise (MissingBlob h)
            else bnd (fetch_blob L R h) (\<lambda>d. on_os (buf_write p p buf d))))) ?E t"
    proof (cases "blob_key h")
      case (Inl e)
      then have "\<not> hash_name h" using blob_key_hash by fastforce
      then show ?thesis using Inl t wi hn by (auto simp: wp_simps)
    next
      case (Inr k)
      have k: "hash_name h \<Longrightarrow> k = bkey h" using blob_key_hash [of h] Inr by simp
      have vt: "view (w_store t) = view (w_store w)" by (rule v)
      have ex: "wp (exists_obj R k) (\<lambda>r u. same_store view good t u
          \<and> (hash_name h \<longrightarrow> (\<forall>b. r = Inr b \<longrightarrow> b = (view (w_store w) (bkey h) \<noteq> None)))
          \<and> (A \<longrightarrow> ready (w_store u) \<and> is_ok r)) t"
      proof (cases "hash_name h")
        case True
        then have rk: "repo_key k" using k by simp
        have rt: "A \<longrightarrow> ready (w_store t)" using t(2) by (simp add: alive_def)
        show ?thesis
          by (rule wp_mono [OF wp_exists [OF R g rk]]) (use k True rt vt in auto)
      next
        case False
        then show ?thesis using hn by (auto intro: wp_mono [OF wp_exists_any [OF R g]])
      qed
      show ?thesis
        unfolding Inr lift_res_Inr bnd_ret
      proof (rule wp_bndI [OF ex], goal_cases)
        case (1 e u)
        then show ?case using here [of u] by auto
      next
        case (2 b u)
        then have u: "same_store view good t u" "A \<longrightarrow> ready (w_store u)" by auto
        note hu = here [OF u(1)]
        show ?case
        proof (cases b)
          case False
          then have "hash_name h \<longrightarrow> ?c h = None" using 2 by (auto simp: contents_def)
          then show ?thesis using False hu u(2) hn split by (auto simp: wp_simps)
        next
          case True
          have "wp (bnd (fetch_blob L R h) (\<lambda>d. on_os (buf_write p p buf d))) ?E u"
          proof (rule wp_bndI [OF wp_fetch_blob [OF R]], goal_cases)
            case 1
            show ?case using hu by simp
          next
            case (2 e x)
            then have x: "same_store view good t x" "A \<longrightarrow> ready (w_store x)"
              using same_store_trans [OF u(1)] u(2) by auto
            then show ?case using here [OF x(1)] 2 hu u(2) hn split by auto
          next
            case (3 d x)
            then have x: "same_store view good t x" "A \<longrightarrow> ready (w_store x)"
              using same_store_trans [OF u(1)] u(2) by auto
            show ?case by (rule last [OF x]) (use 3 hu in auto)
          qed
          then show ?thesis using True by simp
        qed
      qed
    qed
    then show "wp (bnd (lift_res (blob_key h)) (\<lambda>key.
            bnd (exists_obj R key) (\<lambda>e.
            if \<not> e then raise (MissingBlob h)
            else bnd (fetch_blob L R h) (\<lambda>d. on_os (buf_write p p buf d)))))
        (\<lambda>r u. case r of
           Inl e \<Rightarrow> (restoring view good w u \<and> within p fs0 (wfs u)
             \<and> (\<forall>buf. Inl e = Inr buf \<longrightarrow> (\<exists>acc. writing p fs0 m acc buf (w_os u)
                \<and> ((\<forall>h\<in>set chunks. hash_name h) \<longrightarrow> acc = file_bytes ?c chunks)))
             \<and> (A \<longrightarrow> alive ready u \<and> ((\<forall>h\<in>set chunks. ?c h \<noteq> None) \<longrightarrow> is_ok (Inl e :: bytes res))))
         | Inr b \<Rightarrow> I (done @ [h]) b u) t"
      by (rule wp_mono) (auto split: sum.splits)
  next
    fix buf t
    assume "I chunks buf t"
    then show "restoring view good w t \<and> within p fs0 (wfs t)
       \<and> (\<forall>buf'. Inr buf = Inr buf' \<longrightarrow> (\<exists>acc. writing p fs0 m acc buf' (w_os t)
            \<and> ((\<forall>h\<in>set chunks. hash_name h) \<longrightarrow> acc = file_bytes ?c chunks)))
       \<and> (A \<longrightarrow> alive ready t \<and> ((\<forall>h\<in>set chunks. ?c h \<noteq> None) \<longrightarrow> is_ok (Inr buf :: bytes res)))"
      by (auto simp: I_def writing_def)
  qed
qed

lemma wp_restore_file:
  assumes R: "rp_backend R = B" and w: "good (w_store w)" and wf: "fs_wf (wfs w)" and d: "is_dir (wfs w) dir"
    and nl: "\<not> is_link (wfs w) (dir @ [n])" and A: "A \<longrightarrow> alive ready w \<and> (\<forall>h\<in>set chunks. hash_name h)"
  shows "wp (restore_file L R (dir @ [n]) chunks)
    (\<lambda>r t. restoring view good w t \<and> within (dir @ [n]) (wfs w) (wfs t)
       \<and> (is_ok r \<longrightarrow> (\<exists>c. ent (wfs t) (dir @ [n]) = Some (EFile c (old_mode (wfs w) (dir @ [n])) None)
            \<and> ((\<forall>h\<in>set chunks. hash_name h) \<longrightarrow> c = file_bytes (contents L R (view (w_store w))) chunks)))
       \<and> (A \<longrightarrow> alive ready t \<and> ((\<forall>h\<in>set chunks. contents L R (view (w_store w)) h \<noteq> None)
            \<and> ent (wfs w) (dir @ [n]) = None \<longrightarrow> is_ok r))) w"
    (is "wp _ ?Q w")
proof -
  let ?p = "dir @ [n]" and ?c = "contents L R (view (w_store w))"
  let ?m = "old_mode (wfs w) ?p"
  have flush: "wp (on_os (buf_flush ?p ?p buf)) ?Q t"
    if t: "restoring view good w t" "writing ?p (wfs w) ?m acc buf (w_os t)"
      "(\<forall>h\<in>set chunks. hash_name h) \<longrightarrow> acc = file_bytes ?c chunks" "A \<longrightarrow> alive ready t" for buf t acc
    unfolding wp_on_os
    by (rule wp_mono [OF wp_buf_flush [OF t(2)]])
      (use t in \<open>auto simp: writing_def alive_def intro: restoring_step\<close>)
  let ?loop = "\<lambda>h. fold_io (\<lambda>buf hex.
            bnd (lift_res (blob_key hex)) (\<lambda>key.
            bnd (exists_obj R key) (\<lambda>e.
            if \<not> e then raise (MissingBlob hex)
            else bnd (fetch_blob L R hex) (\<lambda>d. on_os (buf_write ?p h buf d))))) [] chunks"
  let ?create = "bnd (on_os (os_call ?p (follow_create ?p))) (\<lambda>h. bnd (?loop h) (\<lambda>buf. on_os (buf_flush ?p h buf)))"
  have rest: "wp (bnd (?loop ?p) (\<lambda>buf. on_os (buf_flush ?p ?p buf))) ?Q t"
    if t: "restoring view good w t" "writing ?p (wfs w) ?m [] [] (w_os t)" "A \<longrightarrow> alive ready t" for t
  proof (rule wp_bndI [OF wp_restore_chunks [OF R restoring_good [OF t(1)] _ t(2)], where A1 = A], goal_cases)
    case (3 e u)
    then show ?case using restoring_trans [OF t(1)] restoring_view [OF t(1)] by auto
  next
    case (4 buf u)
    then obtain acc where "writing ?p (wfs w) ?m acc buf (w_os u)"
      "(\<forall>h\<in>set chunks. hash_name h) \<longrightarrow> acc = file_bytes ?c chunks"
      using restoring_view [OF t(1)] by auto
    then show ?case using flush [of u acc buf] restoring_trans [OF t(1)] 4 by blast
  qed (use t A in auto)
  have create: "wp (?create) ?Q t"
    if t: "restoring view good w t" "wfs t = wfs w" "A \<longrightarrow> alive ready t" for t
    unfolding wp_bnd [of "on_os _"] wp_on_os
  proof (rule wp_mono [OF wp_follow_create], goal_cases)
    case (5 r s)
    have g: "restoring view good w (t\<lparr> w_os := s \<rparr>)"
      by (rule restoring_step [OF t(1)])
    have al: "A \<longrightarrow> alive ready (t\<lparr> w_os := s \<rparr>)" using t(3) 5 by (auto simp: alive_def)
    show ?case
    proof (cases r)
      case (Inl e)
      then show ?thesis using 5 g al t A by (auto simp: alive_def)
    next
      case (Inr h)
      then have "writing ?p (wfs w) ?m [] [] s" "h = ?p" using 5 t(2) by (simp_all add: old_mode_def)
      then show ?thesis unfolding Inr sum.case by (simp only:, intro rest) (use g al in auto)
    qed
  qed (use t wf d nl in auto)
  have eq: "restore_file L R ?p chunks = bnd (on_os (follow_dir_all dir)) (\<lambda>_.
      ?create)"
    by (simp add: restore_file_def)
  show ?thesis
    unfolding eq wp_bnd [of "on_os (follow_dir_all dir)"] wp_on_os
  proof (rule wp_mono [OF wp_create_existing [OF wf d]])
    fix r :: "unit res" and s
    assume q: "os_fs s = wfs w \<and> (faultless (w_os w) \<longrightarrow> faultless s \<and> is_ok r)"
    have g: "restoring view good w (w\<lparr> w_os := s \<rparr>)" by (rule restoring_os [where good = good and w = w, OF w])
    have al: "A \<longrightarrow> alive ready (w\<lparr> w_os := s \<rparr>) \<and> is_ok r" using A q by (auto simp: alive_def)
    show "case r of Inl e \<Rightarrow> ?Q (Inl e) (w\<lparr> w_os := s \<rparr>)
        | Inr _ \<Rightarrow> wp (?create) ?Q (w\<lparr> w_os := s \<rparr>)"
    proof (cases r)
      case (Inl e)
      then show ?thesis using g al q within_refl [OF wf] by auto
    next
      case (Inr u)
      then show ?thesis unfolding Inr sum.case by (intro create) (use g al q in auto)
    qed
  qed
qed

end

section \<open>Mode and modification time\<close>

definition restored_mode :: "32 word option \<Rightarrow> 32 word option \<Rightarrow> 32 word option" where
  "restored_mode m mode = (case mode of None \<Rightarrow> m | Some x \<Rightarrow> if and x 0xFFF = 0 then m else Some (and x 0xFFF))"

definition restored_mtime :: "int option \<Rightarrow> int option \<Rightarrow> int option" where
  "restored_mtime t mtime = (case mtime of None \<Rightarrow> t | Some x \<Rightarrow> Some x)"

context reliable_backend
begin

lemma wp_restore_mode:
  assumes "within p fs0 (wfs w)" "ent (wfs w) p = Some (EFile c m t)" "p \<noteq> []" "good (w_store w)"
  shows "wp (restore_mode p mode) (\<lambda>r u. restoring view good w u \<and> within p fs0 (wfs u)
     \<and> (is_ok r \<longrightarrow> ent (wfs u) p = Some (EFile c (restored_mode m mode) t))
     \<and> (alive ready w \<longrightarrow> alive ready u \<and> is_ok r)) w"
proof -
  have here: "unlinked (wfs w) p"
    using unlinked_entry [OF within_wf [OF assms(1)] assms(2)] by (simp add: is_link_ent assms(2))
  show ?thesis
    using assms within_set_file [OF assms(1-3)]
    by (auto simp: restore_mode_def wp_simps restored_mode_def restoring_refl alive_def faultless_next follow_unlinked [OF here] fs_chmod_def
        intro: restoring_os split: option.splits)
qed

lemma wp_restore_mtime:
  assumes "within p fs0 (wfs w)" "ent (wfs w) p = Some (EFile c m t)" "p \<noteq> []" "good (w_store w)"
  shows "wp (restore_mtime p mtime) (\<lambda>r u. restoring view good w u \<and> within p fs0 (wfs u) \<and> is_ok r
     \<and> (\<exists>t'. ent (wfs u) p = Some (EFile c m t')
          \<and> (t' = restored_mtime t mtime \<or> t' = t \<and> \<not> faultless (w_os w)))
     \<and> (alive ready w \<longrightarrow> alive ready u)) w"
proof -
  have here: "unlinked (wfs w) p"
    using unlinked_entry [OF within_wf [OF assms(1)] assms(2)] by (simp add: is_link_ent assms(2))
  show ?thesis
    using assms within_set_file [OF assms(1-3)]
    by (auto simp: restore_mtime_def wp_simps restored_mtime_def restoring_refl alive_def faultless_next follow_unlinked [OF here] fs_set_mtime_def
        intro: restoring_os split: option.splits)
qed

end

lemma safe_join_name: "safe_name n \<Longrightarrow> safe_join dir n = Inr (dir @ [n])"
  by (simp add: safe_join_def safe_name_def split_on_id join_seg_def)

section \<open>A whole tree\<close>

text \<open>
  What a tree puts below a directory: a partial map from relative paths to entries. An
  entry on disk agrees with it up to the modification time, which a restore sets at best
  effort; \<open>exact\<close> asks for the time as well.
\<close>

fun tree_ent :: "(string \<Rightarrow> bytes option) \<Rightarrow> node \<Rightarrow> path \<Rightarrow> fs_entry option" where
  "tree_ent c (File n s mode mtime hs) p =
     (if p = [n] then Some (EFile (file_bytes c hs) (restored_mode None mode) mtime) else None)"
| "tree_ent c (Dir n cs) p =
     (case p of
        [] \<Rightarrow> None
      | x # q \<Rightarrow> if x \<noteq> n then None else if q = [] then Some EDir
                else (case find (\<lambda>k. name k = hd q) cs of None \<Rightarrow> None | Some k \<Rightarrow> tree_ent c k q))"
| "tree_ent c (Ref n h) p = None"

fun entry_agrees :: "bool \<Rightarrow> fs_entry option \<Rightarrow> fs_entry option \<Rightarrow> bool" where
  "entry_agrees exact (Some (EFile d m t)) (Some (EFile d' m' t')) \<longleftrightarrow> d = d' \<and> m = m' \<and> (exact \<longrightarrow> t = t')"
| "entry_agrees exact e e' \<longleftrightarrow> e = e'"

definition holds_tree :: "bool \<Rightarrow> (string \<Rightarrow> bytes option) \<Rightarrow> fs \<Rightarrow> path \<Rightarrow> node \<Rightarrow> bool" where
  "holds_tree exact c fs dir n \<longleftrightarrow>
     (\<forall>q. entry_agrees exact (ent fs (dir @ name n # q)) (tree_ent c n (name n # q)))"

fun distinct_names :: "node \<Rightarrow> bool" where
  "distinct_names (Dir n cs) \<longleftrightarrow> distinct (map name cs) \<and> (\<forall>c\<in>set cs. distinct_names c)"
| "distinct_names _ \<longleftrightarrow> True"

lemma entry_agrees_refl [simp]: "entry_agrees exact e e"
  by (cases e; cases "the e") auto

lemma entry_agrees_weaken: "entry_agrees x e e' \<Longrightarrow> (y \<longrightarrow> x) \<Longrightarrow> entry_agrees y e e'"
  by (cases "(x, e, e')" rule: entry_agrees.cases) auto

lemma tree_ent_root: "p \<noteq> [] \<Longrightarrow> hd p \<noteq> name n \<Longrightarrow> tree_ent c n p = None"
  by (cases n) (auto split: list.splits)

lemma find_name: "distinct (map name cs) \<Longrightarrow> k \<in> set cs \<Longrightarrow> find (\<lambda>x. name x = name k) cs = Some k"
  by (induction cs) auto

lemma find_name_None: "x \<notin> name ` set cs \<Longrightarrow> find (\<lambda>k. name k = x) cs = None"
  by (auto simp: find_None_iff)

section \<open>A restore stays inside its directory\<close>

context reliable_backend
begin

lemma wp_restore_file_node:
  assumes R: "rp_backend R = B" and w: "good (w_store w)" and wf: "fs_wf (wfs w)" and d: "is_dir (wfs w) dir"
    and nl: "\<not> is_link (wfs w) (dir @ [n])" and A: "A \<longrightarrow> alive ready w \<and> (\<forall>h\<in>set chunks. hash_name h)"
  shows "wp (bnd (restore_file L R (dir @ [n]) chunks) (\<lambda>_. bnd (restore_mode (dir @ [n]) mode) (\<lambda>_. restore_mtime (dir @ [n]) mtime)))
    (\<lambda>r t. restoring view good w t \<and> within (dir @ [n]) (wfs w) (wfs t)
       \<and> (is_ok r \<longrightarrow> (\<exists>c t'. ent (wfs t) (dir @ [n]) = Some (EFile c (restored_mode (old_mode (wfs w) (dir @ [n])) mode) t')
            \<and> ((\<forall>h\<in>set chunks. hash_name h) \<longrightarrow> c = file_bytes (contents L R (view (w_store w))) chunks)
            \<and> (A \<longrightarrow> t' = mtime)))
       \<and> (A \<longrightarrow> alive ready t \<and> ((\<forall>h\<in>set chunks. contents L R (view (w_store w)) h \<noteq> None)
            \<and> ent (wfs w) (dir @ [n]) = None \<longrightarrow> is_ok r))) w"
    (is "wp _ ?Q w")
proof (rule wp_bndI [OF wp_restore_file [OF R w wf d nl A]], goal_cases)
  case (1 e t)
  then show ?case by auto
next
  case (2 a t)
  let ?p = "dir @ [n]"
  obtain c where c: "ent (wfs t) ?p = Some (EFile c (old_mode (wfs w) ?p) None)"
      "(\<forall>h\<in>set chunks. hash_name h) \<longrightarrow> c = file_bytes (contents L R (view (w_store w))) chunks"
    and t: "restoring view good w t" "within ?p (wfs w) (wfs t)" "A \<longrightarrow> alive ready t"
    using 2 by auto
  show ?case
  proof (rule wp_bndI [OF wp_restore_mode [OF t(2) c(1) _ restoring_good [OF t(1)]]], goal_cases)
    case (2 e u)
    then show ?case using t(3) restoring_trans [OF t(1)] by auto
  next
    case (3 a u)
    then have u: "restoring view good w u" "within ?p (wfs w) (wfs u)" "A \<longrightarrow> alive ready u"
      "ent (wfs u) ?p = Some (EFile c (restored_mode (old_mode (wfs w) ?p) mode) None)"
      using t(3) restoring_trans [OF t(1)] by auto
    show ?case
    proof (rule wp_mono [OF wp_restore_mtime [OF u(2,4) _ restoring_good [OF u(1)]]], simp)
      fix r :: "unit res" and v
      assume q: "restoring view good u v \<and> within ?p (wfs w) (wfs v) \<and> is_ok r
        \<and> (\<exists>t'. ent (wfs v) ?p = Some (EFile c (restored_mode (old_mode (wfs w) ?p) mode) t')
             \<and> (t' = restored_mtime None mtime \<or> t' = None \<and> \<not> faultless (w_os u)))
        \<and> (alive ready u \<longrightarrow> alive ready v)"
      have "restored_mtime None mtime = mtime" by (cases mtime) (auto simp: restored_mtime_def)
      then show "?Q r v"
        using q u(1,3) c(2) restoring_trans [OF u(1)] by (auto simp: alive_def)
    qed
  qed simp
qed

lemma wp_restore_confined:
  "\<lbrakk> rp_backend R = B; good (w_store w); fs_wf (wfs w); is_dir (wfs w) dir; linkless (wfs w) dir \<rbrakk> \<Longrightarrow>
    wp (restore_node L R fuel nd dir) (\<lambda>r t. restoring view good w t \<and> strictly_within dir (wfs w) (wfs t)) w"
proof (induction L R fuel nd dir arbitrary: w rule: restore_node.induct [case_names File Dir Ref])
  case (File L R fuel n s mode mtime chunks dir)
  show ?case
  proof (cases "validate (File n s mode mtime chunks)")
    case (Inl e)
    then show ?thesis using File by (simp add: wp_simps restoring_refl strictly_refl)
  next
    case (Inr u)
    then have j: "safe_join dir n = Inr (dir @ [n])" using safe_join_name by simp
    show ?thesis
      unfolding restore_node.simps Inr lift_res_Inr bnd_ret j
      by (rule wp_mono [OF wp_restore_file_node [where A = False, OF File(1-4) linkless_child [OF File(5)]]]) (auto intro: within_child)
  qed
next
  case (Dir L R fuel n cs dir)
  show ?case
  proof (cases "validate (Dir n cs)")
    case (Inl e)
    then show ?thesis using Dir.prems by (simp add: wp_simps restoring_refl strictly_refl)
  next
    case (Inr u)
    then have j: "safe_join dir n = Inr (dir @ [n])" using safe_join_name validate_name [of "Dir n cs"] by simp
    have loop: "wp (for_io (\<lambda>c. restore_node L R fuel c (dir @ [n])) cs)
        (\<lambda>r t. restoring view good w t \<and> strictly_within dir (wfs w) (wfs t)) t"
      if t: "restoring view good w t" "within (dir @ [n]) (wfs w) (wfs t)" "is_dir (wfs t) (dir @ [n])" for t
    proof -
      have "wp (for_io (\<lambda>c. restore_node L R fuel c (dir @ [n])) cs)
          (\<lambda>r t. restoring view good w t \<and> within (dir @ [n]) (wfs w) (wfs t) \<and> is_dir (wfs t) (dir @ [n])) t"
      proof (rule wp_for_io_inv)
        fix c u
        assume c: "c \<in> set cs" and u: "restoring view good w u \<and> within (dir @ [n]) (wfs w) (wfs u) \<and> is_dir (wfs u) (dir @ [n])"
        have g: "good (w_store u)" "fs_wf (wfs u)" "is_dir (wfs u) (dir @ [n])" "linkless (wfs u) (dir @ [n])"
          using u linkless_below [OF linkless_kept [OF Dir.prems(5)]] by (auto simp: restoring_def within_def)
        show "wp (restore_node L R fuel c (dir @ [n]))
            (\<lambda>r t. restoring view good w t \<and> within (dir @ [n]) (wfs w) (wfs t) \<and> is_dir (wfs t) (dir @ [n])) u"
          by (rule wp_mono [OF Dir.IH [OF c Dir.prems(1) g]])
            (use u g in \<open>auto intro: restoring_trans within_trans strictly_within strictly_dir\<close>)
      qed (use t in simp)
      then show ?thesis by (rule wp_mono) (auto intro: within_child)
    qed
    show ?thesis
      unfolding restore_node.simps Inr lift_res_Inr bnd_ret j wp_bnd wp_on_os
      by (rule wp_mono [OF wp_create_here [OF Dir.prems(3,4) linkless_child [OF Dir.prems(5), of n]]])
        (auto split: sum.splits intro!: loop intro: restoring_step [OF restoring_refl] within_child simp: Dir.prems(2))
  qed
next
  case (Ref L R fuel n h dir)
  show ?case
  proof (cases "validate (Ref n h)")
    case (Inl e)
    then show ?thesis using Ref.prems by (simp add: wp_simps restoring_refl strictly_refl)
  next
    case (Inr u)
    show ?thesis
    proof (cases fuel)
      case 0
      then show ?thesis using Inr Ref.prems by (simp add: wp_simps restoring_refl strictly_refl)
    next
      case (Suc f)
      show ?thesis
        unfolding restore_node.simps Inr lift_res_Inr bnd_ret Suc nat.case
      proof (rule wp_bndI [OF wp_fetch_node [OF Ref.prems(1,2)]], goal_cases)
        case (1 e t)
        then show ?case using Ref.prems by (auto simp: same_store_restoring same_store_os strictly_refl)
      next
        case (2 inner t)
        then have s: "same_store view good w t" by blast
        show ?case
          by (rule wp_mono [OF Ref.IH [OF Suc]])
            (use s Ref.prems in \<open>auto simp: same_store_os same_store_good intro: restoring_trans [OF same_store_restoring]\<close>)
      qed
    qed
  qed
qed

end

section \<open>A restore that returns has written the tree\<close>

lemma file_bytes_cong: "(\<And>h. h \<in> set hs \<Longrightarrow> c h = d h) \<Longrightarrow> file_bytes c hs = file_bytes d hs"
  by (simp add: file_bytes_def cong: map_cong)

lemma absent_below:
  assumes "fs_wf fs" "ent fs p = None"
  shows "ent fs (p @ q) = None"
proof (rule ccontr)
  assume "ent fs (p @ q) \<noteq> None"
  then obtain e where e: "ent fs (p @ q) = Some e" by blast
  have "q \<noteq> []" using e assms(2) by (cases q) auto
  then have "is_dir fs (take (length p) (p @ q))" using fs_wf_ancestor [OF assms(1) e, of "length p"] by simp
  then show False using assms(2) by (simp add: is_dir_def)
qed

lemma resolves_name_Dir: "resolves f (Dir n cs) full \<Longrightarrow> \<exists>ds. full = Dir n ds \<and> list_all2 (resolves f) cs ds"
  by (auto elim: resolves_DirE)

lemma resolves_not_Ref: "resolves f stored full \<Longrightarrow> \<not> is_ref full"
  by (induction rule: resolves.induct) auto

definition fuel_for :: "node \<Rightarrow> node \<Rightarrow> nat \<Rightarrow> bool" where
  "fuel_for stored full fuel \<longleftrightarrow> (if is_ref stored then node_height full < fuel else node_height full \<le> fuel)"

lemma fuel_for_enough: "node_height full < fuel \<Longrightarrow> fuel_for stored full fuel"
  by (simp add: fuel_for_def)

lemma holds_tree_kept:
  assumes "holds_tree x c fs dir n" "within (dir @ [m]) fs fs'" "m \<noteq> name n"
  shows "holds_tree x c fs' dir n"
proof -
  have "\<not> prefix (dir @ [m]) (dir @ name n # q)" for q using assms(3) by (auto simp: prefix_def)
  then show ?thesis using assms(1,2) by (simp add: holds_tree_def within_def)
qed

text \<open>The directory case: all children are there, and nothing else.\<close>

lemma holds_tree_Dir:
  assumes "distinct (map name ds)"
    and "ent fs (dir @ [n]) = Some EDir"
    and "\<forall>d\<in>set ds. holds_tree x c fs (dir @ [n]) d"
    and "\<forall>y q. y \<notin> name ` set ds \<longrightarrow> ent fs (dir @ n # y # q) = None"
  shows "holds_tree x c fs dir (Dir n ds)"
  unfolding holds_tree_def
proof
  fix q
  show "entry_agrees x (ent fs (dir @ name (Dir n ds) # q)) (tree_ent c (Dir n ds) (name (Dir n ds) # q))"
  proof (cases q)
    case Nil
    then show ?thesis using assms(2) by simp
  next
    case (Cons y r)
    show ?thesis
    proof (cases "y \<in> name ` set ds")
      case False
      then show ?thesis using assms(4) Cons by (simp add: find_name_None)
    next
      case True
      then obtain d where d: "d \<in> set ds" "name d = y" by blast
      then have "find (\<lambda>k. name k = y) ds = Some d" using find_name [OF assms(1)] by auto
      then show ?thesis using assms(3) d Cons by (auto simp: holds_tree_def)
    qed
  qed
qed

definition restored_post ::
  "('b \<Rightarrow> string \<Rightarrow> bytes option) \<Rightarrow> ('b \<Rightarrow> bool) \<Rightarrow> ('b \<Rightarrow> bool) \<Rightarrow> bool \<Rightarrow> (string \<Rightarrow> bytes option)
    \<Rightarrow> path \<Rightarrow> node \<Rightarrow> 'b world \<Rightarrow> unit res \<Rightarrow> 'b world \<Rightarrow> bool" where
  "restored_post view good ready A c dir full w r t \<longleftrightarrow> restoring view good w t
     \<and> within (dir @ [name full]) (wfs w) (wfs t)
     \<and> (is_ok r \<longrightarrow> holds_tree A c (wfs t) dir full)
     \<and> (A \<longrightarrow> alive ready t \<and> ((\<forall>h\<in>set (chunks_of full). c h \<noteq> None) \<longrightarrow> is_ok r))"

text \<open>
  The children of a directory, restored one after the other below \<open>here\<close>: every one is
  there, nothing else is.
\<close>

definition children_restored ::
  "('b \<Rightarrow> string \<Rightarrow> bytes option) \<Rightarrow> ('b \<Rightarrow> bool) \<Rightarrow> ('b \<Rightarrow> bool) \<Rightarrow> bool \<Rightarrow> (string \<Rightarrow> bytes option)
    \<Rightarrow> path \<Rightarrow> node list \<Rightarrow> 'b world \<Rightarrow> 'b world \<Rightarrow> bool" where
  "children_restored view good ready A c here ds w t \<longleftrightarrow> restoring view good w t
     \<and> strictly_within here (wfs w) (wfs t) \<and> (A \<longrightarrow> alive ready t)
     \<and> (\<forall>d\<in>set ds. holds_tree A c (wfs t) here d)
     \<and> (\<forall>y q. y \<notin> name ` set ds \<longrightarrow> ent (wfs t) (here @ y # q) = None)"

context reliable_backend
begin

lemma wp_restore_children:
  assumes w: "good (w_store w)" "fs_wf (wfs w)" "is_dir (wfs w) here" "A \<longrightarrow> alive ready w"
    and rs: "list_all2 (resolves (lookup L R (view (w_store w)))) cs ds"
    and v: "\<forall>c\<in>set cs. validate c = Inr ()" and fu: "\<forall>d\<in>set ds. node_height d < fuel"
    and dn: "distinct (map name ds)" "\<forall>d\<in>set ds. distinct_names d"
    and hn: "\<forall>d\<in>set ds. \<forall>h\<in>set (chunks_of d). hash_name h"
    and fresh: "\<forall>y q. ent (wfs w) (here @ y # q) = None"
    and step: "\<And>c d u. \<lbrakk> c \<in> set cs; good (w_store u); fs_wf (wfs u); is_dir (wfs u) here;
       resolves (lookup L R (view (w_store u))) c d; validate c = Inr (); fuel_for c d fuel; distinct_names d;
       \<forall>h\<in>set (chunks_of d). hash_name h; ent (wfs u) (here @ [name d]) = None; A \<longrightarrow> alive ready u \<rbrakk> \<Longrightarrow>
     wp (restore_node L R fuel c here) (restored_post view good ready A (contents L R (view (w_store u))) here d u) u"
  shows "wp (for_io (\<lambda>c. restore_node L R fuel c here) cs) (\<lambda>r t. restoring view good w t
     \<and> strictly_within here (wfs w) (wfs t)
     \<and> (is_ok r \<longrightarrow> children_restored view good ready A (contents L R (view (w_store w))) here ds w t)
     \<and> (A \<longrightarrow> alive ready t \<and>
          ((\<forall>d\<in>set ds. \<forall>h\<in>set (chunks_of d). contents L R (view (w_store w)) h \<noteq> None) \<longrightarrow> is_ok r))) w"
proof -
  let ?c = "contents L R (view (w_store w))"
  have len: "length cs = length ds" using rs by (rule list_all2_lengthD)
  define Inv where "Inv = (\<lambda>(done :: node list) t.
     children_restored view good ready A ?c here (take (length done) ds) w t)"
  show ?thesis
  proof (rule wp_for_io [where Inv = Inv])
    show "Inv [] w" using w fresh by (simp add: Inv_def children_restored_def restoring_refl strictly_refl)
  next
    fix "done" c rest u
    assume sp: "cs = done @ c # rest" and I: "Inv done u"
    let ?k = "length done"
    have k: "?k < length ds" using sp len by simp
    let ?d = "ds ! ?k"
    have u: "restoring view good w u" "strictly_within here (wfs w) (wfs u)" "A \<longrightarrow> alive ready u"
      "\<forall>d\<in>set (take ?k ds). holds_tree A ?c (wfs u) here d"
      "\<forall>y q. y \<notin> name ` set (take ?k ds) \<longrightarrow> ent (wfs u) (here @ y # q) = None"
      using I by (auto simp: Inv_def children_restored_def)
    have vw: "view (w_store u) = view (w_store w)" by (rule restoring_view [OF u(1)])
    have inD: "?d \<in> set ds" and cin: "c \<in> set cs" using k sp by simp_all
    have newname: "name ?d \<notin> name ` set (take ?k ds)"
    proof -
      have "distinct (map name (take ?k ds @ ?d # drop (Suc ?k) ds))" using dn(1) k by (simp add: id_take_nth_drop [symmetric])
      then show ?thesis by auto
    qed
    have res: "resolves (lookup L R (view (w_store u))) c ?d"
      using list_all2_nthD2 [OF rs k] sp vw by simp
    have pre: "good (w_store u)" "fs_wf (wfs u)" "is_dir (wfs u) here"
      using restoring_good [OF u(1)] strictly_wf [OF u(2)] strictly_dir [OF u(2) w(3)] by auto
    have fr: "ent (wfs u) (here @ [name ?d]) = None" using u(5) newname by simp
    show "wp (restore_node L R fuel c here)
       (\<lambda>r x. case r of
           Inl e \<Rightarrow> restoring view good w x \<and> strictly_within here (wfs w) (wfs x)
             \<and> (is_ok (Inl e :: unit res) \<longrightarrow> children_restored view good ready A ?c here ds w x)
             \<and> (A \<longrightarrow> alive ready x \<and> ((\<forall>d\<in>set ds. \<forall>h\<in>set (chunks_of d). ?c h \<noteq> None) \<longrightarrow> is_ok (Inl e :: unit res)))
         | Inr b \<Rightarrow> Inv (done @ [c]) x) u"
    proof (rule wp_mono [OF step [OF cin pre res]])
      show "validate c = Inr ()" "fuel_for c ?d fuel" "distinct_names ?d" "\<forall>h\<in>set (chunks_of ?d). hash_name h"
        using v cin fu dn(2) hn inD fuel_for_enough by auto
    next
      fix r :: "unit res" and x
      assume "restored_post view good ready A (contents L R (view (w_store u))) here ?d u r x"
      then have p: "restoring view good u x" "within (here @ [name ?d]) (wfs u) (wfs x)"
        "is_ok r \<longrightarrow> holds_tree A ?c (wfs x) here ?d"
        "A \<longrightarrow> alive ready x \<and> ((\<forall>h\<in>set (chunks_of ?d). ?c h \<noteq> None) \<longrightarrow> is_ok r)"
        by (auto simp: restored_post_def vw)
      have rw: "restoring view good w x" by (rule restoring_trans [OF u(1) p(1)])
      have wi: "strictly_within here (wfs w) (wfs x)"
        by (rule strictly_trans [OF u(2)], rule within_child, rule p(2))
      show "case r of
           Inl e \<Rightarrow> restoring view good w x \<and> strictly_within here (wfs w) (wfs x)
             \<and> (is_ok (Inl e :: unit res) \<longrightarrow> children_restored view good ready A ?c here ds w x)
             \<and> (A \<longrightarrow> alive ready x \<and> ((\<forall>d\<in>set ds. \<forall>h\<in>set (chunks_of d). ?c h \<noteq> None) \<longrightarrow> is_ok (Inl e :: unit res)))
         | Inr b \<Rightarrow> Inv (done @ [c]) x"
      proof (cases r)
        case (Inl e)
        then show ?thesis using rw wi p(4) inD by auto
      next
        case (Inr b)
        have keep: "\<forall>y q. y \<noteq> name ?d \<longrightarrow> ent (wfs x) (here @ y # q) = ent (wfs u) (here @ y # q)"
          using p(2) by (auto simp: within_def prefix_def)
        have tk: "take (Suc ?k) ds = take ?k ds @ [?d]" by (rule take_Suc_conv_app_nth [OF k])
        have old: "holds_tree A ?c (wfs x) here d" if "d \<in> set (take ?k ds)" for d
          by (rule holds_tree_kept [OF _ p(2)]) (use u(4) that newname in auto)
        show ?thesis
          using Inr rw wi keep p(3,4) old u(5) tk by (auto simp: Inv_def children_restored_def)
      qed
    qed (use fr u(3) in auto)
  next
    fix u
    assume "Inv cs u"
    then show "restoring view good w u \<and> strictly_within here (wfs w) (wfs u)
       \<and> (is_ok (Inr () :: unit res) \<longrightarrow> children_restored view good ready A ?c here ds w u)
       \<and> (A \<longrightarrow> alive ready u \<and> ((\<forall>d\<in>set ds. \<forall>h\<in>set (chunks_of d). ?c h \<noteq> None) \<longrightarrow> is_ok (Inr () :: unit res)))"
      by (simp add: Inv_def len children_restored_def)
  qed
qed

lemma wp_restore_node:
  "\<lbrakk> rp_backend R = B; good (w_store w); fs_wf (wfs w); is_dir (wfs w) dir;
     resolves (lookup L R (view (w_store w))) nd full; validate nd = Inr (); fuel_for nd full fuel;
     distinct_names full; \<forall>h\<in>set (chunks_of full). hash_name h;
     ent (wfs w) (dir @ [name full]) = None; A \<longrightarrow> alive ready w \<rbrakk> \<Longrightarrow>
   wp (restore_node L R fuel nd dir)
     (restored_post view good ready A (contents L R (view (w_store w))) dir full w) w"
proof (induction L R fuel nd dir arbitrary: w full rule: restore_node.induct [case_names File Dir Ref])
  case (File L R fuel n s mode mtime chunks dir)
  have full: "full = File n s mode mtime chunks" using File.prems(5) by (auto elim: resolves_FileE)
  have v: "validate (File n s mode mtime chunks) = Inr ()" by (rule File.prems(6))
  then have j: "safe_join dir n = Inr (dir @ [n])" using safe_join_name by simp
  let ?c = "contents L R (view (w_store w))"
  have A: "A \<longrightarrow> alive ready w \<and> (\<forall>h\<in>set chunks. hash_name h)" using File.prems(9,11) full by simp
  have fresh: "ent (wfs w) (dir @ [n]) = None" using File.prems(10) full by simp
  then have nl: "\<not> is_link (wfs w) (dir @ [n])" by (simp add: is_link_def)
  have none: "ent (wfs t) (dir @ n # y # q) = None" if "within (dir @ [n]) (wfs w) (wfs t)" "ent (wfs t) (dir @ [n]) = Some (EFile d m x)" for t y q d m x
  proof (rule ccontr)
    assume "ent (wfs t) (dir @ n # y # q) \<noteq> None"
    then obtain e where "ent (wfs t) (dir @ n # y # q) = Some e" by blast
    then have "is_dir (wfs t) (take (Suc (length dir)) (dir @ n # y # q))"
      by (rule fs_wf_ancestor [OF within_wf [OF that(1)]]) simp
    then show False using that(2) by (simp add: is_dir_def)
  qed
  show ?case
    unfolding restore_node.simps v lift_res_Inr bnd_ret j
  proof (rule wp_mono [OF wp_restore_file_node [OF File.prems(1-4) nl A]])
    fix r :: "unit res" and t
    assume q: "restoring view good w t \<and> within (dir @ [n]) (wfs w) (wfs t)
       \<and> (is_ok r \<longrightarrow> (\<exists>c t'. ent (wfs t) (dir @ [n]) = Some (EFile c (restored_mode (old_mode (wfs w) (dir @ [n])) mode) t')
            \<and> ((\<forall>h\<in>set chunks. hash_name h) \<longrightarrow> c = file_bytes ?c chunks) \<and> (A \<longrightarrow> t' = mtime)))
       \<and> (A \<longrightarrow> alive ready t \<and> ((\<forall>h\<in>set chunks. ?c h \<noteq> None) \<and> ent (wfs w) (dir @ [n]) = None \<longrightarrow> is_ok r))"
    have "holds_tree A ?c (wfs t) dir full" if ok: "is_ok r"
    proof -
      obtain t' where e: "ent (wfs t) (dir @ [n]) = Some (EFile (file_bytes ?c chunks) (restored_mode None mode) t')" "A \<longrightarrow> t' = mtime"
        using q ok File.prems(9) full fresh by (auto simp: old_mode_def)
      have "within (dir @ [n]) (wfs w) (wfs t)" using q by blast
      note nn = none [OF this e(1)]
      show ?thesis unfolding holds_tree_def full
      proof
        fix q
        show "entry_agrees A (ent (wfs t) (dir @ name (File n s mode mtime chunks) # q))
            (tree_ent ?c (File n s mode mtime chunks) (name (File n s mode mtime chunks) # q))"
          using e nn by (cases q) auto
      qed
    qed
    then show "restored_post view good ready A ?c dir full w r t"
      using q fresh full by (simp add: restored_post_def)
  qed
next
  case (Dir L R fuel n cs dir)
  let ?c = "contents L R (view (w_store w))"
  let ?here = "dir @ [n]"
  obtain ds where full: "full = Dir n ds" and rs: "list_all2 (resolves (lookup L R (view (w_store w)))) cs ds"
    using resolves_name_Dir [OF Dir.prems(5)] by blast
  have len: "length cs = length ds" using rs by (rule list_all2_lengthD)
  have v: "validate (Dir n cs) = Inr ()" by (rule Dir.prems(6))
  then have j: "safe_join dir n = Inr ?here" using safe_join_name validate_name [of "Dir n cs"] by simp
  have dn: "distinct (map name ds)" using Dir.prems(8) full by simp
  have loop: "wp (for_io (\<lambda>c. restore_node L R fuel c ?here) cs) (restored_post view good ready A ?c dir full w) t"
    if t: "restoring view good w t" "within ?here (wfs w) (wfs t)" "is_dir (wfs t) ?here" "A \<longrightarrow> alive ready t"
      and none: "\<forall>y q. ent (wfs t) (?here @ y # q) = None" for t
  proof (rule wp_mono [OF wp_restore_children [where A = A and ds = ds, OF restoring_good [OF t(1)] within_wf [OF t(2)] t(3,4)]])
    have vt: "view (w_store t) = view (w_store w)" by (rule restoring_view [OF t(1)])
    show "list_all2 (resolves (lookup L R (view (w_store t)))) cs ds" using rs vt by simp
    show "\<forall>d\<in>set ds. node_height d < fuel"
      using node_height_child Dir.prems(7) full by (fastforce simp: fuel_for_def)
    show "wp (restore_node L R fuel c ?here) (restored_post view good ready A (contents L R (view (w_store u))) ?here d u) u"
      if "c \<in> set cs" "good (w_store u)" "fs_wf (wfs u)" "is_dir (wfs u) ?here"
       "resolves (lookup L R (view (w_store u))) c d" "validate c = Inr ()" "fuel_for c d fuel" "distinct_names d"
       "\<forall>h\<in>set (chunks_of d). hash_name h" "ent (wfs u) (?here @ [name d]) = None" "A \<longrightarrow> alive ready u" for c d u
      by (rule Dir.IH [OF that(1) Dir.prems(1) that(2-)])
    fix r :: "unit res" and x
    assume "restoring view good t x \<and> strictly_within ?here (wfs t) (wfs x)
     \<and> (is_ok r \<longrightarrow> children_restored view good ready A (contents L R (view (w_store t))) ?here ds t x)
     \<and> (A \<longrightarrow> alive ready x \<and>
          ((\<forall>d\<in>set ds. \<forall>h\<in>set (chunks_of d). contents L R (view (w_store t)) h \<noteq> None) \<longrightarrow> is_ok r))"
    then have x: "restoring view good t x" "strictly_within ?here (wfs t) (wfs x)"
      "is_ok r \<longrightarrow> children_restored view good ready A ?c ?here ds t x"
      "A \<longrightarrow> alive ready x \<and> ((\<forall>d\<in>set ds. \<forall>h\<in>set (chunks_of d). ?c h \<noteq> None) \<longrightarrow> is_ok r)"
      by (simp_all add: vt)
    have "holds_tree A ?c (wfs x) dir full" if "is_ok r"
    proof -
      have "ent (wfs x) ?here = Some EDir" using strictly_dir [OF x(2) t(3)] by (simp add: is_dir_def)
      then show ?thesis unfolding full
        by (intro holds_tree_Dir) (use x(3) that dn in \<open>auto simp: children_restored_def\<close>)
    qed
    then show "restored_post view good ready A ?c dir full w r x"
      using x restoring_trans [OF t(1)] within_trans [OF t(2) strictly_within [OF x(2)]] full
      by (auto simp: restored_post_def)
  qed (use v validate_child dn Dir.prems(8,9) full none in auto)
  have fresh: "ent (wfs w) ?here = None" using Dir.prems(10) full by simp
  then have nl: "\<not> is_link (wfs w) ?here" by (simp add: is_link_def)
  show ?case
    unfolding restore_node.simps v lift_res_Inr bnd_ret j wp_bnd wp_on_os
  proof (rule wp_mono [OF wp_create_here [OF Dir.prems(3,4) nl]])
    fix r :: "unit res" and s
    assume q: "within ?here (wfs w) (os_fs s) \<and> (\<forall>q. q \<noteq> ?here \<longrightarrow> ent (os_fs s) q = ent (wfs w) q)
      \<and> (is_ok r \<longrightarrow> is_dir (os_fs s) ?here)
      \<and> (faultless (w_os w) \<longrightarrow> faultless s \<and> (ent (wfs w) ?here = None \<longrightarrow> is_ok r))"
    have rw: "restoring view good w (w\<lparr> w_os := s \<rparr>)" by (rule restoring_os [where good = good and w = w, OF Dir.prems(2)])
    have al: "A \<longrightarrow> alive ready (w\<lparr> w_os := s \<rparr>) \<and> is_ok r" using Dir.prems(11) q fresh by (auto simp: alive_def)
    have none: "ent (os_fs s) (dir @ n # y # q') = None" for y q'
      using q absent_below [OF Dir.prems(3) fresh, of "y # q'"] by simp
    show "case r of Inl e \<Rightarrow> restored_post view good ready A ?c dir full w (Inl e) (w\<lparr> w_os := s \<rparr>)
        | Inr _ \<Rightarrow> wp (for_io (\<lambda>c. restore_node L R fuel c ?here) cs) (restored_post view good ready A ?c dir full w) (w\<lparr> w_os := s \<rparr>)"
    proof (cases r)
      case (Inl e)
      then show ?thesis using q rw al full by (auto simp: restored_post_def)
    next
      case (Inr b)
      show ?thesis unfolding Inr sum.case
        by (rule loop) (use q rw al Inr none in auto)
    qed
  qed
next
  case (Ref L R fuel n h dir)
  let ?v = "view (w_store w)"
  obtain inner where i: "lookup L R ?v h = Some inner" "\<not> is_ref inner" "validate inner = Inr ()"
    "resolves (lookup L R ?v) inner full"
    using Ref.prems(5) by (auto elim: resolves_RefE)
  obtain f where f: "fuel = Suc f" "node_height full \<le> f" using Ref.prems(7) by (cases fuel) (auto simp: fuel_for_def)
  have v: "validate (Ref n h) = Inr ()" by (rule Ref.prems(6))
  then have "check_hash h = Inr ()" by (auto simp: res_bind_Inr)
  then have hn: "hash_name h" by (rule lookup_check_hash)
  have fi: "fuel_for inner full f" using i(2) f(2) by (simp add: fuel_for_def)
  show ?case
    unfolding restore_node.simps v lift_res_Inr bnd_ret f(1) nat.case
  proof (rule wp_bndI [OF wp_fetch_node [OF Ref.prems(1,2)]], goal_cases)
    case (1 e t)
    then show ?case
      using Ref.prems(3,11) hn i(1)
      by (auto simp: restored_post_def alive_def same_store_restoring same_store_os within_refl)
  next
    case (2 nd t)
    then have st: "same_store view good w t" and nd: "nd = inner" and rd: "ready (w_store w) \<longrightarrow> ready (w_store t)"
      using hn i(1) by auto
    have os: "w_os t = w_os w" and vt: "view (w_store t) = ?v"
      using same_store_os [OF st] same_store_view [OF st] by auto
    have al: "A \<longrightarrow> alive ready t" using Ref.prems(11) rd os by (auto simp: alive_def)
    have pre: "good (w_store t)" "fs_wf (wfs t)" "is_dir (wfs t) dir" "resolves (lookup L R (view (w_store t))) inner full"
      "ent (wfs t) (dir @ [name full]) = None"
      using st Ref.prems i(4) os vt by (auto simp: same_store_good)
    show ?case
      unfolding nd
      by (rule wp_mono [OF Ref.IH [OF f(1) Ref.prems(1) pre(1-4) i(3) fi Ref.prems(8,9) pre(5) al]])
        (use st os vt in \<open>auto simp: restored_post_def intro: restoring_trans [OF same_store_restoring]\<close>)
  qed
qed

end

end
