(* ===== verification/Remote_Text.thy ===== *)
theory Remote_Text
  imports Prelude
begin

text \<open>
  What the code reads out of a remote command's output and puts into its messages: Rust's
  \<open>String::from_utf8_lossy\<close>, \<open>str::trim\<close>, \<open>split_whitespace\<close>, \<open>lines\<close> and the
  \<open>Debug\<close> text of an exit code, all on the bytes of a string.
\<close>

section \<open>Lossy decoding\<close>

definition byte_char :: "byte \<Rightarrow> char" where
  "byte_char b = char_of (unat b)"

definition continues :: "nat \<Rightarrow> bool" where
  "continues b \<longleftrightarrow> 128 \<le> b \<and> b < 192"

text \<open>The second byte a lead byte of a three- or four-byte sequence allows.\<close>

definition second_of :: "nat \<Rightarrow> nat \<Rightarrow> bool" where
  "second_of b c \<longleftrightarrow> continues c \<and> (b = 224 \<longrightarrow> 160 \<le> c) \<and> (b = 237 \<longrightarrow> c < 160)
     \<and> (b = 240 \<longrightarrow> 144 \<le> c) \<and> (b = 244 \<longrightarrow> c < 144)"

definition trailing :: "nat \<Rightarrow> nat" where
  "trailing b = (if 194 \<le> b \<and> b \<le> 223 then 1 else if 224 \<le> b \<and> b \<le> 239 then 2
     else if 240 \<le> b \<and> b \<le> 244 then 3 else 0)"

text \<open>
  The bytes after a lead byte that belong to its character; a sequence that breaks off is
  replaced as far as it went.
\<close>

definition follows :: "nat \<Rightarrow> nat list \<Rightarrow> nat" where
  "follows b bs = (case take (trailing b) bs of
      [] \<Rightarrow> 0
    | c # cs \<Rightarrow> if second_of b c then Suc (length (takeWhile continues cs)) else 0)"

function utf8_lossy :: "nat list \<Rightarrow> nat list" where
  "utf8_lossy [] = []"
| "utf8_lossy (b # bs) =
     (let n = follows b bs in
      (if b < 128 \<or> 0 < trailing b \<and> n = trailing b then b # take n bs else [239, 191, 189])
      @ utf8_lossy (drop n bs))"
  by pat_completeness auto
termination by (relation "measure length") auto

definition from_utf8_lossy :: "bytes \<Rightarrow> string" where
  "from_utf8_lossy bs = map char_of (utf8_lossy (map unat bs))"

lemma utf8_lossy_ascii: "\<forall>b\<in>set bs. b < 128 \<Longrightarrow> utf8_lossy bs = bs"
  by (induction bs) (simp_all add: trailing_def follows_def)

text \<open>Text that is valid ASCII survives the decoding.\<close>

lemma from_utf8_lossy_ascii:
  assumes "\<forall>c\<in>set s. (of_char c :: nat) < 128"
  shows "from_utf8_lossy (str_bytes s) = s"
proof -
  have n: "map unat (str_bytes s) = map of_char s"
    using assms by (auto simp: str_bytes_def unat_of_nat take_bit_nat_eq_self_iff)
  have "utf8_lossy (map of_char s) = map of_char s"
    by (rule utf8_lossy_ascii) (use assms in auto)
  then show ?thesis by (simp add: from_utf8_lossy_def n comp_def)
qed

section \<open>Names\<close>

text \<open>\<open>OsStr::to_string_lossy\<close>, which is also how a path is printed.\<close>

definition to_string_lossy :: "string \<Rightarrow> string" where
  "to_string_lossy s = from_utf8_lossy (str_bytes s)"

text \<open>A name that is UTF-8 decodes to itself.\<close>

definition utf8_text :: "string \<Rightarrow> bool" where
  "utf8_text s \<longleftrightarrow> to_string_lossy s = s"

lemma utf8_text_ascii: "\<forall>c\<in>set s. (of_char c :: nat) < 128 \<Longrightarrow> utf8_text s"
  by (simp add: utf8_text_def to_string_lossy_def from_utf8_lossy_ascii)

lemma to_string_lossy_bytes: "to_string_lossy s = map char_of (utf8_lossy (map of_char s))"
proof -
  have "map unat (str_bytes s) = map of_char s" by (simp add: str_bytes_def comp_def unat_of_nat take_bit_nat_eq_self)
  then show ?thesis by (simp add: to_string_lossy_def from_utf8_lossy_def)
qed

lemma utf8_lossy_Nil_iff [simp]: "utf8_lossy bs = [] \<longleftrightarrow> bs = []"
  by (cases bs) (simp_all add: Let_def)

lemma utf8_lossy_parts:
  "utf8_lossy (b # bs) = (if b < 128 \<or> 0 < trailing b \<and> follows b bs = trailing b then b # take (follows b bs) bs
     else [239, 191, 189]) @ utf8_lossy (drop (follows b bs) bs)"
  by (simp add: Let_def)

declare utf8_lossy.simps(2) [simp del]

lemma utf8_lossy_range: "\<forall>b\<in>set bs. b < 256 \<Longrightarrow> x \<in> set (utf8_lossy bs) \<Longrightarrow> x < 256"
proof (induction bs rule: utf8_lossy.induct)
  case (2 b bs)
  have "\<forall>y\<in>set (drop (follows b bs) bs). y < 256" "\<forall>y\<in>set (take (follows b bs) bs). y < 256"
    using 2(2) set_drop_subset [of "follows b bs" bs] set_take_subset [of "follows b bs" bs] by auto
  then show ?case using 2(1) [OF refl] 2(2,3) by (auto simp: utf8_lossy_parts split: if_splits)
qed simp

lemma utf8_lossy_low: "x \<in> set (utf8_lossy bs) \<Longrightarrow> x < 128 \<Longrightarrow> x \<in> set bs"
proof (induction bs rule: utf8_lossy.induct)
  case (2 b bs)
  have "set (drop (follows b bs) bs) \<subseteq> set bs" "set (take (follows b bs) bs) \<subseteq> set bs"
    by (rule set_drop_subset, rule set_take_subset)
  then have "x \<in> set (drop (follows b bs) bs) \<Longrightarrow> x \<in> set bs" "x \<in> set (take (follows b bs) bs) \<Longrightarrow> x \<in> set bs"
    by blast+
  moreover have "x = b \<or> x \<in> set (take (follows b bs) bs) \<or> x \<in> set (utf8_lossy (drop (follows b bs) bs))"
    using 2(2,3) by (simp add: utf8_lossy_parts split: if_splits)
  ultimately show ?case using 2(1) [OF refl] 2(3) by auto
qed simp

lemma utf8_lossy_low_only: "\<forall>x\<in>set (utf8_lossy bs). x < 128 \<Longrightarrow> utf8_lossy bs = bs"
proof (induction bs rule: utf8_lossy.induct)
  case (2 b bs)
  have b: "b < 128"
  proof (rule ccontr)
    assume "\<not> b < 128"
    then have "b \<in> set (utf8_lossy (b # bs)) \<or> 239 \<in> set (utf8_lossy (b # bs))" unfolding utf8_lossy_parts by simp
    then show False using 2(2) \<open>\<not> b < 128\<close> by auto
  qed
  then have f: "follows b bs = 0" by (simp add: follows_def trailing_def)
  then show ?case using 2 b by (simp add: utf8_lossy_parts)
qed simp

lemma lossy_char:
  assumes "c \<in> set (to_string_lossy s)" "(of_char c :: nat) < 128"
  shows "c \<in> set s"
proof -
  obtain x where x: "x \<in> set (utf8_lossy (map of_char s))" "c = char_of x" using assms(1) by (auto simp: to_string_lossy_bytes)
  have "x < 256" using x(1) utf8_lossy_range [of "map of_char s" x] by auto
  then have "of_char c = x" using x(2) by (simp add: of_char_of)
  then have "x \<in> set (map of_char s)" using utf8_lossy_low [OF x(1)] assms(2) by simp
  then show ?thesis using x(2) by auto
qed

lemma lossy_ascii_only:
  assumes "\<forall>c\<in>set (to_string_lossy s). (of_char c :: nat) < 128"
  shows "to_string_lossy s = s"
proof -
  let ?u = "utf8_lossy (map of_char s)"
  have "x < 128" if x: "x \<in> set ?u" for x
  proof -
    have "x < 256" using x utf8_lossy_range [of "map of_char s" x] by auto
    then have "of_char (char_of x :: char) = x" by (simp add: of_char_of)
    then show ?thesis using assms x by (force simp: to_string_lossy_bytes)
  qed
  then have "?u = map of_char s" by (intro utf8_lossy_low_only) blast
  then show ?thesis by (simp add: to_string_lossy_bytes comp_def)
qed

lemma lossy_eq_ascii: "\<forall>c\<in>set t. (of_char c :: nat) < 128 \<Longrightarrow> to_string_lossy s = t \<longleftrightarrow> s = t"
  using lossy_ascii_only [of s] utf8_text_ascii [of t] unfolding utf8_text_def by metis

lemma lossy_Nil_iff [simp]: "to_string_lossy s = [] \<longleftrightarrow> s = []"
  by (simp add: to_string_lossy_bytes)

text \<open>Decoding goes segment by segment.\<close>

lemma follows_slash: "follows b (bs @ 47 # cs) = follows b bs"
proof (cases bs)
  case Nil
  then show ?thesis by (cases "trailing b") (simp_all add: follows_def second_of_def continues_def)
next
  case (Cons c bs')
  have "takeWhile continues (take n (bs' @ 47 # cs)) = takeWhile continues (take n bs')" for n
  proof (induction bs' arbitrary: n)
    case Nil
    then show ?case by (cases n) (simp_all add: continues_def)
  next
    case (Cons a bs')
    then show ?case by (cases n) (simp_all del: take_append)
  qed
  then show ?thesis unfolding Cons by (cases "trailing b") (simp_all add: follows_def del: take_append)
qed

lemma follows_le: "follows b bs \<le> length bs"
proof (cases bs)
  case (Cons c bs')
  have "length (takeWhile continues (take n bs')) \<le> length bs'" for n
    using length_takeWhile_le [of continues "take n bs'"] by simp
  then show ?thesis unfolding Cons by (cases "trailing b") (simp_all add: follows_def)
qed (simp add: follows_def)

lemma utf8_lossy_slash: "utf8_lossy (bs @ 47 # cs) = utf8_lossy bs @ 47 # utf8_lossy cs"
proof (induction bs rule: utf8_lossy.induct)
  case 1
  have "follows 47 cs = 0" by (simp add: follows_def trailing_def)
  then show ?case by (simp add: utf8_lossy_parts)
next
  case (2 b bs)
  then show ?case using follows_le [of b bs] by (simp add: utf8_lossy_parts follows_slash)
qed

lemma slash_char: "(char_of (47::nat) :: char) = CHR ''/''"
proof -
  have "(of_char (CHR ''/'') :: nat) = 47" by simp
  then show ?thesis using char_of_char [of "CHR ''/''", where ?'a = nat] by metis
qed

lemma lossy_slash: "to_string_lossy (a @ CHR ''/'' # b) = to_string_lossy a @ CHR ''/'' # to_string_lossy b"
  by (simp add: to_string_lossy_bytes utf8_lossy_slash slash_char)

section \<open>White space and lines\<close>

text \<open>The UTF-8 texts of the characters with the property White\_Space.\<close>

definition ascii_space :: "char \<Rightarrow> bool" where
  "ascii_space c \<longleftrightarrow> c = CHR '' '' \<or> (9::nat) \<le> of_char c \<and> of_char c \<le> (13::nat)"

definition WIDE_SPACES :: "string list" where
  "WIDE_SPACES = [
     [CHR 0xC2, CHR 0x85], [CHR 0xC2, CHR 0xA0], [CHR 0xE1, CHR 0x9A, CHR 0x80],
     [CHR 0xE2, CHR 0x80, CHR 0x80], [CHR 0xE2, CHR 0x80, CHR 0x81], [CHR 0xE2, CHR 0x80, CHR 0x82],
     [CHR 0xE2, CHR 0x80, CHR 0x83], [CHR 0xE2, CHR 0x80, CHR 0x84], [CHR 0xE2, CHR 0x80, CHR 0x85],
     [CHR 0xE2, CHR 0x80, CHR 0x86], [CHR 0xE2, CHR 0x80, CHR 0x87], [CHR 0xE2, CHR 0x80, CHR 0x88],
     [CHR 0xE2, CHR 0x80, CHR 0x89], [CHR 0xE2, CHR 0x80, CHR 0x8A], [CHR 0xE2, CHR 0x80, CHR 0xA8],
     [CHR 0xE2, CHR 0x80, CHR 0xA9], [CHR 0xE2, CHR 0x80, CHR 0xAF], [CHR 0xE2, CHR 0x81, CHR 0x9F],
     [CHR 0xE3, CHR 0x80, CHR 0x80]]"

definition space_length :: "string \<Rightarrow> nat" where
  "space_length s = (case s of [] \<Rightarrow> 0 | c # _ \<Rightarrow>
     if ascii_space c then 1
     else (case find (starts_with s) WIDE_SPACES of Some w \<Rightarrow> length w | None \<Rightarrow> 0))"

function trim_start :: "string \<Rightarrow> string" where
  "trim_start s = (if space_length s = 0 then s else trim_start (drop (space_length s) s))"
  by pat_completeness auto
termination
proof (relation "measure length")
  show "(drop (space_length s) s, s) \<in> measure length" if "space_length s \<noteq> 0" for s
    using that by (cases s) (auto simp: space_length_def)
qed simp

declare trim_start.simps [simp del]

text \<open>From the end, the same on the reversed text with reversed white space.\<close>

definition space_length_rev :: "string \<Rightarrow> nat" where
  "space_length_rev r = (case r of [] \<Rightarrow> 0 | c # _ \<Rightarrow>
     if ascii_space c then 1
     else (case find (starts_with r) (map rev WIDE_SPACES) of Some w \<Rightarrow> length w | None \<Rightarrow> 0))"

function trim_start_rev :: "string \<Rightarrow> string" where
  "trim_start_rev r = (if space_length_rev r = 0 then r else trim_start_rev (drop (space_length_rev r) r))"
  by pat_completeness auto
termination
proof (relation "measure length")
  show "(drop (space_length_rev r) r, r) \<in> measure length" if "space_length_rev r \<noteq> 0" for r
    using that by (cases r) (auto simp: space_length_rev_def)
qed simp

declare trim_start_rev.simps [simp del]

definition trim_text :: "string \<Rightarrow> string" where
  "trim_text s = rev (trim_start_rev (rev (trim_start s)))"

fun word_length :: "string \<Rightarrow> nat" where
  "word_length [] = 0"
| "word_length (c # s) = (if space_length (c # s) = 0 then Suc (word_length s) else 0)"

lemma trim_start_length: "length (trim_start s) \<le> length s"
  by (induction s rule: trim_start.induct) (subst trim_start.simps, auto)

lemma trim_start_word: "trim_start s \<noteq> [] \<Longrightarrow> 0 < word_length (trim_start s)"
proof (induction s rule: trim_start.induct)
  case (1 s)
  show ?case
  proof (cases "space_length s = 0")
    case True
    then have e: "trim_start s = s" by (subst trim_start.simps) simp
    show ?thesis using 1(2) True unfolding e by (cases s) auto
  next
    case False
    then have "trim_start s = trim_start (drop (space_length s) s)" by (subst trim_start.simps) simp
    then show ?thesis using 1 False by simp
  qed
qed

function split_whitespace :: "string \<Rightarrow> string list" where
  "split_whitespace s = (let t = trim_start s; n = word_length t in
     if t = [] then [] else take n t # split_whitespace (drop n t))"
  by pat_completeness auto
termination
proof (relation "measure length")
  show "(drop n t, s) \<in> measure length" if "t = trim_start s" "n = word_length t" "t \<noteq> []" for s t n
  proof -
    have "0 < length (trim_start s)" "0 < word_length (trim_start s)" using that trim_start_word [of s] by auto
    then have "length (trim_start s) - word_length (trim_start s) < length s"
      using trim_start_length [of s] by linarith
    then show ?thesis using that by simp
  qed
qed simp

declare split_whitespace.simps [simp del]

text \<open>\<open>str::lines\<close>: a final line may lack its newline, and a carriage return before one is dropped.\<close>

fun lines_of :: "string list \<Rightarrow> string list" where
  "lines_of [] = []"
| "lines_of [l] = (if l = [] then [] else [l])"
| "lines_of (l # ls) = (case strip_suffix l [CHR 0x0D] of Some l' \<Rightarrow> l' | None \<Rightarrow> l) # lines_of ls"

definition text_lines :: "string \<Rightarrow> string list" where
  "text_lines s = lines_of (split_on (CHR 0x0A) s)"

text \<open>\<open>Debug\<close> of an \<open>Option<u32>\<close>.\<close>

definition debug_code :: "32 word option \<Rightarrow> string" where
  "debug_code c = (case c of None \<Rightarrow> ''None'' | Some n \<Rightarrow> ''Some('' @ show_nat (unat n) @ '')'')"

end
