(* ===== verification/Repo_Backup.thy ===== *)
theory Repo_Backup
  imports Store_Rules Remote_Text
begin

text \<open>
  Backing up (aegis-core/src/repo.rs): the walk over the source tree, the storage of
  chunks and node blobs the repository does not have, and the commit of index and
  manifest. The source file system is a value: \<open>canonicalize\<close> of a given path yields the
  absolute path and the tree below it. Names are what the operating system has, any bytes;
  the tree holds them decoded. \<open>src_node\<close> is the tree a walk has to produce, a
  pure function of the source.
\<close>

section \<open>The source\<close>

text \<open>
  \<open>fs::Metadata\<close>: length, mode and the modification time as whole seconds after or
  before the epoch. A file that cannot be opened has no reader, a directory that cannot
  be listed no entries. An entry of a directory is a file, a directory, something else
  (\<open>SrcOther\<close>: links, sockets, devices), one the listing reports as an error
  (\<open>SrcLost\<close>), or one whose type cannot be read (\<open>SrcUntyped\<close>).
\<close>

record metadata =
  md_len :: "64 word"
  md_mode :: "32 word"
  md_modified :: "(bool \<times> nat) option"

datatype src =
    SrcFile metadata "reader option"
  | SrcDir "(string \<times> src) list option"
  | SrcOther
  | SrcLost
  | SrcUntyped

type_synonym source_fs = "string \<Rightarrow> (path \<times> src) option"

definition file_mode :: "metadata \<Rightarrow> 32 word option" where
  "file_mode md = Some (md_mode md)"

definition mtime_secs :: "metadata \<Rightarrow> int option" where
  "mtime_secs md = (case md_modified md of
      None \<Rightarrow> None
    | Some (after_epoch, secs) \<Rightarrow>
        if secs < 2 ^ 63 then Some (if after_epoch then int secs else - int secs) else None)"

definition file_name :: "path \<Rightarrow> string" where
  "file_name p = (if p = [] then ''root'' else to_string_lossy (last p))"

definition display_path :: "path \<Rightarrow> string" where
  "display_path p = to_string_lossy (path_str p)"

lemma lossy_ascii: "list_all (\<lambda>c. (of_char c :: nat) < 128) s \<Longrightarrow> to_string_lossy s = s"
  using utf8_text_ascii [of s] by (simp add: utf8_text_def list_all_iff)

text \<open>\<open>read_dir(dir)?.filter_map(|e| e.ok())\<close>, sorted by file name.\<close>

definition listed_entries :: "(string \<times> src) list \<Rightarrow> (string \<times> src) list" where
  "listed_entries es = sort_key fst (filter (\<lambda>(_, e). e \<noteq> SrcLost) es)"

lemma set_listed [simp]: "set (listed_entries es) = {(n, e) \<in> set es. e \<noteq> SrcLost}"
  by (auto simp: listed_entries_def)

lemma src_child_size: "(n, e) \<in> set es \<Longrightarrow> size e < size (SrcDir (Some es))"
  by (induction es) auto

section \<open>Storing what is missing\<close>

text \<open>
  \<open>if !exists(key) { seal; put; ... }\<close>, as it occurs in \<open>backup_file\<close>, \<open>store_chunk\<close> and
  the commit: the size of what was written, or nothing when the blob was there.
\<close>

definition put_missing :: "foreign \<Rightarrow> 'b repository \<Rightarrow> string \<Rightarrow> bytes \<Rightarrow> ('b world, nat option) io" where
  "put_missing L R hex data =
     bnd (lift_res (blob_key hex)) (\<lambda>k.
     bnd (exists_obj R k) (\<lambda>e.
     if e then ret None
     else bnd (seal_for L R (CtxHash hex) data) (\<lambda>stored.
          bnd (put_obj R k stored) (\<lambda>_. ret (Some (length stored))))))"

record run =
  ru_stats :: snapshot_stats
  ru_seen :: "string set"
  ru_written :: "string \<Rightarrow> 64 word option"

definition count_new :: "nat \<Rightarrow> snapshot_stats \<Rightarrow> snapshot_stats" where
  "count_new n st = st\<lparr> st_new_chunks := st_new_chunks st + 1, st_new_bytes := st_new_bytes st + of_nat n \<rparr>"

definition store_chunk :: "foreign \<Rightarrow> 'b repository \<Rightarrow> string \<Rightarrow> bytes \<Rightarrow> run \<Rightarrow> ('b world, bool \<times> run) io" where
  "store_chunk L R hex data run =
     (if hex \<in> ru_seen run then ret (False, run)
      else let run1 = run\<lparr> ru_seen := insert hex (ru_seen run) \<rparr> in
        bnd (put_missing L R hex data) (\<lambda>wr. case wr of
            None \<Rightarrow> ret (False, run1)
          | Some n \<Rightarrow> ret (True, run1\<lparr> ru_stats := count_new n (ru_stats run1),
                                    ru_written := (ru_written run1)(hex \<mapsto> of_nat n) \<rparr>)))"

section \<open>The walk\<close>

definition file_sink ::
  "snapshot_stats \<times> string set \<times> (string \<times> bytes) list \<times> string list \<Rightarrow> chunk \<Rightarrow> bytes
   \<Rightarrow> ('s, snapshot_stats \<times> string set \<times> (string \<times> bytes) list \<times> string list) io" where
  "file_sink = (\<lambda>(stats, seen, pending, hashes) c d.
     let hex = ck_hash c;
         stats' = stats\<lparr> st_chunks := st_chunks stats + 1, st_bytes := st_bytes stats + of_nat (ck_length c) \<rparr>
     in ret (stats', insert hex seen, if hex \<notin> seen then pending @ [(hex, d)] else pending, hashes @ [hex]))"

definition store_pending ::
  "foreign \<Rightarrow> 'b repository \<Rightarrow> snapshot_stats \<times> (string \<Rightarrow> 64 word option) \<Rightarrow> (string \<times> bytes) list
   \<Rightarrow> ('b world, snapshot_stats \<times> (string \<Rightarrow> 64 word option)) io" where
  "store_pending L R =
     fold_io (\<lambda>(stats, written) (hex, d).
       bnd (put_missing L R hex d) (\<lambda>wr. ret (case wr of
           None \<Rightarrow> (stats, written)
         | Some n \<Rightarrow> (count_new n stats, written(hex \<mapsto> of_nat n)))))"

definition backup_file ::
  "foreign \<Rightarrow> 'b repository \<Rightarrow> string \<Rightarrow> path \<Rightarrow> metadata \<Rightarrow> reader option \<Rightarrow> run \<Rightarrow> ('b world, node \<times> run) io" where
  "backup_file L R nm path md rd run =
     (case rd of
        None \<Rightarrow> raise (Io (path_str path))
      | Some file \<Rightarrow>
          bnd (chunk_stream L file (rc_chunker (rp_config R)) file_sink (ru_stats run, ru_seen run, [], []))
            (\<lambda>(stats, seen, pending, hashes).
          bnd (store_pending L R (stats, ru_written run) pending) (\<lambda>(stats, written).
          ret (File nm (md_len md) (file_mode md) (mtime_secs md) hashes,
               \<lparr> ru_stats = stats\<lparr> st_files := st_files stats + 1 \<rparr>, ru_seen = seen, ru_written = written \<rparr>))))"

function backup_dir ::
  "foreign \<Rightarrow> 'b repository \<Rightarrow> string \<Rightarrow> path \<Rightarrow> src \<Rightarrow> run \<Rightarrow> ('b world, node \<times> run) io" where
  "backup_dir L R nm path (SrcDir (Some entries)) run =
     bnd (fold_io (\<lambda>acc x. case (acc, x) of ((children, run), (n, e)) \<Rightarrow> (case e of
            SrcDir es \<Rightarrow> bnd (backup_dir L R (to_string_lossy n) (path @ [n]) e run) (\<lambda>(nd, run'). ret (children @ [nd], run'))
          | SrcFile md rd \<Rightarrow>
              bnd (backup_file L R (to_string_lossy n) (path @ [n]) md rd run) (\<lambda>(nd, run'). ret (children @ [nd], run'))
          | SrcUntyped \<Rightarrow> raise (Io (path_str (path @ [n])))
          | _ \<Rightarrow> ret (children, run)))
        ([], run) (listed_entries entries))
     (\<lambda>(children, run'). ret (sort_node (Dir nm children), run'))"
| "backup_dir L R nm path (SrcDir None) run = raise (Io (path_str path))"
| "backup_dir L R nm path (SrcFile md rd) run = raise (Io (path_str path))"
| "backup_dir L R nm path SrcOther run = raise (Io (path_str path))"
| "backup_dir L R nm path SrcLost run = raise (Io (path_str path))"
| "backup_dir L R nm path SrcUntyped run = raise (Io (path_str path))"
  by pat_completeness auto
termination
  by (relation "measure (\<lambda>(_, _, _, _, s, _). size s)") (auto dest: src_child_size)

section \<open>The commit\<close>

fun dedup_refs :: "(string \<Rightarrow> 64 word option) \<Rightarrow> string set \<Rightarrow> (string \<times> blob_kind) list \<Rightarrow> blob_ref list" where
  "dedup_refs written seen [] = []"
| "dedup_refs written seen ((h, kind) # rest) =
     (if h \<in> seen then dedup_refs written seen rest
      else \<lparr> br_hash = h, br_size = written h, br_kind = kind \<rparr> # dedup_refs written (insert h seen) rest)"

definition build_index :: "snapshot \<Rightarrow> (string \<Rightarrow> 64 word option) \<Rightarrow> snapshot_index" where
  "build_index sn written =
     (let chunk_hashes = collect_chunk_hashes (sn_root sn) [];
          tree_hashes = collect_refs (sn_root sn) []
      in \<lparr> ix_snapshot_id = sn_id sn,
           ix_blobs = dedup_refs written {}
             (map (\<lambda>h. (h, Chunk)) chunk_hashes @ map (\<lambda>h. (h, TreeNode)) tree_hashes) \<rparr>)"

definition store_node_blobs ::
  "foreign \<Rightarrow> 'b repository \<Rightarrow> snapshot_stats \<times> (string \<Rightarrow> 64 word option) \<Rightarrow> node_blobs
   \<Rightarrow> ('b world, snapshot_stats \<times> (string \<Rightarrow> 64 word option)) io" where
  "store_node_blobs L R =
     fold_io (\<lambda>(stats, written) (hex, d).
       bnd (put_missing L R hex d) (\<lambda>wr. ret (case wr of
           None \<Rightarrow> (stats, written)
         | Some n \<Rightarrow> (stats\<lparr> st_new_tree_nodes := st_new_tree_nodes stats + 1 \<rparr>, written(hex \<mapsto> of_nat n)))))"

definition commit_snapshot ::
  "foreign \<Rightarrow> 'b repository \<Rightarrow> node \<Rightarrow> string list \<Rightarrow> snapshot_stats \<Rightarrow> (string \<Rightarrow> 64 word option)
   \<Rightarrow> ('b world, snapshot) io" where
  "commit_snapshot L R root paths stats written =
     bnd (lift_res (build_stored L (sort_node root))) (\<lambda>(root, node_blobs).
     bnd (store_node_blobs L R (stats, written) node_blobs) (\<lambda>(stats, written).
     bnd new_uuid (\<lambda>uid.
     bnd now_rfc3339 (\<lambda>time.
     bnd get_hostname (\<lambda>host.
     let sn = \<lparr> sn_id = uid, sn_time = time, sn_hostname = host, sn_paths = paths,
                sn_root = root, sn_stats = stats \<rparr>;
         index = build_index sn written
     in bnd (seal_for L R CtxDoc (index_json L index)) (\<lambda>index_bytes.
        bnd (put_obj R (index_key (sn_id sn)) index_bytes) (\<lambda>_.
        bnd (seal_for L R CtxDoc (snapshot_json L sn)) (\<lambda>manifest_bytes.
        bnd (put_obj R (snapshot_key (sn_id sn)) manifest_bytes) (\<lambda>_.
        ret sn))))))))) "

definition empty_run :: run where
  "empty_run = \<lparr> ru_stats = zero_stats, ru_seen = {}, ru_written = Map.empty \<rparr>"

definition walk_roots ::
  "foreign \<Rightarrow> 'b repository \<Rightarrow> source_fs \<Rightarrow> string list \<Rightarrow> ('b world, string list \<times> node list \<times> run) io" where
  "walk_roots L R sfs paths =
     fold_io (\<lambda>(roots, children, run) p. case sfs p of
         None \<Rightarrow> raise (Io p)
       | Some (cp, s) \<Rightarrow> bnd (backup_dir L R (file_name cp) cp s run) (\<lambda>(nd, run').
           ret (roots @ [display_path cp], children @ [nd], run')))
       ([], [], empty_run) paths"

text \<open>
  The tail of \<open>Repository::backup\<close> (from the sorted root on) repeats \<open>commit_snapshot\<close>.
\<close>

definition backup :: "foreign \<Rightarrow> 'b repository \<Rightarrow> source_fs \<Rightarrow> string list \<Rightarrow> ('b world, snapshot) io" where
  "backup L R sfs paths =
     bnd (walk_roots L R sfs paths) (\<lambda>(roots, children, run).
     commit_snapshot L R (Dir ''root'' children) roots (ru_stats run) (ru_written run))"

section \<open>The tree a backup has to produce\<close>

fun is_other :: "src \<Rightarrow> bool" where
  "is_other SrcOther = True" | "is_other SrcLost = True" | "is_other _ = False"

text \<open>The entries a snapshot holds, in the order of the walk.\<close>

definition taken_entries :: "(string \<times> src) list \<Rightarrow> (string \<times> src) list" where
  "taken_entries es = filter (\<lambda>(n, e). \<not> is_other e) (listed_entries es)"

lemma set_taken [simp]: "set (taken_entries es) = {(n, e) \<in> set es. \<not> is_other e}"
  by (auto simp: taken_entries_def)

function src_node :: "foreign \<Rightarrow> chunker_config \<Rightarrow> string \<Rightarrow> src \<Rightarrow> node" where
  "src_node L cfg nm (SrcFile md (Some (Reader d))) =
     File nm (md_len md) (file_mode md) (mtime_secs md) (map (blake3_hex L) (fastcdc L cfg d))"
| "src_node L cfg nm (SrcDir (Some entries)) =
     sort_node (Dir nm (map (\<lambda>(n, e). src_node L cfg (to_string_lossy n) e) (taken_entries entries)))"
| "src_node L cfg nm (SrcFile md (Some (FailingReader d n))) = Dir nm []"
| "src_node L cfg nm (SrcFile md None) = Dir nm []"
| "src_node L cfg nm (SrcDir None) = Dir nm []"
| "src_node L cfg nm SrcOther = Dir nm []"
| "src_node L cfg nm SrcLost = Dir nm []"
| "src_node L cfg nm SrcUntyped = Dir nm []"
  by pat_completeness auto
termination
  by (relation "measure (\<lambda>(_, _, _, s). size s)") (auto dest: src_child_size)

fun src_pieces :: "foreign \<Rightarrow> chunker_config \<Rightarrow> src \<Rightarrow> bytes list" where
  "src_pieces L cfg (SrcFile md (Some (Reader d))) = fastcdc L cfg d"
| "src_pieces L cfg (SrcFile md (Some (FailingReader d n))) = fastcdc L cfg d"
| "src_pieces L cfg (SrcFile md None) = []"
| "src_pieces L cfg (SrcDir (Some entries)) = concat (map (\<lambda>(n, e). src_pieces L cfg e) entries)"
| "src_pieces L cfg (SrcDir None) = []"
| "src_pieces L cfg SrcOther = []"
| "src_pieces L cfg SrcLost = []"
| "src_pieces L cfg SrcUntyped = []"

text \<open>A source every part of which can be read; a lost entry and a special file are passed over.\<close>

fun readable :: "src \<Rightarrow> bool" where
  "readable (SrcFile md (Some (Reader d))) = True"
| "readable (SrcFile md _) = False"
| "readable (SrcDir (Some entries)) = (\<forall>(n, e)\<in>set entries. readable e)"
| "readable (SrcDir None) = False"
| "readable SrcOther = True"
| "readable SrcLost = True"
| "readable SrcUntyped = False"

section \<open>Storing what is missing, verified\<close>

context backend
begin

lemma wp_put_missing:
  assumes R: "rp_backend R = B" and L: "foreign_laws L" and w: "good (w_store w)"
    and d: "d \<in> U" "h = blake3_hex L d"
  shows "wp (put_missing L R h d) (\<lambda>r w'. quiet w w' \<and> good (w_store w')
     \<and> grown L R U (view (w_store w)) (view (w_store w'))
     \<and> (is_ok r \<longrightarrow> view (w_store w') (bkey h) \<noteq> None)) w"
proof -
  have hn: "hash_name h" using d(2) L by simp
  then have rk: "repo_key (bkey h)" by simp
  have put: "wp (put_obj R (bkey h) s) (\<lambda>r w'. quiet w w' \<and> good (w_store w')
      \<and> grown L R U (view (w_store w)) (view (w_store w')) \<and> (is_ok r \<longrightarrow> view (w_store w') (bkey h) \<noteq> None)) u"
    if u: "quiet w u" "good (w_store u)" "view (w_store u) = view (w_store w)"
      and n: "view (w_store w) (bkey h) = None" and s: "open_for L R (CtxHash h) s = Inr d" for u s
    by (rule wp_mono [OF wp_create_obj [OF R u(2) rk u(3) [THEN fun_cong, THEN trans, OF n]]])
      (use u grown_put [where v = "view (w_store w)" and v' = "view (w_store w)", OF L d s n]
          grown_put [where v = "view (w_store w)" and v' = "(view (w_store w))(bkey h \<mapsto> s)", OF L d s n]
        in \<open>auto intro: quiet_trans split: sum.splits\<close>)
  show ?thesis
    unfolding put_missing_def blob_key_hash [OF hn]
    apply (simp add: wp_simps)
    apply (rule wp_mono [OF wp_exists_obj [OF R w, of "bkey h"]])
    apply (clarsimp simp: rk wp_simps split: sum.splits)
    apply (rule wp_mono [OF open_seal_for [OF L]])
    apply (clarsimp simp: wp_simps split: sum.splits dest!: rng_only_quiet)
    apply (intro conjI allI impI)
     apply (erule (1) quiet_trans)
    apply (rule wp_mono [OF put])
    apply (auto simp: wp_simps intro: quiet_trans split: sum.splits)
    done
qed

end

end
