(* ===== verification/Backup_Correct.thy ===== *)
theory Backup_Correct
  imports Repo_Backup
begin

text \<open>
  What a backup does to any store that keeps the backend contract, whichever calls fail:
  the walk returns the tree \<open>src_node\<close> prescribes and has stored every chunk of it, and
  the commit writes node blobs, index and manifest in this order.
\<close>

section \<open>The effect on the store\<close>

definition kept_store ::
  "foreign \<Rightarrow> 'b repository \<Rightarrow> bytes set \<Rightarrow> ('b \<Rightarrow> string \<Rightarrow> bytes option) \<Rightarrow> ('b \<Rightarrow> bool) \<Rightarrow> 'b world \<Rightarrow> 'b world \<Rightarrow> bool" where
  "kept_store L R U view good w w' \<longleftrightarrow>
     quiet w w' \<and> good (w_store w') \<and> grown L R U (view (w_store w)) (view (w_store w'))"

lemma kept_store_refl: "good (w_store w) \<Longrightarrow> kept_store L R U view good w w"
  by (simp add: kept_store_def)

lemma kept_store_trans:
  "kept_store L R U view good w u \<Longrightarrow> kept_store L R U view good u t \<Longrightarrow> kept_store L R U view good w t"
  unfolding kept_store_def using quiet_trans grown_trans by blast

lemma kept_store_inv: "kept_store L R U view good w u \<Longrightarrow> good (w_store u)"
  by (simp add: kept_store_def)

definition present :: "foreign \<Rightarrow> (string \<Rightarrow> bytes option) \<Rightarrow> bytes set \<Rightarrow> bool" where
  "present L v ds \<longleftrightarrow> (\<forall>d\<in>ds. v (bkey (blake3_hex L d)) \<noteq> None)"

definition seen_stored :: "(string \<Rightarrow> bytes option) \<Rightarrow> string set \<Rightarrow> bool" where
  "seen_stored v seen \<longleftrightarrow> (\<forall>h\<in>seen. v (bkey h) \<noteq> None)"

lemma present_kept:
  "kept_store L R U view good w u \<Longrightarrow> present L (view (w_store w)) ds \<Longrightarrow> present L (view (w_store u)) ds"
  unfolding kept_store_def present_def using grown_Some by blast

lemma seen_kept:
  "kept_store L R U view good w u \<Longrightarrow> seen_stored (view (w_store w)) s \<Longrightarrow> seen_stored (view (w_store u)) s"
  unfolding kept_store_def seen_stored_def using grown_Some by blast

section \<open>Chunking one file\<close>

type_synonym sink_acc = "snapshot_stats \<times> string set \<times> (string \<times> bytes) list \<times> string list"

definition chunk_item :: "foreign \<Rightarrow> sink_acc \<Rightarrow> (nat \<times> bytes) res \<Rightarrow> ('s, sink_acc) io" where
  "chunk_item L a item = bnd (lift_res item) (\<lambda>(off, c).
     file_sink a \<lparr> ck_hash = blake3_hex L c, ck_offset = of_nat off, ck_length = length c \<rparr> c)"

lemma chunk_item_Inl: "chunk_item L a (Inl e) = raise e"
  by (simp add: chunk_item_def)

lemma chunk_item_Inr:
  "chunk_item L (st, seen, pend, hs) (Inr (off, p)) =
     ret (st\<lparr> st_chunks := st_chunks st + 1, st_bytes := st_bytes st + of_nat (length p) \<rparr>,
          insert (blake3_hex L p) seen,
          (if blake3_hex L p \<notin> seen then pend @ [(blake3_hex L p, p)] else pend),
          hs @ [blake3_hex L p])"
  by (simp add: chunk_item_def file_sink_def Let_def)

text \<open>The chunks of a run of items: what they add to the sets the sink keeps.\<close>

definition chunked ::
  "foreign \<Rightarrow> bytes list \<Rightarrow> string set \<Rightarrow> (string \<times> bytes) list \<Rightarrow> (string \<times> bytes) list \<Rightarrow> bool" where
  "chunked L ps seen pend pend' \<longleftrightarrow> set pend \<subseteq> set pend'
     \<and> (\<forall>(h, d)\<in>set pend'. (h, d) \<in> set pend \<or> d \<in> set ps \<and> h = blake3_hex L d)
     \<and> (\<forall>p\<in>set ps. blake3_hex L p \<in> seen \<or> blake3_hex L p \<in> fst ` set pend')"

lemma fold_chunk_items:
  "\<exists>st' pend'. fold_io (chunk_item L) (st, seen, pend, hs) (map Inr (with_offsets off ps))
       = (ret (st', seen \<union> blake3_hex L ` set ps, pend', hs @ map (blake3_hex L) ps) :: ('s, sink_acc) io)
     \<and> chunked L ps seen pend pend'"
proof (induction ps arbitrary: off st seen pend hs)
  case Nil
  show ?case by (auto simp: chunked_def)
next
  case (Cons p ps)
  let ?st = "st\<lparr> st_chunks := st_chunks st + 1, st_bytes := st_bytes st + of_nat (length p) \<rparr>"
  let ?pend = "if blake3_hex L p \<notin> seen then pend @ [(blake3_hex L p, p)] else pend"
  obtain st' pend' where
    f: "fold_io (chunk_item L) (?st, insert (blake3_hex L p) seen, ?pend, hs @ [blake3_hex L p])
          (map Inr (with_offsets (off + length p) ps))
        = (ret (st', insert (blake3_hex L p) seen \<union> blake3_hex L ` set ps, pend',
            (hs @ [blake3_hex L p]) @ map (blake3_hex L) ps) :: ('s, sink_acc) io)"
    and c: "chunked L ps (insert (blake3_hex L p) seen) ?pend pend'"
    using Cons.IH [of ?st "insert (blake3_hex L p) seen" ?pend "hs @ [blake3_hex L p]" "off + length p"] by blast
  have "chunked L (p # ps) seen pend pend'"
  proof -
    have sub: "set ?pend \<subseteq> set pend'"
      and only: "\<forall>(h, d)\<in>set pend'. (h, d) \<in> set ?pend \<or> d \<in> set ps \<and> h = blake3_hex L d"
      and cov: "\<forall>x\<in>set ps. blake3_hex L x \<in> insert (blake3_hex L p) seen \<or> blake3_hex L x \<in> fst ` set pend'"
      using c by (simp_all add: chunked_def)
    have hp: "blake3_hex L p \<in> seen \<or> blake3_hex L p \<in> fst ` set pend'"
    proof (cases "blake3_hex L p \<in> seen")
      case False
      then have "(blake3_hex L p, p) \<in> set pend'" using sub by simp
      then show ?thesis by force
    qed simp
    have "set pend \<subseteq> set pend'" using sub by (simp split: if_splits)
    moreover have "\<forall>(h, d)\<in>set pend'. (h, d) \<in> set pend \<or> d \<in> set (p # ps) \<and> h = blake3_hex L d"
    proof clarify
      fix h d
      assume m: "(h, d) \<in> set pend'" "\<not> (d \<in> set (p # ps) \<and> h = blake3_hex L d)"
      then have "(h, d) \<in> set ?pend" using only by auto
      then show "(h, d) \<in> set pend" using m(2) by (auto split: if_splits)
    qed
    moreover have "\<forall>x\<in>set (p # ps). blake3_hex L x \<in> seen \<or> blake3_hex L x \<in> fst ` set pend'"
      using cov hp by (metis insertE set_ConsD)
    ultimately show ?thesis by (simp add: chunked_def)
  qed
  then show ?case using f
    by (intro exI [of _ st'] exI [of _ pend']) (simp add: chunk_item_Inr)
qed

lemma chunk_stream_items:
  "chunk_stream L rd cfg file_sink acc =
     bnd (lift_res (chunker_validate cfg)) (\<lambda>_. fold_io (chunk_item L) acc (stream_items L cfg rd))"
  by (simp add: chunk_stream_def chunk_item_def [abs_def])

lemma fold_io_append: "fold_io f a (xs @ ys) = bnd (fold_io f a xs) (\<lambda>b. fold_io f b ys)"
proof (induction xs arbitrary: a)
  case (Cons x xs)
  show ?case by (rule ext) (simp add: Cons.IH bnd_def split: prod.splits sum.splits)
qed simp

text \<open>A file whose contents can be read is cut into its chunks; one that cannot fails.\<close>

lemma chunk_stream_file:
  "(\<exists>st' pend'. chunk_stream L (Reader d) cfg file_sink (st, seen, [], [])
       = (ret (st', seen \<union> blake3_hex L ` set (fastcdc L cfg d), pend', map (blake3_hex L) (fastcdc L cfg d)) :: ('s, sink_acc) io)
     \<and> chunked L (fastcdc L cfg d) seen [] pend')
   \<or> chunk_stream L (Reader d) cfg file_sink (st, seen, [], []) = (raise InvalidChunkerConfig :: ('s, sink_acc) io) \<and> \<not> chunker_ok cfg"
proof (cases "chunker_validate cfg")
  case (Inl e)
  then show ?thesis using chunker_validate_err [OF Inl] chunker_validate_ok [of cfg]
    by (auto simp: chunk_stream_items)
next
  case (Inr u)
  then show ?thesis using fold_chunk_items [of L st seen "[]" "[]" 0 "fastcdc L cfg d"]
    by (auto simp: chunk_stream_items chunker_ok_validate)
qed

lemma chunk_stream_failing:
  "\<exists>e. chunk_stream L (FailingReader d n) cfg file_sink (st, seen, [], []) = (raise e :: ('s, sink_acc) io)"
proof (cases "chunker_validate cfg")
  case (Inl e)
  then show ?thesis by (auto simp: chunk_stream_items)
next
  case (Inr u)
  have t: "take n (with_offsets 0 ps) = with_offsets 0 (take n ps)" for ps :: "bytes list"
  proof -
    have "take n (with_offsets off ps) = with_offsets off (take n ps)" for off
      by (induction ps arbitrary: n off) (auto simp: take_Cons' split: nat.splits)
    then show ?thesis .
  qed
  obtain a where "fold_io (chunk_item L) (st, seen, [], []) (map Inr (with_offsets 0 (take n (fastcdc L cfg d))))
      = (ret a :: ('s, sink_acc) io)"
    using fold_chunk_items by blast
  then show ?thesis
    using Inr by (simp add: chunk_stream_items fold_io_append chunk_item_Inl t chunker_ok_validate) blast
qed

section \<open>The walk\<close>

text \<open>
  What a walk over one source node has achieved when it returns a node: the node is the
  prescribed one, all its chunks are stored, and every hash in the run's set is stored.
\<close>

definition walked ::
  "foreign \<Rightarrow> 'b repository \<Rightarrow> (string \<Rightarrow> bytes option) \<Rightarrow> string \<Rightarrow> src \<Rightarrow> (node \<times> run) res \<Rightarrow> bool" where
  "walked L R v nm s r \<longleftrightarrow> (\<forall>nd run'. r = Inr (nd, run') \<longrightarrow>
     nd = src_node L (rc_chunker (rp_config R)) nm s \<and> readable s \<and> \<not> is_other s
     \<and> present L v (set (src_pieces L (rc_chunker (rp_config R)) s)) \<and> seen_stored v (ru_seen run'))"

context backend
begin

lemma wp_fold_missing:
  assumes R: "rp_backend R = B" and L: "foreign_laws L" and w: "good (w_store w)"
    and xs: "\<forall>(h, d)\<in>set xs. d \<in> U \<and> h = blake3_hex L d"
  shows "wp (fold_io (\<lambda>a (h, d). bnd (put_missing L R h d) (\<lambda>r. ret (g a h r))) acc xs)
    (\<lambda>r w'. kept_store L R U view good w w' \<and> (is_ok r \<longrightarrow> present L (view (w_store w')) (snd ` set xs))) w"
  apply (rule wp_fold_io [where Inv = "\<lambda>done _ w'. kept_store L R U view good w w'
      \<and> present L (view (w_store w')) (snd ` set done)"])
    apply (simp add: kept_store_refl w present_def)
   apply (clarsimp simp: wp_simps)
   apply (rule wp_mono [OF wp_put_missing [OF R L, where U = U]])
      apply (auto simp: kept_store_def) [1]
  subgoal using xs by auto
  subgoal using xs by auto
  subgoal for dn h d rest a t r t'
    using xs present_kept [of L R U view good t t' "snd ` set dn"] kept_store_trans [of L R U view good w t t']
    by (auto simp: kept_store_def wp_simps present_def split: sum.splits)
  subgoal by simp
  done

lemma wp_store_pending:
  assumes "rp_backend R = B" "foreign_laws L" "good (w_store w)"
    and "\<forall>(h, d)\<in>set xs. d \<in> U \<and> h = blake3_hex L d"
  shows "wp (store_pending L R acc xs)
    (\<lambda>r w'. kept_store L R U view good w w' \<and> (is_ok r \<longrightarrow> present L (view (w_store w')) (snd ` set xs))) w"
proof -
  have "(\<lambda>(stats, written) (hex, d). bnd (put_missing L R hex d) (\<lambda>wr. ret (case wr of
           None \<Rightarrow> (stats, written)
         | Some n \<Rightarrow> (count_new n stats, written(hex \<mapsto> of_nat n)))))
      = (\<lambda>a (h, d). bnd (put_missing L R h d) (\<lambda>r. ret ((\<lambda>(stats, written) hex wr. case wr of
           None \<Rightarrow> (stats, written)
         | Some n \<Rightarrow> (count_new n stats, written(hex \<mapsto> of_nat n))) a h r)))"
    by (auto intro!: ext)
  note eq = this
  show ?thesis unfolding store_pending_def eq by (rule wp_fold_missing [OF assms])
qed

lemma wp_store_node_blobs:
  assumes "rp_backend R = B" "foreign_laws L" "good (w_store w)"
    and "\<forall>(h, d)\<in>set xs. d \<in> U \<and> h = blake3_hex L d"
  shows "wp (store_node_blobs L R acc xs)
    (\<lambda>r w'. kept_store L R U view good w w' \<and> (is_ok r \<longrightarrow> present L (view (w_store w')) (snd ` set xs))) w"
proof -
  have "(\<lambda>(stats, written) (hex, d). bnd (put_missing L R hex d) (\<lambda>wr. ret (case wr of
           None \<Rightarrow> (stats, written)
         | Some n \<Rightarrow> (stats\<lparr> st_new_tree_nodes := st_new_tree_nodes stats + 1 \<rparr>, written(hex \<mapsto> of_nat n)))))
      = (\<lambda>a (h, d). bnd (put_missing L R h d) (\<lambda>r. ret ((\<lambda>(stats, written) hex wr. case wr of
           None \<Rightarrow> (stats, written)
         | Some n \<Rightarrow> (stats\<lparr> st_new_tree_nodes := st_new_tree_nodes stats + 1 \<rparr>, written(hex \<mapsto> of_nat n))) a h r)))"
    by (auto intro!: ext)
  note eq = this
  show ?thesis unfolding store_node_blobs_def eq by (rule wp_fold_missing [OF assms])
qed

lemma wp_backup_file:
  assumes R: "rp_backend R = B" and L: "foreign_laws L" and w: "good (w_store w)"
    and seen: "seen_stored (view (w_store w)) (ru_seen run)"
    and U: "set (src_pieces L (rc_chunker (rp_config R)) (SrcFile md rd)) \<subseteq> U"
  shows "wp (backup_file L R nm path md rd run)
    (\<lambda>r w'. kept_store L R U view good w w' \<and> walked L R (view (w_store w')) nm (SrcFile md rd) r) w"
proof (cases rd)
  case None
  then show ?thesis by (simp add: backup_file_def wp_simps kept_store_refl w walked_def)
next
  case (Some f)
  show ?thesis
  proof (cases f)
    case (FailingReader d n)
    obtain e where "chunk_stream L f (rc_chunker (rp_config R)) file_sink (ru_stats run, ru_seen run, [], [])
        = (raise e :: ('b world, sink_acc) io)"
      using chunk_stream_failing FailingReader by blast
    then show ?thesis
      by (simp add: backup_file_def Some wp_simps kept_store_refl w walked_def)
  next
    case (Reader d)
    let ?ps = "fastcdc L (rc_chunker (rp_config R)) d"
    consider st' pend' where
      "chunk_stream L f (rc_chunker (rp_config R)) file_sink (ru_stats run, ru_seen run, [], [])
        = (ret (st', ru_seen run \<union> blake3_hex L ` set ?ps, pend', map (blake3_hex L) ?ps) :: ('b world, sink_acc) io)"
      "chunked L ?ps (ru_seen run) [] pend'"
    | "chunk_stream L f (rc_chunker (rp_config R)) file_sink (ru_stats run, ru_seen run, [], [])
        = (raise InvalidChunkerConfig :: ('b world, sink_acc) io)"
      using chunk_stream_file Reader by blast
    then show ?thesis
    proof cases
      case 2
      then show ?thesis by (simp add: backup_file_def Some wp_simps kept_store_refl w walked_def)
    next
      case 1
      have pend: "\<forall>(h, d)\<in>set pend'. d \<in> U \<and> h = blake3_hex L d"
        using 1(2) U Some Reader by (auto simp: chunked_def)
      have stored: "seen_stored v (ru_seen run \<union> blake3_hex L ` set ?ps) \<and> present L v (set ?ps)"
        if s: "seen_stored v (ru_seen run)" and p: "present L v (snd ` set pend')" for v
      proof -
        have "v (bkey (blake3_hex L x)) \<noteq> None" if "x \<in> set ?ps" for x
        proof -
          have "blake3_hex L x \<in> ru_seen run \<or> blake3_hex L x \<in> fst ` set pend'"
            using 1(2) that by (auto simp: chunked_def)
          then show ?thesis
          proof
            assume "blake3_hex L x \<in> fst ` set pend'"
            then obtain d' where "(blake3_hex L x, d') \<in> set pend'" by auto
            moreover from this have "blake3_hex L x = blake3_hex L d'" using pend by auto
            ultimately show ?thesis using p unfolding present_def by force
          qed (use s in \<open>auto simp: seen_stored_def\<close>)
        qed
        then show ?thesis using s by (auto simp: seen_stored_def present_def)
      qed
      show ?thesis
        unfolding backup_file_def Some option.case 1(1) bnd_ret prod.case wp_bnd
        by (rule wp_mono [OF wp_store_pending [OF R L w pend]])
          (use seen stored Some Reader in \<open>auto simp: walked_def wp_simps split: sum.splits dest: seen_kept\<close>)
    qed
  qed
qed

lemma wp_backup_dir:
  assumes R: "rp_backend R = B" and L: "foreign_laws L"
  shows "\<lbrakk> good (w_store w); seen_stored (view (w_store w)) (ru_seen run);
      set (src_pieces L (rc_chunker (rp_config R)) s) \<subseteq> U \<rbrakk>
    \<Longrightarrow> wp (backup_dir L R nm path s run)
      (\<lambda>r w'. kept_store L R U view good w w' \<and> walked L R (view (w_store w')) nm s r) w"
proof (induction s arbitrary: nm path run w rule: measure_induct_rule [of size])
  case (less s)
  let ?cfg = "rc_chunker (rp_config R)"
  show ?case
  proof (cases "\<exists>entries. s = SrcDir (Some entries)")
    case False
    then show ?thesis
      by (cases s; cases "case s of SrcDir e \<Rightarrow> e | _ \<Rightarrow> None")
        (auto simp: wp_simps kept_store_refl less.prems walked_def)
  next
    case True
    then obtain entries where s: "s = SrcDir (Some entries)" by blast
    let ?f = "\<lambda>acc x. case (acc, x) of ((children, run), (n, e)) \<Rightarrow> (case e of
            SrcDir es \<Rightarrow> bnd (backup_dir L R (to_string_lossy n) (path @ [n]) e run) (\<lambda>(nd, run'). ret (children @ [nd], run'))
          | SrcFile md rd \<Rightarrow>
              bnd (backup_file L R (to_string_lossy n) (path @ [n]) md rd run) (\<lambda>(nd, run'). ret (children @ [nd], run'))
          | SrcUntyped \<Rightarrow> raise (Io (path_str (path @ [n])))
          | _ \<Rightarrow> ret (children, run))"
    define Inv where "Inv = (\<lambda>done (children, run' :: run) t. kept_store L R U view good w t
        \<and> seen_stored (view (w_store t)) (ru_seen run')
        \<and> children = map (\<lambda>(n, e). src_node L ?cfg (to_string_lossy n) e) (filter (\<lambda>(n, e). \<not> is_other e) done)
        \<and> (\<forall>(n, e)\<in>set done. readable e \<and> present L (view (w_store t)) (set (src_pieces L ?cfg e))))"
    have step: "wp (?f a x) (\<lambda>r u. case r of Inl e \<Rightarrow> kept_store L R U view good w u
          | Inr b \<Rightarrow> Inv (done @ [x]) b u) t"
      if x: "x \<in> set entries" and I: "Inv done a t" for "done" x a t
    proof -
      obtain children run' where a: "a = (children, run')" by fastforce
      obtain n e where ne: "x = (n, e)" by fastforce
      have k: "kept_store L R U view good w t" and sn: "seen_stored (view (w_store t)) (ru_seen run')"
        using I by (auto simp: Inv_def a)
      have g: "good (w_store t)" using k by (rule kept_store_inv)
      have pU: "set (src_pieces L ?cfg e) \<subseteq> U"
        using less.prems(3) x by (force simp: s ne)
      have next_ok: "Inv (done @ [x]) (children @ [nd], run'') u"
        if "kept_store L R U view good t u" "walked L R (view (w_store u)) (to_string_lossy n) e (Inr (nd, run''))" for nd run'' u
        using that I kept_store_trans [OF k that(1)]
        by (auto simp: Inv_def a ne walked_def dest: present_kept [OF that(1)])
      show ?thesis
      proof (cases e)
        case SrcOther
        then show ?thesis using I by (auto simp: Inv_def a ne wp_simps present_def)
      next
        case SrcLost
        then show ?thesis using I by (auto simp: Inv_def a ne wp_simps present_def)
      next
        case SrcUntyped
        then show ?thesis using k by (simp add: a ne wp_simps)
      next
        case (SrcFile md rd)
        show ?thesis
          unfolding a ne prod.case SrcFile src.case wp_bnd
          by (rule wp_mono [OF wp_backup_file [OF R L g sn pU [unfolded SrcFile]]])
            (use next_ok kept_store_trans [OF k] in \<open>auto simp: SrcFile ne wp_simps split: sum.splits\<close>)
      next
        case (SrcDir es)
        have sz: "size e < size s" using src_child_size [of n e entries] x s ne by simp
        show ?thesis
          unfolding a ne prod.case SrcDir src.case wp_bnd
          by (rule wp_mono [OF less.IH [OF sz g sn pU, unfolded SrcDir]])
            (use next_ok kept_store_trans [OF k] in \<open>auto simp: SrcDir ne wp_simps split: sum.splits\<close>)
      qed
    qed
    have "wp (fold_io ?f ([], run) (listed_entries entries))
        (\<lambda>r u. case r of Inl e \<Rightarrow> kept_store L R U view good w u | Inr b \<Rightarrow> Inv (listed_entries entries) b u) w"
    proof (rule wp_fold_io [where Inv = Inv])
      show "Inv [] ([], run) w" using less.prems by (simp add: Inv_def kept_store_refl)
    next
      fix "done" x rest a t
      assume d: "listed_entries entries = done @ x # rest" and I: "Inv done a t"
      have "x \<in> set (listed_entries entries)" using d by simp
      then have "x \<in> set entries" by auto
      note s1 = step [OF this I]
      show "wp (?f a x) (\<lambda>r u. case r of
            Inl e \<Rightarrow> (case Inl e of Inl e \<Rightarrow> kept_store L R U view good w u | Inr b \<Rightarrow> Inv (listed_entries entries) b u)
          | Inr b \<Rightarrow> Inv (done @ [x]) b u) t"
        unfolding sum.case by (rule s1)
    qed simp
    then show ?thesis
      unfolding s backup_dir.simps wp_bnd
    proof (rule wp_mono)
      have lost: "readable SrcLost" "present L v (set (src_pieces L ?cfg SrcLost))" for v by (simp_all add: present_def)
      have all: "\<forall>(n, e)\<in>set entries. readable e \<and> present L v (set (src_pieces L ?cfg e))"
        if "\<forall>(n, e)\<in>set (listed_entries entries). readable e \<and> present L v (set (src_pieces L ?cfg e))" for v
        using that lost by fastforce
      fix r :: "(node list \<times> run) res" and u
      assume q: "case r of Inl e \<Rightarrow> kept_store L R U view good w u | Inr b \<Rightarrow> Inv (listed_entries entries) b u"
      show "case r of Inl e \<Rightarrow> (kept_store L R U view good w u \<and> walked L R (view (w_store u)) nm (SrcDir (Some entries)) (Inl e))
        | Inr b \<Rightarrow> wp (case b of (children, run') \<Rightarrow> ret (sort_node (Dir nm children), run'))
            (\<lambda>r u. kept_store L R U view good w u \<and> walked L R (view (w_store u)) nm (SrcDir (Some entries)) r) u"
        using q all [of "view (w_store u)"]
        by (auto simp: wp_simps walked_def Inv_def present_def taken_entries_def split: sum.splits)
    qed
  qed
qed

end

text \<open>The roots of a backup: every given path resolves, and its tree is walked.\<close>

definition roots_walked ::
  "foreign \<Rightarrow> chunker_config \<Rightarrow> source_fs \<Rightarrow> (string \<Rightarrow> bytes option) \<Rightarrow> string list \<Rightarrow> string list \<Rightarrow> node list \<Rightarrow> bool" where
  "roots_walked L cfg sfs v paths roots children \<longleftrightarrow>
     (\<forall>p\<in>set paths. \<exists>cp s. sfs p = Some (cp, s) \<and> readable s \<and> \<not> is_other s
        \<and> present L v (set (src_pieces L cfg s)))
   \<and> roots = map (\<lambda>p. display_path (fst (the (sfs p)))) paths
   \<and> children = map (\<lambda>p. src_node L cfg (file_name (fst (the (sfs p)))) (snd (the (sfs p)))) paths"

lemma roots_walked_snoc:
  "\<lbrakk> roots_walked L cfg sfs v paths roots children; sfs p = Some (cp, s); readable s; \<not> is_other s;
     present L v (set (src_pieces L cfg s)) \<rbrakk>
   \<Longrightarrow> roots_walked L cfg sfs v (paths @ [p]) (roots @ [display_path cp]) (children @ [src_node L cfg (file_name cp) s])"
  by (auto simp: roots_walked_def)

lemma roots_walked_kept:
  "kept_store L R U view good w u \<Longrightarrow> roots_walked L cfg sfs (view (w_store w)) paths roots children
    \<Longrightarrow> roots_walked L cfg sfs (view (w_store u)) paths roots children"
  unfolding roots_walked_def using present_kept by blast

definition roots_inv ::
  "foreign \<Rightarrow> 'b repository \<Rightarrow> bytes set \<Rightarrow> ('b \<Rightarrow> string \<Rightarrow> bytes option) \<Rightarrow> ('b \<Rightarrow> bool) \<Rightarrow> 'b world \<Rightarrow> source_fs
    \<Rightarrow> string list \<Rightarrow> string list \<times> node list \<times> run \<Rightarrow> 'b world \<Rightarrow> bool" where
  "roots_inv L R U view good w sfs paths acc t \<longleftrightarrow> kept_store L R U view good w t
     \<and> seen_stored (view (w_store t)) (ru_seen (snd (snd acc)))
     \<and> roots_walked L (rc_chunker (rp_config R)) sfs (view (w_store t)) paths (fst acc) (fst (snd acc))"

definition sources_within :: "foreign \<Rightarrow> chunker_config \<Rightarrow> source_fs \<Rightarrow> string list \<Rightarrow> bytes set \<Rightarrow> bool" where
  "sources_within L cfg sfs paths U \<longleftrightarrow>
     (\<forall>p\<in>set paths. \<forall>cp s. sfs p = Some (cp, s) \<longrightarrow> set (src_pieces L cfg s) \<subseteq> U)"

context backend
begin

lemma wp_walk_roots:
  assumes R: "rp_backend R = B" and L: "foreign_laws L" and w: "good (w_store w)"
    and U: "sources_within L (rc_chunker (rp_config R)) sfs paths U"
  shows "wp (walk_roots L R sfs paths) (\<lambda>r t. case r of
      Inl _ \<Rightarrow> kept_store L R U view good w t | Inr acc \<Rightarrow> roots_inv L R U view good w sfs paths acc t) w"
  unfolding walk_roots_def
proof (rule wp_fold_io [where Inv = "roots_inv L R U view good w sfs"])
  show "roots_inv L R U view good w sfs [] ([], [], empty_run) w"
    by (simp add: roots_inv_def kept_store_refl w seen_stored_def empty_run_def roots_walked_def)
next
  fix "done" p rest a t
  assume d: "paths = done @ p # rest" and I: "roots_inv L R U view good w sfs done a t"
  obtain roots children run where a: "a = (roots, children, run)" by (cases a)
  have k: "kept_store L R U view good w t" and sn: "seen_stored (view (w_store t)) (ru_seen run)"
    and rw: "roots_walked L (rc_chunker (rp_config R)) sfs (view (w_store t)) done roots children"
    using I by (auto simp: roots_inv_def a)
  have next_ok: "roots_inv L R U view good w sfs (done @ [p]) (roots @ [display_path cp], children @ [nd], run') u"
    if "sfs p = Some (cp, s)" "kept_store L R U view good t u"
      "walked L R (view (w_store u)) (file_name cp) s (Inr (nd, run'))" for cp s nd run' u
    using that kept_store_trans [OF k that(2)]
      roots_walked_snoc [OF roots_walked_kept [OF that(2) rw] that(1)]
    by (simp add: roots_inv_def walked_def)
  show "wp ((\<lambda>(roots, children, run) p. case sfs p of
         None \<Rightarrow> raise (Io p)
       | Some (cp, s) \<Rightarrow> bnd (backup_dir L R (file_name cp) cp s run) (\<lambda>(nd, run').
           ret (roots @ [display_path cp], children @ [nd], run'))) a p)
     (\<lambda>r u. case r of
         Inl e \<Rightarrow> (case Inl e of Inl _ \<Rightarrow> kept_store L R U view good w u
                    | Inr acc \<Rightarrow> roots_inv L R U view good w sfs paths acc u)
       | Inr b \<Rightarrow> roots_inv L R U view good w sfs (done @ [p]) b u) t"
  proof (cases "sfs p")
    case None
    then show ?thesis by (simp add: a wp_simps k)
  next
    case (Some x)
    obtain cp s where x: "x = (cp, s)" by fastforce
    have pU: "set (src_pieces L (rc_chunker (rp_config R)) s) \<subseteq> U"
      using U d Some x by (auto simp: sources_within_def)
    show ?thesis
      unfolding a prod.case Some option.case x wp_bnd
      by (rule wp_mono [OF wp_backup_dir [OF R L kept_store_inv [OF k] sn pU]])
        (use next_ok Some x kept_store_trans [OF k] in \<open>auto simp: wp_simps split: sum.splits\<close>)
  qed
qed simp

end

section \<open>The commit\<close>

text \<open>
  The states a commit can leave behind, over a store that already holds the chunks:
  some of the node blobs; all of them and the index; or all of them, the index and the
  manifest. Only in the last case has the snapshot become visible.
\<close>

definition committed ::
  "foreign \<Rightarrow> 'b repository \<Rightarrow> bytes set \<Rightarrow> node \<Rightarrow> string \<Rightarrow> (string \<Rightarrow> bytes option) \<Rightarrow> (string \<Rightarrow> bytes option)
    \<Rightarrow> snapshot res \<Rightarrow> bool" where
  "committed L R U root uid v v' r \<longleftrightarrow> (\<exists>v1. grown L R U v v1 \<and>
     (v' = v1 \<and> \<not> is_ok r
      \<or> (\<exists>root' blobs ib sn written.
           build_stored L root = Inr (root', blobs) \<and> present L v1 (snd ` set blobs)
         \<and> sn_id sn = uid \<and> sn_root sn = root'
         \<and> open_for L R CtxDoc ib = Inr (index_json L (build_index sn written))
         \<and> (v' = v1(index_key uid \<mapsto> ib) \<and> \<not> is_ok r
            \<or> (\<exists>mb. open_for L R CtxDoc mb = Inr (snapshot_json L sn)
                 \<and> v' = v1(index_key uid \<mapsto> ib, snapshot_key uid \<mapsto> mb)
                 \<and> (\<forall>sn'. r = Inr sn' \<longrightarrow> sn' = sn))))))"

text \<open>The part of the world a commit moves beside the store and the random supply.\<close>

definition commits_from :: "'b world \<Rightarrow> 'b world \<Rightarrow> bool" where
  "commits_from w t \<longleftrightarrow> w_os t = w_os w \<and> w_uuids t = w_uuids w \<and> w_clock t = w_clock w \<and> w_host t = w_host w"

lemma quiet_commits: "quiet w t \<Longrightarrow> commits_from w t"
  by (simp add: commits_from_def quiet_fields)

lemma commits_trans: "commits_from w t \<Longrightarrow> commits_from t u \<Longrightarrow> commits_from w u"
  by (simp add: commits_from_def)

lemma committed_none: "grown L R U v v1 \<Longrightarrow> committed L R U root uid v v1 (Inl e)"
  unfolding committed_def by (rule exI [of _ v1]) simp

lemma wp_seal_for:
  assumes "foreign_laws L"
  shows "wp (seal_for L R ctx d) (\<lambda>r t. quiet w t \<and> w_store t = w_store w
     \<and> (\<forall>s. r = Inr s \<longrightarrow> open_for L R ctx s = Inr d)) w"
  by (rule wp_mono [OF open_seal_for [OF assms]]) (auto dest: rng_only_quiet)

context backend
begin

text \<open>Index first, then the manifest, over a store that holds all the blobs.\<close>

lemma wp_write_documents:
  assumes R: "rp_backend R = B" and L: "foreign_laws L" and w: "good (w_store w)" and uid: "ident uid"
    and v1: "view (w_store w) = v1" "grown L R U v v1"
    and fresh: "unused_id v uid"
    and bs: "build_stored L root = Inr (sn_root sn, blobs)" "present L v1 (snd ` set blobs)" and sn: "sn_id sn = uid"
    and ix: "ix = build_index sn written"
  shows "wp (bnd (seal_for L R CtxDoc (index_json L ix)) (\<lambda>ib.
         bnd (put_obj R (index_key (sn_id sn)) ib) (\<lambda>_.
         bnd (seal_for L R CtxDoc (snapshot_json L sn)) (\<lambda>mb.
         bnd (put_obj R (snapshot_key (sn_id sn)) mb) (\<lambda>_. ret sn)))))
     (\<lambda>r t. commits_from w t \<and> good (w_store t) \<and> committed L R U root uid v (view (w_store t)) r) w"
proof -
  have none: "committed L R U root uid v v1 (Inl e)" for e
    by (rule committed_none [OF v1(2)])
  have new: "v1 (index_key uid) = None" "v1 (snapshot_key uid) = None"
    using unused_grown [OF v1(2) fresh] by (simp_all add: unused_id_def)
  have half: "committed L R U root uid v (v1(index_key uid \<mapsto> ib)) (Inl e)"
    if "open_for L R CtxDoc ib = Inr (index_json L ix)" for ib e
    unfolding committed_def
    by (rule exI [of _ v1], intro conjI disjI2 exI [of _ "sn_root sn"] exI [of _ blobs] exI [of _ ib]
        exI [of _ sn] exI [of _ written] disjI1)
      (use that v1 bs sn ix in auto)
  have full: "committed L R U root uid v (v1(index_key uid \<mapsto> ib, snapshot_key uid \<mapsto> mb)) r"
    if "open_for L R CtxDoc ib = Inr (index_json L ix)" "open_for L R CtxDoc mb = Inr (snapshot_json L sn)"
      "\<forall>sn'. r = Inr sn' \<longrightarrow> sn' = sn" for ib mb r
    unfolding committed_def
    by (rule exI [of _ v1], intro conjI disjI2 exI [of _ "sn_root sn"] exI [of _ blobs] exI [of _ ib]
        exI [of _ sn] exI [of _ written] exI [of _ mb])
      (use that v1 bs sn ix in auto)
  have last: "wp (bnd (put_obj R (snapshot_key uid) mb) (\<lambda>_. ret sn))
      (\<lambda>r t. commits_from w t \<and> good (w_store t) \<and> committed L R U root uid v (view (w_store t)) r) u"
    if "commits_from w u" "good (w_store u)" "view (w_store u) = v1(index_key uid \<mapsto> ib)"
      "open_for L R CtxDoc ib = Inr (index_json L ix)" "open_for L R CtxDoc mb = Inr (snapshot_json L sn)" for u ib mb
    unfolding wp_bnd
    by (rule wp_mono [OF wp_create_obj [OF R that(2) repo_key_snapshot [OF uid]]])
      (use that new half full in \<open>auto simp: wp_simps split: sum.splits intro: commits_trans quiet_commits\<close>)
  have second: "wp (bnd (seal_for L R CtxDoc (snapshot_json L sn)) (\<lambda>mb.
         bnd (put_obj R (snapshot_key uid) mb) (\<lambda>_. ret sn)))
      (\<lambda>r t. commits_from w t \<and> good (w_store t) \<and> committed L R U root uid v (view (w_store t)) r) u"
    if "commits_from w u" "good (w_store u)" "view (w_store u) = v1(index_key uid \<mapsto> ib)"
      "open_for L R CtxDoc ib = Inr (index_json L ix)" for u ib
    unfolding wp_bnd [of "seal_for L R CtxDoc (snapshot_json L sn)"]
  proof (rule wp_mono [OF wp_seal_for [OF L]])
    fix r :: "bytes res" and t
    assume a: "quiet u t \<and> w_store t = w_store u \<and> (\<forall>s. r = Inr s \<longrightarrow> open_for L R CtxDoc s = Inr (snapshot_json L sn))"
    have c: "commits_from w t" using a that(1) commits_trans quiet_commits by blast
    show "case r of Inl e \<Rightarrow> commits_from w t \<and> good (w_store t) \<and> committed L R U root uid v (view (w_store t)) (Inl e)
      | Inr mb \<Rightarrow> wp (bnd (put_obj R (snapshot_key uid) mb) (\<lambda>_. ret sn))
          (\<lambda>r t. commits_from w t \<and> good (w_store t) \<and> committed L R U root uid v (view (w_store t)) r) t"
      by (cases r) (use a that c half last [OF c _ _ that(4)] in auto)
  qed
  have first: "wp (bnd (put_obj R (index_key uid) ib) (\<lambda>_.
         bnd (seal_for L R CtxDoc (snapshot_json L sn)) (\<lambda>mb.
         bnd (put_obj R (snapshot_key uid) mb) (\<lambda>_. ret sn))))
      (\<lambda>r t. commits_from w t \<and> good (w_store t) \<and> committed L R U root uid v (view (w_store t)) r) u"
    if "commits_from w u" "good (w_store u)" "view (w_store u) = v1"
      "open_for L R CtxDoc ib = Inr (index_json L ix)" for u ib
    unfolding wp_bnd [of "put_obj R (index_key uid) ib"]
  proof (rule wp_mono [OF wp_create_obj [OF R that(2) repo_key_index [OF uid]]])
    fix r :: "unit res" and t
    assume a: "quiet u t \<and> good (w_store t) \<and> (case r of
        Inl _ \<Rightarrow> view (w_store t) = view (w_store u) \<or> view (w_store t) = (view (w_store u))(index_key uid \<mapsto> ib)
      | Inr _ \<Rightarrow> view (w_store t) = (view (w_store u))(index_key uid \<mapsto> ib))"
    have c: "commits_from w t" using a that(1) commits_trans quiet_commits by blast
    show "case r of Inl e \<Rightarrow> commits_from w t \<and> good (w_store t) \<and> committed L R U root uid v (view (w_store t)) (Inl e)
      | Inr _ \<Rightarrow> wp (bnd (seal_for L R CtxDoc (snapshot_json L sn)) (\<lambda>mb.
            bnd (put_obj R (snapshot_key uid) mb) (\<lambda>_. ret sn)))
          (\<lambda>r t. commits_from w t \<and> good (w_store t) \<and> committed L R U root uid v (view (w_store t)) r) t"
      by (cases r) (use a that new c none half second [OF c _ _ that(4)] in auto)
  qed (use that new in simp)
  show ?thesis
    unfolding sn wp_bnd [of "seal_for L R CtxDoc (index_json L ix)"]
  proof (rule wp_mono [OF wp_seal_for [OF L]])
    fix r :: "bytes res" and t
    assume a: "quiet w t \<and> w_store t = w_store w \<and> (\<forall>s. r = Inr s \<longrightarrow> open_for L R CtxDoc s = Inr (index_json L ix))"
    have c: "commits_from w t" using a quiet_commits by blast
    show "case r of Inl e \<Rightarrow> commits_from w t \<and> good (w_store t) \<and> committed L R U root uid v (view (w_store t)) (Inl e)
      | Inr ib \<Rightarrow> wp (bnd (put_obj R (index_key uid) ib) (\<lambda>_.
            bnd (seal_for L R CtxDoc (snapshot_json L sn)) (\<lambda>mb.
            bnd (put_obj R (snapshot_key uid) mb) (\<lambda>_. ret sn))))
          (\<lambda>r t. commits_from w t \<and> good (w_store t) \<and> committed L R U root uid v (view (w_store t)) r) t"
      by (cases r) (use a w v1 c none first [OF c] in auto)
  qed
qed

lemma wp_commit_snapshot:
  assumes R: "rp_backend R = B" and L: "foreign_laws L" and w: "good (w_store w)"
    and uid: "ident (w_uuids w (w_uuid_pos w))"
    and fresh: "unused_id (view (w_store w)) (w_uuids w (w_uuid_pos w))"
    and U: "\<forall>root' blobs. build_stored L (sort_node root) = Inr (root', blobs) \<longrightarrow> snd ` set blobs \<subseteq> U"
  shows "wp (commit_snapshot L R root paths stats written)
     (\<lambda>r t. commits_from w t \<and> good (w_store t)
        \<and> committed L R U (sort_node root) (w_uuids w (w_uuid_pos w)) (view (w_store w)) (view (w_store t)) r) w"
proof (cases "build_stored L (sort_node root)")
  case (Inl e)
  show ?thesis by (simp add: commit_snapshot_def Inl wp_simps w quiet_commits committed_none)
next
  case (Inr rb)
  obtain root' blobs where rb: "rb = (root', blobs)" by fastforce
  have bl: "\<forall>(h, d)\<in>set blobs. d \<in> U \<and> h = blake3_hex L d"
    using U Inr rb store_content_addressed(1) [of L "sort_node root" "[]" root' blobs]
    by (fastforce simp: build_stored_def addressed_def)
  show ?thesis
    unfolding commit_snapshot_def Inr rb lift_res_Inr bnd_ret prod.case wp_bnd [of "store_node_blobs L R (stats, written) blobs"]
  proof (rule wp_mono [OF wp_store_node_blobs [OF R L w bl]], clarify)
    fix r :: "(snapshot_stats \<times> (string \<Rightarrow> 64 word option)) res" and t
    assume k: "kept_store L R U view good w t" and p: "is_ok r \<longrightarrow> present L (view (w_store t)) (snd ` set blobs)"
    have g: "good (w_store t)" "grown L R U (view (w_store w)) (view (w_store t))" "quiet w t"
      using k by (auto simp: kept_store_def)
    show "case r of Inl e \<Rightarrow> commits_from w t \<and> good (w_store t)
          \<and> committed L R U (sort_node root) (w_uuids w (w_uuid_pos w)) (view (w_store w)) (view (w_store t)) (Inl e)
      | Inr a \<Rightarrow> wp (case a of (stats, written) \<Rightarrow> bnd new_uuid (\<lambda>uid. bnd now_rfc3339 (\<lambda>time. bnd get_hostname (\<lambda>host.
          let sn = \<lparr> sn_id = uid, sn_time = time, sn_hostname = host, sn_paths = paths,
                sn_root = root', sn_stats = stats \<rparr>;
              index = build_index sn written
          in bnd (seal_for L R CtxDoc (index_json L index)) (\<lambda>index_bytes.
             bnd (put_obj R (index_key (sn_id sn)) index_bytes) (\<lambda>_.
             bnd (seal_for L R CtxDoc (snapshot_json L sn)) (\<lambda>manifest_bytes.
             bnd (put_obj R (snapshot_key (sn_id sn)) manifest_bytes) (\<lambda>_. ret sn))))))))
          (\<lambda>r t. commits_from w t \<and> good (w_store t)
            \<and> committed L R U (sort_node root) (w_uuids w (w_uuid_pos w)) (view (w_store w)) (view (w_store t)) r) t"
    proof (cases r)
      case (Inl e)
      then show ?thesis using g by (auto simp: committed_none quiet_commits)
    next
      case (Inr a)
      obtain st wr where a: "a = (st, wr)" by fastforce
      have f: "w_uuids t = w_uuids w" "w_uuid_pos t = w_uuid_pos w" using quiet_fields [OF g(3)] by auto
      let ?u = "t\<lparr> w_uuid_pos := Suc (w_uuid_pos t), w_clock_pos := Suc (w_clock_pos t) \<rparr>"
      have cu: "commits_from w ?u" using quiet_commits [OF g(3)] by (simp add: commits_from_def)
      show ?thesis
        unfolding Inr sum.case a prod.case wp_bnd [of new_uuid] wp_new_uuid wp_bnd [of now_rfc3339] wp_now
          wp_bnd [of get_hostname] wp_get_hostname Let_def f
        by (rule wp_mono [OF wp_write_documents [OF R L _ uid _ g(2) fresh]])
          (use g cu p Inr Inr bl \<open>build_stored L (sort_node root) = Inr rb\<close> rb in
            \<open>auto simp: f intro: commits_trans\<close>)
    qed
  qed
qed

end

section \<open>The backup\<close>

text \<open>
  The tree of the sources \<open>paths\<close> under the synthetic root, in canonical order, and what
  a backup leaves behind: only blobs; blobs and index; or blobs, index and manifest. In
  the two latter cases every source has been read to its end and all its chunks and node
  blobs were stored before.
\<close>

definition sources_root :: "foreign \<Rightarrow> chunker_config \<Rightarrow> source_fs \<Rightarrow> string list \<Rightarrow> node" where
  "sources_root L cfg sfs paths = sort_node (Dir ''root''
     (map (\<lambda>p. src_node L cfg (file_name (fst (the (sfs p)))) (snd (the (sfs p)))) paths))"

definition sources_read :: "foreign \<Rightarrow> chunker_config \<Rightarrow> source_fs \<Rightarrow> (string \<Rightarrow> bytes option) \<Rightarrow> string list \<Rightarrow> bool" where
  "sources_read L cfg sfs v paths \<longleftrightarrow> (\<forall>p\<in>set paths. \<exists>cp s. sfs p = Some (cp, s)
     \<and> readable s \<and> \<not> is_other s \<and> present L v (set (src_pieces L cfg s)))"

definition left_by_backup ::
  "foreign \<Rightarrow> 'b repository \<Rightarrow> bytes set \<Rightarrow> source_fs \<Rightarrow> string list \<Rightarrow> string \<Rightarrow> (string \<Rightarrow> bytes option)
    \<Rightarrow> (string \<Rightarrow> bytes option) \<Rightarrow> snapshot res \<Rightarrow> bool" where
  "left_by_backup L R U sfs paths uid v v' r \<longleftrightarrow>
     \<not> is_ok r \<and> grown L R U v v'
   \<or> (\<exists>u. grown L R U v u \<and> sources_read L (rc_chunker (rp_config R)) sfs u paths
        \<and> committed L R U (sources_root L (rc_chunker (rp_config R)) sfs paths) uid u v' r)"

context backend
begin

lemma wp_backup:
  assumes R: "rp_backend R = B" and L: "foreign_laws L" and w: "good (w_store w)"
    and uid: "ident (w_uuids w (w_uuid_pos w))"
    and fresh: "unused_id (view (w_store w)) (w_uuids w (w_uuid_pos w))"
    and U: "sources_within L (rc_chunker (rp_config R)) sfs paths U"
    and UB: "\<forall>root' blobs. build_stored L (sources_root L (rc_chunker (rp_config R)) sfs paths) = Inr (root', blobs)
      \<longrightarrow> snd ` set blobs \<subseteq> U"
  shows "wp (backup L R sfs paths) (\<lambda>r t. commits_from w t \<and> good (w_store t)
     \<and> left_by_backup L R U sfs paths (w_uuids w (w_uuid_pos w)) (view (w_store w)) (view (w_store t)) r) w"
  unfolding backup_def
proof (rule wp_bndI [OF wp_walk_roots [OF R L w U]], goal_cases)
  case (1 e t)
  then show ?case by (auto simp: kept_store_def left_by_backup_def quiet_commits)
next
  case (2 a t)
  obtain roots children run where a: "a = (roots, children, run)" by (cases a)
  have k: "kept_store L R U view good w t"
    and rw: "roots_walked L (rc_chunker (rp_config R)) sfs (view (w_store t)) paths roots children"
    using 2 by (auto simp: a roots_inv_def)
  have g: "good (w_store t)" "grown L R U (view (w_store w)) (view (w_store t))" "quiet w t"
    using k by (auto simp: kept_store_def)
  have f: "w_uuids t = w_uuids w" "w_uuid_pos t = w_uuid_pos w" using quiet_fields [OF g(3)] by auto
  have root: "sort_node (Dir ''root'' children) = sources_root L (rc_chunker (rp_config R)) sfs paths"
    and read: "sources_read L (rc_chunker (rp_config R)) sfs (view (w_store t)) paths"
    using rw unfolding roots_walked_def sources_root_def sources_read_def by simp_all
  have uid': "ident (w_uuids t (w_uuid_pos t))" using uid f by simp
  have fresh': "unused_id (view (w_store t)) (w_uuids t (w_uuid_pos t))" using unused_grown [OF g(2) fresh] f by simp
  have UB': "\<forall>root' blobs. build_stored L (sort_node (Dir ''root'' children)) = Inr (root', blobs) \<longrightarrow> snd ` set blobs \<subseteq> U"
    unfolding root by (rule UB)
  show ?case
    unfolding a prod.case
    by (rule wp_mono [OF wp_commit_snapshot [OF R L g(1) uid' fresh' UB']])
      (use g read in \<open>auto simp: f root left_by_backup_def simp del: sort_node.simps intro: commits_trans [OF quiet_commits]\<close>)
qed

end

end
