(* ===== verification/Round_Trip.thy ===== *)
theory Round_Trip
  imports Restore_Correct Backup_Correct
begin

text \<open>
  Backup followed by restore, over any backend that keeps the contract: the restored tree
  is the source tree. The source of a backup and the restored file system are compared
  directly, entry by entry, through \<open>src_ent\<close>; chunks, blobs, references and manifests
  do not occur in the statement.
\<close>

section \<open>Restoring a whole snapshot\<close>

definition fresh_target :: "fs \<Rightarrow> path \<Rightarrow> bool" where
  "fresh_target fs p \<longleftrightarrow> fs_wf fs
     \<and> (is_dir fs p \<or> p \<noteq> [] \<and> is_dir fs (butlast p) \<and> ent fs p = None)
     \<and> (\<forall>y q. ent fs (p @ y # q) = None)"

definition target_holds ::
  "bool \<Rightarrow> (string \<Rightarrow> bytes option) \<Rightarrow> fs \<Rightarrow> path \<Rightarrow> node list \<Rightarrow> bool" where
  "target_holds exact c fs p ds \<longleftrightarrow> is_dir fs p \<and> (\<forall>d\<in>set ds. holds_tree exact c fs p d)
     \<and> (\<forall>y q. y \<notin> name ` set ds \<longrightarrow> ent fs (p @ y # q) = None)"

lemma wp_create_target:
  assumes "fresh_target (os_fs s) p"
  shows "wp (follow_dir_all p) (\<lambda>r t. within p (os_fs s) (os_fs t)
     \<and> (\<forall>y q. ent (os_fs t) (p @ y # q) = None)
     \<and> (is_ok r \<longrightarrow> is_dir (os_fs t) p) \<and> (faultless s \<longrightarrow> faultless t \<and> is_ok r)) s"
proof (cases "is_dir (os_fs s) p")
  case True
  have wf: "fs_wf (os_fs s)" using assms by (simp add: fresh_target_def)
  show ?thesis
    by (rule wp_mono [OF wp_create_existing [OF wf True]])
      (use assms True in \<open>auto simp: fresh_target_def within_refl\<close>)
next
  case False
  then obtain d n where p: "p = d @ [n]" "is_dir (os_fs s) d" "ent (os_fs s) (d @ [n]) = None"
    and wf: "fs_wf (os_fs s)" and none: "\<forall>y q. ent (os_fs s) (p @ y # q) = None"
    using assms by (cases p rule: rev_cases) (auto simp: fresh_target_def)
  show ?thesis
    unfolding p(1)
    by (rule wp_mono [OF wp_create_here [OF wf p(2)]]) (use p(3) none in \<open>auto simp: p(1) is_link_def\<close>)
qed

text \<open>What a snapshot has to satisfy to be restored: its root stands for a directory.\<close>

definition restorable ::
  "foreign \<Rightarrow> 'b repository \<Rightarrow> (string \<Rightarrow> bytes option) \<Rightarrow> snapshot \<Rightarrow> string \<Rightarrow> node list \<Rightarrow> bool" where
  "restorable L R v s nm ds \<longleftrightarrow> resolves (lookup L R v) (sn_root s) (Dir nm ds)
     \<and> validate (sn_root s) = Inr () \<and> distinct_names (Dir nm ds)
     \<and> (\<forall>h\<in>set (chunks_of (Dir nm ds)). hash_name h)"

context reliable_backend
begin

lemma wp_load_root:
  assumes R: "rp_backend R = B" and w: "good (w_store w)" and s: "restorable L R (view (w_store w)) s nm ds"
  shows "wp (load_root L R s) (\<lambda>r t. same_store view good w t
     \<and> (\<forall>n. r = Inr n \<longrightarrow> (\<exists>cs. n = Dir nm cs \<and> validate n = Inr ()
            \<and> list_all2 (resolves (lookup L R (view (w_store w)))) cs ds))
     \<and> (ready (w_store w) \<longrightarrow> ready (w_store t) \<and> is_ok r)) w"
proof -
  have dir: "\<exists>cs. n = Dir nm cs \<and> list_all2 (resolves (lookup L R (view (w_store w)))) cs ds"
    if "resolves (lookup L R (view (w_store w))) n (Dir nm ds)" "\<not> is_ref n" for n
    using that by (cases n) (auto elim: resolves_DirE)
  show ?thesis
  proof (cases "sn_root s")
    case (Ref n h)
    obtain inner where i: "lookup L R (view (w_store w)) h = Some inner" "\<not> is_ref inner" "validate inner = Inr ()"
      "resolves (lookup L R (view (w_store w))) inner (Dir nm ds)"
      using s Ref by (auto simp: restorable_def elim: resolves_RefE)
    have "check_hash h = Inr ()" using s Ref by (auto simp: restorable_def res_bind_Inr)
    then have hn: "hash_name h" by (rule lookup_check_hash)
    show ?thesis
      unfolding load_root_def Ref node.case wp_bnd
      by (rule wp_mono [OF wp_fetch_node [OF R w]])
        (use hn i dir [OF i(4,2)] in \<open>auto simp: wp_simps split: sum.splits\<close>)
  next
    case (File n a b c d)
    then show ?thesis using s by (auto simp: restorable_def elim: resolves_FileE)
  next
    case (Dir n cs)
    then show ?thesis
      using s w dir [of "Dir n cs"]
      by (auto simp: restorable_def load_root_def wp_simps same_store_refl)
  qed
qed

lemma wp_restore_snapshot:
  assumes R: "rp_backend R = B" and w: "good (w_store w)" and s: "restorable L R (view (w_store w)) s nm ds"
    and fuel: "node_height (Dir nm ds) \<le> fuel" and tg: "fresh_target (wfs w) target" and A: "A \<longrightarrow> alive ready w"
  shows "wp (restore_snapshot L R fuel s target) (\<lambda>r t. restoring view good w t \<and> within target (wfs w) (wfs t)
     \<and> (\<forall>s'. r = Inr s' \<longrightarrow> s' = s \<and> target_holds A (contents L R (view (w_store w))) (wfs t) target ds)
     \<and> (A \<longrightarrow> alive ready t
          \<and> ((\<forall>h\<in>set (chunks_of (Dir nm ds)). contents L R (view (w_store w)) h \<noteq> None) \<longrightarrow> is_ok r))) w"
    (is "wp _ ?Q w")
proof -
  let ?v = "view (w_store w)"
  have d: "distinct (map name ds)" "\<forall>d\<in>set ds. distinct_names d" "\<forall>d\<in>set ds. \<forall>h\<in>set (chunks_of d). hash_name h"
    using s by (auto simp: restorable_def)
  have fu: "\<forall>d\<in>set ds. node_height d < fuel" using fuel node_height_child by (meson less_le_trans)
  have walk: "wp (bnd (for_io (\<lambda>n. restore_node L R fuel n target) (top_nodes root)) (\<lambda>_. ret s)) ?Q t"
    if t: "restoring view good w t" "within target (wfs w) (wfs t)" "is_dir (wfs t) target" "A \<longrightarrow> alive ready t"
      "\<forall>y q. ent (wfs t) (target @ y # q) = None"
      and root: "root = Dir nm cs" "validate root = Inr ()" "list_all2 (resolves (lookup L R ?v)) cs ds" for t root cs
  proof -
    have vt: "view (w_store t) = ?v" by (rule restoring_view [OF t(1)])
    have tn: "top_nodes root = cs" by (simp add: top_nodes_def root(1))
    have rs: "list_all2 (resolves (lookup L R (view (w_store t)))) cs ds" using root(3) vt by simp
    have vc: "\<forall>c\<in>set cs. validate c = Inr ()" using root(1,2) validate_child by blast
    show ?thesis
      unfolding tn
    proof (rule wp_bndI [OF wp_restore_children [where A = A,
          OF restoring_good [OF t(1)] within_wf [OF t(2)] t(3,4) rs vc fu d t(5)]], goal_cases)
      case (1 c d u)
      then show ?case using wp_restore_node [OF R] by blast
    next
      case (2 e x)
      then show ?case
        using restoring_trans [OF t(1)] within_trans [OF t(2) strictly_within] by (auto simp: vt)
    next
      case (3 a x)
      then have x: "restoring view good t x" "strictly_within target (wfs t) (wfs x)"
        "children_restored view good ready A (contents L R ?v) target ds t x" by (auto simp: vt)
      have "target_holds A (contents L R ?v) (wfs x) target ds"
        using x(3) strictly_dir [OF x(2) t(3)] by (auto simp: target_holds_def children_restored_def)
      then show ?case
        using x restoring_trans [OF t(1)] within_trans [OF t(2) strictly_within]
        by (auto simp: wp_ret children_restored_def)
    qed
  qed
  have load: "wp (bnd (load_root L R s) (\<lambda>root. bnd (for_io (\<lambda>n. restore_node L R fuel n target) (top_nodes root)) (\<lambda>_. ret s))) ?Q t"
    if t: "restoring view good w t" "within target (wfs w) (wfs t)" "is_dir (wfs t) target" "A \<longrightarrow> alive ready t"
      "\<forall>y q. ent (wfs t) (target @ y # q) = None" for t
  proof -
    have vt: "view (w_store t) = ?v" by (rule restoring_view [OF t(1)])
    have st: "restorable L R (view (w_store t)) s nm ds" using s vt by simp
    show ?thesis
    proof (rule wp_bndI [OF wp_load_root [OF R restoring_good [OF t(1)] st]], goal_cases)
      case (1 e u)
      then show ?case
        using t restoring_trans [OF t(1) same_store_restoring] same_store_os [of view good t u]
        by (auto simp: alive_def)
    next
      case (2 root u)
      then have u: "same_store view good t u" "ready (w_store t) \<longrightarrow> ready (w_store u)" by auto
      obtain cs where cs: "root = Dir nm cs" "validate root = Inr ()" "list_all2 (resolves (lookup L R ?v)) cs ds"
        using 2 by (auto simp: vt)
      have os: "w_os u = w_os t" by (rule same_store_os [OF u(1)])
      show ?case
        by (rule walk [OF restoring_trans [OF t(1) same_store_restoring [OF u(1)]] _ _ _ _ cs])
          (use t u(2) os in \<open>auto simp: alive_def\<close>)
    qed
  qed
  show ?thesis
    unfolding restore_snapshot_def wp_bnd [of "on_os _"] wp_on_os
  proof (rule wp_mono [OF wp_create_target [OF tg]])
    fix r :: "unit res" and os
    assume q: "within target (wfs w) (os_fs os) \<and> (\<forall>y q. ent (os_fs os) (target @ y # q) = None)
      \<and> (is_ok r \<longrightarrow> is_dir (os_fs os) target) \<and> (faultless (w_os w) \<longrightarrow> faultless os \<and> is_ok r)"
    have rw: "restoring view good w (w\<lparr> w_os := os \<rparr>)" by (rule restoring_os [where good = good and w = w, OF w])
    have al: "A \<longrightarrow> alive ready (w\<lparr> w_os := os \<rparr>) \<and> is_ok r" using A q by (auto simp: alive_def)
    show "case r of Inl e \<Rightarrow> ?Q (Inl e) (w\<lparr> w_os := os \<rparr>)
      | Inr _ \<Rightarrow> wp (bnd (load_root L R s) (\<lambda>root. bnd (for_io (\<lambda>n. restore_node L R fuel n target) (top_nodes root)) (\<lambda>_. ret s))) ?Q (w\<lparr> w_os := os \<rparr>)"
    proof (cases r)
      case (Inl e)
      then show ?thesis using q rw al by auto
    next
      case (Inr u)
      show ?thesis unfolding Inr sum.case by (rule load) (use q rw al Inr in auto)
    qed
  qed
qed

text \<open>\<open>restore\<close> finds the snapshot first.\<close>

lemma wp_restore:
  assumes R: "rp_backend R = B" and w: "good (w_store w)" and tg: "fresh_target (wfs w) target" and A: "A \<longrightarrow> alive ready w"
    and i: "i \<in> snapshot_ids (view (w_store w))" "manifest L R (view (w_store w)) i = Some s" "starts_with (sn_id s) p"
    and s: "restorable L R (view (w_store w)) s nm ds" "node_height (Dir nm ds) \<le> fuel"
  shows "wp (restore L R fuel p target) (\<lambda>r t. restoring view good w t \<and> within target (wfs w) (wfs t)
     \<and> (\<forall>s'. r = Inr s' \<longrightarrow> s' = s \<and> target_holds A (contents L R (view (w_store w))) (wfs t) target ds)
     \<and> (A \<longrightarrow> alive ready t
          \<and> (manifests_ok L R (view (w_store w)) \<longrightarrow> (\<exists>!i. i \<in> snapshot_ids (view (w_store w)) \<and> starts_with i p) \<longrightarrow>
             (\<forall>h\<in>set (chunks_of (Dir nm ds)). contents L R (view (w_store w)) h \<noteq> None) \<longrightarrow> is_ok r))) w"
  unfolding restore_def
proof (rule wp_bndI [OF wp_find_snapshot [OF R w]], goal_cases)
  case (1 e t)
  then show ?case
    using A same_store_os [of view good w t] tg
    by (auto simp: alive_def same_store_restoring within_refl fresh_target_def)
next
  case (2 x t)
  let ?v = "view (w_store w)"
  have t: "same_store view good w t" "ready (w_store w) \<longrightarrow> ready (w_store t)" using 2 by auto
  obtain j where j: "j \<in> snapshot_ids ?v" "manifest L R ?v j = Some x"
    "\<forall>k\<in>snapshot_ids ?v. k \<noteq> j \<longrightarrow> \<not> starts_with (sn_id (the (manifest L R ?v k))) p"
    using 2 by auto
  have "j = i" using j(3) i by force
  then have x: "x = s" using j(2) i(2) by simp
  have vt: "view (w_store t) = ?v" and os: "w_os t = w_os w"
    using same_store_view [OF t(1)] same_store_os [OF t(1)] by auto
  have A': "A \<longrightarrow> alive ready t" using A t(2) os by (auto simp: alive_def)
  show ?case
    unfolding x
    by (rule wp_mono [OF wp_restore_snapshot [where A = A, OF R same_store_good [OF t(1)] _ s(2) _ A']])
      (use s(1) vt os tg in \<open>auto intro: restoring_trans [OF same_store_restoring [OF t(1)]]\<close>)
qed

end

section \<open>The source as a file system\<close>

text \<open>
  What a source puts below a directory: regular files with their bytes, permission bits
  and modification time, and directories; other entries are left out. \<open>f\<close> says under
  which name an entry appears.
\<close>

fun src_ent :: "(string \<Rightarrow> string) \<Rightarrow> string \<Rightarrow> src \<Rightarrow> path \<Rightarrow> fs_entry option" where
  "src_ent f nm (SrcFile md (Some (Reader d))) p =
     (if p = [nm] then Some (EFile d (restored_mode None (file_mode md)) (mtime_secs md)) else None)"
| "src_ent f nm (SrcDir (Some es)) p =
     (case p of
        [] \<Rightarrow> None
      | x # q \<Rightarrow> if x \<noteq> nm then None else if q = [] then Some EDir
                else foldr (\<lambda>(n, e) r. if f n = hd q \<and> \<not> is_other e then src_ent f (f n) e q else r) es None)"
| "src_ent f nm s p = None"

fun src_depth :: "src \<Rightarrow> nat" where
  "src_depth (SrcDir (Some es)) = foldr max (map (\<lambda>(n, e). Suc (src_depth e)) es) 0"
| "src_depth s = 0"

text \<open>
  The entries a snapshot takes from a directory have different names in it: names that are
  not UTF-8 may decode to the same text, and then the snapshot cannot tell them apart.
\<close>

definition taken_names :: "(string \<times> src) list \<Rightarrow> string list" where
  "taken_names es = map (\<lambda>(n, e). to_string_lossy n) (filter (\<lambda>(n, e). \<not> is_other e) es)"

fun distinct_src :: "src \<Rightarrow> bool" where
  "distinct_src (SrcDir (Some es)) \<longleftrightarrow> distinct (taken_names es) \<and> (\<forall>(n, e)\<in>set es. distinct_src e)"
| "distinct_src s \<longleftrightarrow> True"

text \<open>All names of a tree are UTF-8, and decode to themselves.\<close>

fun utf8_names :: "src \<Rightarrow> bool" where
  "utf8_names (SrcDir (Some es)) \<longleftrightarrow> (\<forall>(n, e)\<in>set es. is_other e \<or> utf8_text n \<and> utf8_names e)"
| "utf8_names s \<longleftrightarrow> True"

lemma foldr_same:
  "(\<And>x r. x \<in> set xs \<Longrightarrow> g x r = h x r) \<Longrightarrow> foldr g xs z = foldr h xs z"
  by (induction xs) auto

lemma src_ent_utf8: "utf8_names s \<Longrightarrow> src_ent to_string_lossy nm s p = src_ent (\<lambda>n. n) nm s p"
proof (induction "\<lambda>n :: string. n" nm s p rule: src_ent.induct)
  case (2 nm es p)
  have "foldr (\<lambda>(n, e) r. if to_string_lossy n = hd q \<and> \<not> is_other e then src_ent to_string_lossy (to_string_lossy n) e q else r) es None
      = foldr (\<lambda>(n, e) r. if n = hd q \<and> \<not> is_other e then src_ent (\<lambda>n. n) n e q else r) es None"
    if "p = nm # q" "q \<noteq> []" for q
    by (rule foldr_same) (use 2 that in \<open>fastforce simp: utf8_text_def\<close>)
  then show ?case by (auto split: list.splits)
qed auto

lemma name_src_node [simp]: "name (src_node L cfg nm s) = nm"
  by (cases "(L, cfg, nm, s)" rule: src_node.cases) auto

lemma ref_free_src [simp]: "ref_free (src_node L cfg nm s)"
  by (induction L cfg nm s rule: src_node.induct) (auto simp del: sort_node.simps)

lemma distinct_names_sort [simp]: "distinct_names (sort_node n) = distinct_names n"
proof (induction n rule: sort_node.induct)
  case (1 n cs)
  have "map name (map sort_node (sort_key name cs)) = map name (sort_key name cs)" by simp
  also have "distinct \<dots> = distinct (map name cs)"
    by (metis distinct_map mset_sort mset_map mset_eq_imp_distinct_iff)
  finally show ?case using 1 by auto
qed auto

lemma tree_ent_sort: "distinct_names n \<Longrightarrow> tree_ent c (sort_node n) p = tree_ent c n p"
proof (induction n arbitrary: p rule: sort_node.induct)
  case (1 n cs)
  have d: "distinct (map name cs)" "distinct (map name (map sort_node (sort_key name cs)))"
    using 1(2) distinct_names_sort [of "Dir n cs"] by auto
  have "(case find (\<lambda>k. name k = x) (map sort_node (sort_key name cs)) of None \<Rightarrow> None | Some k \<Rightarrow> tree_ent c k q)
      = (case find (\<lambda>k. name k = x) cs of None \<Rightarrow> None | Some k \<Rightarrow> tree_ent c k q)" for x q
  proof (cases "x \<in> name ` set cs")
    case False
    then have "x \<notin> name ` set (map sort_node (sort_key name cs))" by auto
    then show ?thesis using False by (simp add: find_name_None del: set_map)
  next
    case True
    then obtain k where k: "k \<in> set cs" "name k = x" by blast
    have a: "find (\<lambda>k. name k = x) cs = Some k" using find_name [OF d(1) k(1)] k(2) by simp
    have "sort_node k \<in> set (map sort_node (sort_key name cs))" using k by simp
    then have b: "find (\<lambda>k. name k = x) (map sort_node (sort_key name cs)) = Some (sort_node k)"
      using find_name [OF d(2), of "sort_node k"] k(2) by simp
    show ?thesis unfolding a b using 1(1) [of k] 1(2) k(1) by simp
  qed
  then show ?case by (simp split: list.splits)
qed auto

lemma node_height_src: "node_height (src_node L cfg nm s) \<le> src_depth s"
proof (induction L cfg nm s rule: src_node.induct)
  case (2 L cfg nm entries)
  have "Suc (src_depth e) \<le> src_depth (SrcDir (Some entries))" if "(n, e) \<in> set entries" for n e
    using that foldr_max_le [of "map (\<lambda>(n, e). Suc (src_depth e)) entries" 0 "src_depth (SrcDir (Some entries))"]
    by force
  then show ?case
    unfolding src_node.simps node_height_sort node_height_Dir_le
    using 2 by (fastforce intro: le_trans [OF Suc_le_mono [THEN iffD2]])
qed auto

lemma distinct_taken:
  assumes "distinct_src (SrcDir (Some es))"
  shows "distinct (map (\<lambda>x. to_string_lossy (fst x)) (taken_entries es))"
proof -
  have "filter (\<lambda>(n, e). \<not> is_other e) (filter (\<lambda>(_, e). e \<noteq> SrcLost) es) = filter (\<lambda>(n, e). \<not> is_other e) es"
    by (induction es) auto
  then have "mset (taken_entries es) = mset (filter (\<lambda>(n, e). \<not> is_other e) es)"
    unfolding taken_entries_def listed_entries_def mset_filter mset_sort by (metis mset_filter)
  then have "mset (map (\<lambda>x. to_string_lossy (fst x)) (taken_entries es)) = mset (taken_names es)"
    by (simp add: taken_names_def split_def)
  then have "distinct (map (\<lambda>x. to_string_lossy (fst x)) (taken_entries es)) = distinct (taken_names es)"
    by (rule mset_eq_imp_distinct_iff)
  then show ?thesis using assms by simp
qed

lemma distinct_src_node: "distinct_src s \<Longrightarrow> distinct_names (src_node L cfg nm s)"
proof (induction L cfg nm s rule: src_node.induct)
  case (2 L cfg nm entries)
  let ?kids = "map (\<lambda>(n, e). src_node L cfg (to_string_lossy n) e) (taken_entries entries)"
  have "distinct (map name ?kids)" using distinct_taken [OF 2(2)] by (simp add: comp_def split_def)
  then show ?case
    unfolding src_node.simps distinct_names_sort using 2 by auto
qed auto

lemma foldr_none:
  "\<forall>(n, e)\<in>set es. f n = y \<longrightarrow> is_other e
    \<Longrightarrow> foldr (\<lambda>(n, e) r. if f n = y \<and> \<not> is_other e then g (f n) e else r) es None = None"
  by (induction es) auto

lemma foldr_pick:
  "distinct (taken_names es) \<Longrightarrow> (n, e) \<in> set es \<Longrightarrow> \<not> is_other e
    \<Longrightarrow> foldr (\<lambda>(n, e) r. if to_string_lossy n = to_string_lossy m \<and> \<not> is_other e then g (to_string_lossy n) e else r) es None
      = g (to_string_lossy m) e" if "to_string_lossy m = to_string_lossy n" for m
proof (induction es)
  case (Cons x es)
  obtain k f where x: "x = (k, f)" by fastforce
  show ?case
  proof (cases "to_string_lossy k = to_string_lossy n \<and> \<not> is_other f")
    case True
    have "(n, e) \<notin> set es"
    proof
      assume "(n, e) \<in> set es"
      then have "to_string_lossy n \<in> set (taken_names es)" using Cons.prems(3) by (force simp: taken_names_def)
      then show False using Cons.prems(1) True x by (simp add: taken_names_def)
    qed
    then show ?thesis using Cons.prems True x that by auto
  next
    case False
    then have "(n, e) \<in> set es" using Cons.prems(2,3) x by auto
    moreover have "distinct (taken_names es)" using Cons.prems(1) by (auto simp: taken_names_def split: if_splits)
    ultimately show ?thesis using Cons.IH Cons.prems(3) False x that by auto
  qed
qed simp

text \<open>With all chunks at hand, the tree a backup builds stands for the source.\<close>

lemma tree_ent_src:
  "\<lbrakk> readable s; \<not> is_other s; distinct_src s; foreign_laws L; chunker_ok cfg;
     \<forall>d\<in>set (src_pieces L cfg s). c (blake3_hex L d) = Some d \<rbrakk>
   \<Longrightarrow> tree_ent c (src_node L cfg nm s) p = src_ent to_string_lossy nm s p"
proof (induction to_string_lossy nm s p rule: src_ent.induct)
  case (1 nm md d p)
  have "file_bytes c (map (blake3_hex L) (fastcdc L cfg d)) = concat (fastcdc L cfg d)"
    using 1(6) unfolding file_bytes_def by (auto intro!: arg_cong [of _ _ concat] map_idI)
  then show ?case using fastcdc_concat [OF 1(4,5)] by simp
next
  case (2 nm es p)
  let ?kids = "map (\<lambda>(n, e). src_node L cfg (to_string_lossy n) e) (taken_entries es)"
  have sn: "src_node L cfg nm (SrcDir (Some es)) = sort_node (Dir nm ?kids)" by simp
  have dn: "distinct_names (Dir nm ?kids)"
    using distinct_src_node [OF 2(4), of L cfg nm] unfolding sn distinct_names_sort .
  then have dk: "distinct (map name ?kids)" by simp
  have de: "distinct (taken_names es)" using 2(4) by simp
  have step: "(case find (\<lambda>k. name k = y) ?kids of None \<Rightarrow> None | Some k \<Rightarrow> tree_ent c k (y # r))
      = foldr (\<lambda>(n, e) z. if to_string_lossy n = y \<and> \<not> is_other e then src_ent to_string_lossy (to_string_lossy n) e (y # r) else z) es None"
    if p: "p = nm # y # r" for y r
  proof (cases "\<exists>n e. to_string_lossy n = y \<and> (n, e) \<in> set es \<and> \<not> is_other e")
    case False
    have "y \<notin> name ` set ?kids" using False by auto
    then have "find (\<lambda>k. name k = y) ?kids = None" by (rule find_name_None)
    moreover have "\<forall>(n, e)\<in>set es. to_string_lossy n = y \<longrightarrow> is_other e" using False by auto
    ultimately show ?thesis
      using foldr_none [of es to_string_lossy y "\<lambda>m e. src_ent to_string_lossy m e (y # r)"] by simp
  next
    case True
    then obtain n e where e: "to_string_lossy n = y" "(n, e) \<in> set es" "\<not> is_other e" by blast
    then have "src_node L cfg y e \<in> set ?kids" by force
    note find_name [OF dk this]
    then have "find (\<lambda>k. name k = y) ?kids = Some (src_node L cfg y e)"
      by (simp only: name_src_node)
    moreover have "tree_ent c (src_node L cfg y e) (y # r) = src_ent to_string_lossy y e (y # r)"
      using 2(1) [of nm "y # r" "(n, e)" n e] e p 2(2,4-7) by fastforce
    ultimately show ?thesis
      using foldr_pick [OF refl de e(2,3), of "\<lambda>m e. src_ent to_string_lossy m e (y # r)"] e(1) by simp
  qed
  show ?case
  proof (cases p)
    case (Cons x q)
    show ?thesis
    proof (cases "x = nm \<and> q \<noteq> []")
      case True
      then obtain y r where "p = nm # y # r" using Cons by (cases q) auto
      then show ?thesis using step unfolding sn tree_ent_sort [OF dn] by simp
    next
      case False
      then show ?thesis unfolding sn tree_ent_sort [OF dn] by (auto simp: Cons)
    qed
  qed (simp add: sn tree_ent_sort [OF dn])
qed auto

section \<open>What a backup commits can be restored\<close>

lemma chunks_of_sort [simp]: "set (chunks_of (sort_node n)) = set (chunks_of n)"
  by (induction n rule: sort_node.induct) auto

lemma chunks_of_src: "set (chunks_of (src_node L cfg nm s)) \<subseteq> blake3_hex L ` set (src_pieces L cfg s)"
proof (induction L cfg nm s rule: src_node.induct)
  case (2 L cfg nm entries)
  then show ?case unfolding src_node.simps chunks_of_sort by fastforce
qed auto

text \<open>
  The sources of one backup: what their paths resolve to, their names, and the shape a
  snapshot can represent. Two sources may not have the same last component, and a tree
  may not nest deeper than the manifest's reader accepts.
\<close>

definition root_name :: "source_fs \<Rightarrow> string \<Rightarrow> string" where
  "root_name sfs p = file_name (fst (the (sfs p)))"

definition root_label :: "(string \<Rightarrow> string) \<Rightarrow> source_fs \<Rightarrow> string \<Rightarrow> string" where
  "root_label f sfs p = (let cp = fst (the (sfs p)) in if cp = [] then ''root'' else f (last cp))"

lemma root_label_lossy: "root_label to_string_lossy sfs p = root_name sfs p"
  by (simp add: root_label_def root_name_def file_name_def Let_def)

definition root_src :: "source_fs \<Rightarrow> string \<Rightarrow> src" where
  "root_src sfs p = snd (the (sfs p))"

definition sources_ok :: "source_fs \<Rightarrow> string list \<Rightarrow> bool" where
  "sources_ok sfs paths \<longleftrightarrow> distinct (map (root_name sfs) paths)
     \<and> (\<forall>p\<in>set paths. distinct_src (root_src sfs p) \<and> src_depth (root_src sfs p) < json_depth_limit)"

text \<open>
  Below the target are the sources, every entry under the name \<open>f\<close> gives it, and nothing else.
\<close>

definition restored_sources ::
  "(string \<Rightarrow> string) \<Rightarrow> bool \<Rightarrow> fs \<Rightarrow> path \<Rightarrow> source_fs \<Rightarrow> string list \<Rightarrow> bool" where
  "restored_sources f exact fs target sfs paths \<longleftrightarrow> is_dir fs target
     \<and> (\<forall>p\<in>set paths. \<forall>q. entry_agrees exact (ent fs (target @ root_label f sfs p # q))
          (src_ent f (root_label f sfs p) (root_src sfs p) (root_label f sfs p # q)))
     \<and> (\<forall>y q. y \<notin> root_label f sfs ` set paths \<longrightarrow> ent fs (target @ y # q) = None)"

text \<open>Names that are UTF-8 come back as they are, others decoded.\<close>

definition utf8_sources :: "source_fs \<Rightarrow> string list \<Rightarrow> bool" where
  "utf8_sources sfs paths \<longleftrightarrow> (\<forall>p\<in>set paths. (\<forall>seg\<in>set (fst (the (sfs p))). utf8_text seg) \<and> utf8_names (root_src sfs p))"

definition names_restored :: "source_fs \<Rightarrow> string list \<Rightarrow> string \<Rightarrow> string" where
  "names_restored sfs paths = (if utf8_sources sfs paths then (\<lambda>n. n) else to_string_lossy)"

lemma restored_sources_names:
  assumes "restored_sources to_string_lossy exact fs target sfs paths"
  shows "restored_sources (names_restored sfs paths) exact fs target sfs paths"
proof (cases "utf8_sources sfs paths")
  case True
  have l: "root_label (\<lambda>n. n) sfs p = root_label to_string_lossy sfs p" if "p \<in> set paths" for p
    using True that by (simp add: utf8_sources_def root_label_def Let_def utf8_text_def)
  moreover have "src_ent (\<lambda>n. n) nm (root_src sfs p) q = src_ent to_string_lossy nm (root_src sfs p) q" if "p \<in> set paths" for p nm q
    using True that by (simp add: utf8_sources_def src_ent_utf8)
  moreover have "root_label (\<lambda>n. n) sfs ` set paths = root_label to_string_lossy sfs ` set paths"
    by (rule image_cong) (simp_all add: l)
  ultimately show ?thesis using assms True by (simp add: restored_sources_def names_restored_def)
qed (use assms in \<open>simp add: names_restored_def\<close>)

definition source_nodes :: "foreign \<Rightarrow> chunker_config \<Rightarrow> source_fs \<Rightarrow> string list \<Rightarrow> node list" where
  "source_nodes L cfg sfs paths = map (\<lambda>p. src_node L cfg (root_name sfs p) (root_src sfs p)) paths"

definition sorted_nodes :: "foreign \<Rightarrow> chunker_config \<Rightarrow> source_fs \<Rightarrow> string list \<Rightarrow> node list" where
  "sorted_nodes L cfg sfs paths = map sort_node (sort_key name (source_nodes L cfg sfs paths))"

lemma sources_root_eq:
  "sources_root L cfg sfs paths = sort_node (Dir ''root'' (source_nodes L cfg sfs paths))"
  "sources_root L cfg sfs paths = Dir ''root'' (sorted_nodes L cfg sfs paths)"
  by (simp_all add: sources_root_def source_nodes_def sorted_nodes_def root_name_def root_src_def comp_def)

lemma sources_root_shape:
  assumes "sources_ok sfs paths"
  shows "ref_free (sources_root L cfg sfs paths)" "distinct_names (sources_root L cfg sfs paths)"
    "node_height (sources_root L cfg sfs paths) \<le> json_depth_limit"
proof -
  show "ref_free (sources_root L cfg sfs paths)"
    unfolding sources_root_eq(1) ref_free_sort by (auto simp: source_nodes_def)
  have "distinct (map name (source_nodes L cfg sfs paths))"
    using assms by (simp add: source_nodes_def sources_ok_def comp_def)
  moreover have "\<forall>c\<in>set (source_nodes L cfg sfs paths). distinct_names c"
    using assms distinct_src_node by (auto simp: sources_ok_def source_nodes_def)
  ultimately show "distinct_names (sources_root L cfg sfs paths)"
    unfolding sources_root_eq(1) distinct_names_sort distinct_names.simps by blast
  have "Suc (node_height c) \<le> json_depth_limit" if c: "c \<in> set (source_nodes L cfg sfs paths)" for c
  proof -
    obtain p where p: "p \<in> set paths" "c = src_node L cfg (root_name sfs p) (root_src sfs p)"
      using c by (auto simp: source_nodes_def)
    then have "node_height c \<le> src_depth (root_src sfs p)" using node_height_src by simp
    then show ?thesis using assms p(1) by (fastforce simp: sources_ok_def)
  qed
  then show "node_height (sources_root L cfg sfs paths) \<le> json_depth_limit"
    unfolding sources_root_eq(1) node_height_sort node_height_Dir_le by blast
qed

definition all_pieces :: "foreign \<Rightarrow> chunker_config \<Rightarrow> source_fs \<Rightarrow> string list \<Rightarrow> bytes set" where
  "all_pieces L cfg sfs paths = (\<Union>p\<in>set paths. set (src_pieces L cfg (root_src sfs p)))"

lemma chunks_of_sources:
  "set (chunks_of (sources_root L cfg sfs paths)) \<subseteq> blake3_hex L ` all_pieces L cfg sfs paths"
proof -
  have "set (chunks_of (src_node L cfg (root_name sfs p) (root_src sfs p))) \<subseteq> blake3_hex L ` all_pieces L cfg sfs paths"
    if "p \<in> set paths" for p
    using chunks_of_src [of L cfg "root_name sfs p" "root_src sfs p"] that unfolding all_pieces_def by blast
  then show ?thesis
    unfolding sources_root_eq(1) chunks_of_sort by (auto simp: source_nodes_def)
qed

text \<open>A snapshot that is visible in a store and stands for the sources.\<close>

definition snapshot_of_sources ::
  "foreign \<Rightarrow> 'b repository \<Rightarrow> (string \<Rightarrow> bytes option) \<Rightarrow> source_fs \<Rightarrow> string list \<Rightarrow> snapshot \<Rightarrow> bool" where
  "snapshot_of_sources L R v sfs paths sn \<longleftrightarrow>
     sn_id sn \<in> snapshot_ids v \<and> manifest L R v (sn_id sn) = Some sn
   \<and> restorable L R v sn ''root'' (sorted_nodes L (rc_chunker (rp_config R)) sfs paths)
   \<and> (\<forall>p\<in>set paths. readable (root_src sfs p) \<and> \<not> is_other (root_src sfs p))
   \<and> (\<forall>d\<in>all_pieces L (rc_chunker (rp_config R)) sfs paths. contents L R v (blake3_hex L d) = Some d)"

lemma committed_visible:
  assumes L: "foreign_laws L" and inj: "inj_on (blake3_hex L) U" and v: "store_ok L R U v" and uid: "ident uid"
    and ok: "sources_ok sfs paths" and U: "all_pieces L (rc_chunker (rp_config R)) sfs paths \<subseteq> U"
    and UB: "\<forall>root' blobs. build_stored L (sources_root L (rc_chunker (rp_config R)) sfs paths) = Inr (root', blobs)
      \<longrightarrow> snd ` set blobs \<subseteq> U"
    and left: "left_by_backup L R U sfs paths uid v v' r" and vis: "v' (snapshot_key uid) \<noteq> v (snapshot_key uid)"
  shows "\<exists>sn. sn_id sn = uid \<and> snapshot_of_sources L R v' sfs paths sn \<and> (\<forall>sn'. r = Inr sn' \<longrightarrow> sn' = sn)"
proof -
  let ?cfg = "rc_chunker (rp_config R)"
  let ?root = "sources_root L ?cfg sfs paths"
  have same: "w (snapshot_key uid) = u (snapshot_key uid)" if "grown L R U u w" for u w
    using that unfolding grown_def by (metis keys_disjoint(3))
  obtain u where u: "grown L R U v u" "sources_read L ?cfg sfs u paths" "committed L R U ?root uid u v' r"
    using left vis same [of v v'] unfolding left_by_backup_def by metis
  obtain v1 where v1: "grown L R U u v1" "v' (snapshot_key uid) \<noteq> v1 (snapshot_key uid)"
    "\<exists>root' blobs ib sn written. build_stored L ?root = Inr (root', blobs) \<and> present L v1 (snd ` set blobs)
         \<and> sn_id sn = uid \<and> sn_root sn = root'
         \<and> open_for L R CtxDoc ib = Inr (index_json L (build_index sn written))
         \<and> (v' = v1(index_key uid \<mapsto> ib) \<and> \<not> is_ok r
            \<or> (\<exists>mb. open_for L R CtxDoc mb = Inr (snapshot_json L sn)
                 \<and> v' = v1(index_key uid \<mapsto> ib, snapshot_key uid \<mapsto> mb)
                 \<and> (\<forall>sn'. r = Inr sn' \<longrightarrow> sn' = sn)))"
    using u(3) vis same [OF u(1)] same [of u] unfolding committed_def by metis
  then obtain root' blobs ib sn mb where c: "build_stored L ?root = Inr (root', blobs)" "present L v1 (snd ` set blobs)"
    "sn_id sn = uid" "sn_root sn = root'" "open_for L R CtxDoc mb = Inr (snapshot_json L sn)"
    "v' = v1(index_key uid \<mapsto> ib, snapshot_key uid \<mapsto> mb)" "\<forall>sn'. r = Inr sn' \<longrightarrow> sn' = sn"
    by auto
  have v1ok: "store_ok L R U v1" using v u(1) v1(1) unfolding grown_def by blast
  have cont: "contents L R v' h = contents L R v1 h" for h using c(6) by (simp add: contents_upd_other)
  have look: "contents L R v' (blake3_hex L d) = Some d" if "d \<in> U" "v1 (bkey (blake3_hex L d)) \<noteq> None" for d
    unfolding cont by (rule store_ok_contents [OF v1ok inj that(1) L that(2)])
  have pieces: "contents L R v' (blake3_hex L d) = Some d" if d: "d \<in> all_pieces L ?cfg sfs paths" for d
  proof -
    have "u (bkey (blake3_hex L d)) \<noteq> None"
      using d u(2) unfolding all_pieces_def sources_read_def present_def root_src_def by fastforce
    then have "v1 (bkey (blake3_hex L d)) \<noteq> None" using grown_Some [OF v1(1)] by blast
    then show ?thesis using look d U by blast
  qed
  have bl: "h = blake3_hex L d \<and> d \<in> U \<and> v1 (bkey (blake3_hex L d)) \<noteq> None" if "(h, d) \<in> set blobs" for h d
    using that c(1,2) UB store_content_addressed(1) [of L ?root "[]" root' blobs]
    by (fastforce simp: build_stored_def addressed_def present_def)
  have fb: "finds L (lookup L R v') blobs"
    unfolding finds_def lookup_def using bl look by fastforce
  note shape = sources_root_shape [OF ok, of L ?cfg]
  have rs: "resolves (lookup L R v') root' ?root" "node_height root' \<le> node_height ?root"
    using store_resolves(1) [OF c(1) [unfolded build_stored_def] L shape(1,3) fb] by auto
  have man: "manifest L R v' uid = Some sn"
    using c(3-6) snapshot_parse_json [OF L, of sn] rs(2) shape(3)
    by (simp add: manifest_def document_def)
  have hn: "\<forall>h\<in>set (chunks_of ?root). hash_name h" using chunks_of_sources L by fastforce
  have valid: "validate root' = Inr ()" using store_node_valid c(1) L by (simp add: build_stored_def)
  have rd: "\<forall>p\<in>set paths. readable (root_src sfs p) \<and> \<not> is_other (root_src sfs p)"
    using u(2) by (fastforce simp: sources_read_def root_src_def)
  have "snapshot_of_sources L R v' sfs paths sn"
    unfolding snapshot_of_sources_def restorable_def
    using man c(3,4,6) uid rs(1) valid shape(2) hn rd pieces unfolding sources_root_eq(2)
    by (simp add: snapshot_ids_def)
  then show ?thesis using c(3,7) by blast
qed

text \<open>What a restore writes, in terms of the source.\<close>

lemma holds_sources:
  assumes t: "target_holds A c fs target (sorted_nodes L cfg sfs paths)"
    and ok: "sources_ok sfs paths" "foreign_laws L" "chunker_ok cfg"
    and rd: "\<forall>p\<in>set paths. readable (root_src sfs p) \<and> \<not> is_other (root_src sfs p)"
    and c: "\<forall>d\<in>all_pieces L cfg sfs paths. c (blake3_hex L d) = Some d"
  shows "restored_sources to_string_lossy A fs target sfs paths"
proof -
  have names: "name ` set (sorted_nodes L cfg sfs paths) = root_name sfs ` set paths"
    by (force simp: sorted_nodes_def source_nodes_def)
  have "entry_agrees A (ent fs (target @ root_name sfs p # q)) (src_ent to_string_lossy (root_name sfs p) (root_src sfs p) (root_name sfs p # q))"
    if p: "p \<in> set paths" for p q
  proof -
    let ?n = "src_node L cfg (root_name sfs p) (root_src sfs p)"
    have ds: "distinct_src (root_src sfs p)" using ok(1) p by (simp add: sources_ok_def)
    have "sort_node ?n \<in> set (sorted_nodes L cfg sfs paths)"
      using p by (auto simp: sorted_nodes_def source_nodes_def)
    then have "entry_agrees A (ent fs (target @ root_name sfs p # q)) (tree_ent c (sort_node ?n) (root_name sfs p # q))"
      using t by (fastforce simp: target_holds_def holds_tree_def)
    moreover have "tree_ent c (sort_node ?n) z = src_ent to_string_lossy (root_name sfs p) (root_src sfs p) z" for z
      using tree_ent_sort [OF distinct_src_node [OF ds]]
        tree_ent_src [OF _ _ ds ok(2,3)] rd p c by (auto simp: all_pieces_def)
    ultimately show ?thesis by simp
  qed
  then show ?thesis using t names by (simp add: restored_sources_def target_holds_def root_label_lossy cong: image_cong)
qed

end
