(* ===== verification/Backup_Total.thy ===== *)
theory Backup_Total
  imports Backup_Correct
begin

text \<open>
  A backup succeeds: on a backend in a ready state, with a cipher that does not fail and
  sources that can be read and carry names a snapshot can hold, every step returns.
\<close>

definition sealable :: "foreign \<Rightarrow> 'b repository \<Rightarrow> bool" where
  "sealable L R \<longleftrightarrow> rp_crypto R = None \<or> (\<forall>k n a p. aead_encrypt L k n a p \<noteq> None)"

definition fine :: "('b \<Rightarrow> bool) \<Rightarrow> ('b \<Rightarrow> bool) \<Rightarrow> 'b world \<Rightarrow> bool" where
  "fine good ready w \<longleftrightarrow> good (w_store w) \<and> ready (w_store w)"

lemma wp_seal_ok:
  assumes "sealable L R"
  shows "wp (seal_for L R ctx d) (\<lambda>r t. w_store t = w_store w \<and> is_ok r) w"
proof (cases "rp_crypto R")
  case None
  then show ?thesis by (simp add: seal_for_def wp_simps)
next
  case (Some c)
  then have "\<exists>y. aead_encrypt L k n a p = Some y" for k n a p using assms by (auto simp: sealable_def)
  then have "ok_or EncryptFailed (aead_encrypt L k n a p) \<noteq> Inl e" for k n a p e
    by (metis Inl_Inr_False ok_or_simps(2))
  then show ?thesis
    by (auto simp: seal_for_def Some encrypt_and_encode_def crypto_seal_def wp_simps seal_def is_ok_def
        split: prod.splits sum.splits)
qed

text \<open>The tree under a name: valid names give a stored form.\<close>

fun names_safe :: "node \<Rightarrow> bool" where
  "names_safe (Dir n cs) \<longleftrightarrow> safe_name n \<and> (\<forall>c\<in>set cs. names_safe c)"
| "names_safe (File n _ _ _ _) \<longleftrightarrow> safe_name n"
| "names_safe (Ref n _) \<longleftrightarrow> False"

lemma store_node_ok:
  "\<lbrakk> foreign_laws L; names_safe n \<rbrakk> \<Longrightarrow> is_ok (store_node L n blobs)"
  "\<lbrakk> foreign_laws L; \<forall>c\<in>set cs. names_safe c \<rbrakk> \<Longrightarrow> is_ok (store_children L cs blobs)
     \<and> (\<forall>cs' b. store_children L cs blobs = Inr (cs', b) \<longrightarrow> (\<forall>c\<in>set cs'. validate c = Inr ()))"
proof (induction L n blobs and L cs blobs rule: store_node_store_children.induct)
  case (1 L n cs blobs)
  then obtain cs' b where "store_children L cs blobs = Inr (cs', b)" "\<forall>c\<in>set cs'. validate c = Inr ()"
    by (auto simp: is_ok_iff)
  moreover from this have "validate (Dir n cs') = Inr ()" unfolding validate_Dir using 1(3) by simp
  ultimately show ?case by (simp add: inline_or_ref_def Let_def del: validate.simps)
next
  case (5 L c cs blobs)
  obtain c' b1 where c: "store_node L c blobs = Inr (c', b1)" using 5 by (auto simp: is_ok_iff)
  then show ?case using 5 store_node_valid [OF c] by (fastforce simp: is_ok_iff res_bind_Inr)
qed (auto simp: inline_or_ref_def Let_def check_name_ok [THEN iffD2])

lemma names_safe_sort [simp]: "names_safe (sort_node n) = names_safe n"
  by (induction n rule: sort_node.induct) auto

fun safe_src :: "src \<Rightarrow> bool" where
  "safe_src (SrcDir (Some es)) \<longleftrightarrow> (\<forall>(n, e)\<in>set es. is_other e \<or> safe_name n \<and> safe_src e)"
| "safe_src s \<longleftrightarrow> True"

lemma safe_name_lossy: "safe_name n \<Longrightarrow> safe_name (to_string_lossy n)"
  using lossy_char [of "CHR ''/''" n] lossy_char [of "CHR 0x5C" n] lossy_char [of "CHR '':''" n] lossy_char [of "CHR 0x00" n]
    lossy_eq_ascii [of "''.''" n] lossy_eq_ascii [of "''..''" n]
  by (auto simp: safe_name_def)

lemma names_safe_src: "safe_name nm \<Longrightarrow> safe_src s \<Longrightarrow> names_safe (src_node L cfg nm s)"
proof (induction L cfg nm s rule: src_node.induct)
  case (2 L cfg nm entries)
  have "names_safe (src_node L cfg (to_string_lossy n) e)" if "(n, e) \<in> set entries" "\<not> is_other e" for n e
    by (rule 2(1)) (use that 2(3) in \<open>auto intro: safe_name_lossy\<close>)
  then show ?case using 2(2) unfolding src_node.simps names_safe_sort by auto
qed auto

definition sources_readable :: "chunker_config \<Rightarrow> source_fs \<Rightarrow> string list \<Rightarrow> bool" where
  "sources_readable cfg sfs paths \<longleftrightarrow> chunker_ok cfg \<and> (\<forall>p\<in>set paths. \<exists>cp es. sfs p = Some (cp, SrcDir (Some es))
     \<and> readable (SrcDir (Some es)) \<and> safe_src (SrcDir (Some es)) \<and> safe_name (file_name cp))"

lemma names_safe_root:
  assumes "sources_readable cfg sfs paths"
  shows "names_safe (sources_root L cfg sfs paths)"
proof -
  have "safe_name ''root''" by (simp add: safe_name_def)
  moreover have "names_safe (src_node L cfg (file_name (fst (the (sfs p)))) (snd (the (sfs p))))" if "p \<in> set paths" for p
    by (rule names_safe_src) (use assms that in \<open>force simp: sources_readable_def\<close>)+
  ultimately show ?thesis unfolding sources_root_def names_safe_sort by auto
qed

context reliable_backend
begin

abbreviation "goes_well w \<equiv> fine good ready w"

lemma fine_upd: "fine good ready w \<Longrightarrow> w_store t = w_store w \<Longrightarrow> fine good ready t"
  by (simp add: fine_def)

lemma wp_put_missing_ok:
  assumes R: "rp_backend R = B" and w: "fine good ready w" and s: "sealable L R" and h: "hash_name h"
  shows "wp (put_missing L R h d) (\<lambda>r t. fine good ready t \<and> is_ok r) w"
proof -
  have rk: "repo_key (bkey h)" using h by simp
  have put: "wp (bnd (put_obj R (bkey h) st) (\<lambda>_. ret (Some (length st)))) (\<lambda>r t. fine good ready t \<and> is_ok r) u"
    if u: "fine good ready u" for u st
    unfolding wp_bnd by (rule wp_mono [OF wp_put [OF R _ rk]])
      (use u in \<open>auto simp: fine_def wp_simps split: sum.splits\<close>)
  have seal: "wp (bnd (seal_for L R (CtxHash h) d) (\<lambda>st. bnd (put_obj R (bkey h) st) (\<lambda>_. ret (Some (length st)))))
      (\<lambda>r t. fine good ready t \<and> is_ok r) u" if u: "fine good ready u" for u
    by (rule wp_bndI [OF wp_seal_ok [OF s, of _ _ u]]) (use u put fine_upd in auto)
  show ?thesis
    unfolding put_missing_def blob_key_hash [OF h] lift_res_Inr bnd_ret
  proof (rule wp_bndI [OF wp_exists [OF R _ rk]], goal_cases)
    case (3 b t)
    then show ?case using w seal [of t] by (auto simp: fine_def same_store_def wp_simps)
  qed (use w in \<open>auto simp: fine_def\<close>)
qed

lemma wp_fold_ok:
  assumes w: "fine good ready w"
    and step: "\<And>a x t. x \<in> set xs \<Longrightarrow> fine good ready t \<Longrightarrow> wp (f a x) (\<lambda>r u. fine good ready u \<and> is_ok r) t"
  shows "wp (fold_io f acc xs) (\<lambda>r t. fine good ready t \<and> is_ok r) w"
  by (rule wp_fold_io [where Inv = "\<lambda>_ _ t. fine good ready t"])
    (use w step in \<open>auto intro!: wp_mono [OF step] split: sum.splits\<close>)

lemma wp_then_ok:
  assumes "wp m (\<lambda>r t. fine good ready t \<and> is_ok r) w"
    and "\<And>a t. fine good ready t \<Longrightarrow> wp (f a) (\<lambda>r t. fine good ready t \<and> is_ok r) t"
  shows "wp (bnd m f) (\<lambda>r t. fine good ready t \<and> is_ok r) w"
  by (rule wp_bndI [OF assms(1)]) (use assms(2) in auto)

lemma wp_ret_ok: "fine good ready w \<Longrightarrow> wp (ret a) (\<lambda>r t. fine good ready t \<and> is_ok r) w"
  by (simp add: wp_ret)

lemma wp_backup_file_ok:
  assumes R: "rp_backend R = B" and w: "fine good ready w" and s: "sealable L R" and L: "foreign_laws L"
    and c: "chunker_ok (rc_chunker (rp_config R))"
  shows "wp (backup_file L R nm path md (Some (Reader d)) run) (\<lambda>r t. fine good ready t \<and> is_ok r) w"
proof -
  let ?ps = "fastcdc L (rc_chunker (rp_config R)) d"
  obtain st' pend' where e:
    "chunk_stream L (Reader d) (rc_chunker (rp_config R)) file_sink (ru_stats run, ru_seen run, [], [])
       = (ret (st', ru_seen run \<union> blake3_hex L ` set ?ps, pend', map (blake3_hex L) ?ps) :: ('b world, sink_acc) io)"
    "chunked L ?ps (ru_seen run) [] pend'"
    using chunk_stream_file [of L d "rc_chunker (rp_config R)" "ru_stats run" "ru_seen run"] c by blast
  have hn: "hash_name h" if "(h, x) \<in> set pend'" for h x
    using e(2) that L by (auto simp: chunked_def)
  have "wp (store_pending L R (st', ru_written run) pend') (\<lambda>r t. fine good ready t \<and> is_ok r) w"
    unfolding store_pending_def
    by (rule wp_fold_ok [OF w]) (use hn in \<open>auto intro!: wp_then_ok wp_ret_ok wp_put_missing_ok [OF R _ s]\<close>)
  then show ?thesis
    unfolding backup_file_def option.case e(1) bnd_ret prod.case
    by (rule wp_then_ok) (auto simp: wp_ret)
qed

lemma wp_backup_dir_ok:
  assumes R: "rp_backend R = B" and s: "sealable L R" and L: "foreign_laws L" and c: "chunker_ok (rc_chunker (rp_config R))"
  shows "fine good ready w \<Longrightarrow> readable (SrcDir (Some es)) \<Longrightarrow>
    wp (backup_dir L R nm path (SrcDir (Some es)) run) (\<lambda>r t. fine good ready t \<and> is_ok r) w"
proof (induction "size (SrcDir (Some es))" arbitrary: es nm path run w rule: less_induct)
  case less
  have step: "wp (case (acc, x) of ((children, run), (n, e)) \<Rightarrow> (case e of
            SrcDir es \<Rightarrow> bnd (backup_dir L R (to_string_lossy n) (path @ [n]) e run) (\<lambda>(nd, run'). ret (children @ [nd], run'))
          | SrcFile md rd \<Rightarrow>
              bnd (backup_file L R (to_string_lossy n) (path @ [n]) md rd run) (\<lambda>(nd, run'). ret (children @ [nd], run'))
          | SrcUntyped \<Rightarrow> raise (Io (path_str (path @ [n])))
          | _ \<Rightarrow> ret (children, run))) (\<lambda>r u. fine good ready u \<and> is_ok r) t"
    if x: "x \<in> set es" and t: "fine good ready t" for acc x t
  proof -
    obtain children run' where a: "acc = (children, run')" by fastforce
    obtain n e where ne: "x = (n, e)" by fastforce
    have rd: "readable e" using less.prems(2) x ne by auto
    show ?thesis
    proof (cases e)
      case SrcOther
      then show ?thesis using t by (simp add: a ne wp_ret)
    next
      case SrcLost
      then show ?thesis using t by (simp add: a ne wp_ret)
    next
      case SrcUntyped
      then show ?thesis using rd by simp
    next
      case (SrcFile md rd')
      then obtain d where "rd' = Some (Reader d)" using rd by (cases "(e)" rule: readable.cases) auto
      then show ?thesis
        unfolding a ne prod.case SrcFile src.case
        by (auto intro!: wp_then_ok [OF wp_backup_file_ok [OF R t s L c]] simp: wp_ret)
    next
      case (SrcDir es')
      then obtain xs where xs: "es' = Some xs" using rd by (cases es') auto
      have sz: "size (SrcDir (Some xs)) < size (SrcDir (Some es))"
        using src_child_size [of n e es] x ne SrcDir xs by simp
      show ?thesis
        unfolding a ne prod.case SrcDir src.case xs
        by (rule wp_then_ok [OF less.hyps [OF sz t]]) (use rd SrcDir xs in \<open>auto simp: wp_ret\<close>)
    qed
  qed
  show ?case
    unfolding backup_dir.simps
    by (rule wp_then_ok [OF wp_fold_ok [OF less.prems(1)]]) (use step in \<open>auto simp: wp_ret\<close>)
qed

lemma wp_walk_roots_ok:
  assumes R: "rp_backend R = B" and w: "fine good ready w" and s: "sealable L R" and L: "foreign_laws L"
    and src: "sources_readable (rc_chunker (rp_config R)) sfs paths"
  shows "wp (walk_roots L R sfs paths) (\<lambda>r t. fine good ready t \<and> is_ok r) w"
  unfolding walk_roots_def
proof (rule wp_fold_ok [OF w])
  fix a :: "string list \<times> node list \<times> run" and p and t :: "'b world"
  assume p: "p \<in> set paths" and t: "fine good ready t"
  obtain cp es where e: "sfs p = Some (cp, SrcDir (Some es))" "readable (SrcDir (Some es))"
    using src p unfolding sources_readable_def by blast
  have c: "chunker_ok (rc_chunker (rp_config R))" using src by (simp add: sources_readable_def)
  obtain roots children run where a: "a = (roots, children, run)" by (cases a)
  show "wp ((\<lambda>(roots, children, run) p. case sfs p of
         None \<Rightarrow> raise (Io p)
       | Some (cp, s) \<Rightarrow> bnd (backup_dir L R (file_name cp) cp s run) (\<lambda>(nd, run').
           ret (roots @ [display_path cp], children @ [nd], run'))) a p) (\<lambda>r t. fine good ready t \<and> is_ok r) t"
    unfolding a prod.case e(1) option.case
    by (rule wp_then_ok [OF wp_backup_dir_ok [OF R s L c t e(2)]]) (auto simp: wp_ret)
qed

lemma wp_commit_ok:
  assumes R: "rp_backend R = B" and w: "fine good ready w" and s: "sealable L R" and L: "foreign_laws L"
    and n: "names_safe (sort_node root)" and uid: "ident (w_uuids w (w_uuid_pos w))"
  shows "wp (commit_snapshot L R root paths st wr) (\<lambda>r t. fine good ready t \<and> is_ok r) w"
proof -
  obtain root' blobs where b: "build_stored L (sort_node root) = Inr (root', blobs)"
    using store_node_ok(1) [OF L n, of "[]"] by (auto simp: build_stored_def is_ok_iff)
  have hn: "hash_name h" if "(h, d) \<in> set blobs" for h d
    using that store_content_addressed(1) [of L "sort_node root" "[]" root' blobs] b L
    by (fastforce simp: build_stored_def addressed_def)
  have doc: "wp (bnd (seal_for L R CtxDoc d) (\<lambda>x. bnd (put_obj R k x) (\<lambda>_. m))) (\<lambda>r t. fine good ready t \<and> is_ok r) u"
    if "fine good ready u" "repo_key k" "\<And>v. fine good ready v \<Longrightarrow> wp m (\<lambda>r t. fine good ready t \<and> is_ok r) v"
    for d k u and m :: "('b world, snapshot) io"
  proof (rule wp_bndI [OF wp_seal_ok [OF s, of _ _ u]], goal_cases)
    case (2 x v)
    then have v: "fine good ready v" using that(1) by (simp add: fine_def)
    then show ?case
      by (intro wp_bndI [OF wp_put [OF R _ that(2)]] that(3)) (auto simp: fine_def)
  qed auto
  show ?thesis
    unfolding commit_snapshot_def b lift_res_Inr bnd_ret prod.case
  proof (rule wp_bndI [where M = "\<lambda>r t. fine good ready t \<and> is_ok r \<and> w_uuids t = w_uuids w \<and> w_uuid_pos t = w_uuid_pos w"], goal_cases)
    case 1
    have "wp (store_node_blobs L R (st, wr) blobs) (\<lambda>r t. fine good ready t \<and> is_ok r) w"
      unfolding store_node_blobs_def
      by (rule wp_fold_ok [OF w]) (use hn in \<open>auto intro!: wp_then_ok wp_ret_ok wp_put_missing_ok [OF R _ s]\<close>)
    moreover have "wp (store_node_blobs L R (st, wr) blobs) (\<lambda>r t. kept_store L R UNIV view good w t
        \<and> (is_ok r \<longrightarrow> present L (view (w_store t)) (snd ` set blobs))) w"
      by (rule wp_store_node_blobs [OF R L])
        (use w b store_content_addressed(1) [of L "sort_node root" "[]" root' blobs] in
          \<open>auto simp: fine_def build_stored_def addressed_def\<close>)
    ultimately show ?case
      by (auto simp: wp_iff kept_store_def dest: quiet_fields)
  next
    case (3 a t)
    then have ft: "fine good ready t" and ut: "w_uuids t (w_uuid_pos t) = w_uuids w (w_uuid_pos w)" by auto
    obtain st' wr' where a: "a = (st', wr')" by fastforce
    show ?case
      unfolding a prod.case wp_bnd [of new_uuid] wp_new_uuid wp_bnd [of now_rfc3339] wp_now
        wp_bnd [of get_hostname] wp_get_hostname Let_def sum.case
    proof (rule doc, goal_cases)
      case (3 v)
      show ?case by (rule doc [OF 3]) (use uid ut in \<open>auto intro: wp_ret_ok simp: repo_key_snapshot\<close>)
    qed (use ft ut uid in \<open>auto simp: fine_def repo_key_index\<close>)
  qed auto
qed

lemma wp_backup_ok:
  assumes R: "rp_backend R = B" and w: "fine good ready w" and s: "sealable L R" and L: "foreign_laws L"
    and src: "sources_readable (rc_chunker (rp_config R)) sfs paths" and uid: "ident (w_uuids w (w_uuid_pos w))"
  shows "wp (backup L R sfs paths) (\<lambda>r t. fine good ready t \<and> is_ok r) w"
proof -
  define U where "U = (UNIV :: bytes set)"
  have walk: "wp (walk_roots L R sfs paths) (\<lambda>r t. fine good ready t \<and> is_ok r
      \<and> (\<forall>a. r = Inr a \<longrightarrow> roots_inv L R U view good w sfs paths a t)) w"
  proof -
    have "wp (walk_roots L R sfs paths) (\<lambda>r t. case r of
      Inl _ \<Rightarrow> kept_store L R U view good w t | Inr acc \<Rightarrow> roots_inv L R U view good w sfs paths acc t) w"
      by (rule wp_walk_roots [OF R L]) (use w in \<open>auto simp: fine_def U_def sources_within_def\<close>)
    then show ?thesis using wp_walk_roots_ok [OF R w s L src] by (auto simp: wp_iff)
  qed
  show ?thesis
    unfolding backup_def
  proof (rule wp_bndI [OF walk], goal_cases)
    case (2 a t)
    obtain roots children run where a: "a = (roots, children, run)" by (cases a)
    have ri: "roots_inv L R U view good w sfs paths (roots, children, run) t" using 2 a by simp
    then have root: "sort_node (Dir ''root'' children) = sources_root L (rc_chunker (rp_config R)) sfs paths"
      and q: "quiet w t"
      unfolding roots_inv_def roots_walked_def sources_root_def kept_store_def by simp_all
    have n: "names_safe (sort_node (Dir ''root'' children))" unfolding root by (rule names_safe_root [OF src])
    have u: "ident (w_uuids t (w_uuid_pos t))" using uid quiet_fields [OF q] by simp
    show ?case unfolding a prod.case by (rule wp_commit_ok [OF R _ s L n u]) (use 2 in auto)
  qed auto
qed

end

end
