(* ===== verification/Repository_Laws.thy ===== *)
theory Repository_Laws
  imports Round_Trip Backup_Total
begin

text \<open>
  The laws of backup and restore over any store that keeps the backend contract, in the form
  the repositories on a concrete backend inherit them: an interrupted backup, a backup that
  succeeds, and a backup followed by a restore.
\<close>

section \<open>Setting\<close>

text \<open>
  What a backup is run with: the laws of the libraries, a set \<open>U\<close> of byte strings on
  which the hash does not collide and to which everything stored belongs, a store whose
  blobs are of \<open>U\<close>, a fresh snapshot id, and sources a snapshot can represent.
\<close>

definition backup_setting ::
  "foreign \<Rightarrow> 'b repository \<Rightarrow> bytes set \<Rightarrow> (string \<Rightarrow> bytes option) \<Rightarrow> source_fs \<Rightarrow> string list \<Rightarrow> string \<Rightarrow> bool" where
  "backup_setting L R U v sfs paths uid \<longleftrightarrow> foreign_laws L \<and> inj_on (blake3_hex L) U \<and> store_ok L R U v
     \<and> ident uid \<and> v (snapshot_key uid) = None \<and> v (index_key uid) = None \<and> sources_ok sfs paths
     \<and> all_pieces L (rc_chunker (rp_config R)) sfs paths \<subseteq> U
     \<and> (\<forall>root' blobs. build_stored L (sources_root L (rc_chunker (rp_config R)) sfs paths) = Inr (root', blobs)
          \<longrightarrow> snd ` set blobs \<subseteq> U)"

definition next_uuid :: "'b world \<Rightarrow> string" where
  "next_uuid w = w_uuids w (w_uuid_pos w)"

lemma sources_within_pieces:
  "all_pieces L cfg sfs paths \<subseteq> U \<Longrightarrow> sources_within L cfg sfs paths U"
  by (force simp: sources_within_def all_pieces_def root_src_def)

lemma left_keys:
  assumes "left_by_backup L R U sfs paths uid v v' r" "v (snapshot_key uid) = None" "v (index_key uid) = None"
  shows "v \<subseteq>\<^sub>m v'" "\<forall>k. v k = None \<longrightarrow> v' k \<noteq> None \<longrightarrow> (\<exists>h. hash_name h \<and> k = bkey h) \<or> k \<in> {index_key uid, snapshot_key uid}"
    "v' (snapshot_key uid) \<noteq> None \<longrightarrow> v' (index_key uid) \<noteq> None"
    "is_ok r \<longrightarrow> v' (snapshot_key uid) \<noteq> None"
proof -
  have g: "v \<subseteq>\<^sub>m u \<and> (\<forall>k. u k \<noteq> v k \<longrightarrow> (\<exists>h. hash_name h \<and> k = bkey h))" if "grown L R U v u" for u
    using that by (simp add: grown_def)
  have doc: "u (snapshot_key uid) = None \<and> u (index_key uid) = None" if "grown L R U v u" for u
    using g [OF that] assms(2,3) by (metis keys_disjoint(3,4))
  have cases: "(v' = v1 \<and> \<not> is_ok r) \<or> (\<exists>ib. v' = v1(index_key uid \<mapsto> ib) \<and> \<not> is_ok r)
      \<or> (\<exists>ib mb. v' = v1(index_key uid \<mapsto> ib, snapshot_key uid \<mapsto> mb))"
    if "\<exists>root' blobs ib sn written. P root' blobs ib sn written \<and> (v' = v1(index_key uid \<mapsto> ib) \<and> \<not> is_ok r
        \<or> (\<exists>mb. Q mb sn \<and> v' = v1(index_key uid \<mapsto> ib, snapshot_key uid \<mapsto> mb) \<and> T sn))" for v1 P Q T
    using that by blast
  obtain v1 where v1: "grown L R U v v1" "(v' = v1 \<and> \<not> is_ok r) \<or> (\<exists>ib. v' = v1(index_key uid \<mapsto> ib) \<and> \<not> is_ok r)
      \<or> (\<exists>ib mb. v' = v1(index_key uid \<mapsto> ib, snapshot_key uid \<mapsto> mb))"
    using assms(1) unfolding left_by_backup_def committed_def by (metis grown_trans)
  have le: "v \<subseteq>\<^sub>m v1" and new: "\<forall>k. v1 k \<noteq> v k \<longrightarrow> (\<exists>h. hash_name h \<and> k = bkey h)" using g [OF v1(1)] by auto
  have v1n: "v1 (snapshot_key uid) = None" "v1 (index_key uid) = None" using doc [OF v1(1)] by auto
  show "v \<subseteq>\<^sub>m v'" using v1(2) le assms(2,3) by (auto simp: map_le_def dom_def)
  show "\<forall>k. v k = None \<longrightarrow> v' k \<noteq> None \<longrightarrow> (\<exists>h. hash_name h \<and> k = bkey h) \<or> k \<in> {index_key uid, snapshot_key uid}"
    using v1(2) new by (auto split: if_splits) (metis option.distinct(1))+
  show "v' (snapshot_key uid) \<noteq> None \<longrightarrow> v' (index_key uid) \<noteq> None" using v1(2) v1n by auto
  show "is_ok r \<longrightarrow> v' (snapshot_key uid) \<noteq> None" using v1(2) by auto
qed

section \<open>Backup\<close>

context backend
begin

lemma backup_leaves:
  assumes R: "rp_backend R = B" and w: "good (w_store w)"
    and set: "backup_setting L R U (view (w_store w)) sfs paths (next_uuid w)"
    and run: "backup L R sfs paths w = (r, t)"
  shows "good (w_store t)"
    "left_by_backup L R U sfs paths (next_uuid w) (view (w_store w)) (view (w_store t)) r"
proof -
  have L: "foreign_laws L" and uid: "ident (w_uuids w (w_uuid_pos w))"
    and fresh: "unused_id (view (w_store w)) (w_uuids w (w_uuid_pos w))"
    and sw: "sources_within L (rc_chunker (rp_config R)) sfs paths U"
    and UB: "\<forall>root' blobs. build_stored L (sources_root L (rc_chunker (rp_config R)) sfs paths) = Inr (root', blobs)
          \<longrightarrow> snd ` set blobs \<subseteq> U"
    using set sources_within_pieces by (auto simp: backup_setting_def next_uuid_def unused_id_def)
  note wp_backup [OF R L w uid fresh sw UB, THEN wp_run, OF run]
  then show "good (w_store t)"
    "left_by_backup L R U sfs paths (next_uuid w) (view (w_store w)) (view (w_store t)) r"
    by (auto simp: next_uuid_def)
qed

lemma backup_visible:
  assumes R: "rp_backend R = B" and w: "good (w_store w)"
    and set: "backup_setting L R U (view (w_store w)) sfs paths (next_uuid w)"
    and run: "backup L R sfs paths w = (r, t)" and vis: "view (w_store t) (snapshot_key (next_uuid w)) \<noteq> None"
  shows "\<exists>sn. sn_id sn = next_uuid w \<and> snapshot_of_sources L R (view (w_store t)) sfs paths sn \<and> (\<forall>sn'. r = Inr sn' \<longrightarrow> sn' = sn)"
  by (rule committed_visible [OF _ _ _ _ _ _ _ backup_leaves(2) [OF R w set run]])
    (use set vis in \<open>auto simp: backup_setting_def\<close>)

lemma crash_consistent:
  assumes "rp_backend R = B" "good (w_store w)"
    and "backup_setting L R U (view (w_store w)) sfs paths (next_uuid w)"
    and "backup L R sfs paths w = (r, t)"
  shows "view (w_store w) \<subseteq>\<^sub>m view (w_store t)
     \<and> (\<forall>k. view (w_store w) k = None \<longrightarrow> view (w_store t) k \<noteq> None \<longrightarrow>
          (\<exists>h. hash_name h \<and> k = bkey h) \<or> k \<in> {index_key (next_uuid w), snapshot_key (next_uuid w)})
     \<and> (view (w_store t) (snapshot_key (next_uuid w)) \<noteq> None \<longrightarrow>
          view (w_store t) (index_key (next_uuid w)) \<noteq> None
        \<and> (\<exists>sn. sn_id sn = next_uuid w \<and> snapshot_of_sources L R (view (w_store t)) sfs paths sn))
     \<and> (\<forall>sn. r = Inr sn \<longrightarrow> sn_id sn = next_uuid w \<and> snapshot_of_sources L R (view (w_store t)) sfs paths sn)"
proof -
  have new: "view (w_store w) (snapshot_key (next_uuid w)) = None" "view (w_store w) (index_key (next_uuid w)) = None"
    using assms(3) by (auto simp: backup_setting_def)
  note k = left_keys [OF backup_leaves(2) [OF assms] new]
  note vis = backup_visible [OF assms]
  have ok: "sn_id sn = next_uuid w \<and> snapshot_of_sources L R (view (w_store t)) sfs paths sn" if "r = Inr sn" for sn
    using vis k(4) that by auto
  have see: "view (w_store t) (snapshot_key (next_uuid w)) \<noteq> None \<longrightarrow> view (w_store t) (index_key (next_uuid w)) \<noteq> None
      \<and> (\<exists>sn. sn_id sn = next_uuid w \<and> snapshot_of_sources L R (view (w_store t)) sfs paths sn)"
    using k(3) vis by metis
  show ?thesis
    by (rule conjI [OF k(1) conjI [OF k(2) conjI [OF see]]]) (use ok in simp)
qed

end

section \<open>Backup, then restore\<close>

context reliable_backend
begin

lemma restore_returns:
  assumes R: "rp_backend R = B" and w: "good (w_store w)"
    and L: "foreign_laws L" "chunker_ok (rc_chunker (rp_config R))" and ok: "sources_ok sfs paths"
    and sn: "snapshot_of_sources L R (view (w_store w)) sfs paths sn"
    and tg: "fresh_target (wfs w) target" and fuel: "json_depth_limit \<le> fuel"
    and run: "restore L R fuel (sn_id sn) target w = (r, t)"
    and A: "A \<longrightarrow> ready (w_store w) \<and> faultless (w_os w)"
  shows "within target (wfs w) (wfs t)"
    "r = Inr s' \<Longrightarrow> s' = sn \<and> restored_sources (names_restored sfs paths) A (wfs t) target sfs paths"
    "A \<Longrightarrow> manifests_ok L R (view (w_store w)) \<Longrightarrow>
      (\<exists>!i. i \<in> snapshot_ids (view (w_store w)) \<and> starts_with i (sn_id sn)) \<Longrightarrow> is_ok r"
proof -
  let ?cfg = "rc_chunker (rp_config R)"
  let ?v = "view (w_store w)"
  have s: "sn_id sn \<in> snapshot_ids ?v" "manifest L R ?v (sn_id sn) = Some sn"
    "restorable L R ?v sn ''root'' (sorted_nodes L ?cfg sfs paths)"
    "\<forall>p\<in>set paths. readable (root_src sfs p) \<and> \<not> is_other (root_src sfs p)"
    "\<forall>d\<in>all_pieces L ?cfg sfs paths. contents L R ?v (blake3_hex L d) = Some d"
    using sn by (auto simp: snapshot_of_sources_def)
  have st: "starts_with (sn_id sn) (sn_id sn)" by (simp add: starts_with_def)
  have h: "node_height (Dir ''root'' (sorted_nodes L ?cfg sfs paths)) \<le> fuel"
    using sources_root_shape(3) [OF ok, of L ?cfg] fuel unfolding sources_root_eq(2) by simp
  have A': "A \<longrightarrow> alive ready w" using A by (simp add: alive_def)
  note p = wp_restore [OF R w tg A' s(1,2) st s(3) h, THEN wp_run, OF run]
  show "within target (wfs w) (wfs t)" by (rule p [THEN conjunct2, THEN conjunct1])
  show "s' = sn \<and> restored_sources (names_restored sfs paths) A (wfs t) target sfs paths" if "r = Inr s'"
  proof -
    have "s' = sn \<and> target_holds A (contents L R ?v) (wfs t) target (sorted_nodes L ?cfg sfs paths)"
      using p [THEN conjunct2, THEN conjunct2, THEN conjunct1] that by simp
    then have "s' = sn" and th: "target_holds A (contents L R ?v) (wfs t) target (sorted_nodes L ?cfg sfs paths)"
      by blast+
    then show ?thesis using restored_sources_names [OF holds_sources [OF th ok L s(4,5)]] by blast
  qed
  have c: "\<forall>h\<in>set (chunks_of (Dir ''root'' (sorted_nodes L ?cfg sfs paths))). contents L R ?v h \<noteq> None"
  proof
    fix h
    assume "h \<in> set (chunks_of (Dir ''root'' (sorted_nodes L ?cfg sfs paths)))"
    then have "h \<in> blake3_hex L ` all_pieces L ?cfg sfs paths"
      using chunks_of_sources [of L ?cfg sfs paths] unfolding sources_root_eq(2) by (rule rev_subsetD)
    then obtain d where "d \<in> all_pieces L ?cfg sfs paths" "h = blake3_hex L d" by (rule imageE)
    then show "contents L R ?v h \<noteq> None" using s(5) by simp
  qed
  show "is_ok r" if h: A "manifests_ok L R (view (w_store w))"
      "\<exists>!i. i \<in> snapshot_ids (view (w_store w)) \<and> starts_with i (sn_id sn)"
    using p [THEN conjunct2, THEN conjunct2, THEN conjunct2, THEN mp, OF h(1), THEN conjunct2] h(2,3) c by simp
qed

lemma roundtrip:
  assumes "rp_backend R = B" "good (w_store w)"
    and "backup_setting L R U (view (w_store w)) sfs paths (next_uuid w)" "chunker_ok (rc_chunker (rp_config R))"
    and "backup L R sfs paths w = (Inr sn, t)"
    and "w_store x = w_store t" "fresh_target (wfs x) target" "json_depth_limit \<le> fuel"
    and "restore L R fuel (sn_id sn) target x = (r, y)"
  shows "(\<forall>q. \<not> prefix target q \<longrightarrow> ent (wfs y) q = ent (wfs x) q)
     \<and> (\<forall>s. r = Inr s \<longrightarrow> s = sn \<and> restored_sources (names_restored sfs paths) False (wfs y) target sfs paths)
     \<and> (ready (w_store x) \<and> faultless (w_os x) \<and> manifests_ok L R (view (w_store x))
          \<and> (\<exists>!i. i \<in> snapshot_ids (view (w_store x)) \<and> starts_with i (sn_id sn)) \<longrightarrow>
          r = Inr sn \<and> restored_sources (names_restored sfs paths) True (wfs y) target sfs paths)"
proof -
  have L: "foreign_laws L" and ok: "sources_ok sfs paths"
    and new: "view (w_store w) (snapshot_key (next_uuid w)) = None" "view (w_store w) (index_key (next_uuid w)) = None"
    using assms(3) by (auto simp: backup_setting_def)
  have sn: "snapshot_of_sources L R (view (w_store x)) sfs paths sn"
    using backup_visible [OF assms(1-3,5)] left_keys(4) [OF backup_leaves(2) [OF assms(1-3,5)] new] assms(6) by auto
  have gx: "good (w_store x)" using backup_leaves(1) [OF assms(1-3,5)] assms(6) by simp
  note rs = restore_returns [OF assms(1) gx L assms(4) ok sn assms(7-9)]
  have "(\<forall>s. r = Inr s \<longrightarrow> s = sn \<and> restored_sources (names_restored sfs paths) False (wfs y) target sfs paths)"
    by (intro allI impI rs(2) [where A = False]) simp_all
  moreover have "r = Inr sn \<and> restored_sources (names_restored sfs paths) True (wfs y) target sfs paths"
    if "ready (w_store x) \<and> faultless (w_os x) \<and> manifests_ok L R (view (w_store x))
          \<and> (\<exists>!i. i \<in> snapshot_ids (view (w_store x)) \<and> starts_with i (sn_id sn))"
  proof -
    have "is_ok r" by (rule rs(3) [where A = True]) (use that in simp_all)
    then obtain s where s: "r = Inr s" by (auto simp: is_ok_iff)
    have "s = sn \<and> restored_sources (names_restored sfs paths) True (wfs y) target sfs paths"
      by (rule rs(2) [where A = True, OF _ s]) (use that in simp)
    then show ?thesis using s by simp
  qed
  moreover have "\<forall>q. \<not> prefix target q \<longrightarrow> ent (wfs y) q = ent (wfs x) q"
    using rs(1) [where A = False] unfolding within_def by blast
  ultimately show ?thesis by blast
qed

lemma backup_returns:
  assumes "rp_backend R = B" "good (w_store w)" "ready (w_store w)"
    and "foreign_laws L" "sealable L R" "ident (next_uuid w)"
    and "sources_readable (rc_chunker (rp_config R)) sfs paths" "backup L R sfs paths w = (r, t)"
  shows "is_ok r \<and> ready (w_store t) \<and> good (w_store t)"
proof -
  have f: "fine (good) ready w" using assms(2,3) by (simp add: fine_def)
  show ?thesis
    using wp_backup_ok [OF assms(1) f assms(5,4,7) assms(6) [unfolded next_uuid_def], THEN wp_run, OF assms(8)]
    by (simp add: fine_def)
qed

end

end
