(* ===== verification/Store_Calls.thy ===== *)
theory Store_Calls
  imports Backend
begin

text \<open>
  Sequences of calls to a backend and their answers, against the same calls on a flat map: on
  a reliable backend in a ready state the answers are those of the map, so two such backends
  that show the same store cannot be told apart.
\<close>

datatype store_call = Get_Call string | Put_Call string bytes | Has_Call string | Delete_Call string | List_Call string

datatype store_answer = Got bytes | Done | Has bool | Listed "string set"

text \<open>A listing answers with its repository keys; left-over temporary names are not compared.\<close>

fun perform :: "'b backend \<Rightarrow> store_call \<Rightarrow> ('b, store_answer) io" where
  "perform B (Get_Call k) = bnd (b_get B k) (\<lambda>d. ret (Got d))"
| "perform B (Put_Call k d) = bnd (b_put B k d) (\<lambda>_. ret Done)"
| "perform B (Has_Call k) = bnd (b_exists B k) (\<lambda>a. ret (Has a))"
| "perform B (Delete_Call k) = bnd (b_delete B k) (\<lambda>_. ret Done)"
| "perform B (List_Call p) = bnd (b_list B p) (\<lambda>ks. ret (Listed {k \<in> set ks. repo_key k}))"

text \<open>A client goes on after a call that fails; \<open>None\<close> is the answer of a failed call.\<close>

fun answers_to :: "'b backend \<Rightarrow> store_call list \<Rightarrow> 'b \<Rightarrow> store_answer option list" where
  "answers_to B [] b = []"
| "answers_to B (c # cs) b = (case perform B c b of (r, b') \<Rightarrow>
     (case r of Inl _ \<Rightarrow> None | Inr a \<Rightarrow> Some a) # answers_to B cs b')"

fun flat_call :: "store_call \<Rightarrow> (string \<Rightarrow> bytes option) \<Rightarrow> store_answer option \<times> (string \<Rightarrow> bytes option)" where
  "flat_call (Get_Call k) v = (map_option Got (v k), v)"
| "flat_call (Put_Call k d) v = (Some Done, v(k \<mapsto> d))"
| "flat_call (Has_Call k) v = (Some (Has (v k \<noteq> None)), v)"
| "flat_call (Delete_Call k) v = (Some Done, v(k := None))"
| "flat_call (List_Call p) v = (Some (Listed {k. under p k \<and> v k \<noteq> None}), v)"

fun flat_answers :: "store_call list \<Rightarrow> (string \<Rightarrow> bytes option) \<Rightarrow> store_answer option list" where
  "flat_answers [] v = []"
| "flat_answers (c # cs) v = (case flat_call c v of (a, v') \<Rightarrow> a # flat_answers cs v')"

text \<open>The calls the engine makes: repository keys, and the four prefixes it lists.\<close>

fun engine_call :: "store_call \<Rightarrow> bool" where
  "engine_call (Get_Call k) = repo_key k"
| "engine_call (Put_Call k d) = repo_key k"
| "engine_call (Has_Call k) = repo_key k"
| "engine_call (Delete_Call k) = repo_key k"
| "engine_call (List_Call p) = list_prefix p"

lemma wp_both: "wp m P s \<Longrightarrow> wp m Q s \<Longrightarrow> wp m (\<lambda>r t. P r t \<and> Q r t) s"
  by (simp add: wp_conj)

context reliable_backend
begin

lemma wp_perform:
  assumes "good b" "ready b" "engine_call c"
  shows "wp (perform B c) (\<lambda>r b'. good b' \<and> ready b'
     \<and> ((case r of Inl _ \<Rightarrow> None | Inr a \<Rightarrow> Some a), view b') = flat_call c (view b)) b"
proof (cases c)
  case (Get_Call k)
  note l = get_law [OF assms(1), of k] get_ready [OF assms(1,2), of k]
  have "wp (b_get B k) (\<lambda>r c. (good c \<and> view c = view b \<and> (\<forall>d. r = Inr d \<longrightarrow> repo_key k \<longrightarrow> view b k = Some d))
      \<and> ready c \<and> (repo_key k \<longrightarrow> view b k \<noteq> None \<longrightarrow> is_ok r)) b"
    by (rule wp_both [OF l])
  then show ?thesis unfolding Get_Call perform.simps wp_bnd
    by (rule wp_mono) (use assms(3) Get_Call in \<open>auto simp: wp_simps split: sum.splits\<close>)
next
  case (Put_Call k d)
  have k: "repo_key k" using assms(3) Put_Call by simp
  note l = put_law [OF assms(1) k, of d] put_ready [OF assms(1,2) k, of d]
  have "wp (b_put B k d) (\<lambda>r c. (good c \<and> (case r of Inr _ \<Rightarrow> view c = (view b)(k \<mapsto> d)
      | Inl _ \<Rightarrow> view c = view b \<or> view c = (view b)(k \<mapsto> d) \<or> view c = (view b)(k := None))) \<and> ready c \<and> is_ok r) b"
    by (rule wp_both [OF l])
  then show ?thesis unfolding Put_Call perform.simps wp_bnd
    by (rule wp_mono) (auto simp: wp_simps is_ok_iff)
next
  case (Has_Call k)
  have k: "repo_key k" using assms(3) Has_Call by simp
  note l = exists_law [OF assms(1), of k] exists_ready [OF assms(1,2) k]
  have "wp (b_exists B k) (\<lambda>r c. (good c \<and> view c = view b \<and> (\<forall>t. r = Inr t \<longrightarrow> repo_key k \<longrightarrow> t = (view b k \<noteq> None)))
      \<and> ready c \<and> is_ok r) b"
    by (rule wp_both [OF l])
  then show ?thesis unfolding Has_Call perform.simps wp_bnd
  proof (rule wp_mono)
    fix r c
    assume a: "(good c \<and> view c = view b \<and> (\<forall>t. r = Inr t \<longrightarrow> repo_key k \<longrightarrow> t = (view b k \<noteq> None))) \<and> ready c \<and> is_ok r"
    then obtain t where r: "r = Inr t" by (meson is_ok_iff)
    have t: "t = (view b k \<noteq> None)" using a r k by blast
    show "case r of Inl e \<Rightarrow> good c \<and> ready c \<and> ((case Inl e of Inl _ \<Rightarrow> None | Inr a \<Rightarrow> Some a), view c) = flat_call (Has_Call k) (view b)
      | Inr a \<Rightarrow> wp (ret (Has a)) (\<lambda>r b'. good b' \<and> ready b'
          \<and> ((case r of Inl _ \<Rightarrow> None | Inr a \<Rightarrow> Some a), view b') = flat_call (Has_Call k) (view b)) c"
      unfolding r sum.case wp_ret t using a by simp
  qed
next
  case (Delete_Call k)
  have k: "store_key k" using assms(3) Delete_Call repo_store_key by simp
  note l = delete_law [OF assms(1) k] delete_ready [OF assms(1,2) k]
  have "wp (b_delete B k) (\<lambda>r c. (good c \<and> (case r of Inr _ \<Rightarrow> view c = (view b)(k := None)
      | Inl _ \<Rightarrow> view c = view b \<or> view c = (view b)(k := None))) \<and> ready c \<and> is_ok r) b"
    by (rule wp_both [OF l])
  then show ?thesis unfolding Delete_Call perform.simps wp_bnd
    by (rule wp_mono) (auto simp: wp_simps is_ok_iff)
next
  case (List_Call p)
  have p: "list_prefix p" using assms(3) List_Call by simp
  note l = list_law [OF assms(1) p] list_ready [OF assms(1,2) p]
  have "wp (b_list B p) (\<lambda>r c. (good c \<and> view c = view b \<and> (\<forall>ks. r = Inr ks \<longrightarrow> distinct ks
      \<and> (\<forall>k\<in>set ks. store_key k \<and> under p k) \<and> {k \<in> set ks. repo_key k} = {k. under p k \<and> view b k \<noteq> None}))
      \<and> ready c \<and> is_ok r) b"
    by (rule wp_both [OF l])
  then show ?thesis unfolding List_Call perform.simps wp_bnd
    by (rule wp_mono) (auto simp: wp_simps is_ok_iff)
qed

lemma answers_flat:
  "good b \<Longrightarrow> ready b \<Longrightarrow> \<forall>c\<in>set cs. engine_call c \<Longrightarrow> answers_to B cs b = flat_answers cs (view b)"
proof (induction cs arbitrary: b)
  case (Cons c cs)
  obtain r b' where run: "perform B c b = (r, b')" by fastforce
  have p: "good b' \<and> ready b' \<and> ((case r of Inl _ \<Rightarrow> None | Inr a \<Rightarrow> Some a), view b') = flat_call c (view b)"
    using wp_perform [OF Cons.prems(1,2), of c] Cons.prems(3) run by (auto simp: wp_def)
  then have "answers_to B cs b' = flat_answers cs (view b')" using Cons.IH Cons.prems(3) by simp
  then show ?case using p [THEN conjunct2, THEN conjunct2, symmetric] by (simp add: run)
qed simp

end

end
