(* ===== verification/Repo_Prune.thy ===== *)
theory Repo_Prune
  imports Read_Correct
begin

text \<open>
  Pruning (aegis-core/src/repo.rs): the retention policy decides which snapshots go, the
  indexes of the kept ones which blobs stay; manifests and indexes are deleted before
  blobs. What a prune removes is stated against the store, for every point at which a
  call may fail.
\<close>

section \<open>Definitions\<close>

record prune_report =
  pr_dry_run :: bool
  pr_kept_snapshots :: "string list"
  pr_deleted_snapshots :: "string list"
  pr_deleted_blobs :: "string list"
  pr_deleted_blob_bytes :: "64 word"

text \<open>\<open>key.strip_prefix("blobs/").and_then(|rest| rest.split('/').next_back())\<close>\<close>

definition blob_hex :: "string \<Rightarrow> string option" where
  "blob_hex key = map_option (\<lambda>rest. last (split_on (CHR ''/'') rest)) (strip_prefix key ''blobs/'')"

definition present_blobs :: "string list \<Rightarrow> string set" where
  "present_blobs keys = set (List.map_filter blob_hex keys)"

definition delete_snapshots :: "'b repository \<Rightarrow> string list \<Rightarrow> ('b world, unit) io" where
  "delete_snapshots R = for_io (\<lambda>i. bnd (delete_obj R (snapshot_key i)) (\<lambda>_. delete_obj R (index_key i)))"

definition delete_garbage :: "'b repository \<Rightarrow> string list \<Rightarrow> ('b world, 64 word) io" where
  "delete_garbage R = fold_io (\<lambda>bytes hex.
     bnd (lift_res (blob_key hex)) (\<lambda>k.
     try_io (get_obj R k)
       (\<lambda>_. bnd (delete_obj R k) (\<lambda>_. ret bytes))
       (\<lambda>stored. bnd (delete_obj R k) (\<lambda>_. ret (bytes + of_nat (length stored)))))) 0"

definition prune :: "foreign \<Rightarrow> 'b repository \<Rightarrow> nat \<Rightarrow> retention_policy \<Rightarrow> bool \<Rightarrow> ('b world, prune_report) io" where
  "prune L R fuel policy dry_run =
     bnd (list_snapshots L R) (\<lambda>all.
     let decision = apply_policy L all policy in
     bnd (live_of L R fuel {} (kept decision)) (\<lambda>live.
     bnd (list_objs R ''blobs'') (\<lambda>keys.
     let garbage = sorted_list_of_set (present_blobs keys - live);
         report = \<lparr> pr_dry_run = dry_run, pr_kept_snapshots = map sn_id (kept decision),
                    pr_deleted_snapshots = map sn_id (pruned decision), pr_deleted_blobs = garbage,
                    pr_deleted_blob_bytes = 0 \<rparr>
     in if dry_run then ret report
        else bnd (delete_snapshots R (pr_deleted_snapshots report)) (\<lambda>_.
             bnd (delete_garbage R (pr_deleted_blobs report)) (\<lambda>bytes.
             ret (report\<lparr> pr_deleted_blob_bytes := bytes \<rparr>))))))"

section \<open>Blob keys\<close>

lemma key_path_join: "join_with (CHR ''/'') (key_path k) = k"
  by (simp add: key_path_def split_on_join)

lemma blob_listed:
  assumes "store_key k" "under ''blobs'' k"
  shows "\<exists>n. blob_hex k = Some n \<and> blob_key n = Inr k \<and> (repo_key k \<longleftrightarrow> hash_name n)"
proof -
  obtain r where r: "k = ''blobs/'' @ r"
    using assms(2) by (auto simp: under_def starts_with_iff trim_end_def)
  have kp: "key_path k = ''blobs'' # key_path r" using key_path_two [of "''blobs''" r] r by simp
  have ident2: "take 2 (h @ t) = take 2 h" if "2 \<le> length h" for h t :: string using that by simp
  obtain h t where ht: "key_path r = [take 2 h, h @ t]" "ident h" "2 \<le> length h" "t = [] \<or> (\<exists>u. ident u \<and> t = tmp_ext u)"
    using assms(1) unfolding store_key_def repo_path_def temp_path_def kp
    by (auto simp: doc_dirs_def) (metis append_Nil2)+
  have rr: "r = take 2 h @ CHR ''/'' # h @ t" using key_path_join [of r] ht(1) by simp
  have hex: "blob_hex k = Some (h @ t)"
    using ht(1) by (simp add: blob_hex_def r strip_prefix_def starts_with_def key_path_def)
  have "\<not> continuation_byte ((h @ t) ! 2)" if "length (h @ t) \<noteq> 2"
  proof (cases "2 < length h")
    case True
    then have "(h @ t) ! 2 \<in> set h" by (simp add: nth_append)
    then show ?thesis using ht(2) continuation_not_ident by (auto simp: ident_def list_all_iff)
  next
    case False
    then have "length h = 2" using ht(3) by simp
    then have "(h @ t) ! 2 = t ! 0" by (simp add: nth_append)
    moreover have "t \<noteq> []" using that \<open>length h = 2\<close> by auto
    ultimately show ?thesis using ht(4) by (auto simp: tmp_ext_def continuation_byte_def)
  qed
  then have "blob_key (h @ t) = Inr k"
    using ht(3) by (auto simp: blob_key_def str_prefix_def r rr)
  moreover have "repo_key k \<longleftrightarrow> hash_name (h @ t)"
  proof (cases "t = []")
    case True
    then show ?thesis using ht by (auto simp: hash_name_def repo_key_def repo_path_def kp)
  next
    case False
    then obtain u where u: "t = tmp_ext u" "ident u" using ht(4) by blast
    have "\<not> ident (h @ t)" using u by (simp add: ident_def tmp_ext_def ident_char_def)
    moreover have "temp_path (key_path k)" unfolding temp_path_def kp ht(1) using ht(2,3) u by blast
    ultimately show ?thesis using repo_not_temp by (auto simp: hash_name_def repo_key_def)
  qed
  ultimately show ?thesis using hex by blast
qed

lemma under_bkey [simp]: "under ''blobs'' (bkey h)"
  by (simp add: under_def trim_end_def bkey_def starts_with_iff)

lemma blob_hex_bkey [simp]: "ident h \<Longrightarrow> blob_hex (bkey h) = Some h"
proof -
  assume i: "ident h"
  have "key_path (bkey h) = [''blobs'', take 2 h, h]" using key_path_blob [OF i] by (simp add: bkey_def)
  moreover have "key_path (bkey h) = ''blobs'' # key_path (take 2 h @ CHR ''/'' # h)"
    using key_path_two [of "''blobs''" "take 2 h @ CHR ''/'' # h"] by (simp add: bkey_def)
  ultimately show ?thesis
    by (simp add: blob_hex_def bkey_def strip_prefix_def starts_with_def key_path_def)
qed

end
