(* ===== verification/Prune_Correct.thy ===== *)
theory Prune_Correct
  imports Repo_Prune
begin

text \<open>
  What a prune leaves, over any store that keeps the backend contract and for every point
  at which a call may fail: only manifests and indexes of dropped snapshots and blobs that
  no kept index lists disappear, blobs only after every dropped manifest, and a prune that
  reports success leaves exactly the kept snapshots.
\<close>

section \<open>Removing keys from a store\<close>

definition doc_keys :: "string set \<Rightarrow> string set" where
  "doc_keys ids = snapshot_key ` ids \<union> index_key ` ids"

definition without :: "string set \<Rightarrow> (string \<Rightarrow> bytes option) \<Rightarrow> string \<Rightarrow> bytes option" where
  "without K v = v |` (- K)"

lemma without_empty [simp]: "without {} v = v"
  by (rule ext) (simp add: without_def)

lemma without_apply: "without K v k = (if k \<in> K then None else v k)"
  by (simp add: without_def restrict_map_def)

lemma without_upd: "(without K v)(k := None) = without (insert k K) v"
  by (rule ext) (simp add: without_apply)

lemma without_without [simp]: "without J (without K v) = without (J \<union> K) v"
  by (rule ext) (simp add: without_apply)

text \<open>\<open>quiet\<close> and \<open>good\<close> hold on, and the store has lost the keys \<open>K\<close>.\<close>

definition removed ::
  "('b \<Rightarrow> string \<Rightarrow> bytes option) \<Rightarrow> ('b \<Rightarrow> bool) \<Rightarrow> 'b world \<Rightarrow> string set \<Rightarrow> 'b world \<Rightarrow> bool" where
  "removed view good w K t \<longleftrightarrow> quiet w t \<and> good (w_store t) \<and> view (w_store t) = without K (view (w_store w))"

lemma removed_none: "same_store view good w t \<longleftrightarrow> removed view good w {} t"
  by (simp add: removed_def same_store_def)

lemma removed_good: "removed view good w K t \<Longrightarrow> good (w_store t)"
  by (simp add: removed_def)

lemma removed_trans:
  "removed view good w K t \<Longrightarrow> removed view good t J u \<Longrightarrow> removed view good w (J \<union> K) u"
  unfolding removed_def using quiet_trans by (metis without_without)

lemma removed_same: "removed view good w K t \<Longrightarrow> same_store view good t u \<Longrightarrow> removed view good w K u"
  using removed_trans [of view good w K t "{}" u] by (simp add: removed_none)

context reliable_backend
begin

lemma wp_delete_removed:
  assumes "rp_backend R = B" "good (w_store w)" "store_key k"
  shows "wp (delete_obj R k) (\<lambda>r t. (\<exists>K\<subseteq>{k}. removed view good w K t \<and> (is_ok r \<longrightarrow> K = {k}))
     \<and> (ready (w_store w) \<longrightarrow> ready (w_store t) \<and> is_ok r)) w"
proof (rule wp_mono [OF wp_delete [OF assms]], elim conjE, intro conjI)
  fix r :: "unit res" and t
  assume q: "quiet w t" "good (w_store t)" and c: "case r of Inr _ \<Rightarrow> view (w_store t) = (view (w_store w))(k := None)
      | Inl _ \<Rightarrow> view (w_store t) = view (w_store w) \<or> view (w_store t) = (view (w_store w))(k := None)"
  have one: "(view (w_store w))(k := None) = without {k} (view (w_store w))" using without_upd [of "{}"] by simp
  have "view (w_store t) = without {} (view (w_store w)) \<and> \<not> is_ok r \<or> view (w_store t) = without {k} (view (w_store w))"
    using c one by (cases r) auto
  then show "\<exists>K\<subseteq>{k}. removed view good w K t \<and> (is_ok r \<longrightarrow> K = {k})"
    using q by (auto simp: removed_def)
qed auto

text \<open>Both deletion loops remove a set of keys that grows up to the whole one.\<close>

lemma wp_delete_snapshots:
  assumes R: "rp_backend R = B" and w: "good (w_store w)" and ids: "\<forall>i\<in>set ids. ident i"
  shows "wp (delete_snapshots R ids) (\<lambda>r t. (\<exists>K\<subseteq>doc_keys (set ids). removed view good w K t
       \<and> (is_ok r \<longrightarrow> K = doc_keys (set ids)))
     \<and> (ready (w_store w) \<longrightarrow> ready (w_store t) \<and> is_ok r)) w"
proof -
  define I where "I = (\<lambda>done t. removed view good w (doc_keys (set done)) t \<and> (ready (w_store w) \<longrightarrow> ready (w_store t)))"
  show ?thesis
    unfolding delete_snapshots_def
  proof (rule wp_for_io [where Inv = I], goal_cases)
    case 1
    then show ?case using w by (simp add: I_def doc_keys_def removed_none [symmetric] same_store_refl)
  next
    case (2 "done" i rest t)
    have i: "ident i" using 2(1) ids by simp
    have sub: "K \<union> doc_keys (set done) \<subseteq> doc_keys (set ids)" if "K \<subseteq> {snapshot_key i, index_key i}" for K
      using that 2(1) by (auto simp: doc_keys_def)
    have rt: "removed view good w (doc_keys (set done)) t" and rd: "ready (w_store w) \<longrightarrow> ready (w_store t)"
      using 2(2) by (auto simp: I_def)
    let ?Q = "\<lambda>r u. case r of Inl e \<Rightarrow> (\<exists>K\<subseteq>doc_keys (set ids). removed view good w K u
          \<and> (is_ok (Inl e :: unit res) \<longrightarrow> K = doc_keys (set ids))) \<and> (ready (w_store w) \<longrightarrow> ready (w_store u) \<and> is_ok (Inl e :: unit res))
        | Inr b \<Rightarrow> I (done @ [i]) u"
    have fail: "?Q (Inl e) u" if "removed view good w K u" "K \<subseteq> doc_keys (set ids)" "\<not> ready (w_store w)" for e u K
      using that by auto
    show ?case
    proof (rule wp_bndI [OF wp_delete_removed [OF R removed_good [OF rt] repo_store_key [OF repo_key_snapshot [OF i]]]], goal_cases)
      case (1 e u)
      then obtain K where K: "K \<subseteq> {snapshot_key i, index_key i}" "removed view good t K u" by auto
      show ?case using fail [OF removed_trans [OF rt K(2)] sub [OF K(1)], of e] 1 rd by simp
    next
      case (2 _ u)
      then have "removed view good t {snapshot_key i} u" by auto
      note u = removed_trans [OF rt this]
      have u_rd: "ready (w_store w) \<longrightarrow> ready (w_store u)" using rd 2 by simp
      show ?case
      proof (rule wp_mono [OF wp_delete_removed [OF R removed_good [OF u] repo_store_key [OF repo_key_index [OF i]]]])
        fix r :: "unit res" and x
        assume a: "(\<exists>K\<subseteq>{index_key i}. removed view good u K x \<and> (is_ok r \<longrightarrow> K = {index_key i}))
          \<and> (ready (w_store u) \<longrightarrow> ready (w_store x) \<and> is_ok r)"
        then obtain K where K: "K \<subseteq> {index_key i}" "removed view good u K x" "is_ok r \<longrightarrow> K = {index_key i}" by blast
        note x = removed_trans [OF u K(2)]
        have all: "{index_key i} \<union> ({snapshot_key i} \<union> doc_keys (set done)) = doc_keys (set (done @ [i]))"
          by (auto simp: doc_keys_def)
        show "?Q r x"
        proof (cases r)
          case (Inl e)
          then show ?thesis using fail [OF x, of e] sub [of "K \<union> {snapshot_key i}"] K(1) a u_rd by (auto simp: Un_assoc)
        next
          case (Inr y)
          then show ?thesis using x K(3) all a u_rd by (simp add: I_def)
        qed
      qed
    qed
  next
    case (3 t)
    then show ?case by (auto simp: I_def)
  qed
qed

text \<open>The keys of the blobs a prune considers.\<close>

lemma wp_delete_garbage:
  assumes R: "rp_backend R = B" and w: "good (w_store w)"
    and hs: "\<forall>h\<in>set hs. \<exists>k. blob_key h = Inr k \<and> store_key k"
  shows "wp (delete_garbage R hs) (\<lambda>r t. (\<exists>K\<subseteq>{k. \<exists>h\<in>set hs. blob_key h = Inr k}. removed view good w K t
       \<and> (is_ok r \<longrightarrow> K = {k. \<exists>h\<in>set hs. blob_key h = Inr k}))
     \<and> (ready (w_store w) \<longrightarrow> ready (w_store t) \<and> is_ok r)) w"
proof -
  let ?K = "\<lambda>hs. {k. \<exists>h\<in>set hs. blob_key h = Inr k}"
  define I where "I = (\<lambda>done (n :: 64 word) t. removed view good w (?K done) t \<and> (ready (w_store w) \<longrightarrow> ready (w_store t)))"
  show ?thesis
    unfolding delete_garbage_def
  proof (rule wp_fold_io [where Inv = I], goal_cases)
    case 1
    then show ?case using w by (simp add: I_def removed_none [symmetric] same_store_refl)
  next
    case (2 "done" h rest bytes t)
    obtain k where k: "blob_key h = Inr k" "store_key k" using 2(1) hs by auto
    have all: "{k} \<union> ?K done = ?K (done @ [h])" "?K (done @ [h]) \<subseteq> ?K hs" using k 2(1) by auto
    have rt: "removed view good w (?K done) t" and rd: "ready (w_store w) \<longrightarrow> ready (w_store t)"
      using 2(2) by (auto simp: I_def)
    let ?Q = "\<lambda>r u. case r of Inl e \<Rightarrow> (\<exists>K\<subseteq>?K hs. removed view good w K u
          \<and> (is_ok (Inl e :: 64 word res) \<longrightarrow> K = ?K hs)) \<and> (ready (w_store w) \<longrightarrow> ready (w_store u) \<and> is_ok (Inl e :: 64 word res))
        | Inr b \<Rightarrow> I (done @ [h]) b u"
    have del: "wp (bnd (delete_obj R k) (\<lambda>_. ret n)) ?Q u"
      if u: "removed view good w (?K done) u" "ready (w_store w) \<longrightarrow> ready (w_store u)" for u and n :: "64 word"
    proof (rule wp_bndI [OF wp_delete_removed [OF R removed_good [OF u(1)] k(2)]], goal_cases)
      case (1 e x)
      then obtain K where K: "K \<subseteq> {k}" "removed view good u K x" by auto
      have "K \<union> ?K done \<subseteq> ?K hs" using all K(1) by blast
      then show ?case unfolding sum.case
        by (intro conjI exI [of _ "K \<union> ?K done"]) (use removed_trans [OF u(1) K(2)] 1 u(2) in simp_all)
    next
      case (2 _ x)
      then have "removed view good u {k} x" by auto
      note x = removed_trans [OF u(1) this, unfolded all(1)]
      show ?case using x 2 u(2) by (simp add: I_def wp_simps)
    qed
    show ?case
      unfolding k(1) lift_res_Inr bnd_ret
      by (rule wp_try_ioI [OF wp_get [OF R removed_good [OF rt]]])
        (rule del; use rt rd in \<open>auto intro: removed_same\<close>)+
  next
    case (3 n t)
    then show ?case by (auto simp: I_def)
  qed
qed

end

section \<open>Live blobs\<close>

definition indexed :: "foreign \<Rightarrow> 'b repository \<Rightarrow> (string \<Rightarrow> bytes option) \<Rightarrow> snapshot \<Rightarrow> string set" where
  "indexed L R v s = (case index_of L R v (sn_id s) of None \<Rightarrow> {} | Some ix \<Rightarrow> set (map br_hash (ix_blobs ix)))"

context reliable_backend
begin

lemma wp_collect_node_blob_hashes:
  assumes R: "rp_backend R = B" and w: "good (w_store w)"
  shows "wp (collect_node_blob_hashes L R fuel n acc) (\<lambda>r t. same_store view good w t
     \<and> (ready (w_store w) \<longrightarrow> ready (w_store t))) w"
  using R w
proof (induction L R fuel n acc arbitrary: w rule: collect_node_blob_hashes.induct)
  case (1 L R fuel n h acc)
  obtain out seen where a: "acc = (out, seen)" by fastforce
  have r: "same_store view good w w" using 1(3) by (simp add: same_store_refl)
  show ?case
  proof (cases "h \<in> seen \<or> fuel = 0")
    case True
    then show ?thesis using r by (auto simp: a wp_simps)
  next
    case False
    then obtain f where f: "fuel = Suc f" by (cases fuel) auto
    have step: "wp (collect_node_blob_hashes L R f inner (out @ [\<lparr> br_hash = h, br_size = None, br_kind = TreeNode \<rparr>], insert h seen))
        (\<lambda>r t. same_store view good w t \<and> (ready (w_store w) \<longrightarrow> ready (w_store t))) u"
      if u: "same_store view good w u" "ready (w_store w) \<longrightarrow> ready (w_store u)" for inner u
      by (rule wp_mono [OF 1(1) [OF a [symmetric] _ f 1(2) same_store_good [OF u(1)]]])
        (use False u in \<open>auto intro: same_store_trans\<close>)
    have ne: "h \<notin> seen" using False by simp
    show ?thesis
      unfolding a f collect_node_blob_hashes.simps prod.case nat.case if_not_P [OF ne]
      by (rule wp_bndI [OF wp_fetch_node [OF 1(2,3)]]) (auto intro!: step)
  qed
next
  case (2 L R fuel n cs acc)
  show ?case
    unfolding collect_node_blob_hashes.simps
    by (rule wp_fold_io_inv) (use 2 in \<open>auto intro!: same_store_refl intro: wp_mono [OF 2(1)] same_store_trans dest: same_store_good\<close>)
next
  case (3 L R fuel n s m t chunks acc)
  then show ?case by (simp add: wp_simps same_store_refl)
qed

lemma wp_load_index:
  assumes R: "rp_backend R = B" and w: "good (w_store w)" and i: "ident (sn_id s)"
  shows "wp (load_index L R fuel s) (\<lambda>r t. same_store view good w t
     \<and> (\<forall>ix. r = Inr ix \<longrightarrow> view (w_store w) (index_key (sn_id s)) \<noteq> None \<longrightarrow> index_of L R (view (w_store w)) (sn_id s) = Some ix)
     \<and> (ready (w_store w) \<longrightarrow> ready (w_store t) \<and> (index_of L R (view (w_store w)) (sn_id s) \<noteq> None \<longrightarrow> is_ok r))) w"
proof -
  let ?v = "view (w_store w)" and ?k = "index_key (sn_id s)"
  note k = repo_key_index [OF i]
  have some: "index_of L R ?v (sn_id s) \<noteq> None \<Longrightarrow> ?v ?k \<noteq> None"
    by (auto simp: index_of_def document_def split: option.splits)
  show ?thesis
    unfolding load_index_def Let_def
  proof (rule wp_bndI [OF wp_exists [OF R w k]], goal_cases)
    case (1 e t)
    then show ?case by auto
  next
    case (2 e t)
    then have t: "same_store view good w t" "e = (?v ?k \<noteq> None)" "ready (w_store w) \<longrightarrow> ready (w_store t)" by auto
    note vt = same_store_view [OF t(1)]
    show ?case
    proof (cases e)
      case True
      show ?thesis
        unfolding if_P [OF True]
        by (rule wp_mono [OF wp_document [OF R same_store_good [OF t(1)] k]])
          (use t in \<open>auto simp: vt index_of_def intro: same_store_trans\<close>)
    next
      case False
      then have no: "?v ?k = None" using t(2) by simp
      then have none: "index_of L R ?v (sn_id s) = None" using some by blast
      show ?thesis
        unfolding if_not_P [OF False] derived_index_def Let_def
        by (rule wp_bndI [OF wp_collect_node_blob_hashes [OF R same_store_good [OF t(1)]]])
          (use t no none in \<open>auto simp: wp_simps intro: same_store_trans\<close>)
    qed
  qed
qed

lemma wp_live_of:
  assumes R: "rp_backend R = B" and w: "good (w_store w)" and i: "\<forall>s\<in>set ss. ident (sn_id s)"
  shows "wp (live_of L R fuel {} ss) (\<lambda>r t. same_store view good w t
     \<and> (\<forall>live. r = Inr live \<longrightarrow> (\<Union>s\<in>set ss. indexed L R (view (w_store w)) s) \<subseteq> live
          \<and> ((\<forall>s\<in>set ss. view (w_store w) (index_key (sn_id s)) \<noteq> None) \<longrightarrow> live = (\<Union>s\<in>set ss. indexed L R (view (w_store w)) s)))
     \<and> (ready (w_store w) \<longrightarrow> ready (w_store t)
          \<and> ((\<forall>s\<in>set ss. index_of L R (view (w_store w)) (sn_id s) \<noteq> None) \<longrightarrow> is_ok r))) w"
proof -
  let ?v = "view (w_store w)"
  define I where "I = (\<lambda>done live t. same_store view good w t \<and> (\<Union>s\<in>set done. indexed L R ?v s) \<subseteq> live
      \<and> ((\<forall>s\<in>set done. ?v (index_key (sn_id s)) \<noteq> None) \<longrightarrow> live = (\<Union>s\<in>set done. indexed L R ?v s))
      \<and> (ready (w_store w) \<longrightarrow> ready (w_store t)))"
  have sub: "indexed L R ?v s \<subseteq> set (map br_hash (ix_blobs ix))
      \<and> (?v (index_key (sn_id s)) \<noteq> None \<longrightarrow> set (map br_hash (ix_blobs ix)) = indexed L R ?v s)"
    if "?v (index_key (sn_id s)) \<noteq> None \<longrightarrow> index_of L R ?v (sn_id s) = Some ix" for s ix
    using that by (cases "?v (index_key (sn_id s))") (auto simp: indexed_def index_of_def document_def)
  show ?thesis
    unfolding live_of_def
  proof (rule wp_fold_io [where Inv = I], goal_cases)
    case 1
    then show ?case using w by (simp add: I_def same_store_refl)
  next
    case (2 "done" s rest live t)
    have s: "ident (sn_id s)" "s \<in> set ss" using 2(1) i by auto
    have t: "same_store view good w t" "ready (w_store w) \<longrightarrow> ready (w_store t)" using 2(2) by (auto simp: I_def)
    note vt = same_store_view [OF t(1)]
    show ?case
    proof (rule wp_bndI [OF wp_load_index [OF R same_store_good [OF t(1)] s(1), unfolded vt]], goal_cases)
      case (1 e u)
      then have "same_store view good w u" using same_store_trans [OF t(1)] by blast
      then show ?case using 1 t(2) s(2) by auto
    next
      case (2 ix u)
      then have u: "same_store view good w u" "ready (w_store w) \<longrightarrow> ready (w_store u)"
        using same_store_trans [OF t(1)] t(2) by auto
      have ix: "indexed L R ?v s \<subseteq> set (map br_hash (ix_blobs ix))"
        "?v (index_key (sn_id s)) \<noteq> None \<Longrightarrow> set (map br_hash (ix_blobs ix)) = indexed L R ?v s"
        using sub [of s ix] 2 by auto
      show ?case
        using \<open>I done live t\<close> u ix unfolding I_def wp_ret sum.case by auto
    qed
  next
    case (3 live t)
    then show ?case by (simp add: I_def)
  qed
qed

end

end
