(* ===== verification/Prune_Safe.thy ===== *)
theory Prune_Safe
  imports Prune_Correct
begin

text \<open>
  The effect of a whole prune on a store: \<open>listing\<close> is what \<open>list_snapshots\<close> found,
  \<open>pruned_to\<close> what may have changed, \<open>prune_done\<close> what a report of success stands for.
\<close>

section \<open>The effect\<close>

definition listing :: "foreign \<Rightarrow> 'b repository \<Rightarrow> (string \<Rightarrow> bytes option) \<Rightarrow> snapshot list \<Rightarrow> bool" where
  "listing L R v ss \<longleftrightarrow> distinct (map sn_id ss) \<and> set (map sn_id ss) = snapshot_ids v
     \<and> (\<forall>s\<in>set ss. manifest L R v (sn_id s) = Some s)"

definition ids_of :: "snapshot list \<Rightarrow> string set" where
  "ids_of ss = set (map sn_id ss)"

definition live_blobs :: "foreign \<Rightarrow> 'b repository \<Rightarrow> (string \<Rightarrow> bytes option) \<Rightarrow> snapshot list \<Rightarrow> string set" where
  "live_blobs L R v ss = (\<Union>s\<in>set ss. indexed L R v s)"

definition pruned_to ::
  "foreign \<Rightarrow> 'b repository \<Rightarrow> snapshot list \<Rightarrow> snapshot list \<Rightarrow> (string \<Rightarrow> bytes option) \<Rightarrow> (string \<Rightarrow> bytes option) \<Rightarrow> bool" where
  "pruned_to L R stay gone v v' \<longleftrightarrow> (\<forall>k. v' k \<noteq> v k \<longrightarrow> v' k = None \<and>
     (k \<in> doc_keys (ids_of gone)
      \<or> (\<exists>h. hash_name h \<and> k = bkey h \<and> h \<notin> live_blobs L R v stay) \<and> (\<forall>i\<in>doc_keys (ids_of gone). v' i = None)))"

definition all_indexed :: "(string \<Rightarrow> bytes option) \<Rightarrow> snapshot list \<Rightarrow> bool" where
  "all_indexed v ss \<longleftrightarrow> (\<forall>s\<in>set ss. v (index_key (sn_id s)) \<noteq> None)"

definition prune_done ::
  "foreign \<Rightarrow> 'b repository \<Rightarrow> bool \<Rightarrow> snapshot list \<Rightarrow> snapshot list \<Rightarrow> (string \<Rightarrow> bytes option) \<Rightarrow> (string \<Rightarrow> bytes option)
    \<Rightarrow> prune_report \<Rightarrow> bool" where
  "prune_done L R dry_run stay gone v v' rep \<longleftrightarrow>
     pr_dry_run rep = dry_run \<and> pr_kept_snapshots rep = map sn_id stay \<and> pr_deleted_snapshots rep = map sn_id gone
   \<and> (\<not> dry_run \<longrightarrow> snapshot_ids v' = ids_of stay
        \<and> (all_indexed v stay \<longrightarrow> (\<forall>h. hash_name h \<longrightarrow> v' (bkey h) \<noteq> None \<longrightarrow> h \<in> live_blobs L R v stay)))"

lemma decision_mset: "mset (kept (apply_policy L ss p)) + mset (pruned (apply_policy L ss p)) = mset ss"
  by (simp add: apply_policy_indices Let_def nths_partition)

lemma decision_ids:
  assumes "listing L R v ss"
  shows "ids_of (kept (apply_policy L ss p)) \<union> ids_of (pruned (apply_policy L ss p)) = snapshot_ids v"
    "ids_of (kept (apply_policy L ss p)) \<inter> ids_of (pruned (apply_policy L ss p)) = {}"
    "set (kept (apply_policy L ss p)) \<subseteq> set ss"
proof -
  note m = decision_mset [of L ss p]
  show "ids_of (kept (apply_policy L ss p)) \<union> ids_of (pruned (apply_policy L ss p)) = snapshot_ids v"
    using arg_cong [OF m, of "\<lambda>M. sn_id ` set_mset M"] assms by (simp add: ids_of_def listing_def image_Un)
  show "set (kept (apply_policy L ss p)) \<subseteq> set ss"
    using arg_cong [OF m, of set_mset] by auto
  have "mset (map sn_id (kept (apply_policy L ss p)) @ map sn_id (pruned (apply_policy L ss p))) = mset (map sn_id ss)"
    using arg_cong [OF m, of "image_mset sn_id"] by simp
  then have "distinct (map sn_id (kept (apply_policy L ss p)) @ map sn_id (pruned (apply_policy L ss p)))"
    using assms unfolding listing_def by (metis mset_eq_imp_distinct_iff)
  then show "ids_of (kept (apply_policy L ss p)) \<inter> ids_of (pruned (apply_policy L ss p)) = {}"
    by (simp only: distinct_append ids_of_def)
qed

lemma listed_manifests:
  assumes "manifests_ok L R v" "distinct ids" "set ids = snapshot_ids v"
    and "mset ss = mset (map (\<lambda>i. the (manifest L R v i)) ids)"
  shows "listing L R v ss"
proof -
  have i: "sn_id (the (manifest L R v i)) = i \<and> manifest L R v i = Some (the (manifest L R v i))" if "i \<in> set ids" for i
    using assms(1,3) that by (force simp: manifests_ok_def)
  have "map (\<lambda>i. sn_id (the (manifest L R v i))) ids = ids" using i by (simp add: map_idI)
  then have m: "mset (map sn_id ss) = mset ids"
    using arg_cong [OF assms(4), of "image_mset sn_id"] by (simp add: comp_def flip: mset_map)
  then have "distinct (map sn_id ss)" using assms(2) mset_eq_imp_distinct_iff by blast
  moreover have "set (map sn_id ss) = snapshot_ids v" using mset_eq_setD [OF m] assms(3) by simp
  moreover have "set ss = (\<lambda>i. the (manifest L R v i)) ` set ids" using mset_eq_setD [OF assms(4)] by simp
  ultimately show ?thesis unfolding listing_def using i by auto
qed

section \<open>Garbage\<close>

lemma present_blob:
  assumes "\<forall>k\<in>set keys. store_key k \<and> under ''blobs'' k" "h \<in> present_blobs keys"
  shows "\<exists>k\<in>set keys. blob_key h = Inr k \<and> store_key k \<and> (repo_key k \<longleftrightarrow> hash_name h)"
proof -
  obtain k where k: "k \<in> set keys" "blob_hex k = Some h"
    using assms(2) by (auto simp: present_blobs_def map_filter_def)
  then show ?thesis using blob_listed [of k] assms(1) by auto
qed

lemma garbage_keys:
  assumes keys: "\<forall>k\<in>set keys. store_key k \<and> under ''blobs'' k"
    and repo: "{k \<in> set keys. repo_key k} = {k. under ''blobs'' k \<and> v k \<noteq> None}"
    and vk: "\<forall>k. v k \<noteq> None \<longrightarrow> repo_key k"
    and hs: "set hs = present_blobs keys - live"
  shows "\<forall>h\<in>set hs. \<exists>k. blob_key h = Inr k \<and> store_key k"
    "v k \<noteq> None \<Longrightarrow> \<exists>h\<in>set hs. blob_key h = Inr k \<Longrightarrow> \<exists>h. hash_name h \<and> k = bkey h \<and> h \<notin> live"
    "hash_name h \<Longrightarrow> v (bkey h) \<noteq> None \<Longrightarrow> h \<notin> live \<Longrightarrow> \<exists>g\<in>set hs. blob_key g = Inr (bkey h)"
proof -
  show "\<forall>h\<in>set hs. \<exists>k. blob_key h = Inr k \<and> store_key k"
    using present_blob [OF keys] hs by blast
  show "\<exists>h. hash_name h \<and> k = bkey h \<and> h \<notin> live" if vk': "v k \<noteq> None" and inh: "\<exists>h\<in>set hs. blob_key h = Inr k"
  proof -
    obtain h where h: "h \<in> present_blobs keys" "h \<notin> live" "blob_key h = Inr k" using inh hs by blast
    have "hash_name h" using present_blob [OF keys h(1)] h(3) vk vk' by auto
    then show ?thesis using h blob_key_hash by auto
  qed
  show "\<exists>g\<in>set hs. blob_key g = Inr (bkey h)" if "hash_name h" "v (bkey h) \<noteq> None" "h \<notin> live"
  proof -
    have "bkey h \<in> set keys" using repo that(2) by auto
    moreover have "blob_hex (bkey h) = Some h" using that(1) by (simp add: hash_name_def)
    ultimately have "h \<in> present_blobs keys" by (auto simp: present_blobs_def map_filter_def intro!: image_eqI [of _ _ "bkey h"])
    then show ?thesis using hs that blob_key_hash by auto
  qed
qed

lemma finite_present [simp]: "finite (present_blobs keys)"
  by (simp add: present_blobs_def)

lemma without_pruned:
  assumes "K \<subseteq> doc_keys (ids_of gone)"
  shows "pruned_to L R stay gone v (without K v)"
  using assms by (auto simp: pruned_to_def without_apply)

section \<open>The whole operation\<close>

context reliable_backend
begin

lemma wp_prune_stores:
  assumes R: "rp_backend R = B" and w: "good (w_store w)" and ls: "listing L R (view (w_store w)) ss"
    and gone: "set drops \<union> ids_of stay = snapshot_ids (view (w_store w))" "set drops \<inter> ids_of stay = {}" "set drops = ids_of gone"
    and keys: "\<forall>k\<in>set keys. store_key k \<and> under ''blobs'' k"
    and repo: "{k \<in> set keys. repo_key k} = {k. under ''blobs'' k \<and> view (w_store w) k \<noteq> None}"
    and hs: "set hs = present_blobs keys - live"
    and live: "live_blobs L R (view (w_store w)) stay \<subseteq> live"
      "all_indexed (view (w_store w)) stay \<longrightarrow> live = live_blobs L R (view (w_store w)) stay"
  shows "wp (bnd (delete_snapshots R drops) (\<lambda>_. delete_garbage R hs))
    (\<lambda>r t. quiet w t \<and> good (w_store t) \<and> pruned_to L R stay gone (view (w_store w)) (view (w_store t))
       \<and> (is_ok r \<longrightarrow> snapshot_ids (view (w_store t)) = ids_of stay
          \<and> (all_indexed (view (w_store w)) stay \<longrightarrow>
               (\<forall>h. hash_name h \<longrightarrow> view (w_store t) (bkey h) \<noteq> None \<longrightarrow> h \<in> live_blobs L R (view (w_store w)) stay)))
       \<and> (ready (w_store w) \<longrightarrow> ready (w_store t) \<and> is_ok r)) w"
proof -
  let ?v = "view (w_store w)"
  have vk: "\<forall>k. ?v k \<noteq> None \<longrightarrow> repo_key k" using view_keys [OF w] by simp
  note g = garbage_keys [OF keys repo vk hs]
  have ids: "\<forall>i\<in>set drops. ident i" using gone(1) by (auto simp: snapshot_ids_def)
  show ?thesis
  proof (rule wp_bndI [OF wp_delete_snapshots [OF R w ids]], goal_cases)
    case (1 e t)
    then obtain K where K: "K \<subseteq> doc_keys (set drops)" "removed view good w K t" by auto
    then have "pruned_to L R stay gone ?v (view (w_store t))"
      using without_pruned [of K gone L R stay ?v] gone(3) by (simp add: removed_def)
    then show ?case using K(2) 1 by (simp add: removed_def)
  next
    case (2 _ t)
    then have t: "removed view good w (doc_keys (set drops)) t" and rd: "ready (w_store w) \<longrightarrow> ready (w_store t)" by auto
    show ?case
    proof (rule wp_mono [OF wp_delete_garbage [OF R removed_good [OF t] g(1)]], elim conjE exE)
      fix r :: "64 word res" and x K
      assume K: "K \<subseteq> {k. \<exists>h\<in>set hs. blob_key h = Inr k}" "removed view good t K x"
        "is_ok r \<longrightarrow> K = {k. \<exists>h\<in>set hs. blob_key h = Inr k}"
        and rdx: "ready (w_store t) \<longrightarrow> ready (w_store x) \<and> is_ok r"
      note x = removed_trans [OF t K(2)]
      then have vx: "view (w_store x) = without (K \<union> doc_keys (ids_of gone)) ?v" by (simp add: removed_def gone(3))
      have P: "pruned_to L R stay gone ?v (view (w_store x))"
        unfolding vx pruned_to_def
      proof (intro allI impI)
        fix k
        assume c: "without (K \<union> doc_keys (ids_of gone)) ?v k \<noteq> ?v k"
        then have k: "k \<in> K \<union> doc_keys (ids_of gone)" "?v k \<noteq> None"
          by (cases "?v k"; auto simp: without_apply split: if_splits)+
        have "\<exists>h. hash_name h \<and> k = bkey h \<and> h \<notin> live_blobs L R ?v stay" if "k \<notin> doc_keys (ids_of gone)"
          using g(2) [OF k(2)] that k(1) K(1) live(1) by blast
        then show "without (K \<union> doc_keys (ids_of gone)) ?v k = None \<and> (k \<in> doc_keys (ids_of gone)
            \<or> (\<exists>h. hash_name h \<and> k = bkey h \<and> h \<notin> live_blobs L R ?v stay)
              \<and> (\<forall>i\<in>doc_keys (ids_of gone). without (K \<union> doc_keys (ids_of gone)) ?v i = None))"
          using k by (auto simp: without_apply)
      qed
      have S: "snapshot_ids (view (w_store x)) = ids_of stay"
      proof -
        have "snapshot_key i \<notin> K" if "i \<in> snapshot_ids ?v" for i
          using g(2) [of "snapshot_key i"] K(1) that by (auto simp: snapshot_ids_def)
        then have "snapshot_ids (view (w_store x)) = snapshot_ids ?v - ids_of gone"
          unfolding vx by (auto simp: snapshot_ids_def without_apply doc_keys_def)
        then show ?thesis using gone by blast
      qed
      have blobs: "h \<in> live_blobs L R ?v stay"
        if ok: "is_ok r" and ai: "all_indexed ?v stay" and h: "hash_name h" "view (w_store x) (bkey h) \<noteq> None" for h
      proof (rule ccontr)
        assume "h \<notin> live_blobs L R ?v stay"
        moreover have "?v (bkey h) \<noteq> None" using h(2) by (simp add: vx without_apply split: if_splits)
        ultimately have "bkey h \<in> K" using g(3) [OF h(1)] live(2) ai K(3) ok by simp
        then show False using h(2) by (simp add: vx without_apply)
      qed
      show "quiet w x \<and> good (w_store x) \<and> pruned_to L R stay gone ?v (view (w_store x))
         \<and> (is_ok r \<longrightarrow> snapshot_ids (view (w_store x)) = ids_of stay
            \<and> (all_indexed ?v stay \<longrightarrow> (\<forall>h. hash_name h \<longrightarrow> view (w_store x) (bkey h) \<noteq> None \<longrightarrow> h \<in> live_blobs L R ?v stay)))
         \<and> (ready (w_store w) \<longrightarrow> ready (w_store x) \<and> is_ok r)"
        using x P S blobs rd rdx by (simp add: removed_def)
    qed
  qed
qed

lemma wp_prune:
  assumes R: "rp_backend R = B" and w: "good (w_store w)" and m: "manifests_ok L R (view (w_store w))"
  shows "wp (prune L R fuel policy dry_run) (\<lambda>r t. quiet w t \<and> good (w_store t)
     \<and> (dry_run \<longrightarrow> view (w_store t) = view (w_store w))
     \<and> (view (w_store t) = view (w_store w) \<and> \<not> is_ok r
        \<or> (\<exists>ss. listing L R (view (w_store w)) ss
             \<and> pruned_to L R (kept (apply_policy L ss policy)) (pruned (apply_policy L ss policy)) (view (w_store w)) (view (w_store t))
             \<and> (\<forall>rep. r = Inr rep \<longrightarrow> prune_done L R dry_run (kept (apply_policy L ss policy)) (pruned (apply_policy L ss policy))
                    (view (w_store w)) (view (w_store t)) rep)))
     \<and> (ready (w_store w) \<longrightarrow> ready (w_store t)
          \<and> ((\<forall>i\<in>snapshot_ids (view (w_store w)). index_of L R (view (w_store w)) i \<noteq> None) \<longrightarrow> is_ok r))) w"
    (is "wp _ (\<lambda>r t. ?Q r t) w")
proof -
  let ?v = "view (w_store w)"
  let ?all = "\<forall>i\<in>snapshot_ids ?v. index_of L R ?v i \<noteq> None"
  let ?k = "\<lambda>ss. kept (apply_policy L ss policy)" and ?p = "\<lambda>ss. pruned (apply_policy L ss policy)"
  have fail: "?Q (Inl e) t" if "same_store view good w t" "ready (w_store w) \<longrightarrow> ready (w_store t) \<and> \<not> ?all" for e t
    using that by (auto simp: same_store_def)
  have fin: "?Q r t"
    if "quiet w t" "good (w_store t)" "dry_run \<longrightarrow> view (w_store t) = ?v" "listing L R ?v ss"
      "pruned_to L R (?k ss) (?p ss) ?v (view (w_store t))"
      "\<forall>rep. r = Inr rep \<longrightarrow> prune_done L R dry_run (?k ss) (?p ss) ?v (view (w_store t)) rep"
      "ready (w_store w) \<longrightarrow> ready (w_store t) \<and> is_ok r" for r t ss
    by (intro conjI disjI2 exI [of _ ss] impI) (use that in simp_all)
  have end_io: "bnd m (\<lambda>_. bnd n f) = bnd (bnd m (\<lambda>_. n)) f" for m :: "('b world, unit) io" and n :: "('b world, 64 word) io" and f :: "64 word \<Rightarrow> ('b world, prune_report) io"
    by (rule ext) (simp add: bnd_def split: prod.splits sum.splits)
  show ?thesis
    unfolding prune_def
  proof (rule wp_bndI [OF wp_list_snapshots [OF R w]], goal_cases)
    case (1 e t)
    moreover have "\<forall>i\<in>snapshot_ids ?v. manifest L R ?v i \<noteq> None" using m by (force simp: manifests_ok_def)
    ultimately show ?case by (intro fail) auto
  next
    case (2 ss t)
    then have t: "same_store view good w t" "ready (w_store w) \<longrightarrow> ready (w_store t)" by blast+
    have ls: "listing L R ?v ss" using 2 listed_manifests [OF m] by blast
    note d = decision_ids [OF ls, of policy]
    note vt = same_store_view [OF t(1)]
    have idk: "sn_id s \<in> snapshot_ids ?v" if "s \<in> set (?k ss)" for s
      using that d(1) by (auto simp: ids_of_def)
    then have ik: "\<forall>s\<in>set (?k ss). ident (sn_id s)" by (auto simp: snapshot_ids_def)
    show ?case
      unfolding Let_def
    proof (rule wp_bndI [OF wp_live_of [OF R same_store_good [OF t(1)] ik, unfolded vt]], goal_cases)
      case (1 e u)
      have "same_store view good w u" by (rule same_store_trans [OF t(1)]) (rule 1 [THEN conjunct1])
      then show ?case using 1 t(2) idk by (intro fail) auto
    next
      case (2 live u)
      then have u: "same_store view good w u" "ready (w_store w) \<longrightarrow> ready (w_store u)"
        using same_store_trans [OF t(1)] t(2) by auto
      note vu = same_store_view [OF u(1)]
      have live: "live_blobs L R ?v (?k ss) \<subseteq> live" "all_indexed ?v (?k ss) \<longrightarrow> live = live_blobs L R ?v (?k ss)"
        using 2 by (auto simp: live_blobs_def all_indexed_def)
      have pre: "list_prefix ''blobs''" by (simp add: list_prefix_def trim_end_def)
      show ?case
      proof (rule wp_bndI [OF wp_list [OF R same_store_good [OF u(1)] pre, unfolded vu]], goal_cases)
        case (1 e x)
        have "same_store view good w x" by (rule same_store_trans [OF u(1)]) (rule 1 [THEN conjunct1])
        then show ?case using 1 u(2) by (intro fail) auto
      next
        case (2 keys x)
        then have x: "same_store view good w x" "ready (w_store w) \<longrightarrow> ready (w_store x)"
          and keys: "\<forall>k\<in>set keys. store_key k \<and> under ''blobs'' k"
            "{k \<in> set keys. repo_key k} = {k. under ''blobs'' k \<and> ?v k \<noteq> None}"
          using same_store_trans [OF u(1)] u(2) by auto
        note vx = same_store_view [OF x(1)]
        define garbage where "garbage = sorted_list_of_set (present_blobs keys - live)"
        have hs: "set garbage = present_blobs keys - live" by (simp add: garbage_def)
        show ?case
        proof (cases dry_run)
          case True
          show ?thesis
            unfolding if_P [OF True] wp_ret
            by (rule fin [OF _ _ _ ls]) (use x True in \<open>simp_all add: same_store_def prune_done_def pruned_to_def\<close>)
        next
          case False
          have drops: "set (map sn_id (?p ss)) \<union> ids_of (?k ss) = snapshot_ids (view (w_store x))"
            "set (map sn_id (?p ss)) \<inter> ids_of (?k ss) = {}" "set (map sn_id (?p ss)) = ids_of (?p ss)"
            using d unfolding vx by (auto simp: ids_of_def)
          show ?thesis
            unfolding if_not_P [OF False] end_io garbage_def [symmetric] prune_report.simps
          proof (rule wp_bndI [OF wp_prune_stores [where L = L and stay = "?k ss" and gone = "?p ss" and live = live and ss = ss,
                OF R same_store_good [OF x(1)] _ drops _ _ hs, unfolded vx, OF ls keys live]], goal_cases)
            case (1 e y)
            then have "quiet w y" using x(1) quiet_trans unfolding same_store_def by metis
            then show ?case by (rule fin [where ss = ss]) (use 1 False ls x(2) in simp_all)
          next
            case (2 bytes y)
            then have "quiet w y" using x(1) quiet_trans unfolding same_store_def by metis
            then show ?case unfolding wp_ret by (rule fin [where ss = ss]) (use 2 False ls x(2) in \<open>simp_all add: prune_done_def\<close>)
          qed
        qed
      qed
    qed
  qed
qed

end

end
