(* ===== verification/Repo_Verify.thy ===== *)
theory Repo_Verify
  imports Read_Correct
begin

text \<open>
  Verification of a snapshot (aegis-core/src/repo.rs) and what its verdict means: exactly
  which conditions on the store a shallow and a deep check decide.
\<close>

section \<open>Definitions\<close>

record verify_report =
  vr_snapshot_id :: string
  vr_files :: "64 word"
  vr_chunks :: "64 word"
  vr_tree_blobs :: "64 word"
  vr_deep :: bool

definition check_node :: "foreign \<Rightarrow> string \<Rightarrow> bytes \<Rightarrow> node res" where
  "check_node L hash d =
     (if \<not> verify_node_blob L hash d
      then Inl (CorruptBlob (''tree node '' @ hash @ '' does not hash to its address''))
      else res_bind (parse_node L hash d) (\<lambda>n. res_bind (validate n) (\<lambda>_. Inr n)))"

definition verify_chunks :: "foreign \<Rightarrow> 'b repository \<Rightarrow> bool \<Rightarrow> string list \<Rightarrow> ('b world, string set) io" where
  "verify_chunks L R deep = fold_io (\<lambda>seen hash.
     if hash \<in> seen then ret seen
     else bnd (lift_res (blob_key hash)) (\<lambda>key.
          bnd (exists_obj R key) (\<lambda>e.
          if \<not> e then raise (MissingBlob hash)
          else if deep then bnd (fetch_blob L R hash) (\<lambda>_. ret (insert hash seen))
          else ret (insert hash seen)))) {}"

definition verify_trees ::
  "foreign \<Rightarrow> 'b repository \<Rightarrow> bool \<Rightarrow> string set \<Rightarrow> string list \<Rightarrow> ('b world, string set \<times> (string \<Rightarrow> node option)) io" where
  "verify_trees L R deep seen = fold_io (\<lambda>(seen, fetched) hash.
     if hash \<in> seen then ret (seen, fetched)
     else bnd (lift_res (blob_key hash)) (\<lambda>key.
          bnd (exists_obj R key) (\<lambda>e.
          if \<not> e then raise (MissingBlob hash)
          else if deep then
            bnd (fetch_blob L R hash) (\<lambda>d.
            bnd (lift_res (check_node L hash d)) (\<lambda>n. ret (insert hash seen, fetched(hash \<mapsto> n))))
          else ret (insert hash seen, fetched)))) (seen, Map.empty)"

function verify_descend ::
  "foreign \<Rightarrow> 'b repository \<Rightarrow> nat \<Rightarrow> node \<Rightarrow> (string \<Rightarrow> node option) \<Rightarrow> ('b world, string \<Rightarrow> node option) io" where
  "verify_descend L R fuel (File n s m t chunks) fetched = ret fetched"
| "verify_descend L R fuel (Ref n hash) fetched =
     (if fetched hash \<noteq> None then ret fetched
      else case fuel of
          0 \<Rightarrow> raise OutOfFuel
        | Suc f \<Rightarrow>
            bnd (lift_res (blob_key hash)) (\<lambda>key.
            try_io (get_obj R key) (\<lambda>_. raise (MissingBlob hash)) (\<lambda>stored.
            bnd (lift_res (decode_blob_hash_ctx L (rp_crypto R) hash stored)) (\<lambda>d.
            bnd (lift_res (check_node L hash d)) (\<lambda>inner.
            verify_descend L R f inner (fetched(hash \<mapsto> inner)))))))"
| "verify_descend L R fuel (Dir n cs) fetched =
     fold_io (\<lambda>fetched c. verify_descend L R fuel c fetched) fetched cs"
  by pat_completeness auto
termination
  by (relation "measures [\<lambda>(_, _, fuel, _, _). fuel, \<lambda>(_, _, _, n, _). size n]") (auto simp: list_child_size)

definition verify :: "foreign \<Rightarrow> 'b repository \<Rightarrow> nat \<Rightarrow> snapshot \<Rightarrow> bool \<Rightarrow> ('b world, verify_report) io" where
  "verify L R fuel s deep =
     bnd (lift_res (validate (sn_root s))) (\<lambda>_.
     let expected = root_hash L s in
     if \<not> verify_root_hash L (sn_root s) expected
     then raise (CorruptBlob (''snapshot '' @ sn_id s @ '' root hash mismatch (manifest says '' @ expected @ '')''))
     else case collect_all_hashes (sn_root s) ([], []) of (chunks, tree_blobs) \<Rightarrow>
       bnd (verify_chunks L R deep chunks) (\<lambda>seen.
       bnd (verify_trees L R deep seen tree_blobs) (\<lambda>(seen, fetched).
       bnd (if deep then verify_descend L R fuel (sn_root s) fetched else ret fetched) (\<lambda>_.
       ret \<lparr> vr_snapshot_id = sn_id s, vr_files = count_files s, vr_chunks = of_nat (length chunks),
             vr_tree_blobs = of_nat (length tree_blobs), vr_deep = deep \<rparr>))))"

section \<open>What a check decides\<close>

definition chunk_there :: "foreign \<Rightarrow> 'b repository \<Rightarrow> (string \<Rightarrow> bytes option) \<Rightarrow> bool \<Rightarrow> string \<Rightarrow> bool" where
  "chunk_there L R v deep h \<longleftrightarrow> v (bkey h) \<noteq> None \<and> (deep \<longrightarrow> contents L R v h \<noteq> None)"

definition node_there :: "foreign \<Rightarrow> 'b repository \<Rightarrow> (string \<Rightarrow> bytes option) \<Rightarrow> bool \<Rightarrow> string \<Rightarrow> bool" where
  "node_there L R v deep h \<longleftrightarrow> v (bkey h) \<noteq> None
     \<and> (deep \<longrightarrow> (\<exists>d n. contents L R v h = Some d \<and> blake3_hex L d = h \<and> node_parse L d = Some n \<and> validate n = Inr ()))"

definition verifiable :: "foreign \<Rightarrow> 'b repository \<Rightarrow> (string \<Rightarrow> bytes option) \<Rightarrow> snapshot \<Rightarrow> bool \<Rightarrow> bool" where
  "verifiable L R v s deep \<longleftrightarrow> validate (sn_root s) = Inr ()
     \<and> (\<forall>h\<in>set (chunks_of (sn_root s)). chunk_there L R v deep h)
     \<and> (\<forall>h\<in>set (refs_of (sn_root s)). node_there L R v deep h)"

lemma validate_refs: "validate n = Inr () \<Longrightarrow> h \<in> set (refs_of n) \<Longrightarrow> check_hash h = Inr ()"
  by (induction n) (auto simp: res_bind_Inr try_for_each_ok)

lemma root_hash_matches [simp]: "verify_root_hash L (sn_root s) (root_hash L s)"
  by (simp add: verify_root_hash_def root_hash_def)

lemma check_node_Inr: "check_node L h d = Inr n \<longleftrightarrow> blake3_hex L d = h \<and> node_parse L d = Some n \<and> validate n = Inr ()"
  by (auto simp: check_node_def verify_node_blob_def parse_node_def res_bind_Inr)

text \<open>The references of an inline tree have all been fetched before the descent starts.\<close>

lemma descend_known: "set (refs_of n) \<subseteq> dom fetched \<Longrightarrow> verify_descend L R fuel n fetched = ret fetched"
proof (induction n)
  case (Dir d cs)
  have "fold_io (\<lambda>fetched c. verify_descend L R fuel c fetched) fetched ds = ret fetched" if "set ds \<subseteq> set cs" for ds
    using that
  proof (induction ds)
    case (Cons c ds)
    then have "set (refs_of c) \<subseteq> dom fetched" using Dir.prems by auto
    then show ?case using Cons Dir.IH [of c] by simp
  qed simp
  then show ?case by simp
qed auto

context reliable_backend
begin

lemma wp_verify_chunks:
  assumes R: "rp_backend R = B" and w: "good (w_store w)" and hs: "\<forall>h\<in>set hs. hash_name h"
  shows "wp (verify_chunks L R deep hs) (\<lambda>r t. same_store view good w t
     \<and> (\<forall>seen. r = Inr seen \<longrightarrow> seen = set hs \<and> (\<forall>h\<in>set hs. chunk_there L R (view (w_store w)) deep h))
     \<and> (ready (w_store w) \<longrightarrow> ready (w_store t) \<and> ((\<forall>h\<in>set hs. chunk_there L R (view (w_store w)) deep h) \<longrightarrow> is_ok r))) w"
proof -
  let ?v = "view (w_store w)"
  define I where "I = (\<lambda>done seen t. same_store view good w t \<and> seen = set done
     \<and> (\<forall>h\<in>set done. chunk_there L R ?v deep h) \<and> (ready (w_store w) \<longrightarrow> ready (w_store t)))"
  show ?thesis
    unfolding verify_chunks_def
  proof (rule wp_fold_io [where Inv = I], goal_cases)
    case 1
    then show ?case using w by (simp add: I_def same_store_refl)
  next
    case (2 "done" h rest seen t)
    have h: "hash_name h" "h \<in> set hs" using 2(1) hs by auto
    have t: "same_store view good w t" "ready (w_store w) \<longrightarrow> ready (w_store t)" using 2(2) by (auto simp: I_def)
    note vt = same_store_view [OF t(1)]
    show ?case
    proof (cases "h \<in> seen")
      case True
      then show ?thesis using 2(2) by (auto simp: wp_simps I_def)
    next
      case False
      show ?thesis
        unfolding if_not_P [OF False] blob_key_hash [OF h(1)] lift_res_Inr bnd_ret
      proof (rule wp_bndI [OF wp_exists [OF R same_store_good [OF t(1)] repo_key_bkey [OF h(1)], unfolded vt]], goal_cases)
        case (1 e u)
        have "same_store view good w u" by (rule same_store_trans [OF t(1) 1 [THEN conjunct1]])
        then show ?case using 1 t(2) by auto
      next
        case (2 e u)
        have u: "same_store view good w u" by (rule same_store_trans [OF t(1) 2 [THEN conjunct1]])
        have e: "e = (?v (bkey h) \<noteq> None)" and rd: "ready (w_store w) \<longrightarrow> ready (w_store u)" using 2 t(2) by auto
        note vu = same_store_view [OF u]
        have next_I: "I (done @ [h]) (insert h seen) x"
          if "same_store view good w x" "ready (w_store w) \<longrightarrow> ready (w_store x)" "chunk_there L R ?v deep h" for x
          using \<open>I done seen t\<close> that by (auto simp: I_def)
        show ?case
        proof (cases "e \<and> deep")
          case False
          then show ?thesis using u rd e h(2) next_I [OF u rd] by (auto simp: wp_simps chunk_there_def)
        next
          case True
          then have ed: "\<not> (\<not> e)" deep by auto
          show ?thesis
            unfolding if_not_P [OF ed(1)] if_P [OF ed(2)]
          proof (rule wp_bndI [OF wp_fetch_blob [OF R same_store_good [OF u], unfolded vu]], goal_cases)
            case (1 er x)
            have "same_store view good w x" by (rule same_store_trans [OF u 1 [THEN conjunct1]])
            then show ?case using 1 rd h True by (auto simp: chunk_there_def intro: bexI [of _ h])
          next
            case (2 d x)
            have "same_store view good w x" by (rule same_store_trans [OF u 2 [THEN conjunct1]])
            then show ?case unfolding wp_ret using next_I [of x] 2 rd h True e by (auto simp: chunk_there_def)
          qed
        qed
      qed
    qed
  next
    case (3 seen t)
    then show ?case by (simp add: I_def)
  qed
qed

lemma wp_verify_trees:
  assumes R: "rp_backend R = B" and w: "good (w_store w)" and hs: "\<forall>h\<in>set hs. hash_name h"
    and S: "set hs \<inter> S = {}"
  shows "wp (verify_trees L R deep S hs) (\<lambda>r t. same_store view good w t
     \<and> (\<forall>seen fetched. r = Inr (seen, fetched) \<longrightarrow> (\<forall>h\<in>set hs. node_there L R (view (w_store w)) deep h)
          \<and> (deep \<longrightarrow> set hs \<subseteq> dom fetched))
     \<and> (ready (w_store w) \<longrightarrow> ready (w_store t) \<and> ((\<forall>h\<in>set hs. node_there L R (view (w_store w)) deep h) \<longrightarrow> is_ok r))) w"
proof -
  let ?v = "view (w_store w)"
  define I where "I = (\<lambda>done (seen, fetched :: string \<Rightarrow> node option) t. same_store view good w t \<and> seen = S \<union> set done
     \<and> (\<forall>h\<in>set done. node_there L R ?v deep h) \<and> (deep \<longrightarrow> set done \<subseteq> dom fetched)
     \<and> (ready (w_store w) \<longrightarrow> ready (w_store t)))"
  show ?thesis
    unfolding verify_trees_def
  proof (rule wp_fold_io [where Inv = I], goal_cases)
    case 1
    then show ?case using w by (simp add: I_def same_store_refl)
  next
    case (2 "done" h rest acc t)
    obtain seen fetched where acc: "acc = (seen, fetched)" by fastforce
    have h: "hash_name h" "h \<in> set hs" using 2(1) hs by auto
    have inv: "I done (seen, fetched) t" using 2(2) acc by simp
    then have t: "same_store view good w t" "ready (w_store w) \<longrightarrow> ready (w_store t)" by (auto simp: I_def)
    note vt = same_store_view [OF t(1)]
    show ?case
    proof (cases "h \<in> seen")
      case True
      then have "h \<in> set done" using inv h(2) S by (auto simp: I_def)
      then show ?thesis using inv True unfolding acc by (auto simp: wp_simps I_def)
    next
      case False
      show ?thesis
        unfolding acc prod.case if_not_P [OF False] blob_key_hash [OF h(1)] lift_res_Inr bnd_ret
      proof (rule wp_bndI [OF wp_exists [OF R same_store_good [OF t(1)] repo_key_bkey [OF h(1)], unfolded vt]], goal_cases)
        case (1 e u)
        have "same_store view good w u" by (rule same_store_trans [OF t(1) 1 [THEN conjunct1]])
        then show ?case using 1 t(2) by auto
      next
        case (2 e u)
        have u: "same_store view good w u" by (rule same_store_trans [OF t(1) 2 [THEN conjunct1]])
        have e: "e = (?v (bkey h) \<noteq> None)" and rd: "ready (w_store w) \<longrightarrow> ready (w_store u)" using 2 t(2) by auto
        note vu = same_store_view [OF u]
        have next_I: "I (done @ [h]) (insert h seen, fetched') x"
          if "same_store view good w x" "ready (w_store w) \<longrightarrow> ready (w_store x)" "node_there L R ?v deep h"
            "deep \<longrightarrow> (\<exists>n. fetched' = fetched(h \<mapsto> n))" for x fetched'
          using inv that by (auto simp: I_def)
        show ?case
        proof (cases "e \<and> deep")
          case False
          then show ?thesis using u rd e h(2) next_I [OF u rd] by (auto simp: wp_simps node_there_def)
        next
          case True
          then have ed: "\<not> (\<not> e)" deep by auto
          show ?thesis
            unfolding if_not_P [OF ed(1)] if_P [OF ed(2)]
          proof (rule wp_bndI [OF wp_fetch_blob [OF R same_store_good [OF u], unfolded vu]], goal_cases)
            case (1 er x)
            have "same_store view good w x" by (rule same_store_trans [OF u 1 [THEN conjunct1]])
            then show ?case using 1 rd h True by (auto simp: node_there_def intro: bexI [of _ h])
          next
            case (2 d x)
            have x: "same_store view good w x" by (rule same_store_trans [OF u 2 [THEN conjunct1]])
            have rx: "ready (w_store w) \<longrightarrow> ready (w_store x)" using 2 rd by simp
            have d: "contents L R ?v h = Some d" using 2 h(1) by simp
            have there: "node_there L R ?v deep h \<longleftrightarrow> (\<exists>n. check_node L h d = Inr n)"
              using True e d by (auto simp: node_there_def check_node_Inr)
            show ?case
            proof (cases "check_node L h d")
              case (Inl er)
              then show ?thesis using x rx there h(2) by (auto simp: wp_simps)
            next
              case (Inr n)
              have "\<exists>na. fetched(h \<mapsto> n) = fetched(h \<mapsto> na)" by blast
              then show ?thesis using next_I [OF x rx, of "fetched(h \<mapsto> n)"] there Inr by (simp add: wp_simps)
            qed
          qed
        qed
      qed
    qed
  next
    case (3 acc t)
    then show ?case by (auto simp: I_def)
  qed
qed

text \<open>
  The verdict on a reachable, ready store, for a tree whose chunk hashes are well formed and
  no blob of which is used both as data and as a node.
\<close>

lemma wp_verify:
  assumes R: "rp_backend R = B" and w: "good (w_store w)"
    and c: "\<forall>h\<in>set (chunks_of (sn_root s)). hash_name h" "set (chunks_of (sn_root s)) \<inter> set (refs_of (sn_root s)) = {}"
  shows "wp (verify L R fuel s deep) (\<lambda>r t. same_store view good w t
     \<and> (\<forall>rep. r = Inr rep \<longrightarrow> verifiable L R (view (w_store w)) s deep
          \<and> rep = \<lparr> vr_snapshot_id = sn_id s, vr_files = count_files s, vr_chunks = of_nat (length (chunks_of (sn_root s))),
                    vr_tree_blobs = of_nat (length (refs_of (sn_root s))), vr_deep = deep \<rparr>)
     \<and> (ready (w_store w) \<longrightarrow> ready (w_store t) \<and> (verifiable L R (view (w_store w)) s deep \<longrightarrow> is_ok r))) w"
proof (cases "validate (sn_root s)")
  case (Inl e)
  then show ?thesis using w by (auto simp: verify_def wp_simps same_store_refl verifiable_def)
next
  case (Inr u)
  let ?v = "view (w_store w)" and ?cs = "chunks_of (sn_root s)" and ?ts = "refs_of (sn_root s)"
  have ts: "\<forall>h\<in>set ?ts. hash_name h" using validate_refs [of "sn_root s"] Inr lookup_check_hash by simp
  have val: "verifiable L R ?v s deep \<longleftrightarrow> (\<forall>h\<in>set ?cs. chunk_there L R ?v deep h) \<and> (\<forall>h\<in>set ?ts. node_there L R ?v deep h)"
    using Inr by (simp add: verifiable_def)
  show ?thesis
    unfolding verify_def Inr lift_res_Inr bnd_ret Let_def root_hash_matches [THEN eqTrueI] not_True_eq_False if_False collect_all_eq
      append_Nil prod.case
  proof (rule wp_bndI [OF wp_verify_chunks [OF R w c(1)]], goal_cases)
    case (1 e t)
    then show ?case using val by auto
  next
    case (2 seen t)
    then have t: "same_store view good w t" "seen = set ?cs" "\<forall>h\<in>set ?cs. chunk_there L R ?v deep h"
      "ready (w_store w) \<longrightarrow> ready (w_store t)" by auto
    note vt = same_store_view [OF t(1)]
    have disj: "set ?ts \<inter> seen = {}" using c(2) t(2) by auto
    show ?case
    proof (rule wp_bndI [OF wp_verify_trees [OF R same_store_good [OF t(1)] ts disj, unfolded vt]], goal_cases)
      case (1 e x)
      have "same_store view good w x" by (rule same_store_trans [OF t(1) 1 [THEN conjunct1]])
      then show ?case using 1 t(4) val by auto
    next
      case (2 acc x)
      obtain seen' fetched where acc: "acc = (seen', fetched)" by fastforce
      have x: "same_store view good w x" by (rule same_store_trans [OF t(1) 2 [THEN conjunct1]])
      have ok: "\<forall>h\<in>set ?ts. node_there L R ?v deep h" "deep \<longrightarrow> set ?ts \<subseteq> dom fetched"
        "ready (w_store w) \<longrightarrow> ready (w_store x)" using 2 t(4) acc by auto
      have d: "(if deep then verify_descend L R fuel (sn_root s) fetched else ret fetched) = ret fetched"
        using descend_known [of "sn_root s" fetched L R fuel] ok(2) by simp
      show ?case
        unfolding acc prod.case d bnd_ret wp_ret using x ok t(3) val by auto
    qed
  qed
qed

end

end
