(* ===== verification/Key_Slots.thy ===== *)
theory Key_Slots
  imports Read_Correct
begin

text \<open>
  The key files of a repository (aegis-core/src/keys.rs): reading a passphrase, opening a
  repository with whichever slot a passphrase fits, adding, listing and revoking slots; and
  creating and opening a repository (aegis-core/src/repo.rs).
\<close>

section \<open>Access to a bare backend\<close>

definition store_get :: "'b backend \<Rightarrow> string \<Rightarrow> ('b world, bytes) io" where
  "store_get B k = on_store (b_get B k)"

definition store_put :: "'b backend \<Rightarrow> string \<Rightarrow> bytes \<Rightarrow> ('b world, unit) io" where
  "store_put B k d = on_store (b_put B k d)"

definition store_exists :: "'b backend \<Rightarrow> string \<Rightarrow> ('b world, bool) io" where
  "store_exists B k = on_store (b_exists B k)"

definition store_list :: "'b backend \<Rightarrow> string \<Rightarrow> ('b world, string list) io" where
  "store_list B p = on_store (b_list B p)"

definition store_delete :: "'b backend \<Rightarrow> string \<Rightarrow> ('b world, unit) io" where
  "store_delete B k = on_store (b_delete B k)"

section \<open>Passphrases\<close>

datatype passphrase_source = Env | Prompt bool

text \<open>\<open>rpassword::prompt_password\<close>: the next line typed at the terminal.\<close>

definition prompt_password :: "('b world, string) io" where
  "prompt_password = (\<lambda>w. case w_prompts w of
      [] \<Rightarrow> (Inl (KeyError ''reading passphrase''), w)
    | p # ps \<Rightarrow> (ok_or (KeyError ''reading passphrase'') p, w\<lparr> w_prompts := ps \<rparr>))"

definition load_passphrase :: "passphrase_source \<Rightarrow> ('b world, string) io" where
  "load_passphrase source =
     (case source of
        Env \<Rightarrow> bnd (gets (\<lambda>w. w_env w ''AEGIS_PASSPHRASE'')) (\<lambda>v. lift_res (ok_or NoPassphrase v))
      | Prompt confirm \<Rightarrow>
          bnd (gets (\<lambda>w. w_env w ''AEGIS_PASSPHRASE'')) (\<lambda>v. case v of Some pass \<Rightarrow> ret pass | None \<Rightarrow>
          bnd (gets w_tty) (\<lambda>tty. if \<not> tty then raise NoPassphrase else
          bnd prompt_password (\<lambda>first.
          if confirm then bnd prompt_password (\<lambda>second.
            if first \<noteq> second then raise (KeyError ''passphrases do not match'') else ret first)
          else ret first))))"

definition load_new_passphrase :: "('b world, string) io" where
  "load_new_passphrase =
     bnd (gets (\<lambda>w. w_env w ''AEGIS_NEW_PASSPHRASE'')) (\<lambda>v. case v of Some new \<Rightarrow> ret new | None \<Rightarrow>
     bnd (gets w_tty) (\<lambda>tty. if \<not> tty then raise NoPassphrase else load_passphrase (Prompt True)))"

section \<open>Key files\<close>

definition key_key :: "string \<Rightarrow> string" where
  "key_key slot = ''keys'' @ ''/'' @ slot @ ''.json''"

definition slot_of :: "string \<Rightarrow> string option" where
  "slot_of key = (case strip_prefix key ''keys/'' of None \<Rightarrow> None | Some rest \<Rightarrow> strip_suffix rest ''.json'')"

definition keyfile_from_json :: "foreign \<Rightarrow> bytes \<Rightarrow> key_file res" where
  "keyfile_from_json L d = ok_or (Malformed ''key file'') (keyfile_parse L d)"

fun try_slots :: "foreign \<Rightarrow> 'b backend \<Rightarrow> string \<Rightarrow> error \<Rightarrow> string list \<Rightarrow> ('b world, string \<times> repo_crypto) io" where
  "try_slots L B passphrase latest [] = raise latest"
| "try_slots L B passphrase latest (slot # slots) =
     try_io (store_get B (key_key slot)) (\<lambda>_. try_slots L B passphrase latest slots) (\<lambda>raw.
     case keyfile_from_json L raw of
       Inl _ \<Rightarrow> try_slots L B passphrase latest slots
     | Inr file \<Rightarrow> (case from_key_file L file passphrase of
           Inr crypto \<Rightarrow> ret (kf_slot file, crypto)
         | Inl e \<Rightarrow> try_slots L B passphrase e slots))"

definition slot_order :: "string \<Rightarrow> string list \<Rightarrow> string list" where
  "slot_order first keys = fold (\<lambda>key slots. case slot_of key of
       Some slot \<Rightarrow> if slot \<in> set slots then slots else slots @ [slot]
     | None \<Rightarrow> slots) keys [first]"

definition open_any_slot :: "foreign \<Rightarrow> 'b backend \<Rightarrow> repo_config \<Rightarrow> string \<Rightarrow> ('b world, string \<times> repo_crypto) io" where
  "open_any_slot L B config passphrase =
     bnd (store_list B ''keys'') (\<lambda>keys.
     try_slots L B passphrase (KeyError ''repository has no key files'') (slot_order (rc_key_slot config) keys))"

definition read_config :: "foreign \<Rightarrow> 'b backend \<Rightarrow> ('b world, repo_config) io" where
  "read_config L B =
     bnd (store_exists B ''config'') (\<lambda>e.
     if \<not> e then raise (RepoNotFound (b_describe B))
     else bnd (store_get B ''config'') (\<lambda>raw.
          lift_res (ok_or (Malformed ''repository config'') (config_parse L raw))))"

text \<open>\<open>while exists(keys/key<n>.json) { n += 1 }\<close>, with one unit of fuel per probe.\<close>

fun free_slot :: "'b backend \<Rightarrow> nat \<Rightarrow> nat \<Rightarrow> ('b world, nat) io" where
  "free_slot B 0 n = raise OutOfFuel"
| "free_slot B (Suc fuel) n =
     bnd (store_exists B (key_key (''key'' @ show_nat n))) (\<lambda>e.
     if e then free_slot B fuel (n + 1) else ret n)"

definition key_add_backend :: "foreign \<Rightarrow> 'b backend \<Rightarrow> nat \<Rightarrow> string \<Rightarrow> string \<Rightarrow> ('b world, string) io" where
  "key_add_backend L B fuel current_passphrase new_passphrase =
     bnd (read_config L B) (\<lambda>config.
     bnd (open_any_slot L B config current_passphrase) (\<lambda>(slot, crypto).
     bnd (free_slot B fuel 1) (\<lambda>n.
     let new_slot = ''key'' @ show_nat n; master = cr_key crypto in
     bnd (store_get B (key_key slot)) (\<lambda>raw.
     bnd (lift_res (keyfile_from_json L raw)) (\<lambda>file.
     bnd (new_wrapped L new_slot master new_passphrase (wk_kdf (kf_wrapped_key file))) (\<lambda>(_, new_file).
     bnd (store_put B (key_key new_slot) (keyfile_json L new_file)) (\<lambda>_.
     ret new_slot)))))))"

record key_slot =
  ks_slot :: string
  ks_created :: string
  ks_kdf :: kdf_params
  ks_active :: bool

definition key_list_backend :: "foreign \<Rightarrow> 'b backend \<Rightarrow> ('b world, key_slot list) io" where
  "key_list_backend L B =
     bnd (read_config L B) (\<lambda>config.
     bnd (store_list B ''keys'') (\<lambda>keys.
     fold_io (\<lambda>out key. case slot_of key of
         None \<Rightarrow> ret out
       | Some slot \<Rightarrow>
           bnd (store_get B key) (\<lambda>raw.
           bnd (lift_res (keyfile_from_json L raw)) (\<lambda>file.
           ret (out @ [\<lparr> ks_slot = kf_slot file, ks_created = wk_created (kf_wrapped_key file),
                         ks_kdf = wk_kdf (kf_wrapped_key file), ks_active = (slot = rc_key_slot config) \<rparr>]))))
       [] (sort keys)))"

definition key_remove_backend :: "foreign \<Rightarrow> 'b backend \<Rightarrow> string \<Rightarrow> string \<Rightarrow> ('b world, unit) io" where
  "key_remove_backend L B slot passphrase =
     bnd (read_config L B) (\<lambda>config.
     bnd (open_any_slot L B config passphrase) (\<lambda>_.
     bnd (store_list B ''keys'') (\<lambda>keys.
     let slots = List.map_filter slot_of (sort keys) in
     if slot \<notin> set slots then raise (KeyError (''no key slot '' @ slot))
     else if length slots = 1 then raise (KeyError (''refusing to remove '' @ slot))
     else bnd (store_delete B (key_key slot)) (\<lambda>_.
       if rc_key_slot config = slot
       then case find (\<lambda>s. s \<noteq> slot) slots of
            None \<Rightarrow> raise (Panicked ''a slot other than the removed one exists'')
          | Some other \<Rightarrow> store_put B ''config'' (config_json L (config\<lparr> rc_key_slot := other \<rparr>))
       else ret ()))))"

section \<open>Creating and opening a repository\<close>

definition init_with_kdf ::
  "foreign \<Rightarrow> 'b backend \<Rightarrow> chunker_config \<Rightarrow> string \<Rightarrow> kdf_params \<Rightarrow> ('b world, 'b repository) io" where
  "init_with_kdf L B chunker passphrase kdf =
     bnd (lift_res (chunker_validate chunker)) (\<lambda>_.
     bnd (store_exists B ''config'') (\<lambda>e.
     if e then raise (RepoExists (b_describe B))
     else bnd generate_master_key (\<lambda>master.
     bnd (new_wrapped L ''default'' master passphrase kdf) (\<lambda>(crypto, key_file).
     bnd (store_put B (''keys'' @ ''/default.json'') (keyfile_json L key_file)) (\<lambda>_.
     bnd new_uuid (\<lambda>u.
     let config = \<lparr> rc_version = FORMAT_VERSION, rc_id = hyphenated u, rc_chunker = chunker,
                    rc_encrypted = True, rc_key_slot = ''default'' \<rparr>
     in bnd (store_put B ''config'' (config_json L config)) (\<lambda>_.
        ret \<lparr> rp_backend = B, rp_config = config, rp_crypto = Some crypto \<rparr>)))))))"

definition init :: "foreign \<Rightarrow> 'b backend \<Rightarrow> chunker_config \<Rightarrow> string \<Rightarrow> ('b world, 'b repository) io" where
  "init L B chunker passphrase = init_with_kdf L B chunker passphrase default_kdf"

definition open_crypto :: "foreign \<Rightarrow> 'b backend \<Rightarrow> repo_config \<Rightarrow> string \<Rightarrow> ('b world, repo_crypto) io" where
  "open_crypto L B config passphrase = bnd (open_any_slot L B config passphrase) (\<lambda>(_, crypto). ret crypto)"

definition open_repo :: "foreign \<Rightarrow> 'b backend \<Rightarrow> string \<Rightarrow> ('b world, 'b repository) io" where
  "open_repo L B passphrase =
     bnd (store_exists B ''config'') (\<lambda>e.
     if \<not> e then raise (RepoNotFound (b_describe B))
     else bnd (store_get B ''config'') (\<lambda>raw.
     bnd (lift_res (ok_or (Malformed ''repository config'') (config_parse L raw))) (\<lambda>config.
     if rc_version config \<noteq> FORMAT_VERSION then raise (UnsupportedFormat (rc_version config) FORMAT_VERSION)
     else bnd (if rc_encrypted config
               then bnd (open_crypto L B config passphrase) (\<lambda>c. ret (Some c))
               else ret None) (\<lambda>crypto.
          ret \<lparr> rp_backend = B, rp_config = config, rp_crypto = crypto \<rparr>))))"

end
