(* ===== verification/Keys_Correct.thy ===== *)
theory Keys_Correct
  imports Key_Slots
begin

text \<open>
  The meaning of the key files of a store: \<open>opens L v s p\<close> is the cipher the key file of
  slot \<open>s\<close> yields for a passphrase. Opening finds such a slot, adding one leaves every
  other as it was, revoking one too, for every point at which a call may fail.
\<close>

section \<open>What a store opens with\<close>

definition key_file_at :: "foreign \<Rightarrow> (string \<Rightarrow> bytes option) \<Rightarrow> string \<Rightarrow> key_file option" where
  "key_file_at L v s = (case v (key_key s) of None \<Rightarrow> None | Some raw \<Rightarrow> keyfile_parse L raw)"

definition opens :: "foreign \<Rightarrow> (string \<Rightarrow> bytes option) \<Rightarrow> string \<Rightarrow> string \<Rightarrow> repo_crypto option" where
  "opens L v s p = (case key_file_at L v s of None \<Rightarrow> None
     | Some f \<Rightarrow> (case from_key_file L f p of Inl _ \<Rightarrow> None | Inr c \<Rightarrow> Some c))"

definition openable :: "foreign \<Rightarrow> (string \<Rightarrow> bytes option) \<Rightarrow> string \<Rightarrow> bool" where
  "openable L v p \<longleftrightarrow> (\<exists>s. ident s \<and> opens L v s p \<noteq> None)"

definition stored_config :: "foreign \<Rightarrow> (string \<Rightarrow> bytes option) \<Rightarrow> repo_config option" where
  "stored_config L v = (case v ''config'' of None \<Rightarrow> None | Some raw \<Rightarrow> config_parse L raw)"

definition config_ok :: "foreign \<Rightarrow> (string \<Rightarrow> bytes option) \<Rightarrow> bool" where
  "config_ok L v \<longleftrightarrow> (\<forall>c. stored_config L v = Some c \<longrightarrow> ident (rc_key_slot c))"

lemma key_key_inj [simp]: "key_key s = key_key t \<longleftrightarrow> s = t"
  by (simp add: key_key_def)

lemma key_key_other [simp]:
  "key_key s \<noteq> ''config''" "''config'' \<noteq> key_key s" "key_key s \<noteq> snapshot_key i" "snapshot_key i \<noteq> key_key s"
  "key_key s \<noteq> index_key i" "index_key i \<noteq> key_key s" "key_key s \<noteq> bkey h" "bkey h \<noteq> key_key s"
  by (simp_all add: key_key_def snapshot_key_def index_key_def bkey_def)

lemma repo_key_key: "ident s \<Longrightarrow> repo_key (key_key s)"
  using repo_key_doc [of "''keys''" s] by (simp add: key_key_def doc_dirs_def)

lemma slot_of_key [simp]: "slot_of (key_key s) = Some s"
  by (simp add: slot_of_def key_key_def strip_prefix_def strip_suffix_def starts_with_def ends_with_iff)

lemma slot_listed:
  assumes "store_key k" "under ''keys'' k" "slot_of k = Some s"
  shows "ident s \<and> k = key_key s"
proof -
  have "k = ''keys/'' @ s @ ''.json''"
    using assms(3) by (auto simp: slot_of_def strip_prefix_Some strip_suffix_Some split: option.splits)
  moreover from this have "ends_with k ''.json''" by (simp add: ends_with_iff)
  ultimately show ?thesis
    using doc_key_cases [of "''keys''" k] assms(1,2) by (auto simp: doc_dirs_def key_key_def)
qed

lemma under_key_key [simp]: "under ''keys'' (key_key s)"
  by (simp add: under_def trim_end_def key_key_def starts_with_iff)

definition slots_in :: "(string \<Rightarrow> bytes option) \<Rightarrow> string set" where
  "slots_in v = {s. ident s \<and> v (key_key s) \<noteq> None}"

lemma listed_slots:
  assumes keys: "\<forall>k\<in>set keys. store_key k \<and> under ''keys'' k"
    and repo: "{k \<in> set keys. repo_key k} = {k. under ''keys'' k \<and> v k \<noteq> None}"
  shows "set (List.map_filter slot_of keys) = slots_in v"
proof -
  have "\<exists>k\<in>set keys. slot_of k = Some s" if "ident s" "v (key_key s) \<noteq> None" for s
    using repo that by (intro bexI [of _ "key_key s"]) auto
  moreover have "ident s \<and> v (key_key s) \<noteq> None" if "k \<in> set keys" "slot_of k = Some s" for k s
  proof -
    have "ident s" "k = key_key s" using slot_listed keys that by blast+
    then show ?thesis using repo that(1) repo_key_key by auto
  qed
  moreover have "s \<in> set (List.map_filter slot_of keys) \<longleftrightarrow> (\<exists>k\<in>set keys. slot_of k = Some s)" for s
    by (force simp: map_filter_def)
  ultimately show ?thesis unfolding slots_in_def by blast
qed

lemma slot_order_set: "set (slot_order first keys) = insert first (set (List.map_filter slot_of keys))"
proof -
  have "set (fold (\<lambda>key slots. case slot_of key of Some slot \<Rightarrow> if slot \<in> set slots then slots else slots @ [slot] | None \<Rightarrow> slots) keys acc)
      = set acc \<union> set (List.map_filter slot_of keys)" for acc
    by (induction keys arbitrary: acc) (auto simp: map_filter_simps split: option.splits)
  then show ?thesis by (simp add: slot_order_def)
qed

lemma slot_order_first: "\<exists>rest. slot_order first keys = first # rest"
proof -
  have "\<exists>rest'. fold (\<lambda>key slots. case slot_of key of Some slot \<Rightarrow> if slot \<in> set slots then slots else slots @ [slot] | None \<Rightarrow> slots) keys (first # rest)
      = first # rest'" for rest
  proof (induction keys arbitrary: rest)
    case (Cons k keys)
    show ?case
    proof (cases "slot_of k")
      case (Some s)
      then show ?thesis using Cons [of rest] Cons [of "rest @ [s]"] by simp
    qed (use Cons in simp)
  qed simp
  then show ?thesis by (simp add: slot_order_def)
qed

lemma unwrap_length: "unwrap_master_key L s p ps = Inr k \<Longrightarrow> length k = KEY_LEN"
  by (auto simp: unwrap_master_key_def res_bind_Inr split: if_splits)

lemma from_key_file_slot: "from_key_file L f p = Inr c \<Longrightarrow> cr_key_slot c = kf_slot f \<and> length (cr_key c) = KEY_LEN"
  by (auto simp: from_key_file_def Let_def res_bind_Inr split: if_splits dest: unwrap_length)

lemma opens_length: "opens L v s p = Some c \<Longrightarrow> length (cr_key c) = KEY_LEN"
  using from_key_file_slot by (auto simp: opens_def split: option.splits sum.splits)

lemma opens_present: "opens L v s p = Some c \<Longrightarrow> v (key_key s) \<noteq> None"
  by (auto simp: opens_def key_file_at_def split: option.splits)

lemma opens_upd_other: "k \<noteq> key_key s \<Longrightarrow> opens L (v(k := x)) s p = opens L v s p"
  by (simp add: opens_def key_file_at_def)

section \<open>Rules\<close>

context atomic_backend
begin

lemma wp_store_get:
  "good (w_store w) \<Longrightarrow> wp (store_get B k) (\<lambda>r t. same_store view good w t
     \<and> (\<forall>d. r = Inr d \<longrightarrow> repo_key k \<longrightarrow> view (w_store w) k = Some d)
     \<and> (ready (w_store w) \<longrightarrow> ready (w_store t) \<and> (repo_key k \<longrightarrow> view (w_store w) k \<noteq> None \<longrightarrow> is_ok r))) w"
  using wp_get [of "\<lparr> rp_backend = B, rp_config = undefined, rp_crypto = None \<rparr>" w k] by (simp add: get_obj_def store_get_def)

lemma wp_store_exists:
  "good (w_store w) \<Longrightarrow> repo_key k \<Longrightarrow> wp (store_exists B k) (\<lambda>r t. same_store view good w t
     \<and> (\<forall>b. r = Inr b \<longrightarrow> b = (view (w_store w) k \<noteq> None))
     \<and> (ready (w_store w) \<longrightarrow> ready (w_store t) \<and> is_ok r)) w"
  using wp_exists [of "\<lparr> rp_backend = B, rp_config = undefined, rp_crypto = None \<rparr>" w k] by (simp add: exists_obj_def store_exists_def)

lemma wp_store_list:
  "good (w_store w) \<Longrightarrow> list_prefix p \<Longrightarrow> wp (store_list B p) (\<lambda>r t. same_store view good w t
     \<and> (\<forall>ks. r = Inr ks \<longrightarrow> distinct ks \<and> (\<forall>k\<in>set ks. store_key k \<and> under p k)
          \<and> {k \<in> set ks. repo_key k} = {k. under p k \<and> view (w_store w) k \<noteq> None})
     \<and> (ready (w_store w) \<longrightarrow> ready (w_store t) \<and> is_ok r)) w"
  using wp_list [of "\<lparr> rp_backend = B, rp_config = undefined, rp_crypto = None \<rparr>" w p] by (simp add: list_objs_def store_list_def)

lemma wp_store_put:
  "good (w_store w) \<Longrightarrow> repo_key k \<Longrightarrow> wp (store_put B k d) (\<lambda>r t. quiet w t \<and> good (w_store t)
     \<and> (case r of Inr _ \<Rightarrow> view (w_store t) = (view (w_store w))(k \<mapsto> d)
        | Inl _ \<Rightarrow> view (w_store t) = view (w_store w) \<or> view (w_store t) = (view (w_store w))(k \<mapsto> d))
     \<and> (ready (w_store w) \<longrightarrow> ready (w_store t) \<and> is_ok r)) w"
  using wp_put_atomic [of "\<lparr> rp_backend = B, rp_config = undefined, rp_crypto = None \<rparr>" w k d] by (simp add: put_obj_def store_put_def)

lemma wp_store_delete:
  "good (w_store w) \<Longrightarrow> store_key k \<Longrightarrow> wp (store_delete B k) (\<lambda>r t. quiet w t \<and> good (w_store t)
     \<and> (case r of Inr _ \<Rightarrow> view (w_store t) = (view (w_store w))(k := None)
        | Inl _ \<Rightarrow> view (w_store t) = view (w_store w) \<or> view (w_store t) = (view (w_store w))(k := None))
     \<and> (ready (w_store w) \<longrightarrow> ready (w_store t) \<and> is_ok r)) w"
  using wp_delete [of "\<lparr> rp_backend = B, rp_config = undefined, rp_crypto = None \<rparr>" w k] by (simp add: delete_obj_def store_delete_def)

text \<open>The first slot in order that the passphrase opens decides.\<close>

lemma wp_try_slots:
  assumes "good (w_store w)" "\<forall>s\<in>set slots. ident s"
  shows "wp (try_slots L B p latest slots) (\<lambda>r t. same_store view good w t
     \<and> (\<forall>sl c. r = Inr (sl, c) \<longrightarrow> sl = cr_key_slot c \<and> (\<exists>s\<in>set slots. opens L (view (w_store w)) s p = Some c))
     \<and> (ready (w_store w) \<longrightarrow> ready (w_store t)
          \<and> (case find (\<lambda>s. opens L (view (w_store w)) s p \<noteq> None) slots of
                None \<Rightarrow> \<not> is_ok r
              | Some s \<Rightarrow> (\<exists>c. opens L (view (w_store w)) s p = Some c \<and> r = Inr (cr_key_slot c, c))))) w"
  using assms
proof (induction slots arbitrary: w latest)
  case Nil
  then show ?case by (simp add: wp_simps same_store_refl)
next
  case (Cons s slots)
  let ?v = "view (w_store w)"
  note rk = repo_key_key [of s]
  have i: "ident s" "\<forall>s\<in>set slots. ident s" using Cons.prems(2) by auto
  let ?Q = "\<lambda>r t. same_store view good w t
     \<and> (\<forall>sl c. r = Inr (sl, c) \<longrightarrow> sl = cr_key_slot c \<and> (\<exists>s'\<in>set (s # slots). opens L ?v s' p = Some c))
     \<and> (ready (w_store w) \<longrightarrow> ready (w_store t)
          \<and> (case find (\<lambda>s. opens L ?v s p \<noteq> None) (s # slots) of
                None \<Rightarrow> \<not> is_ok r
              | Some s' \<Rightarrow> (\<exists>c. opens L ?v s' p = Some c \<and> r = Inr (cr_key_slot c, c))))"
  have skip: "wp (try_slots L B p e slots) ?Q u"
    if "same_store view good w u" "ready (w_store w) \<longrightarrow> ready (w_store u) \<and> opens L ?v s p = None" for u e
  proof (rule wp_mono [OF Cons.IH [OF same_store_good [OF that(1)] i(2), unfolded same_store_view [OF that(1)]]], elim conjE, intro conjI)
    fix r t
    assume "same_store view good u t"
    then show "same_store view good w t" by (rule same_store_trans [OF that(1)])
  qed (use that(2) in auto)
  show ?case
    unfolding try_slots.simps
  proof (rule wp_try_ioI [OF wp_store_get [OF Cons.prems(1), of "key_key s"]], goal_cases)
    case (1 e t)
    have t: "same_store view good w t" by (rule 1 [THEN conjunct1])
    have "ready (w_store w) \<longrightarrow> ready (w_store t) \<and> ?v (key_key s) = None" using 1 rk [OF i(1)] by auto
    then show ?case using skip [OF t] by (auto simp: opens_def key_file_at_def)
  next
    case (2 raw t)
    have t: "same_store view good w t" by (rule 2 [THEN conjunct1])
    have raw: "?v (key_key s) = Some raw" and rd: "ready (w_store w) \<longrightarrow> ready (w_store t)"
      using 2 rk [OF i(1)] by auto
    show ?case
    proof (cases "keyfile_parse L raw")
      case None
      then show ?thesis using skip [OF t] raw rd by (simp add: keyfile_from_json_def opens_def key_file_at_def)
    next
      case (Some f)
      show ?thesis
      proof (cases "from_key_file L f p")
        case (Inl e)
        then show ?thesis using skip [OF t, of e] raw rd Some by (simp add: keyfile_from_json_def opens_def key_file_at_def)
      next
        case (Inr c)
        have o: "opens L ?v s p = Some c" using raw Some Inr by (simp add: opens_def key_file_at_def)
        show ?thesis
          using t rd o from_key_file_slot [OF Inr] by (simp add: keyfile_from_json_def Some Inr wp_simps)
      qed
    qed
  qed
qed

lemma wp_open_any_slot:
  assumes w: "good (w_store w)" and i: "ident (rc_key_slot cfg)"
  shows "wp (open_any_slot L B cfg p) (\<lambda>r t. same_store view good w t
     \<and> (\<forall>sl c. r = Inr (sl, c) \<longrightarrow> sl = cr_key_slot c \<and> (\<exists>s. ident s \<and> opens L (view (w_store w)) s p = Some c))
     \<and> (ready (w_store w) \<longrightarrow> ready (w_store t) \<and> (is_ok r \<longleftrightarrow> openable L (view (w_store w)) p)
          \<and> (\<forall>c. opens L (view (w_store w)) (rc_key_slot cfg) p = Some c \<longrightarrow> r = Inr (cr_key_slot c, c)))) w"
proof -
  let ?v = "view (w_store w)"
  have pre: "list_prefix ''keys''" by (simp add: list_prefix_def trim_end_def)
  show ?thesis
    unfolding open_any_slot_def
  proof (rule wp_bndI [OF wp_store_list [OF w pre]], goal_cases)
    case (1 e t)
    then show ?case by auto
  next
    case (2 keys t)
    have t: "same_store view good w t" by (rule 2 [THEN conjunct1])
    have rd: "ready (w_store w) \<longrightarrow> ready (w_store t)" using 2 by simp
    note l = 2 [THEN conjunct2, THEN conjunct1, THEN spec, THEN mp, OF refl, THEN conjunct2]
    note keys = listed_slots [OF l [THEN conjunct1] l [THEN conjunct2]]
    let ?ss = "slot_order (rc_key_slot cfg) keys"
    have set: "set ?ss = insert (rc_key_slot cfg) (slots_in ?v)" using slot_order_set keys by simp
    then have ids: "\<forall>s\<in>set ?ss. ident s" using i by (auto simp: slots_in_def)
    have all: "openable L ?v p \<longleftrightarrow> (\<exists>s\<in>set ?ss. opens L ?v s p \<noteq> None)"
    proof
      assume "openable L ?v p"
      then obtain s c where s: "ident s" "opens L ?v s p = Some c" by (auto simp: openable_def)
      then have "s \<in> slots_in ?v" using opens_present by (simp add: slots_in_def)
      then show "\<exists>s\<in>set ?ss. opens L ?v s p \<noteq> None" using set s(2) by auto
    qed (use ids in \<open>auto simp: openable_def\<close>)
    obtain rest where rest: "?ss = rc_key_slot cfg # rest" using slot_order_first by blast
    show ?case
    proof (rule wp_mono [OF wp_try_slots [OF same_store_good [OF t] ids, unfolded same_store_view [OF t]]], elim conjE, intro conjI impI)
      fix r x
      assume a: "same_store view good t x"
        "\<forall>sl c. r = Inr (sl, c) \<longrightarrow> sl = cr_key_slot c \<and> (\<exists>s\<in>set ?ss. opens L ?v s p = Some c)"
        "ready (w_store t) \<longrightarrow> ready (w_store x)
          \<and> (case find (\<lambda>s. opens L ?v s p \<noteq> None) ?ss of None \<Rightarrow> \<not> is_ok r
              | Some s \<Rightarrow> (\<exists>c. opens L ?v s p = Some c \<and> r = Inr (cr_key_slot c, c)))"
      show "same_store view good w x" by (rule same_store_trans [OF t a(1)])
      show "\<forall>sl c. r = Inr (sl, c) \<longrightarrow> sl = cr_key_slot c \<and> (\<exists>s. ident s \<and> opens L ?v s p = Some c)"
        using a(2) ids by blast
      assume rw: "ready (w_store w)"
      then show "ready (w_store x)" using rd a(3) by blast
      have c: "case find (\<lambda>s. opens L ?v s p \<noteq> None) ?ss of None \<Rightarrow> \<not> is_ok r
              | Some s \<Rightarrow> (\<exists>c. opens L ?v s p = Some c \<and> r = Inr (cr_key_slot c, c))" using a(3) rd rw by blast
      show "is_ok r = openable L ?v p"
      proof (cases "find (\<lambda>s. opens L ?v s p \<noteq> None) ?ss")
        case None
        then have "\<not> (\<exists>s\<in>set ?ss. opens L ?v s p \<noteq> None)" unfolding find_None_iff by blast
        moreover have "\<not> is_ok r" using c unfolding None by simp
        ultimately show ?thesis unfolding all by blast
      next
        case (Some s)
        have "\<exists>c. opens L ?v s p = Some c \<and> r = Inr (cr_key_slot c, c)" using c unfolding Some by simp
        moreover have "s \<in> set ?ss" using Some unfolding find_Some_iff by (metis nth_mem)
        ultimately show ?thesis unfolding all by (auto intro: bexI [of _ s])
      qed
      show "\<forall>c. opens L ?v (rc_key_slot cfg) p = Some c \<longrightarrow> r = Inr (cr_key_slot c, c)"
        using c unfolding rest by auto
    qed
  qed
qed

lemma wp_read_config:
  assumes w: "good (w_store w)"
  shows "wp (read_config L B) (\<lambda>r t. same_store view good w t
     \<and> (\<forall>c. r = Inr c \<longrightarrow> stored_config L (view (w_store w)) = Some c)
     \<and> (ready (w_store w) \<longrightarrow> ready (w_store t) \<and> (is_ok r \<longleftrightarrow> stored_config L (view (w_store w)) \<noteq> None))) w"
proof -
  let ?v = "view (w_store w)"
  show ?thesis
    unfolding read_config_def
  proof (rule wp_bndI [OF wp_store_exists [OF w repo_key_config]], goal_cases)
    case (1 e t)
    then show ?case by auto
  next
    case (2 e t)
    have t: "same_store view good w t" by (rule 2 [THEN conjunct1])
    have e: "e = (?v ''config'' \<noteq> None)" and rd: "ready (w_store w) \<longrightarrow> ready (w_store t)" using 2 by auto
    note vt = same_store_view [OF t]
    show ?case
    proof (cases e)
      case False
      then show ?thesis using t e rd by (simp add: wp_simps stored_config_def)
    next
      case True
      then have nn: "\<not> \<not> e" by simp
      show ?thesis
        unfolding if_not_P [OF nn]
      proof (rule wp_bndI [OF wp_store_get [OF same_store_good [OF t], unfolded vt]], goal_cases)
        case (1 er x)
        have "same_store view good w x" by (rule same_store_trans [OF t 1 [THEN conjunct1]])
        then show ?case using 1 rd e True by auto
      next
        case (2 raw x)
        have "same_store view good w x" by (rule same_store_trans [OF t 2 [THEN conjunct1]])
        then show ?case using 2 rd by (cases "config_parse L raw") (auto simp: wp_simps stored_config_def)
      qed
    qed
  qed
qed

lemma wp_free_slot:
  assumes "good (w_store w)"
  shows "wp (free_slot B fuel n) (\<lambda>r t. same_store view good w t
     \<and> (\<forall>m. r = Inr m \<longrightarrow> n \<le> m \<and> view (w_store w) (key_key (''key'' @ show_nat m)) = None)
     \<and> (ready (w_store w) \<longrightarrow> ready (w_store t)
          \<and> ((\<exists>m. n \<le> m \<and> m < n + fuel \<and> view (w_store w) (key_key (''key'' @ show_nat m)) = None) \<longrightarrow> is_ok r))) w"
  using assms
proof (induction fuel arbitrary: n w)
  case 0
  then show ?case by (simp add: wp_simps same_store_refl)
next
  case (Suc fuel)
  let ?v = "view (w_store w)" and ?k = "\<lambda>m. key_key (''key'' @ show_nat m)"
  have i: "ident (''key'' @ show_nat m)" for m
    using dec_digits_digit by (fastforce simp: ident_def list_all_iff ident_char_def show_nat_def)
  show ?case
    unfolding free_slot.simps
  proof (rule wp_bndI [OF wp_store_exists [OF Suc.prems repo_key_key [OF i]]], goal_cases)
    case (1 e t)
    then show ?case by auto
  next
    case (2 e t)
    have t: "same_store view good w t" by (rule 2 [THEN conjunct1])
    have e: "e = (?v (?k n) \<noteq> None)" and rd: "ready (w_store w) \<longrightarrow> ready (w_store t)" using 2 by auto
    show ?case
    proof (cases e)
      case False
      then show ?thesis using t e rd by (simp add: wp_simps)
    next
      case True
      have more: "\<exists>m\<ge>n + 1. m < n + 1 + fuel \<and> ?v (?k m) = None" if m: "n \<le> m" "m < n + Suc fuel" "?v (?k m) = None" for m
      proof -
        have "m \<noteq> n" using m(3) e True by auto
        then show ?thesis using m by (intro exI [of _ m]) auto
      qed
      show ?thesis
        unfolding if_P [OF True]
        by (rule wp_mono [OF Suc.IH [OF same_store_good [OF t], unfolded same_store_view [OF t]]])
          (use t rd more in \<open>auto intro: same_store_trans\<close>)
    qed
  qed
qed

end

section \<open>Adding and revoking\<close>

definition key_added ::
  "foreign \<Rightarrow> (string \<Rightarrow> bytes option) \<Rightarrow> (string \<Rightarrow> bytes option) \<Rightarrow> string \<Rightarrow> string \<Rightarrow> string \<Rightarrow> bool" where
  "key_added L v v' old new slot \<longleftrightarrow> ident slot \<and> v (key_key slot) = None \<and> (\<exists>raw. v' = v(key_key slot \<mapsto> raw))
     \<and> (\<exists>s c. ident s \<and> opens L v s old = Some c
          \<and> opens L v' slot new = Some \<lparr> cr_key_slot = slot, cr_key = cr_key c \<rparr>)"

definition key_removed ::
  "foreign \<Rightarrow> (string \<Rightarrow> bytes option) \<Rightarrow> (string \<Rightarrow> bytes option) \<Rightarrow> string \<Rightarrow> bool \<Rightarrow> bool" where
  "key_removed L v v' slot complete \<longleftrightarrow> slot \<in> slots_in v \<and> (\<exists>other\<in>slots_in v. other \<noteq> slot)
     \<and> (\<exists>cfg. stored_config L v = Some cfg
          \<and> (v' = v(key_key slot := None) \<and> (complete \<longrightarrow> rc_key_slot cfg \<noteq> slot)
             \<or> rc_key_slot cfg = slot \<and> (\<exists>other\<in>slots_in v. other \<noteq> slot
                  \<and> v' = v(key_key slot := None, ''config'' \<mapsto> config_json L (cfg\<lparr> rc_key_slot := other \<rparr>)))))"

lemma key_added_others: "key_added L v v' old new slot \<Longrightarrow> opens L v s p = Some c \<Longrightarrow> opens L v' s p = Some c"
proof -
  assume a: "key_added L v v' old new slot" and o: "opens L v s p = Some c"
  have "s \<noteq> slot" using a opens_present [OF o] by (auto simp: key_added_def)
  then show ?thesis using a o by (auto simp: key_added_def opens_upd_other)
qed

lemma key_removed_others: "key_removed L v v' slot b \<Longrightarrow> s \<noteq> slot \<Longrightarrow> opens L v' s p = opens L v s p"
  by (auto simp: key_removed_def opens_upd_other)

text \<open>A library that never refuses to derive a key or to encrypt.\<close>

definition wrappable :: "foreign \<Rightarrow> bool" where
  "wrappable L \<longleftrightarrow> (\<forall>ps pw salt. argon2id L ps pw salt \<noteq> None) \<and> (\<forall>k n a d. aead_encrypt L k n a d \<noteq> None)"

definition slots_named :: "foreign \<Rightarrow> (string \<Rightarrow> bytes option) \<Rightarrow> bool" where
  "slots_named L v \<longleftrightarrow> (\<forall>s f. ident s \<longrightarrow> key_file_at L v s = Some f \<longrightarrow> kf_slot f = s)"

lemma wp_new_wrapped_store:
  assumes "foreign_laws L" "length m = KEY_LEN"
  shows "wp (new_wrapped L slot m pw ps) (\<lambda>r v. w_store v = w_store w
     \<and> (\<forall>c f. r = Inr (c, f) \<longrightarrow> c = \<lparr> cr_key_slot = slot, cr_key = m \<rparr> \<and> from_key_file L f pw = Inr c)
     \<and> (wrappable L \<longrightarrow> is_ok r)) w"
proof -
  have "wp (new_wrapped L slot m pw ps) (\<lambda>r v. w_store v = w_store w \<and> (wrappable L \<longrightarrow> is_ok r)) w"
    by (auto simp: new_wrapped_def wrap_master_key_def wp_simps derive_kek_def seal_def ok_or_def wrappable_def
        split: sum.splits option.splits) (metis option.distinct(1))
  moreover have "wp (new_wrapped L slot m pw ps) (\<lambda>r v. \<forall>c f. r = Inr (c, f) \<longrightarrow>
      c = \<lparr> cr_key_slot = slot, cr_key = m \<rparr> \<and> from_key_file L f pw = Inr c) w"
    by (rule wp_mono [OF wp_new_wrapped [OF assms]]) auto
  ultimately show ?thesis unfolding wp_conj by blast
qed

lemma key_file_stored:
  "foreign_laws L \<Longrightarrow> from_key_file L f p = Inr c \<Longrightarrow> opens L (v(key_key s \<mapsto> keyfile_json L f)) s p = Some c"
  by (simp add: opens_def key_file_at_def keyfile_parse_json)

text \<open>The slots a revocation chooses from.\<close>

lemma distinct_slots:
  assumes "distinct keys" "\<forall>k\<in>set keys. store_key k \<and> under ''keys'' k"
  shows "distinct (List.map_filter slot_of (sort keys))"
proof -
  have "distinct (List.map_filter slot_of ks)" if "distinct ks" "\<forall>k\<in>set ks. store_key k \<and> under ''keys'' k" for ks
    using that
  proof (induction ks)
    case (Cons k ks)
    have "s \<notin> set (List.map_filter slot_of ks)" if s: "slot_of k = Some s" for s
    proof
      assume "s \<in> set (List.map_filter slot_of ks)"
      then obtain j where j: "j \<in> set ks" "slot_of j = Some s" by (force simp: map_filter_def)
      have "j = key_key s" using slot_listed [of j s] j Cons.prems(2) by simp
      moreover have "k = key_key s" using slot_listed [of k s] s Cons.prems(2) by simp
      ultimately show False using j(1) Cons.prems(1) by simp
    qed
    then show ?case using Cons by (auto simp: map_filter_simps split: option.splits)
  qed (simp add: map_filter_simps)
  then show ?thesis using assms by simp
qed

lemma sorted_slots: "set (List.map_filter slot_of (sort keys)) = set (List.map_filter slot_of keys)"
  by (auto simp: map_filter_def)

lemma other_slot:
  assumes "distinct slots" "slot \<in> set slots" "length slots \<noteq> 1"
  shows "\<exists>other. find (\<lambda>s. s \<noteq> slot) slots = Some other \<and> other \<in> set slots \<and> other \<noteq> slot"
proof (cases "find (\<lambda>s. s \<noteq> slot) slots")
  case None
  then have "set slots \<subseteq> {slot}" by (auto simp: find_None_iff)
  then have "card (set slots) \<le> 1" using card_mono [of "{slot}"] by simp
  then have "length slots = 1" using assms(1,2) distinct_card [OF assms(1)] by (cases slots) auto
  then show ?thesis using assms(3) by simp
next
  case (Some other)
  then obtain i where "i < length slots" "slots ! i \<noteq> slot" "other = slots ! i" unfolding find_Some_iff by blast
  then have "other \<in> set slots" "other \<noteq> slot" by auto
  then show ?thesis using Some by blast
qed

context atomic_backend
begin

lemma wp_key_add:
  assumes L: "foreign_laws L" and w: "good (w_store w)" and c: "config_ok L (view (w_store w))"
  shows "wp (key_add_backend L B fuel old new) (\<lambda>r t. good (w_store t)
     \<and> (view (w_store t) = view (w_store w) \<or> (\<exists>slot. key_added L (view (w_store w)) (view (w_store t)) old new slot))
     \<and> (\<forall>slot. r = Inr slot \<longrightarrow> key_added L (view (w_store w)) (view (w_store t)) old new slot)
     \<and> (ready (w_store w) \<and> wrappable L \<and> slots_named L (view (w_store w)) \<and> openable L (view (w_store w)) old
          \<and> stored_config L (view (w_store w)) \<noteq> None
          \<and> (\<exists>m. 1 \<le> m \<and> m < 1 + fuel \<and> view (w_store w) (key_key (''key'' @ show_nat m)) = None) \<longrightarrow> is_ok r)) w"
    (is "wp _ (\<lambda>r t. ?Q r t) w")
proof -
  let ?v = "view (w_store w)"
  let ?can = "ready (w_store w) \<and> wrappable L \<and> slots_named L ?v \<and> openable L ?v old \<and> stored_config L ?v \<noteq> None
      \<and> (\<exists>m. 1 \<le> m \<and> m < 1 + fuel \<and> ?v (key_key (''key'' @ show_nat m)) = None)"
  have fail: "?Q (Inl e) t" if "same_store view good w t" "\<not> ?can" for e t
    by (intro conjI disjI1) (use that in \<open>auto simp: same_store_def\<close>)
  show ?thesis
    unfolding key_add_backend_def
  proof (rule wp_bndI [OF wp_read_config [OF w]], goal_cases)
    case (1 e t)
    show ?case by (rule fail [OF 1 [THEN conjunct1]]) (use 1 in auto)
  next
    case (2 cfg t)
    have t: "same_store view good w t" by (rule 2 [THEN conjunct1])
    have i: "ident (rc_key_slot cfg)" and rd: "ready (w_store w) \<longrightarrow> ready (w_store t)" using 2 c by (simp_all add: config_ok_def)
    show ?case
    proof (rule wp_bndI [OF wp_open_any_slot [OF same_store_good [OF t] i, unfolded same_store_view [OF t]]], goal_cases)
      case (1 e u)
      show ?case by (rule fail [OF same_store_trans [OF t 1 [THEN conjunct1]]]) (use 1 rd in auto)
    next
      case (2 sc u)
      obtain sl c where sc: "sc = (sl, c)" by fastforce
      have u: "same_store view good w u" by (rule same_store_trans [OF t 2 [THEN conjunct1]])
      have rdu: "ready (w_store w) \<longrightarrow> ready (w_store u)" using 2 rd by simp
      obtain s where s: "ident s" "opens L ?v s old = Some c" "sl = cr_key_slot c" using 2 sc by auto
      note len = opens_length [OF s(2)]
      obtain f0 where f0: "key_file_at L ?v s = Some f0" "from_key_file L f0 old = Inr c"
        using s(2) by (auto simp: opens_def split: option.splits sum.splits)
      have named: "sl = s" if "slots_named L ?v"
        using that f0 s(1,3) from_key_file_slot [OF f0(2)] by (simp add: slots_named_def)
      obtain raw0 where raw0: "?v (key_key s) = Some raw0" "keyfile_parse L raw0 = Some f0"
        using f0(1) by (auto simp: key_file_at_def split: option.splits)
      show ?case
        unfolding sc prod.case
      proof (rule wp_bndI [OF wp_free_slot [OF same_store_good [OF u], unfolded same_store_view [OF u]]], goal_cases)
        case (1 e x)
        show ?case by (rule fail [OF same_store_trans [OF u 1 [THEN conjunct1]]]) (use 1 rdu in auto)
      next
        case (2 n x)
        have x: "same_store view good w x" by (rule same_store_trans [OF u 2 [THEN conjunct1]])
        have rdx: "ready (w_store w) \<longrightarrow> ready (w_store x)" using 2 rdu by simp
        let ?slot = "''key'' @ show_nat n"
        have slot: "ident ?slot" "?v (key_key ?slot) = None"
          using 2 dec_digits_digit by (auto simp: ident_def list_all_iff ident_char_def show_nat_def dest: dec_digits_digit)
        show ?case
          unfolding Let_def
        proof (rule wp_bndI [OF wp_store_get [OF same_store_good [OF x], of "key_key sl", unfolded same_store_view [OF x]]], goal_cases)
          case (1 e y)
          show ?case by (rule fail [OF same_store_trans [OF x 1 [THEN conjunct1]]])
            (use 1 rdx named raw0 repo_key_key [OF s(1)] in auto)
        next
          case (2 raw y)
          have y: "same_store view good w y" by (rule same_store_trans [OF x 2 [THEN conjunct1]])
          have rdy: "ready (w_store w) \<longrightarrow> ready (w_store y)" using 2 rdx by simp
          have rawn: "raw = raw0" if "slots_named L ?v" using 2 named [OF that] raw0 repo_key_key [OF s(1)] by auto
          show ?case
          proof (cases "keyfile_from_json L raw")
            case (Inl e)
            then have "\<not> slots_named L ?v" using rawn raw0(2) by (auto simp: keyfile_from_json_def)
            then show ?thesis using fail [OF y] Inl by (simp add: wp_simps)
          next
            case (Inr f)
            show ?thesis
              unfolding Inr lift_res_Inr bnd_ret
            proof (rule wp_bndI [OF wp_new_wrapped_store [OF L len]], goal_cases)
              case (1 e z)
              then show ?case using y by (simp add: same_store_def)
            next
              case (2 cf z)
              obtain nc nf where cf: "cf = (nc, nf)" by fastforce
              have z: "good (w_store z)" "view (w_store z) = ?v" "ready (w_store w) \<longrightarrow> ready (w_store z)"
                using 2 y rdy by (simp_all add: same_store_def)
              have nf: "from_key_file L nf new = Inr \<lparr> cr_key_slot = ?slot, cr_key = cr_key c \<rparr>" using 2 cf by simp
              have ok: "key_added L ?v v' old new ?slot" if "v' = ?v(key_key ?slot \<mapsto> keyfile_json L nf)" for v'
                unfolding key_added_def using slot s key_file_stored [OF L nf] that by blast
              show ?case
                unfolding cf prod.case
              proof (rule wp_bndI [OF wp_store_put [OF z(1) repo_key_key [OF slot(1)], unfolded z(2)]], goal_cases)
                case (1 e a)
                then show ?case using ok z(3) by auto
              next
                case (2 _ a)
                then show ?case using ok by (auto simp: wp_simps)
              qed
            qed
          qed
        qed
      qed
    qed
  qed
qed

lemma wp_key_remove:
  assumes w: "good (w_store w)" and c: "config_ok L (view (w_store w))"
  shows "wp (key_remove_backend L B slot p) (\<lambda>r t. good (w_store t)
     \<and> (view (w_store t) = view (w_store w) \<and> \<not> is_ok r
        \<or> (\<exists>s c. ident s \<and> opens L (view (w_store w)) s p = Some c)
           \<and> key_removed L (view (w_store w)) (view (w_store t)) slot (is_ok r))
     \<and> (ready (w_store w) \<longrightarrow> ready (w_store t) \<and> (stored_config L (view (w_store w)) \<noteq> None
          \<longrightarrow> openable L (view (w_store w)) p \<longrightarrow> slot \<in> slots_in (view (w_store w))
          \<longrightarrow> (\<exists>other\<in>slots_in (view (w_store w)). other \<noteq> slot) \<longrightarrow> is_ok r))) w"
    (is "wp _ (\<lambda>r t. ?Q r t) w")
proof -
  let ?v = "view (w_store w)"
  let ?can = "stored_config L ?v \<noteq> None \<and> openable L ?v p \<and> slot \<in> slots_in ?v \<and> (\<exists>other\<in>slots_in ?v. other \<noteq> slot)"
  have fail: "?Q (Inl e) t" if "same_store view good w t" "ready (w_store w) \<longrightarrow> ready (w_store t) \<and> \<not> ?can" for e t
    by (intro conjI disjI1 impI) (use that in \<open>auto simp: same_store_def\<close>)
  show ?thesis
    unfolding key_remove_backend_def
  proof (rule wp_bndI [OF wp_read_config [OF w]], goal_cases)
    case (1 e t)
    show ?case by (rule fail [OF 1 [THEN conjunct1]]) (use 1 in simp)
  next
    case (2 cfg t)
    have t: "same_store view good w t" by (rule 2 [THEN conjunct1])
    have cfg: "stored_config L ?v = Some cfg" and rd: "ready (w_store w) \<longrightarrow> ready (w_store t)" using 2 by simp_all
    have i: "ident (rc_key_slot cfg)" using cfg c by (simp add: config_ok_def)
    show ?case
    proof (rule wp_bndI [OF wp_open_any_slot [OF same_store_good [OF t] i, unfolded same_store_view [OF t]]], goal_cases)
      case (1 e u)
      show ?case by (rule fail [OF same_store_trans [OF t 1 [THEN conjunct1]]]) (use 1 rd in simp)
    next
      case (2 sc u)
      have u: "same_store view good w u" by (rule same_store_trans [OF t 2 [THEN conjunct1]])
      have rdu: "ready (w_store w) \<longrightarrow> ready (w_store u)" using 2 rd by simp
      have op: "\<exists>s c. ident s \<and> opens L ?v s p = Some c"
        using 2 [THEN conjunct2, THEN conjunct1] by (cases sc) blast
      have pre: "list_prefix ''keys''" by (simp add: list_prefix_def trim_end_def)
      show ?case
      proof (rule wp_bndI [OF wp_store_list [OF same_store_good [OF u] pre, unfolded same_store_view [OF u]]], goal_cases)
        case (1 e x)
        show ?case by (rule fail [OF same_store_trans [OF u 1 [THEN conjunct1]]]) (use 1 rdu in simp)
      next
        case (2 keys x)
        have x: "same_store view good w x" by (rule same_store_trans [OF u 2 [THEN conjunct1]])
        have rdx: "ready (w_store w) \<longrightarrow> ready (w_store x)" using 2 [THEN conjunct2, THEN conjunct2] rdu by blast
        note l = 2 [THEN conjunct2, THEN conjunct1, THEN spec, THEN mp, OF refl]
        define slots where "slots = List.map_filter slot_of (sort keys)"
        have set: "set slots = slots_in ?v"
          unfolding slots_def sorted_slots by (rule listed_slots [OF l [THEN conjunct2, THEN conjunct1] l [THEN conjunct2, THEN conjunct2]])
        have dist: "distinct slots" unfolding slots_def by (rule distinct_slots [OF l [THEN conjunct1] l [THEN conjunct2, THEN conjunct1]])
        show ?case
        proof (cases "slot \<in> set slots \<and> length slots \<noteq> 1")
          case False
          have "\<not> ?can"
          proof
            assume can: ?can
            then have "slot \<in> set slots" using set by simp
            then have "length slots = 1" using False by simp
            then obtain y where "slots = [y]" by (auto simp: length_Suc_conv)
            then have "slots_in ?v = {y}" using set by simp
            then show False using can by auto
          qed
          then show ?thesis
            unfolding slots_def [symmetric] Let_def using fail [OF x] rdx False by (auto simp: wp_simps)
        next
          case True
          then have ns: "\<not> slot \<notin> set slots" "\<not> length slots = 1" by auto
          obtain other where o: "find (\<lambda>s. s \<noteq> slot) slots = Some other" "other \<in> slots_in ?v" "other \<noteq> slot"
            using other_slot [OF dist] True set by auto
          have sl: "slot \<in> slots_in ?v" using True set by simp
          have id: "ident slot" using sl by (simp add: slots_in_def)
          have vx: "view (w_store x) = ?v" by (rule same_store_view [OF x])
          have part: "key_removed L ?v (?v(key_key slot := None)) slot b" if "b \<longrightarrow> rc_key_slot cfg \<noteq> slot" for b
            using that sl o cfg by (auto simp: key_removed_def)
          have whole: "key_removed L ?v (?v(key_key slot := None, ''config'' \<mapsto> config_json L (cfg\<lparr> rc_key_slot := other \<rparr>))) slot b"
            if "rc_key_slot cfg = slot" for b
            using that sl o cfg by (auto simp: key_removed_def)
          show ?thesis
            unfolding slots_def [symmetric] Let_def if_not_P [OF ns(1)] if_not_P [OF ns(2)]
          proof (rule wp_bndI [OF wp_store_delete [OF same_store_good [OF x] repo_store_key [OF repo_key_key [OF id]], unfolded vx]], goal_cases)
            case (1 e y)
            then show ?case using op part [of False] rdx by auto
          next
            case (2 _ y)
            then have y: "good (w_store y)" "view (w_store y) = ?v(key_key slot := None)" "ready (w_store w) \<longrightarrow> ready (w_store y)"
              using rdx by auto
            show ?case
            proof (cases "rc_key_slot cfg = slot")
              case False
              then show ?thesis using y op part [of True] by (simp add: wp_simps)
            next
              case True
              show ?thesis
                unfolding if_P [OF True] o(1) option.case
                by (rule wp_mono [OF wp_store_put [OF y(1) repo_key_config, unfolded y(2)]])
                  (use y(3) op part [of False] whole [OF True] in \<open>auto split: sum.splits\<close>)
            qed
          qed
        qed
      qed
    qed
  qed
qed

end

end
