(* ===== verification/Open_Correct.thy ===== *)
theory Open_Correct
  imports Keys_Correct
begin

text \<open>
  Creating and opening a repository over any store that keeps the backend contract: a
  repository is never created over an existing one, its key file is written before its
  configuration, and opening succeeds exactly with a passphrase one of the slots fits.
\<close>

definition created ::
  "foreign \<Rightarrow> 'b backend \<Rightarrow> chunker_config \<Rightarrow> string \<Rightarrow> (string \<Rightarrow> bytes option) \<Rightarrow> (string \<Rightarrow> bytes option)
    \<Rightarrow> 'b repository \<Rightarrow> bool" where
  "created L B chunker p v v' R \<longleftrightarrow> rp_backend R = B
     \<and> (\<exists>raw. v' = v(key_key ''default'' \<mapsto> raw, ''config'' \<mapsto> config_json L (rp_config R)))
     \<and> rc_version (rp_config R) = FORMAT_VERSION \<and> rc_chunker (rp_config R) = chunker
     \<and> rc_encrypted (rp_config R) \<and> rc_key_slot (rp_config R) = ''default''
     \<and> (\<exists>c. rp_crypto R = Some c \<and> cr_key_slot c = ''default'' \<and> opens L v' ''default'' p = Some c)"

definition created_part :: "(string \<Rightarrow> bytes option) \<Rightarrow> (string \<Rightarrow> bytes option) \<Rightarrow> bool" where
  "created_part v v' \<longleftrightarrow> v' = v \<or> v ''config'' = None \<and> (\<exists>raw. v' = v(key_key ''default'' \<mapsto> raw))"

lemma ident_default [simp]: "ident ''default''"
  by (simp add: ident_def ident_char_def)

lemma stored_config_upd [simp]: "foreign_laws L \<Longrightarrow> stored_config L (v(''config'' \<mapsto> config_json L c)) = Some c"
  by (simp add: stored_config_def config_parse_json)

context atomic_backend
begin

lemma wp_init:
  assumes L: "foreign_laws L" and w: "good (w_store w)"
  shows "wp (init_with_kdf L B chunker p kdf) (\<lambda>r t. good (w_store t)
     \<and> (created_part (view (w_store w)) (view (w_store t))
        \<or> view (w_store w) ''config'' = None \<and> (\<exists>R. created L B chunker p (view (w_store w)) (view (w_store t)) R))
     \<and> (\<forall>R. r = Inr R \<longrightarrow> view (w_store w) ''config'' = None \<and> chunker_validate chunker = Inr ()
          \<and> created L B chunker p (view (w_store w)) (view (w_store t)) R)
     \<and> (ready (w_store w) \<longrightarrow> ready (w_store t)
          \<and> (wrappable L \<and> view (w_store w) ''config'' = None \<and> chunker_validate chunker = Inr () \<longrightarrow> is_ok r))) w"
    (is "wp _ (\<lambda>r t. ?Q r t) w")
proof (cases "chunker_validate chunker")
  case (Inl e)
  then show ?thesis using w by (simp add: init_with_kdf_def wp_simps created_part_def)
next
  case (Inr u)
  let ?v = "view (w_store w)"
  show ?thesis
    unfolding init_with_kdf_def Inr lift_res_Inr bnd_ret
  proof (rule wp_bndI [OF wp_store_exists [OF w repo_key_config]], goal_cases)
    case (1 e t)
    then show ?case by (auto simp: same_store_def created_part_def)
  next
    case (2 e t)
    have e: "e = (?v ''config'' \<noteq> None)" using 2 by simp
    have t: "good (w_store t)" "view (w_store t) = ?v" "ready (w_store w) \<longrightarrow> ready (w_store t)"
      using 2 by (auto simp: same_store_def)
    show ?case
    proof (cases e)
      case True
      then show ?thesis using t e by (auto simp: wp_simps created_part_def)
    next
      case False
      then have none: "?v ''config'' = None" using e by simp
      have gen: "wp generate_master_key (\<lambda>r x. is_ok r \<and> w_store x = w_store t \<and> (\<forall>m. r = Inr m \<longrightarrow> length m = KEY_LEN)) t"
        by (simp add: generate_master_key_def wp_simps)
      show ?thesis
        unfolding if_not_P [OF False]
      proof (rule wp_bndI [OF gen], goal_cases)
        case (1 er x)
        then show ?case using t by (simp add: created_part_def)
      next
        case (2 m x)
        then have m: "length m = KEY_LEN" and x: "w_store x = w_store t" by auto
        show ?case
        proof (rule wp_bndI [OF wp_new_wrapped_store [OF L m]], goal_cases)
          case (1 er y)
          then show ?case using t x by (simp add: created_part_def)
        next
          case (2 cf y)
          obtain c f where cf: "cf = (c, f)" by fastforce
          have y: "good (w_store y)" "view (w_store y) = ?v" "ready (w_store w) \<longrightarrow> ready (w_store y)"
            using 2 x t by simp_all
          have f: "from_key_file L f p = Inr c" "cr_key_slot c = ''default''" using 2 cf by auto
          let ?k = "key_key ''default''"
          have kk: "''keys'' @ ''/default.json'' = ?k" by (simp add: key_key_def)
          show ?case
            unfolding cf prod.case kk
          proof (rule wp_bndI [OF wp_store_put [OF y(1) repo_key_key [OF ident_default], unfolded y(2)]], goal_cases)
            case (1 er z)
            then show ?case using y(3) none by (auto simp: created_part_def)
          next
            case (2 _ z)
            then have z: "good (w_store z)" "view (w_store z) = ?v(?k \<mapsto> keyfile_json L f)" "ready (w_store w) \<longrightarrow> ready (w_store z)"
              using y(3) by auto
            have nu: "wp new_uuid (\<lambda>r a. is_ok r \<and> w_store a = w_store z) z" by (simp add: wp_simps)
            show ?case
            proof (rule wp_bndI [OF nu], goal_cases)
              case (1 er a)
              then show ?case by simp
            next
              case (2 u a)
              let ?cfg = "\<lparr> rc_version = FORMAT_VERSION, rc_id = hyphenated u, rc_chunker = chunker,
                    rc_encrypted = True, rc_key_slot = ''default'' \<rparr>"
              let ?R = "\<lparr> rp_backend = B, rp_config = ?cfg, rp_crypto = Some c \<rparr>"
              let ?v' = "?v(?k \<mapsto> keyfile_json L f, ''config'' \<mapsto> config_json L ?cfg)"
              have a: "good (w_store a)" "view (w_store a) = ?v(?k \<mapsto> keyfile_json L f)" "ready (w_store w) \<longrightarrow> ready (w_store a)"
                using 2 z by simp_all
              have full: "created L B chunker p ?v ?v' ?R"
                using key_file_stored [OF L f(1), of ?v] f(2) by (auto simp: created_def opens_upd_other)
              show ?case
                unfolding Let_def
              proof (rule wp_bndI [OF wp_store_put [OF a(1) repo_key_config, unfolded a(2)]], goal_cases)
                case (1 er b)
                then have b: "good (w_store b)" "\<not> ready (w_store w)"
                  and c: "view (w_store b) = ?v(?k \<mapsto> keyfile_json L f) \<or> view (w_store b) = ?v'" using a(3) by auto
                have "created_part ?v (view (w_store b)) \<or> ?v ''config'' = None \<and> (\<exists>R. created L B chunker p ?v (view (w_store b)) R)"
                  using c full none unfolding created_part_def by metis
                then show ?case using b by simp
              next
                case (2 _ b)
                then have b: "good (w_store b)" "view (w_store b) = ?v'" "ready (w_store w) \<longrightarrow> ready (w_store b)"
                  using a(3) by auto
                show ?case unfolding wp_ret using b full none by auto
              qed
            qed
          qed
        qed
      qed
    qed
  qed
qed

lemma wp_open_repo:
  assumes w: "good (w_store w)" and c: "config_ok L (view (w_store w))"
  shows "wp (open_repo L B p) (\<lambda>r t. same_store view good w t
     \<and> (\<forall>R. r = Inr R \<longrightarrow> rp_backend R = B \<and> stored_config L (view (w_store w)) = Some (rp_config R)
          \<and> rc_version (rp_config R) = FORMAT_VERSION
          \<and> (if rc_encrypted (rp_config R)
             then \<exists>s c. ident s \<and> opens L (view (w_store w)) s p = Some c \<and> rp_crypto R = Some c
             else rp_crypto R = None))
     \<and> (ready (w_store w) \<longrightarrow> ready (w_store t)
          \<and> (\<forall>cfg. stored_config L (view (w_store w)) = Some cfg \<longrightarrow> rc_version cfg = FORMAT_VERSION \<longrightarrow>
               (is_ok r \<longleftrightarrow> (rc_encrypted cfg \<longrightarrow> openable L (view (w_store w)) p))
             \<and> (\<forall>c. rc_encrypted cfg \<longrightarrow> opens L (view (w_store w)) (rc_key_slot cfg) p = Some c \<longrightarrow>
                  r = Inr \<lparr> rp_backend = B, rp_config = cfg, rp_crypto = Some c \<rparr>)))) w"
    (is "wp _ (\<lambda>r t. ?Q r t) w")
proof -
  let ?v = "view (w_store w)"
  have fail: "?Q (Inl e) t" if "same_store view good w t"
      "ready (w_store w) \<longrightarrow> ready (w_store t) \<and> (\<forall>cfg. stored_config L ?v = Some cfg \<longrightarrow> rc_version cfg = FORMAT_VERSION \<longrightarrow>
          rc_encrypted cfg \<and> \<not> openable L ?v p)" for e t
  proof -
    have no: "opens L ?v (rc_key_slot cfg) p = None" if "stored_config L ?v = Some cfg" "\<not> openable L ?v p" for cfg
      using that c by (auto simp: openable_def config_ok_def)
    show ?thesis using that no by auto
  qed
  have cfg_none: "stored_config L ?v = None" if "?v ''config'' = None" using that by (simp add: stored_config_def)
  show ?thesis
    unfolding open_repo_def
  proof (rule wp_bndI [OF wp_store_exists [OF w repo_key_config]], goal_cases)
    case (1 e t)
    then show ?case by (intro fail) auto
  next
    case (2 e t)
    have t: "same_store view good w t" by (rule 2 [THEN conjunct1])
    have e: "e = (?v ''config'' \<noteq> None)" and rd: "ready (w_store w) \<longrightarrow> ready (w_store t)" using 2 by auto
    show ?case
    proof (cases e)
      case False
      then have "stored_config L ?v = None" using e cfg_none by simp
      then show ?thesis using False fail [OF t] rd by (simp add: wp_simps)
    next
      case True
      then have nn: "\<not> \<not> e" by simp
      show ?thesis
        unfolding if_not_P [OF nn]
      proof (rule wp_bndI [OF wp_store_get [OF same_store_good [OF t], of "''config''", unfolded same_store_view [OF t]]], goal_cases)
        case (1 er u)
        show ?case by (rule fail [OF same_store_trans [OF t 1 [THEN conjunct1]]]) (use 1 rd e True in auto)
      next
        case (2 raw u)
        have u: "same_store view good w u" by (rule same_store_trans [OF t 2 [THEN conjunct1]])
        have raw: "?v ''config'' = Some raw" and rdu: "ready (w_store w) \<longrightarrow> ready (w_store u)" using 2 rd by auto
        show ?case
        proof (cases "config_parse L raw")
          case None
          then have "stored_config L ?v = None" using raw by (simp add: stored_config_def)
          then show ?thesis using None fail [OF u] rdu by (simp add: wp_simps)
        next
          case (Some cfg)
          then have cfg: "stored_config L ?v = Some cfg" using raw by (simp add: stored_config_def)
          have i: "ident (rc_key_slot cfg)" using c cfg by (simp add: config_ok_def)
          have open_then: "bnd (bnd (open_crypto L B cfg p) (\<lambda>c. ret (Some c))) f
              = bnd (open_any_slot L B cfg p) (\<lambda>(_, c). f (Some c))" for f :: "repo_crypto option \<Rightarrow> ('b world, 'b repository) io"
            by (rule ext) (auto simp: open_crypto_def bnd_def ret_def split: prod.splits sum.splits)
          show ?thesis
          proof (cases "rc_version cfg = FORMAT_VERSION \<and> rc_encrypted cfg")
            case False
            then show ?thesis using Some u rdu cfg by (auto simp: wp_simps)
          next
            case True
            then have v: "\<not> rc_version cfg \<noteq> FORMAT_VERSION" "rc_encrypted cfg" by auto
            show ?thesis
              unfolding Some ok_or_simps lift_res_Inr bnd_ret if_not_P [OF v(1)] if_P [OF v(2)] open_then
            proof (rule wp_bndI [OF wp_open_any_slot [OF same_store_good [OF u] i, unfolded same_store_view [OF u]]], goal_cases)
              case (1 er x)
              show ?case by (rule fail [OF same_store_trans [OF u 1 [THEN conjunct1]]]) (use 1 rdu cfg v(2) in auto)
            next
              case (2 sc x)
              obtain sl d where sc: "sc = (sl, d)" by fastforce
              have x: "same_store view good w x" by (rule same_store_trans [OF u 2 [THEN conjunct1]])
              have sl: "\<exists>s. ident s \<and> opens L ?v s p = Some d" using 2 sc by auto
              have rdx: "ready (w_store w) \<longrightarrow> ready (w_store x) \<and> openable L ?v p
                  \<and> (\<forall>c. opens L ?v (rc_key_slot cfg) p = Some c \<longrightarrow> d = c)" using 2 rdu sc by auto
              show ?case
                unfolding sc prod.case wp_ret using x cfg v sl rdx by auto
            qed
          qed
        qed
      qed
    qed
  qed
qed

end

end
