(* ===== verification/Local_Backend.thy ===== *)
theory Local_Backend
  imports Backend
begin

text \<open>
  \<open>LocalBackend\<close> of aegis-core/src/backend.rs over the file-system model: keys become
  paths below the root, a write goes to a temporary sibling that is renamed, a listing
  walks the directories with an explicit stack. It is an interpretation of the storage
  contract for every schedule of failing system calls, and of the reliable one when no
  call fails.
\<close>

section \<open>The backend\<close>

record local_state =
  ls_os :: os_state
  ls_uuids :: "nat \<Rightarrow> string"
  ls_pos :: nat

definition sys :: "(os_state, 'a) io \<Rightarrow> (local_state, 'a) io" where
  "sys m = (\<lambda>s. case m (ls_os s) of (r, t) \<Rightarrow> (r, s\<lparr> ls_os := t \<rparr>))"

definition tmp_uuid :: "(local_state, string) io" where
  "tmp_uuid = (\<lambda>s. (Inr (hyphenated (ls_uuids s (ls_pos s))), s\<lparr> ls_pos := Suc (ls_pos s) \<rparr>))"

definition resolve :: "path \<Rightarrow> string \<Rightarrow> path" where
  "resolve root key = foldl join_seg root (split_on (CHR ''/'') key)"

text \<open>\<open>Path::with_extension\<close>: replace what follows the last dot of the file name.\<close>

definition file_stem :: "string \<Rightarrow> string" where
  "file_stem n = (if CHR ''.'' \<notin> set n then n
     else let before = rev (tl (dropWhile (\<lambda>c. c \<noteq> CHR ''.'') (rev n)))
          in if before = [] then n else before)"

definition with_extension :: "path \<Rightarrow> string \<Rightarrow> path" where
  "with_extension p ext = (if p = [] then [] else butlast p @ [file_stem (last p) @ ''.'' @ ext])"

definition local_get :: "path \<Rightarrow> string \<Rightarrow> (local_state, bytes) io" where
  "local_get root key = (let p = resolve root key in sys (os_call p (fs_read p)))"

definition local_put :: "path \<Rightarrow> string \<Rightarrow> bytes \<Rightarrow> (local_state, unit) io" where
  "local_put root key data =
     (let p = resolve root key in
      bnd (if p = [] then ret () else sys (create_dir_all (butlast p))) (\<lambda>_.
      bnd tmp_uuid (\<lambda>u.
      let tmp = with_extension p (''tmp-'' @ u) in
      bnd (sys (bnd (os_call tmp (fs_create tmp)) (\<lambda>_. os_write tmp data))) (\<lambda>_.
      bnd (sys (os_try (fs_rename tmp p))) (\<lambda>r. case r of
          Inr _ \<Rightarrow> ret ()
        | Inl _ \<Rightarrow> bnd (sys (os_try (fs_remove_file tmp))) (\<lambda>_. raise (Io (path_str p))))))))"

definition local_exists :: "path \<Rightarrow> string \<Rightarrow> (local_state, bool) io" where
  "local_exists root key =
     (let p = resolve root key in
      bnd (sys (os_try (fs_stat p))) (\<lambda>r. case r of
          Inr _ \<Rightarrow> ret True
        | Inl NotFound \<Rightarrow> ret False
        | Inl OtherKind \<Rightarrow> raise (Io (path_str p))))"

definition sub_key :: "string \<Rightarrow> string \<Rightarrow> string" where
  "sub_key kp n = (if kp = [] then n else kp @ ''/'' @ n)"

text \<open>
  The listing loop: pop a directory, read it, push its directories and emit its other
  entries. It is the same for every backend with directories: \<open>rd\<close> reads a directory
  (\<open>None\<close> where there is none) as names, each with whether it is a directory, and \<open>child\<close>
  extends a directory by a name. One unit of fuel per directory read.
\<close>

fun list_loop ::
  "('d \<Rightarrow> ('s, (string \<times> bool) list option) io) \<Rightarrow> ('d \<Rightarrow> string \<Rightarrow> 'd) \<Rightarrow> nat \<Rightarrow> ('d \<times> string) list \<Rightarrow> string list
   \<Rightarrow> ('s, string list) io" where
  "list_loop rd child 0 stack out = raise OutOfFuel"
| "list_loop rd child (Suc fuel) stack out =
     (if stack = [] then ret out
      else let (dir, key_prefix) = last stack; rest = butlast stack in
        bnd (rd dir) (\<lambda>r. case r of
            None \<Rightarrow> list_loop rd child fuel rest out
          | Some entries \<Rightarrow>
              list_loop rd child fuel
                (rest @ map (\<lambda>(n, _). (child dir n, sub_key key_prefix n)) (filter snd entries))
                (out @ map (\<lambda>(n, _). sub_key key_prefix n) (filter (\<lambda>x. \<not> snd x) entries))))"

definition local_read_dir :: "path \<Rightarrow> (os_state, (string \<times> bool) list option) io" where
  "local_read_dir dir = bnd (os_try (fs_read_dir dir)) (\<lambda>r. case r of
      Inl NotFound \<Rightarrow> ret None
    | Inl OtherKind \<Rightarrow> raise (Io (path_str dir))
    | Inr entries \<Rightarrow> ret (Some (map (\<lambda>(n, e). (n, e = EDir)) entries)))"

definition local_list :: "path \<Rightarrow> string \<Rightarrow> (local_state, string list) io" where
  "local_list root pfx = (\<lambda>s.
     sys (list_loop local_read_dir (\<lambda>d n. d @ [n]) (length (os_fs (ls_os s)) + 3)
            [(resolve root pfx, trim_end (CHR ''/'') pfx)] []) s)"

definition local_delete :: "path \<Rightarrow> string \<Rightarrow> (local_state, unit) io" where
  "local_delete root key =
     (let p = resolve root key in
      bnd (sys (os_try (fs_remove_file p))) (\<lambda>r. case r of
          Inr _ \<Rightarrow> ret ()
        | Inl NotFound \<Rightarrow> ret ()
        | Inl OtherKind \<Rightarrow> raise (Io (path_str p))))"

definition local_backend :: "path \<Rightarrow> local_state backend" where
  "local_backend root = \<lparr> b_get = local_get root, b_put = local_put root, b_exists = local_exists root,
     b_list = local_list root, b_delete = local_delete root, b_describe = path_str root \<rparr>"

section \<open>The abstract store\<close>

definition store_dir :: "path \<Rightarrow> bool" where
  "store_dir q \<longleftrightarrow> q = [] \<or> (\<exists>d\<in>set doc_dirs. q = [d]) \<or> q = [''blobs'']
     \<or> (\<exists>x. ident x \<and> length x = 2 \<and> q = [''blobs'', x])"

definition store_path :: "path \<Rightarrow> bool" where
  "store_path q \<longleftrightarrow> repo_path q \<or> temp_path q"

text \<open>
  Below the root there are only store directories and store files, and the path to the
  root is not blocked.
\<close>

definition local_fs :: "path \<Rightarrow> fs \<Rightarrow> bool" where
  "local_fs root fs \<longleftrightarrow> fs_wf fs
     \<and> (\<forall>n\<le>length root. ent fs (take n root) = None \<or> ent fs (take n root) = Some EDir)
     \<and> (\<forall>q. ent fs (root @ q) = Some EDir \<longrightarrow> store_dir q)
     \<and> (\<forall>q e. ent fs (root @ q) = Some e \<longrightarrow> e \<noteq> EDir \<longrightarrow> (\<exists>d m t. e = EFile d m t) \<and> store_path q)"

definition local_good :: "path \<Rightarrow> local_state \<Rightarrow> bool" where
  "local_good root s \<longleftrightarrow> local_fs root (os_fs (ls_os s)) \<and> (\<forall>n. ident (ls_uuids s n))"

definition fs_view :: "path \<Rightarrow> fs \<Rightarrow> string \<Rightarrow> bytes option" where
  "fs_view root fs k = (if repo_key k then (case ent fs (root @ key_path k) of
      Some (EFile d _ _) \<Rightarrow> Some d | _ \<Rightarrow> None) else None)"

definition local_view :: "path \<Rightarrow> local_state \<Rightarrow> string \<Rightarrow> bytes option" where
  "local_view root s = fs_view root (os_fs (ls_os s))"

definition local_ready :: "local_state \<Rightarrow> bool" where
  "local_ready s \<longleftrightarrow> faultless (ls_os s)"

section \<open>Paths of keys\<close>

lemma wp_sys [wp_simps]: "wp (sys m) Q s = wp m (\<lambda>r t. Q r (s\<lparr> ls_os := t \<rparr>)) (ls_os s)"
  by (auto simp: wp_def sys_def split: prod.splits)

lemma wp_tmp_uuid [wp_simps]:
  "wp tmp_uuid Q s = Q (Inr (hyphenated (ls_uuids s (ls_pos s)))) (s\<lparr> ls_pos := Suc (ls_pos s) \<rparr>)"
  by (simp add: wp_def tmp_uuid_def)

lemma ident_plain: "ident s \<Longrightarrow> plain_seg (s @ t)"
proof -
  assume "ident s"
  then have "hd (s @ t) \<noteq> CHR ''.''" "s @ t \<noteq> []"
    using ident_no_dot [of s] by (cases s; auto simp: ident_def)+
  then show ?thesis by (auto simp: plain_seg_def)
qed

lemma ident_plain': "ident s \<Longrightarrow> plain_seg s"
  using ident_plain [of s "[]"] by simp

lemma store_path_plain: "store_path q \<Longrightarrow> \<forall>seg\<in>set q. plain_seg seg"
proof -
  assume "store_path q"
  then consider "q = [''config'']" | d s t where "d \<in> set doc_dirs" "ident s" "q = [d, s @ t]"
    | h t where "ident h" "q = [''blobs'', take 2 h, h @ t]" | h where "ident h" "q = [''blobs'', take 2 h, h]"
    | u where "q = [''config'' @ tmp_ext u]"
    unfolding store_path_def repo_path_def temp_path_def by blast
  then show ?thesis
  proof cases
    case 2
    then show ?thesis using ident_plain [of s t] by (auto simp: doc_dirs_def plain_seg_def)
  next
    case 3
    then have "plain_seg (take 2 h)" by (intro ident_plain' ident_take) simp_all
    then show ?thesis using 3 ident_plain [of h t] by (auto simp: plain_seg_def)
  next
    case 4
    then have "plain_seg (take 2 h)" by (intro ident_plain' ident_take) simp_all
    then show ?thesis using 4 ident_plain' [of h] by (auto simp: plain_seg_def)
  qed (auto simp: plain_seg_def)
qed

lemma resolve_store_key: "store_key k \<Longrightarrow> resolve root k = root @ key_path k"
  unfolding resolve_def key_path_def [symmetric]
  by (rule foldl_join) (auto simp: store_key_def store_path_def intro!: store_path_plain)

lemma store_path_not_dir: "store_path q \<Longrightarrow> \<not> store_dir q"
proof
  assume p: "store_path q" and d: "store_dir q"
  have n: "''config'' \<noteq> ''blobs''" by simp
  from d consider "q = []" | x where "q = [x]" "x \<in> set doc_dirs \<union> {''blobs''}" | x where "q = [''blobs'', x]"
    unfolding store_dir_def by blast
  then show False
  proof cases
    case 1
    then show False using p by (auto simp: store_path_def repo_path_def temp_path_def)
  next
    case 2
    then show False using p
      by (auto simp: store_path_def repo_path_def temp_path_def doc_dirs_def tmp_ext_def)
  next
    case 3
    then show False using p
      by (auto simp: store_path_def repo_path_def temp_path_def doc_dirs_def)
  qed
qed

lemma store_path_parent: "store_path q \<Longrightarrow> q \<noteq> [] \<and> (\<forall>n<length q. store_dir (take n q))"
proof -
  assume "store_path q"
  then consider x where "q = [x]" | d y where "d \<in> set doc_dirs" "q = [d, y]"
    | h y where "ident h" "2 \<le> length h" "q = [''blobs'', take 2 h, y]"
    unfolding store_path_def repo_path_def temp_path_def by blast
  then show ?thesis
  proof cases
    case 1
    then show ?thesis by (simp add: store_dir_def)
  next
    case 2
    then show ?thesis by (auto simp: store_dir_def less_Suc_eq_0_disj numeral_2_eq_2)
  next
    case 3
    then have "store_dir [''blobs'', take 2 h]" using ident_take [of h 2] by (simp add: store_dir_def)
    moreover have "store_dir [''blobs'']" by (simp add: store_dir_def)
    ultimately show ?thesis using 3 by (auto simp: less_Suc_eq_0_disj numeral_3_eq_3 store_dir_def)
  qed
qed

end
