(* ===== verification/Local_Contract.thy ===== *)
theory Local_Contract
  imports Local_Backend
begin

text \<open>
  The local backend keeps the storage contract: each operation refines the operation of
  the flat store \<open>local_view\<close>, whichever system calls fail, and succeeds when none does.
\<close>

section \<open>The directory layout under updates\<close>

lemma local_fs_wf [simp]: "local_fs root fs \<Longrightarrow> fs_wf fs"
  by (simp add: local_fs_def)

definition dirlike :: "path \<Rightarrow> path \<Rightarrow> bool" where
  "dirlike root p \<longleftrightarrow> (\<exists>n\<le>length root. p = take n root) \<or> (\<exists>q. p = root @ q \<and> store_dir q)"

lemma dirlike_ent:
  assumes "local_fs root fs" "dirlike root p"
  shows "ent fs p = None \<or> ent fs p = Some EDir"
proof (cases "ent fs p")
  case (Some e)
  then show ?thesis
    using assms store_path_not_dir unfolding local_fs_def dirlike_def by (metis option.distinct(1))
qed simp

lemma local_fs_set_dir:
  assumes g: "local_fs root fs" and d: "dirlike root p" "p \<noteq> []" "is_dir fs (butlast p)"
  shows "local_fs root (fs_set p EDir fs)"
proof -
  have wf: "fs_wf (fs_set p EDir fs)" using fs_wf_set [of fs p EDir] g d by simp
  have sd: "store_dir q" if "root @ q = p" for q
  proof -
    from d(1) consider n where "n \<le> length root" "p = take n root" | r where "p = root @ r" "store_dir r"
      unfolding dirlike_def by blast
    then show ?thesis
    proof cases
      case 1
      then have "length (root @ q) \<le> length root" using that by simp
      then show ?thesis by (simp add: store_dir_def)
    qed (use that in simp)
  qed
  show ?thesis
    unfolding local_fs_def
    using wf sd g d(2) unfolding local_fs_def by (auto split: if_splits)
qed

lemma local_fs_set_file:
  assumes g: "local_fs root fs" and q: "store_path q" and d: "is_dir fs (root @ butlast q)"
  shows "local_fs root (fs_set (root @ q) (EFile c m t) fs)"
proof -
  have ne: "q \<noteq> []" using store_path_parent [OF q] by simp
  have nd: "ent fs (root @ q) \<noteq> Some EDir"
    using g store_path_not_dir [OF q] by (auto simp: local_fs_def)
  have wf: "fs_wf (fs_set (root @ q) (EFile c m t) fs)"
    using fs_wf_set [of fs "root @ q"] g d ne nd by (simp add: butlast_append)
  have "take n root \<noteq> root @ q" for n
  proof
    assume "take n root = root @ q"
    then have "length (take n root) = length root + length q" by (metis length_append)
    then show False using ne by (cases q) auto
  qed
  then show ?thesis
    unfolding local_fs_def using wf g q ne unfolding local_fs_def by auto
qed

lemma local_fs_del:
  assumes g: "local_fs root fs" and q: "store_path q"
  shows "local_fs root (fs_del (root @ q) fs)"
proof -
  have ne: "q \<noteq> []" using store_path_parent [OF q] by simp
  have nd: "ent fs (root @ q) \<noteq> Some EDir"
    using g store_path_not_dir [OF q] by (auto simp: local_fs_def)
  have "fs_wf (fs_del (root @ q) fs)" using fs_wf_del [of fs "root @ q"] g ne nd by simp
  then show ?thesis
    unfolding local_fs_def using g ne unfolding local_fs_def by auto
qed

lemma fs_view_set_dir: "p \<noteq> [] \<Longrightarrow> ent fs p = None \<or> ent fs p = Some EDir \<Longrightarrow> fs_view root (fs_set p EDir fs) = fs_view root fs"
  by (rule ext) (auto simp: fs_view_def split: option.splits fs_entry.splits)

lemma fs_view_set_temp:
  "temp_path q \<Longrightarrow> q \<noteq> [] \<Longrightarrow> fs_view root (fs_set (root @ q) e fs) = fs_view root fs"
  using repo_not_temp by (intro ext) (auto simp: fs_view_def repo_key_def split: option.splits)

lemma fs_view_del_temp:
  "temp_path q \<Longrightarrow> q \<noteq> [] \<Longrightarrow> fs_view root (fs_del (root @ q) fs) = fs_view root fs"
  using repo_not_temp by (intro ext) (auto simp: fs_view_def repo_key_def split: option.splits)

lemma fs_view_set_repo:
  "repo_key k \<Longrightarrow> fs_view root (fs_set (root @ key_path k) (EFile c m t) fs) = (fs_view root fs)(k \<mapsto> c)"
proof -
  assume k: "repo_key k"
  then have "key_path k \<noteq> []" using store_path_parent by (auto simp: repo_key_def store_path_def)
  then show ?thesis using k by (intro ext) (auto simp: fs_view_def)
qed

lemma fs_view_del_repo:
  "repo_key k \<Longrightarrow> fs_view root (fs_del (root @ key_path k) fs) = (fs_view root fs)(k := None)"
proof -
  assume k: "repo_key k"
  then have "key_path k \<noteq> []" using store_path_parent by (auto simp: repo_key_def store_path_def)
  then show ?thesis using k by (intro ext) (auto simp: fs_view_def)
qed

lemma dirlike_stat:
  assumes "local_fs root fs" "dirlike root p" "is_dir fs (butlast p)"
  shows "stat fs p = Inr EDir \<or> stat fs p = Inl NotFound \<and> ent fs p = None"
  using dirlike_ent [OF assms(1,2)] stat_under_dir [OF _ assms(3)] assms(1) by auto

lemma mkdir_step:
  assumes "local_fs root fs" "dirlike root p" "is_dir fs (butlast p)" "p \<noteq> []"
  shows "\<exists>fs'. fs_mkdir p fs = Inr ((), fs') \<and> local_fs root fs' \<and> fs_view root fs' = fs_view root fs \<and> is_dir fs' p"
  using dirlike_stat [OF assms(1-3)]
proof
  assume s: "stat fs p = Inr EDir"
  then show ?thesis using assms by (simp add: fs_mkdir_def is_dir_def stat_Inr)
next
  assume s: "stat fs p = Inl NotFound \<and> ent fs p = None"
  then show ?thesis
    using assms local_fs_set_dir [OF assms(1,2,4,3)] fs_view_set_dir [OF assms(4), of fs root]
    by (simp add: fs_mkdir_def is_dir_def)
qed

text \<open>The state besides the file system that an operation leaves alone.\<close>

definition local_step :: "path \<Rightarrow> local_state \<Rightarrow> local_state \<Rightarrow> bool" where
  "local_step root s t \<longleftrightarrow> local_good root t \<and> (local_ready s \<longrightarrow> local_ready t)"

lemma wp_create_dirs:
  assumes g: "local_fs root (os_fs s)" and p: "\<forall>n\<le>length p. dirlike root (take n p)"
  shows "wp (create_dir_all p) (\<lambda>r t. local_fs root (os_fs t) \<and> fs_view root (os_fs t) = fs_view root (os_fs s)
      \<and> (faultless s \<longrightarrow> faultless t \<and> is_ok r) \<and> (is_ok r \<longrightarrow> is_dir (os_fs t) p)) s"
proof (rule wp_create_dir_all [where Inv = "\<lambda>n t. local_fs root (os_fs t) \<and> fs_view root (os_fs t) = fs_view root (os_fs s)
      \<and> (faultless s \<longrightarrow> faultless t) \<and> is_dir (os_fs t) (take n p)"])
  fix n t
  assume n: "n < length p"
    and I: "local_fs root (os_fs t) \<and> fs_view root (os_fs t) = fs_view root (os_fs s)
      \<and> (faultless s \<longrightarrow> faultless t) \<and> is_dir (os_fs t) (take n p)"
  have bl: "butlast (take (Suc n) p) = take n p" using n by (simp add: butlast_take)
  have ne: "take (Suc n) p \<noteq> []" using n by (cases p) auto
  obtain fs' where m: "fs_mkdir (take (Suc n) p) (os_fs t) = Inr ((), fs')" "local_fs root fs'"
      "fs_view root fs' = fs_view root (os_fs t)" "is_dir fs' (take (Suc n) p)"
    using mkdir_step [of root "os_fs t" "take (Suc n) p"] I p n bl ne by auto
  show "wp (os_call p (fs_mkdir (take (Suc n) p))) (\<lambda>r u. case r of
        Inl e \<Rightarrow> local_fs root (os_fs u) \<and> fs_view root (os_fs u) = fs_view root (os_fs s)
            \<and> (faultless s \<longrightarrow> faultless u \<and> is_ok (Inl e :: unit res)) \<and> (is_ok (Inl e :: unit res) \<longrightarrow> is_dir (os_fs u) p)
      | Inr _ \<Rightarrow> local_fs root (os_fs u) \<and> fs_view root (os_fs u) = fs_view root (os_fs s)
      \<and> (faultless s \<longrightarrow> faultless u) \<and> is_dir (os_fs u) (take (Suc n) p)) t"
    using I m by (auto simp: wp_simps faultless_next split: option.splits)
qed (use g in auto)

section \<open>Temporary names\<close>

lemma ident_append: "ident s \<Longrightarrow> ident t \<Longrightarrow> ident (s @ t)"
  by (simp add: ident_def)

lemma ident_hyphenated: "ident u \<Longrightarrow> ident (hyphenated u)"
proof -
  have h: "ident_char CHR ''-''" by (simp add: ident_char_def)
  have "list_all ident_char u \<Longrightarrow> list_all ident_char (take n (drop m u))" for n m
    by (auto simp: list_all_iff dest!: in_set_takeD in_set_dropD)
  then show "ident u \<Longrightarrow> ident (hyphenated u)"
    using h by (auto simp: ident_def hyphenated_def list_all_iff dest!: in_set_takeD in_set_dropD)
qed

lemma file_stem_dot: "CHR ''.'' \<notin> set t \<Longrightarrow> s \<noteq> [] \<Longrightarrow> file_stem (s @ CHR ''.'' # t) = s"
proof -
  assume t: "CHR ''.'' \<notin> set t" and s: "s \<noteq> []"
  have "dropWhile (\<lambda>c. c \<noteq> CHR ''.'') (rev (s @ CHR ''.'' # t)) = CHR ''.'' # rev s"
    using t by (simp add: dropWhile_append)
  then show ?thesis using s by (simp add: file_stem_def)
qed

lemma file_stem_plain: "CHR ''.'' \<notin> set s \<Longrightarrow> file_stem s = s"
  by (simp add: file_stem_def)

lemma temp_of_repo:
  assumes k: "repo_key k" and u: "ident u"
  shows "\<exists>tq. with_extension (root @ key_path k) (''tmp-'' @ u) = root @ tq \<and> temp_path tq
     \<and> butlast tq = butlast (key_path k) \<and> tq \<noteq> key_path k"
proof -
  have ne: "key_path k \<noteq> []" using k store_path_parent by (auto simp: repo_key_def store_path_def)
  let ?t = "butlast (key_path k) @ [file_stem (last (key_path k)) @ ''.'' @ ''tmp-'' @ u]"
  have w: "with_extension (root @ key_path k) (''tmp-'' @ u) = root @ ?t"
    using ne by (simp add: with_extension_def butlast_append)
  have j: "CHR ''.'' \<notin> set ''json''" by simp
  have "temp_path ?t"
  proof -
    from k consider "key_path k = [''config'']" | d s where "d \<in> set doc_dirs" "ident s" "key_path k = [d, s @ ''.json'']"
      | h where "ident h" "2 \<le> length h" "key_path k = [''blobs'', take 2 h, h]"
      unfolding repo_key_def repo_path_def by blast
    then show ?thesis
    proof cases
      case 1
      then show ?thesis using u by (auto simp: temp_path_def tmp_ext_def file_stem_plain)
    next
      case 2
      then have "file_stem (s @ ''.json'') = s" using file_stem_dot [OF j, of s] by (auto simp: ident_def)
      then show ?thesis using u 2 unfolding temp_path_def tmp_ext_def by auto
    next
      case 3
      then have "file_stem h = h" using ident_no_dot by (intro file_stem_plain) auto
      then show ?thesis using u 3 unfolding temp_path_def tmp_ext_def by auto
    qed
  qed
  moreover have "?t \<noteq> key_path k" using calculation k repo_not_temp by (metis repo_key_def)
  ultimately show ?thesis using w by (metis butlast_snoc)
qed

section \<open>Reading, testing and deleting\<close>

lemma local_view_os: "os_fs (ls_os t) = os_fs (ls_os s) \<Longrightarrow> local_view root t = local_view root s"
  by (simp add: local_view_def)

lemma local_good_os:
  "local_good root s \<Longrightarrow> os_fs (ls_os t) = os_fs (ls_os s) \<Longrightarrow> ls_uuids t = ls_uuids s \<Longrightarrow> local_good root t"
  by (simp add: local_good_def)

lemma fs_view_None:
  "local_fs root fs \<Longrightarrow> repo_key k \<Longrightarrow> fs_view root fs k = None \<longleftrightarrow> ent fs (root @ key_path k) = None"
proof -
  assume g: "local_fs root fs" and k: "repo_key k"
  have "ent fs (root @ key_path k) \<noteq> Some EDir"
    using g k store_path_not_dir [of "key_path k"] by (auto simp: local_fs_def repo_key_def store_path_def)
  moreover have "ent fs (root @ key_path k) \<noteq> Some EOther" "ent fs (root @ key_path k) \<noteq> Some (ELink t)" for t
    using g by (auto simp: local_fs_def)
  ultimately show ?thesis using k by (auto simp: fs_view_def split: option.splits fs_entry.splits)
qed

lemma store_stat:
  assumes g: "local_fs root fs" and q: "store_path q"
  shows "(\<exists>d m t. stat fs (root @ q) = Inr (EFile d m t)) \<or> stat fs (root @ q) = Inl NotFound \<and> ent fs (root @ q) = None"
proof (cases "ent fs (root @ q)")
  case (Some e)
  then have "e \<noteq> EDir" using g store_path_not_dir [OF q] by (auto simp: local_fs_def)
  then show ?thesis using g Some by (auto simp: local_fs_def)
next
  case None
  have "ent fs p = None \<or> ent fs p = Some EDir" if pp: "p \<in> set (parents (root @ q))" for p
  proof (rule dirlike_ent [OF g])
    obtain n where n: "n \<in> {0..<length (root @ q)}" "p = take n (root @ q)"
      using pp by (auto simp: parents_def)
    show "dirlike root p"
    proof (cases "n \<le> length root")
      case True
      then show ?thesis using n by (auto simp: dirlike_def)
    next
      case False
      then have "p = root @ take (n - length root) q" "n - length root < length q" using n by auto
      then show ?thesis using store_path_parent [OF q] unfolding dirlike_def by blast
    qed
  qed
  then show ?thesis using None by (simp add: stat_def list_all_iff)
qed

lemma local_get_spec:
  assumes "local_good root s"
  shows "wp (local_get root k) (\<lambda>r t. local_good root t \<and> local_view root t = local_view root s
     \<and> (local_ready s \<longrightarrow> local_ready t)
     \<and> (repo_key k \<longrightarrow> (\<forall>d. r = Inr d \<longrightarrow> local_view root s k = Some d)
         \<and> (local_ready s \<longrightarrow> local_view root s k \<noteq> None \<longrightarrow> is_ok r))) s"
proof -
  have g: "local_fs root (os_fs (ls_os s))" using assms by (simp add: local_good_def)
  have r: "resolve root k = root @ key_path k" if "repo_key k" using that by (simp add: resolve_store_key repo_store_key)
  show ?thesis
    using assms g r
    by (auto simp: local_get_def Let_def wp_simps local_good_def local_view_def local_ready_def faultless_next
        fs_read_def fs_view_def stat_Inr split: option.splits sum.splits fs_entry.splits)
qed

lemma local_exists_spec:
  assumes "local_good root s"
  shows "wp (local_exists root k) (\<lambda>r t. local_good root t \<and> local_view root t = local_view root s
     \<and> (local_ready s \<longrightarrow> local_ready t)
     \<and> (repo_key k \<longrightarrow> (\<forall>b. r = Inr b \<longrightarrow> b = (local_view root s k \<noteq> None))
         \<and> (local_ready s \<longrightarrow> is_ok r))) s"
proof -
  have g: "local_fs root (os_fs (ls_os s))" using assms by (simp add: local_good_def)
  have fsr: "fs_stat p fs = Inr (a, b) \<Longrightarrow> b = fs" for p fs a b
    by (auto simp: fs_stat_def split: sum.splits)
  have base: "wp (local_exists root k) (\<lambda>r t. local_good root t \<and> local_view root t = local_view root s
     \<and> (local_ready s \<longrightarrow> local_ready t)) s"
    using assms by (auto simp: local_exists_def Let_def wp_simps local_good_def local_view_def local_ready_def
        faultless_next dest!: fsr split: option.splits sum.splits io_kind.splits)
  show ?thesis
  proof (cases "repo_key k")
    case False
    then show ?thesis using base by simp
  next
    case True
    have p: "resolve root k = root @ key_path k" using True by (simp add: resolve_store_key repo_store_key)
    have q: "store_path (key_path k)" using True by (simp add: repo_key_def store_path_def)
    show ?thesis
      using store_stat [OF g q] fs_view_None [OF g True] assms True
      by (auto simp: local_exists_def Let_def p wp_simps fs_stat_def local_good_def local_view_def local_ready_def
          faultless_next stat_Inr split: option.splits)
  qed
qed

lemma local_delete_spec:
  assumes "local_good root s" and k: "store_key k"
  shows "wp (local_delete root k) (\<lambda>r t. local_good root t
     \<and> (local_ready s \<longrightarrow> local_ready t \<and> is_ok r)
     \<and> (case r of Inr _ \<Rightarrow> local_view root t = (local_view root s)(k := None)
        | Inl _ \<Rightarrow> local_view root t = local_view root s)) s"
proof -
  have g: "local_fs root (os_fs (ls_os s))" and u: "\<forall>n. ident (ls_uuids s n)" using assms by (simp_all add: local_good_def)
  have p: "resolve root k = root @ key_path k" by (rule resolve_store_key [OF k])
  have q: "store_path (key_path k)" using k by (simp add: store_key_def store_path_def)
  have ne: "key_path k \<noteq> []" using store_path_parent [OF q] by simp
  have gone: "fs_view root fs k = None" if "ent fs (root @ key_path k) = None" for fs
    using that by (simp add: fs_view_def)
  have del: "fs_view root (fs_del (root @ key_path k) fs) = (fs_view root fs)(k := None)" for fs
  proof (cases "repo_key k")
    case True
    then show ?thesis by (rule fs_view_del_repo)
  next
    case False
    then have "temp_path (key_path k)" using k by (simp add: store_key_def repo_key_def)
    then show ?thesis using False fs_view_del_temp ne by (auto simp: fs_view_def)
  qed
  show ?thesis
    using store_stat [OF g q]
  proof
    assume "\<exists>d m t. stat (os_fs (ls_os s)) (root @ key_path k) = Inr (EFile d m t)"
    then show ?thesis
      using local_fs_del [OF g q] del g u
      by (auto simp: local_delete_def Let_def p wp_simps fs_remove_file_def local_good_def local_view_def local_ready_def
          faultless_next split: option.splits)
  next
    assume "stat (os_fs (ls_os s)) (root @ key_path k) = Inl NotFound \<and> ent (os_fs (ls_os s)) (root @ key_path k) = None"
    then show ?thesis
      using gone g u
      by (auto simp: local_delete_def Let_def p wp_simps fs_remove_file_def local_good_def local_view_def local_ready_def
          faultless_next fun_upd_idem split: option.splits)
  qed
qed

section \<open>Writing\<close>

text \<open>A temporary file beside its target, as the three calls of a write see it.\<close>

definition temp_ready :: "path \<Rightarrow> path \<Rightarrow> fs \<Rightarrow> bytes \<Rightarrow> bool" where
  "temp_ready root tq fs c \<longleftrightarrow> local_fs root fs \<and> temp_path tq \<and> is_dir fs (root @ butlast tq)
     \<and> (\<exists>m t. ent fs (root @ tq) = Some (EFile c m t))"

lemma temp_nonempty: "temp_path tq \<Longrightarrow> tq \<noteq> [] \<and> store_path tq"
  using store_path_parent by (auto simp: store_path_def)

lemma is_dir_set_file: "p \<noteq> [] \<Longrightarrow> \<not> is_dir fs p \<Longrightarrow> is_dir fs d \<Longrightarrow> is_dir (fs_set p e fs) d"
  by (auto simp: is_dir_def)

lemma temp_create:
  assumes g: "local_fs root fs" and t: "temp_path tq" and d: "is_dir fs (root @ butlast tq)"
  shows "\<exists>fs1. fs_create (root @ tq) fs = Inr ((), fs1) \<and> temp_ready root tq fs1 [] \<and> fs_view root fs1 = fs_view root fs"
proof -
  have q: "store_path tq" "tq \<noteq> []" using temp_nonempty [OF t] by auto
  have nd: "\<not> is_dir fs (root @ tq)"
    using g store_path_not_dir [OF q(1)] by (auto simp: local_fs_def is_dir_def)
  have set: "temp_ready root tq (fs_set (root @ tq) (EFile [] m None) fs) []
      \<and> fs_view root (fs_set (root @ tq) (EFile [] m None) fs) = fs_view root fs" for m
    using local_fs_set_file [OF g q(1) d] fs_view_set_temp [OF t q(2)] t q(2) is_dir_set_file [OF _ nd d]
    by (simp add: temp_ready_def)
  show ?thesis
    using store_stat [OF g q(1)]
  proof
    assume "\<exists>d m t. stat fs (root @ tq) = Inr (EFile d m t)"
    then show ?thesis using set by (auto simp: fs_create_def)
  next
    assume "stat fs (root @ tq) = Inl NotFound \<and> ent fs (root @ tq) = None"
    then show ?thesis using set d q(2) by (simp add: fs_create_def butlast_append)
  qed
qed

lemma temp_append:
  assumes "temp_ready root tq fs c"
  shows "temp_ready root tq (fs_append (root @ tq) d fs) (c @ d)
    \<and> fs_view root (fs_append (root @ tq) d fs) = fs_view root fs"
proof -
  obtain m t where e: "ent fs (root @ tq) = Some (EFile c m t)" using assms by (auto simp: temp_ready_def)
  have t: "temp_path tq" "local_fs root fs" "is_dir fs (root @ butlast tq)" using assms by (auto simp: temp_ready_def)
  have q: "store_path tq" "tq \<noteq> []" using temp_nonempty [OF t(1)] by auto
  have nd: "\<not> is_dir fs (root @ tq)" using e by (simp add: is_dir_def)
  show ?thesis
    using local_fs_set_file [OF t(2) q(1) t(3)] fs_view_set_temp [OF t(1) q(2)] t q(2) is_dir_set_file [OF _ nd t(3)]
    by (simp add: fs_append_def e temp_ready_def)
qed

lemma temp_remove:
  assumes "temp_ready root tq fs c"
  shows "\<exists>fs1. fs_remove_file (root @ tq) fs = Inr ((), fs1) \<and> local_fs root fs1 \<and> fs_view root fs1 = fs_view root fs"
proof -
  obtain m t where e: "ent fs (root @ tq) = Some (EFile c m t)" using assms by (auto simp: temp_ready_def)
  have t: "temp_path tq" "local_fs root fs" using assms by (auto simp: temp_ready_def)
  have q: "store_path tq" "tq \<noteq> []" using temp_nonempty [OF t(1)] by auto
  show ?thesis using local_fs_del [OF t(2) q(1)] fs_view_del_temp [OF t(1) q(2)] e
    by (simp add: fs_remove_file_def)
qed

lemma temp_rename:
  assumes r: "temp_ready root tq fs c" and k: "repo_key k" and b: "butlast tq = butlast (key_path k)"
  shows "\<exists>fs1. fs_rename (root @ tq) (root @ key_path k) fs = Inr ((), fs1) \<and> local_fs root fs1
    \<and> fs_view root fs1 = (fs_view root fs)(k \<mapsto> c)"
proof -
  obtain m t where e: "ent fs (root @ tq) = Some (EFile c m t)" using r by (auto simp: temp_ready_def)
  have t: "temp_path tq" "local_fs root fs" "is_dir fs (root @ butlast tq)" using r by (auto simp: temp_ready_def)
  have q: "store_path tq" "tq \<noteq> []" using temp_nonempty [OF t(1)] by auto
  have kq: "store_path (key_path k)" using k by (simp add: repo_key_def store_path_def)
  have kne: "key_path k \<noteq> []" using store_path_parent [OF kq] by simp
  let ?d = "fs_del (root @ tq) fs"
  have gd: "local_fs root ?d" by (rule local_fs_del [OF t(2) q(1)])
  have "root @ tq \<noteq> root @ butlast tq" using q(2) by (metis append_same_eq same_append_eq append_butlast_last_id append_self_conv not_Cons_self)
  then have dd: "is_dir ?d (root @ butlast (key_path k))"
    using t(3) q(2) b by (simp add: is_dir_def)
  have g1: "local_fs root (fs_set (root @ key_path k) (EFile c m t) ?d)"
    by (rule local_fs_set_file [OF gd kq dd])
  have v: "fs_view root (fs_set (root @ key_path k) (EFile c m t) ?d) = (fs_view root fs)(k \<mapsto> c)" for t
    using fs_view_set_repo [OF k] fs_view_del_temp [OF t(1) q(2)] by simp
  have par: "is_dir fs (butlast (root @ key_path k))" using t(3) b kne by (simp add: butlast_append)
  have "fs_rename (root @ tq) (root @ key_path k) fs = Inr ((), fs_set (root @ key_path k) (EFile c m t) ?d)"
    using store_stat [OF t(2) kq] e par by (auto simp: fs_rename_def)
  then show ?thesis using g1 v by blast
qed

lemma store_parent_dirlike:
  assumes "store_path q" "n \<le> length (root @ butlast q)"
  shows "dirlike root (take n (root @ butlast q))"
proof (cases "n \<le> length root")
  case True
  then show ?thesis by (auto simp: dirlike_def)
next
  case False
  let ?m = "n - length root"
  have "q \<noteq> []" using store_path_parent [OF assms(1)] by simp
  then have "0 < length q" by simp
  then have "?m < length q" using assms(2) False by (simp; linarith)
  moreover from this have "take ?m (butlast q) = take ?m q" by (simp add: take_butlast)
  ultimately have "take n (root @ butlast q) = root @ take ?m q" "store_dir (take ?m q)"
    using False store_path_parent [OF assms(1)] by auto
  then show ?thesis unfolding dirlike_def by blast
qed

lemma local_put_spec:
  assumes "local_good root s" and k: "repo_key k"
  shows "wp (local_put root k data) (\<lambda>r t. local_good root t
     \<and> (local_ready s \<longrightarrow> local_ready t \<and> is_ok r)
     \<and> (case r of Inr _ \<Rightarrow> local_view root t = (local_view root s)(k \<mapsto> data)
        | Inl _ \<Rightarrow> local_view root t = local_view root s)) s"
proof -
  have g: "local_fs root (os_fs (ls_os s))" and u: "\<And>n. ident (ls_uuids s n)" using assms by (simp_all add: local_good_def)
  have p: "resolve root k = root @ key_path k" by (simp add: resolve_store_key repo_store_key k)
  have q: "store_path (key_path k)" using k by (simp add: repo_key_def store_path_def)
  have ne: "root @ key_path k \<noteq> []" using store_path_parent [OF q] by simp
  have bl: "butlast (root @ key_path k) = root @ butlast (key_path k)"
    using store_path_parent [OF q] by (simp add: butlast_append)
  obtain tq where tq: "with_extension (root @ key_path k) (''tmp-'' @ hyphenated (ls_uuids s (ls_pos s))) = root @ tq"
      "temp_path tq" "butlast tq = butlast (key_path k)"
    using temp_of_repo [OF k ident_hyphenated [OF u]] by blast
  note dl = store_parent_dirlike [OF q]
  let ?Q = "\<lambda>r t. local_good root t \<and> (local_ready s \<longrightarrow> local_ready t \<and> is_ok r)
     \<and> (case r of Inr _ \<Rightarrow> local_view root t = (local_view root s)(k \<mapsto> data)
        | Inl _ \<Rightarrow> local_view root t = local_view root s)"
  let ?calls = "bnd (sys (bnd (os_call (root @ tq) (fs_create (root @ tq))) (\<lambda>_. os_write (root @ tq) data))) (\<lambda>_.
      bnd (sys (os_try (fs_rename (root @ tq) (root @ key_path k)))) (\<lambda>r. case r of
          Inr _ \<Rightarrow> ret ()
        | Inl _ \<Rightarrow> bnd (sys (os_try (fs_remove_file (root @ tq)))) (\<lambda>_. raise (Io (path_str (root @ key_path k))))))"
  have calls: "wp ?calls ?Q t"
    if t: "local_fs root (os_fs (ls_os t))" "is_dir (os_fs (ls_os t)) (root @ butlast tq)"
      "fs_view root (os_fs (ls_os t)) = local_view root s" "ls_uuids t = ls_uuids s"
      "local_ready s \<longrightarrow> faultless (ls_os t)" for t
  proof -
    obtain fs1 where c: "fs_create (root @ tq) (os_fs (ls_os t)) = Inr ((), fs1)" "temp_ready root tq fs1 []"
        "fs_view root fs1 = local_view root s"
      using temp_create [OF t(1) tq(2) t(2)] t(3) by auto
    have l1: "local_fs root fs1" using c(2) by (simp add: temp_ready_def)
    let ?w = "\<lambda>d. fs_append (root @ tq) d fs1"
    have w: "temp_ready root tq (?w d) d" "fs_view root (?w d) = local_view root s" for d
      using temp_append [OF c(2), of d] c(3) by auto
    have lw: "local_fs root (?w d)" for d using w(1) by (simp add: temp_ready_def)
    obtain fs2 where rn: "fs_rename (root @ tq) (root @ key_path k) (?w data) = Inr ((), fs2)" "local_fs root fs2"
        "fs_view root fs2 = (local_view root s)(k \<mapsto> data)"
      using temp_rename [OF w(1) k tq(3), of data] w(2) by auto
    obtain fs3 where rm: "fs_remove_file (root @ tq) (?w data) = Inr ((), fs3)" "local_fs root fs3"
        "fs_view root fs3 = local_view root s"
      using temp_remove [OF w(1), of data] w(2) by auto
    show ?thesis
      using t u c l1 w lw rn rm
      by (auto simp: wp_simps local_good_def local_view_def local_ready_def faultless_next
          split: option.splits)
  qed
  show ?thesis
    unfolding local_put_def Let_def p using ne
    apply (simp only: if_False wp_bnd [of "sys (create_dir_all _)"] wp_sys bl)
    apply (rule wp_mono [OF wp_create_dirs [OF g]])
    subgoal using dl by blast
    subgoal premises pr for r t
    proof (cases r)
      case (Inl e)
      then show ?thesis using pr u by (auto simp: local_good_def local_view_def local_ready_def)
    next
      case (Inr x)
      have c: "wp ?calls ?Q (s\<lparr> ls_os := t, ls_pos := Suc (ls_pos s) \<rparr>)"
        by (rule calls) (use pr Inr tq(3) in \<open>auto simp: local_view_def local_ready_def\<close>)
      have f: "ls_uuids (s\<lparr> ls_os := t \<rparr>) = ls_uuids s" "ls_pos (s\<lparr> ls_os := t \<rparr>) = ls_pos s"
        by simp_all
      show ?thesis
        unfolding Inr sum.case wp_bnd [of tmp_uuid] wp_tmp_uuid f tq(1) by (rule c)
    qed
    done
qed

end
