(* ===== verification/Local_Listing.thy ===== *)
theory Local_Listing
  imports Local_Contract
begin

text \<open>
  The listing loop of the local backend: it terminates within its fuel and returns every
  file below the prefix exactly once. With it the local backend is an instance of the
  storage contract.
\<close>

section \<open>Entries below a directory\<close>

definition below :: "(fs_entry \<Rightarrow> bool) \<Rightarrow> fs \<Rightarrow> path \<Rightarrow> (path \<times> fs_entry) set" where
  "below P fs d = {x \<in> set fs. P (snd x) \<and> strict_prefix d (fst x)}"

definition direct :: "(fs_entry \<Rightarrow> bool) \<Rightarrow> fs \<Rightarrow> path \<Rightarrow> path list" where
  "direct P fs d = map fst (filter (\<lambda>x. fst x \<noteq> [] \<and> butlast (fst x) = d \<and> P (snd x)) fs)"

abbreviation is_file :: "fs_entry \<Rightarrow> bool" where "is_file e \<equiv> e \<noteq> EDir"
abbreviation is_directory :: "fs_entry \<Rightarrow> bool" where "is_directory e \<equiv> e = EDir"

lemma finite_below [simp]: "finite (below P fs d)"
  by (simp add: below_def)

lemma direct_distinct: "fs_wf fs \<Longrightarrow> distinct (direct P fs d)"
  by (simp add: direct_def distinct_map_filter fs_wf_def)

lemma entry_ent: "fs_wf fs \<Longrightarrow> (p, e) \<in> set fs \<Longrightarrow> p \<noteq> [] \<Longrightarrow> ent fs p = Some e"
  by (simp add: ent_def)

lemma ent_entry: "ent fs p = Some e \<Longrightarrow> p \<noteq> [] \<Longrightarrow> (p, e) \<in> set fs"
  by (auto simp: ent_def dest: map_of_SomeD)

lemma direct_iff: "p \<in> set (direct P fs d) \<longleftrightarrow> (\<exists>e. (p, e) \<in> set fs \<and> p \<noteq> [] \<and> butlast p = d \<and> P e)"
  by (force simp: direct_def)

lemma strict_prefix_butlast: "strict_prefix d p \<longleftrightarrow> p \<noteq> [] \<and> prefix d (butlast p)"
  by (cases p rule: rev_cases) (auto simp: strict_prefix_def)

lemma below_split:
  assumes "fs_wf fs"
  shows "below P fs d = {x \<in> set fs. P (snd x) \<and> fst x \<noteq> [] \<and> butlast (fst x) = d}
     \<union> (\<Union>c\<in>set (direct is_directory fs d). below P fs c)"
proof (intro set_eqI iffI)
  fix x
  assume x: "x \<in> below P fs d"
  obtain p e where pe: "x = (p, e)" by fastforce
  have p: "(p, e) \<in> set fs" "P e" "strict_prefix d p" using x by (auto simp: below_def pe)
  then obtain ys where ys: "p = d @ ys" "ys \<noteq> []" by (auto simp: strict_prefix_def prefix_def)
  then obtain z zs where z: "p = d @ z # zs" by (cases ys) auto
  show "x \<in> {x \<in> set fs. P (snd x) \<and> fst x \<noteq> [] \<and> butlast (fst x) = d}
     \<union> (\<Union>c\<in>set (direct is_directory fs d). below P fs c)"
  proof (cases "zs = []")
    case True
    then show ?thesis using p z by (simp add: pe butlast_append)
  next
    case False
    let ?c = "d @ [z]"
    have "ent fs p = Some e" using entry_ent [OF assms p(1)] z by simp
    moreover have "take (length ?c) p = ?c" "length ?c < length p" using z False by auto
    ultimately have "is_dir fs ?c" using fs_wf_ancestor [OF assms, of p e "length ?c"] by simp
    then have "?c \<in> set (direct is_directory fs d)"
      using ent_entry [of fs ?c EDir] by (auto simp: direct_iff is_dir_def)
    moreover have "x \<in> below P fs ?c"
      using p z False by (auto simp: below_def pe strict_prefix_def)
    ultimately show ?thesis by blast
  qed
next
  fix x
  assume "x \<in> {x \<in> set fs. P (snd x) \<and> fst x \<noteq> [] \<and> butlast (fst x) = d}
     \<union> (\<Union>c\<in>set (direct is_directory fs d). below P fs c)"
  then show "x \<in> below P fs d"
  proof
    assume "x \<in> {x \<in> set fs. P (snd x) \<and> fst x \<noteq> [] \<and> butlast (fst x) = d}"
    then show ?thesis by (auto simp: below_def strict_prefix_butlast)
  next
    assume "x \<in> (\<Union>c\<in>set (direct is_directory fs d). below P fs c)"
    then obtain c where c: "c \<noteq> []" "butlast c = d" "x \<in> below P fs c" by (auto simp: direct_iff)
    then have "prefix d c" by (metis append_butlast_last_id prefixI)
    then show ?thesis using c by (auto simp: below_def intro: prefix_order.le_less_trans)
  qed
qed

lemma below_disjoint:
  assumes "c \<in> set (direct Q fs d)" "c' \<in> set (direct Q fs d)" "c \<noteq> c'"
  shows "below P fs c \<inter> below P fs c' = {}"
proof -
  have l: "length c = length c'" using assms(1,2) by (metis direct_iff length_butlast length_0_conv
        One_nat_def Suc_pred length_greater_0_conv)
  have "\<not> (prefix c p \<and> prefix c' p)" for p
    using l assms(3) by (metis prefix_def append_eq_append_conv)
  then show ?thesis by (auto simp: below_def strict_prefix_def)
qed

lemma card_below:
  assumes "fs_wf fs"
  shows "card (below P fs d) = length (direct P fs d)
     + sum_list (map (\<lambda>c. card (below P fs c)) (direct is_directory fs d))"
proof -
  let ?D = "{x \<in> set fs. P (snd x) \<and> fst x \<noteq> [] \<and> butlast (fst x) = d}"
  let ?C = "set (direct is_directory fs d)"
  have "?D \<inter> (\<Union>c\<in>?C. below P fs c) = {}"
  proof -
    have "\<not> strict_prefix c p" if "c \<in> ?C" "butlast p = d" "p \<noteq> []" for c p
      using that by (metis direct_iff strict_prefix_butlast append_butlast_last_id prefix_def append_self_conv
          append_assoc not_Cons_self2 append_is_Nil_conv)
    then show ?thesis by (auto simp: below_def)
  qed
  then have "card (below P fs d) = card ?D + card (\<Union>c\<in>?C. below P fs c)"
    unfolding below_split [OF assms, of P d] by (intro card_Un_disjoint) auto
  also have "card (\<Union>c\<in>?C. below P fs c) = (\<Sum>c\<in>?C. card (below P fs c))"
    by (rule card_UN_disjoint) (auto dest: below_disjoint)
  also have "\<dots> = sum_list (map (\<lambda>c. card (below P fs c)) (direct is_directory fs d))"
    by (rule sum_list_distinct_conv_sum_set [symmetric, OF direct_distinct [OF assms]])
  also have "card ?D = length (direct P fs d)"
  proof -
    let ?l = "filter (\<lambda>x. fst x \<noteq> [] \<and> butlast (fst x) = d \<and> P (snd x)) fs"
    have "?D = set ?l" by auto
    moreover have "distinct ?l" using assms by (auto simp: fs_wf_def distinct_map)
    ultimately have "card ?D = length ?l" by (simp only: distinct_card)
    then show ?thesis by (simp add: direct_def)
  qed
  finally show ?thesis by simp
qed

lemma below_missing:
  assumes "fs_wf fs" "ent fs d = None"
  shows "below P fs d = {}"
proof -
  have False if "(p, e) \<in> set fs" "strict_prefix d p" for p e
  proof -
    have "ent fs p = Some e" using entry_ent [OF assms(1) that(1)] that(2) by (cases p) auto
    moreover have "length d < length p" "take (length d) p = d"
      using that(2) by (auto simp: strict_prefix_def prefix_def)
    ultimately have "is_dir fs d" using fs_wf_ancestor [OF assms(1), of p e "length d"] by simp
    then show False using assms(2) by (simp add: is_dir_def)
  qed
  then show ?thesis by (auto simp: below_def)
qed

section \<open>The loop\<close>

definition keyf :: "path \<Rightarrow> path \<Rightarrow> string" where
  "keyf root p = join_with (CHR ''/'') (drop (length root) p)"

lemma join_with_snoc: "q \<noteq> [] \<Longrightarrow> join_with c (q @ [n]) = join_with c q @ c # n"
  by (induction c q rule: join_with.induct) auto

lemma sub_key_keyf:
  "prefix root d \<Longrightarrow> keyf root d \<noteq> [] \<Longrightarrow> sub_key (keyf root d) n = keyf root (d @ [n])"
proof -
  assume p: "prefix root d" and k: "keyf root d \<noteq> []"
  then obtain q where q: "d = root @ q" by (auto simp: prefix_def)
  then have "q \<noteq> []" using k by (auto simp: keyf_def)
  then show ?thesis using k q by (simp add: sub_key_def keyf_def join_with_snoc)
qed

text \<open>What the loop keeps on its stack: listable directories with their keys.\<close>

definition listable :: "path \<Rightarrow> fs \<Rightarrow> path \<times> string \<Rightarrow> bool" where
  "listable root fs x \<longleftrightarrow> prefix root (fst x) \<and> snd x = keyf root (fst x) \<and> snd x \<noteq> []
     \<and> (ent fs (fst x) = Some EDir \<or> stat fs (fst x) = Inl NotFound)"

lemma read_dir_direct:
  assumes "ent fs d = Some EDir" "prefix root d" "keyf root d \<noteq> []"
  shows "\<exists>es. fs_read_dir d fs = Inr (es, fs)
    \<and> map (\<lambda>(n, _). (d @ [n], sub_key (keyf root d) n)) (filter (\<lambda>(_, e). e = EDir) es)
        = map (\<lambda>c. (c, keyf root c)) (direct is_directory fs d)
    \<and> map (\<lambda>(n, _). sub_key (keyf root d) n) (filter (\<lambda>(_, e). e \<noteq> EDir) es)
        = map (keyf root) (direct is_file fs d)"
proof -
  let ?sel = "filter (\<lambda>(q, e). q \<noteq> [] \<and> butlast q = d) fs"
  have k: "sub_key (keyf root d) n = keyf root (d @ [n])" for n by (rule sub_key_keyf [OF assms(2,3)])
  have l: "d @ [last q] = q" if "q \<noteq> []" "butlast q = d" for q
    using that append_butlast_last_id by blast
  have dirs: "map (\<lambda>(n, _). (d @ [n], keyf root (d @ [n]))) (filter (\<lambda>(_, e). e = EDir) (map (\<lambda>(q, e). (last q, e)) ?sel))
      = map (\<lambda>c. (c, keyf root c)) (direct is_directory fs d)"
    unfolding direct_def by (induction fs) (auto simp: l)
  have files: "map (\<lambda>(n, _). keyf root (d @ [n])) (filter (\<lambda>(_, e). e \<noteq> EDir) (map (\<lambda>(q, e). (last q, e)) ?sel))
      = map (keyf root) (direct is_file fs d)"
    unfolding direct_def by (induction fs) (auto simp: l)
  show ?thesis using assms(1) dirs files by (simp add: fs_read_dir_def k)
qed

lemma direct_listable:
  assumes "fs_wf fs" "prefix root d" "keyf root d \<noteq> []" "c \<in> set (direct is_directory fs d)"
  shows "listable root fs (c, keyf root c)"
proof -
  have c: "(c, EDir) \<in> set fs" "c \<noteq> []" "butlast c = d" using assms(4) by (auto simp: direct_iff)
  then have dc: "c = d @ [last c]" by (metis append_butlast_last_id)
  have "keyf root (d @ [last c]) \<noteq> []"
    using sub_key_keyf [OF assms(2,3), of "last c", symmetric] assms(3) by (simp add: sub_key_def)
  then have "keyf root c \<noteq> []" using dc by simp
  moreover have "prefix root c" using assms(2) dc by (metis prefix_prefix)
  ultimately show ?thesis using entry_ent [OF assms(1) c(1,2)] by (simp add: listable_def)
qed

definition work :: "fs \<Rightarrow> (path \<times> string) list \<Rightarrow> nat" where
  "work fs stack = sum_list (map (\<lambda>x. Suc (card (below is_directory fs (fst x)))) stack)"

definition pending_files :: "fs \<Rightarrow> (path \<times> string) list \<Rightarrow> nat" where
  "pending_files fs stack = sum_list (map (\<lambda>x. card (below is_file fs (fst x))) stack)"

text \<open>
  What a directory read has to return on the file system \<open>fs\<close>, for a state that shows a file
  system through \<open>fsof\<close> and directories that stand for paths through \<open>pathof\<close>.
\<close>

definition dir_entries :: "fs \<Rightarrow> path \<Rightarrow> (string \<times> bool) list option" where
  "dir_entries fs p = (case fs_read_dir p fs of
      Inr (es, _) \<Rightarrow> Some (map (\<lambda>(n, e). (n, e = EDir)) es) | Inl _ \<Rightarrow> None)"

definition reads_dirs ::
  "('s \<Rightarrow> fs) \<Rightarrow> ('s \<Rightarrow> bool) \<Rightarrow> ('d \<Rightarrow> path) \<Rightarrow> path \<Rightarrow> fs \<Rightarrow> ('d \<Rightarrow> ('s, (string \<times> bool) list option) io) \<Rightarrow> bool" where
  "reads_dirs fsof up pathof root fs rd \<longleftrightarrow> (\<forall>d kp s. fsof s = fs \<longrightarrow> listable root fs (pathof d, kp) \<longrightarrow>
     wp (rd d) (\<lambda>r t. fsof t = fs \<and> (up s \<longrightarrow> up t \<and> is_ok r) \<and> (\<forall>es. r = Inr es \<longrightarrow> es = dir_entries fs (pathof d))) s)"

definition extends_dirs :: "('d \<Rightarrow> path) \<Rightarrow> path \<Rightarrow> fs \<Rightarrow> ('d \<Rightarrow> string \<Rightarrow> 'd) \<Rightarrow> bool" where
  "extends_dirs pathof root fs child \<longleftrightarrow> (\<forall>d n. prefix root (pathof d) \<longrightarrow> ent fs (pathof d @ [n]) \<noteq> None
     \<longrightarrow> pathof (child d n) = pathof d @ [n])"

lemma local_reads: "reads_dirs os_fs faultless id root fs local_read_dir"
  by (auto simp: reads_dirs_def local_read_dir_def dir_entries_def listable_def fs_read_dir_def wp_simps faultless_next
      split: option.splits)

lemma read_dir_ent: "fs_wf fs \<Longrightarrow> fs_read_dir d fs = Inr (es, fs') \<Longrightarrow> (n, e) \<in> set es \<Longrightarrow> ent fs (d @ [n]) = Some e"
proof -
  assume wf: "fs_wf fs" and r: "fs_read_dir d fs = Inr (es, fs')" and n: "(n, e) \<in> set es"
  obtain q where q: "(q, e) \<in> set fs" "q \<noteq> []" "butlast q = d" "n = last q"
    using r n by (auto simp: fs_read_dir_def split: sum.splits fs_entry.splits)
  then have "q = d @ [n]" by (metis append_butlast_last_id)
  then show "ent fs (d @ [n]) = Some e" using entry_ent [OF wf q(1,2)] by simp
qed

text \<open>The entries a read pushes on the stack and those it emits.\<close>

lemma pushed_dirs:
  assumes wf: "fs_wf fs" and ch: "extends_dirs pathof root fs child" and pr: "prefix root (pathof d)"
    and es: "fs_read_dir (pathof d) fs = Inr (es, fs)"
  shows "map (apfst pathof) (map (\<lambda>(n, _). (child d n, f n)) (filter snd (map (\<lambda>(n, e). (n, e = EDir)) es)))
    = map (\<lambda>(n, _). (pathof d @ [n], f n)) (filter (\<lambda>(_, e). e = EDir) es)"
proof -
  have c: "pathof (child d n) = pathof d @ [n]" if "(n, e) \<in> set es" for n e
    using ch pr read_dir_ent [OF wf es that] unfolding extends_dirs_def by simp
  have "map (apfst pathof) (map (\<lambda>(n, _). (child d n, f n)) (filter snd (map (\<lambda>(n, e). (n, e = EDir)) xs)))
      = map (\<lambda>(n, _). (pathof d @ [n], f n)) (filter (\<lambda>(_, e). e = EDir) xs)" if "set xs \<subseteq> set es" for xs
    using that by (induction xs) (auto simp: c)
  then show ?thesis by blast
qed

lemma emitted_files:
  "map (\<lambda>(n, _). f n) (filter (\<lambda>x. \<not> snd x) (map (\<lambda>(n, e). (n, e = EDir)) es))
    = map (\<lambda>(n, _). f n) (filter (\<lambda>(_, e). e \<noteq> EDir) es)"
  by (induction es) auto

lemma wp_list_loop:
  assumes wf: "fs_wf fs" and rd: "reads_dirs fsof up pathof root fs rd" and ch: "extends_dirs pathof root fs child"
  shows "\<lbrakk> fsof s = fs; \<forall>x\<in>set stack. listable root fs (apfst pathof x); work fs (map (apfst pathof) stack) < fuel \<rbrakk> \<Longrightarrow>
    wp (list_loop rd child fuel stack out) (\<lambda>r t. fsof t = fs \<and> (up s \<longrightarrow> up t \<and> is_ok r)
      \<and> (\<forall>ks. r = Inr ks \<longrightarrow>
           set ks = set out \<union> (\<Union>x\<in>set stack. keyf root ` fst ` below is_file fs (pathof (fst x)))
         \<and> length ks = length out + pending_files fs (map (apfst pathof) stack))) s"
proof (induction fuel arbitrary: s stack out)
  case (Suc fuel)
  show ?case
  proof (cases "stack = []")
    case True
    then show ?thesis using Suc.prems by (simp add: wp_simps pending_files_def)
  next
    case False
    then obtain rest d kp where st: "stack = rest @ [(d, kp)]" by (metis rev_exhaust surj_pair)
    have ls: "listable root fs (pathof d, kp)" "\<forall>x\<in>set rest. listable root fs (apfst pathof x)" using Suc.prems(2) st by auto
    have kp: "kp = keyf root (pathof d)" "keyf root (pathof d) \<noteq> []" "prefix root (pathof d)" using ls(1) by (auto simp: listable_def)
    let ?next = "\<lambda>r. case r of
            None \<Rightarrow> list_loop rd child fuel rest out
          | Some entries \<Rightarrow>
              list_loop rd child fuel
                (rest @ map (\<lambda>(n, _). (child d n, sub_key kp n)) (filter snd entries))
                (out @ map (\<lambda>(n, _). sub_key kp n) (filter (\<lambda>x. \<not> snd x) entries))"
    have step: "list_loop rd child (Suc fuel) stack out = bnd (rd d) ?next" by (simp add: st)
    let ?Q = "\<lambda>s r t. fsof t = fs \<and> (up s \<longrightarrow> up t \<and> is_ok r)
      \<and> (\<forall>ks. r = Inr ks \<longrightarrow>
           set ks = set out \<union> (\<Union>x\<in>set stack. keyf root ` fst ` below is_file fs (pathof (fst x)))
         \<and> length ks = length out + pending_files fs (map (apfst pathof) stack))"
    have cont: "wp (?next (dir_entries fs (pathof d))) (?Q t) t" if t: "fsof t = fs" for t
    proof (cases "ent fs (pathof d) = Some EDir")
      case False
      then have m: "stat fs (pathof d) = Inl NotFound" "ent fs (pathof d) = None"
        using ls(1) by (auto simp: listable_def stat_def split: option.splits)
      have e: "dir_entries fs (pathof d) = None" using m(1) by (simp add: dir_entries_def fs_read_dir_def)
      have w: "work fs (map (apfst pathof) rest) < fuel" using Suc.prems(3) by (simp add: st work_def)
      show ?thesis
        unfolding e option.case
        by (rule wp_mono [OF Suc.IH [OF t ls(2) w]]) (simp add: st pending_files_def below_missing [OF wf m(2)])
    next
      case True
      obtain es where es: "fs_read_dir (pathof d) fs = Inr (es, fs)"
          "map (\<lambda>(n, _). (pathof d @ [n], sub_key kp n)) (filter (\<lambda>(_, e). e = EDir) es)
            = map (\<lambda>c. (c, keyf root c)) (direct is_directory fs (pathof d))"
          "map (\<lambda>(n, _). sub_key kp n) (filter (\<lambda>(_, e). e \<noteq> EDir) es) = map (keyf root) (direct is_file fs (pathof d))"
        using read_dir_direct [OF True kp(3,2)] kp(1) by auto
      let ?es = "map (\<lambda>(n, e). (n, e = EDir)) es"
      let ?push = "map (\<lambda>(n, _). (child d n, sub_key kp n)) (filter snd ?es)"
      let ?dirs = "map (\<lambda>c. (c, keyf root c)) (direct is_directory fs (pathof d))"
      let ?out = "out @ map (keyf root) (direct is_file fs (pathof d))"
      have e: "dir_entries fs (pathof d) = Some ?es" using es(1) by (simp add: dir_entries_def)
      have push: "map (apfst pathof) ?push = ?dirs"
        using pushed_dirs [OF wf ch kp(3) es(1), of "sub_key kp"] es(2) by simp
      have emit: "map (\<lambda>(n, _). sub_key kp n) (filter (\<lambda>x. \<not> snd x) ?es) = map (keyf root) (direct is_file fs (pathof d))"
        using emitted_files [of "sub_key kp" es] es(3) by simp
      have pl: "\<forall>x\<in>set ?push. listable root fs (apfst pathof x)"
      proof
        fix x assume "x \<in> set ?push"
        then have "apfst pathof x \<in> set (map (apfst pathof) ?push)" unfolding set_map by (rule imageI)
        then have "apfst pathof x \<in> set ?dirs" unfolding push .
        then show "listable root fs (apfst pathof x)" using direct_listable [OF wf kp(3,2)] by auto
      qed
      have l: "\<forall>x\<in>set (rest @ ?push). listable root fs (apfst pathof x)"
        unfolding set_append ball_Un by (rule conjI [OF ls(2) pl])
      have w: "work fs (map (apfst pathof) (rest @ ?push)) < fuel"
        unfolding map_append push
        using Suc.prems(3) card_below [OF wf, of is_directory "pathof d"]
        by (simp add: st work_def comp_def sum_list_Suc)
      have files: "keyf root ` fst ` below is_file fs (pathof d)
          = keyf root ` set (direct is_file fs (pathof d))
            \<union> (\<Union>c\<in>set (direct is_directory fs (pathof d)). keyf root ` fst ` below is_file fs c)"
      proof -
        have "fst ` {x \<in> set fs. snd x \<noteq> EDir \<and> fst x \<noteq> [] \<and> butlast (fst x) = pathof d} = set (direct is_file fs (pathof d))"
          by (force simp: direct_def)
        then show ?thesis unfolding below_split [OF wf, of is_file "pathof d"] image_Un image_UN by simp
      qed
      have cnt: "length ?out + pending_files fs (map (apfst pathof) (rest @ ?push))
          = length out + pending_files fs (map (apfst pathof) stack)"
        unfolding map_append push
        using card_below [OF wf, of is_file "pathof d"] by (simp add: st pending_files_def comp_def)
      define F where "F x = keyf root ` fst ` below is_file fs x" for x
      have "(\<Union>x\<in>set ?push. F (pathof (fst x))) = (\<Union>x\<in>set (map (apfst pathof) ?push). F (fst x))" by simp
      also have "\<dots> = (\<Union>c\<in>set (direct is_directory fs (pathof d)). F c)" unfolding push by simp
      finally have pu: "(\<Union>x\<in>set ?push. F (pathof (fst x))) = (\<Union>c\<in>set (direct is_directory fs (pathof d)). F c)" .
      have "set ?out \<union> (\<Union>x\<in>set (rest @ ?push). F (pathof (fst x))) = set out \<union> (\<Union>x\<in>set stack. F (pathof (fst x)))"
        unfolding set_append UN_Un pu st using files by (auto simp: F_def)
      then have un: "set ?out \<union> (\<Union>x\<in>set (rest @ ?push). keyf root ` fst ` below is_file fs (pathof (fst x)))
          = set out \<union> (\<Union>x\<in>set stack. keyf root ` fst ` below is_file fs (pathof (fst x)))" unfolding F_def .
      show ?thesis
        unfolding e option.case emit
        by (rule Suc.IH [OF t l w, of ?out, unfolded un cnt])
    qed
    have read: "wp (rd d) (\<lambda>r t. fsof t = fs \<and> (up s \<longrightarrow> up t \<and> is_ok r) \<and> (\<forall>es. r = Inr es \<longrightarrow> es = dir_entries fs (pathof d))) s"
      using rd Suc.prems(1) ls(1) unfolding reads_dirs_def by blast
    show ?thesis
      unfolding step
    proof (rule wp_bndI [OF read])
      fix e t
      assume "fsof t = fs \<and> (up s \<longrightarrow> up t \<and> is_ok (Inl e :: (string \<times> bool) list option res))
        \<and> (\<forall>es. (Inl e :: (string \<times> bool) list option res) = Inr es \<longrightarrow> es = dir_entries fs (pathof d))"
      then show "?Q s (Inl e) t" by simp
    next
      fix a t
      assume a: "fsof t = fs \<and> (up s \<longrightarrow> up t \<and> is_ok (Inr a :: (string \<times> bool) list option res))
        \<and> (\<forall>es. (Inr a :: (string \<times> bool) list option res) = Inr es \<longrightarrow> es = dir_entries fs (pathof d))"
      then have e: "a = dir_entries fs (pathof d)" and t: "fsof t = fs" by blast+
      show "wp (?next a) (?Q s) t" unfolding e by (rule wp_mono [OF cont [OF t]]) (use a in auto)
    qed
  qed
qed simp

section \<open>The listing\<close>

lemma store_path_no_slash: "store_path q \<Longrightarrow> \<forall>seg\<in>set q. CHR ''/'' \<notin> set seg"
proof -
  assume q: "store_path q"
  have d: "CHR ''/'' \<notin> set x" if "x \<in> set doc_dirs" for x using that by (auto simp: doc_dirs_def)
  have t: "CHR ''/'' \<notin> set (s @ tmp_ext u)" if "ident s" "ident u" for s u
    using ident_no_slash that by (simp add: tmp_ext_def)
  have x: "CHR ''/'' \<notin> set (s @ x @ tmp_ext u)" if "ident s" "ident u" "x \<in> {[], ''.json''}" for s x u
    using ident_no_slash that by (auto simp: tmp_ext_def)
  have j: "CHR ''/'' \<notin> set (s @ ''.json'')" if "ident s" for s using ident_no_slash that by simp
  have h: "CHR ''/'' \<notin> set (take 2 s)" if "ident s" for s
    using ident_no_slash [OF that] by (auto dest: in_set_takeD)
  have c: "CHR ''/'' \<notin> set (''config'' @ tmp_ext u)" if "ident u" for u
    using ident_no_slash that by (simp add: tmp_ext_def)
  from q show ?thesis
    unfolding store_path_def repo_path_def temp_path_def
    using d t x j h c ident_no_slash by (elim disjE exE conjE bexE) (simp_all del: set_append)
qed

lemma trim_end_replicate: "\<exists>n. s = trim_end c s @ replicate n c"
proof (induction s rule: rev_induct)
  case (snoc x s)
  show ?case
  proof (cases "x = c")
    case True
    obtain n where "s = trim_end c s @ replicate n c" using snoc by blast
    then have "s @ [x] = trim_end c (s @ [x]) @ replicate (Suc n) c"
      using True by (metis append_assoc replicate_append_same replicate_Suc trim_end_snoc)
    then show ?thesis by blast
  next
    case False
    then have "s @ [x] = trim_end c (s @ [x]) @ replicate 0 c" by (simp add: trim_end_def)
    then show ?thesis by blast
  qed
qed (simp add: trim_end_def)

lemma split_prefix:
  assumes "list_prefix p"
  shows "\<exists>n. split_on (CHR ''/'') p = trim_end (CHR ''/'') p # replicate n []"
proof -
  let ?d = "trim_end (CHR ''/'') p"
  obtain n where p: "p = ?d @ replicate n (CHR ''/'')" using trim_end_replicate by blast
  have d: "CHR ''/'' \<notin> set ?d" using assms by (auto simp: list_prefix_def)
  have r: "split_on c (replicate n c) = replicate (Suc n) []" for n and c :: char by (induction n) auto
  show ?thesis
  proof (cases n)
    case 0
    then show ?thesis using p d by (metis append_Nil2 replicate_0 split_on_id)
  next
    case (Suc m)
    then show ?thesis using p d split_on_cons [OF d, of "replicate m (CHR ''/'')"] r [of _ m]
      by (metis replicate_Suc)
  qed
qed

lemma prefix_plain: "list_prefix p \<Longrightarrow> plain_seg (trim_end (CHR ''/'') p) \<and> CHR ''/'' \<notin> set (trim_end (CHR ''/'') p)"
  by (auto simp: list_prefix_def plain_seg_def)

lemma resolve_prefix:
  assumes "list_prefix p"
  shows "resolve root p = root @ [trim_end (CHR ''/'') p]"
proof -
  obtain n where "split_on (CHR ''/'') p = trim_end (CHR ''/'') p # replicate n []" using split_prefix [OF assms] by blast
  moreover have "foldl join_seg q (replicate n []) = q" for q by (induction n) (auto simp: join_seg_def)
  ultimately show ?thesis using prefix_plain [OF assms] by (simp add: resolve_def join_seg_def plain_seg_def)
qed

lemma store_dir_take: "store_dir q \<Longrightarrow> store_dir (take k q)"
proof -
  assume q: "store_dir q"
  consider "k = 0" | "k = 1" | j where "k = Suc (Suc j)"
    by (metis One_nat_def old.nat.exhaust)
  then show ?thesis using q unfolding store_dir_def by cases auto
qed

lemma dirlike_take: "dirlike root p \<Longrightarrow> dirlike root (take n p)"
proof -
  assume "dirlike root p"
  then consider m where "p = take m root" "m \<le> length root" | q where "p = root @ q" "store_dir q"
    unfolding dirlike_def by blast
  then show ?thesis
  proof cases
    case 1
    then have "take n p = take (min n m) root \<and> min n m \<le> length root" by simp
    then show ?thesis unfolding dirlike_def by blast
  next
    case 2
    show ?thesis
    proof (cases "n \<le> length root")
      case True
      then show ?thesis using 2 by (auto simp: dirlike_def)
    next
      case False
      have "store_dir (take k q)" for k
        using 2(2) by (rule store_dir_take)
      then show ?thesis using 2 False unfolding dirlike_def by auto
    qed
  qed
qed

lemma dirlike_stat_any:
  assumes "local_fs root fs" "dirlike root p"
  shows "ent fs p = Some EDir \<or> stat fs p = Inl NotFound"
proof (cases "ent fs p")
  case None
  have "\<forall>n. ent fs (take n p) = None \<or> ent fs (take n p) = Some EDir"
    using dirlike_ent [OF assms(1) dirlike_take [OF assms(2)]] by blast
  then show ?thesis using None by (auto simp: stat_def parents_def list_all_iff)
next
  case (Some e)
  then show ?thesis using dirlike_ent [OF assms] by auto
qed

text \<open>What the loop returns is the listing of the store.\<close>

lemma listed_store:
  assumes lf: "local_fs root fs" and p: "list_prefix p"
    and ks: "set ks = keyf root ` fst ` below is_file fs (root @ [trim_end (CHR ''/'') p])"
      "length ks = card (below is_file fs (root @ [trim_end (CHR ''/'') p]))"
  shows "distinct ks \<and> (\<forall>k\<in>set ks. store_key k \<and> under p k \<and> ent fs (root @ key_path k) \<noteq> None)
      \<and> {k \<in> set ks. repo_key k} = {k. under p k \<and> fs_view root fs k \<noteq> None}"
proof -
  let ?d = "trim_end (CHR ''/'') p"
  let ?top = "root @ [?d]"
  have wf: "fs_wf fs" using lf by simp
  have noslash: "CHR ''/'' \<notin> set ?d" using p by (auto simp: list_prefix_def)
  let ?F = "below is_file fs ?top"
  have entry: "\<exists>q e. x = (root @ q, e) \<and> store_path q \<and> ent fs (root @ q) = Some e \<and> e \<noteq> EDir \<and> (\<exists>r. r \<noteq> [] \<and> q = ?d # r)"
    if x: "x \<in> ?F" for x
  proof -
    obtain pp e where pe: "x = (pp, e)" "(pp, e) \<in> set fs" "e \<noteq> EDir" "strict_prefix ?top pp"
      using x by (cases x) (auto simp: below_def)
    obtain r where r: "pp = root @ (?d # r)" "r \<noteq> []" using pe(4) by (auto simp: strict_prefix_def prefix_def)
    have en: "ent fs (root @ (?d # r)) = Some e" using entry_ent [OF wf pe(2)] r by simp
    then have "store_path (?d # r)" using lf pe(3) unfolding local_fs_def by blast
    then show ?thesis using en pe r by blast
  qed
  have kq: "key_path (join_with (CHR ''/'') q) = q" if "store_path q" for q
    using split_join store_path_no_slash [OF that] store_path_parent [OF that] by (simp add: key_path_def)
  have inj: "inj_on (\<lambda>x. keyf root (fst x)) ?F"
  proof (rule inj_onI)
    fix x y assume xy: "x \<in> ?F" "y \<in> ?F" "keyf root (fst x) = keyf root (fst y)"
    obtain q e where x: "x = (root @ q, e)" "store_path q" "ent fs (root @ q) = Some e" using entry [OF xy(1)] by blast
    obtain q' e' where y: "y = (root @ q', e')" "store_path q'" "ent fs (root @ q') = Some e'" using entry [OF xy(2)] by blast
    have "q = q'" using xy(3) x(1,2) y(1,2) kq by (metis append_eq_conv_conj fst_conv keyf_def)
    then show "x = y" using x y by simp
  qed
  show ?thesis
  proof (intro conjI)
    have "card (set ks) = card ?F" unfolding ks(1) image_image by (rule card_image [OF inj])
    then show "distinct ks" using ks(2) by (simp add: card_distinct)
    have each: "store_key k \<and> under p k \<and> ent fs (root @ key_path k) \<noteq> None \<and> (repo_key k \<longrightarrow> fs_view root fs k \<noteq> None)" if k: "k \<in> set ks" for k
    proof -
      obtain x where x: "x \<in> ?F" "k = keyf root (fst x)" using k ks(1) by auto
      obtain q e r where q: "x = (root @ q, e)" "store_path q" "ent fs (root @ q) = Some e" "e \<noteq> EDir" "r \<noteq> []" "q = ?d # r"
        using entry [OF x(1)] by blast
      have kj: "k = join_with (CHR ''/'') q" using x(2) q(1) by (simp add: keyf_def)
      have "key_path k = q" using kq [OF q(2)] kj by simp
      moreover have "\<exists>c m t. e = EFile c m t" using q lf unfolding local_fs_def by blast
      moreover have "under p k"
        using q(5,6) kj by (cases r) (auto simp: under_def starts_with_iff)
      ultimately show ?thesis using q by (auto simp: store_key_def store_path_def fs_view_def)
    qed
    show "\<forall>k\<in>set ks. store_key k \<and> under p k \<and> ent fs (root @ key_path k) \<noteq> None" using each by blast
    have "k \<in> set ks" if u: "under p k" and v: "fs_view root fs k \<noteq> None" for k
    proof -
      obtain r where r: "k = ?d @ CHR ''/'' # r" using u by (auto simp: under_def starts_with_iff)
      then have kp: "key_path k = ?d # key_path r" using key_path_two [OF noslash] by simp
      obtain c m t where e: "ent fs (root @ key_path k) = Some (EFile c m t)"
        using v by (auto simp: fs_view_def split: if_splits option.splits fs_entry.splits)
      have "strict_prefix ?top (root @ key_path k)"
        using kp not_sym [OF split_on_nonempty] by (auto simp: strict_prefix_def prefix_def key_path_def)
      then have "(root @ key_path k, EFile c m t) \<in> ?F"
        using ent_entry [OF e] kp by (simp add: below_def)
      moreover have "keyf root (root @ key_path k) = k" by (simp add: keyf_def key_path_def)
      ultimately show ?thesis unfolding ks(1) by force
    qed
    then show "{k \<in> set ks. repo_key k} = {k. under p k \<and> fs_view root fs k \<noteq> None}"
      using each by (auto simp: fs_view_def split: if_splits)
  qed
qed

text \<open>The stack the loop starts with, and the fuel that suffices from there.\<close>

lemma top_listable:
  assumes lf: "local_fs root fs" and p: "list_prefix p"
  shows "listable root fs (root @ [trim_end (CHR ''/'') p], trim_end (CHR ''/'') p)"
proof -
  let ?d = "trim_end (CHR ''/'') p"
  have sd: "store_dir [?d]" using p by (auto simp: list_prefix_def store_dir_def doc_dirs_def)
  have "keyf root (root @ [?d]) = ?d" by (simp add: keyf_def)
  then show ?thesis
    using dirlike_stat_any [OF lf, of "root @ [?d]"] sd p by (auto simp: listable_def dirlike_def list_prefix_def)
qed

lemma top_fuel: "length fs + 3 \<le> fuel \<Longrightarrow> work fs [(d, k)] < fuel"
proof -
  assume f: "length fs + 3 \<le> fuel"
  have "card (below is_directory fs d) \<le> card (set fs)"
    by (rule card_mono) (auto simp: below_def)
  then show ?thesis using card_length [of fs] f by (simp add: work_def)
qed

lemma local_list_full:
  assumes g: "local_good root s" and p: "list_prefix p"
  shows "wp (local_list root p) (\<lambda>r t. local_good root t \<and> local_view root t = local_view root s
     \<and> os_fs (ls_os t) = os_fs (ls_os s)
     \<and> (local_ready s \<longrightarrow> local_ready t \<and> is_ok r)
     \<and> (\<forall>ks. r = Inr ks \<longrightarrow> distinct ks \<and> (\<forall>k\<in>set ks. store_key k \<and> under p k \<and> ent (os_fs (ls_os s)) (root @ key_path k) \<noteq> None)
          \<and> {k \<in> set ks. repo_key k} = {k. under p k \<and> local_view root s k \<noteq> None})) s"
proof -
  let ?fs = "os_fs (ls_os s)" and ?d = "trim_end (CHR ''/'') p"
  let ?top = "root @ [?d]"
  have lf: "local_fs root ?fs" using g by (simp add: local_good_def)
  have ch: "extends_dirs id root ?fs (\<lambda>d n. d @ [n])" by (simp add: extends_dirs_def)
  have ls: "\<forall>x\<in>set [(?top, ?d)]. listable root ?fs (apfst id x)" using top_listable [OF lf p] by simp
  have fuel: "work ?fs (map (apfst id) [(?top, ?d)]) < length ?fs + 3" using top_fuel [of ?fs] by simp
  note loop = wp_list_loop [OF local_fs_wf [OF lf] local_reads ch refl ls fuel, of "[]", unfolded pending_files_def, simplified]
  have l: "local_list root p s = sys (list_loop local_read_dir (\<lambda>d n. d @ [n]) (length ?fs + 3) [(?top, ?d)] []) s"
    by (simp add: local_list_def resolve_prefix [OF p])
  have fin: "local_good root t \<and> local_view root t = local_view root s
     \<and> os_fs (ls_os t) = os_fs (ls_os s)
     \<and> (local_ready s \<longrightarrow> local_ready t \<and> is_ok r)
     \<and> (\<forall>ks. r = Inr ks \<longrightarrow> distinct ks \<and> (\<forall>k\<in>set ks. store_key k \<and> under p k \<and> ent ?fs (root @ key_path k) \<noteq> None)
          \<and> {k \<in> set ks. repo_key k} = {k. under p k \<and> local_view root s k \<noteq> None})"
    if r: "os_fs u = ?fs \<and> (faultless (ls_os s) \<longrightarrow> faultless u \<and> is_ok r) \<and> (\<forall>ks. r = Inr ks \<longrightarrow>
           set ks = keyf root ` fst ` below is_file ?fs ?top \<and> length ks = card (below is_file ?fs ?top))"
      and t: "t = s\<lparr> ls_os := u \<rparr>" for r :: "string list res" and u t
  proof -
    have a: "local_good root t" "local_view root t = local_view root s"
      "os_fs (ls_os t) = os_fs (ls_os s)" "local_ready s \<longrightarrow> local_ready t \<and> is_ok r"
      using r g by (simp_all add: t local_good_def local_view_def local_ready_def)
    have "distinct ks \<and> (\<forall>k\<in>set ks. store_key k \<and> under p k \<and> ent ?fs (root @ key_path k) \<noteq> None)
          \<and> {k \<in> set ks. repo_key k} = {k. under p k \<and> local_view root s k \<noteq> None}" if "r = Inr ks" for ks
      unfolding local_view_def by (rule listed_store [OF lf p]) (use r that in blast)+
    then show ?thesis using a by blast
  qed
  show ?thesis
    unfolding wp_def l unfolding wp_def [symmetric] wp_sys
    by (rule wp_mono [OF loop]) (rule fin, assumption, rule refl)
qed

lemma local_list_spec:
  assumes "local_good root s" "list_prefix p"
  shows "wp (local_list root p) (\<lambda>r t. local_good root t \<and> local_view root t = local_view root s
     \<and> (local_ready s \<longrightarrow> local_ready t \<and> is_ok r)
     \<and> (\<forall>ks. r = Inr ks \<longrightarrow> distinct ks \<and> (\<forall>k\<in>set ks. store_key k \<and> under p k)
          \<and> {k \<in> set ks. repo_key k} = {k. under p k \<and> local_view root s k \<noteq> None})) s"
  by (rule wp_mono [OF local_list_full [OF assms]]) simp

text \<open>A store without left-over temporary objects lists repository keys only.\<close>

definition local_tidy :: "path \<Rightarrow> local_state \<Rightarrow> bool" where
  "local_tidy root s \<longleftrightarrow> (\<forall>k. temp_path (key_path k) \<longrightarrow> ent (os_fs (ls_os s)) (root @ key_path k) = None)"

lemma local_list_tidy:
  assumes g: "local_good root s" "list_prefix p" and t: "local_tidy root s"
  shows "wp (local_list root p) (\<lambda>r t. local_tidy root t \<and> (\<forall>ks. r = Inr ks \<longrightarrow> (\<forall>k\<in>set ks. repo_key k))) s"
proof -
  have repo: "repo_key k" if "store_key k" "ent (os_fs (ls_os s)) (root @ key_path k) \<noteq> None" for k
    using that t by (auto simp: store_key_def repo_key_def local_tidy_def)
  show ?thesis
    by (rule wp_mono [OF local_list_full [OF g]]) (use t repo in \<open>auto simp: local_tidy_def\<close>)
qed

lemma local_get_tidy: "local_tidy root s \<Longrightarrow> wp (local_get root k) (\<lambda>r t. local_tidy root t) s"
  by (auto simp: local_get_def Let_def wp_simps local_tidy_def fs_read_def split: option.splits sum.splits fs_entry.splits)

end
