(* ===== verification/Local_Repository.thy ===== *)
theory Local_Repository
  imports Repository_Laws Store_Calls Prune_Safe Repo_Verify Open_Correct Local_Listing Reference_Instance
begin

text \<open>
  A repository on the local backend: the laws of backup and restore, read off the
  interpretation of the storage contract. Each statement covers every schedule of failing
  system calls on the repository's file system unless it says otherwise.
\<close>

section \<open>The local backend keeps the contract\<close>

interpretation lb: backend "local_backend root" "local_view root" "local_good root"
proof
  fix b k
  assume "local_good root b" "local_view root b k \<noteq> None"
  then show "repo_key k" by (auto simp: local_view_def fs_view_def split: if_splits)
next
  fix b k
  assume g: "local_good root b"
  show "wp (b_get (local_backend root) k) (\<lambda>r c. local_good root c \<and> local_view root c = local_view root b
      \<and> (\<forall>d. r = Inr d \<longrightarrow> repo_key k \<longrightarrow> local_view root b k = Some d)) b"
    by (simp add: local_backend_def) (rule wp_mono [OF local_get_spec [OF g]], blast)
  show "wp (b_exists (local_backend root) k) (\<lambda>r c. local_good root c \<and> local_view root c = local_view root b
      \<and> (\<forall>t. r = Inr t \<longrightarrow> repo_key k \<longrightarrow> t = (local_view root b k \<noteq> None))) b"
    by (simp add: local_backend_def) (rule wp_mono [OF local_exists_spec [OF g]], blast)
next
  fix b p
  assume g: "local_good root b" "list_prefix p"
  show "wp (b_list (local_backend root) p) (\<lambda>r c. local_good root c \<and> local_view root c = local_view root b
      \<and> (\<forall>ks. r = Inr ks \<longrightarrow> distinct ks \<and> (\<forall>k\<in>set ks. store_key k \<and> under p k)
          \<and> {k \<in> set ks. repo_key k} = {k. under p k \<and> local_view root b k \<noteq> None})) b"
    by (simp add: local_backend_def) (rule wp_mono [OF local_list_spec [OF g]], blast)
next
  fix b k d
  assume g: "local_good root b" "repo_key k"
  show "wp (b_put (local_backend root) k d) (\<lambda>r c. local_good root c \<and> (case r of
        Inl _ \<Rightarrow> local_view root c = local_view root b \<or> local_view root c = (local_view root b)(k \<mapsto> d)
          \<or> local_view root c = (local_view root b)(k := None)
      | Inr _ \<Rightarrow> local_view root c = (local_view root b)(k \<mapsto> d))) b"
    by (simp add: local_backend_def) (rule wp_mono [OF local_put_spec [OF g]], auto split: sum.splits)
next
  fix b k
  assume g: "local_good root b" "store_key k"
  show "wp (b_delete (local_backend root) k) (\<lambda>r c. local_good root c \<and> (case r of
        Inl _ \<Rightarrow> local_view root c = local_view root b \<or> local_view root c = (local_view root b)(k := None)
      | Inr _ \<Rightarrow> local_view root c = (local_view root b)(k := None))) b"
    by (simp add: local_backend_def) (rule wp_mono [OF local_delete_spec [OF g]], auto split: sum.splits)
qed

interpretation lr: reliable_backend "local_backend root" "local_view root" "local_good root" local_ready
proof
  fix b k
  assume g: "local_good root b" and r: "local_ready b"
  show "wp (b_get (local_backend root) k) (\<lambda>r c. local_ready c \<and> (repo_key k \<longrightarrow> local_view root b k \<noteq> None \<longrightarrow> is_ok r)) b"
    by (simp add: local_backend_def) (rule wp_mono [OF local_get_spec [OF g]], use r in blast)
  show "wp (b_exists (local_backend root) k) (\<lambda>r c. local_ready c \<and> is_ok r) b" if "repo_key k"
    by (simp add: local_backend_def) (rule wp_mono [OF local_exists_spec [OF g]], use r that in blast)
  show "wp (b_delete (local_backend root) k) (\<lambda>r c. local_ready c \<and> is_ok r) b" if "store_key k"
    by (simp add: local_backend_def) (rule wp_mono [OF local_delete_spec [OF g that]], use r in blast)
  show "wp (b_put (local_backend root) k d) (\<lambda>r c. local_ready c \<and> is_ok r) b" if "repo_key k" for d
    by (simp add: local_backend_def) (rule wp_mono [OF local_put_spec [OF g that]], use r in blast)
  show "wp (b_list (local_backend root) p) (\<lambda>r c. local_ready c \<and> is_ok r) b" if "list_prefix p" for p
    by (simp add: local_backend_def) (rule wp_mono [OF local_list_spec [OF g that]], use r in blast)
qed

interpretation la: atomic_backend "local_backend root" "local_view root" "local_good root" local_ready
proof
  fix b k d
  assume "local_good root b" "repo_key k"
  then show "wp (b_put (local_backend root) k d) (\<lambda>r c. local_good root c \<and> (case r of
        Inl _ \<Rightarrow> local_view root c = local_view root b \<or> local_view root c = (local_view root b)(k \<mapsto> d)
      | Inr _ \<Rightarrow> local_view root c = (local_view root b)(k \<mapsto> d))) b"
    by (simp add: local_backend_def) (rule wp_mono [OF local_put_spec], auto split: sum.splits)
qed

section \<open>Backup\<close>

abbreviation stored :: "path \<Rightarrow> local_state world \<Rightarrow> string \<Rightarrow> bytes option" where
  "stored root w \<equiv> local_view root (w_store w)"

text \<open>C2: Whatever system calls of the storage fail, a backup to a local repository removes
  and overwrites nothing, adds only blobs, one index and one manifest, and if the manifest
  has become visible then so has its index, and the snapshot stands for the complete
  source tree with every chunk in the store. A backup that reports success has made
  exactly that snapshot visible.\<close>

theorem backup_crash_consistent:
  assumes "rp_backend R = local_backend root" "local_good root (w_store w)"
    and "backup_setting L R U (stored root w) sfs paths (next_uuid w)"
    and "backup L R sfs paths w = (r, t)"
  shows "stored root w \<subseteq>\<^sub>m stored root t
     \<and> (\<forall>k. stored root w k = None \<longrightarrow> stored root t k \<noteq> None \<longrightarrow>
          (\<exists>h. hash_name h \<and> k = bkey h) \<or> k \<in> {index_key (next_uuid w), snapshot_key (next_uuid w)})
     \<and> (stored root t (snapshot_key (next_uuid w)) \<noteq> None \<longrightarrow>
          stored root t (index_key (next_uuid w)) \<noteq> None
        \<and> (\<exists>sn. sn_id sn = next_uuid w \<and> snapshot_of_sources L R (stored root t) sfs paths sn))
     \<and> (\<forall>sn. r = Inr sn \<longrightarrow> sn_id sn = next_uuid w \<and> snapshot_of_sources L R (stored root t) sfs paths sn)"
  by (rule lb.crash_consistent [OF assms])

section \<open>Backup, then restore\<close>

text \<open>C1: A tree that was backed up is restored as it was. After a backup that reported
  success, a restore of its snapshot into a fresh target that reports success has written
  exactly the source tree there: every directory the walk could list, every file with its
  bytes and permission bits, nothing else below the target, and nothing outside it has
  changed. When no call fails the restore does report success and the modification times are
  restored too. Entries appear under their own names when all names are UTF-8; otherwise
  under their names as \<open>to_string_lossy\<close> decodes them, which then must differ within a
  directory. Links, special files and entries the listing reports as an error are left out.\<close>

theorem backup_restore_roundtrip:
  assumes "rp_backend R = local_backend root" "local_good root (w_store w)"
    and "backup_setting L R U (stored root w) sfs paths (next_uuid w)" "chunker_ok (rc_chunker (rp_config R))"
    and "backup L R sfs paths w = (Inr sn, t)"
    and "w_store x = w_store t" "fresh_target (wfs x) target" "json_depth_limit \<le> fuel"
    and "restore L R fuel (sn_id sn) target x = (r, y)"
  shows "(\<forall>q. \<not> prefix target q \<longrightarrow> ent (wfs y) q = ent (wfs x) q)
     \<and> (\<forall>s. r = Inr s \<longrightarrow> s = sn \<and> restored_sources (names_restored sfs paths) False (wfs y) target sfs paths)
     \<and> (local_ready (w_store x) \<and> faultless (w_os x) \<and> manifests_ok L R (stored root x)
          \<and> (\<exists>!i. i \<in> snapshot_ids (stored root x) \<and> starts_with i (sn_id sn)) \<longrightarrow>
          r = Inr sn \<and> restored_sources (names_restored sfs paths) True (wfs y) target sfs paths)"
  by (rule lr.roundtrip [OF assms])

text \<open>Two names that differ and decode to the same text: a snapshot holds them as equals.\<close>

lemma lossy_names_collide:
  "file_name [[CHR 0xFE]] = file_name [[CHR 0xFF]] \<and> to_string_lossy [CHR 0xFE] = to_string_lossy [CHR 0xFF]"
  by code_simp

section \<open>Backups succeed\<close>

text \<open>C4: A backup of readable sources to a local repository succeeds when no system call of
  the storage fails: with valid chunker parameters, names a snapshot can hold and a cipher
  that does not fail, it returns a snapshot under the fresh identifier.\<close>

theorem backup_succeeds:
  assumes "rp_backend R = local_backend root" "local_good root (w_store w)" "local_ready (w_store w)"
    and "foreign_laws L" "sealable L R" "ident (next_uuid w)"
    and "sources_readable (rc_chunker (rp_config R)) sfs paths"
  shows "\<exists>sn t. backup L R sfs paths w = (Inr sn, t) \<and> local_ready (w_store t) \<and> local_good root (w_store t)"
proof -
  obtain r t where run: "backup L R sfs paths w = (r, t)" by fastforce
  note ok = lr.backup_returns [OF assms run]
  then obtain sn where "r = Inr sn" by (auto simp: is_ok_iff)
  then show ?thesis using run ok by blast
qed

section \<open>A sample repository\<close>

definition sample_sources :: source_fs where
  "sample_sources p = (if p = ''/data'' then Some ([''data''], SrcDir (Some
     [(''a'', SrcFile \<lparr> md_len = 3, md_mode = 0x1A4, md_modified = Some (True, 5) \<rparr> (Some (Reader [1, 2, 3]))),
      (''e'', SrcDir (Some []))])) else None)"

definition sample_config :: repo_config where
  "sample_config = \<lparr> rc_version = 1, rc_id = ''r'', rc_chunker = default_chunker, rc_encrypted = False, rc_key_slot = [] \<rparr>"

definition sample_repo :: "local_state repository" where
  "sample_repo = \<lparr> rp_backend = local_backend [''repo''], rp_config = sample_config, rp_crypto = None \<rparr>"

definition sample_world :: "local_state world" where
  "sample_world = \<lparr> w_store = \<lparr> ls_os = \<lparr> os_fs = [], os_faults = [] \<rparr>, ls_uuids = (\<lambda>_. ''t''), ls_pos = 0 \<rparr>,
     w_rng = (\<lambda>_. 0), w_rng_pos = 0, w_uuids = (\<lambda>_. ''s1''), w_uuid_pos = 0, w_clock = (\<lambda>_. ''1''), w_clock_pos = 0,
     w_host = None, w_env = (\<lambda>_. None), w_tty = False, w_prompts = [], w_os = \<lparr> os_fs = [], os_faults = [] \<rparr> \<rparr>"

lemma sample_local: "local_good [''repo''] (w_store sample_world)" "local_ready (w_store sample_world)"
  "stored [''repo''] sample_world k = None"
  by (auto simp: sample_world_def local_good_def local_fs_def fs_wf_def ent_def ident_def ident_char_def
      local_ready_def faultless_def local_view_def fs_view_def le_Suc_eq store_dir_def take_Cons')

lemma sample_readable: "sources_readable default_chunker sample_sources [''/data'']"
  by (simp add: sources_readable_def sample_sources_def chunker_ok_def default_chunker_def safe_name_def file_name_def lossy_ascii)

lemma sample_names: "names_restored sample_sources [''/data''] = (\<lambda>n. n)"
  by (simp add: names_restored_def utf8_sources_def root_src_def sample_sources_def utf8_text_def lossy_ascii)

lemma sample_pieces: "fastcdc ref_lib default_chunker [1, 2, 3] = [[1, 2, 3]]"
  by (simp add: ref_lib_def default_chunker_def blocks.simps)

lemma sample_root: "sources_root ref_lib default_chunker sample_sources [''/data''] =
    Dir ''root'' [Dir ''data'' [File ''a'' 3 (Some 0x1A4) (Some 5) [blake3_hex ref_lib [1, 2, 3]], Dir ''e'' []]]"
  by (simp add: sources_root_def sample_sources_def file_name_def sample_pieces file_mode_def mtime_secs_def
      taken_entries_def listed_entries_def lossy_ascii)

lemma length_enc_str: "length (enc_str s) = 2 * length s + 1"
  by (simp add: enc_str_def enc_list_def enc_nat_def length_concat comp_def sum_list_triv)

lemma sample_blobs:
  "build_stored ref_lib (sources_root ref_lib default_chunker sample_sources [''/data'']) = Inr (root', blobs) \<Longrightarrow> blobs = []"
proof -
  have h: "length (blake3_hex ref_lib [1, 2, 3]) = 64" by (rule blake3_length [OF ref_lib_laws])
  have n: "node_json ref_lib = enc_node" by (simp add: ref_lib_def)
  assume "build_stored ref_lib (sources_root ref_lib default_chunker sample_sources [''/data'']) = Inr (root', blobs)"
  then show "blobs = []"
    unfolding sample_root build_stored_def
    by (auto simp: res_bind_Inr inline_or_ref_Inr serialized_def n INLINE_LIMIT_def length_enc_str h enc_nat_def
        enc_word_def enc_opt_def enc_int_def enc_bool_def enc_list_def)
qed

lemma sample_uuid: "next_uuid sample_world = ''s1''"
  by (simp add: next_uuid_def sample_world_def)

lemma sample_setting:
  "backup_setting ref_lib sample_repo {[1, 2, 3]} (stored [''repo''] sample_world) sample_sources [''/data''] (next_uuid sample_world)"
proof -
  have e: "stored [''repo''] sample_world = Map.empty" using sample_local(3) by (rule ext)
  show ?thesis
    unfolding e sample_uuid
    using sample_blobs
    by (auto simp: backup_setting_def ref_lib_laws store_ok_def sources_ok_def sample_repo_def sample_config_def
        root_name_def root_src_def sample_sources_def all_pieces_def sample_pieces json_depth_limit_def taken_names_def lossy_ascii
        ident_def ident_char_def)
qed

lemma sample_repo_simps [simp]:
  "rp_backend sample_repo = local_backend [''repo'']" "rc_chunker (rp_config sample_repo) = default_chunker"
  "sealable ref_lib sample_repo" "chunker_ok default_chunker" "ident ''s1''"
  by (simp_all add: sample_repo_def sample_config_def sealable_def chunker_ok_def default_chunker_def ident_def ident_char_def)

text \<open>The sample backup, its effect, and the conditions of a restore after it.\<close>

lemma sample_backup:
  "\<exists>sn t. backup ref_lib sample_repo sample_sources [''/data''] sample_world = (Inr sn, t) \<and> local_ready (w_store t)
     \<and> wfs t = [] \<and> faultless (w_os t) \<and> sn_id sn = ''s1''
     \<and> manifests_ok ref_lib sample_repo (stored [''repo''] t) \<and> snapshot_ids (stored [''repo''] t) = {''s1''}"
proof -
  obtain r t where run: "backup ref_lib sample_repo sample_sources [''/data''] sample_world = (r, t)" by fastforce
  let ?R = sample_repo and ?v = "stored [''repo''] t"
  note R = sample_repo_simps(1)
  have "is_ok r \<and> local_ready (w_store t) \<and> local_good [''repo''] (w_store t)"
    by (rule lr.backup_returns [OF R sample_local(1,2) ref_lib_laws _ _ _ run]) (simp_all add: sample_uuid sample_readable)
  then obtain sn where sn: "r = Inr sn" and rd: "local_ready (w_store t)" by (auto simp: is_ok_iff)
  have new: "stored [''repo''] sample_world k = None" for k by (rule sample_local(3))
  note left = lb.backup_leaves(2) [OF R sample_local(1) sample_setting run, unfolded sample_uuid]
  note k = left_keys [OF left new new]
  have vis: "?v (snapshot_key ''s1'') \<noteq> None" using k(4) sn by simp
  obtain sn' where sn': "sn_id sn' = ''s1''" "snapshot_of_sources ref_lib ?R ?v sample_sources [''/data''] sn'" "sn' = sn"
    using lb.backup_visible [OF R sample_local(1) sample_setting run] vis sn by (auto simp: sample_uuid)
  have ids: "snapshot_ids ?v = {''s1''}"
  proof
    show "snapshot_ids ?v \<subseteq> {''s1''}"
    proof
      fix i
      assume "i \<in> snapshot_ids ?v"
      then have "?v (snapshot_key i) \<noteq> None" by (simp add: snapshot_ids_def)
      then show "i \<in> {''s1''}" using k(2) [rule_format, OF new, of "snapshot_key i"] by simp
    qed
    show "{''s1''} \<subseteq> snapshot_ids ?v" using vis by (simp add: snapshot_ids_def)
  qed
  have "manifests_ok ref_lib ?R ?v"
    using sn'(1,2) ids unfolding manifests_ok_def snapshot_of_sources_def by simp
  moreover have "w_os t = w_os sample_world"
  proof -
    have uid: "ident (w_uuids sample_world (w_uuid_pos sample_world))" by (simp add: sample_uuid [unfolded next_uuid_def])
    have sw: "sources_within ref_lib (rc_chunker (rp_config ?R)) sample_sources [''/data''] UNIV"
      by (simp add: sources_within_def)
    have fresh: "unused_id (stored [''repo''] sample_world) (w_uuids sample_world (w_uuid_pos sample_world))"
      using sample_setting by (simp add: backup_setting_def unused_id_def next_uuid_def)
    note lb.wp_backup [OF R ref_lib_laws sample_local(1) uid fresh sw, THEN wp_run, OF _ run]
    then show ?thesis by (simp add: commits_from_def)
  qed
  ultimately show ?thesis using run sn sn' rd ids by (auto simp: sample_world_def faultless_def)
qed

theorem backup_succeeds_witness:
  "\<exists>sn t. backup ref_lib sample_repo sample_sources [''/data''] sample_world = (Inr sn, t)"
  using backup_succeeds [OF sample_repo_simps(1) sample_local(1,2) ref_lib_laws sample_repo_simps(3), of sample_sources "[''/data'']"]
  by (auto simp: sample_uuid sample_readable)

theorem backup_crash_consistent_witness:
  "\<exists>sn t. backup ref_lib sample_repo sample_sources [''/data''] sample_world = (Inr sn, t)
     \<and> stored [''repo''] t (index_key ''s1'') \<noteq> None
     \<and> snapshot_of_sources ref_lib sample_repo (stored [''repo''] t) sample_sources [''/data''] sn"
proof -
  obtain sn t where run: "backup ref_lib sample_repo sample_sources [''/data''] sample_world = (Inr sn, t)"
    using sample_backup by blast
  note c = backup_crash_consistent [OF sample_repo_simps(1) sample_local(1) sample_setting run, unfolded sample_uuid]
  then have "sn_id sn = ''s1''" "snapshot_of_sources ref_lib sample_repo (stored [''repo''] t) sample_sources [''/data''] sn"
    by simp_all
  moreover from this have "stored [''repo''] t (snapshot_key ''s1'') \<noteq> None"
    by (simp add: snapshot_of_sources_def snapshot_ids_def)
  ultimately show ?thesis using c run by blast
qed

theorem backup_restore_roundtrip_witness:
  "\<exists>sn t y. backup ref_lib sample_repo sample_sources [''/data''] sample_world = (Inr sn, t)
     \<and> restore ref_lib sample_repo 62 ''s1'' [''out''] t = (Inr sn, y)
     \<and> restored_sources (\<lambda>n. n) True (wfs y) [''out''] sample_sources [''/data'']"
proof -
  obtain sn t where b: "backup ref_lib sample_repo sample_sources [''/data''] sample_world = (Inr sn, t)"
    "local_ready (w_store t)" "wfs t = []" "faultless (w_os t)" "sn_id sn = ''s1''"
    "manifests_ok ref_lib sample_repo (stored [''repo''] t)" "snapshot_ids (stored [''repo''] t) = {''s1''}"
    using sample_backup by blast
  obtain r y where run: "restore ref_lib sample_repo 62 (sn_id sn) [''out''] t = (r, y)" by fastforce
  have tg: "fresh_target (wfs t) [''out'']"
    by (simp add: b(3) fresh_target_def fs_wf_def ent_def)
  have ch: "chunker_ok (rc_chunker (rp_config sample_repo))" by simp
  have fu: "json_depth_limit \<le> 62" by (simp add: json_depth_limit_def)
  have u: "\<exists>!i. i \<in> snapshot_ids (stored [''repo''] t) \<and> starts_with i (sn_id sn)"
    unfolding b(5,7) by (rule ex1I [of _ "''s1''"]) (auto simp: starts_with_def)
  note rt = backup_restore_roundtrip [OF sample_repo_simps(1) sample_local(1) sample_setting ch b(1) refl tg fu run]
  have "r = Inr sn \<and> restored_sources (\<lambda>n. n) True (wfs y) [''out''] sample_sources [''/data'']"
    by (rule rt [THEN conjunct2, THEN conjunct2, THEN mp, unfolded sample_names]) (use b u in blast)
  then show ?thesis using b run by auto
qed

section \<open>Confinement of a restore\<close>

text \<open>C3: A restore never writes outside its target. Into an existing target directory with
  no symbolic link below it, whatever the manifest and the blobs of the repository hold,
  however references nest or cycle, and whichever calls fail: every path that is not
  strictly below the target is unchanged after a node has been restored there, no link has
  appeared anywhere, and the repository is unchanged too. The calls follow links, so a link
  that was below the target before would lead the restore out of it.\<close>

theorem restore_node_confined:
  assumes "rp_backend R = local_backend root" "local_good root (w_store w)"
    and "fs_wf (wfs w)" "is_dir (wfs w) target" "linkless (wfs w) target"
    and "restore_node L R fuel nd target w = (r, t)"
  shows "(\<forall>q. \<not> strict_prefix target q \<longrightarrow> ent (wfs t) q = ent (wfs w) q) \<and> fs_wf (wfs t)
     \<and> (\<forall>q. is_link (wfs t) q \<longrightarrow> is_link (wfs w) q) \<and> stored root t = stored root w"
  using lr.wp_restore_confined [OF assms(1-5), THEN wp_run, OF assms(6)]
  by (simp add: strictly_within_def no_new_links_def restoring_def)

text \<open>
  A target \<open>/out\<close> beside a system directory, with a link elsewhere, and the same with a link
  below the target. The tree is a directory with one file.
\<close>

definition guarded_fs :: fs where
  "guarded_fs = [([''etc''], EDir), ([''etc'', ''cron''], EFile [7] None None), ([''lnk''], ELink [''etc'']), ([''out''], EDir)]"

definition linked_fs :: fs where
  "linked_fs = [([''etc''], EDir), ([''out''], EDir), ([''out'', ''a''], ELink [''etc''])]"

definition small_tree :: "string \<Rightarrow> node" where
  "small_tree n = Dir ''a'' [File n 0 None None []]"

definition restoring_world :: "fs \<Rightarrow> local_state world" where
  "restoring_world fs = sample_world\<lparr> w_os := \<lparr> os_fs = fs, os_faults = [] \<rparr> \<rparr>"

lemma small_names: "check_name ''a'' = Inr ()" "check_name ''b'' = Inr ()" "check_name ''../etc'' = Inl (BadPath ''../etc'')"
    "safe_join d ''a'' = Inr (d @ [''a''])" "safe_join d ''b'' = Inr (d @ [''b''])"
  by (simp_all add: safe_name_def check_name_def safe_join_def split_on_id join_seg_def starts_with_def ends_with_def)

lemmas small_run = small_tree_def small_names restoring_world_def restore_file_def restore_mode_def restore_mtime_def
  buf_flush_def on_os_def bnd_def ret_def lift_res_def

lemma guarded_calls:
  "follow_dir_all [''out'', ''a''] \<lparr> os_fs = guarded_fs, os_faults = [] \<rparr>
     = (Inr (), \<lparr> os_fs = guarded_fs @ [([''out'', ''a''], EDir)], os_faults = [] \<rparr>)"
  "follow_dir_all [''out'', ''a''] \<lparr> os_fs = guarded_fs @ [([''out'', ''a''], EDir)], os_faults = [] \<rparr>
     = (Inr (), \<lparr> os_fs = guarded_fs @ [([''out'', ''a''], EDir)], os_faults = [] \<rparr>)"
  "os_call [''out'', ''a'', ''b''] (follow_create [''out'', ''a'', ''b''])
      \<lparr> os_fs = guarded_fs @ [([''out'', ''a''], EDir)], os_faults = [] \<rparr>
     = (Inr [''out'', ''a'', ''b''],
        \<lparr> os_fs = guarded_fs @ [([''out'', ''a''], EDir), ([''out'', ''a'', ''b''], EFile [] None None)], os_faults = [] \<rparr>)"
  by code_simp+

lemma guarded_restore:
  "restore_node ref_lib sample_repo 5 (small_tree ''b'') [''out''] (restoring_world guarded_fs)
     = (Inr (), restoring_world (guarded_fs @ [([''out'', ''a''], EDir), ([''out'', ''a'', ''b''], EFile [] None None)]))"
  "restore_node ref_lib sample_repo 5 (small_tree ''../etc'') [''out''] (restoring_world guarded_fs)
     = (Inl (BadPath ''../etc''), restoring_world guarded_fs)"
  by (simp_all add: small_run guarded_calls)

theorem restore_node_confined_witness:
  "\<exists>t. restore_node ref_lib sample_repo 5 (small_tree ''b'') [''out''] (restoring_world guarded_fs) = (Inr (), t)
     \<and> ent (wfs t) [''out'', ''a'', ''b''] = Some (EFile [] None None)
     \<and> (\<forall>q. \<not> strict_prefix [''out''] q \<longrightarrow> ent (wfs t) q = ent guarded_fs q)"
proof -
  let ?w = "restoring_world guarded_fs"
  have e: "ent guarded_fs p = (if p = [''etc''] \<or> p = [''out''] \<or> p = [] then Some EDir
      else if p = [''etc'', ''cron''] then Some (EFile [7] None None) else if p = [''lnk''] then Some (ELink [''etc'']) else None)" for p
    by (simp add: guarded_fs_def ent_def)
  have os: "wfs ?w = guarded_fs" "w_store ?w = w_store sample_world" by (simp_all add: restoring_world_def)
  have wf: "fs_wf (wfs ?w)"
    unfolding os fs_wf_def is_dir_def by (simp add: e) (simp add: guarded_fs_def)
  have dir: "is_dir (wfs ?w) [''out'']" "linkless (wfs ?w) [''out'']"
    unfolding os by (simp_all add: is_dir_def linkless_def is_link_ent e)
  note c = restore_node_confined [OF sample_repo_simps(1) sample_local(1) [folded os(2)] wf dir guarded_restore(1)]
  show ?thesis
  proof (intro exI conjI)
    show "\<forall>q. \<not> strict_prefix [''out''] q \<longrightarrow>
        ent (wfs (restoring_world (guarded_fs @ [([''out'', ''a''], EDir), ([''out'', ''a'', ''b''], EFile [] None None)]))) q = ent guarded_fs q"
      using c [THEN conjunct1] unfolding os(1) .
  qed (rule guarded_restore(1), simp add: restoring_world_def guarded_fs_def ent_def)
qed

text \<open>A link below the target leads out of it: the file appears in \<open>/etc\<close>.\<close>

lemma restore_follows_link:
  "restore_node ref_lib sample_repo 5 (small_tree ''b'') [''out''] (restoring_world linked_fs)
     = (Inr (), restoring_world (linked_fs @ [([''etc'', ''b''], EFile [] None None)]))"
proof -
  have calls: "follow_dir_all [''out'', ''a''] \<lparr> os_fs = linked_fs, os_faults = [] \<rparr> = (Inr (), \<lparr> os_fs = linked_fs, os_faults = [] \<rparr>)"
    "os_call [''out'', ''a'', ''b''] (follow_create [''out'', ''a'', ''b'']) \<lparr> os_fs = linked_fs, os_faults = [] \<rparr>
       = (Inr [''etc'', ''b''], \<lparr> os_fs = linked_fs @ [([''etc'', ''b''], EFile [] None None)], os_faults = [] \<rparr>)"
    by code_simp+
  show ?thesis by (simp add: small_run calls)
qed

end
