(* ===== verification/Local_Prune.thy ===== *)
theory Local_Prune
  imports Local_Repository
begin

text \<open>
  Pruning a local repository: what survives, under every schedule of failing system calls,
  and what a successful prune deletes. The index a backup writes lists the chunks and the
  references of the manifest's inline tree only, so the chunks below a reference are among
  what a prune deletes.
\<close>

section \<open>What a backup's index lists\<close>

lemma dedup_refs_hashes: "br_hash ` set (dedup_refs written seen xs) = fst ` set xs - seen"
  by (induction written seen xs rule: dedup_refs.induct) auto

lemma build_index_hashes:
  "set (map br_hash (ix_blobs (build_index sn written))) = set (chunks_of (sn_root sn)) \<union> set (refs_of (sn_root sn))"
  by (simp add: build_index_def collect_chunks_eq collect_refs_eq dedup_refs_hashes image_Un image_image)

lemma resolves_ref_free: "ref_free n \<Longrightarrow> resolves f n m \<longleftrightarrow> m = n"
proof (induction n arbitrary: m)
  case (Dir d cs)
  have "list_all2 (resolves f) cs ds \<longleftrightarrow> ds = cs" for ds
    using Dir by (simp add: list_all2_conv_all_nth list_eq_iff_nth_eq) (metis nth_mem)
  then show ?case by (auto simp: resolves_Dir)
qed auto

lemma chunks_of_src_eq: "readable s \<Longrightarrow> \<not> is_other s \<Longrightarrow> set (chunks_of (src_node L cfg nm s)) = blake3_hex L ` set (src_pieces L cfg s)"
proof (induction L cfg nm s rule: src_node.induct)
  case (2 L cfg nm entries)
  have kid: "set (chunks_of (src_node L cfg (to_string_lossy n) e)) = blake3_hex L ` set (src_pieces L cfg e)"
    if "(n, e) \<in> set entries" "\<not> is_other e" for n e
    by (rule 2(1)) (use that 2(2) in auto)
  have other: "src_pieces L cfg e = []" if "is_other e" for e using that by (cases e) auto
  have "set (chunks_of (src_node L cfg nm (SrcDir (Some entries))))
      = (\<Union>(n, e)\<in>{(n, e) \<in> set entries. \<not> is_other e}. set (chunks_of (src_node L cfg (to_string_lossy n) e)))"
    unfolding src_node.simps chunks_of_sort by auto
  also have "\<dots> = (\<Union>(n, e)\<in>{(n, e) \<in> set entries. \<not> is_other e}. blake3_hex L ` set (src_pieces L cfg e))"
    by (rule SUP_cong) (use kid in auto)
  also have "\<dots> = (\<Union>(n, e)\<in>set entries. blake3_hex L ` set (src_pieces L cfg e))"
    using other by fastforce
  finally show ?case by auto
qed auto

section \<open>What survives\<close>

lemma local_prune:
  assumes R: "rp_backend R = local_backend root" and w: "local_good root (w_store w)"
    and m: "manifests_ok L R (stored root w)" and run: "prune L R fuel policy dry_run w = (r, t)"
  shows "local_good root (w_store t)" "dry_run \<longrightarrow> stored root t = stored root w"
    "stored root t = stored root w \<and> \<not> is_ok r
      \<or> (\<exists>ss. listing L R (stored root w) ss
           \<and> pruned_to L R (kept (apply_policy L ss policy)) (pruned (apply_policy L ss policy)) (stored root w) (stored root t)
           \<and> (\<forall>rep. r = Inr rep \<longrightarrow> prune_done L R dry_run (kept (apply_policy L ss policy)) (pruned (apply_policy L ss policy))
                  (stored root w) (stored root t) rep))"
    "local_ready (w_store w) \<longrightarrow> local_ready (w_store t)
      \<and> ((\<forall>i\<in>snapshot_ids (stored root w). index_of L R (stored root w) i \<noteq> None) \<longrightarrow> is_ok r)"
proof -
  note p = lr.wp_prune [OF R w m, THEN wp_run, OF run]
  show "local_good root (w_store t)" by (rule p [THEN conjunct2, THEN conjunct1])
  show "dry_run \<longrightarrow> stored root t = stored root w" by (rule p [THEN conjunct2, THEN conjunct2, THEN conjunct1])
  note q = p [THEN conjunct2, THEN conjunct2, THEN conjunct2]
  show "stored root t = stored root w \<and> \<not> is_ok r
      \<or> (\<exists>ss. listing L R (stored root w) ss
           \<and> pruned_to L R (kept (apply_policy L ss policy)) (pruned (apply_policy L ss policy)) (stored root w) (stored root t)
           \<and> (\<forall>rep. r = Inr rep \<longrightarrow> prune_done L R dry_run (kept (apply_policy L ss policy)) (pruned (apply_policy L ss policy))
                  (stored root w) (stored root t) rep))" by (rule q [THEN conjunct1])
  show "local_ready (w_store w) \<longrightarrow> local_ready (w_store t)
      \<and> ((\<forall>i\<in>snapshot_ids (stored root w). index_of L R (stored root w) i \<noteq> None) \<longrightarrow> is_ok r)" by (rule q [THEN conjunct2])
qed

text \<open>A manifest that is still visible has its index and its listed blobs unchanged.\<close>

lemma visible_untouched:
  assumes ls: "listing L R v ss"
    and p: "pruned_to L R (kept (apply_policy L ss policy)) (pruned (apply_policy L ss policy)) v v'"
    and vis: "v' (snapshot_key i) \<noteq> None" "ident i"
  shows "v' (snapshot_key i) = v (snapshot_key i)"
    "index_of L R v i = Some ix \<Longrightarrow> h \<in> br_hash ` set (ix_blobs ix) \<Longrightarrow> hash_name h \<Longrightarrow> v' (bkey h) = v (bkey h)"
proof -
  let ?k = "kept (apply_policy L ss policy)" and ?p = "pruned (apply_policy L ss policy)"
  note d = decision_ids [OF ls, of policy]
  show man: "v' (snapshot_key i) = v (snapshot_key i)" using p vis(1) by (auto simp: pruned_to_def)
  show "v' (bkey h) = v (bkey h)" if ix: "index_of L R v i = Some ix" "h \<in> br_hash ` set (ix_blobs ix)" "hash_name h"
  proof (rule ccontr)
    assume c: "v' (bkey h) \<noteq> v (bkey h)"
    have nd: "bkey h \<notin> doc_keys (ids_of ?p)" by (auto simp: doc_keys_def)
    have "\<exists>g. hash_name g \<and> bkey h = bkey g \<and> g \<notin> live_blobs L R v ?k" and gone: "\<forall>j\<in>doc_keys (ids_of ?p). v' j = None"
      using p c nd unfolding pruned_to_def by blast+
    then have nl: "h \<notin> live_blobs L R v ?k" using bkey_inj [OF ix(3)] by metis
    have "i \<notin> ids_of ?p" using gone vis(1) by (auto simp: doc_keys_def)
    moreover have "i \<in> snapshot_ids v" using vis man by (simp add: snapshot_ids_def)
    ultimately have "i \<in> ids_of ?k" using d(1) by blast
    then obtain s where "s \<in> set ?k" "sn_id s = i" unfolding ids_of_def set_map by blast
    then show False using nl ix by (auto simp: live_blobs_def indexed_def)
  qed
qed

lemma prune_survivors:
  assumes "rp_backend R = local_backend root" "local_good root (w_store w)"
    and "manifests_ok L R (stored root w)" "prune L R fuel policy dry_run w = (r, t)"
    and vis: "ident i" "stored root t (snapshot_key i) \<noteq> None"
  shows "stored root t (snapshot_key i) = stored root w (snapshot_key i)"
    "index_of L R (stored root w) i = Some ix \<Longrightarrow> h \<in> br_hash ` set (ix_blobs ix) \<Longrightarrow> hash_name h
      \<Longrightarrow> stored root t (bkey h) = stored root w (bkey h)"
proof -
  consider "stored root t = stored root w"
    | ss where "listing L R (stored root w) ss"
      "pruned_to L R (kept (apply_policy L ss policy)) (pruned (apply_policy L ss policy)) (stored root w) (stored root t)"
    using local_prune(3) [OF assms(1-4)] by blast
  note c = this
  from c show "stored root t (snapshot_key i) = stored root w (snapshot_key i)"
  proof cases
    case (2 ss)
    then show ?thesis using visible_untouched(1) [where v = "stored root w" and v' = "stored root t" and i = i and L = L and R = R] vis by blast
  qed simp
  show "stored root t (bkey h) = stored root w (bkey h)"
    if "index_of L R (stored root w) i = Some ix" "h \<in> br_hash ` set (ix_blobs ix)" "hash_name h"
    using c
  proof cases
    case (2 ss)
    then show ?thesis using visible_untouched(2) [where v = "stored root w" and v' = "stored root t" and i = i and L = L and R = R] vis that by blast
  qed simp
qed

lemma prune_success:
  assumes "rp_backend R = local_backend root" "local_good root (w_store w)"
    and "manifests_ok L R (stored root w)" "prune L R fuel policy dry_run w = (Inr rep, t)"
    and all: "\<forall>i\<in>snapshot_ids (stored root w). index_of L R (stored root w) i \<noteq> None"
  shows "\<exists>ss. listing L R (stored root w) ss
          \<and> pr_kept_snapshots rep = map sn_id (kept (apply_policy L ss policy))
          \<and> pr_deleted_snapshots rep = map sn_id (pruned (apply_policy L ss policy))
          \<and> set (pr_kept_snapshots rep) \<subseteq> snapshot_ids (stored root w)
          \<and> (\<not> dry_run \<longrightarrow> snapshot_ids (stored root t) = set (pr_kept_snapshots rep)
              \<and> (\<forall>h. hash_name h \<longrightarrow> stored root t (bkey h) \<noteq> None \<longrightarrow>
                   (\<exists>i\<in>set (pr_kept_snapshots rep). \<exists>ix. index_of L R (stored root w) i = Some ix
                      \<and> h \<in> br_hash ` set (ix_blobs ix))))"
proof -
  obtain ss where ls: "listing L R (stored root w) ss"
    and d: "prune_done L R dry_run (kept (apply_policy L ss policy)) (pruned (apply_policy L ss policy))
                  (stored root w) (stored root t) rep"
    using local_prune(3) [OF assms(1-4)] by auto
  let ?k = "kept (apply_policy L ss policy)"
  have rep: "pr_kept_snapshots rep = map sn_id ?k" "pr_deleted_snapshots rep = map sn_id (pruned (apply_policy L ss policy))"
    using d by (simp_all add: prune_done_def)
  have ids: "sn_id s \<in> snapshot_ids (stored root w)" if "s \<in> set ?k" for s
    using decision_ids(1) [OF ls, of policy] that by (auto simp: ids_of_def)
  have "stored root w (index_key (sn_id s)) \<noteq> None" if "s \<in> set ?k" for s
    using all ids [OF that] by (auto simp: index_of_def document_def split: option.splits)
  then have ai: "all_indexed (stored root w) ?k" by (simp add: all_indexed_def)
  have live: "\<exists>i\<in>set (pr_kept_snapshots rep). \<exists>ix. index_of L R (stored root w) i = Some ix \<and> h \<in> br_hash ` set (ix_blobs ix)"
    if lv: "h \<in> live_blobs L R (stored root w) ?k" for h
  proof -
    obtain x y where "x \<in> set ?k" "index_of L R (stored root w) (sn_id x) = Some y" "h \<in> br_hash ` set (ix_blobs y)"
      using lv by (auto simp: live_blobs_def indexed_def split: option.splits)
    then show ?thesis unfolding rep set_map by blast
  qed
  show ?thesis
    using ls rep live d ai ids by (intro exI [of _ ss]) (auto simp: prune_done_def ids_of_def)
qed

lemma prune_left:
  assumes "rp_backend R = local_backend root" "local_good root (w_store w)"
    and "manifests_ok L R (stored root w)" "prune L R fuel policy False w = (Inr rep, t)"
    and "\<forall>i\<in>snapshot_ids (stored root w). index_of L R (stored root w) i \<noteq> None"
    and "hash_name h" "stored root t (bkey h) \<noteq> None"
  shows "\<exists>i\<in>snapshot_ids (stored root w). \<exists>ix. index_of L R (stored root w) i = Some ix \<and> h \<in> br_hash ` set (ix_blobs ix)"
proof -
  note p = prune_success [OF assms(1-5)]
  then have "set (pr_kept_snapshots rep) \<subseteq> snapshot_ids (stored root w)" by blast
  moreover have "\<exists>i\<in>set (pr_kept_snapshots rep). \<exists>ix. index_of L R (stored root w) i = Some ix \<and> h \<in> br_hash ` set (ix_blobs ix)"
    using p assms(6,7) by blast
  ultimately show ?thesis by blast
qed

text \<open>C5: A prune of a local repository is safe to interrupt. Under every schedule of failing
  system calls it adds nothing and changes nothing in place; a dry run leaves the store
  untouched; and every snapshot whose manifest is still visible afterwards, dropped or kept,
  has that manifest unchanged and every blob its index lists still present and unchanged.\<close>

theorem prune_interruptible:
  assumes "rp_backend R = local_backend root" "local_good root (w_store w)"
    and "manifests_ok L R (stored root w)" "prune L R fuel policy dry_run w = (r, t)"
  shows "(\<forall>k. stored root t k \<noteq> stored root w k \<longrightarrow> stored root t k = None)
     \<and> (dry_run \<longrightarrow> stored root t = stored root w)
     \<and> (\<forall>i ix h. ident i \<longrightarrow> stored root t (snapshot_key i) \<noteq> None \<longrightarrow> index_of L R (stored root w) i = Some ix
          \<longrightarrow> h \<in> br_hash ` set (ix_blobs ix) \<longrightarrow> hash_name h
          \<longrightarrow> stored root t (snapshot_key i) = stored root w (snapshot_key i)
            \<and> stored root t (bkey h) = stored root w (bkey h))"
proof (intro conjI allI impI)
  show "stored root t k = None" if "stored root t k \<noteq> stored root w k" for k
    using local_prune(3) [OF assms] that unfolding pruned_to_def by metis
  show "stored root t = stored root w" if dry_run using local_prune(2) [OF assms] that by blast
  fix i ix h
  assume "ident i" "stored root t (snapshot_key i) \<noteq> None"
  note surv = prune_survivors [OF assms this]
  show "stored root t (snapshot_key i) = stored root w (snapshot_key i)" by (rule surv(1))
  show "stored root t (bkey h) = stored root w (bkey h)"
    if "index_of L R (stored root w) i = Some ix" "h \<in> br_hash ` set (ix_blobs ix)" "hash_name h"
    using surv(2) that by blast
qed

text \<open>C7: A prune that reports success has done what its report says: the snapshots left are
  those the retention policy keeps, the report names kept and deleted ones in order, and no
  blob is left that none of the kept indexes lists. Without faults and with readable
  indexes it does report success.\<close>

theorem prune_reports_truly:
  assumes "rp_backend R = local_backend root" "local_good root (w_store w)"
    and "manifests_ok L R (stored root w)" "prune L R fuel policy dry_run w = (r, t)"
    and "\<forall>i\<in>snapshot_ids (stored root w). index_of L R (stored root w) i \<noteq> None"
  shows "(local_ready (w_store w) \<longrightarrow> is_ok r)
     \<and> (\<forall>rep. r = Inr rep \<longrightarrow> (\<exists>ss. listing L R (stored root w) ss
          \<and> pr_kept_snapshots rep = map sn_id (kept (apply_policy L ss policy))
          \<and> pr_deleted_snapshots rep = map sn_id (pruned (apply_policy L ss policy))
          \<and> (\<not> dry_run \<longrightarrow> snapshot_ids (stored root t) = set (pr_kept_snapshots rep)
              \<and> (\<forall>h. hash_name h \<longrightarrow> stored root t (bkey h) \<noteq> None \<longrightarrow>
                   (\<exists>i\<in>set (pr_kept_snapshots rep). \<exists>ix. index_of L R (stored root w) i = Some ix
                      \<and> h \<in> br_hash ` set (ix_blobs ix))))))"
proof (intro conjI allI impI)
  show "is_ok r" if "local_ready (w_store w)" using local_prune(4) [OF assms(1-4)] that assms(5) by blast
  show "\<exists>ss. listing L R (stored root w) ss
          \<and> pr_kept_snapshots rep = map sn_id (kept (apply_policy L ss policy))
          \<and> pr_deleted_snapshots rep = map sn_id (pruned (apply_policy L ss policy))
          \<and> (\<not> dry_run \<longrightarrow> snapshot_ids (stored root t) = set (pr_kept_snapshots rep)
              \<and> (\<forall>h. hash_name h \<longrightarrow> stored root t (bkey h) \<noteq> None \<longrightarrow>
                   (\<exists>i\<in>set (pr_kept_snapshots rep). \<exists>ix. index_of L R (stored root w) i = Some ix
                      \<and> h \<in> br_hash ` set (ix_blobs ix))))" if "r = Inr rep" for rep
    using prune_success [OF assms(1-3) _ assms(5)] assms(4) that by blast
qed

section \<open>Backup, then prune\<close>

text \<open>The snapshots of sources a prune cannot harm: those stored without references.\<close>

definition written_index :: "foreign \<Rightarrow> 'b repository \<Rightarrow> (string \<Rightarrow> bytes option) \<Rightarrow> snapshot \<Rightarrow> bool" where
  "written_index L R v sn \<longleftrightarrow> (\<exists>written. index_of L R v (sn_id sn) = Some (build_index sn written))"

lemma store_no_blobs:
  "store_node L n bs = Inr (n', []) \<Longrightarrow> n' = n \<and> bs = []"
  "store_children L cs bs = Inr (cs', []) \<Longrightarrow> cs' = cs \<and> bs = []"
proof (induction L n bs and L cs bs arbitrary: n' and cs' rule: store_node_store_children.induct)
  case (1 L n cs bs)
  then show ?case by (auto simp: res_bind_Inr inline_or_ref_Inr)
next
  case (5 L c cs bs)
  from 5(3) obtain c1 b1 cs1 where a: "store_node L c bs = Inr (c1, b1)" and b: "store_children L cs b1 = Inr (cs1, [])"
    and c: "cs' = c1 # cs1"
    by (auto simp: res_bind_Inr)
  have b1: "cs1 = cs" "b1 = []" using 5(2) [OF b] by simp_all
  show ?case using 5(1) [OF a [unfolded b1(2)]] c b1(1) by simp
qed (auto simp: inline_or_ref_Inr)

lemma left_indexed:
  assumes L: "foreign_laws L" and left: "left_by_backup L R U sfs paths uid v v' r"
    and vis: "v' (snapshot_key uid) \<noteq> v (snapshot_key uid)" and man: "manifest L R v' uid = Some sn"
  shows "written_index L R v' sn" "\<exists>blobs. build_stored L (sources_root L (rc_chunker (rp_config R)) sfs paths) = Inr (sn_root sn, blobs)"
proof -
  have same: "w (snapshot_key uid) = u (snapshot_key uid)" if "grown L R U u w" for u w
    using that unfolding grown_def by (metis keys_disjoint(3))
  obtain u where u: "grown L R U v u" "committed L R U (sources_root L (rc_chunker (rp_config R)) sfs paths) uid u v' r"
    using left vis same [of v v'] unfolding left_by_backup_def by metis
  obtain v1 ib s written mb blobs where c: "sn_id s = uid" "open_for L R CtxDoc ib = Inr (index_json L (build_index s written))"
    "open_for L R CtxDoc mb = Inr (snapshot_json L s)" "v' = v1(index_key uid \<mapsto> ib, snapshot_key uid \<mapsto> mb)"
    "build_stored L (sources_root L (rc_chunker (rp_config R)) sfs paths) = Inr (sn_root s, blobs)"
    using u(2) vis same [OF u(1)] same [of u] unfolding committed_def by (smt (verit) fun_upd_apply keys_disjoint(2))
  have "snapshot_parse L (snapshot_json L s) = Some sn"
    using man c(3,4) by (simp add: manifest_def document_def)
  then have s: "sn = s" using snapshot_parse_json [OF L, of s] snapshot_parse_too_deep [OF L, of s]
    by (cases "node_height (sn_root s) \<le> json_depth_limit") auto
  show "written_index L R v' sn"
    using c index_parse_json [OF L] unfolding s by (auto simp: written_index_def index_of_def document_def)
  show "\<exists>blobs. build_stored L (sources_root L (rc_chunker (rp_config R)) sfs paths) = Inr (sn_root sn, blobs)"
    using c(5) s by blast
qed

text \<open>C8: A snapshot whose manifest holds its whole tree inline (no reference) survives every
  prune that leaves its manifest visible, whatever calls fail: it still stands for the
  complete source tree, with every chunk in the store.\<close>

theorem prune_keeps_inline_snapshots:
  assumes "rp_backend R = local_backend root" "local_good root (w_store w)" "foreign_laws L"
    and "manifests_ok L R (stored root w)" "prune L R fuel policy dry_run w = (r, t)"
    and "snapshot_of_sources L R (stored root w) sfs paths sn" "written_index L R (stored root w) sn"
    and "ref_free (sn_root sn)" "stored root t (snapshot_key (sn_id sn)) \<noteq> None"
  shows "snapshot_of_sources L R (stored root t) sfs paths sn"
proof -
  let ?v = "stored root w" and ?v' = "stored root t" and ?i = "sn_id sn" and ?cfg = "rc_chunker (rp_config R)"
  have s: "?i \<in> snapshot_ids ?v" "manifest L R ?v ?i = Some sn"
    "restorable L R ?v sn ''root'' (sorted_nodes L ?cfg sfs paths)"
    "\<forall>p\<in>set paths. readable (root_src sfs p) \<and> \<not> is_other (root_src sfs p)"
    "\<forall>d\<in>all_pieces L ?cfg sfs paths. contents L R ?v (blake3_hex L d) = Some d"
    using assms(6) by (auto simp: snapshot_of_sources_def)
  have whole: "sn_root sn = sources_root L ?cfg sfs paths"
    using s(3) resolves_ref_free [OF assms(8)] unfolding restorable_def sources_root_eq(2) by metis
  have chunk: "blake3_hex L d \<in> set (chunks_of (sn_root sn))" if d: "d \<in> all_pieces L ?cfg sfs paths" for d
  proof -
    obtain p where p: "p \<in> set paths" "d \<in> set (src_pieces L ?cfg (root_src sfs p))"
      using d by (auto simp: all_pieces_def)
    have "set (chunks_of (src_node L ?cfg (root_name sfs p) (root_src sfs p))) = blake3_hex L ` set (src_pieces L ?cfg (root_src sfs p))"
      using chunks_of_src_eq s(4) p(1) by blast
    then show ?thesis
      unfolding whole sources_root_eq(1) chunks_of_sort using p by (auto simp: source_nodes_def)
  qed
  obtain written where ix: "index_of L R ?v ?i = Some (build_index sn written)"
    using assms(7) by (auto simp: written_index_def)
  have id: "ident ?i" using s(1) by (simp add: snapshot_ids_def)
  have keep: "?v' (snapshot_key ?i) = ?v (snapshot_key ?i)"
    "?v' (bkey h) = ?v (bkey h)" if "h \<in> set (chunks_of (sn_root sn))" "hash_name h" for h
  proof -
    have "h \<in> br_hash ` set (ix_blobs (build_index sn written))"
      using build_index_hashes [of sn written] that(1) by auto
    then show "?v' (bkey h) = ?v (bkey h)"
      "?v' (snapshot_key ?i) = ?v (snapshot_key ?i)"
      using prune_survivors [OF assms(1,2,4,5) id assms(9)] ix that(2) by blast+
  qed
  have man: "?v' (snapshot_key ?i) = ?v (snapshot_key ?i)"
    using prune_survivors(1) [OF assms(1,2,4,5) id assms(9)] .
  have "manifest L R ?v' ?i = Some sn" using s(2) man by (simp add: manifest_def document_def)
  moreover have "restorable L R ?v' sn ''root'' (sorted_nodes L ?cfg sfs paths)"
    using s(3) unfolding restorable_def resolves_ref_free [OF assms(8)] .
  moreover have "contents L R ?v' (blake3_hex L d) = Some d" if "d \<in> all_pieces L ?cfg sfs paths" for d
  proof -
    have "?v' (bkey (blake3_hex L d)) = ?v (bkey (blake3_hex L d))" using keep(2) [OF chunk [OF that]] assms(3) by simp
    then show ?thesis using s(5) that by (simp add: contents_def)
  qed
  ultimately show ?thesis
    using s(1,4) man by (simp add: snapshot_of_sources_def snapshot_ids_def)
qed

text \<open>The blobs a manifest names itself: its chunks and its references.\<close>

definition named_blobs :: "snapshot \<Rightarrow> string set" where
  "named_blobs sn = set (chunks_of (sn_root sn)) \<union> set (refs_of (sn_root sn))"

lemma written_index_names:
  assumes "manifests_ok L R v" "i \<in> snapshot_ids v" "written_index L R v (the (manifest L R v i))"
  obtains ix where "index_of L R v i = Some ix" "br_hash ` set (ix_blobs ix) = named_blobs (the (manifest L R v i))"
proof -
  have "sn_id (the (manifest L R v i)) = i" using assms(1,2) by (force simp: manifests_ok_def)
  then obtain written where "index_of L R v i = Some (build_index (the (manifest L R v i)) written)"
    using assms(3) by (auto simp: written_index_def)
  then show ?thesis using that build_index_hashes [of "the (manifest L R v i)" written] by (simp add: named_blobs_def)
qed

text \<open>C6: What is garbage after a prune is exactly what no kept manifest names itself: when
  every snapshot has the index its backup wrote, a successful prune leaves the kept
  snapshots, and a blob is as it was if the tree held inline in a kept manifest names it
  as a chunk or a reference, and gone otherwise. So the blobs of a dropped snapshot are
  collected; but so are the chunks of a directory that a kept manifest holds by reference,
  which the comment on \<open>build_index\<close> (the complete blob reference set) does not intend.\<close>

theorem prune_drops_unlisted:
  assumes "rp_backend R = local_backend root" "local_good root (w_store w)"
    and "manifests_ok L R (stored root w)" "prune L R fuel policy False w = (Inr rep, t)"
    and "\<forall>i\<in>snapshot_ids (stored root w). written_index L R (stored root w) (the (manifest L R (stored root w) i))"
  shows "snapshot_ids (stored root t) = set (pr_kept_snapshots rep)
     \<and> (\<forall>h. hash_name h \<longrightarrow> stored root t (bkey h) =
          (if \<exists>i\<in>set (pr_kept_snapshots rep). h \<in> named_blobs (the (manifest L R (stored root w) i))
           then stored root w (bkey h) else None))"
proof -
  let ?v = "stored root w" and ?v' = "stored root t"
  have ix: "\<exists>ix. index_of L R ?v i = Some ix \<and> br_hash ` set (ix_blobs ix) = named_blobs (the (manifest L R ?v i))"
    if "i \<in> snapshot_ids ?v" for i
    by (rule written_index_names [OF assms(3) that assms(5) [rule_format, OF that]]) (intro exI conjI)
  have all: "\<forall>i\<in>snapshot_ids ?v. index_of L R ?v i \<noteq> None" using ix by force
  obtain ss where p: "set (pr_kept_snapshots rep) \<subseteq> snapshot_ids ?v" "snapshot_ids ?v' = set (pr_kept_snapshots rep)"
    "\<forall>h. hash_name h \<longrightarrow> ?v' (bkey h) \<noteq> None \<longrightarrow>
      (\<exists>i\<in>set (pr_kept_snapshots rep). \<exists>ix. index_of L R ?v i = Some ix \<and> h \<in> br_hash ` set (ix_blobs ix))"
    using prune_success [OF assms(1-4) all] unfolding simp_thms by (elim exE conjE) (rule that)
  note sub = p(1) and ids = p(2) and left = p(3) [rule_format]
  have "?v' (bkey h) = (if \<exists>i\<in>set (pr_kept_snapshots rep). h \<in> named_blobs (the (manifest L R ?v i)) then ?v (bkey h) else None)"
    if h: "hash_name h" for h
  proof (cases "\<exists>i\<in>set (pr_kept_snapshots rep). h \<in> named_blobs (the (manifest L R ?v i))")
    case True
    then obtain i where i: "i \<in> set (pr_kept_snapshots rep)" "h \<in> named_blobs (the (manifest L R ?v i))" by blast
    have "ident i" "?v' (snapshot_key i) \<noteq> None" using i(1) ids by (auto simp: snapshot_ids_def)
    note kept = prune_survivors(2) [OF assms(1-4) this]
    obtain b where "index_of L R ?v i = Some b" "h \<in> br_hash ` set (ix_blobs b)" using ix i sub by blast
    then show ?thesis using kept h True by simp
  next
    case False
    have "?v' (bkey h) = None"
    proof (rule ccontr)
      assume "?v' (bkey h) \<noteq> None"
      then obtain i b where i: "i \<in> set (pr_kept_snapshots rep)" "index_of L R ?v i = Some b" "h \<in> br_hash ` set (ix_blobs b)"
        using left h by blast
      have "i \<in> snapshot_ids ?v" using i(1) sub by blast
      then show False using ix i False by force
    qed
    then show ?thesis using False by simp
  qed
  then show ?thesis using ids by blast
qed

end
