(* ===== verification/Sample_Stores.thy ===== *)
theory Sample_Stores
  imports Local_Prune
begin

text \<open>
  Concrete local repositories, made by writing objects through the backend: the states at
  which the theorems on stored repositories are instantiated.
\<close>

section \<open>Writing objects\<close>

definition put_all :: "'b repository \<Rightarrow> (string \<times> bytes) list \<Rightarrow> ('b world, unit) io" where
  "put_all R = for_io (\<lambda>(k, d). put_obj R k d)"

definition after_puts :: "(string \<times> bytes) list \<Rightarrow> (string \<Rightarrow> bytes option) \<Rightarrow> string \<Rightarrow> bytes option" where
  "after_puts xs v = fold (\<lambda>(k, d) v. v(k \<mapsto> d)) xs v"

lemma put_all_view:
  assumes "rp_backend R = local_backend root" "local_good root (w_store w)" "local_ready (w_store w)"
    and "\<forall>(k, d)\<in>set xs. repo_key k"
  shows "\<exists>t. put_all R xs w = (Inr (), t) \<and> local_good root (w_store t) \<and> local_ready (w_store t)
     \<and> quiet w t \<and> stored root t = after_puts xs (stored root w)"
  using assms
proof (induction xs arbitrary: w)
  case Nil
  then show ?case by (simp add: put_all_def after_puts_def run_simps)
next
  case (Cons x xs)
  obtain k d where x: "x = (k, d)" "repo_key k" using Cons.prems(4) by (cases x) auto
  obtain r u where put: "put_obj R k d w = (r, u)" by fastforce
  note p = la.wp_put_atomic [OF Cons.prems(1,2) x(2), THEN wp_run, OF put]
  then have "is_ok r" using Cons.prems(3) by blast
  then have r: "r = Inr ()" by (cases r) auto
  have u: "local_good root (w_store u)" "local_ready (w_store u)" "quiet w u" "stored root u = (stored root w)(k \<mapsto> d)"
    using p Cons.prems(3) unfolding r by auto
  obtain t where "put_all R xs u = (Inr (), t)" "local_good root (w_store t)" "local_ready (w_store t)"
    "quiet u t" "stored root t = after_puts xs (stored root u)"
    using Cons.IH [OF Cons.prems(1) u(1,2)] Cons.prems(4) by auto
  then show ?case
    using put r u quiet_trans [OF u(3)] by (auto simp: put_all_def after_puts_def x(1) run_simps)
qed

lemma decode_encode: "foreign_laws L \<Longrightarrow> decode L (encode L p) = Inr p"
proof -
  assume L: "foreign_laws L"
  obtain f z where z: "compress_payload L p = (f, z)" by fastforce
  show ?thesis
    using compress_valid [OF z] decompress_compress [OF L z] by (simp add: decode_def encode_def z unwrap_wrap)
qed

lemma open_sample [simp]: "open_for ref_lib sample_repo ctx (encode ref_lib d) = Inr d"
  by (simp add: open_for_def sample_repo_def decode_encode ref_lib_laws)

section \<open>A snapshot held by reference\<close>

definition big_node :: node where
  "big_node = Dir ''root'' [File ''a'' 2 None None [blake3_hex ref_lib [1], blake3_hex ref_lib [2]]]"

definition big_snapshot :: snapshot where
  "big_snapshot = \<lparr> sn_id = ''s1'', sn_time = ''1'', sn_hostname = ''h'', sn_paths = [''/data''],
     sn_root = Ref ''root'' (hash_hex ref_lib big_node), sn_stats = zero_stats \<rparr>"

lemma big_snapshot_simps [simp]:
  "sn_id big_snapshot = ''s1''" "sn_root big_snapshot = Ref ''root'' (hash_hex ref_lib big_node)"
  by (simp_all add: big_snapshot_def)

definition ref_objects :: "(string \<times> bytes) list" where
  "ref_objects =
     [(bkey (blake3_hex ref_lib [1]), encode ref_lib [1]), (bkey (blake3_hex ref_lib [2]), encode ref_lib [2]),
      (bkey (hash_hex ref_lib big_node), encode ref_lib (serialized ref_lib big_node)),
      (index_key ''s1'', encode ref_lib (index_json ref_lib (build_index big_snapshot Map.empty))),
      (snapshot_key ''s1'', encode ref_lib (snapshot_json ref_lib big_snapshot))]"

definition ref_view :: "string \<Rightarrow> bytes option" where
  "ref_view = after_puts ref_objects Map.empty"

lemma hash_names [simp]: "hash_name (blake3_hex ref_lib d)" "hash_name (hash_hex ref_lib n)"
  by (simp_all add: ref_lib_laws hash_hex_def)

lemma ident_s1 [simp]: "ident ''s1''"
  by (simp add: ident_def ident_char_def)

lemma ref_store:
  "\<exists>w. local_good [''repo''] (w_store w) \<and> local_ready (w_store w) \<and> quiet sample_world w \<and> stored [''repo''] w = ref_view"
proof -
  have e: "stored [''repo''] sample_world = Map.empty" using sample_local(3) by (rule ext)
  have "\<forall>(k, d)\<in>set ref_objects. repo_key k"
    by (simp add: ref_objects_def repo_key_index repo_key_snapshot)
  then show ?thesis
    using put_all_view [OF sample_repo_simps(1) sample_local(1,2)] unfolding ref_view_def e by metis
qed

lemma ref_view_docs:
  "ref_view (index_key ''s1'') = Some (encode ref_lib (index_json ref_lib (build_index big_snapshot Map.empty)))"
  "ref_view (snapshot_key ''s1'') = Some (encode ref_lib (snapshot_json ref_lib big_snapshot))"
  by (simp_all add: ref_view_def after_puts_def ref_objects_def)

lemma ref_documents:
  "manifest ref_lib sample_repo ref_view ''s1'' = Some big_snapshot"
  "index_of ref_lib sample_repo ref_view ''s1'' = Some (build_index big_snapshot Map.empty)"
  by (simp_all add: manifest_def index_of_def document_def ref_view_docs index_parse_json [OF ref_lib_laws]
      snapshot_parse_json [OF ref_lib_laws] ref_snapshot_def)

lemma big_snapshot_ids: "snapshot_ids ref_view = {''s1''}"
proof -
  have "ref_view (snapshot_key i) = (if i = ''s1'' then Some (encode ref_lib (snapshot_json ref_lib big_snapshot)) else None)" for i
    unfolding ref_view_def after_puts_def ref_objects_def fold_simps prod.case comp_def id_apply fun_upd_apply
      snapshot_key_inj by (simp only: keys_disjoint if_False)
  then show ?thesis by (auto simp: snapshot_ids_def)
qed

lemma ref_manifests: "manifests_ok ref_lib sample_repo ref_view"
  by (simp add: manifests_ok_def big_snapshot_ids ref_documents)

lemma ref_written: "written_index ref_lib sample_repo ref_view big_snapshot"
  using ref_documents(2) by (auto simp: written_index_def ref_snapshot_def)

lemma ref_hash_one: "blake3_hex ref_lib [1] \<noteq> blake3_hex ref_lib [2]"
proof -
  have b: "blake3_hex ref_lib = ref_hash" by (simp add: ref_lib_def)
  have h: "blake3_hex ref_lib d ! 0 = hex_digit (poly d)" for d
    unfolding b ref_hash_def by (subst nth_map) (simp_all del: upt_rec_numeral)
  have p: "poly [1] = 2" "poly [2] = 3" by (simp_all add: poly_def)
  have "hex_digit 2 \<noteq> hex_digit 3" by (simp add: hex_digit_def)
  then have "blake3_hex ref_lib [1] ! 0 \<noteq> blake3_hex ref_lib [2] ! 0"
    unfolding h p .
  then show ?thesis by metis
qed

lemma ref_chunk: "d \<in> {[1], [2]} \<Longrightarrow> blake3_hex ref_lib d \<noteq> hash_hex ref_lib big_node
    \<Longrightarrow> contents ref_lib sample_repo ref_view (blake3_hex ref_lib d) = Some d"
  using ref_hash_one open_sample [of "CtxHash (blake3_hex ref_lib d)"]
  by (auto simp: contents_def ref_view_def after_puts_def ref_objects_def bkey_inj decode_hash_ctx_open)

text \<open>The state of the store, and the one manifest a policy decides on.\<close>

lemma sample_prune:
  assumes w: "local_good [''repo''] (w_store w)" "local_ready (w_store w)" "stored [''repo''] w = ref_view"
  shows "\<exists>rep t. prune ref_lib sample_repo fuel policy dry_run w = (Inr rep, t) \<and> pr_kept_snapshots rep = [''s1'']"
proof -
  obtain r t where run: "prune ref_lib sample_repo fuel policy dry_run w = (r, t)" by fastforce
  have m: "manifests_ok ref_lib sample_repo (stored [''repo''] w)" using ref_manifests by (simp add: w(3))
  have ix: "\<forall>i\<in>snapshot_ids (stored [''repo''] w). index_of ref_lib sample_repo (stored [''repo''] w) i \<noteq> None"
    by (simp add: w(3) big_snapshot_ids ref_documents)
  have "is_ok r" using local_prune(4) [OF sample_repo_simps(1) w(1) m run] w(2) ix by blast
  then obtain rep where r: "r = Inr rep" by (auto simp: is_ok_iff)
  obtain ss where ss: "listing ref_lib sample_repo (stored [''repo''] w) ss"
    "pr_kept_snapshots rep = map sn_id (kept (apply_policy ref_lib ss policy))"
    using prune_success [OF sample_repo_simps(1) w(1) m run [unfolded r] ix] by blast
  have ids: "distinct (map sn_id ss)" "set (map sn_id ss) = {''s1''}" "\<forall>s\<in>set ss. manifest ref_lib sample_repo ref_view (sn_id s) = Some s"
    using ss(1) unfolding listing_def w(3) big_snapshot_ids by auto
  have "length (map sn_id ss) = card {''s1''}" using distinct_card [OF ids(1)] ids(2) by simp
  then obtain s where one: "ss = [s]" by (auto simp: length_Suc_conv)
  then have "s = big_snapshot" using ids by (simp add: ref_documents)
  moreover have "take 1 (kept (apply_policy ref_lib ss policy)) = take 1 (sort_desc (age_key ref_lib) ss)"
    by (rule kept_starts_with_newest) (simp_all add: one)
  moreover have "length (kept (apply_policy ref_lib ss policy)) \<le> 1"
    using arg_cong [OF decision_mset [of ref_lib ss policy], of size] by (simp add: one)
  ultimately have "kept (apply_policy ref_lib ss policy) = [big_snapshot]"
    by (cases "kept (apply_policy ref_lib ss policy)") (auto simp: one sort_desc_def)
  then show ?thesis using run r ss(2) by simp
qed

text \<open>The sample sources are stored inline.\<close>

lemma sample_stored_root:
  assumes left: "left_by_backup ref_lib sample_repo U sample_sources [''/data''] uid v v' r"
    and vis: "v' (snapshot_key uid) \<noteq> v (snapshot_key uid)" and man: "manifest ref_lib sample_repo v' uid = Some sn"
  shows "ref_free (sn_root sn)"
proof -
  let ?root = "sources_root ref_lib default_chunker sample_sources [''/data'']"
  have "build_stored ref_lib ?root = Inr (sn_root sn, blobs) \<Longrightarrow> sn_root sn = ?root" for blobs
  proof -
    assume b: "build_stored ref_lib ?root = Inr (sn_root sn, blobs)"
    then have "blobs = []" by (rule sample_blobs)
    with b show "sn_root sn = ?root" using store_no_blobs(1) unfolding build_stored_def by blast
  qed
  moreover have "\<exists>blobs. build_stored ref_lib ?root = Inr (sn_root sn, blobs)"
    using left_indexed(2) [OF ref_lib_laws left vis man] by simp
  moreover have "ref_free ?root" by (simp add: sample_root)
  ultimately show ?thesis by auto
qed

text \<open>After a prune the referenced node is still there, and its chunks are gone.\<close>

lemma pruned_sample:
  assumes w: "local_good [''repo''] (w_store w)" "local_ready (w_store w)" "stored [''repo''] w = ref_view"
    and run: "prune ref_lib sample_repo fuel policy False w = (Inr rep, t)"
  shows "local_good [''repo''] (w_store t)" "local_ready (w_store t)"
    "contents ref_lib sample_repo (stored [''repo''] t) (hash_hex ref_lib big_node) = Some (serialized ref_lib big_node)"
    "hash_name h \<Longrightarrow> h \<noteq> hash_hex ref_lib big_node \<Longrightarrow> contents ref_lib sample_repo (stored [''repo''] t) h = None"
proof -
  let ?v = "stored [''repo''] w" and ?v' = "stored [''repo''] t" and ?n = "hash_hex ref_lib big_node"
  note R = sample_repo_simps(1)
  have m: "manifests_ok ref_lib sample_repo ?v" using ref_manifests by (simp add: w(3))
  have ix: "\<forall>i\<in>snapshot_ids ?v. index_of ref_lib sample_repo ?v i \<noteq> None"
    by (simp add: w(3) big_snapshot_ids ref_documents)
  note p = local_prune [OF R w(1) m run]
  show "local_good [''repo''] (w_store t)" by (rule p(1))
  show "local_ready (w_store t)" using p(4) w(2) by blast
  have lst: "br_hash ` set (ix_blobs (build_index big_snapshot Map.empty)) = {?n}"
    using build_index_hashes [of big_snapshot Map.empty] by simp
  show "contents ref_lib sample_repo ?v' h = None" if "hash_name h" "h \<noteq> ?n" for h
  proof -
    have "?v' (bkey h) = None"
      using prune_left [OF R w(1) m run ix that(1)] lst that(2) by (auto simp: w(3) big_snapshot_ids ref_documents)
    then show ?thesis by (simp add: contents_def)
  qed
  have "snapshot_ids ?v' = {''s1''}"
  proof -
    obtain rep' t' where "prune ref_lib sample_repo fuel policy False w = (Inr rep', t')" "pr_kept_snapshots rep' = [''s1'']"
      using sample_prune [OF w] by blast
    then have "pr_kept_snapshots rep = [''s1'']" using run by simp
    then show ?thesis using prune_success [OF R w(1) m run ix] by auto
  qed
  then have vis: "?v' (snapshot_key ''s1'') \<noteq> None" by (auto simp: snapshot_ids_def)
  have mem: "?n \<in> br_hash ` set (ix_blobs (build_index big_snapshot Map.empty))" using lst by simp
  have ixs: "index_of ref_lib sample_repo ?v ''s1'' = Some (build_index big_snapshot Map.empty)"
    by (simp add: w(3) ref_documents)
  have "?v' (bkey ?n) = ?v (bkey ?n)"
    by (rule prune_survivors(2) [OF R w(1) m run ident_s1 vis ixs mem]) simp
  moreover have "?v (bkey ?n) = Some (encode ref_lib (serialized ref_lib big_node))"
    by (simp add: w(3) ref_view_def after_puts_def ref_objects_def)
  ultimately show "contents ref_lib sample_repo ?v' ?n = Some (serialized ref_lib big_node)"
    by (simp add: contents_def decode_hash_ctx_open)
qed

lemma big_node_stored:
  "node_parse ref_lib (serialized ref_lib big_node) = Some big_node" "validate big_node = Inr ()"
  "blake3_hex ref_lib (serialized ref_lib big_node) = hash_hex ref_lib big_node"
proof -
  have "node_height big_node \<le> json_depth_limit" by (simp add: big_node_def json_depth_limit_def)
  then show "node_parse ref_lib (serialized ref_lib big_node) = Some big_node"
    by (simp add: serialized_def node_parse_json [OF ref_lib_laws])
  show "validate big_node = Inr ()" by (simp add: big_node_def res_bind_Inr safe_name_def)
  show "blake3_hex ref_lib (serialized ref_lib big_node) = hash_hex ref_lib big_node" by (simp add: hash_hex_def)
qed

section \<open>Witnesses\<close>

theorem prune_drops_unlisted_witness:
  "\<exists>w rep t d. stored [''repo''] w = ref_view \<and> prune ref_lib sample_repo 0 default_policy False w = (Inr rep, t)
     \<and> pr_kept_snapshots rep = [''s1'']
     \<and> contents ref_lib sample_repo (stored [''repo''] w) (blake3_hex ref_lib d) = Some d
     \<and> contents ref_lib sample_repo (stored [''repo''] t) (blake3_hex ref_lib d) = None"
proof -
  obtain w where w: "local_good [''repo''] (w_store w)" "local_ready (w_store w)" "stored [''repo''] w = ref_view"
    using ref_store by blast
  obtain rep t where run: "prune ref_lib sample_repo 0 default_policy False w = (Inr rep, t)" "pr_kept_snapshots rep = [''s1'']"
    using sample_prune [OF w] by blast
  obtain d :: bytes where d: "d \<in> {[1], [2]}" "blake3_hex ref_lib d \<noteq> hash_hex ref_lib big_node"
    using ref_hash_one by (metis insertCI)
  have m: "manifests_ok ref_lib sample_repo (stored [''repo''] w)" using ref_manifests by (simp add: w(3))
  have "named_blobs (the (manifest ref_lib sample_repo (stored [''repo''] w) ''s1'')) = {hash_hex ref_lib big_node}"
    by (simp add: w(3) ref_documents named_blobs_def)
  then have "stored [''repo''] t (bkey (blake3_hex ref_lib d)) = None"
    using prune_drops_unlisted [OF sample_repo_simps(1) w(1) m run(1)] run(2) d(2)
    by (simp add: w(3) big_snapshot_ids ref_documents ref_written)
  then have "contents ref_lib sample_repo (stored [''repo''] t) (blake3_hex ref_lib d) = None" by (simp add: contents_def)
  then show ?thesis using w(3) run ref_chunk [OF d] by metis
qed

theorem prune_interruptible_witness:
  "\<exists>w r t. stored [''repo''] w = ref_view \<and> prune ref_lib sample_repo 0 default_policy True w = (r, t)
     \<and> stored [''repo''] t = ref_view"
proof -
  obtain w where w: "local_good [''repo''] (w_store w)" "stored [''repo''] w = ref_view" using ref_store by blast
  obtain r t where run: "prune ref_lib sample_repo 0 default_policy True w = (r, t)" by fastforce
  have m: "manifests_ok ref_lib sample_repo (stored [''repo''] w)" using ref_manifests by (simp add: w(2))
  show ?thesis using prune_interruptible [OF sample_repo_simps(1) w(1) m run] run w(2) by auto
qed

theorem prune_reports_truly_witness:
  "\<exists>w rep t. stored [''repo''] w = ref_view \<and> prune ref_lib sample_repo 0 default_policy False w = (Inr rep, t)
     \<and> snapshot_ids (stored [''repo''] t) = {''s1''}"
proof -
  obtain w where w: "local_good [''repo''] (w_store w)" "local_ready (w_store w)" "stored [''repo''] w = ref_view"
    using ref_store by blast
  obtain rep t where run: "prune ref_lib sample_repo 0 default_policy False w = (Inr rep, t)" "pr_kept_snapshots rep = [''s1'']"
    using sample_prune [OF w] by blast
  have m: "manifests_ok ref_lib sample_repo (stored [''repo''] w)" using ref_manifests by (simp add: w(3))
  have ix: "\<forall>i\<in>snapshot_ids (stored [''repo''] w). index_of ref_lib sample_repo (stored [''repo''] w) i \<noteq> None"
    by (simp add: w(3) big_snapshot_ids ref_documents)
  have "snapshot_ids (stored [''repo''] t) = set (pr_kept_snapshots rep)"
    using prune_reports_truly [OF sample_repo_simps(1) w(1) m run(1) ix] by blast
  then show ?thesis using w(3) run by auto
qed

theorem prune_keeps_inline_snapshots_witness:
  "\<exists>sn w r t. backup ref_lib sample_repo sample_sources [''/data''] sample_world = (Inr sn, w)
     \<and> prune ref_lib sample_repo 0 default_policy True w = (r, t)
     \<and> snapshot_of_sources ref_lib sample_repo (stored [''repo''] t) sample_sources [''/data''] sn"
proof -
  obtain sn w where b: "backup ref_lib sample_repo sample_sources [''/data''] sample_world = (Inr sn, w)"
    "sn_id sn = ''s1''" "manifests_ok ref_lib sample_repo (stored [''repo''] w)" "snapshot_ids (stored [''repo''] w) = {''s1''}"
    using sample_backup by blast
  let ?v = "stored [''repo''] w"
  note R = sample_repo_simps(1)
  note left = lb.backup_leaves [OF R sample_local(1) sample_setting b(1), unfolded sample_uuid]
  have vis: "?v (snapshot_key ''s1'') \<noteq> None" using b(4) by (auto simp: snapshot_ids_def)
  have s: "snapshot_of_sources ref_lib sample_repo ?v sample_sources [''/data''] sn"
    using lb.backup_visible [OF R sample_local(1) sample_setting b(1)] vis by (auto simp: sample_uuid)
  have man: "manifest ref_lib sample_repo ?v ''s1'' = Some sn" using s b(2) by (simp add: snapshot_of_sources_def)
  have vis': "?v (snapshot_key ''s1'') \<noteq> stored [''repo''] sample_world (snapshot_key ''s1'')"
    using vis sample_local(3) by simp
  have ix: "written_index ref_lib sample_repo ?v sn"
    using left_indexed(1) [OF ref_lib_laws left(2) vis' man] .
  have rf: "ref_free (sn_root sn)"
    using sample_stored_root [OF left(2) vis' man] .
  obtain r t where run: "prune ref_lib sample_repo 0 default_policy True w = (r, t)" by fastforce
  have "stored [''repo''] t = ?v" using local_prune(2) [OF R left(1) b(3) run] by simp
  then have "stored [''repo''] t (snapshot_key (sn_id sn)) \<noteq> None" using vis b(2) by simp
  then have "snapshot_of_sources ref_lib sample_repo (stored [''repo''] t) sample_sources [''/data''] sn"
    by (rule prune_keeps_inline_snapshots [OF R left(1) ref_lib_laws b(3) run s ix rf])
  then show ?thesis using b(1) run by blast
qed

end
