(* ===== verification/Local_Keys.thy ===== *)
theory Local_Keys
  imports Sample_Stores
begin

text \<open>
  Passphrases of a local repository: creating, opening, adding and revoking key slots.
\<close>

section \<open>The entry points for a local path\<close>

definition init_local :: "foreign \<Rightarrow> path \<Rightarrow> chunker_config \<Rightarrow> string \<Rightarrow> (local_state world, local_state repository) io" where
  "init_local L path chunker passphrase = init L (local_backend path) chunker passphrase"

definition init_local_with_kdf ::
  "foreign \<Rightarrow> path \<Rightarrow> chunker_config \<Rightarrow> string \<Rightarrow> kdf_params \<Rightarrow> (local_state world, local_state repository) io" where
  "init_local_with_kdf L path chunker passphrase kdf = init_with_kdf L (local_backend path) chunker passphrase kdf"

definition open_local :: "foreign \<Rightarrow> path \<Rightarrow> string \<Rightarrow> (local_state world, local_state repository) io" where
  "open_local L path passphrase = open_repo L (local_backend path) passphrase"

definition key_add :: "foreign \<Rightarrow> path \<Rightarrow> nat \<Rightarrow> string \<Rightarrow> string \<Rightarrow> (local_state world, string) io" where
  "key_add L path fuel current_passphrase new_passphrase =
     key_add_backend L (local_backend path) fuel current_passphrase new_passphrase"

section \<open>Create, then open\<close>

lemma local_init:
  assumes "local_good root (w_store w)" "foreign_laws L"
    and "init_with_kdf L (local_backend root) chunker p kdf w = (r, t)"
  shows "local_good root (w_store t)"
    "created_part (stored root w) (stored root t)
      \<or> stored root w ''config'' = None \<and> (\<exists>R. created L (local_backend root) chunker p (stored root w) (stored root t) R)"
    "r = Inr R \<Longrightarrow> stored root w ''config'' = None \<and> chunker_validate chunker = Inr ()
      \<and> created L (local_backend root) chunker p (stored root w) (stored root t) R"
    "local_ready (w_store w) \<Longrightarrow> local_ready (w_store t)
      \<and> (wrappable L \<and> stored root w ''config'' = None \<and> chunker_validate chunker = Inr () \<longrightarrow> is_ok r)"
proof -
  note p = la.wp_init [OF assms(2,1), THEN wp_run, OF assms(3)]
  show "local_good root (w_store t)" by (rule p [THEN conjunct1])
  show "created_part (stored root w) (stored root t)
      \<or> stored root w ''config'' = None \<and> (\<exists>R. created L (local_backend root) chunker p (stored root w) (stored root t) R)"
    by (rule p [THEN conjunct2, THEN conjunct1])
  show "stored root w ''config'' = None \<and> chunker_validate chunker = Inr ()
      \<and> created L (local_backend root) chunker p (stored root w) (stored root t) R" if "r = Inr R"
    using p [THEN conjunct2, THEN conjunct2, THEN conjunct1] that by blast
  show "local_ready (w_store t)
      \<and> (wrappable L \<and> stored root w ''config'' = None \<and> chunker_validate chunker = Inr () \<longrightarrow> is_ok r)" if "local_ready (w_store w)"
    using p [THEN conjunct2, THEN conjunct2, THEN conjunct2] that by blast
qed

lemma created_config:
  "created L B chunker p v v' R \<Longrightarrow> foreign_laws L \<Longrightarrow> stored_config L v' = Some (rp_config R) \<and> config_ok L v'"
  by (auto simp: created_def config_ok_def)

text \<open>C10: A repository that was created opens again with its passphrase, as the same
  repository: same configuration, same master key. Creation never touches an existing
  repository, and whatever calls fail it leaves either what was there, a lone key file
  without configuration, or the complete repository; without faults, with valid chunker
  parameters and nothing there yet, it succeeds.\<close>

theorem init_then_open:
  assumes "local_good root (w_store w)" "foreign_laws L"
    and "init_local_with_kdf L root chunker p kdf w = (r, t)"
  shows "(stored root w ''config'' \<noteq> None \<longrightarrow> stored root t = stored root w \<and> \<not> is_ok r)
     \<and> (stored root t = stored root w
        \<or> (\<exists>raw. stored root t = (stored root w)(key_key ''default'' \<mapsto> raw))
        \<or> (\<exists>R. created L (local_backend root) chunker p (stored root w) (stored root t) R))
     \<and> (\<forall>R. r = Inr R \<longrightarrow> local_ready (w_store w) \<longrightarrow>
          fst (open_local L root p t) = Inr R)
     \<and> (local_ready (w_store w) \<longrightarrow> wrappable L \<longrightarrow> stored root w ''config'' = None
          \<longrightarrow> chunker_validate chunker = Inr () \<longrightarrow> is_ok r)"
proof (intro conjI allI impI)
  note i = local_init [OF assms(1,2) assms(3) [unfolded init_local_with_kdf_def]]
  show "is_ok r" if "local_ready (w_store w)" "wrappable L" "stored root w ''config'' = None" "chunker_validate chunker = Inr ()"
    using i(4) [OF that(1)] that(2-4) by blast
  show "stored root t = stored root w" "\<not> is_ok r" if "stored root w ''config'' \<noteq> None"
    using i(2,3) that by (auto simp: created_part_def is_ok_iff)
  show "stored root t = stored root w \<or> (\<exists>raw. stored root t = (stored root w)(key_key ''default'' \<mapsto> raw))
        \<or> (\<exists>R. created L (local_backend root) chunker p (stored root w) (stored root t) R)"
    using i(2) by (auto simp: created_part_def)
  fix R
  assume r: "r = Inr R" and rd: "local_ready (w_store w)"
  have c: "created L (local_backend root) chunker p (stored root w) (stored root t) R" using i(3) [OF r] by blast
  obtain q y where run: "open_repo L (local_backend root) p t = (q, y)" by fastforce
  note o = la.wp_open_repo [OF i(1) created_config [OF c assms(2), THEN conjunct2], THEN wp_run, OF run]
  obtain cr where cr: "rp_crypto R = Some cr" "opens L (stored root t) ''default'' p = Some cr"
    using c by (auto simp: created_def)
  have f: "rc_version (rp_config R) = FORMAT_VERSION" "rc_encrypted (rp_config R)" "rc_key_slot (rp_config R) = ''default''"
    "rp_backend R = local_backend root" using c by (auto simp: created_def)
  have "q = Inr \<lparr> rp_backend = local_backend root, rp_config = rp_config R, rp_crypto = Some cr \<rparr>"
    using o [THEN conjunct2, THEN conjunct2] i(4) [OF rd, THEN conjunct1] created_config [OF c assms(2)] f cr(2) by simp
  then show "fst (open_local L root p t) = Inr R"
    using run f(4) cr(1) by (simp add: open_local_def)
qed

section \<open>Rotation\<close>

text \<open>C11: Adding a passphrase requires one that opens the repository and changes nothing but
  one key file that did not exist before; from then on the new passphrase opens the new
  slot with the very master key the old one yields, and every passphrase that opened a slot
  still opens it. An addition that fails leaves the store as it was or has added the
  complete slot. Without faults it succeeds once the fuel reaches a free slot number.\<close>

theorem key_add_rotates:
  assumes "local_good root (w_store w)" "foreign_laws L" "config_ok L (stored root w)"
    and "key_add L root fuel old new w = (r, t)"
  shows "(stored root t = stored root w \<or> (\<exists>slot. key_added L (stored root w) (stored root t) old new slot))
     \<and> (\<forall>slot. r = Inr slot \<longrightarrow> key_added L (stored root w) (stored root t) old new slot)
     \<and> (\<forall>s p c. opens L (stored root w) s p = Some c \<longrightarrow> opens L (stored root t) s p = Some c)
     \<and> stored root t ''config'' = stored root w ''config''
     \<and> (local_ready (w_store w) \<and> wrappable L \<and> slots_named L (stored root w) \<and> openable L (stored root w) old
          \<and> stored_config L (stored root w) \<noteq> None
          \<and> (\<exists>m. 1 \<le> m \<and> m < 1 + fuel \<and> stored root w (key_key (''key'' @ show_nat m)) = None) \<longrightarrow> is_ok r)"
proof -
  note p = la.wp_key_add [OF assms(2,1,3), THEN wp_run, OF assms(4) [unfolded key_add_def]]
  have c: "stored root t = stored root w \<or> (\<exists>slot. key_added L (stored root w) (stored root t) old new slot)"
    by (rule p [THEN conjunct2, THEN conjunct1])
  then have "opens L (stored root t) s p = Some c" if "opens L (stored root w) s p = Some c" for s p c
    using that key_added_others by metis
  moreover have "stored root t ''config'' = stored root w ''config''"
    using c by (auto simp: key_added_def)
  moreover note p [THEN conjunct2, THEN conjunct2, THEN conjunct1] p [THEN conjunct2, THEN conjunct2, THEN conjunct2]
  ultimately show ?thesis using c by (intro conjI) blast+
qed

text \<open>C12: Revoking a slot requires a passphrase that opens the repository and a second slot.
  Whatever calls fail, only that slot's key file and the configuration's pointer change, so
  every passphrase opens every other slot exactly as before; after success the slot is gone
  and the configuration names a slot that exists if it did before.\<close>

theorem key_remove_safe:
  assumes "local_good root (w_store w)" "foreign_laws L" "config_ok L (stored root w)"
    and "key_remove_backend L (local_backend root) slot p w = (r, t)"
  shows "(\<forall>k. k \<noteq> key_key slot \<longrightarrow> k \<noteq> ''config'' \<longrightarrow> stored root t k = stored root w k)
     \<and> (\<forall>s q. s \<noteq> slot \<longrightarrow> opens L (stored root t) s q = opens L (stored root w) s q)
     \<and> (stored root t \<noteq> stored root w \<longrightarrow> openable L (stored root w) p \<and> (\<exists>other\<in>slots_in (stored root t). other \<noteq> slot))
     \<and> (is_ok r \<longrightarrow> stored root t (key_key slot) = None
          \<and> (\<forall>cfg. stored_config L (stored root t) = Some cfg \<longrightarrow> rc_key_slot cfg \<noteq> slot
               \<and> (stored root w (key_key (rc_key_slot (the (stored_config L (stored root w))))) \<noteq> None \<longrightarrow>
                    stored root t (key_key (rc_key_slot cfg)) \<noteq> None)))"
proof -
  let ?v = "stored root w" and ?v' = "stored root t"
  note k = la.wp_key_remove [OF assms(1,3), THEN wp_run, OF assms(4), THEN conjunct2, THEN conjunct1]
  show ?thesis
  proof (cases "?v' = ?v \<and> \<not> is_ok r")
    case True
    then show ?thesis by simp
  next
    case False
    then have op: "openable L ?v p" and rem: "key_removed L ?v ?v' slot (is_ok r)"
      using k by (auto simp: openable_def)
    obtain other where o: "other \<in> slots_in ?v" "other \<noteq> slot" using rem by (auto simp: key_removed_def)
    have keys: "?v' k = ?v k" if "k \<noteq> key_key slot" "k \<noteq> ''config''" for k
      using rem that by (auto simp: key_removed_def)
    have "other \<in> slots_in ?v'" using o keys [of "key_key other"] by (simp add: slots_in_def)
    moreover have "?v' (key_key slot) = None" using rem by (auto simp: key_removed_def)
    moreover have "rc_key_slot cfg \<noteq> slot \<and> (?v (key_key (rc_key_slot (the (stored_config L ?v)))) \<noteq> None \<longrightarrow> ?v' (key_key (rc_key_slot cfg)) \<noteq> None)"
      if ok: "is_ok r" and cfg: "stored_config L ?v' = Some cfg" for cfg
    proof -
      obtain c0 where c0: "stored_config L ?v = Some c0"
        "?v' = ?v(key_key slot := None) \<and> rc_key_slot c0 \<noteq> slot
         \<or> (\<exists>x\<in>slots_in ?v. x \<noteq> slot \<and> ?v' = ?v(key_key slot := None, ''config'' \<mapsto> config_json L (c0\<lparr> rc_key_slot := x \<rparr>)))"
        using rem ok unfolding key_removed_def by blast
      from c0(2) show ?thesis
      proof
        assume a: "?v' = ?v(key_key slot := None) \<and> rc_key_slot c0 \<noteq> slot"
        then have "stored_config L ?v' = stored_config L ?v" by (simp add: stored_config_def)
        then have "cfg = c0" using cfg c0(1) by simp
        then show ?thesis using a c0(1) by simp
      next
        assume "\<exists>x\<in>slots_in ?v. x \<noteq> slot \<and> ?v' = ?v(key_key slot := None, ''config'' \<mapsto> config_json L (c0\<lparr> rc_key_slot := x \<rparr>))"
        then obtain o' where o': "o' \<in> slots_in ?v" "o' \<noteq> slot"
          "?v' = ?v(key_key slot := None, ''config'' \<mapsto> config_json L (c0\<lparr> rc_key_slot := o' \<rparr>))" by blast
        then have "cfg = c0\<lparr> rc_key_slot := o' \<rparr>" using cfg assms(2) by simp
        then show ?thesis using o' keys [of "key_key o'"] by (simp add: slots_in_def)
      qed
    qed
    ultimately show ?thesis using op keys key_removed_others [OF rem] o(2) by blast
  qed
qed

section \<open>Witnesses\<close>

lemma ref_wrappable: "wrappable ref_lib"
  by (simp add: wrappable_def ref_lib_def ref_encrypt_def)

abbreviation "sample_backend \<equiv> local_backend [''repo'']"

lemma sample_init:
  "\<exists>R t. init_with_kdf ref_lib sample_backend default_chunker ''old'' default_kdf sample_world = (Inr R, t)
     \<and> local_good [''repo''] (w_store t) \<and> local_ready (w_store t)
     \<and> created ref_lib sample_backend default_chunker ''old'' Map.empty (stored [''repo''] t) R"
proof -
  obtain r t where run: "init_with_kdf ref_lib sample_backend default_chunker ''old'' default_kdf sample_world = (r, t)" by fastforce
  note i = local_init [OF sample_local(1) ref_lib_laws run]
  have e: "stored [''repo''] sample_world = Map.empty" using sample_local(3) by (rule ext)
  have v: "chunker_validate default_chunker = Inr ()" by (simp add: chunker_validate_def default_chunker_def)
  obtain R where r: "r = Inr R"
    using i(4) [OF sample_local(2)] ref_wrappable v e by (auto simp: is_ok_iff)
  show ?thesis using run r i(1) i(3) [OF r] i(4) [OF sample_local(2)] unfolding e by blast
qed

theorem init_then_open_witness:
  "\<exists>R t. init_local_with_kdf ref_lib [''repo''] default_chunker ''old'' default_kdf sample_world = (Inr R, t)
     \<and> fst (open_local ref_lib [''repo''] ''old'' t) = Inr R"
proof -
  obtain R t where i: "init_local_with_kdf ref_lib [''repo''] default_chunker ''old'' default_kdf sample_world = (Inr R, t)"
    using sample_init unfolding init_local_with_kdf_def by blast
  show ?thesis using init_then_open [OF sample_local(1) ref_lib_laws i] sample_local(2) i by blast
qed

text \<open>The state after creation and after one addition.\<close>

lemma created_state:
  assumes "created ref_lib sample_backend default_chunker p Map.empty v R"
  shows "config_ok ref_lib v" "stored_config ref_lib v = Some (rp_config R)" "openable ref_lib v p"
    "slots_named ref_lib v" "s \<noteq> ''default'' \<Longrightarrow> v (key_key s) = None" "rc_key_slot (rp_config R) = ''default''"
    "''default'' \<in> slots_in v"
proof -
  obtain raw c where v: "v = Map.empty(key_key ''default'' \<mapsto> raw, ''config'' \<mapsto> config_json ref_lib (rp_config R))"
    and c: "cr_key_slot c = ''default''" "opens ref_lib v ''default'' p = Some c" "rc_key_slot (rp_config R) = ''default''"
    using assms by (auto simp: created_def)
  show "config_ok ref_lib v" "stored_config ref_lib v = Some (rp_config R)"
    using created_config [OF assms ref_lib_laws] by auto
  show "openable ref_lib v p" using c(2) ident_default by (force simp: openable_def)
  show no: "v (key_key s) = None" if "s \<noteq> ''default''" for s using that by (simp add: v)
  show "rc_key_slot (rp_config R) = ''default''" by (rule c(3))
  show "''default'' \<in> slots_in v" using opens_present [OF c(2)] by (simp add: slots_in_def)
  show "slots_named ref_lib v"
    unfolding slots_named_def
  proof (intro allI impI)
    fix s f
    assume f: "key_file_at ref_lib v s = Some f"
    then have "v (key_key s) \<noteq> None" by (auto simp: key_file_at_def split: option.splits)
    then have s: "s = ''default''" using no [of s] by metis
    then show "kf_slot f = s"
      using c(1,2) f from_key_file_slot [of ref_lib f p] by (auto simp: opens_def split: sum.splits)
  qed
qed

lemma sample_add:
  "\<exists>t u slot cfg. key_add_backend ref_lib sample_backend 1 ''old'' ''new'' t = (Inr slot, u)
     \<and> local_good [''repo''] (w_store t) \<and> local_ready (w_store t) \<and> config_ok ref_lib (stored [''repo''] t)
     \<and> key_added ref_lib (stored [''repo''] t) (stored [''repo''] u) ''old'' ''new'' slot
     \<and> ''default'' \<in> slots_in (stored [''repo''] t) \<and> stored_config ref_lib (stored [''repo''] t) = Some cfg
     \<and> rc_key_slot cfg = ''default'' \<and> local_good [''repo''] (w_store u)"
proof -
  obtain R t where i: "local_good [''repo''] (w_store t)" "local_ready (w_store t)"
    "created ref_lib sample_backend default_chunker ''old'' Map.empty (stored [''repo''] t) R"
    using sample_init by blast
  note st = created_state [OF i(3)]
  obtain r u where run: "key_add_backend ref_lib sample_backend 1 ''old'' ''new'' t = (r, u)" by fastforce
  note p = la.wp_key_add [OF ref_lib_laws i(1) st(1), THEN wp_run, OF run]
  have "\<exists>m. 1 \<le> m \<and> m < 1 + (1::nat) \<and> stored [''repo''] t (key_key (''key'' @ show_nat m)) = None"
    by (rule exI [of _ 1]) (use st(5) in simp)
  then have "is_ok r"
    using p [THEN conjunct2, THEN conjunct2, THEN conjunct2] i(2) ref_wrappable st(2-4) by auto
  then obtain slot where r: "r = Inr slot" by (auto simp: is_ok_iff)
  have a: "key_added ref_lib (stored [''repo''] t) (stored [''repo''] u) ''old'' ''new'' slot"
    using p [THEN conjunct2, THEN conjunct2, THEN conjunct1] r by blast
  show ?thesis
    by (rule exI [of _ t], rule exI [of _ u], rule exI [of _ slot], rule exI [of _ "rp_config R"])
      (simp add: run r i(1,2) st(1,2,6,7) a p [THEN conjunct1] del: One_nat_def)
qed

theorem key_add_rotates_witness:
  "\<exists>t u slot. key_add ref_lib [''repo''] 1 ''old'' ''new'' t = (Inr slot, u)
     \<and> key_added ref_lib (stored [''repo''] t) (stored [''repo''] u) ''old'' ''new'' slot"
proof -
  obtain t u slot where s: "key_add_backend ref_lib sample_backend 1 ''old'' ''new'' t = (Inr slot, u)"
    "local_good [''repo''] (w_store t)" "config_ok ref_lib (stored [''repo''] t)"
    using sample_add by - (elim exE conjE, rule that)
  note run = s(1) [folded key_add_def]
  show ?thesis using key_add_rotates [OF s(2) ref_lib_laws s(3) run, THEN conjunct2, THEN conjunct1] run by metis
qed

theorem key_remove_safe_witness:
  "\<exists>u r y. key_remove_backend ref_lib sample_backend ''default'' ''new'' u = (r, y)
     \<and> (\<forall>q. opens ref_lib (stored [''repo''] y) ''key1'' q = opens ref_lib (stored [''repo''] u) ''key1'' q)"
proof -
  obtain t u slot where s: "config_ok ref_lib (stored [''repo''] t)" "key_added ref_lib (stored [''repo''] t) (stored [''repo''] u) ''old'' ''new'' slot"
    "local_good [''repo''] (w_store u)"
    using sample_add by - (elim exE conjE, rule that)
  have c: "config_ok ref_lib (stored [''repo''] u)"
    using s(1,2) by (auto simp: config_ok_def key_added_def stored_config_def)
  obtain r y where run: "key_remove_backend ref_lib sample_backend ''default'' ''new'' u = (r, y)" by fastforce
  have "''key1'' \<noteq> ''default''" by simp
  then show ?thesis using key_remove_safe [OF s(3) ref_lib_laws c run, THEN conjunct2, THEN conjunct1] run by metis
qed

end
