(* ===== verification/Local_Verify.thy ===== *)
theory Local_Verify
  imports Sample_Stores
begin

text \<open>
  Verification of a snapshot of a local repository, and its limits: the verdict of a deep
  check is decided by the inline tree and the nodes it references directly.
\<close>

text \<open>C9: Without faults a verification succeeds exactly when the inline tree of the manifest
  is valid, every chunk and every node it references directly is in the repository and, for
  a deep check, the chunks decode and the nodes decode to valid nodes with the hash of
  their address. It never changes the repository, and its report counts the references of
  the inline tree. Nothing below a referenced node takes part in the verdict of a deep
  check, contrary to the comment that promises to re-derive the whole tree, and the hash
  of a data chunk is not recomputed.\<close>

theorem verify_decides:
  assumes "rp_backend R = local_backend root" "local_good root (w_store w)" "local_ready (w_store w)"
    and "\<forall>h\<in>set (chunks_of (sn_root s)). hash_name h" "set (chunks_of (sn_root s)) \<inter> set (refs_of (sn_root s)) = {}"
    and "verify L R fuel s deep w = (r, t)"
  shows "(is_ok r \<longleftrightarrow> verifiable L R (stored root w) s deep)
     \<and> (\<forall>rep. r = Inr rep \<longrightarrow> rep = \<lparr> vr_snapshot_id = sn_id s, vr_files = count_files s,
          vr_chunks = of_nat (length (chunks_of (sn_root s))), vr_tree_blobs = of_nat (length (refs_of (sn_root s))),
          vr_deep = deep \<rparr>)
     \<and> stored root t = stored root w"
proof -
  note p = lr.wp_verify [OF assms(1,2,4,5), THEN wp_run, OF assms(6)]
  have "stored root t = stored root w" using p [THEN conjunct1] by (simp add: same_store_def)
  moreover have "is_ok r \<longleftrightarrow> verifiable L R (stored root w) s deep"
    using p assms(3) unfolding is_ok_iff by blast
  ultimately show ?thesis using p by blast
qed

theorem verify_decides_witness:
  "\<exists>w rep t d v u. stored [''repo''] w = ref_view
     \<and> prune ref_lib sample_repo 0 default_policy False w = (Inr rep, t)
     \<and> contents ref_lib sample_repo (stored [''repo''] t) (blake3_hex ref_lib d) = None
     \<and> blake3_hex ref_lib d \<in> set (chunks_of big_node)
     \<and> verify ref_lib sample_repo 0 big_snapshot True t = (Inr v, u)"
proof -
  obtain w where w: "local_good [''repo''] (w_store w)" "local_ready (w_store w)" "stored [''repo''] w = ref_view"
    using ref_store by blast
  obtain rep t where run: "prune ref_lib sample_repo 0 default_policy False w = (Inr rep, t)" "pr_kept_snapshots rep = [''s1'']"
    using sample_prune [OF w] by blast
  obtain d :: bytes where d: "d \<in> {[1], [2]}" "blake3_hex ref_lib d \<noteq> hash_hex ref_lib big_node"
    using ref_hash_one by (metis insertCI)
  note v = pruned_sample [OF w run(1)]
  have gone: "contents ref_lib sample_repo (stored [''repo''] t) (blake3_hex ref_lib d) = None"
    using v(4) d(2) by simp
  have here: "stored [''repo''] t (bkey (hash_hex ref_lib big_node)) \<noteq> None"
    using v(3) by (auto simp: contents_def split: option.splits)
  have "validate (sn_root big_snapshot) = Inr ()"
    by (simp add: res_bind_Inr safe_name_def hash_hex_def ref_lib_laws)
  moreover have "node_there ref_lib sample_repo (stored [''repo''] t) True (hash_hex ref_lib big_node)"
    unfolding node_there_def using here v(3) big_node_stored by blast
  ultimately have there: "verifiable ref_lib sample_repo (stored [''repo''] t) big_snapshot True"
    unfolding verifiable_def by simp
  obtain r u where ver: "verify ref_lib sample_repo 0 big_snapshot True t = (r, u)" by fastforce
  have "is_ok r"
    using verify_decides [OF sample_repo_simps(1) v(1,2) _ _ ver, THEN conjunct1] there by simp
  then obtain rv where rv: "r = Inr rv" by (auto simp: is_ok_iff)
  have "blake3_hex ref_lib d \<in> set (chunks_of big_node)" using d(1) by (auto simp: big_node_def)
  then show ?thesis using w(3) run(1) gone ver rv by blast
qed

end
