(* ===== verification/Replication.thy ===== *)
theory Replication
  imports Store_Rules
begin

text \<open>
  Mirroring a repository to a second backend (aegis-core/src/replication.rs). The state of
  a run is the pair of the two stores. The contract of the source is extended by what a
  mirror needs beyond it: a tidy source lists repository keys only.
\<close>

section \<open>Definitions\<close>

datatype replicate_mode = Mirror | Repair

record replicate_stats =
  rs_copied :: "64 word"
  rs_skipped :: "64 word"
  rs_repaired :: "64 word"

definition REPO_PREFIXES :: "string list" where
  "REPO_PREFIXES = [''blobs/'', ''snapshots/'', ''index/'', ''keys/'']"

definition on_source :: "('a, 'r) io \<Rightarrow> ('a \<times> 'b, 'r) io" where
  "on_source m = (\<lambda>(a, b). case m a of (r, a') \<Rightarrow> (r, (a', b)))"

definition on_target :: "('b, 'r) io \<Rightarrow> ('a \<times> 'b, 'r) io" where
  "on_target m = (\<lambda>(a, b). case m b of (r, b') \<Rightarrow> (r, (a, b')))"

definition replicate_config ::
  "'a backend \<Rightarrow> 'b backend \<Rightarrow> replicate_stats \<Rightarrow> ('a \<times> 'b, replicate_stats) io" where
  "replicate_config S T stats =
     try_io (on_source (b_get S ''config''))
       (\<lambda>_. raise (MalformedBlob ''source is not a repository: config missing''))
       (\<lambda>config.
     bnd (on_target (b_exists T ''config'')) (\<lambda>e.
     if \<not> e then bnd (on_target (b_put T ''config'' config)) (\<lambda>_. ret (stats\<lparr> rs_copied := rs_copied stats + 1 \<rparr>))
     else bnd (on_target (b_get T ''config'')) (\<lambda>existing.
          if existing \<noteq> config then raise (MalformedBlob ''target is a different repository (config mismatch)'')
          else ret (stats\<lparr> rs_skipped := rs_skipped stats + 1 \<rparr>))))"

definition replicate_key ::
  "'a backend \<Rightarrow> 'b backend \<Rightarrow> replicate_mode \<Rightarrow> replicate_stats \<Rightarrow> string \<Rightarrow> ('a \<times> 'b, replicate_stats) io" where
  "replicate_key S T mode stats key =
     bnd (on_target (b_exists T key)) (\<lambda>e.
     if \<not> e then
       bnd (on_source (b_get S key)) (\<lambda>d.
       bnd (on_target (b_put T key d)) (\<lambda>_. ret (stats\<lparr> rs_copied := rs_copied stats + 1 \<rparr>)))
     else case mode of
         Mirror \<Rightarrow> ret (stats\<lparr> rs_skipped := rs_skipped stats + 1 \<rparr>)
       | Repair \<Rightarrow>
           bnd (on_source (b_get S key)) (\<lambda>d.
           bnd (on_target (b_get T key)) (\<lambda>existing.
           if existing = d then ret (stats\<lparr> rs_skipped := rs_skipped stats + 1 \<rparr>)
           else bnd (on_target (b_put T key d)) (\<lambda>_. ret (stats\<lparr> rs_repaired := rs_repaired stats + 1 \<rparr>)))))"

definition replicate_prefix ::
  "'a backend \<Rightarrow> 'b backend \<Rightarrow> replicate_mode \<Rightarrow> replicate_stats \<Rightarrow> string \<Rightarrow> ('a \<times> 'b, replicate_stats) io" where
  "replicate_prefix S T mode stats pre =
     bnd (on_source (b_list S pre)) (\<lambda>keys. fold_io (replicate_key S T mode) stats keys)"

definition replicate_repo :: "'a backend \<Rightarrow> 'b backend \<Rightarrow> replicate_mode \<Rightarrow> ('a \<times> 'b, replicate_stats) io" where
  "replicate_repo S T mode =
     bnd (replicate_config S T \<lparr> rs_copied = 0, rs_skipped = 0, rs_repaired = 0 \<rparr>) (\<lambda>stats.
     fold_io (replicate_prefix S T mode) stats REPO_PREFIXES)"

section \<open>Rules\<close>

lemma wp_on_source [wp_simps]: "wp (on_source m) Q s = wp m (\<lambda>r a. Q r (a, snd s)) (fst s)"
  by (auto simp: wp_def on_source_def split: prod.splits)

lemma wp_on_target [wp_simps]: "wp (on_target m) Q s = wp m (\<lambda>r b. Q r (fst s, b)) (snd s)"
  by (auto simp: wp_def on_target_def split: prod.splits)

locale tidy_backend = reliable_backend +
  fixes tidy :: "'a \<Rightarrow> bool"
  assumes get_tidy: "good b \<Longrightarrow> tidy b \<Longrightarrow> wp (b_get B k) (\<lambda>r c. tidy c) b"
    and list_tidy: "good b \<Longrightarrow> tidy b \<Longrightarrow> list_prefix p \<Longrightarrow>
      wp (b_list B p) (\<lambda>r c. tidy c \<and> (\<forall>ks. r = Inr ks \<longrightarrow> (\<forall>k\<in>set ks. repo_key k))) b"

lemma repo_prefixes: "p \<in> set REPO_PREFIXES \<Longrightarrow> list_prefix p"
  by (auto simp: REPO_PREFIXES_def list_prefix_def trim_end_def)

lemma repo_key_under:
  assumes "repo_key k" "k \<noteq> ''config''"
  shows "\<exists>p\<in>set REPO_PREFIXES. under p k"
proof -
  have ne: "key_path k \<noteq> [''config'']"
    using assms(2) key_path_inj [of k "''config''"] by (simp add: key_path_def)
  have one: "k = d @ CHR ''/'' # join_with (CHR ''/'') q" if "key_path k = d # q" "q \<noteq> []" for d q
  proof -
    have "k = join_with (CHR ''/'') (d # q)" using that(1) unfolding key_path_def by (metis split_on_join)
    then show ?thesis using that(2) by (cases q) simp_all
  qed
  from assms(1) ne consider d s where "d \<in> set doc_dirs" "key_path k = [d, s @ ''.json'']"
    | h where "key_path k = [''blobs'', take 2 h, h]"
    unfolding repo_key_def repo_path_def by blast
  then obtain d q where d: "d \<in> {''blobs'', ''keys'', ''snapshots'', ''index''}" "key_path k = d # q" "q \<noteq> []"
    by cases (auto simp: doc_dirs_def)
  then have "starts_with k (d @ ''/'')" using one [OF d(2,3)] by (simp add: starts_with_iff)
  then show ?thesis using d(1) by (auto simp: REPO_PREFIXES_def under_def trim_end_def)
qed

lemma not_under_config: "p \<in> set REPO_PREFIXES \<Longrightarrow> \<not> under p ''config''"
  by (auto simp: REPO_PREFIXES_def under_def trim_end_def starts_with_def)

section \<open>What a run leaves\<close>

definition mirrored ::
  "replicate_mode \<Rightarrow> (string \<Rightarrow> bytes option) \<Rightarrow> (string \<Rightarrow> bytes option) \<Rightarrow> (string \<Rightarrow> bytes option) \<Rightarrow> bool" where
  "mirrored mode v t t' \<longleftrightarrow> (\<forall>k. t' k \<noteq> t k \<longrightarrow> v k \<noteq> None \<and> t' k = v k \<and> (mode = Mirror \<longrightarrow> t k = None))"

definition settled :: "replicate_mode \<Rightarrow> (string \<Rightarrow> bytes option) \<Rightarrow> (string \<Rightarrow> bytes option) \<Rightarrow> string \<Rightarrow> bool" where
  "settled mode v t k \<longleftrightarrow> (case mode of Mirror \<Rightarrow> t k \<noteq> None | Repair \<Rightarrow> t k = v k)"

lemma mirrored_refl [simp]: "mirrored mode v t t"
  by (simp add: mirrored_def)

lemma mirrored_trans: "mirrored mode v t u \<Longrightarrow> mirrored mode v u x \<Longrightarrow> mirrored mode v t x"
  unfolding mirrored_def by metis

lemma settled_mirrored: "settled mode v t k \<Longrightarrow> mirrored mode v t u \<Longrightarrow> settled mode v u k"
  unfolding settled_def mirrored_def by (cases mode) (simp, metis, simp, metis)

lemma mirrored_put: "v k = Some d \<Longrightarrow> mode = Mirror \<longrightarrow> t k = None \<Longrightarrow> mirrored mode v t (t(k \<mapsto> d)) \<and> settled mode v (t(k \<mapsto> d)) k"
  by (cases mode) (auto simp: mirrored_def settled_def)

lemma mirrored_None: "mirrored mode v t u \<Longrightarrow> t k \<noteq> None \<Longrightarrow> u k \<noteq> None"
  unfolding mirrored_def by metis

lemma all_repo: "\<forall>k\<in>set ks. repo_key k \<Longrightarrow> {k \<in> set ks. repo_key k} = set ks"
  by auto

locale mirror = source: tidy_backend S sv gs rs tidy + target: atomic_backend T tv gt rt
  for S :: "'a backend" and sv gs rs tidy and T :: "'b backend" and tv gt rt
begin

definition run_kept :: "replicate_mode \<Rightarrow> 'a \<times> 'b \<Rightarrow> 'a \<times> 'b \<Rightarrow> bool" where
  "run_kept mode s u \<longleftrightarrow> gs (fst u) \<and> tidy (fst u) \<and> sv (fst u) = sv (fst s) \<and> gt (snd u)
     \<and> mirrored mode (sv (fst s)) (tv (snd s)) (tv (snd u))
     \<and> (rs (fst s) \<longrightarrow> rs (fst u)) \<and> (rt (snd s) \<longrightarrow> rt (snd u))"

definition ok_state :: "'a \<times> 'b \<Rightarrow> bool" where
  "ok_state s \<longleftrightarrow> gs (fst s) \<and> tidy (fst s) \<and> gt (snd s)"

lemma run_kept_refl: "ok_state s \<Longrightarrow> run_kept mode s s"
  by (simp add: run_kept_def ok_state_def)

lemma run_kept_trans: "run_kept mode s t \<Longrightarrow> run_kept mode t u \<Longrightarrow> run_kept mode s u"
  unfolding run_kept_def by (metis mirrored_trans)

lemma run_kept_ok: "run_kept mode s t \<Longrightarrow> ok_state t"
  by (simp add: run_kept_def ok_state_def)

lemma src_get:
  "ok_state s \<Longrightarrow> wp (on_source (b_get S k)) (\<lambda>r u. run_kept mode s u \<and> snd u = snd s
     \<and> (repo_key k \<longrightarrow> (\<forall>d. r = Inr d \<longrightarrow> sv (fst s) k = Some d) \<and> (rs (fst s) \<longrightarrow> sv (fst s) k \<noteq> None \<longrightarrow> is_ok r))) s"
  unfolding wp_on_source ok_state_def
  by (rule wp_mono [OF wp_conj [THEN iffD2, OF conjI, OF source.get_tidy [of _ k] source.both [OF source.get_law source.get_ready]]])
    (auto simp: run_kept_def)

lemma src_list:
  assumes s: "ok_state s" and p: "list_prefix p"
  shows "wp (on_source (b_list S p)) (\<lambda>r u. run_kept mode s u \<and> snd u = snd s
     \<and> (\<forall>ks. r = Inr ks \<longrightarrow> set ks = {k. under p k \<and> sv (fst s) k \<noteq> None} \<and> (\<forall>k\<in>set ks. repo_key k))
     \<and> (rs (fst s) \<longrightarrow> is_ok r)) s"
proof -
  have g: "gs (fst s)" "tidy (fst s)" "gt (snd s)" using s by (simp_all add: ok_state_def)
  note ls = source.both [OF source.list_law [OF g(1) p] source.list_ready [OF g(1) _ p]]
  show ?thesis
    unfolding wp_on_source
  proof (rule wp_mono [OF wp_conj [THEN iffD2, OF conjI, OF source.list_tidy [OF g(1,2) p] ls]])
    fix r :: "string list res" and c
    assume 1: "(tidy c \<and> (\<forall>ks. r = Inr ks \<longrightarrow> (\<forall>k\<in>set ks. repo_key k)))
      \<and> (gs c \<and> sv c = sv (fst s)
         \<and> (\<forall>ks. r = Inr ks \<longrightarrow> distinct ks \<and> (\<forall>k\<in>set ks. store_key k \<and> under p k)
              \<and> {k \<in> set ks. repo_key k} = {k. under p k \<and> sv (fst s) k \<noteq> None}))
      \<and> (rs (fst s) \<longrightarrow> rs c \<and> is_ok r)"
    note tidied = 1 [THEN conjunct1] and rest = 1 [THEN conjunct2]
    have c: "tidy c" "gs c" "sv c = sv (fst s)" "rs (fst s) \<longrightarrow> rs c \<and> is_ok r" using tidied rest by simp_all
    have "set ks = {k. under p k \<and> sv (fst s) k \<noteq> None} \<and> (\<forall>k\<in>set ks. repo_key k)" if r: "r = Inr ks" for ks
    proof -
      have all: "\<forall>k\<in>set ks. repo_key k" using tidied r by simp
      have "{k \<in> set ks. repo_key k} = {k. under p k \<and> sv (fst s) k \<noteq> None}" using rest r by simp
      then show ?thesis using all all_repo [OF all] by simp
    qed
    then show "run_kept mode s (c, snd s) \<and> snd (c, snd s) = snd s
      \<and> (\<forall>ks. r = Inr ks \<longrightarrow> set ks = {k. under p k \<and> sv (fst s) k \<noteq> None} \<and> (\<forall>k\<in>set ks. repo_key k))
      \<and> (rs (fst s) \<longrightarrow> is_ok r)"
      using c g(3) by (simp add: run_kept_def)
  qed
qed

lemma tgt_get:
  "ok_state s \<Longrightarrow> wp (on_target (b_get T k)) (\<lambda>r u. run_kept mode s u \<and> tv (snd u) = tv (snd s)
     \<and> (repo_key k \<longrightarrow> (\<forall>d. r = Inr d \<longrightarrow> tv (snd s) k = Some d) \<and> (rt (snd s) \<longrightarrow> tv (snd s) k \<noteq> None \<longrightarrow> is_ok r))) s"
  unfolding wp_on_target ok_state_def
  by (rule wp_mono [OF target.both [OF target.get_law target.get_ready]]) (auto simp: run_kept_def)

lemma tgt_exists:
  "ok_state s \<Longrightarrow> repo_key k \<Longrightarrow> wp (on_target (b_exists T k)) (\<lambda>r u. run_kept mode s u \<and> tv (snd u) = tv (snd s)
     \<and> (\<forall>e. r = Inr e \<longrightarrow> e = (tv (snd s) k \<noteq> None)) \<and> (rt (snd s) \<longrightarrow> is_ok r)) s"
  unfolding wp_on_target ok_state_def
  by (rule wp_mono [OF target.both [OF target.exists_law target.exists_ready]]) (auto simp: run_kept_def)

lemma tgt_put:
  "ok_state s \<Longrightarrow> repo_key k \<Longrightarrow> sv (fst s) k = Some d \<Longrightarrow> mode = Mirror \<longrightarrow> tv (snd s) k = None
    \<Longrightarrow> wp (on_target (b_put T k d)) (\<lambda>r u. run_kept mode s u \<and> (is_ok r \<longrightarrow> tv (snd u) k = Some d) \<and> (rt (snd s) \<longrightarrow> is_ok r)) s"
  unfolding wp_on_target ok_state_def
  by (rule wp_mono [OF target.both [OF target.put_atomic target.put_ready]])
    (use mirrored_put [of "sv (fst s)" k d mode "tv (snd s)"] in \<open>auto simp: run_kept_def split: sum.splits\<close>)

text \<open>One object, one prefix, the whole run.\<close>

lemma step_key:
  assumes s: "ok_state s" and k: "repo_key k" "sv (fst s) k \<noteq> None"
  shows "wp (replicate_key S T mode st k) (\<lambda>r u. run_kept mode s u
     \<and> (\<forall>st'. r = Inr st' \<longrightarrow> settled mode (sv (fst s)) (tv (snd u)) k
          \<and> (tv (snd s) k \<noteq> None \<longrightarrow> rs_copied st' = rs_copied st))
     \<and> (rs (fst s) \<and> rt (snd s) \<longrightarrow> is_ok r)) s"
  unfolding replicate_key_def
proof (rule wp_bndI [OF tgt_exists [OF s k(1), where mode = mode]], goal_cases)
  case (1 e u)
  then show ?case by auto
next
  case (2 e u)
  then have u: "run_kept mode s u" "tv (snd u) = tv (snd s)" "e = (tv (snd s) k \<noteq> None)" by auto
  have su: "sv (fst u) = sv (fst s)" using u(1) by (simp add: run_kept_def)
  have ready: "rs (fst s) \<and> rt (snd s) \<longrightarrow> rs (fst x) \<and> rt (snd x)" if "run_kept mode s x" for x
    using that by (simp add: run_kept_def)
  have put: "wp (bnd (on_target (b_put T k d)) (\<lambda>_. ret st')) (\<lambda>r x. run_kept mode s x
     \<and> (\<forall>st''. r = Inr st'' \<longrightarrow> settled mode (sv (fst s)) (tv (snd x)) k \<and> rs_copied st'' = rs_copied st')
     \<and> (rs (fst s) \<and> rt (snd s) \<longrightarrow> is_ok r)) x"
    if x: "run_kept mode s x" "tv (snd x) = tv (snd s)" and d: "sv (fst s) k = Some d" and m: "mode = Mirror \<longrightarrow> tv (snd s) k = None"
    for x d and st' :: replicate_stats
  proof -
    have sx: "sv (fst x) k = Some d" using x(1) d by (simp add: run_kept_def)
    have mx: "mode = Mirror \<longrightarrow> tv (snd x) k = None" using m x(2) by simp
    show ?thesis
    proof (rule wp_bndI [OF tgt_put [OF run_kept_ok [OF x(1)] k(1) sx mx]], goal_cases)
      case (1 e y)
      then show ?case using run_kept_trans [OF x(1)] ready [OF x(1)] by auto
    next
      case (2 _ y)
      then have "run_kept mode s y" "tv (snd y) k = Some d" using run_kept_trans [OF x(1)] by auto
      then show ?case using d by (cases mode) (auto simp: wp_simps settled_def)
    qed
  qed
  have fetch: "wp (bnd (on_source (b_get S k)) f) Q u"
    if "\<And>d x. sv (fst s) k = Some d \<Longrightarrow> run_kept mode s x \<Longrightarrow> tv (snd x) = tv (snd s) \<Longrightarrow> wp (f d) Q x"
      and "\<And>e x. run_kept mode s x \<Longrightarrow> \<not> (rs (fst s) \<and> rt (snd s)) \<Longrightarrow> Q (Inl e) x" for f and Q :: "replicate_stats res \<Rightarrow> 'a \<times> 'b \<Rightarrow> bool"
  proof (rule wp_bndI [OF src_get [OF run_kept_ok [OF u(1)], of k mode]], goal_cases)
    case (1 e x)
    then show ?case using that(2) [of x e] run_kept_trans [OF u(1)] ready [OF u(1)] k su by auto
  next
    case (2 d x)
    then show ?case using that(1) [of d x] run_kept_trans [OF u(1)] k(1) su u(2) by auto
  qed
  show ?case
  proof (cases e)
    case False
    then have none: "tv (snd s) k = None" using u(3) by simp
    show ?thesis
      unfolding if_P [OF False]
    proof (rule fetch, goal_cases)
      case (1 d x)
      have m: "mode = Mirror \<longrightarrow> tv (snd s) k = None" using none by simp
      show ?case by (rule wp_mono [OF put [OF 1(2,3,1) m]]) (use none in blast)
    next
      case (2 e x)
      then show ?case by simp
    qed
  next
    case True
    then have nn: "\<not> \<not> e" and some: "tv (snd s) k \<noteq> None" using u(3) by auto
    show ?thesis
    proof (cases mode)
      case Mirror
      then show ?thesis unfolding if_not_P [OF nn] using u some by (simp add: wp_simps settled_def)
    next
      case Repair
      have second: "wp (bnd (on_target (b_get T k)) (\<lambda>existing.
             if existing = d then ret (st\<lparr> rs_skipped := rs_skipped st + 1 \<rparr>)
             else bnd (on_target (b_put T k d)) (\<lambda>_. ret (st\<lparr> rs_repaired := rs_repaired st + 1 \<rparr>))))
        (\<lambda>r u. run_kept mode s u \<and> (\<forall>st'. r = Inr st' \<longrightarrow> settled mode (sv (fst s)) (tv (snd u)) k
            \<and> (tv (snd s) k \<noteq> None \<longrightarrow> rs_copied st' = rs_copied st))
          \<and> (rs (fst s) \<and> rt (snd s) \<longrightarrow> is_ok r)) x"
        if d: "sv (fst s) k = Some d" and x: "run_kept mode s x" "tv (snd x) = tv (snd s)" for d x
      proof (rule wp_bndI [OF tgt_get [OF run_kept_ok [OF x(1)], of k mode]], goal_cases)
        case (1 e y)
        have y: "run_kept mode s y" by (rule run_kept_trans [OF x(1) 1 [THEN conjunct1]])
        have "\<not> (rs (fst s) \<and> rt (snd s))" using 1 [THEN conjunct2, THEN conjunct2] ready [OF x(1)] k(1) some x(2) by simp
        then show ?case using y by simp
      next
        case (2 existing y)
        then have y: "run_kept mode s y" "tv (snd y) = tv (snd s)" "tv (snd s) k = Some existing"
          using run_kept_trans [OF x(1) 2 [THEN conjunct1]] k(1) x(2) by simp_all
        show ?case
        proof (cases "existing = d")
          case True
          then show ?thesis using y d Repair by (simp add: wp_simps settled_def)
        next
          case False
          have m: "mode = Mirror \<longrightarrow> tv (snd s) k = None" using Repair by simp
          show ?thesis
            unfolding if_not_P [OF False]
          proof (rule wp_mono [OF put [OF y(1,2) d m]], goal_cases)
            case (1 r z)
            have "settled mode (sv (fst s)) (tv (snd z)) k \<and> rs_copied st'' = rs_copied st" if "r = Inr st''" for st''
              using 1 [THEN conjunct2, THEN conjunct1, THEN spec, THEN mp, OF that] by simp
            then show ?case using 1 by blast
          qed
        qed
      qed
      show ?thesis
        unfolding if_not_P [OF nn] Repair replicate_mode.case
      proof (rule fetch, goal_cases)
        case (1 d x)
        show ?case by (rule second [OF 1(1) 1(2,3) [folded Repair], unfolded Repair])
      next
        case (2 e x)
        then show ?case using Repair by simp
      qed
    qed
  qed
qed

lemma step_prefix:
  assumes s: "ok_state s" and p: "list_prefix p"
  shows "wp (replicate_prefix S T mode st p) (\<lambda>r u. run_kept mode s u
     \<and> (\<forall>st'. r = Inr st' \<longrightarrow> (\<forall>k. under p k \<longrightarrow> sv (fst s) k \<noteq> None \<longrightarrow> settled mode (sv (fst s)) (tv (snd u)) k)
          \<and> ((\<forall>k. sv (fst s) k \<noteq> None \<longrightarrow> tv (snd s) k \<noteq> None) \<longrightarrow> rs_copied st' = rs_copied st))
     \<and> (rs (fst s) \<and> rt (snd s) \<longrightarrow> is_ok r)) s"
  unfolding replicate_prefix_def
proof (rule wp_bndI [OF src_list [OF s p, of mode]], goal_cases)
  case (1 e u)
  then show ?case by auto
next
  case (2 keys u)
  then have u: "run_kept mode s u" "snd u = snd s" and keys: "set keys = {k. under p k \<and> sv (fst s) k \<noteq> None}"
    "\<forall>k\<in>set keys. repo_key k" by auto
  let ?all = "\<forall>k. sv (fst s) k \<noteq> None \<longrightarrow> tv (snd s) k \<noteq> None"
  define I where "I = (\<lambda>done (st' :: replicate_stats) x. run_kept mode s x \<and> (\<forall>k\<in>set done. settled mode (sv (fst s)) (tv (snd x)) k)
     \<and> (?all \<longrightarrow> rs_copied st' = rs_copied st))"
  show ?case
  proof (rule wp_fold_io [where Inv = I], goal_cases)
    case 1
    then show ?case using u by (simp add: I_def)
  next
    case (2 "done" k rest st' x)
    have x: "run_kept mode s x" using 2(2) by (simp add: I_def)
    have sx: "sv (fst x) = sv (fst s)" using x by (simp add: run_kept_def)
    have k: "repo_key k" "sv (fst x) k \<noteq> None" using 2(1) keys sx by auto
    have mir: "mirrored mode (sv (fst s)) (tv (snd s)) (tv (snd x))" using x by (simp add: run_kept_def)
    show ?case
    proof (rule wp_mono [OF step_key [OF run_kept_ok [OF x] k]])
      fix r :: "replicate_stats res" and y
      assume a: "run_kept mode x y
        \<and> (\<forall>st''. r = Inr st'' \<longrightarrow> settled mode (sv (fst x)) (tv (snd y)) k \<and> (tv (snd x) k \<noteq> None \<longrightarrow> rs_copied st'' = rs_copied st'))
        \<and> (rs (fst x) \<and> rt (snd x) \<longrightarrow> is_ok r)"
      then have y: "run_kept mode s y" using run_kept_trans [OF x] by blast
      have step: "mirrored mode (sv (fst s)) (tv (snd x)) (tv (snd y))" using a sx by (simp add: run_kept_def)
      have rd: "rs (fst s) \<and> rt (snd s) \<longrightarrow> is_ok r" using a x by (simp add: run_kept_def)
      show "case r of Inl e \<Rightarrow> run_kept mode s y
           \<and> (\<forall>st'. Inl e = Inr st' \<longrightarrow> (\<forall>k. under p k \<longrightarrow> sv (fst s) k \<noteq> None \<longrightarrow> settled mode (sv (fst s)) (tv (snd y)) k)
                \<and> (?all \<longrightarrow> rs_copied st' = rs_copied st))
           \<and> (rs (fst s) \<and> rt (snd s) \<longrightarrow> is_ok (Inl e :: replicate_stats res))
         | Inr st' \<Rightarrow> I (done @ [k]) st' y"
      proof (cases r)
        case (Inl e)
        then show ?thesis using y rd by simp
      next
        case (Inr st'')
        have old: "\<forall>j\<in>set done. settled mode (sv (fst s)) (tv (snd y)) j"
          using 2(2) settled_mirrored [OF _ step] by (simp add: I_def)
        have new: "settled mode (sv (fst s)) (tv (snd y)) k" using a Inr sx by simp
        have "rs_copied st'' = rs_copied st" if all: ?all
        proof -
          have "tv (snd x) k \<noteq> None" using all k(2) sx mirrored_None [OF mir] by simp
          then show ?thesis using a Inr 2(2) all by (simp add: I_def)
        qed
        then show ?thesis using Inr y old new by (simp add: I_def)
      qed
    qed
  next
    case (3 st' x)
    then show ?case using keys(1) by (simp add: I_def)
  qed
qed

lemma step_config:
  assumes s: "ok_state s"
  shows "wp (replicate_config S T st) (\<lambda>r u. run_kept Mirror s u
     \<and> (\<forall>st'. r = Inr st' \<longrightarrow> sv (fst s) ''config'' \<noteq> None \<and> tv (snd u) ''config'' = sv (fst s) ''config''
          \<and> (tv (snd s) ''config'' \<noteq> None \<longrightarrow> rs_copied st' = rs_copied st))
     \<and> (tv (snd s) ''config'' \<noteq> None \<or> sv (fst s) ''config'' = None \<longrightarrow> tv (snd u) = tv (snd s))
     \<and> (rs (fst s) \<and> rt (snd s) \<and> sv (fst s) ''config'' \<noteq> None
          \<and> (tv (snd s) ''config'' = None \<or> tv (snd s) ''config'' = sv (fst s) ''config'') \<longrightarrow> is_ok r)) s"
  unfolding replicate_config_def
proof (rule wp_try_ioI [OF src_get [OF s, of "''config''" Mirror]], goal_cases)
  case (1 e u)
  then show ?case by (auto simp: wp_simps)
next
  case (2 d u)
  then have u: "run_kept Mirror s u" "snd u = snd s" and d: "sv (fst s) ''config'' = Some d" by auto
  show ?case
  proof (rule wp_bndI [OF tgt_exists [OF run_kept_ok [OF u(1)] repo_key_config, of Mirror]], goal_cases)
    case (1 e x)
    have "run_kept Mirror s x" by (rule run_kept_trans [OF u(1) 1 [THEN conjunct1]])
    then show ?case using 1 u by (simp add: run_kept_def)
  next
    case (2 e x)
    have x: "run_kept Mirror s x" "tv (snd x) = tv (snd s)" "e = (tv (snd s) ''config'' \<noteq> None)"
      using run_kept_trans [OF u(1) 2 [THEN conjunct1]] 2 u(2) by simp_all
    have sx: "sv (fst x) ''config'' = Some d" using x(1) d by (simp add: run_kept_def)
    have rx: "rs (fst s) \<and> rt (snd s) \<longrightarrow> rs (fst x) \<and> rt (snd x)" using x(1) by (simp add: run_kept_def)
    show ?case
    proof (cases e)
      case False
      then have none: "tv (snd x) ''config'' = None" using x by simp
      have m: "Mirror = Mirror \<longrightarrow> tv (snd x) ''config'' = None" using none by simp
      show ?thesis
        unfolding if_P [OF False]
      proof (rule wp_bndI [OF tgt_put [OF run_kept_ok [OF x(1)] repo_key_config sx m]], goal_cases)
        case (1 f y)
        have "run_kept Mirror s y" by (rule run_kept_trans [OF x(1) 1 [THEN conjunct1]])
        moreover have "\<not> (rs (fst s) \<and> rt (snd s))" using 1 rx by simp
        moreover have "tv (snd s) ''config'' = None" using none x(2) by simp
        ultimately show ?case using d by auto
      next
        case (2 f y)
        have "run_kept Mirror s y" by (rule run_kept_trans [OF x(1) 2 [THEN conjunct1]])
        then show ?case using 2 none x(2) rx d by (simp add: wp_simps)
      qed
    next
      case True
      then have nn: "\<not> \<not> e" and some: "tv (snd s) ''config'' \<noteq> None" using x(3) by simp_all
      show ?thesis
        unfolding if_not_P [OF nn]
      proof (rule wp_bndI [OF tgt_get [OF run_kept_ok [OF x(1)], of "''config''" Mirror]], goal_cases)
        case (1 f y)
        have "run_kept Mirror s y" by (rule run_kept_trans [OF x(1) 1 [THEN conjunct1]])
        moreover have "\<not> (rs (fst s) \<and> rt (snd s))" "tv (snd y) = tv (snd s)" using 1 some x(2) rx by simp_all
        ultimately show ?case using some by auto
      next
        case (2 f y)
        have "run_kept Mirror s y" by (rule run_kept_trans [OF x(1) 2 [THEN conjunct1]])
        then show ?case using 2 some x(2) d by (simp add: wp_simps)
      qed
    qed
  qed
qed

lemma run_kept_mirror: "run_kept Mirror s u \<Longrightarrow> run_kept mode s u"
  unfolding run_kept_def mirrored_def by auto

lemma run_kept_ready: "run_kept mode s u \<Longrightarrow> rs (fst s) \<and> rt (snd s) \<Longrightarrow> rs (fst u) \<and> rt (snd u)"
  by (simp add: run_kept_def)

lemma run_kept_source: "run_kept mode s u \<Longrightarrow> sv (fst u) = sv (fst s)"
  by (simp add: run_kept_def)

lemma run_kept_target: "run_kept mode s u \<Longrightarrow> mirrored mode (sv (fst s)) (tv (snd s)) (tv (snd u))"
  by (simp add: run_kept_def)

definition covered :: "replicate_mode \<Rightarrow> 'a \<times> 'b \<Rightarrow> 'a \<times> 'b \<Rightarrow> string set \<Rightarrow> bool" where
  "covered mode s u P \<longleftrightarrow> (\<forall>p\<in>P. \<forall>k. under p k \<longrightarrow> sv (fst s) k \<noteq> None \<longrightarrow> settled mode (sv (fst s)) (tv (snd u)) k)"

lemma covered_kept: "covered mode s u P \<Longrightarrow> run_kept mode u x \<Longrightarrow> sv (fst u) = sv (fst s) \<Longrightarrow> covered mode s x P"
  unfolding covered_def using settled_mirrored run_kept_target by metis

lemma step_prefixes:
  assumes s: "ok_state s"
  shows "wp (fold_io (replicate_prefix S T mode) st REPO_PREFIXES) (\<lambda>r u. run_kept mode s u
     \<and> (\<forall>st'. r = Inr st' \<longrightarrow> covered mode s u (set REPO_PREFIXES)
          \<and> ((\<forall>k. sv (fst s) k \<noteq> None \<longrightarrow> tv (snd s) k \<noteq> None) \<longrightarrow> rs_copied st' = rs_copied st))
     \<and> (rs (fst s) \<and> rt (snd s) \<longrightarrow> is_ok r)) s"
proof -
  let ?all = "\<forall>k. sv (fst s) k \<noteq> None \<longrightarrow> tv (snd s) k \<noteq> None"
  define I where "I = (\<lambda>done (st' :: replicate_stats) x. run_kept mode s x \<and> covered mode s x (set done)
     \<and> (?all \<longrightarrow> rs_copied st' = rs_copied st))"
  show ?thesis
  proof (rule wp_fold_io [where Inv = I], goal_cases)
    case 1
    then show ?case using run_kept_refl [OF s] by (simp add: I_def covered_def)
  next
    case (2 "done" p rest st' x)
    have p: "list_prefix p" by (rule repo_prefixes) (simp add: 2(1))
    have x: "run_kept mode s x" and cov: "covered mode s x (set done)" using 2(2) by (simp_all add: I_def)
    have sx: "sv (fst x) = sv (fst s)" by (rule run_kept_source [OF x])
    show ?case
    proof (rule wp_mono [OF step_prefix [OF run_kept_ok [OF x] p]])
      fix r :: "replicate_stats res" and y
      assume a: "run_kept mode x y
        \<and> (\<forall>st''. r = Inr st'' \<longrightarrow> (\<forall>k. under p k \<longrightarrow> sv (fst x) k \<noteq> None \<longrightarrow> settled mode (sv (fst x)) (tv (snd y)) k)
             \<and> ((\<forall>k. sv (fst x) k \<noteq> None \<longrightarrow> tv (snd x) k \<noteq> None) \<longrightarrow> rs_copied st'' = rs_copied st'))
        \<and> (rs (fst x) \<and> rt (snd x) \<longrightarrow> is_ok r)"
      have y: "run_kept mode s y" by (rule run_kept_trans [OF x a [THEN conjunct1]])
      have rd: "rs (fst s) \<and> rt (snd s) \<longrightarrow> is_ok r" using a run_kept_ready [OF x] by blast
      show "case r of Inl e \<Rightarrow> run_kept mode s y
           \<and> (\<forall>st'. Inl e = Inr st' \<longrightarrow> covered mode s y (set REPO_PREFIXES) \<and> (?all \<longrightarrow> rs_copied st' = rs_copied st))
           \<and> (rs (fst s) \<and> rt (snd s) \<longrightarrow> is_ok (Inl e :: replicate_stats res))
         | Inr st' \<Rightarrow> I (done @ [p]) st' y"
      proof (cases r)
        case (Inl e)
        then show ?thesis using y rd by simp
      next
        case (Inr st'')
        note n = a [THEN conjunct2, THEN conjunct1, THEN spec, THEN mp, OF Inr]
        have "covered mode s y (set done)" by (rule covered_kept [OF cov a [THEN conjunct1] sx])
        then have c: "covered mode s y (set (done @ [p]))"
          using n [THEN conjunct1] sx by (simp add: covered_def)
        have "rs_copied st'' = rs_copied st" if all: ?all
        proof -
          have "\<forall>k. sv (fst x) k \<noteq> None \<longrightarrow> tv (snd x) k \<noteq> None"
            using all sx mirrored_None [OF run_kept_target [OF x]] by simp
          then show ?thesis using n [THEN conjunct2] 2(2) all by (simp add: I_def)
        qed
        then show ?thesis using Inr y c by (simp add: I_def)
      qed
    qed
  next
    case (3 st' x)
    then show ?case by (simp add: I_def)
  qed
qed

theorem wp_replicate:
  assumes s: "ok_state s"
  shows "wp (replicate_repo S T mode) (\<lambda>r u. run_kept mode s u
     \<and> (\<forall>st. r = Inr st \<longrightarrow> sv (fst s) ''config'' \<noteq> None \<and> tv (snd u) ''config'' = sv (fst s) ''config''
          \<and> (\<forall>k. repo_key k \<longrightarrow> sv (fst s) k \<noteq> None \<longrightarrow> settled mode (sv (fst s)) (tv (snd u)) k)
          \<and> ((\<forall>k. sv (fst s) k \<noteq> None \<longrightarrow> tv (snd s) k \<noteq> None) \<longrightarrow> rs_copied st = 0))
     \<and> (sv (fst s) ''config'' = None \<or> (tv (snd s) ''config'' \<noteq> None \<and> tv (snd s) ''config'' \<noteq> sv (fst s) ''config'')
          \<longrightarrow> \<not> is_ok r \<and> tv (snd u) = tv (snd s))
     \<and> (rs (fst s) \<and> rt (snd s) \<and> sv (fst s) ''config'' \<noteq> None
          \<and> (tv (snd s) ''config'' = None \<or> tv (snd s) ''config'' = sv (fst s) ''config'') \<longrightarrow> is_ok r)) s"
  unfolding replicate_repo_def
proof (rule wp_bndI [OF step_config [OF s]], goal_cases)
  case (1 e u)
  have u: "run_kept mode s u" by (rule run_kept_mirror [OF 1 [THEN conjunct1]])
  show ?case using u 1 by auto
next
  case (2 st u)
  have um: "run_kept Mirror s u" by (rule 2 [THEN conjunct1])
  have u: "run_kept mode s u" by (rule run_kept_mirror [OF um])
  note c = 2 [THEN conjunct2, THEN conjunct1, THEN spec, THEN mp, OF refl]
  have cfg: "sv (fst s) ''config'' \<noteq> None" "tv (snd u) ''config'' = sv (fst s) ''config''"
    "tv (snd s) ''config'' \<noteq> None \<longrightarrow> rs_copied st = 0"
    using c by simp_all
  have same: "tv (snd s) ''config'' \<noteq> None \<longrightarrow> tv (snd u) = tv (snd s)" using 2 by blast
  have no: "\<not> (sv (fst s) ''config'' = None \<or> (tv (snd s) ''config'' \<noteq> None \<and> tv (snd s) ''config'' \<noteq> sv (fst s) ''config''))"
    using cfg(1,2) same by auto
  have su: "sv (fst u) = sv (fst s)" by (rule run_kept_source [OF u])
  show ?case
  proof (rule wp_mono [OF step_prefixes [OF run_kept_ok [OF u], of mode st]], goal_cases)
    case (1 r x)
    have x: "run_kept mode s x" by (rule run_kept_trans [OF u 1 [THEN conjunct1]])
    have rd: "rs (fst s) \<and> rt (snd s) \<longrightarrow> is_ok r" using 1 run_kept_ready [OF u] by blast
    have "sv (fst s) ''config'' \<noteq> None \<and> tv (snd x) ''config'' = sv (fst s) ''config''
          \<and> (\<forall>k. repo_key k \<longrightarrow> sv (fst s) k \<noteq> None \<longrightarrow> settled mode (sv (fst s)) (tv (snd x)) k)
          \<and> ((\<forall>k. sv (fst s) k \<noteq> None \<longrightarrow> tv (snd s) k \<noteq> None) \<longrightarrow> rs_copied st' = 0)" if r: "r = Inr st'" for st'
    proof -
      note n = 1 [THEN conjunct2, THEN conjunct1, THEN spec, THEN mp, OF r]
      have mir: "mirrored mode (sv (fst s)) (tv (snd u)) (tv (snd x))"
        using run_kept_target [OF 1 [THEN conjunct1]] su by simp
      have cx: "tv (snd x) ''config'' = sv (fst s) ''config''"
        using mir cfg(1,2) unfolding mirrored_def by metis
      have set: "settled mode (sv (fst s)) (tv (snd x)) k" if k: "repo_key k" "sv (fst s) k \<noteq> None" for k
      proof (cases "k = ''config''")
        case True
        then show ?thesis using cx cfg(1) by (cases mode) (simp_all add: settled_def)
      next
        case False
        then obtain p where p: "p \<in> set REPO_PREFIXES" "under p k" using repo_key_under [OF k(1)] by blast
        show ?thesis using n [THEN conjunct1] p k(2) su unfolding covered_def by metis
      qed
      have zero: "rs_copied st' = 0" if all: "\<forall>k. sv (fst s) k \<noteq> None \<longrightarrow> tv (snd s) k \<noteq> None"
      proof -
        have "tv (snd s) ''config'' \<noteq> None" using all cfg(1) by blast
        then have "tv (snd u) = tv (snd s)" "rs_copied st = 0" using same cfg(3) by blast+
        then show ?thesis using n [THEN conjunct2] all su by simp
      qed
      show ?thesis using cfg(1) cx set zero by blast
    qed
    then show ?case using x rd no by blast
  qed
qed

end

end
