(* ===== verification/Local_Replication.thy ===== *)
theory Local_Replication
  imports Local_Repository Replication
begin

text \<open>
  Replication between two repositories on local backends: the interpretation of the mirror
  interface, what every run leaves on the target, and that a run without faults mirrors
  the whole repository and that a repeated run copies nothing.
\<close>

interpretation lt: tidy_backend "local_backend root" "local_view root" "local_good root" local_ready "local_tidy root"
proof
  fix b k p
  assume b: "local_good root b" "local_tidy root b"
  show "wp (b_get (local_backend root) k) (\<lambda>r c. local_tidy root c) b"
    by (simp add: local_backend_def local_get_tidy [OF b(2)])
  show "wp (b_list (local_backend root) p) (\<lambda>r c. local_tidy root c \<and> (\<forall>ks. r = Inr ks \<longrightarrow> (\<forall>k\<in>set ks. repo_key k))) b"
    if "list_prefix p"
    by (simp add: local_backend_def local_list_tidy [OF b(1) that b(2)])
qed

interpretation lm: mirror "local_backend sroot" "local_view sroot" "local_good sroot" local_ready "local_tidy sroot"
    "local_backend troot" "local_view troot" "local_good troot" local_ready
  ..

text \<open>C17: Whatever system calls fail on either side, a replication run leaves every object of
  the source repository as it was, and changes the target only by storing under a source
  key the bytes the source holds there. In \<open>Mirror\<close> mode it never overwrites an object of
  the target. If the source has no config, or the target holds another one, the run fails
  and the target is untouched. If the run reports success, the two configs are equal and
  every object of the source is on the target, byte for byte in \<open>Repair\<close> mode.\<close>

theorem replicate_sound:
  assumes "local_good sroot a" "local_tidy sroot a" "local_good troot b"
    and "replicate_repo (local_backend sroot) (local_backend troot) mode (a, b) = (r, a', b')"
  defines "v \<equiv> local_view sroot a" and "t \<equiv> local_view troot b" and "t' \<equiv> local_view troot b'"
  shows "local_view sroot a' = v
     \<and> (\<forall>k. t' k = t k \<or> (v k \<noteq> None \<and> t' k = v k \<and> (mode = Mirror \<longrightarrow> t k = None)))
     \<and> (v ''config'' = None \<or> (t ''config'' \<noteq> None \<and> t ''config'' \<noteq> v ''config'') \<longrightarrow> \<not> is_ok r \<and> t' = t)
     \<and> (is_ok r \<longrightarrow> t' ''config'' = v ''config'' \<and>
          (\<forall>k. v k \<noteq> None \<longrightarrow> t' k \<noteq> None \<and> (mode = Repair \<or> t k = None \<longrightarrow> t' k = v k)))"
proof -
  have ok: "mirror.ok_state (local_good sroot) (local_tidy sroot) (local_good troot) (a, b)" using assms(1-3) by (simp add: lm.ok_state_def)
  note p = lm.wp_replicate [OF ok, of mode, THEN wp_run, OF assms(4), unfolded fst_conv snd_conv, folded v_def t_def t'_def]
  note kept = p [THEN conjunct1]
  have src: "local_view sroot a' = v" using lm.run_kept_source [OF kept] by (simp add: v_def)
  have mir: "mirrored mode v t t'" using lm.run_kept_target [OF kept] by (simp add: v_def t_def t'_def)
  have only: "\<forall>k. t' k = t k \<or> (v k \<noteq> None \<and> t' k = v k \<and> (mode = Mirror \<longrightarrow> t k = None))"
    using mir unfolding mirrored_def by blast
  have "t' ''config'' = v ''config'' \<and> (\<forall>k. v k \<noteq> None \<longrightarrow> t' k \<noteq> None \<and> (mode = Repair \<or> t k = None \<longrightarrow> t' k = v k))"
    if "r = Inr st" for st
  proof -
    note n = p [THEN conjunct2, THEN conjunct1, THEN spec, THEN mp, OF that]
    have "settled mode v t' k" if "v k \<noteq> None" for k
      using n lb.view_keys [OF assms(1)] that unfolding v_def by blast
    then have set: "settled mode v t' k" if "v k \<noteq> None" for k using that by blast
    have "t' k \<noteq> None \<and> (mode = Repair \<or> t k = None \<longrightarrow> t' k = v k)" if k: "v k \<noteq> None" for k
    proof (cases mode)
      case Mirror
      then have here: "t' k \<noteq> None" using set [OF k] by (simp add: settled_def)
      have "t' k = t k \<or> t' k = v k" using only by blast
      then show ?thesis using here Mirror by (cases "t k") auto
    next
      case Repair
      then show ?thesis using set [OF k] k by (simp add: settled_def)
    qed
    then have "\<forall>k. v k \<noteq> None \<longrightarrow> t' k \<noteq> None \<and> (mode = Repair \<or> t k = None \<longrightarrow> t' k = v k)" by blast
    then show ?thesis using n by blast
  qed
  then show ?thesis using src only p [THEN conjunct2, THEN conjunct2, THEN conjunct1] unfolding is_ok_iff by blast
qed

text \<open>C18: Replication completes and is incremental: when no system call fails and the target
  is empty or already a mirror of the same repository, the run succeeds; and once every
  object of the source is on the target, a further run reports that it copied nothing.\<close>

theorem replicate_completes:
  assumes "local_good sroot a" "local_tidy sroot a" "local_good troot b"
    and "replicate_repo (local_backend sroot) (local_backend troot) mode (a, b) = (r, a', b')"
    and "local_ready a" "local_ready b" "local_view sroot a ''config'' \<noteq> None"
    and "local_view troot b ''config'' \<in> {None, local_view sroot a ''config''}"
  shows "\<exists>st. r = Inr st \<and> (\<forall>k. local_view sroot a k \<noteq> None \<longrightarrow> local_view troot b' k \<noteq> None)
     \<and> ((\<forall>k. local_view sroot a k \<noteq> None \<longrightarrow> local_view troot b k \<noteq> None) \<longrightarrow> rs_copied st = 0)"
proof -
  have ok: "mirror.ok_state (local_good sroot) (local_tidy sroot) (local_good troot) (a, b)" using assms(1-3) by (simp add: lm.ok_state_def)
  note p = lm.wp_replicate [OF ok, of mode, THEN wp_run, OF assms(4), unfolded fst_conv snd_conv]
  have "is_ok r" using p [THEN conjunct2, THEN conjunct2, THEN conjunct2] assms(5-8) by auto
  then obtain st where r: "r = Inr st" by (auto simp: is_ok_iff)
  note n = p [THEN conjunct2, THEN conjunct1, THEN spec, THEN mp, OF r]
  have "local_view troot b' k \<noteq> None" if "local_view sroot a k \<noteq> None" for k
  proof -
    have "settled mode (local_view sroot a) (local_view troot b') k" using n lb.view_keys [OF assms(1) that] that by blast
    then show ?thesis using that by (cases mode) (simp_all add: settled_def)
  qed
  then show ?thesis using r n by blast
qed

section \<open>A run\<close>

definition mirror_source :: local_state where
  "mirror_source = \<lparr> ls_os = \<lparr> os_fs = [([''src''], EDir), ([''src'', ''config''], EFile [1] None None),
      ([''src'', ''keys''], EDir), ([''src'', ''keys'', ''default.json''], EFile [2] None None)], os_faults = [] \<rparr>,
     ls_uuids = (\<lambda>_. ''t''), ls_pos = 0 \<rparr>"

definition mirror_target :: local_state where
  "mirror_target = \<lparr> ls_os = \<lparr> os_fs = [], os_faults = [] \<rparr>, ls_uuids = (\<lambda>_. ''t''), ls_pos = 0 \<rparr>"

lemma mirror_local: "local_good [''src''] mirror_source" "local_tidy [''src''] mirror_source"
  "local_good [''dst''] mirror_target" "local_ready mirror_source" "local_ready mirror_target"
  "local_view [''src''] mirror_source ''config'' = Some [1]" "local_view [''dst''] mirror_target k = None"
proof -
  have two: "p = take n [''src''] \<Longrightarrow> p = [] \<or> p = [''src'']" for p n by (cases n) auto
  have fs: "local_fs [''src''] (os_fs (ls_os mirror_source))"
    unfolding local_fs_def
  proof (intro conjI)
    show "fs_wf (os_fs (ls_os mirror_source))"
      by (auto simp: mirror_source_def fs_wf_def ent_def is_dir_def split: if_splits)
  qed (auto simp: mirror_source_def ent_def le_Suc_eq store_dir_def store_path_def repo_path_def take_Cons'
      doc_dirs_def ident_def ident_char_def split: if_splits)
  then show "local_good [''src''] mirror_source" by (simp add: local_good_def mirror_source_def ident_def ident_char_def)
  show "local_good [''dst''] mirror_target"
    by (auto simp: mirror_target_def local_good_def local_fs_def fs_wf_def ent_def ident_def ident_char_def
      le_Suc_eq store_dir_def take_Cons')
  have dash: "CHR ''-'' \<in> set (last p)" if "temp_path p" for p
    using that by (auto simp: temp_path_def tmp_ext_def)
  show "local_tidy [''src''] mirror_source"
    unfolding local_tidy_def
  proof (intro allI impI)
    fix k
    assume "temp_path (key_path k)"
    then show "ent (os_fs (ls_os mirror_source)) ([''src''] @ key_path k) = None"
      using dash [of "key_path k"] by (auto simp: mirror_source_def ent_def)
  qed
  show "local_ready mirror_source" "local_ready mirror_target" "local_view [''dst''] mirror_target k = None"
    by (simp_all add: local_ready_def faultless_def mirror_source_def mirror_target_def local_view_def fs_view_def ent_def)
  show "local_view [''src''] mirror_source ''config'' = Some [1]"
    by (simp add: mirror_source_def local_view_def fs_view_def ent_def key_path_def)
qed

theorem replicate_sound_witness:
  "\<exists>r a b. replicate_repo (local_backend [''src'']) (local_backend [''dst'']) Repair (mirror_source, mirror_target) = (r, a, b)
     \<and> local_view [''src''] a ''config'' = Some [1]"
proof -
  obtain r a b where run: "replicate_repo (local_backend [''src'']) (local_backend [''dst'']) Repair (mirror_source, mirror_target) = (r, a, b)"
    by (metis prod.exhaust)
  show ?thesis using run replicate_sound [OF mirror_local(1-3) run] mirror_local(6) by auto
qed

theorem replicate_completes_witness:
  "\<exists>st a b. replicate_repo (local_backend [''src'']) (local_backend [''dst'']) Mirror (mirror_source, mirror_target) = (Inr st, a, b)
     \<and> local_view [''dst''] b ''config'' \<noteq> None"
proof -
  obtain r a b where run: "replicate_repo (local_backend [''src'']) (local_backend [''dst'']) Mirror (mirror_source, mirror_target) = (r, a, b)"
    by (metis prod.exhaust)
  show ?thesis using run replicate_completes [OF mirror_local(1-3) run mirror_local(4,5)] mirror_local(6,7) by auto
qed

end
