(* ===== verification/Sftp_Location.thy ===== *)
theory Sftp_Location
  imports File_System
begin

text \<open>
  Repository locations (aegis-core/src/sftp.rs): a location argument is a local path or an
  \<open>sftp://[user@]host[:port]/path\<close> URL. Parsing and printing are inverse to each other on
  everything the parser accepts.
\<close>

section \<open>Definitions\<close>

record sftp_target =
  tg_user :: string
  tg_host :: string
  tg_port :: "16 word"
  tg_path :: string

datatype repo_location = Local_At string | Sftp_At sftp_target

definition new_target :: "string \<Rightarrow> string \<Rightarrow> 16 word \<Rightarrow> string \<Rightarrow> sftp_target" where
  "new_target user host port path = \<lparr> tg_user = user, tg_host = host, tg_port = port, tg_path = path \<rparr>"

text \<open>\<open>str::rsplit_once\<close> and \<open>str::parse::<u16>\<close>.\<close>

definition rsplit_once :: "char \<Rightarrow> string \<Rightarrow> (string \<times> string) option" where
  "rsplit_once c s = map_option (\<lambda>(a, b). (rev b, rev a)) (split_once c (rev s))"

definition dec_digit :: "char \<Rightarrow> bool" where
  "dec_digit c \<longleftrightarrow> (48::nat) \<le> of_char c \<and> of_char c \<le> (57::nat)"

definition parse_u16 :: "string \<Rightarrow> 16 word option" where
  "parse_u16 s =
     (let ds = (if 1 < length s \<and> hd s = CHR ''+'' then tl s else s)
      in if ds = [] \<or> \<not> list_all dec_digit ds \<or> 2 ^ 16 \<le> undigits ds then None
         else Some (of_nat (undigits ds)))"

definition no_path :: "string \<Rightarrow> error" where
  "no_path s = MalformedBlob (''`'' @ s @ ''` has no path component'')"

text \<open>The part before the path: user, host and port, with their defaults.\<close>

definition host_port :: "string \<Rightarrow> string \<Rightarrow> (string \<times> 16 word) res" where
  "host_port s hostport = (case rsplit_once (CHR '':'') hostport of
      Some (h, p) \<Rightarrow> (case parse_u16 p of
          None \<Rightarrow> Inl (MalformedBlob (''`'' @ s @ ''` has an invalid port `'' @ p @ ''`''))
        | Some port \<Rightarrow> Inr (h, port))
    | None \<Rightarrow> Inr (hostport, 22))"

definition parse_authority :: "string \<Rightarrow> string \<Rightarrow> (string \<times> string \<times> 16 word) res" where
  "parse_authority s authority =
     (case (case split_once (CHR ''@'') authority of Some (u, h) \<Rightarrow> (u, h) | None \<Rightarrow> (''root'', authority))
      of (user, hostport) \<Rightarrow>
        if user = [] then Inl (MalformedBlob (''`'' @ s @ ''` has an empty user''))
        else res_bind (host_port s hostport) (\<lambda>(host, port).
          if host = [] then Inl (MalformedBlob (''`'' @ s @ ''` has no host''))
          else Inr (user, host, port)))"

definition parse_location :: "string \<Rightarrow> repo_location res" where
  "parse_location s = (case strip_prefix s ''sftp://'' of
      None \<Rightarrow> Inr (Local_At s)
    | Some rest \<Rightarrow> (case split_once (CHR ''/'') rest of
        None \<Rightarrow> Inl (no_path s)
      | Some (authority, path) \<Rightarrow>
          if path = [] then Inl (no_path s)
          else res_bind (parse_authority s authority) (\<lambda>(user, host, port).
            Inr (Sftp_At (new_target user host port (CHR ''/'' # path))))))"

definition sftp_url :: "sftp_target \<Rightarrow> string" where
  "sftp_url t = ''sftp://'' @ tg_user t @ ''@'' @ tg_host t @ '':'' @ show_nat (unat (tg_port t)) @ tg_path t"

definition location_str :: "repo_location \<Rightarrow> string" where
  "location_str l = (case l of Local_At p \<Rightarrow> p | Sftp_At t \<Rightarrow> sftp_url t)"

text \<open>
  \<open>SftpBackend::remote_path\<close>: a key below the repository directory; empty segments and
  the two dot names are left out.
\<close>

definition remote_path :: "sftp_target \<Rightarrow> string \<Rightarrow> string" where
  "remote_path t key = foldl (\<lambda>out seg. out @ CHR ''/'' # seg) (tg_path t) (filter plain_seg (split_on (CHR ''/'') key))"

section \<open>Splitting\<close>

lemma split_once_Some: "split_once c s = Some (a, b) \<longleftrightarrow> s = a @ c # b \<and> c \<notin> set a"
proof (induction s arbitrary: a)
  case (Cons x s)
  show ?case
  proof (cases "x = c")
    case True
    then show ?thesis by (cases a) auto
  next
    case False
    have "split_once c (x # s) = Some (a, b) \<longleftrightarrow> (\<exists>a'. a = x # a' \<and> split_once c s = Some (a', b))"
      using False by (auto split: option.splits)
    also have "\<dots> \<longleftrightarrow> (\<exists>a'. a = x # a' \<and> s = a' @ c # b \<and> c \<notin> set a')" unfolding Cons.IH by simp
    also have "\<dots> \<longleftrightarrow> x # s = a @ c # b \<and> c \<notin> set a" using False by (cases a) auto
    finally show ?thesis .
  qed
qed simp

lemma split_once_None: "split_once c s = None \<longleftrightarrow> c \<notin> set s"
  by (induction s) (auto split: option.splits)

lemma rsplit_once_Some: "rsplit_once c s = Some (a, b) \<longleftrightarrow> s = a @ c # b \<and> c \<notin> set b"
proof -
  have "split_once c (rev s) = Some (rev b, rev a) \<longleftrightarrow> s = a @ c # b \<and> c \<notin> set b"
  proof -
    have "rev s = rev b @ c # rev a \<longleftrightarrow> s = a @ c # b" using rev_is_rev_conv [of s "a @ c # b"] by simp
    then show ?thesis by (simp add: split_once_Some)
  qed
  moreover have "rsplit_once c s = Some (a, b) \<longleftrightarrow> split_once c (rev s) = Some (rev b, rev a)"
    by (auto simp: rsplit_once_def)
  ultimately show ?thesis by simp
qed

lemma rsplit_once_None: "rsplit_once c s = None \<longleftrightarrow> c \<notin> set s"
  by (simp add: rsplit_once_def split_once_None)

lemma show_nat_digit: "c \<in> set (show_nat n) \<Longrightarrow> dec_digit c"
  using dec_digits_digit by (simp add: show_nat_def dec_digit_def)

lemma show_nat_nonempty: "show_nat n \<noteq> []"
  by (simp add: show_nat_def dec_digits.simps [of n])

lemma parse_show_port: "parse_u16 (show_nat (unat (p :: 16 word))) = Some p"
proof -
  have d: "list_all dec_digit (show_nat (unat p))" using show_nat_digit by (simp add: list_all_iff)
  have "hd (show_nat (unat p)) \<noteq> CHR ''+''"
    using show_nat_digit [of "hd (show_nat (unat p))" "unat p"] show_nat_nonempty by (auto simp: dec_digit_def)
  moreover have "undigits (show_nat (unat p)) = unat p" by (simp add: show_nat_def undigits_dec_digits)
  moreover have "unat p < 2 ^ 16" using unsigned_less [of p] by simp
  ultimately show ?thesis using d show_nat_nonempty by (simp add: parse_u16_def)
qed

section \<open>Targets and their URLs\<close>

definition target_ok :: "sftp_target \<Rightarrow> bool" where
  "target_ok t \<longleftrightarrow> tg_user t \<noteq> [] \<and> tg_host t \<noteq> [] \<and> CHR ''/'' \<notin> set (tg_user t @ tg_host t)
     \<and> CHR ''@'' \<notin> set (tg_user t) \<and> (\<exists>r. r \<noteq> [] \<and> tg_path t = CHR ''/'' # r)"

lemma parse_url:
  assumes "target_ok t"
  shows "parse_location (sftp_url t) = Inr (Sftp_At t)"
proof -
  obtain r where r: "r \<noteq> []" "tg_path t = CHR ''/'' # r" using assms by (auto simp: target_ok_def)
  let ?hp = "tg_host t @ CHR '':'' # show_nat (unat (tg_port t))"
  let ?auth = "tg_user t @ CHR ''@'' # ?hp"
  have ns: "c \<notin> set (show_nat (unat (tg_port t)))" if "c = CHR ''/'' \<or> c = CHR '':''" for c
    using show_nat_digit [of c] that by (auto simp: dec_digit_def)
  have "strip_prefix (sftp_url t) ''sftp://'' = Some (?auth @ CHR ''/'' # r)"
    by (simp add: strip_prefix_Some sftp_url_def r)
  moreover have "split_once (CHR ''/'') (?auth @ CHR ''/'' # r) = Some (?auth, r)"
    using assms ns by (auto simp: split_once_Some target_ok_def)
  moreover have "split_once (CHR ''@'') ?auth = Some (tg_user t, ?hp)"
    using assms by (simp add: split_once_Some target_ok_def)
  moreover have "rsplit_once (CHR '':'') ?hp = Some (tg_host t, show_nat (unat (tg_port t)))"
    using ns by (simp add: rsplit_once_Some)
  ultimately show ?thesis
    using assms r by (simp add: parse_location_def parse_authority_def host_port_def parse_show_port target_ok_def new_target_def)
qed

lemma parse_authority_Inr:
  assumes "parse_authority s authority = Inr (user, host, port)" "CHR ''/'' \<notin> set authority"
  shows "user \<noteq> [] \<and> host \<noteq> [] \<and> CHR ''/'' \<notin> set (user @ host) \<and> CHR ''@'' \<notin> set user"
proof -
  obtain hp where u: "(case split_once (CHR ''@'') authority of
        Some (u, h) \<Rightarrow> (u, h) | None \<Rightarrow> (''root'', authority)) = (user, hp)"
    and h: "user \<noteq> []" "host \<noteq> []" "host_port s hp = Inr (host, port)"
    using assms(1) by (auto simp: parse_authority_def res_bind_Inr split: if_splits prod.splits)
  have "CHR ''/'' \<notin> set user" "CHR ''@'' \<notin> set user" "CHR ''/'' \<notin> set hp"
    using u assms(2) by (auto simp: split_once_Some split: option.splits)
  moreover have "set host \<subseteq> set hp"
    using h(3) by (auto simp: host_port_def rsplit_once_Some split: option.splits)
  ultimately show ?thesis using h(1,2) by auto
qed

lemma parse_location_Inr:
  assumes "parse_location s = Inr l"
  shows "case l of Local_At q \<Rightarrow> q = s \<and> \<not> starts_with s ''sftp://'' | Sftp_At t \<Rightarrow> target_ok t"
proof (cases "strip_prefix s ''sftp://''")
  case None
  then show ?thesis using assms by (auto simp: parse_location_def strip_prefix_def split: if_splits)
next
  case (Some rest)
  obtain authority path where p: "split_once (CHR ''/'') rest = Some (authority, path)" "path \<noteq> []"
    using assms Some by (auto simp: parse_location_def split: option.splits if_splits)
  obtain user host port where a: "parse_authority s authority = Inr (user, host, port)"
      "l = Sftp_At (new_target user host port (CHR ''/'' # path))"
    using assms Some p by (auto simp: parse_location_def res_bind_Inr)
  have "CHR ''/'' \<notin> set authority" using p(1) by (simp add: split_once_Some)
  then show ?thesis using parse_authority_Inr [OF a(1)] p(2) by (simp add: a(2) target_ok_def new_target_def)
qed

section \<open>What the parser accepts\<close>

text \<open>A decimal number for a port: an optional plus sign and at least one digit.\<close>

definition port_text :: "string \<Rightarrow> 16 word \<Rightarrow> bool" where
  "port_text d n \<longleftrightarrow> (\<exists>ds. (d = ds \<or> d = CHR ''+'' # ds) \<and> ds \<noteq> [] \<and> list_all dec_digit ds \<and> undigits ds = unat n)"

text \<open>The URLs of a target: the user may be left out for \<open>root\<close>, the port for 22.\<close>

definition url_of :: "sftp_target \<Rightarrow> string \<Rightarrow> bool" where
  "url_of t s \<longleftrightarrow> target_ok t \<and> (\<exists>u p. s = ''sftp://'' @ u @ tg_host t @ p @ tg_path t
     \<and> (u = tg_user t @ ''@'' \<or> u = [] \<and> tg_user t = ''root'' \<and> CHR ''@'' \<notin> set (tg_host t @ p))
     \<and> (p = [] \<and> tg_port t = 22 \<and> CHR '':'' \<notin> set (tg_host t) \<or> (\<exists>d. p = CHR '':'' # d \<and> port_text d (tg_port t))))"

lemma parse_u16_text: "parse_u16 d = Some n \<longleftrightarrow> port_text d n"
proof
  assume p: "parse_u16 d = Some n"
  define ds where "ds = (if 1 < length d \<and> hd d = CHR ''+'' then tl d else d)"
  have "parse_u16 d = (if ds = [] \<or> \<not> list_all dec_digit ds \<or> 2 ^ 16 \<le> undigits ds then None else Some (of_nat (undigits ds)))"
    by (simp only: parse_u16_def Let_def ds_def)
  then have n: "ds \<noteq> []" "list_all dec_digit ds" "undigits ds < 2 ^ 16" "n = of_nat (undigits ds)"
    using p by (simp_all split: if_splits)
  have "unat n = undigits ds" using n(3,4) by (simp add: unat_of_nat take_bit_nat_eq_self)
  moreover have "d = ds \<or> d = CHR ''+'' # ds" by (cases d) (auto simp: ds_def)
  ultimately show "port_text d n" unfolding port_text_def using n(1,2) by metis
next
  assume "port_text d n"
  then obtain ds where ds: "d = ds \<or> d = CHR ''+'' # ds" "ds \<noteq> []" "list_all dec_digit ds" "undigits ds = unat n"
    by (auto simp: port_text_def)
  have "hd ds \<noteq> CHR ''+''" using ds(2,3) by (cases ds) (auto simp: dec_digit_def)
  then have "(if 1 < length d \<and> hd d = CHR ''+'' then tl d else d) = ds" using ds(1,2) by auto
  moreover have "unat n < 2 ^ 16" using unsigned_less [of n] by simp
  ultimately show "parse_u16 d = Some n"
    using ds by (simp add: parse_u16_def Let_def)
qed

lemma port_text_chars: "port_text d n \<Longrightarrow> c \<in> set d \<Longrightarrow> dec_digit c \<or> c = CHR ''+''"
  by (auto simp: port_text_def list_all_iff)

lemma host_port_iff:
  "host_port s hp = Inr (h, n) \<longleftrightarrow>
     (\<exists>p. hp = h @ p \<and> (p = [] \<and> n = 22 \<and> CHR '':'' \<notin> set h \<or> (\<exists>d. p = CHR '':'' # d \<and> port_text d n)))"
proof
  assume "host_port s hp = Inr (h, n)"
  then show "\<exists>p. hp = h @ p \<and> (p = [] \<and> n = 22 \<and> CHR '':'' \<notin> set h \<or> (\<exists>d. p = CHR '':'' # d \<and> port_text d n))"
    by (auto simp: host_port_def rsplit_once_Some rsplit_once_None parse_u16_text split: option.splits)
next
  assume "\<exists>p. hp = h @ p \<and> (p = [] \<and> n = 22 \<and> CHR '':'' \<notin> set h \<or> (\<exists>d. p = CHR '':'' # d \<and> port_text d n))"
  then obtain p where p: "hp = h @ p" "p = [] \<and> n = 22 \<and> CHR '':'' \<notin> set h \<or> (\<exists>d. p = CHR '':'' # d \<and> port_text d n)" by blast
  from p(2) show "host_port s hp = Inr (h, n)"
  proof (elim disjE exE conjE)
    assume "p = []" "n = 22" "CHR '':'' \<notin> set h"
    then show ?thesis using p(1) rsplit_once_None [of "CHR '':''" h] by (simp add: host_port_def)
  next
    fix d
    assume d: "p = CHR '':'' # d" "port_text d n"
    have "CHR '':'' \<notin> set d" using port_text_chars [OF d(2), of "CHR '':''"] by (auto simp: dec_digit_def)
    then have "rsplit_once (CHR '':'') hp = Some (h, d)" using p(1) d(1) by (simp add: rsplit_once_Some)
    then show ?thesis using parse_u16_text [THEN iffD2, OF d(2)] by (simp add: host_port_def)
  qed
qed

lemma parse_authority_iff:
  "parse_authority s a = Inr (u, h, n) \<longleftrightarrow> u \<noteq> [] \<and> h \<noteq> [] \<and> (\<exists>hp. host_port s hp = Inr (h, n)
     \<and> (a = u @ CHR ''@'' # hp \<and> CHR ''@'' \<notin> set u \<or> a = hp \<and> u = ''root'' \<and> CHR ''@'' \<notin> set hp))"
proof (cases "split_once (CHR ''@'') a")
  case None
  then have no: "CHR ''@'' \<notin> set a" by (simp add: split_once_None)
  then have "a \<noteq> u @ CHR ''@'' # hp" for hp by auto
  moreover have "parse_authority s a = Inr (u, h, n) \<longleftrightarrow> u = ''root'' \<and> h \<noteq> [] \<and> host_port s a = Inr (h, n)"
    by (cases "host_port s a") (auto simp: parse_authority_def None split: if_splits)
  ultimately show ?thesis using no by auto
next
  case (Some x)
  obtain u' hp where x: "x = (u', hp)" by (cases x)
  have s: "a = u' @ CHR ''@'' # hp" "CHR ''@'' \<notin> set u'" using Some x by (simp_all add: split_once_Some)
  have uniq: "u = u' \<and> hp' = hp" if "a = u @ CHR ''@'' # hp'" "CHR ''@'' \<notin> set u" for hp'
    using that split_once_Some [of "CHR ''@''" a u hp'] Some x by simp
  have "parse_authority s a = Inr (u, h, n) \<longleftrightarrow> u = u' \<and> u \<noteq> [] \<and> h \<noteq> [] \<and> host_port s hp = Inr (h, n)"
    by (cases "host_port s hp") (auto simp: parse_authority_def Some x split: if_splits)
  moreover have "a \<noteq> hp' \<or> CHR ''@'' \<in> set hp'" for hp' using s(1) by auto
  ultimately show ?thesis using s uniq by blast
qed

lemma parse_remote_iff: "parse_location s = Inr (Sftp_At t) \<longleftrightarrow> url_of t s"
proof
  assume p: "parse_location s = Inr (Sftp_At t)"
  have ok: "target_ok t" using parse_location_Inr [OF p] by simp
  obtain rest a path where r: "s = ''sftp://'' @ rest" "rest = a @ CHR ''/'' # path"
    "parse_authority s a = Inr (tg_user t, tg_host t, tg_port t)" "tg_path t = CHR ''/'' # path"
    using p by (auto simp: parse_location_def strip_prefix_Some split_once_Some res_bind_Inr new_target_def
      split: option.splits if_splits)
  obtain hp where hp: "host_port s hp = Inr (tg_host t, tg_port t)"
    "a = tg_user t @ CHR ''@'' # hp \<or> a = hp \<and> tg_user t = ''root'' \<and> CHR ''@'' \<notin> set hp"
    using r(3) by (auto simp: parse_authority_iff)
  obtain p where p: "hp = tg_host t @ p"
    "p = [] \<and> tg_port t = 22 \<and> CHR '':'' \<notin> set (tg_host t) \<or> (\<exists>d. p = CHR '':'' # d \<and> port_text d (tg_port t))"
    using hp(1) unfolding host_port_iff by blast
  define u where "u = (if a = tg_user t @ CHR ''@'' # hp then tg_user t @ ''@'' else [])"
  have "s = ''sftp://'' @ u @ tg_host t @ p @ tg_path t"
    using hp(2) by (auto simp: u_def r(1,2,4) p(1))
  moreover have "u = tg_user t @ ''@'' \<or> u = [] \<and> tg_user t = ''root'' \<and> CHR ''@'' \<notin> set (tg_host t @ p)"
    using hp(2) p(1) by (auto simp: u_def)
  ultimately show "url_of t s" unfolding url_of_def using ok p(2) by blast
next
  assume "url_of t s"
  then obtain u p where ok: "target_ok t" and s: "s = ''sftp://'' @ u @ tg_host t @ p @ tg_path t"
    and u: "u = tg_user t @ ''@'' \<or> u = [] \<and> tg_user t = ''root'' \<and> CHR ''@'' \<notin> set (tg_host t @ p)"
    and p: "p = [] \<and> tg_port t = 22 \<and> CHR '':'' \<notin> set (tg_host t) \<or> (\<exists>d. p = CHR '':'' # d \<and> port_text d (tg_port t))"
    unfolding url_of_def by blast
  obtain r where r: "r \<noteq> []" "tg_path t = CHR ''/'' # r" using ok by (auto simp: target_ok_def)
  let ?a = "u @ tg_host t @ p"
  have "CHR ''/'' \<notin> set p" using p port_text_chars [of _ "tg_port t" "CHR ''/''"] by (auto simp: dec_digit_def)
  then have "CHR ''/'' \<notin> set ?a" using ok u by (auto simp: target_ok_def)
  then have split: "split_once (CHR ''/'') (?a @ CHR ''/'' # r) = Some (?a, r)" by (simp add: split_once_Some)
  have strip: "strip_prefix s ''sftp://'' = Some (?a @ CHR ''/'' # r)" by (simp add: strip_prefix_Some s r)
  have "host_port s (tg_host t @ p) = Inr (tg_host t, tg_port t)" unfolding host_port_iff using p by blast
  then have "parse_authority s ?a = Inr (tg_user t, tg_host t, tg_port t)"
    unfolding parse_authority_iff using ok u by (auto simp: target_ok_def)
  then show "parse_location s = Inr (Sftp_At t)"
    using strip split r by (simp add: parse_location_def new_target_def)
qed

lemma parse_local_iff: "parse_location s = Inr (Local_At q) \<longleftrightarrow> q = s \<and> \<not> starts_with s ''sftp://''"
proof
  show "parse_location s = Inr (Local_At q) \<Longrightarrow> q = s \<and> \<not> starts_with s ''sftp://''" using parse_location_Inr by fastforce
  show "q = s \<and> \<not> starts_with s ''sftp://'' \<Longrightarrow> parse_location s = Inr (Local_At q)"
    by (simp add: parse_location_def strip_prefix_def)
qed

lemma parse_refused: "parse_location s = Inl e \<Longrightarrow> \<exists>m. e = MalformedBlob m"
  by (auto simp: parse_location_def parse_authority_def host_port_def no_path_def res_bind_def
      split: option.splits if_splits prod.splits sum.splits)

text \<open>C36: Which locations parse, to what, and back. A location that does not start with
  \<open>sftp://\<close> is a local path; one that does parses to a target exactly when it is written
  as the target's user and @, which may be left out for root, its host, a colon and its port
  in decimal, which may be left out for 22, and its path, where user and host are not
  empty and hold no slash (nor the user an @) and the path is absolute and not the root;
  any other is a malformed-input error. What the parser accepts it prints back to the same
  location.\<close>

theorem location_roundtrip:
  "(\<forall>s q. parse_location s = Inr (Local_At q) \<longleftrightarrow> q = s \<and> \<not> starts_with s ''sftp://'')
     \<and> (\<forall>s t. parse_location s = Inr (Sftp_At t) \<longleftrightarrow> url_of t s)
     \<and> (\<forall>s e. parse_location s = Inl e \<longrightarrow> (\<exists>m. e = MalformedBlob m))
     \<and> (\<forall>s l. parse_location s = Inr l \<longrightarrow> parse_location (location_str l) = Inr l)
     \<and> (\<forall>t. parse_location (location_str (Sftp_At t)) = Inr (Sftp_At t) \<longleftrightarrow> target_ok t)"
proof (intro conjI allI impI)
  fix s l
  assume p: "parse_location s = Inr l"
  show "parse_location (location_str l) = Inr l"
  proof (cases l)
    case (Local_At q)
    then show ?thesis using p parse_local_iff by (simp add: location_str_def)
  next
    case (Sftp_At t)
    then have "target_ok t" using parse_location_Inr [OF p] by simp
    then show ?thesis using parse_url [of t] Sftp_At by (simp add: location_str_def)
  qed
next
  fix t
  show "parse_location (location_str (Sftp_At t)) = Inr (Sftp_At t) \<longleftrightarrow> target_ok t"
  proof
    assume "parse_location (location_str (Sftp_At t)) = Inr (Sftp_At t)"
    then show "target_ok t" using parse_location_Inr by fastforce
  qed (simp add: location_str_def parse_url)
qed (fact parse_local_iff parse_remote_iff | erule parse_refused)+

theorem location_roundtrip_witness:
  "parse_location ''sftp://nas.lan/backups'' = Inr (Sftp_At (new_target ''root'' ''nas.lan'' 22 ''/backups''))
   \<and> parse_location ''sftp://root@nas.lan:22/backups'' = Inr (Sftp_At (new_target ''root'' ''nas.lan'' 22 ''/backups''))
   \<and> parse_location ''backups/nas'' = Inr (Local_At ''backups/nas'')"
proof -
  let ?t = "new_target ''root'' ''nas.lan'' 22 ''/backups''"
  have "url_of ?t ''sftp://nas.lan/backups''"
    unfolding url_of_def by (rule conjI, simp add: target_ok_def new_target_def, rule exI [of _ "[]"], rule exI [of _ "[]"])
      (simp add: new_target_def)
  then have "parse_location ''sftp://nas.lan/backups'' = Inr (Sftp_At ?t)" using location_roundtrip by blast
  moreover have "location_str (Sftp_At ?t) = ''sftp://root@nas.lan:22/backups''" by code_simp
  moreover note location_roundtrip [THEN conjunct2, THEN conjunct2, THEN conjunct2, THEN conjunct1, rule_format,
    of "''sftp://nas.lan/backups''" "Sftp_At ?t"]
  moreover have "\<not> starts_with ''backups/nas'' ''sftp://''" by code_simp
  then have "parse_location ''backups/nas'' = Inr (Local_At ''backups/nas'')" using location_roundtrip by blast
  ultimately show ?thesis by simp
qed

end
