(* ===== verification/Transport.thy ===== *)
theory Transport
  imports Sftp_Location Remote_Text
begin

text \<open>
  SSH sessions (aegis-core/src/sftp.rs, ssh.rs): how a connection is authenticated, how the
  server's host key is checked against the known hosts, and the manager that caches one
  connection per host. The \<open>russh\<close> library and the network are the record \<open>russh\<close> over a
  state of any type \<open>'s\<close>, which stands for everything outside the process, the file of
  known hosts included. Connections, channels and keys are opaque numbers and strings.
\<close>

section \<open>The library\<close>

datatype known_error = Key_Changed | Known_Other string

datatype channel_msg =
    Msg_Data bytes
  | Msg_Extended bytes nat
  | Msg_Exit "32 word"
  | Msg_Eof
  | Msg_Close
  | Msg_Other

text \<open>
  A call returns a value or the text of its error. \<open>ru_hello\<close> connects and yields the key
  the server presents; \<open>ru_handshake\<close> is what follows once the key is accepted.
\<close>

record 's russh =
  ru_hello :: "string \<Rightarrow> 16 word \<Rightarrow> 's \<Rightarrow> (string + string) \<times> 's"
  ru_handshake :: "string \<Rightarrow> 16 word \<Rightarrow> 's \<Rightarrow> (string + nat) \<times> 's"
  ru_check_known :: "string \<Rightarrow> 16 word \<Rightarrow> string \<Rightarrow> string \<Rightarrow> 's \<Rightarrow> (known_error + bool) \<times> 's"
  ru_learn_known :: "string \<Rightarrow> 16 word \<Rightarrow> string \<Rightarrow> string \<Rightarrow> 's \<Rightarrow> (string + unit) \<times> 's"
  ru_password :: "nat \<Rightarrow> string \<Rightarrow> string \<Rightarrow> 's \<Rightarrow> (string + bool) \<times> 's"
  ru_load_key :: "string \<Rightarrow> string option \<Rightarrow> 's \<Rightarrow> (string + string) \<times> 's"
  ru_publickey :: "nat \<Rightarrow> string \<Rightarrow> string \<Rightarrow> 's \<Rightarrow> (string + bool) \<times> 's"
  ru_open_session :: "nat \<Rightarrow> 's \<Rightarrow> (string + nat) \<times> 's"
  ru_subsystem :: "nat \<Rightarrow> 's \<Rightarrow> (string + unit) \<times> 's"
  ru_sftp_new :: "nat \<Rightarrow> 's \<Rightarrow> (string + nat) \<times> 's"
  ru_exec :: "nat \<Rightarrow> string \<Rightarrow> 's \<Rightarrow> (string + unit) \<times> 's"
  ru_messages :: "nat \<Rightarrow> 's \<Rightarrow> channel_msg list \<times> 's"
  ru_closed :: "nat \<Rightarrow> 's \<Rightarrow> bool"
  ru_env :: "string \<Rightarrow> string option"
  ru_path_exists :: "string \<Rightarrow> 's \<Rightarrow> bool"

text \<open>A library call, its error put into a message and wrapped as \<open>Error::Ssh\<close>.\<close>

definition ssh_call :: "(string \<Rightarrow> string) \<Rightarrow> ('s \<Rightarrow> (string + 'a) \<times> 's) \<Rightarrow> ('s, 'a) io" where
  "ssh_call msg f = (\<lambda>s. case f s of (Inl e, t) \<Rightarrow> (Inl (Ssh (msg e)), t) | (Inr a, t) \<Rightarrow> (Inr a, t))"

definition saying :: "string \<Rightarrow> string \<Rightarrow> string" where
  "saying what e = what @ '': '' @ e"

lemma wp_ssh_call [wp_simps]:
  "wp (ssh_call msg f) Q s = (case f s of (Inl e, t) \<Rightarrow> Q (Inl (Ssh (msg e))) t | (Inr a, t) \<Rightarrow> Q (Inr a) t)"
  by (auto simp: wp_def ssh_call_def split: prod.splits sum.splits)

section \<open>Authentication and host keys\<close>

datatype sftp_auth =
    Auth_Password string
  | Auth_KeyFile string "string option"
  | Auth_Key string

datatype host_key_policy = Strict | AcceptAny

text \<open>\<open>Path::join\<close> of a plain name.\<close>

definition path_join :: "string \<Rightarrow> string \<Rightarrow> string" where
  "path_join p n = (if p = [] then n else if last p = CHR ''/'' then p @ n else p @ CHR ''/'' # n)"

definition DEFAULT_KEYS :: "string list" where
  "DEFAULT_KEYS = [''id_ed25519'', ''id_rsa'']"

definition default_key :: "'s russh \<Rightarrow> string \<Rightarrow> 's \<Rightarrow> string option" where
  "default_key X home s =
     find (\<lambda>p. ru_path_exists X p s) (map (path_join (path_join home ''.ssh'')) DEFAULT_KEYS)"

definition auth_from_env :: "'s russh \<Rightarrow> ('s, sftp_auth) io" where
  "auth_from_env X = (\<lambda>s. case ru_env X ''HOME'' of
      None \<Rightarrow> (Inl (InvalidInput ''no default SSH key (~/.ssh/id_ed25519 or id_rsa) found''), s)
    | Some home \<Rightarrow> (case default_key X home s of
        Some path \<Rightarrow> (Inr (Auth_KeyFile path None), s)
      | None \<Rightarrow> (Inl (InvalidInput ''no default SSH key (~/.ssh/id_ed25519 or id_rsa) found''), s)))"

definition known_hosts_file :: "'s russh \<Rightarrow> string res" where
  "known_hosts_file X = (case ru_env X ''AEGIS_KNOWN_HOSTS'' of
      Some p \<Rightarrow> Inr p
    | None \<Rightarrow> (case (case ru_env X ''HOME'' of Some h \<Rightarrow> Some h | None \<Rightarrow> ru_env X ''USERPROFILE'') of
        Some home \<Rightarrow> Inr (path_join (path_join home ''.ssh'') ''known_hosts'')
      | None \<Rightarrow> Inl (Ssh ''cannot locate the user home directory'')))"

definition host_port_str :: "string \<Rightarrow> 16 word \<Rightarrow> string" where
  "host_port_str host port = host @ '':'' @ show_nat (unat port)"

definition verify_host_key :: "'s russh \<Rightarrow> host_key_policy \<Rightarrow> string \<Rightarrow> 16 word \<Rightarrow> string \<Rightarrow> ('s, bool) io" where
  "verify_host_key X policy host port pubkey = (case policy of
      AcceptAny \<Rightarrow> ret True
    | Strict \<Rightarrow> bnd (lift_res (known_hosts_file X)) (\<lambda>file. \<lambda>s.
        case ru_check_known X host port pubkey file s of
          (Inr True, t) \<Rightarrow> (Inr True, t)
        | (Inr False, t) \<Rightarrow>
            bnd (ssh_call (saying ''recording host key'') (ru_learn_known X host port pubkey file)) (\<lambda>_. ret True) t
        | (Inl Key_Changed, t) \<Rightarrow> (Inl (HostKeyChanged (host_port_str host port)), t)
        | (Inl (Known_Other e), t) \<Rightarrow> (Inl (Ssh (saying ''checking known hosts'' e)), t)))"

text \<open>\<open>Display\<close> of the errors a host-key check can return.\<close>

definition proto_text :: "error \<Rightarrow> string" where
  "proto_text e = (case e of
      Ssh m \<Rightarrow> ''ssh error: '' @ m
    | HostKeyChanged h \<Rightarrow> ''host key for '' @ h @ '' changed (possible man-in-the-middle attack); remove the old entry from your known_hosts to accept the new key''
    | _ \<Rightarrow> [])"

text \<open>
  \<open>client::connect\<close>: greet, have the handler check the key, and finish the key exchange.
  Whatever goes wrong in it becomes one \<open>Error::Ssh\<close>.
\<close>

definition client_connect :: "'s russh \<Rightarrow> string \<Rightarrow> 16 word \<Rightarrow> host_key_policy \<Rightarrow> ('s, nat) io" where
  "client_connect X host port policy =
     (let msg = saying (''connecting to '' @ host_port_str host port) in
      bnd (ssh_call msg (ru_hello X host port)) (\<lambda>pubkey.
      try_io (verify_host_key X policy host port pubkey)
        (\<lambda>e. raise (Ssh (msg (proto_text e))))
        (\<lambda>_. ssh_call msg (ru_handshake X host port))))"

definition authenticate :: "'s russh \<Rightarrow> nat \<Rightarrow> string \<Rightarrow> sftp_auth \<Rightarrow> ('s, bool) io" where
  "authenticate X handle user auth =
     (let msg = saying ''authentication exchange failed'' in
      case auth of
        Auth_Password password \<Rightarrow> ssh_call msg (ru_password X handle user password)
      | Auth_KeyFile path key_passphrase \<Rightarrow>
          bnd (ssh_call (saying (''loading key '' @ path)) (ru_load_key X path key_passphrase)) (\<lambda>key.
          ssh_call msg (ru_publickey X handle user key))
      | Auth_Key key \<Rightarrow> ssh_call msg (ru_publickey X handle user key))"

definition connect_handle ::
  "'s russh \<Rightarrow> string \<Rightarrow> string \<Rightarrow> 16 word \<Rightarrow> sftp_auth \<Rightarrow> host_key_policy \<Rightarrow> ('s, nat) io" where
  "connect_handle X user host port auth policy =
     bnd (client_connect X host port policy) (\<lambda>handle.
     bnd (authenticate X handle user auth) (\<lambda>success.
     if \<not> success then raise (Ssh (''authentication failed for user `'' @ user @ ''` on '' @ host))
     else ret handle))"

text \<open>An SFTP session on a fresh channel of a connection.\<close>

definition open_sftp :: "'s russh \<Rightarrow> string \<Rightarrow> nat \<Rightarrow> ('s, nat) io" where
  "open_sftp X what handle =
     bnd (ssh_call (saying (''opening '' @ what @ '' channel'')) (ru_open_session X handle)) (\<lambda>channel.
     bnd (ssh_call (saying ''requesting sftp subsystem'') (ru_subsystem X channel)) (\<lambda>_.
     ssh_call (saying ''starting SFTP protocol'') (ru_sftp_new X channel)))"

definition connect_and_auth :: "'s russh \<Rightarrow> sftp_target \<Rightarrow> sftp_auth \<Rightarrow> host_key_policy \<Rightarrow> ('s, nat) io" where
  "connect_and_auth X t auth policy =
     bnd (connect_handle X (tg_user t) (tg_host t) (tg_port t) auth policy) (open_sftp X ''session'')"

section \<open>The connection manager\<close>

record host_config =
  hc_user :: string
  hc_host :: string
  hc_port :: "16 word"
  hc_auth :: sftp_auth
  hc_policy :: host_key_policy

definition new_config :: "string \<Rightarrow> string \<Rightarrow> sftp_auth \<Rightarrow> host_config" where
  "new_config user host auth = \<lparr> hc_user = user, hc_host = host, hc_port = 22, hc_auth = auth, hc_policy = Strict \<rparr>"

definition with_port :: "16 word \<Rightarrow> host_config \<Rightarrow> host_config" where
  "with_port port c = c\<lparr> hc_port := port \<rparr>"

definition with_host_key_policy :: "host_key_policy \<Rightarrow> host_config \<Rightarrow> host_config" where
  "with_host_key_policy policy c = c\<lparr> hc_policy := policy \<rparr>"

definition host_key :: "host_config \<Rightarrow> string" where
  "host_key c = hc_user c @ ''@'' @ host_port_str (hc_host c) (hc_port c)"

text \<open>The state of a run through the manager: its cache and the world.\<close>

record 's ssh_state =
  sm_cache :: "string \<Rightarrow> nat option"
  sm_world :: 's

definition on_net :: "('s, 'a) io \<Rightarrow> ('s ssh_state, 'a) io" where
  "on_net m = (\<lambda>s. case m (sm_world s) of (r, t) \<Rightarrow> (r, s\<lparr> sm_world := t \<rparr>))"

lemma wp_on_net [wp_simps]: "wp (on_net m) Q s = wp m (\<lambda>r t. Q r (s\<lparr> sm_world := t \<rparr>)) (sm_world s)"
  by (auto simp: wp_def on_net_def split: prod.splits)

definition disconnect :: "host_config \<Rightarrow> ('s ssh_state, unit) io" where
  "disconnect c = modify (\<lambda>s. s\<lparr> sm_cache := (sm_cache s)(host_key c := None) \<rparr>)"

definition disconnect_all :: "('s ssh_state, unit) io" where
  "disconnect_all = modify (\<lambda>s. s\<lparr> sm_cache := Map.empty \<rparr>)"

definition connection :: "'s russh \<Rightarrow> host_config \<Rightarrow> ('s ssh_state, nat) io" where
  "connection X c = (\<lambda>s.
     let key = host_key c;
         fresh = bnd (try_io (on_net (connect_handle X (hc_user c) (hc_host c) (hc_port c) (hc_auth c) (hc_policy c)))
                        (\<lambda>e. raise (Ssh (saying key (proto_text e)))) ret) (\<lambda>handle.
                 bnd (modify (\<lambda>s. s\<lparr> sm_cache := (sm_cache s)(key \<mapsto> handle) \<rparr>)) (\<lambda>_. ret handle))
     in case sm_cache s key of
          Some conn \<Rightarrow> if \<not> ru_closed X conn (sm_world s) then (Inr conn, s) else fresh s
        | None \<Rightarrow> fresh s)"

record exec_output =
  eo_exit :: "32 word option"
  eo_stdout :: bytes
  eo_stderr :: bytes

definition exec_success :: "exec_output \<Rightarrow> bool" where
  "exec_success out \<longleftrightarrow> eo_exit out = Some 0"

text \<open>The loop over the messages of a channel; the server's \<open>Close\<close> ends it.\<close>

fun collect_output :: "exec_output \<Rightarrow> channel_msg list \<Rightarrow> exec_output" where
  "collect_output out [] = out"
| "collect_output out (m # ms) = (case m of
      Msg_Close \<Rightarrow> out
    | Msg_Data d \<Rightarrow> collect_output (out\<lparr> eo_stdout := eo_stdout out @ d \<rparr>) ms
    | Msg_Extended d k \<Rightarrow>
        collect_output (if k = 1 then out\<lparr> eo_stderr := eo_stderr out @ d \<rparr> else out) ms
    | Msg_Exit code \<Rightarrow> collect_output (out\<lparr> eo_exit := Some code \<rparr>) ms
    | Msg_Eof \<Rightarrow> collect_output out ms
    | Msg_Other \<Rightarrow> collect_output out ms)"

definition ssh_exec :: "'s russh \<Rightarrow> host_config \<Rightarrow> string \<Rightarrow> ('s ssh_state, exec_output) io" where
  "ssh_exec X c command =
     bnd (connection X c) (\<lambda>conn.
     bnd (on_net (ssh_call (saying ''opening exec channel'') (ru_open_session X conn))) (\<lambda>channel.
     bnd (on_net (ssh_call (saying (''exec `'' @ command @ ''`'')) (ru_exec X channel command))) (\<lambda>_.
     on_net (\<lambda>s. case ru_messages X channel s of (ms, t) \<Rightarrow>
       (Inr (collect_output \<lparr> eo_exit = None, eo_stdout = [], eo_stderr = [] \<rparr> ms), t)))))"

definition exec_check :: "'s russh \<Rightarrow> host_config \<Rightarrow> string \<Rightarrow> ('s ssh_state, exec_output) io" where
  "exec_check X c command =
     bnd (ssh_exec X c command) (\<lambda>out.
     if exec_success out then ret out
     else raise (Ssh (''`'' @ command @ ''` failed on '' @ host_key c @ '' with '' @ debug_code (eo_exit out)
       @ '': '' @ trim_text (from_utf8_lossy (eo_stderr out)))))"

definition sftp_channel :: "'s russh \<Rightarrow> host_config \<Rightarrow> ('s ssh_state, nat) io" where
  "sftp_channel X c = bnd (connection X c) (\<lambda>conn. on_net (open_sftp X ''sftp'' conn))"

section \<open>Host keys\<close>

text \<open>The errors of the steps after the key check are \<open>Error::Ssh\<close> as well.\<close>

lemma wp_authenticate: "wp (authenticate X h user auth) (\<lambda>r t. \<forall>e. r = Inl e \<longrightarrow> (\<exists>m. e = Ssh m)) s"
  by (cases auth) (auto simp: authenticate_def Let_def wp_simps split: prod.splits sum.splits)

lemma wp_client_connect: "wp (client_connect X host port policy) (\<lambda>r t. \<forall>e. r = Inl e \<longrightarrow> (\<exists>m. e = Ssh m)) s"
  unfolding client_connect_def Let_def
  by (rule wp_bndI [where M = "\<lambda>r t. \<forall>e. r = Inl e \<longrightarrow> (\<exists>m. e = Ssh m)"])
    (auto simp: wp_simps wp_def [of "verify_host_key _ _ _ _ _"] split: prod.splits sum.splits)

lemma connect_errors:
  "wp (connect_handle X user host port auth policy) (\<lambda>r t. \<forall>e. r = Inl e \<longrightarrow> (\<exists>m. e = Ssh m)) s"
  unfolding connect_handle_def
  by (rule wp_bndI [OF wp_client_connect], simp, rule wp_bndI [OF wp_authenticate]) (simp_all add: wp_simps)

lemma client_connect_Inr:
  assumes "client_connect X host port policy s = (Inr h, t)"
  shows "\<exists>pubkey s1 ok s2. ru_hello X host port s = (Inr pubkey, s1)
     \<and> verify_host_key X policy host port pubkey s1 = (Inr ok, s2)"
  using assms
  by (auto simp: client_connect_def Let_def bnd_def ssh_call_def try_io_def raise_def split: prod.splits sum.splits)

text \<open>C37: What the strict host-key policy guarantees. A connection is made only to a server
  whose key is among the known hosts or was not known there and has been recorded. When the
  server's key differs from the recorded one the connection fails, and no credential is used:
  result and world are the same for every means of authentication. The failure is always an
  \<open>Error::Ssh\<close>, so a changed key is reported in words only, never as \<open>HostKeyChanged\<close>.\<close>

theorem strict_host_keys:
  shows "(\<forall>h t. connect_handle X user host port auth Strict s = (Inr h, t) \<longrightarrow>
        (\<exists>pubkey s1 kh. ru_hello X host port s = (Inr pubkey, s1) \<and> known_hosts_file X = Inr kh
           \<and> (fst (ru_check_known X host port pubkey kh s1) = Inr True
              \<or> fst (ru_check_known X host port pubkey kh s1) = Inr False
                \<and> fst (ru_learn_known X host port pubkey kh (snd (ru_check_known X host port pubkey kh s1))) = Inr ())))
     \<and> (\<forall>pubkey s1 kh. ru_hello X host port s = (Inr pubkey, s1) \<longrightarrow> known_hosts_file X = Inr kh \<longrightarrow>
          fst (ru_check_known X host port pubkey kh s1) = Inl Key_Changed \<longrightarrow>
          \<not> is_ok (fst (connect_handle X user host port auth Strict s))
        \<and> (\<forall>auth'. connect_handle X user host port auth' Strict s = connect_handle X user host port auth Strict s))
     \<and> (\<forall>e. fst (connect_handle X user host port auth Strict s) = Inl e \<longrightarrow> (\<exists>m. e = Ssh m))"
proof (intro conjI allI impI)
  fix h t
  assume "connect_handle X user host port auth Strict s = (Inr h, t)"
  then obtain h' t' where "client_connect X host port Strict s = (Inr h', t')"
    by (auto simp: connect_handle_def bnd_def split: prod.splits sum.splits)
  from client_connect_Inr [OF this] obtain pubkey s1 ok s2 where k: "ru_hello X host port s = (Inr pubkey, s1)"
      "verify_host_key X Strict host port pubkey s1 = (Inr ok, s2)"
    by (elim exE conjE)
  then show "\<exists>pubkey s1 kh. ru_hello X host port s = (Inr pubkey, s1) \<and> known_hosts_file X = Inr kh
           \<and> (fst (ru_check_known X host port pubkey kh s1) = Inr True
              \<or> fst (ru_check_known X host port pubkey kh s1) = Inr False
                \<and> fst (ru_learn_known X host port pubkey kh (snd (ru_check_known X host port pubkey kh s1))) = Inr ())"
    by (auto simp: verify_host_key_def bnd_def lift_res_def ssh_call_def ret_def split: prod.splits sum.splits bool.splits known_error.splits)
next
  fix pubkey s1 kh
  assume a: "ru_hello X host port s = (Inr pubkey, s1)" "known_hosts_file X = Inr kh"
    "fst (ru_check_known X host port pubkey kh s1) = Inl Key_Changed"
  obtain s2 where c: "ru_check_known X host port pubkey kh s1 = (Inl Key_Changed, s2)" using a(3) by (cases "ru_check_known X host port pubkey kh s1") auto
  have "\<exists>m. client_connect X host port Strict s = (Inl (Ssh m), s2)"
    by (simp add: client_connect_def Let_def bnd_def ssh_call_def try_io_def raise_def verify_host_key_def lift_res_def a c)
  then obtain m where m: "client_connect X host port Strict s = (Inl (Ssh m), s2)" by blast
  have run: "connect_handle X user host port auth' Strict s = (Inl (Ssh m), s2)" for auth'
    by (simp add: connect_handle_def bnd_def m)
  show "\<not> is_ok (fst (connect_handle X user host port auth Strict s))" by (simp add: run)
  show "connect_handle X user host port auth' Strict s = connect_handle X user host port auth Strict s" for auth'
    by (simp add: run)
next
  fix e
  assume "fst (connect_handle X user host port auth Strict s) = Inl e"
  then show "\<exists>m. e = Ssh m" using connect_errors [of X user host port auth Strict s] by (auto simp: wp_def split: prod.splits)
qed

text \<open>A server whose key changed since it was recorded.\<close>

definition changed_russh :: "unit russh" where
  "changed_russh = \<lparr>
     ru_hello = (\<lambda>h p s. (Inr ''new'', s)), ru_handshake = (\<lambda>h p s. (Inr 0, s)),
     ru_check_known = (\<lambda>h p k f s. (Inl Key_Changed, s)), ru_learn_known = (\<lambda>h p k f s. (Inr (), s)),
     ru_password = (\<lambda>c u pw s. (Inr True, s)), ru_load_key = (\<lambda>p pw s. (Inr ''id'', s)),
     ru_publickey = (\<lambda>c u k s. (Inr True, s)), ru_open_session = (\<lambda>c s. (Inr 0, s)),
     ru_subsystem = (\<lambda>c s. (Inr (), s)), ru_sftp_new = (\<lambda>c s. (Inr 0, s)),
     ru_exec = (\<lambda>c cmd s. (Inr (), s)), ru_messages = (\<lambda>c s. ([], s)), ru_closed = (\<lambda>c s. False),
     ru_env = (\<lambda>v. Some ''/root''), ru_path_exists = (\<lambda>p s. True) \<rparr>"

theorem strict_host_keys_witness:
  "\<not> is_ok (fst (connect_handle changed_russh ''u'' ''h'' 22 (Auth_Password ''pw'') Strict ()))
   \<and> connect_handle changed_russh ''u'' ''h'' 22 (Auth_Key ''k'') Strict ()
     = connect_handle changed_russh ''u'' ''h'' 22 (Auth_Password ''pw'') Strict ()"
proof -
  have k: "known_hosts_file changed_russh = Inr ''/root''" by (simp add: known_hosts_file_def changed_russh_def)
  have h: "ru_hello changed_russh ''h'' 22 () = (Inr ''new'', ())"
    "fst (ru_check_known changed_russh ''h'' 22 ''new'' ''/root'' ()) = Inl Key_Changed"
    by (simp_all add: changed_russh_def)
  note s = strict_host_keys [of changed_russh "''u''" "''h''" 22 "Auth_Password ''pw''" "()", THEN conjunct2, THEN conjunct1,
    rule_format, OF h(1) k h(2)]
  show ?thesis using s by blast
qed

end
