(* ===== verification/Sftp_Backend.thy ===== *)
theory Sftp_Backend
  imports Transport Replication Open_Correct Local_Listing
begin

text \<open>
  \<open>SftpBackend\<close> of aegis-core/src/sftp.rs: a repository on an SFTP server. The session of
  the \<open>russh_sftp\<close> library is the record \<open>sftp_session\<close> over the same outside world as the
  SSH library; sessions are numbered, and \<open>SF\<close> is the session of each number. Opening a
  repository by its location chooses between this backend and the local one.
\<close>

section \<open>Sessions\<close>

datatype sftp_error = No_Such_File | Sftp_Failure string

type_synonym ('s, 'a) sftp_call = "'s \<Rightarrow> (sftp_error + 'a) \<times> 's"

text \<open>
  An open file is named by its path. \<open>sf_read_dir\<close> returns names, each with whether it is a
  directory. \<open>sf_entries\<close> is not a call: it bounds the entries the server holds, and only
  fuels the listing loop.
\<close>

record 's sftp_session =
  sf_try_exists :: "string \<Rightarrow> ('s, bool) sftp_call"
  sf_create_dir :: "string \<Rightarrow> ('s, unit) sftp_call"
  sf_open_read :: "string \<Rightarrow> ('s, unit) sftp_call"
  sf_read_to_end :: "string \<Rightarrow> ('s, bytes) sftp_call"
  sf_open_write :: "string \<Rightarrow> ('s, unit) sftp_call"
  sf_write_all :: "string \<Rightarrow> bytes \<Rightarrow> ('s, unit) sftp_call"
  sf_sync_all :: "string \<Rightarrow> ('s, unit) sftp_call"
  sf_close :: "string \<Rightarrow> ('s, unit) sftp_call"
  sf_rename :: "string \<Rightarrow> string \<Rightarrow> ('s, unit) sftp_call"
  sf_remove_file :: "string \<Rightarrow> ('s, unit) sftp_call"
  sf_read_dir :: "string \<Rightarrow> ('s, (string \<times> bool) list) sftp_call"
  sf_entries :: "'s \<Rightarrow> nat"

definition sftp_text :: "sftp_error \<Rightarrow> string" where
  "sftp_text e = (case e of No_Such_File \<Rightarrow> ''No such file'' | Sftp_Failure m \<Rightarrow> m)"

definition sftp_try :: "('s, 'a) sftp_call \<Rightarrow> ('s, sftp_error + 'a) io" where
  "sftp_try f = (\<lambda>s. case f s of (r, t) \<Rightarrow> (Inr r, t))"

definition sftp_do :: "string \<Rightarrow> ('s, 'a) sftp_call \<Rightarrow> ('s, 'a) io" where
  "sftp_do what f = bnd (sftp_try f) (\<lambda>r. case r of
      Inl e \<Rightarrow> raise (Ssh (saying what (sftp_text e))) | Inr a \<Rightarrow> ret a)"

lemma wp_sftp_try [wp_simps]: "wp (sftp_try f) Q s = (case f s of (r, t) \<Rightarrow> Q (Inr r) t)"
  by (auto simp: wp_def sftp_try_def split: prod.splits)

lemma wp_sftp_do:
  "wp (sftp_do what f) Q s = (case f s of (r, t) \<Rightarrow> (case r of
      Inl e \<Rightarrow> Q (Inl (Ssh (saying what (sftp_text e)))) t | Inr a \<Rightarrow> Q (Inr a) t))"
  by (auto simp: sftp_do_def wp_simps split: prod.splits sum.splits)

section \<open>The operations\<close>

text \<open>The state of a backend: the world, the session once opened, and the random names.\<close>

record 's sftp_state =
  ft_world :: 's
  ft_session :: "nat option"
  ft_uuids :: "nat \<Rightarrow> string"
  ft_pos :: nat

definition on_world :: "('s, 'a) io \<Rightarrow> ('s sftp_state, 'a) io" where
  "on_world m = (\<lambda>s. case m (ft_world s) of (r, t) \<Rightarrow> (r, s\<lparr> ft_world := t \<rparr>))"

lemma wp_on_world [wp_simps]: "wp (on_world m) Q s = wp m (\<lambda>r t. Q r (s\<lparr> ft_world := t \<rparr>)) (ft_world s)"
  by (auto simp: wp_def on_world_def split: prod.splits)

definition sftp_uuid :: "('s sftp_state, string) io" where
  "sftp_uuid = (\<lambda>s. (Inr (hyphenated (ft_uuids s (ft_pos s))), s\<lparr> ft_pos := Suc (ft_pos s) \<rparr>))"

lemma wp_sftp_uuid [wp_simps]:
  "wp sftp_uuid Q s = Q (Inr (hyphenated (ft_uuids s (ft_pos s)))) (s\<lparr> ft_pos := Suc (ft_pos s) \<rparr>)"
  by (simp add: wp_def sftp_uuid_def)

text \<open>\<open>SftpBackend::sftp\<close>: connect on the first operation, then reuse.\<close>

definition the_session ::
  "'s russh \<Rightarrow> sftp_target \<Rightarrow> sftp_auth \<Rightarrow> host_key_policy \<Rightarrow> ('s sftp_state, nat) io" where
  "the_session X T auth policy = (\<lambda>s. case ft_session s of
      Some i \<Rightarrow> (Inr i, s)
    | None \<Rightarrow> bnd (on_world (connect_and_auth X T auth policy)) (\<lambda>i.
              bnd (modify (\<lambda>s. s\<lparr> ft_session := Some i \<rparr>)) (\<lambda>_. ret i)) s)"

fun mkdir_from :: "'s sftp_session \<Rightarrow> string \<Rightarrow> string list \<Rightarrow> ('s, unit) io" where
  "mkdir_from S here [] = ret ()"
| "mkdir_from S here (seg # segs) =
     (let here = here @ CHR ''/'' # seg in
      bnd (sftp_try (sf_try_exists S here)) (\<lambda>r.
      if r = Inr True then mkdir_from S here segs
      else bnd (sftp_do (''mkdir '' @ here) (sf_create_dir S here)) (\<lambda>_. mkdir_from S here segs)))"

definition mkdir_all :: "'s sftp_session \<Rightarrow> string \<Rightarrow> ('s, unit) io" where
  "mkdir_all S remote_dir = mkdir_from S [] (filter (\<lambda>s. s \<noteq> []) (split_on (CHR ''/'') remote_dir))"

definition read_all :: "'s sftp_session \<Rightarrow> string \<Rightarrow> ('s, bytes) io" where
  "read_all S path =
     bnd (sftp_do (''open '' @ path) (sf_open_read S path)) (\<lambda>_.
     sftp_do (''reading '' @ path) (sf_read_to_end S path))"

definition write_via_temp :: "'s sftp_session \<Rightarrow> string \<Rightarrow> string \<Rightarrow> bytes \<Rightarrow> ('s, unit) io" where
  "write_via_temp S u path data =
     (let tmp = path @ ''.tmp-'' @ u in
      bnd (sftp_do (''open '' @ tmp) (sf_open_write S tmp)) (\<lambda>_.
      bnd (sftp_do (''writing '' @ tmp) (sf_write_all S tmp data)) (\<lambda>_.
      bnd (sftp_do (''flushing '' @ tmp) (sf_sync_all S tmp)) (\<lambda>_.
      bnd (sftp_do (''closing '' @ tmp) (sf_close S tmp)) (\<lambda>_.
      bnd (sftp_try (sf_rename S tmp path)) (\<lambda>r. case r of
          Inr _ \<Rightarrow> ret ()
        | Inl _ \<Rightarrow>
            bnd (sftp_do (''replacing '' @ path) (sf_remove_file S path)) (\<lambda>_.
            sftp_do (''replacing '' @ path) (sf_rename S tmp path))))))))"

definition parent_dir :: "sftp_target \<Rightarrow> string \<Rightarrow> string" where
  "parent_dir T path = (case rsplit_once (CHR ''/'') path of
      Some (d, _) \<Rightarrow> if d \<noteq> [] then d else tg_path T
    | None \<Rightarrow> tg_path T)"

definition sftp_read_dir :: "'s sftp_session \<Rightarrow> string \<Rightarrow> ('s, (string \<times> bool) list option) io" where
  "sftp_read_dir S dir = bnd (sftp_try (sf_read_dir S dir)) (\<lambda>r. case r of
      Inr entries \<Rightarrow> ret (Some (filter (\<lambda>(n, _). n \<noteq> ''.'' \<and> n \<noteq> ''..'') entries))
    | Inl No_Such_File \<Rightarrow> ret None
    | Inl e \<Rightarrow> raise (Ssh (saying (''read_dir '' @ dir) (sftp_text e))))"

definition sftp_walk :: "'s sftp_session \<Rightarrow> string \<Rightarrow> string \<Rightarrow> ('s, string list) io" where
  "sftp_walk S base key_prefix = (\<lambda>s.
     list_loop (sftp_read_dir S) (\<lambda>d n. d @ CHR ''/'' # n) (sf_entries S s) [(base, key_prefix)] [] s)"

section \<open>The backend\<close>

definition sftp_get where
  "sftp_get X SF T auth policy key =
     bnd (the_session X T auth policy) (\<lambda>i. on_world (read_all (SF i) (remote_path T key)))"

definition sftp_put where
  "sftp_put X SF T auth policy key data =
     bnd (the_session X T auth policy) (\<lambda>i.
     let path = remote_path T key in
     bnd (on_world (mkdir_all (SF i) (parent_dir T path))) (\<lambda>_.
     bnd sftp_uuid (\<lambda>u. on_world (write_via_temp (SF i) u path data))))"

definition sftp_exists where
  "sftp_exists X SF T auth policy key =
     bnd (the_session X T auth policy) (\<lambda>i.
     let path = remote_path T key in
     on_world (sftp_do (''stat '' @ path) (sf_try_exists (SF i) path)))"

definition sftp_list where
  "sftp_list X SF T auth policy pfx =
     bnd (the_session X T auth policy) (\<lambda>i.
     on_world (sftp_walk (SF i) (remote_path T pfx) (trim_end (CHR ''/'') pfx)))"

definition sftp_delete where
  "sftp_delete X SF T auth policy key =
     bnd (the_session X T auth policy) (\<lambda>i.
     let path = remote_path T key in
     bnd (on_world (sftp_try (sf_remove_file (SF i) path))) (\<lambda>r. case r of
         Inr _ \<Rightarrow> ret ()
       | Inl No_Such_File \<Rightarrow> ret ()
       | Inl e \<Rightarrow> raise (Ssh (saying (''delete '' @ path) (sftp_text e)))))"

definition sftp_backend ::
  "'s russh \<Rightarrow> (nat \<Rightarrow> 's sftp_session) \<Rightarrow> sftp_target \<Rightarrow> sftp_auth \<Rightarrow> host_key_policy \<Rightarrow> 's sftp_state backend" where
  "sftp_backend X SF T auth policy = \<lparr> b_get = sftp_get X SF T auth policy, b_put = sftp_put X SF T auth policy,
     b_exists = sftp_exists X SF T auth policy, b_list = sftp_list X SF T auth policy,
     b_delete = sftp_delete X SF T auth policy, b_describe = sftp_url T \<rparr>"

section \<open>Repositories by location\<close>

text \<open>A backend as one of two that share a state: the box around \<open>dyn Backend\<close>.\<close>

definition as_first :: "'a backend \<Rightarrow> ('a \<times> 'b) backend" where
  "as_first B = \<lparr> b_get = (\<lambda>k. on_source (b_get B k)), b_put = (\<lambda>k d. on_source (b_put B k d)),
     b_exists = (\<lambda>k. on_source (b_exists B k)), b_list = (\<lambda>k. on_source (b_list B k)),
     b_delete = (\<lambda>k. on_source (b_delete B k)), b_describe = b_describe B \<rparr>"

definition as_second :: "'b backend \<Rightarrow> ('a \<times> 'b) backend" where
  "as_second B = \<lparr> b_get = (\<lambda>k. on_target (b_get B k)), b_put = (\<lambda>k d. on_target (b_put B k d)),
     b_exists = (\<lambda>k. on_target (b_exists B k)), b_list = (\<lambda>k. on_target (b_list B k)),
     b_delete = (\<lambda>k. on_target (b_delete B k)), b_describe = b_describe B \<rparr>"

definition local_at :: "path \<Rightarrow> string \<Rightarrow> (local_state \<times> 'b) backend" where
  "local_at cwd path = as_first (local_backend (resolve (if starts_with path ''/'' then [] else cwd) path))"

definition open_backend ::
  "'s russh \<Rightarrow> (nat \<Rightarrow> 's sftp_session) \<Rightarrow> path \<Rightarrow> string \<Rightarrow> sftp_auth \<Rightarrow> (local_state \<times> 's sftp_state) backend res" where
  "open_backend X SF cwd location auth = res_bind (parse_location location) (\<lambda>l. case l of
      Local_At path \<Rightarrow> Inr (local_at cwd path)
    | Sftp_At target \<Rightarrow> Inr (as_second (sftp_backend X SF target auth Strict)))"

definition open_repository where
  "open_repository L X SF cwd location auth passphrase =
     bnd (lift_res (open_backend X SF cwd location auth)) (\<lambda>B. open_repo L B passphrase)"

definition init_repository where
  "init_repository L X SF cwd location auth chunker passphrase =
     bnd (lift_res (open_backend X SF cwd location auth)) (\<lambda>B. init L B chunker passphrase)"

end
