(* ===== verification/Sftp_Contract.thy ===== *)
theory Sftp_Contract
  imports Sftp_Backend
begin

text \<open>
  The SFTP backend keeps the storage contract. The interface \<open>sftp_server\<close> states what the
  backend relies on of the server and of the session library: each call acts on a file tree
  as the file-system call of its name does, or fails, with or without its effect when the
  answer is lost; a rename may refuse an existing target; in a live state calls succeed.
\<close>

section \<open>Remote paths\<close>

text \<open>The path a remote name stands for.\<close>

definition posix :: "string \<Rightarrow> path" where
  "posix p = foldl join_seg [] (split_on (CHR ''/'') p)"

definition plain_target :: "sftp_target \<Rightarrow> bool" where
  "plain_target T \<longleftrightarrow> (\<forall>seg\<in>set (split_on (CHR ''/'') (tg_path T)). seg = [] \<or> plain_seg seg)"

lemma split_on_append: "split_on c (p @ c # s) = split_on c p @ split_on c s"
proof (induction p)
  case (Cons x p)
  then show ?case by (cases "split_on c p") (auto split: list.splits)
qed simp

lemma posix_Nil [simp]: "posix [] = []"
  by (simp add: posix_def join_seg_def)

lemma posix_below: "posix (p @ CHR ''/'' # s) = foldl join_seg (posix p) (split_on (CHR ''/'') s)"
  by (simp add: posix_def split_on_append)

lemma posix_child: "CHR ''/'' \<notin> set n \<Longrightarrow> plain_seg n \<Longrightarrow> posix (p @ CHR ''/'' # n) = posix p @ [n]"
  by (simp add: posix_below split_on_id join_seg_def plain_seg_def)

lemma foldl_posix:
  "\<forall>n\<in>set q. CHR ''/'' \<notin> set n \<and> plain_seg n \<Longrightarrow> posix (foldl (\<lambda>out seg. out @ CHR ''/'' # seg) p q) = posix p @ q"
  by (induction q arbitrary: p) (auto simp: posix_child)

text \<open>A directory name whose segments are plain is the list of them.\<close>

lemma posix_plain:
  "\<forall>seg\<in>set (split_on (CHR ''/'') p). seg = [] \<or> plain_seg seg \<Longrightarrow> posix p = filter (\<lambda>s. s \<noteq> []) (split_on (CHR ''/'') p)"
proof -
  have "foldl join_seg r segs = r @ filter (\<lambda>s. s \<noteq> []) segs" if "\<forall>seg\<in>set segs. seg = [] \<or> plain_seg seg" for r segs
    using that by (induction segs arbitrary: r) (auto simp: join_seg_def plain_seg_def)
  then show "\<forall>seg\<in>set (split_on (CHR ''/'') p). seg = [] \<or> plain_seg seg \<Longrightarrow> ?thesis" by (simp add: posix_def)
qed

lemma store_path_segs: "store_path q \<Longrightarrow> \<forall>n\<in>set q. CHR ''/'' \<notin> set n \<and> plain_seg n"
  using store_path_plain store_path_no_slash by blast

lemma remote_path_plain:
  "\<forall>seg\<in>set (key_path k). plain_seg seg \<Longrightarrow> remote_path T k = foldl (\<lambda>out seg. out @ CHR ''/'' # seg) (tg_path T) (key_path k)"
proof -
  assume "\<forall>seg\<in>set (key_path k). plain_seg seg"
  then have "filter plain_seg (key_path k) = key_path k" by (simp add: filter_id_conv)
  then show ?thesis by (simp add: remote_path_def key_path_def)
qed

lemma posix_remote: "store_key k \<Longrightarrow> posix (remote_path T k) = posix (tg_path T) @ key_path k"
proof -
  assume k: "store_key k"
  then have s: "\<forall>n\<in>set (key_path k). CHR ''/'' \<notin> set n \<and> plain_seg n"
    by (intro store_path_segs) (auto simp: store_key_def store_path_def)
  then show ?thesis using foldl_posix [OF s] remote_path_plain by simp
qed

lemma remote_prefix: "list_prefix p \<Longrightarrow> remote_path T p = tg_path T @ CHR ''/'' # trim_end (CHR ''/'') p"
  using split_prefix [of p] prefix_plain [of p] by (auto simp: remote_path_def plain_seg_def)

lemma posix_remote_prefix: "list_prefix p \<Longrightarrow> posix (remote_path T p) = posix (tg_path T) @ [trim_end (CHR ''/'') p]"
  using posix_child prefix_plain by (simp add: remote_prefix)

text \<open>The directory a write creates, and the temporary name beside its target.\<close>

lemma split_off_last: "q \<noteq> [] \<Longrightarrow> foldl (\<lambda>out seg. out @ CHR ''/'' # seg) p q
    = foldl (\<lambda>out seg. out @ CHR ''/'' # seg) p (butlast q) @ CHR ''/'' # last q"
  by (cases q rule: rev_cases) simp_all

lemma parent_remote:
  assumes k: "store_key k" and T: "plain_target T"
  shows "filter (\<lambda>s. s \<noteq> []) (split_on (CHR ''/'') (parent_dir T (remote_path T k))) = posix (tg_path T) @ butlast (key_path k)"
proof -
  let ?cat = "foldl (\<lambda>out seg. out @ CHR ''/'' # seg)"
  have q: "store_path (key_path k)" using k by (auto simp: store_key_def store_path_def)
  have s: "\<forall>n\<in>set (key_path k). CHR ''/'' \<notin> set n \<and> plain_seg n" by (rule store_path_segs [OF q])
  have r: "remote_path T k = ?cat (tg_path T) (butlast (key_path k)) @ CHR ''/'' # last (key_path k)"
    using remote_path_plain [of k T] s split_off_last [of "key_path k"] by simp
  have "CHR ''/'' \<notin> set (last (key_path k))" using s by simp
  then have sp: "rsplit_once (CHR ''/'') (remote_path T k) = Some (?cat (tg_path T) (butlast (key_path k)), last (key_path k))"
    by (simp add: rsplit_once_Some r)
  have b: "\<forall>n\<in>set (butlast (key_path k)). CHR ''/'' \<notin> set n \<and> plain_seg n" using s by (auto dest: in_set_butlastD)
  have cat: "split_on (CHR ''/'') (?cat p q) = split_on (CHR ''/'') p @ q"
    if "\<forall>n\<in>set q. CHR ''/'' \<notin> set n" for p q
    using that by (induction q arbitrary: p) (auto simp: split_on_append split_on_id)
  have pt: "posix (tg_path T) = filter (\<lambda>s. s \<noteq> []) (split_on (CHR ''/'') (tg_path T))"
    using posix_plain T by (simp add: plain_target_def)
  have ne: "filter (\<lambda>s. s \<noteq> []) (butlast (key_path k)) = butlast (key_path k)"
    using b by (auto simp: filter_id_conv plain_seg_def)
  show ?thesis
  proof (cases "?cat (tg_path T) (butlast (key_path k)) = []")
    case True
    then have "split_on (CHR ''/'') (tg_path T) @ butlast (key_path k) = [[]]" using cat [of "butlast (key_path k)" "tg_path T"] b by simp
    then have "butlast (key_path k) = []" by (cases "split_on (CHR ''/'') (tg_path T)") auto
    then show ?thesis using True sp pt by (simp add: parent_dir_def)
  next
    case False
    then show ?thesis using sp pt cat [of "butlast (key_path k)" "tg_path T"] b ne by (simp add: parent_dir_def)
  qed
qed

lemma temp_remote:
  assumes k: "repo_key k" and u: "ident u"
  shows "\<exists>tq. posix (remote_path T k @ ''.tmp-'' @ u) = posix (tg_path T) @ tq \<and> temp_path tq
     \<and> butlast tq = butlast (key_path k) \<and> tq \<noteq> key_path k"
proof -
  let ?cat = "foldl (\<lambda>out seg. out @ CHR ''/'' # seg)"
  have q: "store_path (key_path k)" using k by (simp add: repo_key_def store_path_def)
  have ne: "key_path k \<noteq> []" by simp
  have s: "\<forall>n\<in>set (key_path k). CHR ''/'' \<notin> set n \<and> plain_seg n" by (rule store_path_segs [OF q])
  let ?t = "butlast (key_path k) @ [last (key_path k) @ tmp_ext u]"
  have "temp_path ?t"
  proof -
    from k consider "key_path k = [''config'']" | d s where "d \<in> set doc_dirs" "ident s" "key_path k = [d, s @ ''.json'']"
      | h where "ident h" "2 \<le> length h" "key_path k = [''blobs'', take 2 h, h]"
      unfolding repo_key_def repo_path_def by blast
    then show ?thesis
    proof cases
      case 2
      then have "?t = [d, s @ ''.json'' @ tmp_ext u]" by simp
      then show ?thesis using u 2(1,2) unfolding temp_path_def by blast
    qed (use u in \<open>auto simp: temp_path_def\<close>)
  qed
  moreover have "remote_path T k @ ''.tmp-'' @ u = ?cat (tg_path T) ?t"
    using remote_path_plain [of k T] s split_off_last [OF ne, of "tg_path T"] by (simp add: tmp_ext_def)
  moreover have "posix (?cat (tg_path T) ?t) = posix (tg_path T) @ ?t"
    by (rule foldl_posix, rule store_path_segs) (use calculation(1) in \<open>simp add: store_path_def\<close>)
  moreover have "?t \<noteq> key_path k" using calculation(1) k repo_not_temp by (metis repo_key_def)
  ultimately show ?thesis by (metis butlast_snoc)
qed

section \<open>What the backend relies on\<close>

text \<open>
  A call that acts as the file-system call \<open>f\<close>: an answer is the one of \<open>f\<close>; an error leaves
  the tree as it was or with the effect of \<open>f\<close> (a lost answer); \<open>No_Such_File\<close> is what \<open>f\<close>
  finds; and in a live state only the errors of \<open>f\<close> occur.
\<close>

definition answers :: "('s \<Rightarrow> fs) \<Rightarrow> ('s \<Rightarrow> bool) \<Rightarrow> ('s, 'a) sftp_call \<Rightarrow> (fs \<Rightarrow> io_kind + 'a \<times> fs) \<Rightarrow> bool" where
  "answers tree live c f \<longleftrightarrow> (\<forall>s. case c s of (r, t) \<Rightarrow> (live s \<longrightarrow> live t) \<and> (case r of
       Inr a \<Rightarrow> f (tree s) = Inr (a, tree t)
     | Inl e \<Rightarrow> (tree t = tree s \<or> (\<exists>a. f (tree s) = Inr (a, tree t)))
         \<and> (e = No_Such_File \<longrightarrow> f (tree s) = Inl NotFound \<and> tree t = tree s)
         \<and> (live s \<longrightarrow> tree t = tree s \<and> (\<exists>k. f (tree s) = Inl k \<and> (k = NotFound \<longrightarrow> e = No_Such_File)))))"

text \<open>The calls SFTP has and the local file system has not, or not in this form.\<close>

definition fs_exists :: "path \<Rightarrow> fs \<Rightarrow> io_kind + bool \<times> fs" where
  "fs_exists p fs = (case stat fs p of
      Inr _ \<Rightarrow> Inr (True, fs) | Inl NotFound \<Rightarrow> Inr (False, fs) | Inl OtherKind \<Rightarrow> Inl OtherKind)"

definition fs_create_dir :: "path \<Rightarrow> fs \<Rightarrow> io_kind + unit \<times> fs" where
  "fs_create_dir p fs = (case stat fs p of
      Inr _ \<Rightarrow> Inl OtherKind
    | Inl OtherKind \<Rightarrow> Inl OtherKind
    | Inl NotFound \<Rightarrow> if is_dir fs (butlast p) then Inr ((), fs_set p EDir fs) else Inl NotFound)"

definition fs_open :: "path \<Rightarrow> fs \<Rightarrow> io_kind + unit \<times> fs" where
  "fs_open p fs = (case stat fs p of Inl k \<Rightarrow> Inl k | Inr _ \<Rightarrow> Inr ((), fs))"

definition not_dots :: "(string \<times> bool) list \<Rightarrow> (string \<times> bool) list" where
  "not_dots = filter (\<lambda>(n, _). n \<noteq> ''.'' \<and> n \<noteq> ''..'')"

definition fs_list :: "path \<Rightarrow> fs \<Rightarrow> io_kind + (string \<times> bool) list \<times> fs" where
  "fs_list p fs = (case fs_read_dir p fs of
      Inl k \<Rightarrow> Inl k | Inr (es, fs') \<Rightarrow> Inr (not_dots (map (\<lambda>(n, e). (n, e = EDir)) es), fs'))"

text \<open>A listing up to the two dot names, which servers may or may not report.\<close>

definition no_dots :: "('s, (string \<times> bool) list) sftp_call \<Rightarrow> ('s, (string \<times> bool) list) sftp_call" where
  "no_dots c = (\<lambda>s. case c s of (r, t) \<Rightarrow> (map_sum id not_dots r, t))"

text \<open>A write that fails has written a part; a rename may refuse an existing target.\<close>

definition appends :: "('s \<Rightarrow> fs) \<Rightarrow> ('s \<Rightarrow> bool) \<Rightarrow> path \<Rightarrow> bytes \<Rightarrow> ('s, unit) sftp_call \<Rightarrow> bool" where
  "appends tree live p d c \<longleftrightarrow> (\<forall>s. case c s of (r, t) \<Rightarrow> (live s \<longrightarrow> live t \<and> r = Inr ())
     \<and> (\<exists>n. tree t = fs_append p (take n d) (tree s) \<and> (r = Inr () \<longrightarrow> length d \<le> n)))"

definition renames :: "('s \<Rightarrow> fs) \<Rightarrow> ('s \<Rightarrow> bool) \<Rightarrow> path \<Rightarrow> path \<Rightarrow> ('s, unit) sftp_call \<Rightarrow> bool" where
  "renames tree live p q c \<longleftrightarrow> (\<forall>s. case c s of (r, t) \<Rightarrow> (live s \<longrightarrow> live t) \<and> (case r of
       Inr _ \<Rightarrow> fs_rename p q (tree s) = Inr ((), tree t)
     | Inl e \<Rightarrow> (tree t = tree s \<or> fs_rename p q (tree s) = Inr ((), tree t))
         \<and> (live s \<longrightarrow> tree t = tree s \<and> (ent (tree s) q \<noteq> None \<or> (\<exists>k. fs_rename p q (tree s) = Inl k)))))"

locale sftp_server =
  fixes X :: "'s russh" and SF :: "nat \<Rightarrow> 's sftp_session" and T :: sftp_target
    and auth :: sftp_auth and policy :: host_key_policy
    and tree :: "'s \<Rightarrow> fs" and live :: "'s \<Rightarrow> bool"
  assumes plain: "plain_target T"
    and connect_law: "wp (connect_and_auth X T auth policy) (\<lambda>r t. tree t = tree s \<and> (live s \<longrightarrow> live t \<and> is_ok r)) s"
    and exists_law: "answers tree live (sf_try_exists (SF i) p) (fs_exists (posix p))"
    and create_dir_law: "answers tree live (sf_create_dir (SF i) p) (fs_create_dir (posix p))"
    and open_law: "answers tree live (sf_open_read (SF i) p) (fs_open (posix p))"
    and read_law: "answers tree live (sf_read_to_end (SF i) p) (fs_read (posix p))"
    and open_write_law: "answers tree live (sf_open_write (SF i) p) (fs_create (posix p))"
    and write_law: "appends tree live (posix p) d (sf_write_all (SF i) p d)"
    and sync_law: "answers tree live (sf_sync_all (SF i) p) (\<lambda>fs. Inr ((), fs))"
    and close_law: "answers tree live (sf_close (SF i) p) (\<lambda>fs. Inr ((), fs))"
    and rename_law: "renames tree live (posix p) (posix q) (sf_rename (SF i) p q)"
    and remove_law: "answers tree live (sf_remove_file (SF i) p) (fs_remove_file (posix p))"
    and read_dir_law: "answers tree live (no_dots (sf_read_dir (SF i) p)) (fs_list (posix p))"
    and entries_law: "length (tree s) + 3 \<le> sf_entries (SF i) s"

section \<open>Rules of the calls\<close>

lemma wp_try_answers:
  assumes "answers tree live c f"
    and "\<And>a t. f (tree s) = Inr (a, tree t) \<Longrightarrow> (live s \<longrightarrow> live t) \<Longrightarrow> Q (Inr (Inr a)) t"
    and "\<And>e t. tree t = tree s \<or> (\<exists>a. f (tree s) = Inr (a, tree t)) \<Longrightarrow>
       (e = No_Such_File \<longrightarrow> f (tree s) = Inl NotFound \<and> tree t = tree s) \<Longrightarrow>
       (live s \<longrightarrow> live t \<and> tree t = tree s \<and> (\<exists>k. f (tree s) = Inl k \<and> (k = NotFound \<longrightarrow> e = No_Such_File))) \<Longrightarrow>
       Q (Inr (Inl e)) t"
  shows "wp (sftp_try c) Q s"
proof -
  obtain r t where c: "c s = (r, t)" by fastforce
  have l: "(live s \<longrightarrow> live t) \<and> (case r of
       Inr a \<Rightarrow> f (tree s) = Inr (a, tree t)
     | Inl e \<Rightarrow> (tree t = tree s \<or> (\<exists>a. f (tree s) = Inr (a, tree t)))
         \<and> (e = No_Such_File \<longrightarrow> f (tree s) = Inl NotFound \<and> tree t = tree s)
         \<and> (live s \<longrightarrow> tree t = tree s \<and> (\<exists>k. f (tree s) = Inl k \<and> (k = NotFound \<longrightarrow> e = No_Such_File))))"
    using assms(1) c unfolding answers_def by (metis (mono_tags, lifting) case_prod_conv)
  show ?thesis
  proof (cases r)
    case (Inl e)
    then show ?thesis using assms(3) [of t e] l c by (simp add: wp_simps)
  next
    case (Inr a)
    then show ?thesis using assms(2) [of a t] l c by (simp add: wp_simps)
  qed
qed

text \<open>A call whose error becomes \<open>Error::Ssh\<close>; reading calls leave the tree alone.\<close>

lemma wp_do_answers:
  assumes "answers tree live c f"
    and "\<And>a t. f (tree s) = Inr (a, tree t) \<Longrightarrow> (live s \<longrightarrow> live t) \<Longrightarrow> Q (Inr a) t"
    and "\<And>m t. tree t = tree s \<or> (\<exists>a. f (tree s) = Inr (a, tree t)) \<Longrightarrow>
       (live s \<longrightarrow> live t \<and> tree t = tree s \<and> (\<exists>k. f (tree s) = Inl k)) \<Longrightarrow> Q (Inl (Ssh m)) t"
  shows "wp (sftp_do what c) Q s"
  unfolding sftp_do_def wp_bnd
  by (rule wp_try_answers [OF assms(1)]) (simp_all add: wp_simps assms(2), blast intro: assms(3))

section \<open>Directories\<close>

lemma fs_exists_Inr: "fs_exists p fs = Inr (a, fs') \<Longrightarrow> fs' = fs \<and> (a \<longleftrightarrow> ent fs p \<noteq> None)"
  by (auto simp: fs_exists_def stat_def split: option.splits if_splits)

lemma create_dir_step:
  assumes g: "local_fs root fs" "dirlike root p" "is_dir fs (butlast p)" "p \<noteq> []"
  shows "fs_create_dir p fs = Inr (u, fs') \<Longrightarrow> local_fs root fs' \<and> fs_view root fs' = fs_view root fs \<and> is_dir fs' p"
    and "ent fs p = None \<Longrightarrow> \<exists>fs'. fs_create_dir p fs = Inr ((), fs')"
proof -
  have v: "fs_view root (fs_set p EDir fs) = fs_view root fs"
    by (rule fs_view_set_dir [OF g(4) dirlike_ent [OF g(1,2)]])
  show "fs_create_dir p fs = Inr (u, fs') \<Longrightarrow> local_fs root fs' \<and> fs_view root fs' = fs_view root fs \<and> is_dir fs' p"
    using local_fs_set_dir [OF g(1,2,4,3)] v g(4)
    by (auto simp: fs_create_dir_def is_dir_def split: sum.splits io_kind.splits if_splits)
  show "ent fs p = None \<Longrightarrow> \<exists>fs'. fs_create_dir p fs = Inr ((), fs')"
    using dirlike_stat [OF g(1-3)] g(3) by (auto simp: fs_create_dir_def stat_Inr)
qed

definition sftp_root :: "sftp_target \<Rightarrow> path" where
  "sftp_root T = posix (tg_path T)"

context sftp_server
begin

abbreviation "root \<equiv> sftp_root T"

lemma wp_mkdir_from:
  assumes "local_fs root (tree s)" "\<forall>n\<le>length segs. dirlike root (posix here @ take n segs)" "is_dir (tree s) (posix here)"
    and "\<forall>n\<in>set segs. CHR ''/'' \<notin> set n \<and> plain_seg n"
  shows "wp (mkdir_from (SF i) here segs) (\<lambda>r t. local_fs root (tree t) \<and> fs_view root (tree t) = fs_view root (tree s)
     \<and> (live s \<longrightarrow> live t \<and> is_ok r) \<and> (is_ok r \<longrightarrow> is_dir (tree t) (posix here @ segs))) s"
  using assms
proof (induction segs arbitrary: here s)
  case Nil
  then show ?case by (simp add: wp_simps)
next
  case (Cons seg segs)
  let ?here = "here @ CHR ''/'' # seg"
  have ph: "posix ?here = posix here @ [seg]" using posix_child [of seg here] Cons.prems(4) by simp
  have dl: "dirlike root (posix ?here)" using Cons.prems(2) [rule_format, of 1] ph by simp
  have par: "is_dir (tree s) (butlast (posix ?here))" "posix ?here \<noteq> []" using Cons.prems(3) ph by simp_all
  let ?Q = "\<lambda>r t. local_fs root (tree t) \<and> fs_view root (tree t) = fs_view root (tree s)
     \<and> (live s \<longrightarrow> live t \<and> is_ok r) \<and> (is_ok r \<longrightarrow> is_dir (tree t) (posix here @ seg # segs))"
  have rest: "wp (mkdir_from (SF i) ?here segs) ?Q t"
    if t: "local_fs root (tree t)" "fs_view root (tree t) = fs_view root (tree s)" "live s \<longrightarrow> live t" "is_dir (tree t) (posix ?here)" for t
  proof -
    have "\<forall>n\<le>length segs. dirlike root (posix ?here @ take n segs)"
    proof (intro allI impI)
      fix n assume "n \<le> length segs"
      then show "dirlike root (posix ?here @ take n segs)" using Cons.prems(2) [rule_format, of "Suc n"] ph by simp
    qed
    then show ?thesis
      by (rule wp_mono [OF Cons.IH [OF t(1) _ t(4)]]) (use t Cons.prems(4) ph in auto)
  qed
  note c = create_dir_step [OF Cons.prems(1) dl par]
  have create: "wp (bnd (sftp_do (''mkdir '' @ ?here) (sf_create_dir (SF i) ?here)) (\<lambda>_. mkdir_from (SF i) ?here segs)) ?Q t"
    if t: "tree t = tree s" "live s \<longrightarrow> live t \<and> ent (tree s) (posix ?here) = None" for t
    unfolding wp_bnd
  proof (rule wp_do_answers [OF create_dir_law])
    fix a u
    assume a: "fs_create_dir (posix ?here) (tree t) = Inr (a, tree u)" "live t \<longrightarrow> live u"
    show "case Inr a of Inl e \<Rightarrow> ?Q (Inl e) u | Inr a \<Rightarrow> wp (mkdir_from (SF i) ?here segs) ?Q u"
      unfolding sum.case by (rule rest) (use c(1) a t in auto)
  next
    fix m u
    assume e: "tree u = tree t \<or> (\<exists>a. fs_create_dir (posix ?here) (tree t) = Inr (a, tree u))"
      and lv: "live t \<longrightarrow> live u \<and> tree u = tree t \<and> (\<exists>k. fs_create_dir (posix ?here) (tree t) = Inl k)"
    have "local_fs root (tree u) \<and> fs_view root (tree u) = fs_view root (tree s)"
      using e c(1) Cons.prems(1) t(1) by auto
    moreover have "\<not> live s" using lv t c(2) by auto
    ultimately show "case Inl (Ssh m) of Inl e \<Rightarrow> ?Q (Inl e) u | Inr a \<Rightarrow> wp (mkdir_from (SF i) ?here segs) ?Q u" by simp
  qed
  show ?case
    unfolding mkdir_from.simps Let_def wp_bnd
  proof (rule wp_try_answers [OF exists_law])
    fix a t
    assume a: "fs_exists (posix ?here) (tree s) = Inr (a, tree t)" and lv: "live s \<longrightarrow> live t"
    note f = fs_exists_Inr [OF a]
    show "case Inr (Inr a) of Inl e \<Rightarrow> ?Q (Inl e) t
      | Inr r \<Rightarrow> wp (if r = Inr True then mkdir_from (SF i) ?here segs
          else bnd (sftp_do (''mkdir '' @ ?here) (sf_create_dir (SF i) ?here)) (\<lambda>_. mkdir_from (SF i) ?here segs)) ?Q t"
    proof (cases a)
      case True
      then have "is_dir (tree s) (posix ?here)" using f dirlike_ent [OF Cons.prems(1) dl] by (auto simp: is_dir_def)
      then show ?thesis using True rest [of t] f lv Cons.prems(1) by simp
    next
      case False
      then show ?thesis using create [of t] f lv by simp
    qed
  next
    fix e t
    assume e: "tree t = tree s \<or> (\<exists>a. fs_exists (posix ?here) (tree s) = Inr (a, tree t))"
      and lv: "live s \<longrightarrow> live t \<and> tree t = tree s \<and> (\<exists>k. fs_exists (posix ?here) (tree s) = Inl k \<and> (k = NotFound \<longrightarrow> e = No_Such_File))"
    have "tree t = tree s" using e fs_exists_Inr by blast
    moreover have "\<exists>a fs'. fs_exists (posix ?here) (tree s) = Inr (a, fs')"
      using dirlike_stat [OF Cons.prems(1) dl par(1)] by (auto simp: fs_exists_def)
    ultimately show "case Inr (Inl e) of Inl e \<Rightarrow> ?Q (Inl e) t
      | Inr r \<Rightarrow> wp (if r = Inr True then mkdir_from (SF i) ?here segs
          else bnd (sftp_do (''mkdir '' @ ?here) (sf_create_dir (SF i) ?here)) (\<lambda>_. mkdir_from (SF i) ?here segs)) ?Q t"
      using create [of t] lv by auto
  qed
qed

lemma root_segs: "\<forall>n\<in>set root. CHR ''/'' \<notin> set n \<and> plain_seg n"
  using posix_plain [of "tg_path T"] plain split_on_parts by (fastforce simp: plain_target_def sftp_root_def)

lemma wp_mkdir_all:
  assumes g: "local_fs root (tree s)" and k: "store_key k"
  shows "wp (mkdir_all (SF i) (parent_dir T (remote_path T k))) (\<lambda>r t. local_fs root (tree t)
     \<and> fs_view root (tree t) = fs_view root (tree s) \<and> (live s \<longrightarrow> live t \<and> is_ok r)
     \<and> (is_ok r \<longrightarrow> is_dir (tree t) (root @ butlast (key_path k)))) s"
proof -
  have q: "store_path (key_path k)" using k by (auto simp: store_key_def store_path_def)
  have dl: "\<forall>n\<le>length (root @ butlast (key_path k)). dirlike root (posix [] @ take n (root @ butlast (key_path k)))"
    using store_parent_dirlike [OF q] by simp
  have d: "is_dir (tree s) (posix [])" by simp
  have p: "\<forall>n\<in>set (root @ butlast (key_path k)). CHR ''/'' \<notin> set n \<and> plain_seg n"
    using root_segs store_path_segs [OF q] by (auto dest: in_set_butlastD)
  show ?thesis
    unfolding mkdir_all_def parent_remote [OF k plain] sftp_root_def [symmetric]
    by (rule wp_mono [OF wp_mkdir_from [OF g dl d p]]) simp
qed

end

section \<open>Writing\<close>

lemma remove_file_Inr: "fs_remove_file p fs = Inr (u, fs1) \<Longrightarrow> fs1 = fs_del p fs \<and> ent fs p \<noteq> None \<and> \<not> is_dir fs p"
  by (auto simp: fs_remove_file_def is_dir_def stat_Inr split: sum.splits fs_entry.splits)

lemma renamed_away: "fs_rename p q fs = Inr ((), fs1) \<Longrightarrow> p \<noteq> q \<Longrightarrow> p \<noteq> [] \<Longrightarrow> q \<noteq> [] \<Longrightarrow> ent fs1 p = None"
  by (auto simp: fs_rename_def split: sum.splits fs_entry.splits io_kind.splits if_splits)

lemma rename_missing:
  assumes "local_fs root fs" "store_path tq" "ent fs (root @ tq) = None"
  shows "fs_rename (root @ tq) q fs = Inl NotFound"
  using store_stat [OF assms(1,2)] assms(3) by (auto simp: fs_rename_def stat_Inr)

lemma temp_remove_target:
  assumes r: "temp_ready root tq fs c" and k: "repo_key k" and ne: "tq \<noteq> key_path k"
    and rm: "fs_remove_file (root @ key_path k) fs = Inr (u, fs1)"
  shows "temp_ready root tq fs1 c \<and> fs_view root fs1 = (fs_view root fs)(k := None) \<and> ent fs1 (root @ key_path k) = None"
proof -
  have q: "store_path (key_path k)" using k by (simp add: repo_key_def store_path_def)
  note f = remove_file_Inr [OF rm]
  have "local_fs root (fs_del (root @ key_path k) fs)" by (rule local_fs_del [OF _ q]) (use r in \<open>simp add: temp_ready_def\<close>)
  moreover have "root @ butlast tq \<noteq> root @ key_path k" using r f by (auto simp: temp_ready_def)
  moreover have "fs_view root (fs_del (root @ key_path k) fs) = (fs_view root fs)(k := None)" by (rule fs_view_del_repo [OF k])
  ultimately show ?thesis using r ne f by (auto simp: temp_ready_def is_dir_def)
qed

context sftp_server
begin

abbreviation "shown s \<equiv> fs_view root (tree s)"

text \<open>What a write may leave of the object under its key.\<close>

definition put_outcome :: "(string \<Rightarrow> bytes option) \<Rightarrow> string \<Rightarrow> bytes \<Rightarrow> unit res \<Rightarrow> 's \<Rightarrow> bool" where
  "put_outcome v k d r t \<longleftrightarrow> local_fs root (tree t) \<and> (case r of
      Inr _ \<Rightarrow> shown t = v(k \<mapsto> d) | Inl _ \<Rightarrow> shown t = v \<or> shown t = v(k \<mapsto> d) \<or> shown t = v(k := None))"

lemma wp_rename_last:
  assumes h: "temp_ready root tq (tree t) d" and k: "repo_key k" and b: "butlast tq = butlast (key_path k)"
    and n: "posix tmp = root @ tq" "posix p = root @ key_path k"
    and v: "shown t = v \<or> shown t = v(k := None)" and lv: "l \<longrightarrow> live t \<and> ent (tree t) (root @ key_path k) = None"
  shows "wp (sftp_do what (sf_rename (SF i) tmp p)) (\<lambda>r u. put_outcome v k d r u \<and> (l \<longrightarrow> live u \<and> is_ok r)) t"
proof -
  obtain fs1 where r: "fs_rename (root @ tq) (root @ key_path k) (tree t) = Inr ((), fs1)" "local_fs root fs1"
      "fs_view root fs1 = (shown t)(k \<mapsto> d)"
    using temp_rename [OF h k b] by blast
  have g: "local_fs root (tree t)" using h by (simp add: temp_ready_def)
  have w: "(shown t)(k \<mapsto> d) = v(k \<mapsto> d)" using v by auto
  obtain q u where c: "sf_rename (SF i) tmp p t = (q, u)" by fastforce
  have law: "(live t \<longrightarrow> live u) \<and> (case q of
       Inr _ \<Rightarrow> fs1 = tree u
     | Inl e \<Rightarrow> (tree u = tree t \<or> fs1 = tree u) \<and> (live t \<longrightarrow> ent (tree t) (root @ key_path k) \<noteq> None))"
    using rename_law [of tmp p i] c r(1) n unfolding renames_def by (auto dest!: spec [of _ t] split: sum.splits)
  show ?thesis
    using law g r w v lv by (auto simp: sftp_do_def wp_simps c put_outcome_def split: sum.splits)
qed

lemma wp_rename_gone:
  assumes g: "local_fs root (tree t)" and q: "store_path tq" and e: "ent (tree t) (root @ tq) = None"
    and n: "posix tmp = root @ tq" and v: "shown t = v(k := None)"
  shows "wp (sftp_do what (sf_rename (SF i) tmp p)) (\<lambda>r u. put_outcome v k d r u) t"
proof -
  obtain r u where c: "sf_rename (SF i) tmp p t = (r, u)" by fastforce
  have law: "(live t \<longrightarrow> live u) \<and> (case r of Inr _ \<Rightarrow> False | Inl e \<Rightarrow> tree u = tree t)"
    using rename_law [of tmp p i] c rename_missing [OF g q e] n unfolding renames_def
    by (auto dest!: spec [of _ t] split: sum.splits)
  show ?thesis
    using law g v by (auto simp: sftp_do_def wp_simps c put_outcome_def split: sum.splits)
qed

lemma wp_replace:
  assumes st: "temp_ready root tq (tree t) d \<and> shown t = v
      \<or> local_fs root (tree t) \<and> ent (tree t) (root @ tq) = None \<and> shown t = v(k \<mapsto> d) \<and> \<not> l"
    and k: "repo_key k" and tq: "temp_path tq" "butlast tq = butlast (key_path k)" "tq \<noteq> key_path k"
    and n: "posix tmp = root @ tq" "posix p = root @ key_path k"
    and lv: "l \<longrightarrow> live t \<and> ent (tree t) (root @ key_path k) \<noteq> None"
  shows "wp (bnd (sftp_do what (sf_remove_file (SF i) p)) (\<lambda>_. sftp_do what (sf_rename (SF i) tmp p)))
    (\<lambda>r u. put_outcome v k d r u \<and> (l \<longrightarrow> live u \<and> is_ok r)) t"
proof -
  have q: "store_path (key_path k)" using k by (simp add: repo_key_def store_path_def)
  have tqs: "store_path tq" using tq(1) by (simp add: store_path_def)
  have g: "local_fs root (tree t)" using st by (auto simp: temp_ready_def)
  have del: "local_fs root fs1 \<and> fs_view root fs1 = (shown t)(k := None) \<and> fs1 = fs_del (root @ key_path k) (tree t)"
    if "fs_remove_file (root @ key_path k) (tree t) = Inr (a, fs1)" for a fs1
    using remove_file_Inr [OF that] local_fs_del [OF g q] fs_view_del_repo [OF k] by simp
  have gone: "shown t = v \<or> shown t = v(k \<mapsto> d)" using st by blast
  then have vn: "(shown t)(k := None) = v(k := None)" by auto
  show ?thesis
    unfolding wp_bnd
  proof (rule wp_do_answers [OF remove_law])
    fix a u
    assume a: "fs_remove_file (posix p) (tree t) = Inr (a, tree u)" "live t \<longrightarrow> live u"
    show "case Inr a of Inl e \<Rightarrow> put_outcome v k d (Inl e) u \<and> (l \<longrightarrow> live u \<and> is_ok (Inl e :: unit res))
        | Inr _ \<Rightarrow> wp (sftp_do what (sf_rename (SF i) tmp p)) (\<lambda>r u. put_outcome v k d r u \<and> (l \<longrightarrow> live u \<and> is_ok r)) u"
      unfolding sum.case
      using st
    proof
      assume h: "temp_ready root tq (tree t) d \<and> shown t = v"
      note f = temp_remove_target [OF conjunct1 [OF h] k tq(3) a(1) [unfolded n(2)]]
      show "wp (sftp_do what (sf_rename (SF i) tmp p)) (\<lambda>r u. put_outcome v k d r u \<and> (l \<longrightarrow> live u \<and> is_ok r)) u"
        by (rule wp_rename_last [OF _ k tq(2) n]) (use f h a(2) lv in auto)
    next
      assume h: "local_fs root (tree t) \<and> ent (tree t) (root @ tq) = None \<and> shown t = v(k \<mapsto> d) \<and> \<not> l"
      note f = del [OF a(1) [unfolded n(2)]]
      have "root @ key_path k \<noteq> []" using store_path_parent [OF q] by simp
      then have "ent (tree u) (root @ tq) = None" using h f by simp
      moreover have "local_fs root (tree u)" using f by blast
      moreover have "shown u = v(k := None)" using f vn by metis
      ultimately show "wp (sftp_do what (sf_rename (SF i) tmp p)) (\<lambda>r u. put_outcome v k d r u \<and> (l \<longrightarrow> live u \<and> is_ok r)) u"
        using h by (intro wp_mono [OF wp_rename_gone [OF _ tqs _ n(1)]]) auto
    qed
  next
    fix m u
    assume e: "tree u = tree t \<or> (\<exists>a. fs_remove_file (posix p) (tree t) = Inr (a, tree u))"
      and lu: "live t \<longrightarrow> live u \<and> tree u = tree t \<and> (\<exists>k. fs_remove_file (posix p) (tree t) = Inl k)"
    have "local_fs root (tree u) \<and> (shown u = v \<or> shown u = v(k \<mapsto> d) \<or> shown u = v(k := None))"
      using e del vn gone g n(2) by auto
    moreover have "\<not> l"
    proof
      assume l
      then obtain x where "ent (tree t) (root @ key_path k) = Some x" "live t" using lv by auto
      moreover have "\<exists>c m t'. x = EFile c m t'"
        using g q store_path_not_dir [OF q] calculation(1) unfolding local_fs_def by blast
      ultimately show False using lu n(2) by (auto simp: fs_remove_file_def)
    qed
    ultimately show "case Inl (Ssh m) of Inl e \<Rightarrow> put_outcome v k d (Inl e) u \<and> (l \<longrightarrow> live u \<and> is_ok (Inl e :: unit res))
        | Inr _ \<Rightarrow> wp (sftp_do what (sf_rename (SF i) tmp p)) (\<lambda>r u. put_outcome v k d r u \<and> (l \<longrightarrow> live u \<and> is_ok r)) u"
      by (auto simp: put_outcome_def)
  qed
qed

text \<open>The two steps that only flush: the tree stays.\<close>

lemma wp_flush:
  assumes c: "answers tree live c (\<lambda>fs. Inr ((), fs))" and s: "put_outcome v k d (Inl (Ssh [])) s" "l \<longrightarrow> live s"
    and m: "\<And>t. tree t = tree s \<Longrightarrow> l \<longrightarrow> live t \<Longrightarrow> wp m (\<lambda>r u. put_outcome v k d r u \<and> (l \<longrightarrow> live u \<and> is_ok r)) t"
  shows "wp (bnd (sftp_do what c) (\<lambda>_. m)) (\<lambda>r u. put_outcome v k d r u \<and> (l \<longrightarrow> live u \<and> is_ok r)) s"
  unfolding wp_bnd
proof (rule wp_do_answers [OF c])
  fix a t
  assume "Inr ((), tree s) = Inr (a, tree t)" "live s \<longrightarrow> live t"
  then show "case Inr a of Inl e \<Rightarrow> put_outcome v k d (Inl e) t \<and> (l \<longrightarrow> live t \<and> is_ok (Inl e :: unit res))
      | Inr _ \<Rightarrow> wp m (\<lambda>r u. put_outcome v k d r u \<and> (l \<longrightarrow> live u \<and> is_ok r)) t"
    using s(2) by (simp add: m)
next
  fix msg t
  assume "tree t = tree s \<or> (\<exists>a. Inr ((), tree s) = Inr (a, tree t))"
    and "live s \<longrightarrow> live t \<and> tree t = tree s \<and> (\<exists>k. Inr ((), tree s) = Inl k)"
  then show "case Inl (Ssh msg) of Inl e \<Rightarrow> put_outcome v k d (Inl e) t \<and> (l \<longrightarrow> live t \<and> is_ok (Inl e :: unit res))
      | Inr _ \<Rightarrow> wp m (\<lambda>r u. put_outcome v k d r u \<and> (l \<longrightarrow> live u \<and> is_ok r)) t"
    using s by (auto simp: put_outcome_def)
qed

lemma wp_write_via_temp:
  assumes g: "local_fs root (tree s)" and k: "repo_key k" and d: "is_dir (tree s) (root @ butlast (key_path k))" and u: "ident u"
  shows "wp (write_via_temp (SF i) u (remote_path T k) data)
    (\<lambda>r t. put_outcome (shown s) k data r t \<and> (live s \<longrightarrow> live t \<and> is_ok r)) s"
proof -
  define tmp where "tmp = remote_path T k @ ''.tmp-'' @ u"
  let ?p = "remote_path T k"
  obtain tq where tq: "posix tmp = root @ tq" "temp_path tq" "butlast tq = butlast (key_path k)" "tq \<noteq> key_path k"
    using temp_remote [OF k u, of T, folded tmp_def] by (auto simp: sftp_root_def)
  have pp: "posix ?p = root @ key_path k" using posix_remote [of k T] repo_store_key [OF k] by (simp add: sftp_root_def)
  have ne: "root @ tq \<noteq> []" "root @ key_path k \<noteq> []" "root @ tq \<noteq> root @ key_path k" "store_path tq"
    using tq(2,4) temp_nonempty by auto
  let ?Q = "\<lambda>r t. put_outcome (shown s) k data r t \<and> (live s \<longrightarrow> live t \<and> is_ok r)"
  let ?replace = "bnd (sftp_do (''replacing '' @ ?p) (sf_remove_file (SF i) ?p)) (\<lambda>_.
      sftp_do (''replacing '' @ ?p) (sf_rename (SF i) tmp ?p))"
  let ?finish = "bnd (sftp_try (sf_rename (SF i) tmp ?p)) (\<lambda>r. case r of Inr _ \<Rightarrow> ret () | Inl _ \<Rightarrow> ?replace)"
  let ?close = "bnd (sftp_do (''closing '' @ tmp) (sf_close (SF i) tmp)) (\<lambda>_. ?finish)"
  let ?sync = "bnd (sftp_do (''flushing '' @ tmp) (sf_sync_all (SF i) tmp)) (\<lambda>_. ?close)"
  have finish: "wp ?finish ?Q t"
    if h: "temp_ready root tq (tree t) data" "shown t = shown s" "live s \<longrightarrow> live t" for t
  proof -
    obtain fs1 where r: "fs_rename (root @ tq) (root @ key_path k) (tree t) = Inr ((), fs1)" "local_fs root fs1"
        "fs_view root fs1 = (shown t)(k \<mapsto> data)"
      using temp_rename [OF h(1) k tq(3)] by blast
    note away = renamed_away [OF r(1) ne(3,1,2)]
    obtain q x where c: "sf_rename (SF i) tmp ?p t = (q, x)" by fastforce
    have law: "(live t \<longrightarrow> live x) \<and> (case q of
       Inr _ \<Rightarrow> fs1 = tree x
     | Inl e \<Rightarrow> (tree x = tree t \<or> fs1 = tree x) \<and> (live t \<longrightarrow> tree x = tree t \<and> ent (tree t) (root @ key_path k) \<noteq> None))"
      using rename_law [of tmp ?p i] c r(1) tq(1) pp unfolding renames_def by (auto dest!: spec [of _ t] split: sum.splits)
    show ?thesis
    proof (cases q)
      case (Inr y)
      then show ?thesis using law r h by (simp add: wp_simps c put_outcome_def)
    next
      case (Inl e)
      have "wp ?replace (\<lambda>r u. put_outcome (shown s) k data r u \<and> (live s \<longrightarrow> live u \<and> is_ok r)) x"
      proof (rule wp_replace [OF _ k tq(2,3,4) tq(1) pp])
        show "temp_ready root tq (tree x) data \<and> shown x = shown s
            \<or> local_fs root (tree x) \<and> ent (tree x) (root @ tq) = None \<and> shown x = (shown s)(k \<mapsto> data) \<and> \<not> live s"
          using law Inl h r away by (cases "tree x = tree t") auto
        show "live s \<longrightarrow> live x \<and> ent (tree x) (root @ key_path k) \<noteq> None" using law Inl h by auto
      qed
      then show ?thesis using Inl by (simp add: wp_simps c)
    qed
  qed
  have keep: "put_outcome (shown s) k data (Inl (Ssh m)) t" if "temp_ready root tq (tree t) c" "shown t = shown s" for t c m
    using that by (simp add: put_outcome_def temp_ready_def)
  have close: "wp ?close ?Q t"
    if h: "temp_ready root tq (tree t) data" "shown t = shown s" "live s \<longrightarrow> live t" for t
    by (rule wp_flush [OF close_law keep [OF h(1,2)] h(3)]) (rule finish; use h in simp)
  have sync: "wp ?sync ?Q t"
    if h: "temp_ready root tq (tree t) data" "shown t = shown s" "live s \<longrightarrow> live t" for t
    by (rule wp_flush [OF sync_law keep [OF h(1,2)] h(3)]) (rule close; use h in simp)
  have writing: "wp (bnd (sftp_do (''writing '' @ tmp) (sf_write_all (SF i) tmp data)) (\<lambda>_. ?sync)) ?Q t"
    if h: "temp_ready root tq (tree t) []" "shown t = shown s" "live s \<longrightarrow> live t" for t
  proof -
    obtain q x where c: "sf_write_all (SF i) tmp data t = (q, x)" by fastforce
    have "(live t \<longrightarrow> live x \<and> q = Inr ()) \<and>
        (\<exists>n. tree x = fs_append (root @ tq) (take n data) (tree t) \<and> (q = Inr () \<longrightarrow> length data \<le> n))"
      using write_law [of tmp data i, unfolded appends_def tq(1), rule_format, of t] unfolding c prod.case .
    then obtain n where n: "tree x = fs_append (root @ tq) (take n data) (tree t)" "q = Inr () \<longrightarrow> length data \<le> n"
        "live t \<longrightarrow> live x \<and> q = Inr ()" by blast
    note a = temp_append [OF h(1), of "take n data", folded n(1)]
    show ?thesis
    proof (cases q)
      case (Inl e)
      then show ?thesis using a n h
        unfolding wp_bnd [of "sftp_do (''writing '' @ tmp) _"] wp_sftp_do c prod.case
        by (auto simp: put_outcome_def temp_ready_def)
    next
      case (Inr y)
      then have "temp_ready root tq (tree x) data" using a n(2) by simp
      then have "wp ?sync ?Q x" by (rule sync) (use a h n in auto)
      then show ?thesis
        unfolding wp_bnd [of "sftp_do (''writing '' @ tmp) _"] wp_sftp_do c prod.case Inr sum.case .
    qed
  qed
  obtain fs1 where cr: "fs_create (root @ tq) (tree s) = Inr ((), fs1)" "temp_ready root tq fs1 []" "fs_view root fs1 = shown s"
    using temp_create [OF g tq(2)] d tq(3) by auto
  show ?thesis
    unfolding write_via_temp_def Let_def tmp_def [symmetric] wp_bnd [of "sftp_do (''open '' @ tmp) _"]
  proof (rule wp_do_answers [OF open_write_law])
    fix a t
    assume "fs_create (posix tmp) (tree s) = Inr (a, tree t)" "live s \<longrightarrow> live t"
    then show "case Inr a of Inl e \<Rightarrow> ?Q (Inl e) t
      | Inr _ \<Rightarrow> wp (bnd (sftp_do (''writing '' @ tmp) (sf_write_all (SF i) tmp data)) (\<lambda>_. ?sync)) ?Q t"
      unfolding sum.case using cr tq(1) by (intro writing) auto
  next
    fix m t
    assume "tree t = tree s \<or> (\<exists>a. fs_create (posix tmp) (tree s) = Inr (a, tree t))"
      and "live s \<longrightarrow> live t \<and> tree t = tree s \<and> (\<exists>k. fs_create (posix tmp) (tree s) = Inl k)"
    then show "case Inl (Ssh m) of Inl e \<Rightarrow> ?Q (Inl e) t
      | Inr _ \<Rightarrow> wp (bnd (sftp_do (''writing '' @ tmp) (sf_write_all (SF i) tmp data)) (\<lambda>_. ?sync)) ?Q t"
      using cr tq(1) g by (auto simp: put_outcome_def temp_ready_def)
  qed
qed

end

end
