(* ===== verification/Sftp_Store.thy ===== *)
theory Sftp_Store
  imports Sftp_Contract Repository_Laws Store_Calls
begin

text \<open>
  The SFTP backend as an instance of the storage contract: every operation refines the flat
  store the server's tree shows, whichever calls fail, and none fails in a live state.
\<close>

section \<open>The store\<close>

definition sftp_view :: "sftp_target \<Rightarrow> ('s \<Rightarrow> fs) \<Rightarrow> 's sftp_state \<Rightarrow> string \<Rightarrow> bytes option" where
  "sftp_view T tree b = fs_view (sftp_root T) (tree (ft_world b))"

definition sftp_good :: "sftp_target \<Rightarrow> ('s \<Rightarrow> fs) \<Rightarrow> 's sftp_state \<Rightarrow> bool" where
  "sftp_good T tree b \<longleftrightarrow> local_fs (sftp_root T) (tree (ft_world b)) \<and> (\<forall>n. ident (ft_uuids b n))"

definition sftp_ready :: "('s \<Rightarrow> bool) \<Rightarrow> 's sftp_state \<Rightarrow> bool" where
  "sftp_ready live b \<longleftrightarrow> live (ft_world b)"

context sftp_server
begin

abbreviation "good \<equiv> sftp_good T tree"
abbreviation "view \<equiv> sftp_view T tree"
abbreviation "ready \<equiv> sftp_ready live"
abbreviation "B \<equiv> sftp_backend X SF T auth policy"

text \<open>What an operation that only reads leaves.\<close>

definition unmoved :: "'s sftp_state \<Rightarrow> 's sftp_state \<Rightarrow> bool" where
  "unmoved b c \<longleftrightarrow> tree (ft_world c) = tree (ft_world b) \<and> ft_uuids c = ft_uuids b \<and> (ready b \<longrightarrow> ready c)"

lemma unmoved_good: "unmoved b c \<Longrightarrow> good b \<Longrightarrow> good c"
  by (simp add: unmoved_def sftp_good_def)

lemma unmoved_view: "unmoved b c \<Longrightarrow> view c = view b"
  by (simp add: unmoved_def sftp_view_def)

lemma unmoved_world:
  "tree t = tree (ft_world b) \<Longrightarrow> (ready b \<longrightarrow> live t) \<Longrightarrow> unmoved b (b\<lparr> ft_world := t \<rparr>)"
  by (simp add: unmoved_def sftp_ready_def)

lemma unmoved_trans: "unmoved a b \<Longrightarrow> unmoved b c \<Longrightarrow> unmoved a c"
  by (simp add: unmoved_def)

lemma wp_session: "wp (the_session X T auth policy) (\<lambda>r c. unmoved b c \<and> (ready b \<longrightarrow> is_ok r)) b"
proof (cases "ft_session b")
  case (Some i)
  then show ?thesis by (simp add: wp_def the_session_def unmoved_def)
next
  case None
  have "wp (bnd (on_world (connect_and_auth X T auth policy)) (\<lambda>i.
      bnd (modify (\<lambda>s. s\<lparr> ft_session := Some i \<rparr>)) (\<lambda>_. ret i))) (\<lambda>r c. unmoved b c \<and> (ready b \<longrightarrow> is_ok r)) b"
    unfolding wp_bnd wp_on_world
    by (rule wp_mono [OF connect_law])
      (auto simp: wp_simps unmoved_def sftp_ready_def split: sum.splits)
  then show ?thesis using None by (simp add: wp_def the_session_def)
qed

text \<open>An operation is its session followed by calls on the world.\<close>

lemma wp_with_session:
  assumes "\<And>i c. unmoved b c \<Longrightarrow> wp (f i) Q c"
    and "\<And>e c. unmoved b c \<Longrightarrow> \<not> ready b \<Longrightarrow> Q (Inl e) c"
  shows "wp (bnd (the_session X T auth policy) f) Q b"
  by (rule wp_bndI [OF wp_session]) (use assms in auto)

lemma sftp_get_spec:
  "wp (sftp_get X SF T auth policy k) (\<lambda>r c. unmoved b c
     \<and> (repo_key k \<longrightarrow> (\<forall>d. r = Inr d \<longrightarrow> view b k = Some d) \<and> (ready b \<longrightarrow> view b k \<noteq> None \<longrightarrow> is_ok r))) b"
  unfolding sftp_get_def
proof (rule wp_with_session)
  let ?p = "remote_path T k"
  let ?Q = "\<lambda>r c. unmoved b c
     \<and> (repo_key k \<longrightarrow> (\<forall>d. r = Inr d \<longrightarrow> view b k = Some d) \<and> (ready b \<longrightarrow> view b k \<noteq> None \<longrightarrow> is_ok r))"
  fix i c
  assume c: "unmoved b c"
  have p: "posix ?p = root @ key_path k" if "repo_key k"
    using posix_remote [of k T] repo_store_key [OF that] by (simp add: sftp_root_def)
  have found: "\<exists>m t. stat (tree (ft_world b)) (posix ?p) = Inr (EFile (the (view b k)) m t)" if "repo_key k" "view b k \<noteq> None"
    using that p by (auto simp: sftp_view_def fs_view_def split: option.splits fs_entry.splits)
  have seen: "view b k = Some d" if "repo_key k" "fs_read (posix ?p) (tree (ft_world b)) = Inr (d, u)" for d u
    using that p by (auto simp: sftp_view_def fs_view_def fs_read_def stat_Inr split: sum.splits fs_entry.splits)
  have same: "fs_read q fs = Inr (a, fs') \<Longrightarrow> fs' = fs" "fs_open q fs = Inr (b', fs') \<Longrightarrow> fs' = fs" for q fs fs' a b'
    by (auto simp: fs_read_def fs_open_def split: sum.splits fs_entry.splits)
  have u: "unmoved b (c\<lparr> ft_world := t \<rparr>)" if "tree t = tree (ft_world c)" "ready b \<longrightarrow> live t" for t
    using c that by (simp add: unmoved_def sftp_ready_def)
  have lc: "ready b \<longrightarrow> live (ft_world c)" "tree (ft_world c) = tree (ft_world b)" using c by (auto simp: unmoved_def sftp_ready_def)
  have step: "wp (sftp_do (''reading '' @ ?p) (sf_read_to_end (SF i) ?p)) (\<lambda>r t. ?Q r (c\<lparr> ft_world := t \<rparr>)) s"
    if s: "tree s = tree (ft_world b)" "ready b \<longrightarrow> live s" for s
  proof (rule wp_do_answers [OF read_law])
    fix a t
    assume a: "fs_read (posix ?p) (tree s) = Inr (a, tree t)" "live s \<longrightarrow> live t"
    then show "?Q (Inr a) (c\<lparr> ft_world := t \<rparr>)" using s seen [of a] same(1) [OF a(1)] lc by (auto intro!: u)
  next
    fix m t
    assume e: "tree t = tree s \<or> (\<exists>a. fs_read (posix ?p) (tree s) = Inr (a, tree t))"
      and l: "live s \<longrightarrow> live t \<and> tree t = tree s \<and> (\<exists>k. fs_read (posix ?p) (tree s) = Inl k)"
    have "tree t = tree s" using e same(1) by blast
    moreover have "\<not> (ready b \<and> repo_key k \<and> view b k \<noteq> None)"
    proof
      assume r: "ready b \<and> repo_key k \<and> view b k \<noteq> None"
      then obtain m t' where "stat (tree (ft_world b)) (posix ?p) = Inr (EFile (the (view b k)) m t')" using found by blast
      then show False using l s r by (auto simp: fs_read_def)
    qed
    ultimately show "?Q (Inl (Ssh m)) (c\<lparr> ft_world := t \<rparr>)" using l s lc by (auto intro!: u)
  qed
  show "wp (on_world (read_all (SF i) ?p)) ?Q c"
    unfolding wp_on_world read_all_def wp_bnd
  proof (rule wp_do_answers [OF open_law])
    fix a t
    assume "fs_open (posix ?p) (tree (ft_world c)) = Inr (a, tree t)" "live (ft_world c) \<longrightarrow> live t"
    then show "case Inr a of Inl e \<Rightarrow> ?Q (Inl e) (c\<lparr> ft_world := t \<rparr>)
      | Inr _ \<Rightarrow> wp (sftp_do (''reading '' @ ?p) (sf_read_to_end (SF i) ?p)) (\<lambda>r t. ?Q r (c\<lparr> ft_world := t \<rparr>)) t"
      unfolding sum.case using same(2) lc by (intro step) auto
  next
    fix m t
    assume e: "tree t = tree (ft_world c) \<or> (\<exists>a. fs_open (posix ?p) (tree (ft_world c)) = Inr (a, tree t))"
      and l: "live (ft_world c) \<longrightarrow> live t \<and> tree t = tree (ft_world c) \<and> (\<exists>k. fs_open (posix ?p) (tree (ft_world c)) = Inl k)"
    have "tree t = tree (ft_world c)" using e same(2) by blast
    moreover have "\<not> (ready b \<and> repo_key k \<and> view b k \<noteq> None)"
    proof
      assume r: "ready b \<and> repo_key k \<and> view b k \<noteq> None"
      then obtain m t' where "stat (tree (ft_world b)) (posix ?p) = Inr (EFile (the (view b k)) m t')" using found by blast
      then show False using l lc r by (auto simp: fs_open_def)
    qed
    ultimately show "case Inl (Ssh m) of Inl e \<Rightarrow> ?Q (Inl e) (c\<lparr> ft_world := t \<rparr>)
      | Inr _ \<Rightarrow> wp (sftp_do (''reading '' @ ?p) (sf_read_to_end (SF i) ?p)) (\<lambda>r t. ?Q r (c\<lparr> ft_world := t \<rparr>)) t"
      using l lc by (auto intro!: u)
  qed
qed (simp add: unmoved_def)

lemma key_posix: "store_key k \<Longrightarrow> posix (remote_path T k) = root @ key_path k"
  using posix_remote [of k T] by (simp add: sftp_root_def)

lemma unmoved_parts: "unmoved b c \<Longrightarrow> tree (ft_world c) = tree (ft_world b) \<and> ft_uuids c = ft_uuids b \<and> (ready b \<longrightarrow> live (ft_world c))"
  by (simp add: unmoved_def sftp_ready_def)

lemma sftp_exists_spec:
  assumes g: "good b"
  shows "wp (sftp_exists X SF T auth policy k) (\<lambda>r c. unmoved b c
     \<and> (repo_key k \<longrightarrow> (\<forall>a. r = Inr a \<longrightarrow> a = (view b k \<noteq> None)) \<and> (ready b \<longrightarrow> is_ok r))) b"
  unfolding sftp_exists_def Let_def
proof (rule wp_with_session)
  let ?p = "remote_path T k"
  let ?Q = "\<lambda>r c. unmoved b c
     \<and> (repo_key k \<longrightarrow> (\<forall>a. r = Inr a \<longrightarrow> a = (view b k \<noteq> None)) \<and> (ready b \<longrightarrow> is_ok r))"
  fix i c
  assume c: "unmoved b c"
  note cp = unmoved_parts [OF c]
  have lf: "local_fs root (tree (ft_world b))" using g by (simp add: sftp_good_def)
  have seen: "repo_key k \<Longrightarrow> ent (tree (ft_world b)) (posix ?p) \<noteq> None \<longleftrightarrow> view b k \<noteq> None"
    using fs_view_None [OF lf, of k] key_posix [of k] repo_store_key by (auto simp: sftp_view_def)
  have known: "repo_key k \<Longrightarrow> \<exists>a fs'. fs_exists (posix ?p) (tree (ft_world b)) = Inr (a, fs')"
    using store_stat [OF lf, of "key_path k"] key_posix [of k] repo_store_key
    by (auto simp: fs_exists_def repo_key_def store_path_def)
  have u: "unmoved b (c\<lparr> ft_world := t \<rparr>)" if "tree t = tree (ft_world c)" "ready b \<longrightarrow> live t" for t
    using cp that by (simp add: unmoved_def sftp_ready_def)
  show "wp (on_world (sftp_do (''stat '' @ ?p) (sf_try_exists (SF i) ?p))) ?Q c"
    unfolding wp_on_world
  proof (rule wp_do_answers [OF exists_law])
    fix a t
    assume "fs_exists (posix ?p) (tree (ft_world c)) = Inr (a, tree t)" "live (ft_world c) \<longrightarrow> live t"
    then show "?Q (Inr a) (c\<lparr> ft_world := t \<rparr>)" using fs_exists_Inr seen cp by (auto intro!: u)
  next
    fix m t
    assume e: "tree t = tree (ft_world c) \<or> (\<exists>a. fs_exists (posix ?p) (tree (ft_world c)) = Inr (a, tree t))"
      and l: "live (ft_world c) \<longrightarrow> live t \<and> tree t = tree (ft_world c) \<and> (\<exists>k. fs_exists (posix ?p) (tree (ft_world c)) = Inl k)"
    have "tree t = tree (ft_world c)" using e fs_exists_Inr by blast
    then show "?Q (Inl (Ssh m)) (c\<lparr> ft_world := t \<rparr>)" using l cp known by (auto intro!: u)
  qed
qed (simp add: unmoved_def)

lemma sftp_delete_spec:
  assumes g: "good b" and k: "store_key k"
  shows "wp (sftp_delete X SF T auth policy k) (\<lambda>r c. good c \<and> (ready b \<longrightarrow> ready c \<and> is_ok r)
     \<and> (case r of Inr _ \<Rightarrow> view c = (view b)(k := None) | Inl _ \<Rightarrow> view c = view b \<or> view c = (view b)(k := None))) b"
  unfolding sftp_delete_def Let_def
proof (rule wp_with_session)
  let ?p = "remote_path T k"
  let ?Q = "\<lambda>r c. good c \<and> (ready b \<longrightarrow> ready c \<and> is_ok r)
     \<and> (case r of Inr _ \<Rightarrow> view c = (view b)(k := None) | Inl _ \<Rightarrow> view c = view b \<or> view c = (view b)(k := None))"
  have q: "store_path (key_path k)" using k by (auto simp: store_key_def store_path_def)
  have ne: "key_path k \<noteq> []" by simp
  have lf: "local_fs root (tree (ft_world b))" and uu: "\<forall>n. ident (ft_uuids b n)" using g by (simp_all add: sftp_good_def)
  note p = key_posix [OF k]
  have vd: "fs_view root (fs_del (root @ key_path k) fs) = (fs_view root fs)(k := None)" for fs
  proof (cases "repo_key k")
    case True
    then show ?thesis by (rule fs_view_del_repo)
  next
    case False
    then have "temp_path (key_path k)" using k by (simp add: store_key_def repo_key_def)
    then show ?thesis using False fs_view_del_temp ne by (auto simp: fs_view_def)
  qed
  have del: "local_fs root fs1 \<and> fs_view root fs1 = (view b)(k := None)"
    if "fs_remove_file (posix ?p) (tree (ft_world b)) = Inr (u, fs1)" for u fs1
    using remove_file_Inr [OF that] local_fs_del [OF lf q] vd p by (simp add: sftp_view_def)
  have gone: "view b k = None" if "fs_remove_file (posix ?p) (tree (ft_world b)) = Inl NotFound"
    using that p store_stat [OF lf q] by (auto simp: sftp_view_def fs_view_def fs_remove_file_def)
  have answer: "(\<exists>u fs1. fs_remove_file (posix ?p) (tree (ft_world b)) = Inr (u, fs1))
      \<or> fs_remove_file (posix ?p) (tree (ft_world b)) = Inl NotFound"
    using store_stat [OF lf q] p by (auto simp: fs_remove_file_def)
  fix i c
  assume c: "unmoved b c"
  note cp = unmoved_parts [OF c]
  show "wp (bnd (on_world (sftp_try (sf_remove_file (SF i) ?p))) (\<lambda>r. case r of
         Inl No_Such_File \<Rightarrow> ret ()
       | Inl (Sftp_Failure x) \<Rightarrow> raise (Ssh (saying (''delete '' @ ?p) (sftp_text (Sftp_Failure x))))
       | Inr _ \<Rightarrow> ret ())) ?Q c"
    unfolding wp_bnd wp_on_world
  proof (rule wp_try_answers [OF remove_law])
    fix a t
    assume "fs_remove_file (posix ?p) (tree (ft_world c)) = Inr (a, tree t)" "live (ft_world c) \<longrightarrow> live t"
    then show "case Inr (Inr a) of Inl e \<Rightarrow> ?Q (Inl e) (c\<lparr> ft_world := t \<rparr>)
      | Inr r \<Rightarrow> wp (case r of
         Inl No_Such_File \<Rightarrow> ret ()
       | Inl (Sftp_Failure x) \<Rightarrow> raise (Ssh (saying (''delete '' @ ?p) (sftp_text (Sftp_Failure x))))
       | Inr _ \<Rightarrow> ret ()) ?Q (c\<lparr> ft_world := t \<rparr>)"
      using del cp uu by (auto simp: wp_simps sftp_good_def sftp_view_def sftp_ready_def)
  next
    fix e t
    assume e: "tree t = tree (ft_world c) \<or> (\<exists>a. fs_remove_file (posix ?p) (tree (ft_world c)) = Inr (a, tree t))"
      and nf: "e = No_Such_File \<longrightarrow> fs_remove_file (posix ?p) (tree (ft_world c)) = Inl NotFound \<and> tree t = tree (ft_world c)"
      and l: "live (ft_world c) \<longrightarrow> live t \<and> tree t = tree (ft_world c) \<and>
         (\<exists>k. fs_remove_file (posix ?p) (tree (ft_world c)) = Inl k \<and> (k = NotFound \<longrightarrow> e = No_Such_File))"
    have gt: "local_fs root (tree t)" "fs_view root (tree t) = view b \<or> fs_view root (tree t) = (view b)(k := None)"
      using e del cp lf by (auto simp: sftp_view_def)
    have idem: "e = No_Such_File \<Longrightarrow> fs_view root (tree t) = (view b)(k := None)"
      using nf gone cp by (simp add: sftp_view_def fun_upd_idem)
    have lv: "ready b \<longrightarrow> live t \<and> e = No_Such_File" using l cp answer by auto
    show "case Inr (Inl e) of Inl e \<Rightarrow> ?Q (Inl e) (c\<lparr> ft_world := t \<rparr>)
      | Inr r \<Rightarrow> wp (case r of
         Inl No_Such_File \<Rightarrow> ret ()
       | Inl (Sftp_Failure x) \<Rightarrow> raise (Ssh (saying (''delete '' @ ?p) (sftp_text (Sftp_Failure x))))
       | Inr _ \<Rightarrow> ret ()) ?Q (c\<lparr> ft_world := t \<rparr>)"
    proof (cases e)
      case No_Such_File
      then show ?thesis using idem gt(1) lv cp uu by (simp add: wp_simps sftp_good_def sftp_view_def sftp_ready_def)
    next
      case (Sftp_Failure x)
      then show ?thesis using gt lv cp uu by (auto simp: wp_simps sftp_good_def sftp_view_def sftp_ready_def)
    qed
  qed
next
  fix e c
  assume "unmoved b c" "\<not> ready b"
  then show "good c \<and> (ready b \<longrightarrow> ready c \<and> is_ok (Inl e :: unit res))
     \<and> (case Inl e of Inr _ \<Rightarrow> view c = (view b)(k := None) | Inl _ \<Rightarrow> view c = view b \<or> view c = (view b)(k := None))"
    using unmoved_good [of b c] unmoved_view [of b c] g by simp
qed

lemma sftp_put_spec:
  assumes g: "good b" and k: "repo_key k"
  shows "wp (sftp_put X SF T auth policy k d) (\<lambda>r c. good c \<and> (ready b \<longrightarrow> ready c \<and> is_ok r)
     \<and> (case r of Inr _ \<Rightarrow> view c = (view b)(k \<mapsto> d)
        | Inl _ \<Rightarrow> view c = view b \<or> view c = (view b)(k \<mapsto> d) \<or> view c = (view b)(k := None))) b"
  unfolding sftp_put_def Let_def
proof (rule wp_with_session)
  let ?p = "remote_path T k"
  let ?Q = "\<lambda>r c. good c \<and> (ready b \<longrightarrow> ready c \<and> is_ok r)
     \<and> (case r of Inr _ \<Rightarrow> view c = (view b)(k \<mapsto> d)
        | Inl _ \<Rightarrow> view c = view b \<or> view c = (view b)(k \<mapsto> d) \<or> view c = (view b)(k := None))"
  fix i c
  assume c: "unmoved b c"
  note cp = unmoved_parts [OF c]
  have uu: "ident (ft_uuids c n)" for n using g cp by (simp add: sftp_good_def)
  have lf: "local_fs root (tree (ft_world c))" using g cp by (simp add: sftp_good_def)
  have vb: "view b = shown (ft_world c)" using cp by (simp add: sftp_view_def)
  let ?put = "bnd sftp_uuid (\<lambda>u. on_world (write_via_temp (SF i) u ?p d))"
  show "wp (bnd (on_world (mkdir_all (SF i) (parent_dir T ?p))) (\<lambda>_. ?put)) ?Q c"
    unfolding wp_bnd [of "on_world (mkdir_all _ _)"] wp_on_world
  proof (rule wp_mono [OF wp_mkdir_all [OF lf repo_store_key [OF k]]])
    fix r :: "unit res" and t
    assume m: "local_fs root (tree t) \<and> shown t = shown (ft_world c) \<and> (live (ft_world c) \<longrightarrow> live t \<and> is_ok r)
      \<and> (is_ok r \<longrightarrow> is_dir (tree t) (root @ butlast (key_path k)))"
    show "case r of Inl e \<Rightarrow> ?Q (Inl e) (c\<lparr> ft_world := t \<rparr>) | Inr _ \<Rightarrow> wp ?put ?Q (c\<lparr> ft_world := t \<rparr>)"
    proof (cases r)
      case (Inl e)
      then show ?thesis using m cp uu vb by (auto simp: sftp_good_def sftp_view_def sftp_ready_def)
    next
      case (Inr x)
      have g1: "local_fs root (tree t)" and d1: "is_dir (tree t) (root @ butlast (key_path k))" and v1: "shown t = view b"
        and l1: "ready b \<longrightarrow> live t"
        using m Inr vb cp by auto
      note w = wp_write_via_temp [OF g1 k d1 ident_hyphenated [OF uu], of i "ft_pos c" d]
      show ?thesis
        unfolding Inr sum.case wp_bnd [of sftp_uuid] wp_sftp_uuid sum.case wp_on_world
        by (simp, rule wp_mono [OF w])
          (use uu v1 l1 in \<open>auto simp: put_outcome_def sftp_good_def sftp_view_def sftp_ready_def split: sum.splits\<close>)
    qed
  qed
next
  fix e c
  assume "unmoved b c" "\<not> ready b"
  then show "good c \<and> (ready b \<longrightarrow> ready c \<and> is_ok (Inl e :: unit res))
     \<and> (case Inl e of Inr _ \<Rightarrow> view c = (view b)(k \<mapsto> d)
        | Inl _ \<Rightarrow> view c = view b \<or> view c = (view b)(k \<mapsto> d) \<or> view c = (view b)(k := None))"
    using unmoved_good [of b c] unmoved_view [of b c] g by simp
qed

lemma wp_sftp_walk:
  assumes lf: "local_fs root (tree s)" and p: "list_prefix p"
  shows "wp (sftp_walk (SF i) (remote_path T p) (trim_end (CHR ''/'') p)) (\<lambda>r t. tree t = tree s
     \<and> (live s \<longrightarrow> live t \<and> is_ok r)
     \<and> (\<forall>ks. r = Inr ks \<longrightarrow> distinct ks \<and> (\<forall>k\<in>set ks. store_key k \<and> under p k)
          \<and> {k \<in> set ks. repo_key k} = {k. under p k \<and> shown s k \<noteq> None})) s"
proof -
  let ?fs = "tree s" and ?d = "trim_end (CHR ''/'') p"
  let ?top = "root @ [?d]"
  have top: "posix (remote_path T p) = ?top" using posix_remote_prefix [OF p, of T] by (simp add: sftp_root_def)
  have segs: "CHR ''/'' \<notin> set n \<and> plain_seg n" if pr: "prefix root q" and en: "ent ?fs (q @ [n]) \<noteq> None" for q n
  proof -
    obtain r where r: "q = root @ r" using pr by (rule prefixE)
    have "store_dir (r @ [n]) \<or> store_path (r @ [n])"
      using lf en unfolding local_fs_def r by (metis append.assoc not_None_eq)
    then show ?thesis
    proof
      assume "store_path (r @ [n])"
      then show ?thesis using store_path_segs by fastforce
    next
      assume "store_dir (r @ [n])"
      then show ?thesis using ident_plain' ident_no_slash
        by (auto simp: store_dir_def doc_dirs_def plain_seg_def append_eq_Cons_conv Cons_eq_append_conv)
    qed
  qed
  have rd: "reads_dirs tree live posix root ?fs (sftp_read_dir (SF i))"
    unfolding reads_dirs_def
  proof (intro allI impI)
    fix d kp u
    assume u: "tree u = ?fs" and l: "listable root ?fs (posix d, kp)"
    obtain q t where c: "sf_read_dir (SF i) d u = (q, t)" by fastforce
    have same: "fs_list p' fs = Inr (a, fs') \<Longrightarrow> fs' = fs" for p' fs a fs'
      by (auto simp: fs_list_def fs_read_dir_def split: sum.splits fs_entry.splits)
    have nd: "not_dots (map (\<lambda>(n, e). (n, e = EDir)) es) = map (\<lambda>(n, e). (n, e = EDir)) es"
      if es: "fs_read_dir (posix d) ?fs = Inr (es, u)" for es u
    proof -
      have "n \<noteq> ''.'' \<and> n \<noteq> ''..''" if "(n, e) \<in> set es" for n e
        using read_dir_ent [OF local_fs_wf [OF lf] es that] segs [of "posix d" n] l by (auto simp: listable_def plain_seg_def)
      then show ?thesis by (auto simp: not_dots_def filter_id_conv)
    qed
    have one: "fs_list (posix d) ?fs = Inl NotFound \<and> dir_entries ?fs (posix d) = None
        \<or> (\<exists>es. fs_list (posix d) ?fs = Inr (es, ?fs) \<and> dir_entries ?fs (posix d) = Some es)"
    proof (cases "ent ?fs (posix d) = Some EDir")
      case True
      then obtain es where es: "fs_read_dir (posix d) ?fs = Inr (es, ?fs)" by (simp add: fs_read_dir_def)
      then show ?thesis using nd [OF es] by (simp add: fs_list_def dir_entries_def)
    next
      case False
      then show ?thesis using l by (simp add: listable_def fs_list_def dir_entries_def fs_read_dir_def)
    qed
    have law: "(live u \<longrightarrow> live t) \<and> (case map_sum id not_dots q of
       Inr a \<Rightarrow> fs_list (posix d) ?fs = Inr (a, tree t)
     | Inl e \<Rightarrow> (tree t = ?fs \<or> (\<exists>a. fs_list (posix d) ?fs = Inr (a, tree t)))
         \<and> (e = No_Such_File \<longrightarrow> fs_list (posix d) ?fs = Inl NotFound \<and> tree t = ?fs)
         \<and> (live u \<longrightarrow> tree t = ?fs \<and> (\<exists>k. fs_list (posix d) ?fs = Inl k \<and> (k = NotFound \<longrightarrow> e = No_Such_File))))"
      using read_dir_law [of i d, unfolded answers_def no_dots_def, rule_format, of u] unfolding c prod.case u .
    show "wp (sftp_read_dir (SF i) d) (\<lambda>r t. tree t = ?fs \<and> (live u \<longrightarrow> live t \<and> is_ok r)
        \<and> (\<forall>es. r = Inr es \<longrightarrow> es = dir_entries ?fs (posix d))) u"
      using law one same
      by (cases q) (auto simp: sftp_read_dir_def not_dots_def [symmetric] wp_simps c split: sftp_error.splits)
  qed
  have ch: "extends_dirs posix root ?fs (\<lambda>d n. d @ CHR ''/'' # n)"
    unfolding extends_dirs_def using segs posix_child by blast
  have ls: "\<forall>x\<in>set [(remote_path T p, ?d)]. listable root ?fs (apfst posix x)"
    using top_listable [OF lf p] top by simp
  have fuel: "work ?fs (map (apfst posix) [(remote_path T p, ?d)]) < sf_entries (SF i) s"
    using top_fuel [OF entries_law] by simp
  note loop = wp_list_loop [OF local_fs_wf [OF lf] rd ch refl ls fuel, of "[]", unfolded pending_files_def, simplified, unfolded top]
  have res: "distinct ks \<and> (\<forall>k\<in>set ks. store_key k \<and> under p k) \<and> {k \<in> set ks. repo_key k} = {k. under p k \<and> shown s k \<noteq> None}"
    if "set ks = keyf root ` fst ` below is_file ?fs ?top" "length ks = card (below is_file ?fs ?top)" for ks
    using listed_store [OF lf p that] by blast
  show ?thesis
    unfolding sftp_walk_def wp_def unfolding wp_def [symmetric]
  proof (rule wp_mono [OF loop])
    fix r :: "string list res" and t
    assume a: "tree t = ?fs \<and> (live s \<longrightarrow> live t \<and> is_ok r) \<and> (\<forall>ks. r = Inr ks \<longrightarrow>
         set ks = keyf root ` fst ` below is_file ?fs ?top \<and> length ks = card (below is_file ?fs ?top))"
    have "distinct ks \<and> (\<forall>k\<in>set ks. store_key k \<and> under p k) \<and> {k \<in> set ks. repo_key k} = {k. under p k \<and> shown s k \<noteq> None}"
      if r: "r = Inr ks" for ks
    proof -
      have k: "set ks = keyf root ` fst ` below is_file ?fs ?top \<and> length ks = card (below is_file ?fs ?top)"
        using a r by blast
      show ?thesis by (rule res [OF conjunct1 [OF k] conjunct2 [OF k]])
    qed
    then show "tree t = ?fs \<and> (live s \<longrightarrow> live t \<and> is_ok r) \<and> (\<forall>ks. r = Inr ks \<longrightarrow> distinct ks
        \<and> (\<forall>k\<in>set ks. store_key k \<and> under p k) \<and> {k \<in> set ks. repo_key k} = {k. under p k \<and> shown s k \<noteq> None})"
      using a by simp
  qed
qed

lemma sftp_list_spec:
  assumes g: "good b" and p: "list_prefix p"
  shows "wp (sftp_list X SF T auth policy p) (\<lambda>r c. unmoved b c \<and> (ready b \<longrightarrow> is_ok r)
     \<and> (\<forall>ks. r = Inr ks \<longrightarrow> distinct ks \<and> (\<forall>k\<in>set ks. store_key k \<and> under p k)
          \<and> {k \<in> set ks. repo_key k} = {k. under p k \<and> view b k \<noteq> None})) b"
  unfolding sftp_list_def
proof (rule wp_with_session)
  fix i c
  assume c: "unmoved b c"
  note cp = unmoved_parts [OF c]
  have lf: "local_fs root (tree (ft_world c))" using g cp by (simp add: sftp_good_def)
  have vb: "shown (ft_world c) = view b" using cp by (simp add: sftp_view_def)
  show "wp (on_world (sftp_walk (SF i) (remote_path T p) (trim_end (CHR ''/'') p))) (\<lambda>r c. unmoved b c \<and> (ready b \<longrightarrow> is_ok r)
     \<and> (\<forall>ks. r = Inr ks \<longrightarrow> distinct ks \<and> (\<forall>k\<in>set ks. store_key k \<and> under p k)
          \<and> {k \<in> set ks. repo_key k} = {k. under p k \<and> view b k \<noteq> None})) c"
    unfolding wp_on_world
    by (rule wp_mono [OF wp_sftp_walk [OF lf p, unfolded vb]])
      (use cp in \<open>simp add: unmoved_def sftp_ready_def\<close>)
qed (simp add: unmoved_def)

end

text \<open>Hence every theorem about a repository on a store of the contract holds over SFTP.\<close>

sublocale sftp_server \<subseteq> sftp: reliable_backend "sftp_backend X SF T auth policy" "sftp_view T tree" "sftp_good T tree" "sftp_ready live"
proof
  fix b k
  assume "sftp_good T tree b" "sftp_view T tree b k \<noteq> None"
  then show "repo_key k" by (auto simp: sftp_view_def fs_view_def split: if_splits)
next
  fix b k
  assume g: "sftp_good T tree b"
  show "wp (b_get (sftp_backend X SF T auth policy) k) (\<lambda>r c. sftp_good T tree c \<and> sftp_view T tree c = sftp_view T tree b
      \<and> (\<forall>d. r = Inr d \<longrightarrow> repo_key k \<longrightarrow> sftp_view T tree b k = Some d)) b"
    by (simp add: sftp_backend_def) (rule wp_mono [OF sftp_get_spec], use g unmoved_good unmoved_view in blast)
  show "wp (b_exists (sftp_backend X SF T auth policy) k) (\<lambda>r c. sftp_good T tree c \<and> sftp_view T tree c = sftp_view T tree b
      \<and> (\<forall>t. r = Inr t \<longrightarrow> repo_key k \<longrightarrow> t = (sftp_view T tree b k \<noteq> None))) b"
    by (simp add: sftp_backend_def) (rule wp_mono [OF sftp_exists_spec [OF g]], use g unmoved_good unmoved_view in blast)
  assume r: "sftp_ready live b"
  show "wp (b_get (sftp_backend X SF T auth policy) k) (\<lambda>r c. sftp_ready live c
      \<and> (repo_key k \<longrightarrow> sftp_view T tree b k \<noteq> None \<longrightarrow> is_ok r)) b"
    by (simp add: sftp_backend_def) (rule wp_mono [OF sftp_get_spec], use r in \<open>simp add: unmoved_def\<close>)
  show "wp (b_exists (sftp_backend X SF T auth policy) k) (\<lambda>r c. sftp_ready live c \<and> is_ok r) b" if "repo_key k"
    by (simp add: sftp_backend_def) (rule wp_mono [OF sftp_exists_spec [OF g]], use r that in \<open>simp add: unmoved_def\<close>)
next
  fix b p
  assume g: "sftp_good T tree b" "list_prefix p"
  show "wp (b_list (sftp_backend X SF T auth policy) p) (\<lambda>r c. sftp_good T tree c \<and> sftp_view T tree c = sftp_view T tree b
      \<and> (\<forall>ks. r = Inr ks \<longrightarrow> distinct ks \<and> (\<forall>k\<in>set ks. store_key k \<and> under p k)
          \<and> {k \<in> set ks. repo_key k} = {k. under p k \<and> sftp_view T tree b k \<noteq> None})) b"
    by (simp add: sftp_backend_def)
      (rule wp_mono [OF sftp_list_spec [OF g]], use g unmoved_good unmoved_view in blast)
  assume r: "sftp_ready live b"
  show "wp (b_list (sftp_backend X SF T auth policy) p) (\<lambda>r c. sftp_ready live c \<and> is_ok r) b"
    by (simp add: sftp_backend_def) (rule wp_mono [OF sftp_list_spec [OF g]], use r in \<open>simp add: unmoved_def\<close>)
next
  fix b k d
  assume g: "sftp_good T tree b" "repo_key k"
  show "wp (b_put (sftp_backend X SF T auth policy) k d) (\<lambda>r c. sftp_good T tree c \<and> (case r of
        Inl _ \<Rightarrow> sftp_view T tree c = sftp_view T tree b \<or> sftp_view T tree c = (sftp_view T tree b)(k \<mapsto> d)
          \<or> sftp_view T tree c = (sftp_view T tree b)(k := None)
      | Inr _ \<Rightarrow> sftp_view T tree c = (sftp_view T tree b)(k \<mapsto> d))) b"
    by (simp add: sftp_backend_def) (rule wp_mono [OF sftp_put_spec [OF g]], blast)
  assume r: "sftp_ready live b"
  show "wp (b_put (sftp_backend X SF T auth policy) k d) (\<lambda>r c. sftp_ready live c \<and> is_ok r) b"
    by (simp add: sftp_backend_def) (rule wp_mono [OF sftp_put_spec [OF g]], use r in blast)
next
  fix b k
  assume g: "sftp_good T tree b" "store_key k"
  show "wp (b_delete (sftp_backend X SF T auth policy) k) (\<lambda>r c. sftp_good T tree c \<and> (case r of
        Inl _ \<Rightarrow> sftp_view T tree c = sftp_view T tree b \<or> sftp_view T tree c = (sftp_view T tree b)(k := None)
      | Inr _ \<Rightarrow> sftp_view T tree c = (sftp_view T tree b)(k := None))) b"
    by (simp add: sftp_backend_def) (rule wp_mono [OF sftp_delete_spec [OF g]], blast)
  assume r: "sftp_ready live b"
  show "wp (b_delete (sftp_backend X SF T auth policy) k) (\<lambda>r c. sftp_ready live c \<and> is_ok r) b"
    by (simp add: sftp_backend_def) (rule wp_mono [OF sftp_delete_spec [OF g]], use r in blast)
qed

context sftp_server
begin

lemmas backup_crash = sftp.crash_consistent
lemmas backup_ok = sftp.backup_returns
lemmas calls_flat = sftp.answers_flat

end

end
