(* ===== verification/Posix_Server.thy ===== *)
theory Posix_Server
  imports Sftp_Store
begin

text \<open>
  An SFTP server over the model of a POSIX file system: each request is the file-system call
  of its name, a rename refuses an existing target as version 3 of the protocol does, and a
  schedule of faults drops requests (before they act, or after, when only the answer is
  lost). It satisfies the interface the SFTP backend relies on.
\<close>

section \<open>The server\<close>

definition answer_of :: "io_kind + 'a \<Rightarrow> sftp_error + 'a" where
  "answer_of r = (case r of
      Inl NotFound \<Rightarrow> Inl No_Such_File | Inl OtherKind \<Rightarrow> Inl (Sftp_Failure ''failure'') | Inr a \<Rightarrow> Inr a)"

definition after :: "(fs \<Rightarrow> io_kind + 'a \<times> fs) \<Rightarrow> fs \<Rightarrow> fs" where
  "after f fs = (case f fs of Inl _ \<Rightarrow> fs | Inr (_, fs') \<Rightarrow> fs')"

definition request :: "(fs \<Rightarrow> io_kind + 'a \<times> fs) \<Rightarrow> (os_state, 'a) sftp_call" where
  "request f = (\<lambda>s. let t = used_fault s in
      case next_fault s of
        Some 0 \<Rightarrow> (Inl (Sftp_Failure ''timeout''), t)
      | Some _ \<Rightarrow> (Inl (Sftp_Failure ''timeout''), t\<lparr> os_fs := after f (os_fs s) \<rparr>)
      | None \<Rightarrow> (answer_of (map_sum id fst (f (os_fs s))), t\<lparr> os_fs := after f (os_fs s) \<rparr>))"

definition write_request :: "path \<Rightarrow> bytes \<Rightarrow> (os_state, unit) sftp_call" where
  "write_request p d = (\<lambda>s. let t = used_fault s in
      case next_fault s of
        Some n \<Rightarrow> (Inl (Sftp_Failure ''timeout''), t\<lparr> os_fs := fs_append p (take n d) (os_fs s) \<rparr>)
      | None \<Rightarrow> (Inr (), t\<lparr> os_fs := fs_append p d (os_fs s) \<rparr>))"

definition rename_new :: "path \<Rightarrow> path \<Rightarrow> fs \<Rightarrow> io_kind + unit \<times> fs" where
  "rename_new p q fs = (if ent fs q \<noteq> None then Inl OtherKind else fs_rename p q fs)"

definition posix_session :: "os_state sftp_session" where
  "posix_session = \<lparr>
     sf_try_exists = (\<lambda>p. request (fs_exists (posix p))),
     sf_create_dir = (\<lambda>p. request (fs_create_dir (posix p))),
     sf_open_read = (\<lambda>p. request (fs_open (posix p))),
     sf_read_to_end = (\<lambda>p. request (fs_read (posix p))),
     sf_open_write = (\<lambda>p. request (fs_create (posix p))),
     sf_write_all = (\<lambda>p. write_request (posix p)),
     sf_sync_all = (\<lambda>p. request (\<lambda>fs. Inr ((), fs))),
     sf_close = (\<lambda>p. request (\<lambda>fs. Inr ((), fs))),
     sf_rename = (\<lambda>p q. request (rename_new (posix p) (posix q))),
     sf_remove_file = (\<lambda>p. request (fs_remove_file (posix p))),
     sf_read_dir = (\<lambda>p. request (fs_list (posix p))),
     sf_entries = (\<lambda>s. length (os_fs s) + 3) \<rparr>"

text \<open>An SSH server that accepts everyone and whose key is always known.\<close>

definition open_russh :: "os_state russh" where
  "open_russh = \<lparr>
     ru_hello = (\<lambda>h p s. (Inr ''key'', s)), ru_handshake = (\<lambda>h p s. (Inr 0, s)),
     ru_check_known = (\<lambda>h p k f s. (Inr True, s)), ru_learn_known = (\<lambda>h p k f s. (Inr (), s)),
     ru_password = (\<lambda>c u pw s. (Inr True, s)), ru_load_key = (\<lambda>p pw s. (Inr ''id'', s)),
     ru_publickey = (\<lambda>c u k s. (Inr True, s)), ru_open_session = (\<lambda>c s. (Inr 0, s)),
     ru_subsystem = (\<lambda>c s. (Inr (), s)), ru_sftp_new = (\<lambda>c s. (Inr 0, s)),
     ru_exec = (\<lambda>c cmd s. (Inr (), s)), ru_messages = (\<lambda>c s. ([], s)), ru_closed = (\<lambda>c s. False),
     ru_env = (\<lambda>v. Some ''/root''), ru_path_exists = (\<lambda>p s. True) \<rparr>"

section \<open>It keeps the interface\<close>

lemma any_answer: "r = Inl NotFound \<or> r = Inl OtherKind \<or> (\<exists>a fs'. r = Inr (a, fs'))" for r :: "io_kind + 'a \<times> fs"
  by (cases r) (auto intro: io_kind.exhaust)

lemma request_answers: "answers os_fs faultless (request f) f"
  unfolding answers_def
proof
  fix s :: os_state
  show "case request f s of (r, t) \<Rightarrow> (faultless s \<longrightarrow> faultless t) \<and> (case r of
       Inl e \<Rightarrow> (os_fs t = os_fs s \<or> (\<exists>a. f (os_fs s) = Inr (a, os_fs t)))
         \<and> (e = No_Such_File \<longrightarrow> f (os_fs s) = Inl NotFound \<and> os_fs t = os_fs s)
         \<and> (faultless s \<longrightarrow> os_fs t = os_fs s \<and> (\<exists>k. f (os_fs s) = Inl k \<and> (k = NotFound \<longrightarrow> e = No_Such_File)))
     | Inr a \<Rightarrow> f (os_fs s) = Inr (a, os_fs t))"
    using any_answer [of "f (os_fs s)"]
    by (cases "next_fault s")
      (auto simp: request_def answer_of_def after_def faultless_next Let_def split: nat.splits)
qed

lemma no_dots_request: "no_dots (request (fs_list p)) = request (fs_list p)"
proof
  fix s :: os_state
  have "map_sum id not_dots (answer_of (map_sum id fst (fs_list p fs))) = answer_of (map_sum id fst (fs_list p fs))" for fs
    by (auto simp: answer_of_def fs_list_def not_dots_def split: sum.splits io_kind.splits)
  then show "no_dots (request (fs_list p)) s = request (fs_list p) s"
    by (simp add: no_dots_def request_def Let_def split: option.splits nat.splits)
qed

lemma write_appends: "appends os_fs faultless p d (write_request p d)"
  unfolding appends_def
proof
  fix s :: os_state
  show "case write_request p d s of (r, t) \<Rightarrow> (faultless s \<longrightarrow> faultless t \<and> r = Inr ())
     \<and> (\<exists>n. os_fs t = fs_append p (take n d) (os_fs s) \<and> (r = Inr () \<longrightarrow> length d \<le> n))"
    by (cases "next_fault s") (auto simp: write_request_def faultless_next Let_def intro: exI [of _ "length d"])
qed

lemma request_renames: "renames os_fs faultless p q (request (rename_new p q))"
  unfolding renames_def
proof
  fix s :: os_state
  show "case request (rename_new p q) s of (r, t) \<Rightarrow> (faultless s \<longrightarrow> faultless t) \<and> (case r of
       Inl e \<Rightarrow> (os_fs t = os_fs s \<or> fs_rename p q (os_fs s) = Inr ((), os_fs t))
         \<and> (faultless s \<longrightarrow> os_fs t = os_fs s \<and> (ent (os_fs s) q \<noteq> None \<or> (\<exists>k. fs_rename p q (os_fs s) = Inl k)))
     | Inr _ \<Rightarrow> fs_rename p q (os_fs s) = Inr ((), os_fs t))"
    using any_answer [of "fs_rename p q (os_fs s)"]
    by (cases "next_fault s")
      (auto simp: request_def rename_new_def answer_of_def after_def faultless_next Let_def split: nat.splits)
qed

lemma posix_server:
  assumes "plain_target T"
  shows "sftp_server open_russh (\<lambda>_. posix_session) T (Auth_Password pw) AcceptAny os_fs faultless"
proof
  show "wp (connect_and_auth open_russh T (Auth_Password pw) AcceptAny)
      (\<lambda>r t. os_fs t = os_fs s \<and> (faultless s \<longrightarrow> faultless t \<and> is_ok r)) s" for s
    by (simp add: connect_and_auth_def connect_handle_def client_connect_def verify_host_key_def authenticate_def
        open_sftp_def open_russh_def wp_simps Let_def)
qed (use assms in \<open>simp_all add: posix_session_def request_answers no_dots_request write_appends request_renames\<close>)

end
