(* ===== verification/Sftp_Repository.thy ===== *)
theory Sftp_Repository
  imports Posix_Server Local_Repository
begin

text \<open>
  A repository on an SFTP server: what an interrupted backup leaves there, and that the
  backend cannot be told from the local one. Both hold for every server and session library
  that keeps the interface \<open>sftp_server\<close>, and for every outcome of each request.
\<close>

section \<open>The interpretation on the POSIX server\<close>

definition sample_target :: sftp_target where
  "sample_target = new_target ''root'' ''nas'' 22 ''/srv''"

lemma sample_plain: "plain_target sample_target"
  by (simp add: plain_target_def sample_target_def new_target_def plain_seg_def)

interpretation ps: sftp_server open_russh "\<lambda>_. posix_session" sample_target "Auth_Password pw" AcceptAny os_fs faultless
  by (rule posix_server [OF sample_plain])

section \<open>Interrupted backups\<close>

abbreviation sftp_stored :: "sftp_target \<Rightarrow> ('s \<Rightarrow> fs) \<Rightarrow> 's sftp_state world \<Rightarrow> string \<Rightarrow> bytes option" where
  "sftp_stored T tree w \<equiv> sftp_view T tree (w_store w)"

text \<open>C34: A backup over SFTP survives every loss of the connection. Whichever requests fail,
  also those whose effect took place although the answer was lost, the backup removes and
  overwrites nothing in the repository on the server, adds only blobs, one index and one
  manifest, and if the manifest is visible then so is its index and the snapshot stands for
  the complete source tree. When no request fails the backup of readable sources succeeds.\<close>

theorem sftp_backup_crash_consistent:
  assumes "sftp_server X SF T auth policy tree live"
    and "rp_backend R = sftp_backend X SF T auth policy" "sftp_good T tree (w_store w)"
    and "backup_setting L R U (sftp_stored T tree w) sfs paths (next_uuid w)"
    and "backup L R sfs paths w = (r, t)"
  shows "sftp_stored T tree w \<subseteq>\<^sub>m sftp_stored T tree t
     \<and> (\<forall>k. sftp_stored T tree w k = None \<longrightarrow> sftp_stored T tree t k \<noteq> None \<longrightarrow>
          (\<exists>h. hash_name h \<and> k = bkey h) \<or> k \<in> {index_key (next_uuid w), snapshot_key (next_uuid w)})
     \<and> (sftp_stored T tree t (snapshot_key (next_uuid w)) \<noteq> None \<longrightarrow>
          sftp_stored T tree t (index_key (next_uuid w)) \<noteq> None
        \<and> (\<exists>sn. sn_id sn = next_uuid w \<and> snapshot_of_sources L R (sftp_stored T tree t) sfs paths sn))
     \<and> (\<forall>sn. r = Inr sn \<longrightarrow> sn_id sn = next_uuid w \<and> snapshot_of_sources L R (sftp_stored T tree t) sfs paths sn)
     \<and> (sftp_ready live (w_store w) \<and> sealable L R \<and> sources_readable (rc_chunker (rp_config R)) sfs paths \<longrightarrow> is_ok r)"
proof -
  note c = sftp_server.backup_crash [OF assms]
  have L: "foreign_laws L" "ident (next_uuid w)" using assms(4) by (simp_all add: backup_setting_def)
  have ok: "is_ok r" if "sftp_ready live (w_store w)" "sealable L R" "sources_readable (rc_chunker (rp_config R)) sfs paths"
    using sftp_server.backup_ok [OF assms(1-3) that(1) L(1) that(2) L(2) that(3) assms(5)] by blast
  show ?thesis using c ok by blast
qed

section \<open>Two backends, one store\<close>

text \<open>C35: The two backends are interchangeable. Started from equal stores, a local directory and
  an SFTP server that does not fail give the same answers to every sequence of reads, writes,
  tests, deletions and listings of repository keys, and these are the answers of a flat map:
  a read returns what was last written under its key and fails on an absent one, a listing
  returns the keys below its prefix.\<close>

theorem backends_interchangeable:
  assumes "sftp_server X SF T auth policy tree live"
    and "sftp_good T tree b" "sftp_ready live b" "local_good root a" "local_ready a"
    and "sftp_view T tree b = local_view root a" "\<forall>c\<in>set cs. engine_call c"
  shows "answers_to (sftp_backend X SF T auth policy) cs b = answers_to (local_backend root) cs a
     \<and> answers_to (local_backend root) cs a = flat_answers cs (local_view root a)"
  using sftp_server.calls_flat [OF assms(1-3,7)] lr.answers_flat [OF assms(4,5,7)] assms(6) by simp

section \<open>Witnesses\<close>

definition sftp_sample_repo :: "os_state sftp_state repository" where
  "sftp_sample_repo = \<lparr> rp_backend = sftp_backend open_russh (\<lambda>_. posix_session) sample_target (Auth_Password ''pw'') AcceptAny,
     rp_config = sample_config, rp_crypto = None \<rparr>"

definition sftp_sample_store :: "os_state sftp_state" where
  "sftp_sample_store = \<lparr> ft_world = \<lparr> os_fs = [], os_faults = [] \<rparr>, ft_session = None, ft_uuids = (\<lambda>_. ''t''), ft_pos = 0 \<rparr>"

definition sftp_sample_world :: "os_state sftp_state world" where
  "sftp_sample_world = \<lparr> w_store = sftp_sample_store,
     w_rng = (\<lambda>_. 0), w_rng_pos = 0, w_uuids = (\<lambda>_. ''s1''), w_uuid_pos = 0, w_clock = (\<lambda>_. ''1''), w_clock_pos = 0,
     w_host = None, w_env = (\<lambda>_. None), w_tty = False, w_prompts = [], w_os = \<lparr> os_fs = [], os_faults = [] \<rparr> \<rparr>"

lemma sftp_sample:
  "sftp_good sample_target os_fs sftp_sample_store" "sftp_ready faultless sftp_sample_store"
  "sftp_view sample_target os_fs sftp_sample_store = Map.empty"
proof -
  have r: "sftp_root sample_target = [''srv'']" by code_simp
  show "sftp_good sample_target os_fs sftp_sample_store" "sftp_ready faultless sftp_sample_store"
    by (auto simp: sftp_sample_store_def sftp_good_def r local_fs_def fs_wf_def ent_def ident_def ident_char_def
        sftp_ready_def faultless_def le_Suc_eq store_dir_def take_Cons')
  show "sftp_view sample_target os_fs sftp_sample_store = Map.empty"
    by (rule ext) (simp add: sftp_sample_store_def sftp_view_def r fs_view_def ent_def)
qed

lemma sftp_sample_setting:
  "backup_setting ref_lib sftp_sample_repo {[1, 2, 3]} (sftp_stored sample_target os_fs sftp_sample_world) sample_sources [''/data''] (next_uuid sftp_sample_world)"
proof -
  have e: "sftp_stored sample_target os_fs sftp_sample_world = stored [''repo''] sample_world"
    using sftp_sample(3) sample_local(3) by (simp add: sftp_sample_world_def fun_eq_iff)
  have u: "next_uuid sftp_sample_world = next_uuid sample_world"
    by (simp add: next_uuid_def sftp_sample_world_def sample_world_def)
  have s: "store_ok ref_lib sftp_sample_repo {[1, 2, 3]} (stored [''repo''] sample_world)"
    using sample_local(3) by (simp add: store_ok_def)
  show ?thesis
    unfolding e u using sample_setting s
    by (simp add: backup_setting_def sftp_sample_repo_def sample_repo_def)
qed

theorem sftp_backup_crash_consistent_witness:
  "\<exists>sn t. backup ref_lib sftp_sample_repo sample_sources [''/data''] sftp_sample_world = (Inr sn, t)
     \<and> sftp_stored sample_target os_fs t (index_key ''s1'') \<noteq> None"
proof -
  obtain r t where run: "backup ref_lib sftp_sample_repo sample_sources [''/data''] sftp_sample_world = (r, t)" by fastforce
  have R: "rp_backend sftp_sample_repo = sftp_backend open_russh (\<lambda>_. posix_session) sample_target (Auth_Password ''pw'') AcceptAny"
    by (simp add: sftp_sample_repo_def)
  have g: "sftp_good sample_target os_fs (w_store sftp_sample_world)" "sftp_ready faultless (w_store sftp_sample_world)"
    using sftp_sample by (simp_all add: sftp_sample_world_def)
  have u: "next_uuid sftp_sample_world = ''s1''" by (simp add: next_uuid_def sftp_sample_world_def)
  have s: "sealable ref_lib sftp_sample_repo" "sources_readable (rc_chunker (rp_config sftp_sample_repo)) sample_sources [''/data'']"
    using sample_readable by (simp_all add: sftp_sample_repo_def sample_config_def sealable_def)
  note c = sftp_backup_crash_consistent [OF posix_server [OF sample_plain, of "''pw''"] R g(1) sftp_sample_setting run, unfolded u]
  have "is_ok r" using c g(2) s by blast
  then obtain sn where sn: "r = Inr sn" by (auto simp: is_ok_iff)
  then have "sn_id sn = ''s1''" "snapshot_of_sources ref_lib sftp_sample_repo (sftp_stored sample_target os_fs t) sample_sources [''/data''] sn"
    using c by simp_all
  then have "sftp_stored sample_target os_fs t (snapshot_key ''s1'') \<noteq> None"
    by (simp add: snapshot_of_sources_def snapshot_ids_def)
  then have "sftp_stored sample_target os_fs t (index_key ''s1'') \<noteq> None" using c by blast
  then show ?thesis using run sn by blast
qed

theorem backends_interchangeable_witness:
  "answers_to (local_backend [''repo'']) [Put_Call ''config'' [7], Get_Call ''config'', Delete_Call ''config'', Has_Call ''config'']
      (w_store sample_world) = [Some Done, Some (Got [7]), Some Done, Some (Has False)]"
proof -
  let ?cs = "[Put_Call ''config'' [7], Get_Call ''config'', Delete_Call ''config'', Has_Call ''config'']"
  have v: "sftp_view sample_target os_fs sftp_sample_store = local_view [''repo''] (w_store sample_world)"
    using sftp_sample(3) sample_local(3) by (simp add: fun_eq_iff)
  have e: "\<forall>c\<in>set ?cs. engine_call c" by simp
  note i = backends_interchangeable [OF posix_server [OF sample_plain, of "''pw''"] sftp_sample(1,2) sample_local(1,2) v e]
  show ?thesis using i sample_local(3) by simp
qed

section \<open>What an interrupted overwrite may lose\<close>

text \<open>
  The server refuses to rename onto an existing object, so the code removes the object and
  renames again; if the connection is lost between the two the object is gone, although the
  comment above that code says that readers see the old or the new content.
\<close>

lemma overwrite_may_lose:
  "let s = \<lparr> os_fs = [([''srv''], EDir), ([''srv'', ''config''], EFile [1] None None)],
             os_faults = [None, None, None, None, None, None, Some 0] \<rparr>;
       (r, t) = write_via_temp posix_session ''u'' ''/srv/config'' [2] s
   in r = Inl (Ssh ''replacing /srv/config: timeout'') \<and> ent (os_fs s) [''srv'', ''config''] = Some (EFile [1] None None)
     \<and> ent (os_fs t) [''srv'', ''config''] = None"
  by code_simp

end
