(* ===== verification/Agentless.thy ===== *)
theory Agentless
  imports Transport Repo_Backup Replication
begin

text \<open>
  Agentless backup (aegis-core/src/agentless.rs): the control plane walks a remote tree over
  SFTP and commits it as a snapshot. The remote tree is a value, as the source of a local
  backup is: what \<open>read_dir\<close> and \<open>open\<close> yield for each path during the run, errors included.
  A run works on the repository's store and, for its one SFTP channel, on the manager of the
  SSH connections. The bandwidth limiter only delays a run and is left out.
\<close>

section \<open>The remote tree\<close>

record attributes =
  fa_size :: "64 word option"
  fa_permissions :: "32 word option"
  fa_mtime :: "32 word option"

datatype remote_entry =
    RemoteFile attributes "string + reader"
  | RemoteDir "string + (string \<times> remote_entry) list"
  | RemoteOther

type_synonym listing = "string + (string \<times> remote_entry) list"
type_synonym remote_fs = "string \<Rightarrow> listing"

lemma remote_child_size: "(n, e) \<in> set es \<Longrightarrow> size e < size (RemoteDir (Inr es))"
  by (induction es) auto

section \<open>Files\<close>

definition remote_sink ::
  "string set \<Rightarrow> snapshot_stats \<times> (string \<times> bytes) list \<times> string list \<Rightarrow> chunk \<Rightarrow> bytes
   \<Rightarrow> ('s, snapshot_stats \<times> (string \<times> bytes) list \<times> string list) io" where
  "remote_sink seen = (\<lambda>(stats, pending, hashes) c d.
     let hex = ck_hash c;
         stats' = stats\<lparr> st_chunks := st_chunks stats + 1, st_bytes := st_bytes stats + of_nat (ck_length c) \<rparr>
     in ret (stats', if hex \<notin> seen \<and> \<not> list_ex (\<lambda>(h, _). h = hex) pending then pending @ [(hex, d)] else pending,
             hashes @ [hex]))"

definition store_chunks :: "foreign \<Rightarrow> 'b repository \<Rightarrow> run \<Rightarrow> (string \<times> bytes) list \<Rightarrow> ('b world, run) io" where
  "store_chunks L R = fold_io (\<lambda>run (hex, d). bnd (store_chunk L R hex d run) (\<lambda>(_, run'). ret run'))"

definition remote_file ::
  "foreign \<Rightarrow> 'b repository \<Rightarrow> chunker_config \<Rightarrow> string \<Rightarrow> string \<Rightarrow> attributes \<Rightarrow> string + reader \<Rightarrow> run
   \<Rightarrow> ('b world, node \<times> run) io" where
  "remote_file L R cfg path nm meta opened run =
     (case opened of
        Inl e \<Rightarrow> raise (Ssh (saying (''open '' @ path) e))
      | Inr file \<Rightarrow>
          bnd (chunk_async_stream L file cfg (remote_sink (ru_seen run)) (ru_stats run, [], []))
            (\<lambda>(stats, pending, hashes).
          bnd (store_chunks L R (run\<lparr> ru_stats := stats \<rparr>) pending) (\<lambda>run.
          ret (File nm (case fa_size meta of Some n \<Rightarrow> n | None \<Rightarrow> 0) (fa_permissions meta)
                 (map_option uint (fa_mtime meta)) hashes,
               run\<lparr> ru_stats := (ru_stats run)\<lparr> st_files := st_files (ru_stats run) + 1 \<rparr> \<rparr>))))"

section \<open>Directories\<close>

definition dots :: "string \<Rightarrow> bool" where
  "dots n \<longleftrightarrow> n = ''.'' \<or> n = ''..''"

definition child_path :: "string \<Rightarrow> string \<Rightarrow> string" where
  "child_path dir n = trim_end (CHR ''/'') dir @ CHR ''/'' # n"

function backup_dir_recursive ::
  "foreign \<Rightarrow> 'b repository \<Rightarrow> chunker_config \<Rightarrow> string \<Rightarrow> string \<Rightarrow> listing \<Rightarrow> run \<Rightarrow> ('b world, node \<times> run) io" where
  "backup_dir_recursive L R cfg dir nm (Inl e) run = raise (Ssh (saying (''read_dir '' @ dir) e))"
| "backup_dir_recursive L R cfg dir nm (Inr entries) run =
     bnd (fold_io (\<lambda>acc x. case (acc, x) of ((children, run), (n, e)) \<Rightarrow> (case e of
            RemoteDir l \<Rightarrow>
              bnd (backup_dir_recursive L R cfg (child_path dir n) n l run) (\<lambda>(nd, run'). ret (children @ [nd], run'))
          | RemoteFile meta opened \<Rightarrow>
              bnd (remote_file L R cfg (child_path dir n) n meta opened run) (\<lambda>(nd, run'). ret (children @ [nd], run'))
          | RemoteOther \<Rightarrow> ret (children, run)))
        ([], run) (sort_key fst (filter (\<lambda>(n, _). \<not> dots n) entries)))
     (\<lambda>(children, run'). ret (sort_node (Dir nm children), run'))"
  by pat_completeness auto
termination
  by (relation "measure (\<lambda>(_, _, _, _, _, l, _). size (RemoteDir l))") (auto dest: remote_child_size)

text \<open>The last segment of a path names the directory in the snapshot.\<close>

definition dir_name :: "string \<Rightarrow> string" where
  "dir_name path = last (split_on (CHR ''/'') (trim_end (CHR ''/'') path))"

definition remote_roots ::
  "foreign \<Rightarrow> 'b repository \<Rightarrow> chunker_config \<Rightarrow> remote_fs \<Rightarrow> string list \<Rightarrow> ('b world, string list \<times> node list \<times> run) io" where
  "remote_roots L R cfg rfs paths =
     fold_io (\<lambda>(roots, children, run) path.
       if \<not> starts_with path ''/'' then raise (Ssh (''remote backup path `'' @ path @ ''` must be absolute''))
       else bnd (backup_dir_recursive L R cfg path (dir_name path) (rfs path) run) (\<lambda>(nd, run').
         ret (roots @ [path], children @ [nd], run')))
       ([], [], empty_run) paths"

definition backup_remote ::
  "foreign \<Rightarrow> 'b repository \<Rightarrow> 's russh \<Rightarrow> host_config \<Rightarrow> chunker_config \<Rightarrow> remote_fs \<Rightarrow> string list
   \<Rightarrow> ('b world \<times> 's ssh_state, snapshot) io" where
  "backup_remote L R X host cfg rfs paths =
     bnd (on_target (sftp_channel X host)) (\<lambda>_.
     on_source (bnd (remote_roots L R cfg rfs paths) (\<lambda>(roots, children, run).
       commit_snapshot L R (Dir ''root'' children) roots (ru_stats run) (ru_written run))))"

end
