(* ===== verification/Agentless_Correct.thy ===== *)
theory Agentless_Correct
  imports Agentless Repository_Laws
begin

text \<open>
  An agentless backup is a local backup of the same tree: it leaves the store as the local
  one does, call by call, and returns the same snapshot. Everything proved about backups of
  a local source then holds of remote ones.
\<close>

section \<open>Two runs side by side\<close>

text \<open>
  Two computations on the same state that end in the same state, with results related by
  \<open>P\<close> or both failed.
\<close>

definition alongside :: "('a \<Rightarrow> 'b \<Rightarrow> bool) \<Rightarrow> ('s, 'a) io \<Rightarrow> ('s, 'b) io \<Rightarrow> bool" where
  "alongside P m m' \<longleftrightarrow> (\<forall>s. snd (m s) = snd (m' s) \<and>
     (case (fst (m s), fst (m' s)) of (Inr a, Inr b) \<Rightarrow> P a b | (Inl _, Inl _) \<Rightarrow> True | _ \<Rightarrow> False))"

lemma alongside_ret: "P a b \<Longrightarrow> alongside P (ret a) (ret b)"
  by (simp add: alongside_def ret_def)

lemma alongside_raise: "alongside P (raise e) (raise e')"
  by (simp add: alongside_def raise_def)

lemma alongside_same: "(\<And>a. P a a) \<Longrightarrow> alongside P m m"
  by (auto simp: alongside_def split: sum.splits)

lemma alongside_bnd:
  assumes "alongside P m m'" "\<And>a b. P a b \<Longrightarrow> alongside Q (f a) (g b)"
  shows "alongside Q (bnd m f) (bnd m' g)"
  unfolding alongside_def
proof (intro allI)
  fix s
  obtain r t where m1: "m s = (r, t)" by fastforce
  obtain r' t' where m2: "m' s = (r', t')" by fastforce
  note at_s = assms(1) [unfolded alongside_def, rule_format, of s, unfolded m1 m2 fst_conv snd_conv]
  have m: "m s = (r, t)" "m' s = (r', t)" using m1 m2 at_s by simp_all
  note rel = at_s [THEN conjunct2]
  show "snd (bnd m f s) = snd (bnd m' g s) \<and>
     (case (fst (bnd m f s), fst (bnd m' g s)) of (Inr a, Inr b) \<Rightarrow> Q a b | (Inl _, Inl _) \<Rightarrow> True | _ \<Rightarrow> False)"
  proof (cases r)
    case (Inl e)
    then show ?thesis using rel m by (cases r') (simp_all add: bnd_def)
  next
    case (Inr a)
    then obtain b where b: "r' = Inr b" "P a b" using rel by (cases r') simp_all
    then show ?thesis using assms(2) [OF b(2)] m Inr by (simp add: bnd_def alongside_def)
  qed
qed

lemma alongside_run:
  assumes "alongside (=) m m'" "m s = (r, t)" "m' s = (r', t')"
  shows "t' = t \<and> (\<forall>a. r = Inr a \<longleftrightarrow> r' = Inr a)"
  using assms(1) [unfolded alongside_def, rule_format, of s] unfolding assms(2,3) by (auto split: sum.splits)

lemma alongside_fold:
  assumes "P a b" "\<And>a b x. x \<in> set xs \<Longrightarrow> P a b \<Longrightarrow> alongside P (f a x) (g b (h x))"
  shows "alongside P (fold_io f a xs) (fold_io g b (map h xs))"
  using assms
proof (induction xs arbitrary: a b)
  case (Cons x xs)
  show ?case unfolding fold_io.simps list.map
    by (rule alongside_bnd [where P = P]) (use Cons in auto)
qed (simp add: alongside_ret)

lemmas alongside_fold_same = alongside_fold [where h = "\<lambda>x. x", unfolded list.map_ident]

section \<open>The remote tree as a local source\<close>

definition as_metadata :: "attributes \<Rightarrow> metadata" where
  "as_metadata a = \<lparr> md_len = (case fa_size a of Some n \<Rightarrow> n | None \<Rightarrow> 0),
     md_mode = (case fa_permissions a of Some p \<Rightarrow> p | None \<Rightarrow> 0),
     md_modified = map_option (\<lambda>t. (True, unat t)) (fa_mtime a) \<rparr>"

function as_src :: "remote_entry \<Rightarrow> src" where
  "as_src (RemoteFile a (Inl e)) = SrcFile (as_metadata a) None"
| "as_src (RemoteFile a (Inr rd)) = SrcFile (as_metadata a) (Some rd)"
| "as_src (RemoteDir (Inl e)) = SrcDir None"
| "as_src (RemoteDir (Inr es)) = SrcDir (Some (map (\<lambda>(n, e). (n, as_src e)) (filter (\<lambda>(n, _). \<not> dots n) es)))"
| "as_src RemoteOther = SrcOther"
  by pat_completeness auto
termination by (relation "measure size") (auto dest: remote_child_size)

text \<open>Every file comes with its permission bits, as SFTP servers report them.\<close>

function moded :: "remote_entry \<Rightarrow> bool" where
  "moded (RemoteFile a opened) = (fa_permissions a \<noteq> None)"
| "moded (RemoteDir (Inl e)) = True"
| "moded (RemoteDir (Inr es)) = (\<forall>(n, e)\<in>set es. moded e)"
| "moded RemoteOther = True"
  by pat_completeness auto
termination by (relation "measure size") (auto dest: remote_child_size)

text \<open>The names an SFTP session yields are Rust strings, so UTF-8.\<close>

function utf8_remote :: "remote_entry \<Rightarrow> bool" where
  "utf8_remote (RemoteFile a opened) = True"
| "utf8_remote (RemoteDir (Inl e)) = True"
| "utf8_remote (RemoteDir (Inr es)) = (\<forall>(n, e)\<in>set es. utf8_text n \<and> utf8_remote e)"
| "utf8_remote RemoteOther = True"
  by pat_completeness auto
termination by (relation "measure size") (auto dest: remote_child_size)

lemma as_src_kinds [simp]: "as_src e \<noteq> SrcLost" "as_src e \<noteq> SrcUntyped"
  by (cases e rule: as_src.cases; simp)+

section \<open>Files\<close>

lemma sinks_alongside:
  "alongside (\<lambda>(st, pn, hs) (st', sn', pn', hs'). st = st' \<and> pn = pn' \<and> hs = hs' \<and> sn' = sn \<union> fst ` set pn
       \<and> distinct (map fst pn) \<and> (\<forall>h\<in>fst ` set pn. h \<notin> sn))
     (chunk_async_stream L rd cfg (remote_sink sn) (st, [], []))
     (chunk_stream L rd cfg file_sink (st, sn, [], []))"
  unfolding chunk_async_stream_def chunk_stream_def
proof (rule alongside_bnd [OF alongside_same [where P = "(=)"]], goal_cases)
  case (2 u v)
  show ?case
  proof (rule alongside_fold_same, goal_cases)
    case (2 a b x)
    note rel = 2(2)
    show ?case
    proof (rule alongside_bnd [OF alongside_same [where P = "(=)"]], goal_cases)
      case (2 c d)
      then show ?case using rel
        by (auto simp: remote_sink_def file_sink_def Let_def list_ex_iff image_iff split: prod.splits intro!: alongside_ret)
    qed simp
  qed simp
qed simp

lemma chunk_alongside:
  assumes "h \<notin> ru_seen run"
  shows "alongside (\<lambda>run' (st, wr). run' = \<lparr> ru_stats = st, ru_seen = insert h (ru_seen run), ru_written = wr \<rparr>)
     (bnd (store_chunk L R h d run) (\<lambda>(_, run'). ret run'))
     (bnd (put_missing L R h d) (\<lambda>wr. ret (case wr of
         None \<Rightarrow> (ru_stats run, ru_written run)
       | Some n \<Rightarrow> (count_new n (ru_stats run), (ru_written run)(h \<mapsto> of_nat n)))))"
proof -
  have e: "bnd (store_chunk L R h d run) (\<lambda>(_, run'). ret run') = bnd (put_missing L R h d) (\<lambda>wr. ret (case wr of
         None \<Rightarrow> run\<lparr> ru_seen := insert h (ru_seen run) \<rparr>
       | Some n \<Rightarrow> run\<lparr> ru_seen := insert h (ru_seen run), ru_stats := count_new n (ru_stats run),
                       ru_written := (ru_written run)(h \<mapsto> of_nat n) \<rparr>))"
    using assms by (auto simp: store_chunk_def Let_def bnd_def ret_def split: prod.splits sum.splits option.splits)
  show ?thesis
    unfolding e
    by (rule alongside_bnd [OF alongside_same [where P = "(=)"]]) (auto intro!: alongside_ret split: option.splits)
qed

lemma store_alongside:
  assumes "distinct (map fst ps)" "\<forall>h\<in>fst ` set ps. h \<notin> ru_seen run"
  shows "alongside (\<lambda>run' (st, wr). run' = \<lparr> ru_stats = st, ru_seen = ru_seen run \<union> fst ` set ps, ru_written = wr \<rparr>)
     (store_chunks L R run ps) (store_pending L R (ru_stats run, ru_written run) ps)"
  using assms
proof (induction ps arbitrary: run)
  case Nil
  then show ?case by (auto simp: store_chunks_def store_pending_def intro: alongside_ret)
next
  case (Cons p ps)
  obtain h d where p: "p = (h, d)" by fastforce
  have new: "h \<notin> ru_seen run" using Cons.prems(2) p by simp
  show ?case
    unfolding store_chunks_def store_pending_def fold_io.simps p prod.case
  proof (rule alongside_bnd [OF chunk_alongside [OF new]], goal_cases)
    case (1 run' b)
    obtain st wr where b: "b = (st, wr)" by fastforce
    have run': "run' = \<lparr> ru_stats = st, ru_seen = insert h (ru_seen run), ru_written = wr \<rparr>" using 1 b by simp
    have "alongside (\<lambda>u (st, wr). u = \<lparr> ru_stats = st, ru_seen = ru_seen run' \<union> fst ` set ps, ru_written = wr \<rparr>)
        (store_chunks L R run' ps) (store_pending L R (ru_stats run', ru_written run') ps)"
      by (rule Cons.IH) (use Cons.prems p run' in auto)
    then show ?case
      unfolding store_chunks_def store_pending_def b run' p by simp
  qed
qed

lemma file_alongside:
  assumes "fa_permissions meta \<noteq> None" "cfg = rc_chunker (rp_config R)"
  shows "alongside (=) (remote_file L R cfg path nm meta (Inr rd) run)
     (backup_file L R nm lpath (as_metadata meta) (Some rd) run)"
proof -
  have m: "file_mode (as_metadata meta) = fa_permissions meta" "mtime_secs (as_metadata meta) = map_option uint (fa_mtime meta)"
  proof -
    show "file_mode (as_metadata meta) = fa_permissions meta" using assms(1) by (auto simp: file_mode_def as_metadata_def)
    have "unat t < 2 ^ 63" for t :: "32 word" using unsigned_less [of t, where 'a = nat] by simp
    then show "mtime_secs (as_metadata meta) = map_option uint (fa_mtime meta)"
      by (cases "fa_mtime meta") (auto simp: mtime_secs_def as_metadata_def)
  qed
  show ?thesis
    unfolding remote_file_def backup_file_def sum.case option.case assms(2)
  proof (rule alongside_bnd [OF sinks_alongside], goal_cases)
    case (1 a b)
    obtain st pn hs where a: "a = (st, pn, hs)" by (cases a)
    have b: "b = (st, ru_seen run \<union> fst ` set pn, pn, hs)" and ok: "distinct (map fst pn)" "\<forall>h\<in>set pn. fst h \<notin> ru_seen run"
      using 1 a by auto
    note st = store_alongside [where run = "run\<lparr> ru_stats := st \<rparr>" and L = L and R = R, OF ok(1), simplified, OF ok(2)]
    show ?case
      unfolding a b prod.case
      by (rule alongside_bnd [OF st]) (auto simp: m intro!: alongside_ret, simp_all add: as_metadata_def)
  qed
qed

lemma sort_key_map_fst: "sort_key fst (map (\<lambda>(n, e). (n, g e)) xs) = map (\<lambda>(n, e). (n, g e)) (sort_key fst xs)"
proof (induction xs)
  case (Cons x xs)
  have "insort_key fst (case x of (n, e) \<Rightarrow> (n, g e)) (map (\<lambda>(n, e). (n, g e)) ys)
      = map (\<lambda>(n, e). (n, g e)) (insort_key fst x ys)" for ys
    by (induction ys) (auto split: prod.splits)
  then show ?case using Cons by simp
qed simp

lemma listed_as_src:
  "listed_entries (map (\<lambda>(n, e). (n, as_src e)) xs) = map (\<lambda>(n, e). (n, as_src e)) (sort_key fst xs)"
proof -
  have "filter (\<lambda>(_, e). e \<noteq> SrcLost) (map (\<lambda>(n, e). (n, as_src e)) xs) = map (\<lambda>(n, e). (n, as_src e)) xs"
    by (auto simp: filter_id_conv)
  then show ?thesis by (simp add: listed_entries_def sort_key_map_fst)
qed

lemma walk_alongside:
  assumes "moded (RemoteDir l)" "utf8_remote (RemoteDir l)" "cfg = rc_chunker (rp_config R)"
  shows "alongside (=) (backup_dir_recursive L R cfg dir nm l run) (backup_dir L R nm lpath (as_src (RemoteDir l)) run)"
  using assms(1,2)
proof (induction "size (RemoteDir l)" arbitrary: l dir nm lpath run rule: less_induct)
  case less
  show ?case
  proof (cases l)
    case (Inl e)
    then show ?thesis by (simp add: alongside_raise)
  next
    case (Inr es)
    have utf8: "to_string_lossy n = n" if "(n, e) \<in> set es" for n e
      using less.prems(2) Inr that by (auto simp: utf8_text_def)
    have step: "alongside (=)
        (case e of RemoteDir l \<Rightarrow> bnd (backup_dir_recursive L R cfg (child_path dir n) n l run) (\<lambda>(nd, run'). ret (children @ [nd], run'))
          | RemoteFile meta opened \<Rightarrow>
              bnd (remote_file L R cfg (child_path dir n) n meta opened run) (\<lambda>(nd, run'). ret (children @ [nd], run'))
          | RemoteOther \<Rightarrow> ret (children, run))
        (case as_src e of
            SrcDir es' \<Rightarrow> bnd (backup_dir L R (to_string_lossy n) (lpath @ [n]) (as_src e) run) (\<lambda>(nd, run'). ret (children @ [nd], run'))
          | SrcFile md rd \<Rightarrow>
              bnd (backup_file L R (to_string_lossy n) (lpath @ [n]) md rd run) (\<lambda>(nd, run'). ret (children @ [nd], run'))
          | SrcUntyped \<Rightarrow> raise (Io (path_str (lpath @ [n])))
          | _ \<Rightarrow> ret (children, run))"
      if x: "(n, e) \<in> set es" for n e children run
    proof (cases e)
      case (RemoteFile meta opened)
      have perm: "fa_permissions meta \<noteq> None" using less.prems(1) Inr x RemoteFile by auto
      show ?thesis
      proof (cases opened)
        case (Inl m)
        then show ?thesis by (simp add: RemoteFile remote_file_def backup_file_def alongside_def bnd_def raise_def)
      next
        case (Inr rd)
        show ?thesis
          unfolding RemoteFile Inr as_src.simps remote_entry.case src.case utf8 [OF x]
          by (rule alongside_bnd [OF file_alongside [OF perm assms(3)]]) (auto intro: alongside_ret)
      qed
    next
      case (RemoteDir l')
      have sz: "size (RemoteDir l') < size (RemoteDir l)" using remote_child_size [OF x] RemoteDir Inr by simp
      have md: "moded (RemoteDir l')" "utf8_remote (RemoteDir l')" using less.prems Inr x RemoteDir by auto
      obtain es' where "as_src (RemoteDir l') = SrcDir es'" by (cases l') simp_all
      then show ?thesis
        unfolding RemoteDir utf8 [OF x]
        by simp (rule alongside_bnd [OF less.hyps [OF sz md, unfolded \<open>as_src (RemoteDir l') = SrcDir es'\<close>]], auto intro: alongside_ret)
    next
      case RemoteOther
      then show ?thesis by (simp add: alongside_ret)
    qed
    show ?thesis
      unfolding Inr as_src.simps backup_dir.simps backup_dir_recursive.simps listed_as_src
    proof (rule alongside_bnd [where P = "(=)"], rule alongside_fold, goal_cases)
      case (2 a b x)
      have "x \<in> set es" using 2(1) unfolding set_sort by simp
      moreover obtain n e where "x = (n, e)" by fastforce
      ultimately have x: "x = (n, e)" "(n, e) \<in> set es" by simp_all
      obtain children run' where a: "a = (children, run')" by fastforce
      have b: "b = (children, run')" using 2(2) a by simp
      show ?case unfolding x(1) a b prod.case by (rule step [OF x(2)])
    qed (auto intro: alongside_ret)
  qed
qed

section \<open>Whole backups\<close>

text \<open>
  The paths of a run as a local source: an absolute path without empty segments is its own
  canonical form.
\<close>

definition segments :: "string \<Rightarrow> path" where
  "segments p = filter (\<lambda>s. s \<noteq> []) (split_on (CHR ''/'') p)"

definition as_sources :: "remote_fs \<Rightarrow> source_fs" where
  "as_sources rfs = (\<lambda>p. Some (segments p, as_src (RemoteDir (rfs p))))"

definition clean_path :: "string \<Rightarrow> bool" where
  "clean_path p \<longleftrightarrow> segments p \<noteq> [] \<and> p = path_str (segments p)"

lemma last_part:
  assumes "c \<notin> set b" "c \<notin> set b'" "a @ c # b = a' @ c # b'"
  shows "b = b'"
proof -
  have "takeWhile (\<lambda>x. x \<noteq> c) (rev (u @ c # v)) = rev v" if "c \<notin> set v" for u v
    using that by (auto simp: takeWhile_tail takeWhile_eq_all_conv)
  then show ?thesis using assms by (metis rev_rev_ident)
qed

lemma path_str_snoc: "path_str (ss @ [x]) = (if ss = [] then [] else path_str ss) @ CHR ''/'' # x"
proof -
  have "join_with c (ss @ [x]) = (if ss = [] then x else join_with c ss @ c # x)" for c ss
    by (induction c ss rule: join_with.induct) auto
  then show ?thesis by (simp add: path_str_def)
qed

text \<open>A UTF-8 path has a UTF-8 last segment: decoding keeps the slashes where they are.\<close>

lemma utf8_last:
  assumes "utf8_text (path_str ss)" "ss \<noteq> []" "CHR ''/'' \<notin> set (last ss)"
  shows "to_string_lossy (last ss) = last ss"
proof -
  obtain ts x where ss: "ss = ts @ [x]" using assms(2) by (metis append_butlast_last_id)
  let ?a = "if ts = [] then [] else path_str ts"
  have nx: "CHR ''/'' \<notin> set x" using assms(3) ss by simp
  have "CHR ''/'' \<notin> set (to_string_lossy x)" using lossy_char [of "CHR ''/''" x] nx by auto
  moreover have "to_string_lossy ?a @ CHR ''/'' # to_string_lossy x = ?a @ CHR ''/'' # x"
    using assms(1) unfolding ss path_str_snoc utf8_text_def lossy_slash .
  ultimately have "to_string_lossy x = x" using nx last_part by metis
  then show ?thesis by (simp add: ss)
qed

lemma clean_path_name:
  assumes "clean_path p" "utf8_text p"
  shows "starts_with p ''/''" "dir_name p = file_name (segments p)" "display_path (segments p) = p"
proof -
  have ns: "\<forall>s\<in>set (segments p). CHR ''/'' \<notin> set s \<and> s \<noteq> []"
    using split_on_parts by (auto simp: segments_def)
  have ne: "segments p \<noteq> []" and p: "p = path_str (segments p)" using assms(1) by (auto simp: clean_path_def)
  show "display_path (segments p) = p" using p assms(2) by (simp add: display_path_def utf8_text_def)
  show "starts_with p ''/''" by (subst p) (simp add: path_str_def starts_with_def)
  have last: "last (join_with c ss) = last (last ss) \<and> join_with c ss \<noteq> []" if "ss \<noteq> []" "\<forall>s\<in>set ss. s \<noteq> []" for c ss
    using that by (induction c ss rule: join_with.induct) auto
  have l: "last p \<noteq> CHR ''/''"
  proof -
    have "last p = last (last (segments p))" using last [OF ne, of "CHR ''/''"] ns by (subst p) (simp add: path_str_def)
    moreover have "last (segments p) \<in> set (segments p)" using ne by simp
    ultimately show ?thesis using ns by (metis last_in_set)
  qed
  have t: "trim_end (CHR ''/'') p = p" by (rule trim_end_id [OF _ l]) (subst p, simp add: path_str_def)
  have "split_on (CHR ''/'') p = [] # segments p"
    by (subst p) (simp add: path_str_def split_join [OF ne] ns)
  moreover have "to_string_lossy (last (segments p)) = last (segments p)"
    by (rule utf8_last [OF _ ne]) (use p assms(2) ns ne in auto)
  ultimately show "dir_name p = file_name (segments p)" using ne by (simp add: dir_name_def t file_name_def)
qed

lemma backup_alongside:
  assumes "\<forall>p\<in>set paths. clean_path p \<and> moded (RemoteDir (rfs p)) \<and> utf8_text p \<and> utf8_remote (RemoteDir (rfs p))" "cfg = rc_chunker (rp_config R)"
  shows "alongside (=)
     (bnd (remote_roots L R cfg rfs paths) (\<lambda>(roots, children, run).
       commit_snapshot L R (Dir ''root'' children) roots (ru_stats run) (ru_written run)))
     (backup L R (as_sources rfs) paths)"
  unfolding backup_def remote_roots_def walk_roots_def
proof (rule alongside_bnd [where P = "(=)"], rule alongside_fold_same, goal_cases)
  case (2 a b p)
  obtain roots children run where a: "a = (roots, children, run)" by (cases a)
  have b: "b = (roots, children, run)" using 2(2) a by simp
  have c: "clean_path p" "utf8_text p" and m: "moded (RemoteDir (rfs p))" "utf8_remote (RemoteDir (rfs p))"
    using assms(1) 2(1) by auto
  show ?case
    unfolding a b prod.case as_sources_def option.case clean_path_name(2,3) [OF c]
    using clean_path_name(1) [OF c]
    by simp (rule alongside_bnd [OF walk_alongside [OF m assms(2)]], auto intro: alongside_ret)
qed (auto intro: alongside_same)

end
