(* ===== verification/Local_Agentless.thy ===== *)
theory Local_Agentless
  imports Agentless_Correct Local_Repository
begin

text \<open>
  Agentless backups into a local repository: they inherit what is proved of local backups,
  here the state an interrupted one leaves.
\<close>

section \<open>Agentless backups\<close>

lemma target_then_source:
  "bnd (on_target m) (\<lambda>_. on_source f) (a, b) = (case m b of
      (Inl e, b') \<Rightarrow> (Inl e, (a, b'))
    | (Inr x, b') \<Rightarrow> (case f a of (r, a') \<Rightarrow> (r, (a', b'))))"
  by (simp add: bnd_def on_target_def on_source_def split: prod.splits sum.splits)

lemma backup_remote_run:
  assumes "backup_remote L R X host cfg rfs paths (w, n) = (r, (t, n'))"
  shows "n' = snd (sftp_channel X host n)"
    "fst (sftp_channel X host n) = Inl e \<Longrightarrow> r = Inl e \<and> t = w"
    "fst (sftp_channel X host n) = Inr i \<Longrightarrow>
      bnd (remote_roots L R cfg rfs paths) (\<lambda>(roots, children, run).
        commit_snapshot L R (Dir ''root'' children) roots (ru_stats run) (ru_written run)) w = (r, t)"
  using assms
  unfolding backup_remote_def target_then_source by (auto split: prod.splits sum.splits)

text \<open>C38: A remote backup is a local backup of the same tree. Whatever the repository's storage
  does, a run over SFTP leaves the store exactly as a local backup of the tree would and returns
  the same snapshot, or fails when that one fails; if no channel can be opened the repository is
  not touched. In a local repository it therefore only adds objects, and once its manifest is
  visible so is its index and the snapshot stands for the complete remote tree. Paths are
  absolute and without empty segments, files come with their permission bits, and paths and
  names are UTF-8, as the strings of the SFTP client are by their type.\<close>

theorem agentless_is_local:
  assumes "\<forall>p\<in>set paths. clean_path p \<and> moded (RemoteDir (rfs p)) \<and> utf8_text p \<and> utf8_remote (RemoteDir (rfs p))"
    and run: "backup_remote L R X host (rc_chunker (rp_config R)) rfs paths (w, n) = (r, (t, n'))"
  shows "(\<forall>e. fst (sftp_channel X host n) = Inl e \<longrightarrow> r = Inl e \<and> t = w)
     \<and> (\<forall>i. fst (sftp_channel X host n) = Inr i \<longrightarrow>
          snd (backup L R (as_sources rfs) paths w) = t
        \<and> (\<forall>sn. r = Inr sn \<longleftrightarrow> fst (backup L R (as_sources rfs) paths w) = Inr sn))
     \<and> (rp_backend R = local_backend root \<and> local_good root (w_store w)
          \<and> backup_setting L R U (stored root w) (as_sources rfs) paths (next_uuid w) \<longrightarrow>
          stored root w \<subseteq>\<^sub>m stored root t
        \<and> (stored root t (snapshot_key (next_uuid w)) \<noteq> None \<longrightarrow>
             stored root t (index_key (next_uuid w)) \<noteq> None
           \<and> (\<exists>sn. sn_id sn = next_uuid w \<and> snapshot_of_sources L R (stored root t) (as_sources rfs) paths sn))
        \<and> (\<forall>sn. r = Inr sn \<longrightarrow> snapshot_of_sources L R (stored root t) (as_sources rfs) paths sn))"
proof -
  note b = backup_remote_run [OF run]
  obtain r' t' where local: "backup L R (as_sources rfs) paths w = (r', t')" by fastforce
  have same: "t' = t \<and> (\<forall>sn. r = Inr sn \<longleftrightarrow> r' = Inr sn)" if "fst (sftp_channel X host n) = Inr i" for i
    by (rule alongside_run [OF backup_alongside [OF assms(1) refl] b(3) [OF that] local])
  have consistent: "stored root w \<subseteq>\<^sub>m stored root t
        \<and> (stored root t (snapshot_key (next_uuid w)) \<noteq> None \<longrightarrow>
             stored root t (index_key (next_uuid w)) \<noteq> None
           \<and> (\<exists>sn. sn_id sn = next_uuid w \<and> snapshot_of_sources L R (stored root t) (as_sources rfs) paths sn))
        \<and> (\<forall>sn. r = Inr sn \<longrightarrow> snapshot_of_sources L R (stored root t) (as_sources rfs) paths sn)"
    if "rp_backend R = local_backend root" "local_good root (w_store w)"
      and set: "backup_setting L R U (stored root w) (as_sources rfs) paths (next_uuid w)"
  proof (cases "fst (sftp_channel X host n)")
    case (Inl e)
    then show ?thesis using b(2) [OF Inl] set by (simp add: backup_setting_def)
  next
    case (Inr i)
    then show ?thesis using lb.crash_consistent [OF that local] same [OF Inr] by blast
  qed
  show ?thesis using b(2) same consistent local by simp
qed

section \<open>A run\<close>

definition sample_remote :: remote_fs where
  "sample_remote p = (if p = ''/data'' then Inr
     [(''.'', RemoteDir (Inr [])), (''a'', RemoteFile \<lparr> fa_size = Some 3, fa_permissions = Some 0x1A4, fa_mtime = Some 5 \<rparr>
        (Inr (Reader [1, 2, 3]))),
      (''e'', RemoteDir (Inr []))] else Inl ''no such file'')"

definition answering_russh :: "unit russh" where
  "answering_russh = changed_russh\<lparr> ru_check_known := (\<lambda>h p k f s. (Inr True, s)) \<rparr>"

definition sample_host :: host_config where
  "sample_host = new_config ''u'' ''h'' (Auth_Password ''pw'')"

definition no_connections :: "unit ssh_state" where
  "no_connections = \<lparr> sm_cache = Map.empty, sm_world = () \<rparr>"

lemma sample_remote_sources: "as_sources sample_remote ''/data'' = sample_sources ''/data''"
  by (simp add: as_sources_def segments_def sample_remote_def sample_sources_def as_metadata_def dots_def)

lemma sample_channel: "\<exists>m. sftp_channel answering_russh sample_host no_connections = (Inr 0, m)"
  by (simp add: sftp_channel_def connection_def Let_def no_connections_def connect_handle_def client_connect_def
      verify_host_key_def known_hosts_file_def authenticate_def open_sftp_def answering_russh_def changed_russh_def sample_host_def
      new_config_def on_net_def bnd_def try_io_def ssh_call_def lift_res_def ret_def modify_def)

theorem agentless_is_local_witness:
  "\<exists>sn t m. backup_remote ref_lib sample_repo answering_russh sample_host default_chunker sample_remote [''/data'']
       (sample_world, no_connections) = (Inr sn, (t, m))
     \<and> backup ref_lib sample_repo (as_sources sample_remote) [''/data''] sample_world = (Inr sn, t)"
proof -
  obtain r t m where run: "backup_remote ref_lib sample_repo answering_russh sample_host (rc_chunker (rp_config sample_repo))
      sample_remote [''/data''] (sample_world, no_connections) = (r, (t, m))"
    by (metis prod.collapse)
  have ok: "\<forall>p\<in>set [''/data'']. clean_path p \<and> moded (RemoteDir (sample_remote p)) \<and> utf8_text p
      \<and> utf8_remote (RemoteDir (sample_remote p))"
    by (simp add: clean_path_def segments_def path_str_def sample_remote_def utf8_text_def lossy_ascii)
  obtain i where i: "fst (sftp_channel answering_russh sample_host no_connections) = Inr i" using sample_channel by fastforce
  have same: "backup ref_lib sample_repo (as_sources sample_remote) [''/data''] sample_world
      = backup ref_lib sample_repo sample_sources [''/data''] sample_world"
    by (simp add: backup_def walk_roots_def sample_remote_sources)
  obtain sn u where "backup ref_lib sample_repo (as_sources sample_remote) [''/data''] sample_world = (Inr sn, u)"
    using sample_backup same by auto
  then show ?thesis
    using agentless_is_local [OF ok run, THEN conjunct2, THEN conjunct1, rule_format, OF i] run by simp
qed

section \<open>The root of a host\<close>

text \<open>
  The file system's root is an absolute path, so a run accepts it, but its directory gets
  the empty name, which no snapshot may contain: the run reads the whole host and the commit
  then fails.
\<close>

lemma root_has_no_name:
  "dir_name ''/'' = [] \<and> (\<exists>e. validate (Dir (dir_name ''/'') children) = Inl e)"
  by (simp add: dir_name_def trim_end_def check_name_def res_bind_def)

end
