(* ===== verification/Listing_Ends.thy ===== *)
theory Listing_Ends
  imports Local_Listing
begin

text \<open>
  The listing loop of the local backend ends: each directory it reads takes it off a finite
  amount of work, whatever calls fail, and fuel beyond that amount changes nothing.
\<close>

section \<open>The loop\<close>

lemma list_loop_more:
  assumes "fst (list_loop rd child fuel stack out s) \<noteq> Inl OutOfFuel" "fuel \<le> fuel'"
  shows "list_loop rd child fuel' stack out s = list_loop rd child fuel stack out s"
  using assms
proof (induction fuel arbitrary: fuel' stack out s)
  case (Suc fuel)
  obtain f where f: "fuel' = Suc f" "fuel \<le> f" using Suc.prems(2) by (cases fuel') auto
  show ?case
  proof (cases "stack = []")
    case False
    then obtain rest d kp where st: "stack = rest @ [(d, kp)]" by (metis rev_exhaust surj_pair)
    obtain r t where rd: "rd d s = (r, t)" by fastforce
    show ?thesis
    proof (cases r)
      case (Inl e)
      then show ?thesis using rd by (simp add: f(1) st bnd_def)
    next
      case (Inr es)
      then show ?thesis
        using Suc.prems(1) Suc.IH [OF _ f(2)] rd by (cases es) (simp_all add: f(1) st bnd_def)
    qed
  qed (simp add: f(1))
qed (simp add: raise_def)

lemma read_dir_pushes:
  assumes "fs_read_dir d fs = Inr (es, fs')"
  shows "fs' = fs" "map (\<lambda>(n, _). d @ [n]) (filter (\<lambda>(_, e). e = EDir) es) = direct is_directory fs d"
proof -
  have l: "d @ [last q] = q" if "q \<noteq> []" "butlast q = d" for q
    using that append_butlast_last_id by blast
  have e: "es = map (\<lambda>(q, e). (last q, e)) (filter (\<lambda>(q, e). q \<noteq> [] \<and> butlast q = d) fs)" "fs' = fs"
    using assms by (auto simp: fs_read_dir_def split: sum.splits fs_entry.splits)
  show "fs' = fs" by (rule e(2))
  show "map (\<lambda>(n, _). d @ [n]) (filter (\<lambda>(_, e). e = EDir) es) = direct is_directory fs d"
    unfolding e(1) direct_def by (induction fs) (auto simp: l)
qed

lemma work_cong: "map fst xs = map fst ys \<Longrightarrow> work fs xs = work fs ys"
proof -
  have "work fs xs = sum_list (map (\<lambda>p. Suc (card (below is_directory fs p))) (map fst xs))" for xs :: "(path \<times> string) list"
    by (simp add: work_def comp_def)
  then show "map fst xs = map fst ys \<Longrightarrow> work fs xs = work fs ys" by metis
qed

lemma loop_ends:
  assumes wf: "fs_wf fs"
  shows "\<lbrakk> os_fs s = fs; work fs stack < fuel \<rbrakk> \<Longrightarrow>
    fst (list_loop local_read_dir (\<lambda>d n. d @ [n]) fuel stack out s) \<noteq> Inl OutOfFuel"
proof (induction fuel arbitrary: stack out s)
  case (Suc fuel)
  show ?case
  proof (cases "stack = []")
    case False
    then obtain rest d kp where st: "stack = rest @ [(d, kp)]" by (metis rev_exhaust surj_pair)
    have rest: "work fs rest < fuel" using Suc.prems(2) by (simp add: st work_def)
    have fs: "os_fs (used_fault s) = fs" using Suc.prems(1) by simp
    show ?thesis
    proof (cases "next_fault s")
      case (Some n)
      then show ?thesis by (simp add: st local_read_dir_def os_try_def bnd_def raise_def)
    next
      case None
      show ?thesis
      proof (cases "fs_read_dir d (os_fs s)")
        case (Inl k)
        then show ?thesis
          using None Suc.IH [OF fs rest] by (cases k) (simp_all add: st local_read_dir_def os_try_def bnd_def raise_def ret_def)
      next
        case (Inr x)
        then obtain es fs' where es: "fs_read_dir d fs = Inr (es, fs')" using Suc.prems(1) by (cases x) simp
        let ?push = "map (\<lambda>(n, _). (d @ [n], sub_key kp n)) (filter snd (map (\<lambda>(n, e). (n, e = EDir)) es))"
        let ?dirs = "map (\<lambda>c. (c, [] :: string)) (direct is_directory fs d)"
        have "map fst ?push = direct is_directory fs d"
          unfolding read_dir_pushes(2) [OF es, symmetric] by (induction es) auto
        then have p: "work fs (rest @ ?push) = work fs (rest @ ?dirs)" by (intro work_cong) (simp add: comp_def)
        have "work fs (rest @ ?push) < fuel"
          unfolding p using Suc.prems(2) card_below [OF wf, of is_directory d] by (simp add: st work_def comp_def sum_list_Suc)
        then show ?thesis
          using None es read_dir_pushes(1) [OF es] Suc.prems(1) Suc.IH [of "(used_fault s)\<lparr> os_fs := fs \<rparr>" "rest @ ?push"]
          by (simp add: st local_read_dir_def os_try_def bnd_def ret_def)
      qed
    qed
  qed (simp add: ret_def)
qed simp

text \<open>C40: Listing a local repository ends. On every file system, for every prefix and under
  every schedule of failing calls, the loop over the directories comes to an end by itself: it
  reads each directory once, so fuel for every entry is more than it takes, the result never is
  that the fuel ran out, and with any more fuel the result is the same.\<close>

theorem listing_terminates:
  assumes "fs_wf (os_fs (ls_os s))"
  shows "fst (local_list root pfx s) \<noteq> Inl OutOfFuel
     \<and> (\<forall>fuel \<ge> length (os_fs (ls_os s)) + 3.
          sys (list_loop local_read_dir (\<lambda>d n. d @ [n]) fuel [(resolve root pfx, trim_end (CHR ''/'') pfx)] []) s
            = local_list root pfx s)"
proof -
  let ?fuel = "length (os_fs (ls_os s)) + 3"
  let ?loop = "\<lambda>fuel. list_loop local_read_dir (\<lambda>d n. d @ [n]) fuel [(resolve root pfx, trim_end (CHR ''/'') pfx)] []"
  have w: "work (os_fs (ls_os s)) [(resolve root pfx, trim_end (CHR ''/'') pfx)] < ?fuel" by (rule top_fuel) simp
  note ends = loop_ends [OF assms refl w, of "[]"]
  show ?thesis
  proof (intro conjI allI impI)
    show "fst (local_list root pfx s) \<noteq> Inl OutOfFuel"
      using ends by (auto simp: local_list_def sys_def split: prod.splits)
    show "sys (?loop fuel) s = local_list root pfx s" if "?fuel \<le> fuel" for fuel
      using list_loop_more [OF ends that] by (simp add: local_list_def sys_def)
  qed
qed

theorem listing_terminates_witness:
  "fst (local_list [''r''] ''index'' \<lparr> ls_os = \<lparr> os_fs = [([''r''], EDir), ([''r'', ''index''], EDir)],
      os_faults = [None, Some 0] \<rparr>, ls_uuids = (\<lambda>_. []), ls_pos = 0 \<rparr>) \<noteq> Inl OutOfFuel"
proof -
  let ?s = "\<lparr> ls_os = \<lparr> os_fs = [([''r''], EDir), ([''r'', ''index''], EDir)], os_faults = [None, Some 0] \<rparr>,
      ls_uuids = (\<lambda>_. []), ls_pos = 0 \<rparr> :: local_state"
  have "fs_wf (os_fs (ls_os ?s))" by (auto simp: fs_wf_def ent_def is_dir_def split: if_splits)
  from listing_terminates [OF this] show ?thesis by blast
qed

end
