(* ===== verification/Agent.thy ===== *)
theory Agent
  imports Sftp_Backend Repo_Backup
begin

text \<open>
  Agent mode (aegis-core/src/agent.rs and the agent's own aegis-agent/src/main.rs): the
  control plane uploads a binary to the target, runs it there through the target's shell or
  installs it under systemd, and the agent backs up its local paths into a repository.
  \<open>bins\<close> is what reading a local binary yields, \<open>SF\<close> the SFTP session of each channel.
\<close>

section \<open>Errors\<close>

datatype agent_error = Unsupported string | Failed string

definition to_error :: "agent_error \<Rightarrow> error" where
  "to_error e = (case e of Unsupported m \<Rightarrow> Ssh m | Failed m \<Rightarrow> Ssh m)"

type_synonym ('s, 'a) agent_io = "'s ssh_state \<Rightarrow> (agent_error + 'a) \<times> 's ssh_state"

definition agent_ret :: "agent_error + 'a \<Rightarrow> ('s, 'a) agent_io" where
  "agent_ret r = (\<lambda>s. (r, s))"

definition agent_bnd :: "('s, 'a) agent_io \<Rightarrow> ('a \<Rightarrow> ('s, 'b) agent_io) \<Rightarrow> ('s, 'b) agent_io" where
  "agent_bnd m f = (\<lambda>s. case m s of (Inl e, t) \<Rightarrow> (Inl e, t) | (Inr a, t) \<Rightarrow> f a t)"

definition agent_call :: "(string \<Rightarrow> agent_error) \<Rightarrow> string \<Rightarrow> ('s ssh_state, 'a) io \<Rightarrow> ('s, 'a) agent_io" where
  "agent_call kind what m = (\<lambda>s. case m s of
      (Inl e, t) \<Rightarrow> (Inl (kind (saying what (proto_text e))), t) | (Inr a, t) \<Rightarrow> (Inr a, t))"

definition agent_sftp :: "string \<Rightarrow> ('s, 'a) sftp_call \<Rightarrow> ('s, 'a) agent_io" where
  "agent_sftp what f = (\<lambda>s. case f (sm_world s) of
      (Inl e, t) \<Rightarrow> (Inl (Failed (saying what (sftp_text e))), s\<lparr> sm_world := t \<rparr>)
    | (Inr a, t) \<Rightarrow> (Inr a, s\<lparr> sm_world := t \<rparr>))"

section \<open>The target\<close>

definition shell_quote :: "string \<Rightarrow> string" where
  "shell_quote s = [CHR 0x27]
     @ concat (map (\<lambda>c. if c = CHR 0x27 then [CHR 0x27, CHR 0x5C, CHR 0x27, CHR 0x27] else [c]) s) @ [CHR 0x27]"

definition platform_of :: "string \<Rightarrow> string option" where
  "platform_of uname = (case split_whitespace uname of
      os # arch # _ \<Rightarrow>
        if os = ''Linux'' \<and> arch = ''x86_64'' then Some ''linux-x86_64''
        else if os = ''Linux'' \<and> (arch = ''aarch64'' \<or> arch = ''arm64'') then Some ''linux-aarch64''
        else if os = ''Darwin'' \<and> arch = ''x86_64'' then Some ''macos-x86_64''
        else if os = ''Darwin'' \<and> arch = ''arm64'' then Some ''macos-aarch64''
        else None
    | _ \<Rightarrow> None)"

definition detect_platform :: "'s russh \<Rightarrow> host_config \<Rightarrow> ('s, string) agent_io" where
  "detect_platform X host =
     agent_bnd (agent_call Unsupported ''uname'' (exec_check X host ''uname -s -m'')) (\<lambda>uname.
     let uname_out = trim_text (from_utf8_lossy (eo_stdout uname)) in
     agent_ret (case platform_of uname_out of
         Some p \<Rightarrow> Inr p
       | None \<Rightarrow> Inl (Unsupported (saying ''unknown platform'' uname_out))))"

definition upload :: "'s russh \<Rightarrow> (nat \<Rightarrow> 's sftp_session) \<Rightarrow> host_config \<Rightarrow> string \<Rightarrow> bytes \<Rightarrow> ('s, unit) agent_io" where
  "upload X SF host path data =
     agent_bnd (agent_call Failed ''sftp channel'' (sftp_channel X host)) (\<lambda>i.
     agent_bnd (agent_sftp (''create '' @ path) (sf_open_write (SF i) path)) (\<lambda>_.
     agent_bnd (agent_sftp (''write '' @ path) (sf_write_all (SF i) path data)) (\<lambda>_.
     agent_sftp (''close '' @ path) (sf_close (SF i) path))))"

text \<open>The local binary for a platform.\<close>

definition agent_binary :: "(string \<Rightarrow> string + bytes) \<Rightarrow> string \<Rightarrow> string \<Rightarrow> ('s, bytes) agent_io" where
  "agent_binary bins agent_bin_dir platform =
     (let local_bin = path_join agent_bin_dir (''aegis-agent-'' @ platform) in
      agent_ret (case bins local_bin of
          Inr b \<Rightarrow> Inr b
        | Inl e \<Rightarrow> Inl (Unsupported (saying (''no agent binary for '' @ platform @ '' at '' @ local_bin) e))))"

section \<open>One run\<close>

definition path_option :: "string \<Rightarrow> string" where
  "path_option p = '' --path '' @ shell_quote p"

definition agent_command :: "string \<Rightarrow> string \<Rightarrow> string \<Rightarrow> string list \<Rightarrow> string" where
  "agent_command remote_bin repo_location passphrase paths =
     shell_quote remote_bin @ '' --once --repo '' @ shell_quote repo_location
       @ '' --passphrase '' @ shell_quote passphrase
       @ concat (map path_option paths)"

text \<open>The last line that names a snapshot.\<close>

definition snapshot_line :: "string \<Rightarrow> string option" where
  "snapshot_line stdout = (case List.map_filter (\<lambda>l. strip_prefix l ''snapshot '') (rev (text_lines stdout)) of
      [] \<Rightarrow> None | s # _ \<Rightarrow> Some (trim_text s))"

definition run_result :: "exec_output \<Rightarrow> agent_error + string" where
  "run_result run =
     (if \<not> exec_success run then
        (if eo_exit run = Some 127 then Inl (Unsupported (saying ''agent not executable'' (from_utf8_lossy (eo_stderr run))))
         else Inl (Failed (saying (''agent exited '' @ debug_code (eo_exit run)) (from_utf8_lossy (eo_stderr run)))))
      else let stdout = from_utf8_lossy (eo_stdout run) in
        (case snapshot_line stdout of
           Some s \<Rightarrow> Inr s
         | None \<Rightarrow> Inl (Failed (saying ''agent printed no snapshot id'' stdout))))"

definition push_and_run ::
  "'s russh \<Rightarrow> (nat \<Rightarrow> 's sftp_session) \<Rightarrow> (string \<Rightarrow> string + bytes) \<Rightarrow> nat \<Rightarrow> host_config \<Rightarrow> string
   \<Rightarrow> string \<Rightarrow> string \<Rightarrow> string list \<Rightarrow> ('s, string) agent_io" where
  "push_and_run X SF bins pid host agent_bin_dir repo_location passphrase paths =
     agent_bnd (detect_platform X host) (\<lambda>platform.
     agent_bnd (agent_binary bins agent_bin_dir platform) (\<lambda>data.
     let remote_bin = ''/tmp/aegis-agent-'' @ show_nat pid in
     agent_bnd (upload X SF host remote_bin data) (\<lambda>_.
     agent_bnd (agent_call Failed ''chmod'' (exec_check X host (''chmod 700 '' @ shell_quote remote_bin))) (\<lambda>_.
     agent_bnd (agent_call Failed ''agent exec''
       (ssh_exec X host (agent_command remote_bin repo_location passphrase paths))) (\<lambda>run.
     \<lambda>s. agent_ret (run_result run) (snd (ssh_exec X host (''rm -f '' @ shell_quote remote_bin) s)))))))"

section \<open>A persistent agent\<close>

definition AGENT_INSTALL_PATH :: string where
  "AGENT_INSTALL_PATH = ''/usr/local/bin/aegis-agent''"

definition AGENT_UNIT_NAME :: string where
  "AGENT_UNIT_NAME = ''aegis-agent.service''"

definition unit_command :: "string \<Rightarrow> string" where
  "unit_command repo_location = AGENT_INSTALL_PATH @ '' --once --repo '' @ shell_quote repo_location"

abbreviation text_line :: "string \<Rightarrow> string" where
  "text_line s \<equiv> s @ [CHR 0x0A]"

definition unit_file :: "string \<Rightarrow> string" where
  "unit_file repo_location = text_line ''[Unit]'' @ text_line ''Description=Aegis agent backup'' @ text_line ''Wants=network-online.target''
     @ text_line ''After=network-online.target'' @ text_line ''[Service]'' @ text_line ''Type=oneshot''
     @ text_line (''ExecStart='' @ unit_command repo_location) @ ''TimeoutStartSec=2h''"

definition timer_file :: "string \<Rightarrow> string" where
  "timer_file on_calendar = text_line ''[Unit]'' @ text_line ''Description=Aegis agent schedule'' @ text_line ''[Timer]''
     @ text_line (''OnCalendar='' @ on_calendar) @ text_line ''Persistent=true'' @ text_line ''[Install]'' @ ''WantedBy=timers.target''"

definition env_file :: "string \<Rightarrow> string" where
  "env_file passphrase = text_line (''AEGIS_PASSPHRASE='' @ passphrase)"

definition install_script :: "string \<Rightarrow> string" where
  "install_script sudo =
     sudo @ ''mv /tmp/aegis-agent.service /etc/systemd/system/'' @ AGENT_UNIT_NAME @ '' && ''
     @ sudo @ ''mv /tmp/aegis-agent.timer /etc/systemd/system/aegis-agent.timer && ''
     @ sudo @ ''mv /tmp/aegis-agent.env /etc/aegis-agent.env && ''
     @ sudo @ ''systemctl daemon-reload && ''
     @ sudo @ ''systemctl enable --now aegis-agent.timer''"

definition install ::
  "'s russh \<Rightarrow> (nat \<Rightarrow> 's sftp_session) \<Rightarrow> (string \<Rightarrow> string + bytes) \<Rightarrow> host_config \<Rightarrow> string
   \<Rightarrow> string \<Rightarrow> string \<Rightarrow> string \<Rightarrow> ('s, string) agent_io" where
  "install X SF bins host agent_bin_dir repo_location passphrase on_calendar =
     (let sudo = (if hc_user host = ''root'' then [] else ''sudo '');
          check = (\<lambda>what cmd. agent_call Failed what (exec_check X host (sudo @ cmd))) in
     agent_bnd (detect_platform X host) (\<lambda>platform.
     agent_bnd (agent_binary bins agent_bin_dir platform) (\<lambda>data.
     agent_bnd (upload X SF host ''/tmp/aegis-agent-install'' data) (\<lambda>_.
     agent_bnd (check ''chmod'' ''chmod 755 /tmp/aegis-agent-install'') (\<lambda>_.
     agent_bnd (check ''install'' (''mv /tmp/aegis-agent-install '' @ shell_quote AGENT_INSTALL_PATH)) (\<lambda>_.
     agent_bnd (upload X SF host ''/tmp/aegis-agent.env'' (str_bytes (env_file passphrase))) (\<lambda>_.
     agent_bnd (upload X SF host ''/tmp/aegis-agent.service'' (str_bytes (unit_file repo_location))) (\<lambda>_.
     agent_bnd (upload X SF host ''/tmp/aegis-agent.timer'' (str_bytes (timer_file on_calendar))) (\<lambda>_.
     agent_bnd (agent_call Failed ''systemd setup'' (exec_check X host (install_script sudo))) (\<lambda>_.
     agent_bnd (agent_call Failed ''status'' (ssh_exec X host (sudo @ ''systemctl is-enabled aegis-agent.timer''))) (\<lambda>status.
     agent_ret (Inr (trim_text (from_utf8_lossy (eo_stdout status)))))))))))))))"

definition upgrade where
  "upgrade X SF bins host agent_bin_dir repo_location passphrase on_calendar =
     install X SF bins host agent_bin_dir repo_location passphrase on_calendar"

definition agent_status :: "'s russh \<Rightarrow> host_config \<Rightarrow> ('s, bool \<times> string) agent_io" where
  "agent_status X host =
     agent_bnd (agent_call Failed ''status'' (ssh_exec X host
       (''test -x '' @ shell_quote AGENT_INSTALL_PATH @ '' && '' @ shell_quote AGENT_INSTALL_PATH
        @ '' --version || echo not-installed''))) (\<lambda>out.
     let text = trim_text (from_utf8_lossy (eo_stdout out)) in
     agent_ret (Inr (text \<noteq> [] \<and> text \<noteq> ''not-installed'' \<and> exec_success out, text)))"

section \<open>The agent\<close>

text \<open>
  The agent's arguments: repository, paths and passphrase as far as they were read. Whatever
  is refused prints the usage and ends the process, here \<open>None\<close>.
\<close>

fun parse_args ::
  "string list \<Rightarrow> string option \<times> string list \<times> string option \<Rightarrow> (string option \<times> string list \<times> string option) option" where
  "parse_args [] opts = Some opts"
| "parse_args (arg # args) (repo, paths, passphrase) =
     (if arg = ''--once'' then parse_args args (repo, paths, passphrase)
      else case args of
          [] \<Rightarrow> None
        | v # rest \<Rightarrow>
            if arg = ''--repo'' then parse_args rest (Some v, paths, passphrase)
            else if arg = ''--path'' then parse_args rest (repo, paths @ [v], passphrase)
            else if arg = ''--passphrase'' then parse_args rest (repo, paths, Some v)
            else None)"

definition agent_options :: "string list \<Rightarrow> string option \<Rightarrow> (string \<times> string list \<times> string) option" where
  "agent_options args env = (case parse_args args (None, [], env) of
      Some (Some repo, paths, Some passphrase) \<Rightarrow> if paths = [] then None else Some (repo, paths, passphrase)
    | _ \<Rightarrow> None)"

definition backup_local_into where
  "backup_local_into L X SF cwd sfs repo_location passphrase paths chunker =
     (let auth = on_store (on_target (on_world (auth_from_env X))) in
      bnd (if starts_with repo_location ''sftp://'' then
             bnd auth (\<lambda>a.
             try_io (open_repository L X SF cwd repo_location a passphrase)
               (\<lambda>e. case e of
                   RepoNotFound _ \<Rightarrow> bnd auth (\<lambda>a. init_repository L X SF cwd repo_location a chunker passphrase)
                 | _ \<Rightarrow> raise e) ret)
           else
             (let B = local_at cwd repo_location in
              try_io (open_repo L B passphrase)
                (\<lambda>e. case e of RepoNotFound _ \<Rightarrow> init L B chunker passphrase | _ \<Rightarrow> raise e) ret))
        (\<lambda>repo. backup L repo sfs paths))"

text \<open>The agent's \<open>main\<close>: the snapshot it prints, or nothing when the arguments were refused.\<close>

definition agent_main where
  "agent_main L X SF cwd sfs args env = (case agent_options args env of
      None \<Rightarrow> ret None
    | Some (repo, paths, passphrase) \<Rightarrow>
        bnd (backup_local_into L X SF cwd sfs repo passphrase paths default_chunker) (\<lambda>sn. ret (Some sn)))"

end
