(* ===== verification/Agent_Correct.thy ===== *)
theory Agent_Correct
  imports Agent
begin

text \<open>
  What the target's shell makes of the command the control plane sends: a reading of command
  lines in the manner of a POSIX shell, the words it splits such a line into, and what the
  agent's argument parser makes of the words.
\<close>

section \<open>A shell's words\<close>

text \<open>
  Words are separated by blanks; quotes keep what is between them and a backslash keeps the
  next character. Anything else a shell gives a meaning to (operators, expansions, globs,
  comments, an open quote) is \<open>None\<close>: the line is not a plain command.
\<close>

definition plain_char :: "char \<Rightarrow> bool" where
  "plain_char c \<longleftrightarrow> c \<in> set ''abcdefghijklmnopqrstuvwxyzABCDEFGHIJKLMNOPQRSTUVWXYZ0123456789-_./:=,@+''"

fun outside :: "string option \<Rightarrow> string \<Rightarrow> string list option"
  and quoted :: "string \<Rightarrow> string \<Rightarrow> string list option" where
  "outside word [] = Some (case word of None \<Rightarrow> [] | Some w \<Rightarrow> [w])"
| "outside word (c # s) =
     (if c = CHR '' '' then map_option ((@) (case word of None \<Rightarrow> [] | Some w \<Rightarrow> [w])) (outside None s)
      else let w = (case word of None \<Rightarrow> [] | Some w \<Rightarrow> w) in
        if c = CHR 0x27 then quoted w s
        else if c = CHR 0x5C then (case s of [] \<Rightarrow> None | d # s' \<Rightarrow> outside (Some (w @ [d])) s')
        else if plain_char c then outside (Some (w @ [c])) s
        else None)"
| "quoted word [] = None"
| "quoted word (c # s) = (if c = CHR 0x27 then outside (Some word) s else quoted (word @ [c]) s)"

definition shell_words :: "string \<Rightarrow> string list option" where
  "shell_words line = outside None line"

section \<open>Quoting\<close>

lemma quoted_escape:
  "quoted w (concat (map (\<lambda>c. if c = CHR 0x27 then [CHR 0x27, CHR 0x5C, CHR 0x27, CHR 0x27] else [c]) s) @ CHR 0x27 # rest)
     = outside (Some (w @ s)) rest"
proof (induction s arbitrary: w)
  case (Cons c s)
  show ?case
  proof (cases "c = CHR 0x27")
    case True
    then show ?thesis using Cons [of "w @ [c]"] by (simp add: plain_char_def)
  next
    case False
    then show ?thesis using Cons [of "w @ [c]"] by simp
  qed
qed simp

lemma outside_quote: "outside None (shell_quote s @ rest) = outside (Some s) rest"
  using quoted_escape [of "[]" s rest] by (simp add: shell_quote_def)

lemma outside_blank: "outside word (CHR '' '' # s) = map_option ((@) (case word of None \<Rightarrow> [] | Some w \<Rightarrow> [w])) (outside None s)"
  by simp

lemma outside_plain:
  "list_all plain_char s \<Longrightarrow> outside (Some w) (s @ rest) = outside (Some (w @ s)) rest"
proof (induction s arbitrary: w)
  case (Cons c s)
  have "c \<noteq> CHR '' ''" "c \<noteq> CHR 0x27" "c \<noteq> CHR 0x5C" "plain_char c" using Cons.prems by (auto simp: plain_char_def)
  then show ?case using Cons by simp
qed simp

lemma outside_word:
  assumes "list_all plain_char (c # s)"
  shows "outside None (c # s @ rest) = outside (Some (c # s)) rest"
proof -
  have "c \<noteq> CHR '' ''" "c \<noteq> CHR 0x27" "c \<noteq> CHR 0x5C" "plain_char c" using assms by (auto simp: plain_char_def)
  then show ?thesis using outside_plain [of s "[c]" rest] assms by simp
qed

lemma words_paths:
  "outside (Some w) (concat (map path_option paths))
     = Some (w # concat (map (\<lambda>p. [''--path'', p]) paths))"
proof (induction paths arbitrary: w)
  case (Cons p paths)
  have "outside (Some w) (concat (map path_option (p # paths)))
      = map_option ((#) w) (outside None (''--path'' @ CHR '' '' # shell_quote p @ concat (map path_option paths)))"
    by (simp add: path_option_def option.map_comp comp_def)
  also have "outside None (''--path'' @ CHR '' '' # shell_quote p @ concat (map path_option paths))
      = Some (''--path'' # p # concat (map (\<lambda>p. [''--path'', p]) paths))"
    using outside_word [of "CHR ''-''" "''-path''"] by (simp add: plain_char_def outside_quote Cons.IH)
  finally show ?case by simp
qed simp

lemma append_single: "(@) [x] = (#) x"
  by (rule ext) simp

lemma words_command:
  "shell_words (agent_command remote_bin repo_location passphrase paths)
     = Some (remote_bin # [''--once'', ''--repo'', repo_location, ''--passphrase'', passphrase]
         @ concat (map (\<lambda>p. [''--path'', p]) paths))"
proof -
  define rest where "rest = concat (map path_option paths)"
  define tail where "tail = shell_quote repo_location @ '' --passphrase '' @ shell_quote passphrase @ rest"
  have w3: "outside None (shell_quote passphrase @ rest) = Some (passphrase # concat (map (\<lambda>p. [''--path'', p]) paths))"
    by (simp add: outside_quote rest_def words_paths)
  have w2: "outside None (''--passphrase'' @ CHR '' '' # shell_quote passphrase @ rest)
      = Some (''--passphrase'' # passphrase # concat (map (\<lambda>p. [''--path'', p]) paths))"
    using outside_word [of "CHR ''-''" "''-passphrase''"] by (simp add: plain_char_def w3)
  have w1: "outside None tail = Some (repo_location # ''--passphrase'' # passphrase # concat (map (\<lambda>p. [''--path'', p]) paths))"
    using w2 by (simp add: tail_def outside_quote)
  have w0: "outside None (''--repo'' @ CHR '' '' # tail) = map_option ((#) ''--repo'') (outside None tail)"
    using outside_word [of "CHR ''-''" "''-repo''"] by (simp add: plain_char_def append_single)
  have w: "outside None (''--once'' @ CHR '' '' # ''--repo'' @ CHR '' '' # tail)
      = map_option ((#) ''--once'') (outside None (''--repo'' @ CHR '' '' # tail))"
    using outside_word [of "CHR ''-''" "''-once''"] by (simp add: plain_char_def append_single)
  have "agent_command remote_bin repo_location passphrase paths
      = shell_quote remote_bin @ CHR '' '' # (''--once'' @ CHR '' '' # ''--repo'' @ CHR '' '' # tail)"
    by (simp add: agent_command_def tail_def rest_def)
  then show ?thesis
    unfolding shell_words_def using w w0 w1 by (simp add: outside_quote del: append_Cons)
qed

lemma parse_paths:
  "parse_args (concat (map (\<lambda>p. [''--path'', p]) ps)) (repo, paths, passphrase) = Some (repo, paths @ ps, passphrase)"
  by (induction ps arbitrary: paths) simp_all

lemma words_unit:
  "shell_words (unit_command repo_location) = Some [AGENT_INSTALL_PATH, ''--once'', ''--repo'', repo_location]"
proof -
  define tail where "tail = shell_quote repo_location"
  have w1: "outside None tail = Some [repo_location]" using outside_quote [of repo_location "[]"] by (simp add: tail_def)
  have w0: "outside None (''--repo'' @ CHR '' '' # tail) = Some [''--repo'', repo_location]"
    using outside_word [of "CHR ''-''" "''-repo''"] by (simp add: plain_char_def w1)
  have w: "outside None (''--once'' @ CHR '' '' # ''--repo'' @ CHR '' '' # tail) = Some [''--once'', ''--repo'', repo_location]"
    using outside_word [of "CHR ''-''" "''-once''"] w0 by (simp add: plain_char_def)
  have "outside None (AGENT_INSTALL_PATH @ CHR '' '' # (''--once'' @ CHR '' '' # ''--repo'' @ CHR '' '' # tail))
      = Some [AGENT_INSTALL_PATH, ''--once'', ''--repo'', repo_location]"
    using outside_word [of "CHR ''/''" "''usr/local/bin/aegis-agent''"] w by (simp add: plain_char_def AGENT_INSTALL_PATH_def)
  then show ?thesis by (simp add: shell_words_def unit_command_def tail_def)
qed

section \<open>From the control plane to the agent\<close>

text \<open>A run that reports a snapshot has executed the agent's command successfully.\<close>

lemma push_and_run_Inr:
  assumes "push_and_run X SF bins pid host dir repo_location passphrase paths s = (Inr sn, t)"
  shows "\<exists>p data u out v. bins (path_join dir (''aegis-agent-'' @ p)) = Inr data
     \<and> ssh_exec X host (agent_command (''/tmp/aegis-agent-'' @ show_nat pid) repo_location passphrase paths) u = (Inr out, v)
     \<and> exec_success out \<and> snapshot_line (from_utf8_lossy (eo_stdout out)) = Some sn
     \<and> t = snd (ssh_exec X host (''rm -f '' @ shell_quote (''/tmp/aegis-agent-'' @ show_nat pid)) v)"
  using assms
  unfolding push_and_run_def agent_bnd_def agent_call_def agent_binary_def agent_ret_def Let_def run_result_def
  by (simp split: prod.splits sum.splits if_splits option.splits) blast

text \<open>C39: What the control plane asks for is what the agent is told. Whatever characters the
  repository, the passphrase and the paths contain, the target's shell reads the command as
  one plain command whose words are the binary, its options and exactly those strings, so
  nothing in them is run by the shell; and the agent's parser takes from the words the same
  repository, passphrase and paths, refusing only a command without a path. A run that reports
  a snapshot has executed that command with exit code 0 and read the snapshot off its output. The
  command of the unit that a persistent installation writes names no path, so the agent
  refuses it.\<close>

theorem agent_told_truly:
  shows "(\<exists>args. shell_words (agent_command remote_bin repo_location passphrase paths) = Some (remote_bin # args)
       \<and> agent_options args env = (if paths = [] then None else Some (repo_location, paths, passphrase)))
     \<and> (\<forall>sn t. push_and_run X SF bins pid host dir repo_location passphrase paths s = (Inr sn, t) \<longrightarrow>
          (\<exists>u out v. ssh_exec X host (agent_command (''/tmp/aegis-agent-'' @ show_nat pid) repo_location passphrase paths) u = (Inr out, v)
             \<and> eo_exit out = Some 0 \<and> snapshot_line (from_utf8_lossy (eo_stdout out)) = Some sn))
     \<and> (\<exists>args. shell_words (unit_command repo_location) = Some (AGENT_INSTALL_PATH # args) \<and> agent_options args env = None)"
proof (intro conjI allI impI)
  show "\<exists>args. shell_words (agent_command remote_bin repo_location passphrase paths) = Some (remote_bin # args)
       \<and> agent_options args env = (if paths = [] then None else Some (repo_location, paths, passphrase))"
    by (simp add: words_command agent_options_def parse_paths)
  show "\<exists>args. shell_words (unit_command repo_location) = Some (AGENT_INSTALL_PATH # args) \<and> agent_options args env = None"
    by (simp add: words_unit agent_options_def split: option.splits)
next
  fix sn t
  assume "push_and_run X SF bins pid host dir repo_location passphrase paths s = (Inr sn, t)"
  from push_and_run_Inr [OF this]
  show "\<exists>u out v. ssh_exec X host (agent_command (''/tmp/aegis-agent-'' @ show_nat pid) repo_location passphrase paths) u = (Inr out, v)
             \<and> eo_exit out = Some 0 \<and> snapshot_line (from_utf8_lossy (eo_stdout out)) = Some sn"
    unfolding exec_success_def by blast
qed

section \<open>A target\<close>

text \<open>A Linux target that remembers the last command and answers it.\<close>

definition linux_answer :: "string \<Rightarrow> string" where
  "linux_answer cmd = (if cmd = ''uname -s -m'' then ''Linux x86_64'' else ''snapshot s1 files=1 bytes=3 new_bytes=3'')"

definition linux_target :: "string russh" where
  "linux_target = \<lparr>
     ru_hello = (\<lambda>h p s. (Inr ''key'', s)), ru_handshake = (\<lambda>h p s. (Inr 0, s)),
     ru_check_known = (\<lambda>h p k f s. (Inr True, s)), ru_learn_known = (\<lambda>h p k f s. (Inr (), s)),
     ru_password = (\<lambda>c u pw s. (Inr True, s)), ru_load_key = (\<lambda>p pw s. (Inr ''id'', s)),
     ru_publickey = (\<lambda>c u k s. (Inr True, s)), ru_open_session = (\<lambda>c s. (Inr 0, s)),
     ru_subsystem = (\<lambda>c s. (Inr (), s)), ru_sftp_new = (\<lambda>c s. (Inr 0, s)),
     ru_exec = (\<lambda>c cmd s. (Inr (), cmd)), ru_messages = (\<lambda>c s. ([Msg_Data (str_bytes (linux_answer s)), Msg_Exit 0], s)),
     ru_closed = (\<lambda>c s. False), ru_env = (\<lambda>v. Some ''/root''), ru_path_exists = (\<lambda>p s. True) \<rparr>"

definition linux_session :: "string sftp_session" where
  "linux_session = \<lparr> sf_try_exists = (\<lambda>p s. (Inr True, s)), sf_create_dir = (\<lambda>p s. (Inr (), s)),
     sf_open_read = (\<lambda>p s. (Inr (), s)), sf_read_to_end = (\<lambda>p s. (Inr [], s)), sf_open_write = (\<lambda>p s. (Inr (), s)),
     sf_write_all = (\<lambda>p d s. (Inr (), s)), sf_sync_all = (\<lambda>p s. (Inr (), s)), sf_close = (\<lambda>p s. (Inr (), s)),
     sf_rename = (\<lambda>p q s. (Inr (), s)), sf_remove_file = (\<lambda>p s. (Inr (), s)), sf_read_dir = (\<lambda>p s. (Inr [], s)),
     sf_entries = (\<lambda>s. 0) \<rparr>"

lemma linux_connection: "fst (connection linux_target c s) = Inr 0 \<or> (\<exists>i. sm_cache s (host_key c) = Some i \<and> fst (connection linux_target c s) = Inr i)"
  by (simp add: connection_def Let_def connect_handle_def client_connect_def verify_host_key_def known_hosts_file_def
      authenticate_def linux_target_def on_net_def bnd_def try_io_def ssh_call_def lift_res_def ret_def modify_def
      split: option.splits host_key_policy.splits sftp_auth.splits)

lemma linux_connected: "\<exists>i t. connection linux_target c s = (Inr i, t)"
  using linux_connection [of c s] by (metis prod.collapse)

lemma linux_exec:
  "fst (ssh_exec linux_target c cmd s) = Inr \<lparr> eo_exit = Some 0, eo_stdout = str_bytes (linux_answer cmd), eo_stderr = [] \<rparr>"
proof -
  obtain i t where c: "connection linux_target c s = (Inr i, t)" using linux_connected by blast
  show ?thesis
    unfolding ssh_exec_def bnd_def [of "connection linux_target c"] c
    by (simp add: on_net_def bnd_def ssh_call_def linux_target_def)
qed

lemma linux_check: "fst (exec_check linux_target c cmd s) = Inr \<lparr> eo_exit = Some 0, eo_stdout = str_bytes (linux_answer cmd), eo_stderr = [] \<rparr>"
  using linux_exec [of c cmd s] by (auto simp: exec_check_def bnd_def exec_success_def ret_def split: prod.splits)

lemma linux_channel: "fst (sftp_channel linux_target c s) = Inr 0"
proof -
  obtain i t where c: "connection linux_target c s = (Inr i, t)" using linux_connected by blast
  show ?thesis
    unfolding sftp_channel_def bnd_def [of "connection linux_target c"] c
    by (simp add: on_net_def bnd_def ssh_call_def open_sftp_def linux_target_def)
qed

lemma agent_bnd_ok: "fst (m s) = Inr a \<Longrightarrow> fst (agent_bnd m f s) = fst (f a (snd (m s)))"
  by (auto simp: agent_bnd_def split: prod.splits)

lemma agent_call_ok: "fst (m s) = Inr a \<Longrightarrow> fst (agent_call kind what m s) = Inr a"
  by (auto simp: agent_call_def split: prod.splits)

lemma linux_upload: "fst (upload linux_target (\<lambda>_. linux_session) c path data s) = Inr ()"
  unfolding upload_def
  by (subst agent_bnd_ok [OF agent_call_ok [OF linux_channel]])
    (simp add: agent_bnd_def agent_sftp_def linux_session_def)

lemma linux_platform: "fst (detect_platform linux_target c s) = Inr ''linux-x86_64''"
proof -
  have "platform_of (trim_text (from_utf8_lossy (str_bytes (linux_answer ''uname -s -m'')))) = Some ''linux-x86_64''" by code_simp
  then show ?thesis
    unfolding detect_platform_def
    by (subst agent_bnd_ok [OF agent_call_ok [OF linux_check]]) (simp add: agent_ret_def Let_def)
qed

lemma linux_snapshot:
  assumes "cmd \<noteq> ''uname -s -m''"
  shows "run_result \<lparr> eo_exit = Some 0, eo_stdout = str_bytes (linux_answer cmd), eo_stderr = [] \<rparr>
    = Inr ''s1 files=1 bytes=3 new_bytes=3''"
proof -
  have "snapshot_line (from_utf8_lossy (str_bytes ''snapshot s1 files=1 bytes=3 new_bytes=3'')) = Some ''s1 files=1 bytes=3 new_bytes=3''"
    by code_simp
  then show ?thesis using assms by (simp add: run_result_def exec_success_def linux_answer_def Let_def)
qed

lemma linux_push:
  "fst (push_and_run linux_target (\<lambda>_. linux_session) (\<lambda>_. Inr [1]) pid c dir repo_location passphrase paths s)
     = Inr ''s1 files=1 bytes=3 new_bytes=3''"
proof -
  have n: "agent_command remote_bin repo_location passphrase paths \<noteq> ''uname -s -m''" for remote_bin
    by (simp add: agent_command_def shell_quote_def)
  show ?thesis
    unfolding push_and_run_def Let_def
    by (subst agent_bnd_ok [OF linux_platform], subst agent_bnd_ok [where a = "[1]"], simp add: agent_binary_def agent_ret_def Let_def,
        subst agent_bnd_ok [OF linux_upload], subst agent_bnd_ok [OF agent_call_ok [OF linux_check]],
        subst agent_bnd_ok [OF agent_call_ok [OF linux_exec]]) (simp add: linux_snapshot [OF n] agent_ret_def)
qed

theorem agent_told_truly_witness:
  "\<exists>u out v. ssh_exec linux_target (new_config ''root'' ''h'' (Auth_Password ''pw''))
       (agent_command ''/tmp/aegis-agent-7'' ''/repo'' ''pw'' [''/it's'']) u = (Inr out, v)
     \<and> eo_exit out = Some 0 \<and> snapshot_line (from_utf8_lossy (eo_stdout out)) = Some ''s1 files=1 bytes=3 new_bytes=3''"
proof -
  obtain t where run: "push_and_run linux_target (\<lambda>_. linux_session) (\<lambda>_. Inr [1]) 7 (new_config ''root'' ''h'' (Auth_Password ''pw''))
     ''/bin'' ''/repo'' ''pw'' [''/it's''] \<lparr> sm_cache = Map.empty, sm_world = [] \<rparr> = (Inr ''s1 files=1 bytes=3 new_bytes=3'', t)"
    using linux_push by (metis prod.collapse)
  have n: "''/tmp/aegis-agent-'' @ show_nat 7 = ''/tmp/aegis-agent-7''" by code_simp
  show ?thesis
    using agent_told_truly [THEN conjunct2, THEN conjunct1, rule_format, OF run] unfolding n .
qed

end
