(* ===== verification/Catalog_Store.thy ===== *)
theory Catalog_Store
  imports Cipher
begin

text \<open>
  The catalog of the control plane (aegis-core/src/catalog.rs): the tables of its schema as
  lists of rows in insertion order, what one SQL statement does to them with the
  constraints the schema declares, and the operations on hosts, policies, jobs, snapshots
  and the audit log. A statement is atomic and may fail for reasons of its own (\<open>c_fails\<close>
  schedules which of the coming ones do), in which case the tables keep their contents.
  Columns the code always binds are not optional.
\<close>

section \<open>The schema\<close>

record host_row =
  hr_id :: string
  hr_name :: string
  hr_address :: string
  hr_ssh_port :: int
  hr_ssh_user :: string
  hr_ssh_key_encrypted :: bytes
  hr_mode :: string
  hr_status :: string
  hr_created_at :: int

record policy =
  po_id :: string
  po_name :: string
  po_schedule_cron :: string
  po_retention_json :: string
  po_paths_json :: string
  po_exclude_json :: string
  po_bandwidth_limit_kbps :: "int option"
  po_pre_hook :: "string option"
  po_post_hook :: "string option"
  po_enabled :: bool

record job_row =
  jr_id :: string
  jr_host_id :: string
  jr_policy_id :: string
  jr_status :: string
  jr_started_at :: int
  jr_finished_at :: "int option"
  jr_bytes_new :: "int option"
  jr_bytes_total :: "int option"
  jr_error :: "string option"

record snapshot_record =
  sr_id :: string
  sr_host_id :: string
  sr_job_id :: string
  sr_repo_ref :: string
  sr_size_bytes :: int
  sr_created_at :: int

record user_row =
  ur_id :: string
  ur_username :: string
  ur_password_hash :: string
  ur_role :: string

record session_row =
  se_token_hash :: string
  se_user_id :: string
  se_expires_at :: int

record login_limit_row =
  ll_bucket :: string
  ll_window_start :: int
  ll_attempts :: int

record audit_entry =
  ae_id :: string
  ae_user_id :: "string option"
  ae_action :: string
  ae_detail :: "string option"
  ae_created_at :: int

record database =
  d_hosts :: "host_row list"
  d_policies :: "policy list"
  d_host_policies :: "(string \<times> string) list"
  d_jobs :: "job_row list"
  d_snapshots :: "snapshot_record list"
  d_users :: "user_row list"
  d_sessions :: "session_row list"
  d_login_limits :: "login_limit_row list"
  d_audit_log :: "audit_entry list"

definition empty_database :: database where
  "empty_database = \<lparr> d_hosts = [], d_policies = [], d_host_policies = [], d_jobs = [], d_snapshots = [],
     d_users = [], d_sessions = [], d_login_limits = [], d_audit_log = [] \<rparr>"

section \<open>Statements\<close>

datatype sql_error = Unique_Violation | Foreign_Key_Violation | Storage_Failure

record catalog =
  c_db :: database
  c_fails :: "bool list"
  c_clock :: "nat \<Rightarrow> int"
  c_clock_pos :: nat
  c_uuids :: "nat \<Rightarrow> string"
  c_uuid_pos :: nat
  c_rng :: "nat \<Rightarrow> byte"
  c_rng_pos :: nat

definition exec_sql :: "(sql_error \<Rightarrow> error) \<Rightarrow> (database \<Rightarrow> sql_error + 'a \<times> database) \<Rightarrow> (catalog, 'a) io" where
  "exec_sql g stmt = (\<lambda>c.
     let t = c\<lparr> c_fails := tl (c_fails c) \<rparr> in
     if c_fails c \<noteq> [] \<and> hd (c_fails c) then (Inl (g Storage_Failure), t)
     else case stmt (c_db c) of Inl v \<Rightarrow> (Inl (g v), t) | Inr (a, d) \<Rightarrow> (Inr a, t\<lparr> c_db := d \<rparr>))"

definition query_sql :: "(sql_error \<Rightarrow> error) \<Rightarrow> (database \<Rightarrow> 'a) \<Rightarrow> (catalog, 'a) io" where
  "query_sql g q = exec_sql g (\<lambda>d. Inr (q d, d))"

text \<open>A transaction that is dropped before its commit leaves nothing behind.\<close>

definition in_transaction :: "(catalog, 'a \<times> bool) io \<Rightarrow> (catalog, 'a) io" where
  "in_transaction m = (\<lambda>c. case m c of
       (Inr (a, True), t) \<Rightarrow> (Inr a, t)
     | (Inr (a, False), t) \<Rightarrow> (Inr a, t\<lparr> c_db := c_db c \<rparr>)
     | (Inl e, t) \<Rightarrow> (Inl e, t\<lparr> c_db := c_db c \<rparr>))"

definition catalog_err :: "string \<Rightarrow> sql_error \<Rightarrow> error" where
  "catalog_err context = (\<lambda>_. Catalog context)"

text \<open>\<open>LIMIT\<close> and \<open>OFFSET\<close>: a negative limit is none, a negative offset is zero.\<close>

definition sql_limit :: "int \<Rightarrow> int \<Rightarrow> 'a list \<Rightarrow> 'a list" where
  "sql_limit limit offset rows = (let xs = drop (nat offset) rows in if limit < 0 then xs else take (nat limit) xs)"

definition now_secs :: "(catalog, int) io" where
  "now_secs = (\<lambda>c. (Inr (c_clock c (c_clock_pos c)), c\<lparr> c_clock_pos := Suc (c_clock_pos c) \<rparr>))"

definition catalog_uuid :: "(catalog, string) io" where
  "catalog_uuid = (\<lambda>c. (Inr (c_uuids c (c_uuid_pos c)), c\<lparr> c_uuid_pos := Suc (c_uuid_pos c) \<rparr>))"

definition catalog_random :: "nat \<Rightarrow> (catalog, bytes) io" where
  "catalog_random n = (\<lambda>c. (Inr (map (c_rng c) [c_rng_pos c..<c_rng_pos c + n]), c\<lparr> c_rng_pos := c_rng_pos c + n \<rparr>))"

definition fresh_nonce :: "(catalog, bytes) io" where
  "fresh_nonce = catalog_random NONCE_LEN"

text \<open>\<open>Catalog::open\<close> and \<open>Catalog::in_memory\<close>: every table of the schema exists
  afterwards, those that existed keep their rows.\<close>

definition open_catalog :: "(catalog, unit) io" where
  "open_catalog =
     bnd (exec_sql (catalog_err ''opening catalog'') (\<lambda>d. Inr ((), d))) (\<lambda>_.
     exec_sql (catalog_err ''creating schema'') (\<lambda>d. Inr ((), d)))"

text \<open>\<open>let _ = m.await;\<close>\<close>

definition attempt :: "('s, 'a) io \<Rightarrow> ('s, unit) io" where
  "attempt m = try_io m (\<lambda>_. ret ()) (\<lambda>_. ret ())"

section \<open>Hosts\<close>

datatype backup_mode = Agentless | Agent

fun mode_str :: "backup_mode \<Rightarrow> string" where
  "mode_str Agentless = ''agentless''"
| "mode_str Agent = ''agent''"

definition mode_from_str :: "string \<Rightarrow> backup_mode res" where
  "mode_from_str s = (if s = ''agentless'' then Inr Agentless else if s = ''agent'' then Inr Agent
     else Inl (Catalog (''unknown backup mode `'' @ s @ ''`'')))"

datatype host_status = Unknown | Reachable | Unreachable

fun status_str :: "host_status \<Rightarrow> string" where
  "status_str Unknown = ''unknown''"
| "status_str Reachable = ''reachable''"
| "status_str Unreachable = ''unreachable''"

definition status_from_str :: "string \<Rightarrow> host_status res" where
  "status_from_str s = (if s = ''unknown'' then Inr Unknown else if s = ''reachable'' then Inr Reachable
     else if s = ''unreachable'' then Inr Unreachable else Inl (Catalog (''unknown host status `'' @ s @ ''`'')))"

record host =
  ho_id :: string
  ho_name :: string
  ho_address :: string
  ho_ssh_port :: "16 word"
  ho_ssh_user :: string
  ho_mode :: backup_mode
  ho_status :: host_status
  ho_created_at :: int

record host_with_key =
  hk_host :: host
  hk_ssh_key_pem :: bytes

definition host_not_found :: "string \<Rightarrow> error" where
  "host_not_found i = Catalog (''host `'' @ i @ ''` not found'')"

definition host_from_row :: "host_row \<Rightarrow> host res" where
  "host_from_row row =
     res_bind (if 0 \<le> hr_ssh_port row \<and> hr_ssh_port row < 2 ^ 16 then Inr (word_of_int (hr_ssh_port row))
               else Inl (Catalog ''ssh_port out of range'')) (\<lambda>port.
     res_bind (mode_from_str (hr_mode row)) (\<lambda>mode.
     res_bind (status_from_str (hr_status row)) (\<lambda>status.
     Inr \<lparr> ho_id = hr_id row, ho_name = hr_name row, ho_address = hr_address row, ho_ssh_port = port,
       ho_ssh_user = hr_ssh_user row, ho_mode = mode, ho_status = status, ho_created_at = hr_created_at row \<rparr>)))"

text \<open>\<open>rows.iter().map(f).collect()\<close>.\<close>

fun collect_rows :: "('a \<Rightarrow> 'b res) \<Rightarrow> 'a list \<Rightarrow> 'b list res" where
  "collect_rows f [] = Inr []"
| "collect_rows f (r # rs) = res_bind (f r) (\<lambda>x. res_bind (collect_rows f rs) (\<lambda>xs. Inr (x # xs)))"

definition insert_host :: "host_row \<Rightarrow> database \<Rightarrow> sql_error + unit \<times> database" where
  "insert_host row d = (if hr_id row \<in> hr_id ` set (d_hosts d) then Inl Unique_Violation
     else Inr ((), d\<lparr> d_hosts := d_hosts d @ [row] \<rparr>))"

definition seal_host_key :: "foreign \<Rightarrow> bytes \<Rightarrow> string \<Rightarrow> bytes \<Rightarrow> (catalog, bytes) io" where
  "seal_host_key L master_key i pem =
     bnd fresh_nonce (\<lambda>nonce.
     bnd (lift_res (map_err (\<lambda>_. Catalog ''sealing ssh key'') (seal L master_key nonce (aad (CtxHost i)) pem))) (\<lambda>sealed.
     ret (nonce @ sealed)))"

definition add_host ::
  "foreign \<Rightarrow> string \<Rightarrow> string \<Rightarrow> 16 word \<Rightarrow> string \<Rightarrow> bytes \<Rightarrow> backup_mode \<Rightarrow> bytes \<Rightarrow> (catalog, host) io" where
  "add_host L nm address ssh_port ssh_user ssh_key_pem mode master_key =
     (if length master_key \<noteq> KEY_LEN then raise (Catalog ''master key must be 32 bytes'') else
     bnd catalog_uuid (\<lambda>i.
     bnd now_secs (\<lambda>created_at.
     bnd (seal_host_key L master_key i ssh_key_pem) (\<lambda>blob.
     bnd (exec_sql (catalog_err ''inserting host'') (insert_host
       \<lparr> hr_id = i, hr_name = nm, hr_address = address, hr_ssh_port = uint ssh_port, hr_ssh_user = ssh_user,
         hr_ssh_key_encrypted = blob, hr_mode = mode_str mode, hr_status = status_str Unknown,
         hr_created_at = created_at \<rparr>)) (\<lambda>_.
     ret \<lparr> ho_id = i, ho_name = nm, ho_address = address, ho_ssh_port = ssh_port, ho_ssh_user = ssh_user,
       ho_mode = mode, ho_status = Unknown, ho_created_at = created_at \<rparr>)))))"

definition list_hosts :: "(catalog, host list) io" where
  "list_hosts =
     bnd (query_sql (catalog_err ''listing hosts'') (\<lambda>d. sort_key (\<lambda>h. (hr_created_at h, hr_id h)) (d_hosts d))) (\<lambda>rows.
     lift_res (collect_rows host_from_row rows))"

definition host_by_id :: "string \<Rightarrow> database \<Rightarrow> host_row option" where
  "host_by_id i d = find (\<lambda>h. hr_id h = i) (d_hosts d)"

definition get_host :: "string \<Rightarrow> (catalog, host) io" where
  "get_host i =
     bnd (query_sql (catalog_err ''fetching host'') (host_by_id i)) (\<lambda>found.
     bnd (lift_res (ok_or (host_not_found i) found)) (\<lambda>row.
     lift_res (host_from_row row)))"

definition get_host_with_key :: "foreign \<Rightarrow> string \<Rightarrow> bytes \<Rightarrow> (catalog, host_with_key) io" where
  "get_host_with_key L i master_key =
     bnd (query_sql (catalog_err ''fetching host'') (host_by_id i)) (\<lambda>found.
     bnd (lift_res (ok_or (host_not_found i) found)) (\<lambda>row.
     bnd (lift_res (host_from_row row)) (\<lambda>h.
     bnd (lift_res (map_err (\<lambda>_. DecryptFailed) (open_sealed L master_key (aad (CtxHost i)) (hr_ssh_key_encrypted row)))) (\<lambda>pem.
     ret \<lparr> hk_host = h, hk_ssh_key_pem = pem \<rparr>))))"

text \<open>\<open>UPDATE hosts SET ... WHERE id = ?\<close>, with the number of rows it matched.\<close>

definition update_hosts :: "string \<Rightarrow> (host_row \<Rightarrow> host_row) \<Rightarrow> database \<Rightarrow> sql_error + nat \<times> database" where
  "update_hosts i f d = Inr (length (filter (\<lambda>h. hr_id h = i) (d_hosts d)),
     d\<lparr> d_hosts := map (\<lambda>h. if hr_id h = i then f h else h) (d_hosts d) \<rparr>)"

definition set_host_status :: "string \<Rightarrow> host_status \<Rightarrow> (catalog, unit) io" where
  "set_host_status i status =
     bnd (exec_sql (catalog_err ''updating host status'') (update_hosts i (\<lambda>h. h\<lparr> hr_status := status_str status \<rparr>))) (\<lambda>n.
     if n = 0 then raise (host_not_found i) else ret ())"

definition set_host_key :: "foreign \<Rightarrow> string \<Rightarrow> bytes \<Rightarrow> bytes \<Rightarrow> (catalog, unit) io" where
  "set_host_key L i ssh_key_pem master_key =
     bnd (seal_host_key L master_key i ssh_key_pem) (\<lambda>blob.
     bnd (exec_sql (catalog_err ''updating ssh key'') (update_hosts i (\<lambda>h. h\<lparr> hr_ssh_key_encrypted := blob \<rparr>))) (\<lambda>n.
     if n = 0 then raise (host_not_found i) else ret ()))"

text \<open>Deleting a row that another table references is refused.\<close>

definition host_referenced :: "database \<Rightarrow> string \<Rightarrow> bool" where
  "host_referenced d i \<longleftrightarrow> i \<in> fst ` set (d_host_policies d) \<or> i \<in> jr_host_id ` set (d_jobs d) \<or> i \<in> sr_host_id ` set (d_snapshots d)"

definition delete_host :: "string \<Rightarrow> database \<Rightarrow> sql_error + nat \<times> database" where
  "delete_host i d =
     (let n = length (filter (\<lambda>h. hr_id h = i) (d_hosts d)) in
      if 0 < n \<and> host_referenced d i then Inl Foreign_Key_Violation
      else Inr (n, d\<lparr> d_hosts := filter (\<lambda>h. hr_id h \<noteq> i) (d_hosts d) \<rparr>))"

definition remove_host :: "string \<Rightarrow> (catalog, bool) io" where
  "remove_host i = bnd (exec_sql (catalog_err ''removing host'') (delete_host i)) (\<lambda>n. ret (0 < n))"

end
