(* ===== verification/Catalog_History.thy ===== *)
theory Catalog_History
  imports Catalog_Store
begin

text \<open>
  The remaining tables of the catalog (aegis-core/src/catalog.rs): audit log, policies and
  the hosts attached to them, job runs, and recorded snapshots. How the database driver
  reads a NULL into a plain integer is the parameter \<open>nul\<close>.
\<close>

section \<open>Audit log\<close>

definition audit :: "string option \<Rightarrow> string \<Rightarrow> string option \<Rightarrow> (catalog, unit) io" where
  "audit user_id action detail =
     bnd catalog_uuid (\<lambda>i.
     bnd now_secs (\<lambda>now.
     exec_sql (catalog_err ''writing audit log'') (\<lambda>d.
       if i \<in> ae_id ` set (d_audit_log d) then Inl Unique_Violation
       else Inr ((), d\<lparr> d_audit_log := d_audit_log d @ [\<lparr> ae_id = i, ae_user_id = user_id, ae_action = action,
         ae_detail = detail, ae_created_at = now \<rparr>] \<rparr>))))"

definition audit_log :: "int \<Rightarrow> (catalog, audit_entry list) io" where
  "audit_log limit = query_sql (catalog_err ''reading audit log'') (\<lambda>d.
     sql_limit limit 0 (rev (sort_key (\<lambda>a. (ae_created_at a, ae_id a)) (d_audit_log d))))"

section \<open>Policies\<close>

definition policy_not_found :: "string \<Rightarrow> error" where
  "policy_not_found i = Catalog (''policy `'' @ i @ ''` not found'')"

definition insert_policy :: "policy \<Rightarrow> database \<Rightarrow> sql_error + unit \<times> database" where
  "insert_policy p d = (if po_id p \<in> po_id ` set (d_policies d) then Inl Unique_Violation
     else Inr ((), d\<lparr> d_policies := d_policies d @ [p] \<rparr>))"

definition policy_insert_err :: "policy \<Rightarrow> sql_error \<Rightarrow> error" where
  "policy_insert_err p v = (case v of
       Unique_Violation \<Rightarrow> InvalidInput (''policy name `'' @ po_name p @ ''` already exists'')
     | _ \<Rightarrow> Catalog ''inserting policy'')"

definition add_policy :: "policy \<Rightarrow> (catalog, policy) io" where
  "add_policy p =
     bnd catalog_uuid (\<lambda>i.
     let q = p\<lparr> po_id := i, po_enabled := True \<rparr> in
     bnd (exec_sql (policy_insert_err p) (insert_policy q)) (\<lambda>_. ret q))"

definition list_policies :: "(catalog, policy list) io" where
  "list_policies = query_sql (catalog_err ''listing policies'') (\<lambda>d. sort_key po_name (d_policies d))"

definition get_policy :: "string \<Rightarrow> (catalog, policy) io" where
  "get_policy i =
     bnd (query_sql (catalog_err ''fetching policy'') (\<lambda>d. find (\<lambda>p. po_id p = i) (d_policies d))) (\<lambda>found.
     lift_res (ok_or (policy_not_found i) found))"

definition update_policy :: "string \<Rightarrow> policy \<Rightarrow> (catalog, policy) io" where
  "update_policy i p =
     bnd (exec_sql (catalog_err ''updating policy'') (\<lambda>d. Inr ((),
       d\<lparr> d_policies := map (\<lambda>q. if po_id q = i then p\<lparr> po_id := i \<rparr> else q) (d_policies d) \<rparr>))) (\<lambda>_.
     get_policy i)"

definition attached_hosts :: "string \<Rightarrow> database \<Rightarrow> host_row list" where
  "attached_hosts policy_id d =
     concat (map (\<lambda>(h, p). if p = policy_id then filter (\<lambda>r. hr_id r = h) (d_hosts d) else []) (d_host_policies d))"

definition list_hosts_for_policy :: "string \<Rightarrow> (catalog, host list) io" where
  "list_hosts_for_policy policy_id =
     bnd (query_sql (catalog_err ''listing hosts for policy'') (attached_hosts policy_id)) (\<lambda>rows.
     lift_res (collect_rows host_from_row rows))"

definition policy_referenced :: "database \<Rightarrow> string \<Rightarrow> bool" where
  "policy_referenced d i \<longleftrightarrow> i \<in> snd ` set (d_host_policies d) \<or> i \<in> jr_policy_id ` set (d_jobs d)"

definition delete_policy :: "string \<Rightarrow> database \<Rightarrow> sql_error + nat \<times> database" where
  "delete_policy i d =
     (let n = length (filter (\<lambda>p. po_id p = i) (d_policies d)) in
      if 0 < n \<and> policy_referenced d i then Inl Foreign_Key_Violation
      else Inr (n, d\<lparr> d_policies := filter (\<lambda>p. po_id p \<noteq> i) (d_policies d) \<rparr>))"

definition remove_policy :: "string \<Rightarrow> (catalog, bool) io" where
  "remove_policy i = bnd (exec_sql (catalog_err ''removing policy'') (delete_policy i)) (\<lambda>n. ret (0 < n))"

section \<open>Jobs\<close>

record job =
  jo_id :: string
  jo_host_id :: string
  jo_policy_id :: string
  jo_status :: string
  jo_started_at :: int
  jo_finished_at :: "int option"
  jo_bytes_new :: int
  jo_bytes_total :: int
  jo_error :: "string option"

definition insert_job :: "job_row \<Rightarrow> database \<Rightarrow> sql_error + unit \<times> database" where
  "insert_job j d =
     (if jr_id j \<in> jr_id ` set (d_jobs d) then Inl Unique_Violation
      else if jr_host_id j \<notin> hr_id ` set (d_hosts d) \<or> jr_policy_id j \<notin> po_id ` set (d_policies d) then Inl Foreign_Key_Violation
      else Inr ((), d\<lparr> d_jobs := d_jobs d @ [j] \<rparr>))"

definition record_job_started :: "string \<Rightarrow> string \<Rightarrow> string \<Rightarrow> (catalog, unit) io" where
  "record_job_started job_id host_id policy_id =
     bnd now_secs (\<lambda>now.
     exec_sql (catalog_err ''recording job start'') (insert_job
       \<lparr> jr_id = job_id, jr_host_id = host_id, jr_policy_id = policy_id, jr_status = ''running'', jr_started_at = now,
         jr_finished_at = None, jr_bytes_new = None, jr_bytes_total = None, jr_error = None \<rparr>))"

definition update_jobs :: "string \<Rightarrow> (job_row \<Rightarrow> job_row) \<Rightarrow> database \<Rightarrow> sql_error + unit \<times> database" where
  "update_jobs i f d = Inr ((), d\<lparr> d_jobs := map (\<lambda>j. if jr_id j = i then f j else j) (d_jobs d) \<rparr>)"

definition record_job_completed :: "string \<Rightarrow> int \<Rightarrow> int \<Rightarrow> (catalog, unit) io" where
  "record_job_completed job_id bytes_new bytes_total =
     bnd now_secs (\<lambda>now.
     exec_sql (catalog_err ''recording job completion'') (update_jobs job_id (\<lambda>j. j\<lparr> jr_status := ''completed'',
       jr_finished_at := Some now, jr_bytes_new := Some bytes_new, jr_bytes_total := Some bytes_total \<rparr>)))"

definition record_job_failed :: "string \<Rightarrow> string \<Rightarrow> (catalog, unit) io" where
  "record_job_failed job_id msg =
     bnd now_secs (\<lambda>now.
     exec_sql (catalog_err ''recording job failure'') (update_jobs job_id (\<lambda>j. j\<lparr> jr_status := ''failed'',
       jr_finished_at := Some now, jr_error := Some msg \<rparr>)))"

definition read_i64 :: "int option \<Rightarrow> string \<Rightarrow> int option \<Rightarrow> int res" where
  "read_i64 nul context v = (case v of Some x \<Rightarrow> Inr x | None \<Rightarrow> ok_or (Catalog context) nul)"

definition job_from_row :: "int option \<Rightarrow> job_row \<Rightarrow> job res" where
  "job_from_row nul r =
     res_bind (read_i64 nul ''reading job bytes_new'' (jr_bytes_new r)) (\<lambda>bytes_new.
     res_bind (read_i64 nul ''reading job bytes_total'' (jr_bytes_total r)) (\<lambda>bytes_total.
     Inr \<lparr> jo_id = jr_id r, jo_host_id = jr_host_id r, jo_policy_id = jr_policy_id r, jo_status = jr_status r,
       jo_started_at = jr_started_at r, jo_finished_at = jr_finished_at r, jo_bytes_new = bytes_new,
       jo_bytes_total = bytes_total, jo_error = jr_error r \<rparr>))"

definition matches :: "'a option \<Rightarrow> 'a \<Rightarrow> bool" where
  "matches want x = (case want of None \<Rightarrow> True | Some y \<Rightarrow> x = y)"

definition list_jobs ::
  "int option \<Rightarrow> string option \<Rightarrow> string option \<Rightarrow> string option \<Rightarrow> int \<Rightarrow> int \<Rightarrow> (catalog, job list) io" where
  "list_jobs nul host_id policy_id status limit offset =
     bnd (query_sql (catalog_err ''listing jobs'') (\<lambda>d. sql_limit limit offset
       (sort_key (\<lambda>j. - jr_started_at j)
         (filter (\<lambda>j. matches host_id (jr_host_id j) \<and> matches policy_id (jr_policy_id j) \<and> matches status (jr_status j))
           (d_jobs d))))) (\<lambda>rows.
     lift_res (collect_rows (job_from_row nul) rows))"

section \<open>Snapshots\<close>

definition insert_snapshot :: "snapshot_record \<Rightarrow> database \<Rightarrow> sql_error + unit \<times> database" where
  "insert_snapshot s d =
     (if sr_id s \<in> sr_id ` set (d_snapshots d) then Inr ((), d)
      else if sr_host_id s \<notin> hr_id ` set (d_hosts d) \<or> sr_job_id s \<notin> jr_id ` set (d_jobs d) then Inl Foreign_Key_Violation
      else Inr ((), d\<lparr> d_snapshots := d_snapshots d @ [s] \<rparr>))"

definition record_snapshot :: "string \<Rightarrow> string \<Rightarrow> string \<Rightarrow> string \<Rightarrow> int \<Rightarrow> (catalog, unit) io" where
  "record_snapshot snapshot_id host_id job_id repo_ref size_bytes =
     bnd now_secs (\<lambda>now.
     exec_sql (catalog_err ''recording snapshot'') (insert_snapshot
       \<lparr> sr_id = snapshot_id, sr_host_id = host_id, sr_job_id = job_id, sr_repo_ref = repo_ref,
         sr_size_bytes = size_bytes, sr_created_at = now \<rparr>))"

definition list_snapshots_for_host :: "string option \<Rightarrow> int \<Rightarrow> (catalog, snapshot_record list) io" where
  "list_snapshots_for_host host_id limit = query_sql (catalog_err ''listing snapshots'') (\<lambda>d.
     sql_limit limit 0 (sort_key (\<lambda>s. - sr_created_at s) (filter (\<lambda>s. matches host_id (sr_host_id s)) (d_snapshots d))))"

end
