(* ===== verification/Metrics.thy ===== *)
theory Metrics
  imports Catalog_History
begin

text \<open>
  The Prometheus exposition (aegis-server/src/metrics.rs): the text rendered from the hosts,
  jobs and snapshots of the catalog. Counts and byte totals are printed as 64-bit floats,
  whose conversion, addition and printing are the record \<open>float_lib\<close> (a float is its bit
  pattern; \<open>f_zero\<close> is the value an empty sum has).
\<close>

section \<open>Floats\<close>

record float_lib =
  f_int :: "int \<Rightarrow> 64 word"
  f_zero :: "64 word"
  f_add :: "64 word \<Rightarrow> 64 word \<Rightarrow> 64 word"
  f_show :: "64 word \<Rightarrow> string"

definition f_sum :: "float_lib \<Rightarrow> int list \<Rightarrow> 64 word" where
  "f_sum F xs = foldl (\<lambda>a x. f_add F a (f_int F x)) (f_zero F) xs"

section \<open>Lines\<close>

definition newline :: string where
  "newline = [CHR 0x0A]"

fun sample_line :: "float_lib \<Rightarrow> string \<Rightarrow> string \<times> 64 word \<Rightarrow> string" where
  "sample_line F nm (labels, value) =
     (if labels = [] then nm @ '' '' @ f_show F value @ newline
      else nm @ ''{'' @ labels @ ''} '' @ f_show F value @ newline)"

definition metric_lines :: "float_lib \<Rightarrow> string \<Rightarrow> string \<Rightarrow> string \<Rightarrow> (string \<times> 64 word) list \<Rightarrow> string" where
  "metric_lines F nm help kind samples =
     ''# HELP '' @ nm @ '' '' @ help @ newline @ ''# TYPE '' @ nm @ '' '' @ kind @ newline
     @ concat (map (sample_line F nm) samples)"

section \<open>Samples\<close>

definition host_samples :: "host list \<Rightarrow> (string \<times> nat) list" where
  "host_samples hs = map (\<lambda>s. (s, length (filter (\<lambda>h. status_str (ho_status h) = s) hs))) [''reachable'', ''unreachable'', ''unknown'']"

definition job_samples :: "job list \<Rightarrow> (string \<times> nat) list" where
  "job_samples js = map (\<lambda>s. (s, length (filter (\<lambda>j. jo_status j = s) js))) [''running'', ''completed'', ''failed'']"

definition as_floats :: "float_lib \<Rightarrow> (string \<times> nat) list \<Rightarrow> (string \<times> 64 word) list" where
  "as_floats F xs = map (\<lambda>(s, n). (s, f_int F (int n))) xs"

text \<open>\<open>unwrap_or_default\<close> and \<open>unwrap_or\<close>.\<close>

definition or_else :: "('s, 'a) io \<Rightarrow> 'a \<Rightarrow> ('s, 'a) io" where
  "or_else m a = try_io m (\<lambda>_. ret a) ret"

definition render :: "float_lib \<Rightarrow> int option \<Rightarrow> 64 word option \<Rightarrow> 64 word option \<Rightarrow> (catalog, string) io" where
  "render F nul repo_bytes uptime =
     bnd (or_else list_hosts []) (\<lambda>hosts.
     bnd (or_else (list_jobs nul None None None 1000 0) []) (\<lambda>jobs.
     let completed = filter (\<lambda>j. jo_status j = ''completed'') jobs in
     bnd (or_else (bnd (list_snapshots_for_host None 10000) (\<lambda>xs. ret (length xs))) 0) (\<lambda>snapshots.
     ret (metric_lines F ''aegis_hosts'' ''Registered backup hosts by reachability.'' ''gauge'' (as_floats F (host_samples hosts))
       @ metric_lines F ''aegis_jobs'' ''Backup jobs by status (last 1000).'' ''gauge'' (as_floats F (job_samples jobs))
       @ metric_lines F ''aegis_backup_bytes_total'' ''Logical bytes read by completed jobs (last 1000).'' ''counter''
           [([], f_sum F (map jo_bytes_total completed))]
       @ metric_lines F ''aegis_backup_new_bytes_total'' ''Bytes actually written by completed jobs (last 1000).'' ''counter''
           [([], f_sum F (map jo_bytes_new completed))]
       @ metric_lines F ''aegis_snapshots_recorded'' ''Snapshots recorded in the catalog.'' ''gauge''
           [([], f_int F (int snapshots))]
       @ (case repo_bytes of None \<Rightarrow> []
           | Some n \<Rightarrow> metric_lines F ''aegis_repository_bytes'' ''Bytes stored in the control plane's repository.'' ''gauge''
               [([], f_int F (uint n))])
       @ (case uptime of None \<Rightarrow> []
           | Some n \<Rightarrow> metric_lines F ''aegis_uptime_seconds'' ''Seconds since the control plane started.'' ''gauge''
               [([], f_int F (uint n))])))))"

end
