(* ===== verification/Catalog_Auth.thy ===== *)
theory Catalog_Auth
  imports Catalog_Store
begin

text \<open>
  Users, sessions and the login limit of the catalog (aegis-core/src/catalog_auth.rs).
  Argon2's PHC strings and the URL-safe base64 of the session tokens are the record
  \<open>auth_lib\<close>. The semaphore that bounds concurrent hashing is never closed and changes
  no result.
\<close>

record auth_lib =
  phc_hash :: "string \<Rightarrow> bytes \<Rightarrow> string option"
  phc_verify :: "string \<Rightarrow> string \<Rightarrow> bool"
  base64_url :: "bytes \<Rightarrow> string"

text \<open>A password hash verifies against the password it was made from.\<close>

definition phc_law :: "auth_lib \<Rightarrow> bool" where
  "phc_law A \<longleftrightarrow> (\<forall>pw salt h. phc_hash A pw salt = Some h \<longrightarrow> phc_verify A pw h)"

definition TOKEN_LEN :: nat where "TOKEN_LEN = 32"
definition SESSION_TTL_SECS :: int where "SESSION_TTL_SECS = 24 * 60 * 60"
definition USERNAME_MAX :: nat where "USERNAME_MAX = 64"
definition PASSWORD_MIN :: nat where "PASSWORD_MIN = 12"
definition PASSWORD_MAX :: nat where "PASSWORD_MAX = 1024"
definition LOGIN_LIMIT :: int where "LOGIN_LIMIT = 30"
definition LOGIN_WINDOW_SECS :: int where "LOGIN_WINDOW_SECS = 60"
definition LOGIN_BUCKET :: string where "LOGIN_BUCKET = ''global''"

definition DUMMY_HASH :: string where
  "DUMMY_HASH = ''$argon2id$v=19$m=65536,t=3,p=1$MDEyMzQ1NjcwMTIzNDU2Nw$aW52YWxpZC1zYWx0LWZvci1kdW1teS1oYXNoLXZlcmlmaWNhdGlvbg''"

section \<open>Roles\<close>

datatype role = Viewer | Operator | Admin

text \<open>The derived order: declaration order.\<close>

fun role_rank :: "role \<Rightarrow> nat" where
  "role_rank Viewer = 0"
| "role_rank Operator = 1"
| "role_rank Admin = 2"

instantiation role :: linorder
begin

definition less_eq_role :: "role \<Rightarrow> role \<Rightarrow> bool" where
  "less_eq_role r s \<longleftrightarrow> role_rank r \<le> role_rank s"

definition less_role :: "role \<Rightarrow> role \<Rightarrow> bool" where
  "less_role r s \<longleftrightarrow> role_rank r < role_rank s"

instance
proof
  fix r s t :: role
  show "r < s \<longleftrightarrow> r \<le> s \<and> \<not> s \<le> r" "r \<le> r" "r \<le> s \<or> s \<le> r" by (auto simp: less_eq_role_def less_role_def)
  show "r \<le> s \<Longrightarrow> s \<le> t \<Longrightarrow> r \<le> t" by (simp add: less_eq_role_def)
  show "r \<le> s \<Longrightarrow> s \<le> r \<Longrightarrow> r = s" by (cases r; cases s) (simp_all add: less_eq_role_def)
qed

end

fun role_str :: "role \<Rightarrow> string" where
  "role_str Viewer = ''viewer''"
| "role_str Operator = ''operator''"
| "role_str Admin = ''admin''"

definition role_from_str :: "string \<Rightarrow> role res" where
  "role_from_str s = (if s = ''admin'' then Inr Admin else if s = ''operator'' then Inr Operator
     else if s = ''viewer'' then Inr Viewer else Inl (Catalog (''unknown role `'' @ s @ ''`'')))"

record user =
  us_id :: string
  us_username :: string
  us_role :: role

record session =
  ss_token :: string
  ss_user :: user
  ss_expires_at :: int

section \<open>Validation and hashing\<close>

definition username_char :: "char \<Rightarrow> bool" where
  "username_char c \<longleftrightarrow> (CHR ''a'' \<le> c \<and> c \<le> CHR ''z'') \<or> (CHR ''A'' \<le> c \<and> c \<le> CHR ''Z'')
     \<or> (CHR ''0'' \<le> c \<and> c \<le> CHR ''9'') \<or> c \<in> set ''-_.''"

definition validate_username :: "string \<Rightarrow> unit res" where
  "validate_username u =
     (if u = [] \<or> USERNAME_MAX < length u then Inl (InvalidInput ''username must be 1-64 characters'')
      else if \<not> list_all username_char u then Inl (InvalidInput ''username may only contain letters, digits, `-`, `_`, `.`'')
      else Inr ())"

definition validate_password :: "string \<Rightarrow> unit res" where
  "validate_password pw =
     (if PASSWORD_MIN \<le> length pw \<and> length pw \<le> PASSWORD_MAX then Inr ()
      else Inl (InvalidInput ''password must be 12-1024 bytes''))"

definition fresh_token :: "auth_lib \<Rightarrow> (catalog, string) io" where
  "fresh_token A = bnd (catalog_random TOKEN_LEN) (\<lambda>bs. ret (base64_url A bs))"

definition token_hash :: "foreign \<Rightarrow> string \<Rightarrow> string" where
  "token_hash L token = blake3_hex L (str_bytes token)"

definition hash_password :: "auth_lib \<Rightarrow> string \<Rightarrow> (catalog, string) io" where
  "hash_password A pw =
     bnd (catalog_random 16) (\<lambda>salt. lift_res (ok_or (Catalog ''hashing password'') (phc_hash A pw salt)))"

definition verify_password :: "auth_lib \<Rightarrow> string \<Rightarrow> string \<Rightarrow> bool" where
  "verify_password A pw phc = phc_verify A pw phc"

definition user_from_row :: "user_row \<Rightarrow> user res" where
  "user_from_row r = res_bind (role_from_str (ur_role r)) (\<lambda>role.
     Inr \<lparr> us_id = ur_id r, us_username = ur_username r, us_role = role \<rparr>)"

section \<open>Users\<close>

definition insert_user :: "user_row \<Rightarrow> database \<Rightarrow> sql_error + unit \<times> database" where
  "insert_user r d =
     (if ur_id r \<in> ur_id ` set (d_users d) \<or> ur_username r \<in> ur_username ` set (d_users d) then Inl Unique_Violation
      else Inr ((), d\<lparr> d_users := d_users d @ [r] \<rparr>))"

definition user_insert_err :: "string \<Rightarrow> sql_error \<Rightarrow> error" where
  "user_insert_err u v = (case v of
       Unique_Violation \<Rightarrow> InvalidInput (''username `'' @ u @ ''` already exists'')
     | _ \<Rightarrow> Catalog ''inserting user'')"

definition add_user_with_role :: "auth_lib \<Rightarrow> string \<Rightarrow> string \<Rightarrow> role \<Rightarrow> (catalog, user) io" where
  "add_user_with_role A username password role =
     bnd (lift_res (validate_username username)) (\<lambda>_.
     bnd (lift_res (validate_password password)) (\<lambda>_.
     bnd (hash_password A password) (\<lambda>hash.
     bnd catalog_uuid (\<lambda>i.
     bnd (exec_sql (user_insert_err username) (insert_user
       \<lparr> ur_id = i, ur_username = username, ur_password_hash = hash, ur_role = role_str role \<rparr>)) (\<lambda>_.
     ret \<lparr> us_id = i, us_username = username, us_role = role \<rparr>)))))"

definition add_user :: "auth_lib \<Rightarrow> string \<Rightarrow> string \<Rightarrow> (catalog, user) io" where
  "add_user A username password = add_user_with_role A username password Admin"

definition update_users :: "string \<Rightarrow> (user_row \<Rightarrow> user_row) \<Rightarrow> database \<Rightarrow> sql_error + nat \<times> database" where
  "update_users username f d = Inr (length (filter (\<lambda>r. ur_username r = username) (d_users d)),
     d\<lparr> d_users := map (\<lambda>r. if ur_username r = username then f r else r) (d_users d) \<rparr>)"

definition set_user_role :: "string \<Rightarrow> role \<Rightarrow> (catalog, bool) io" where
  "set_user_role username role =
     bnd (lift_res (validate_username username)) (\<lambda>_.
     bnd (exec_sql (catalog_err ''updating role'') (update_users username (\<lambda>r. r\<lparr> ur_role := role_str role \<rparr>))) (\<lambda>n.
     ret (0 < n)))"

definition list_users :: "(catalog, user list) io" where
  "list_users =
     bnd (query_sql (catalog_err ''listing users'') (\<lambda>d. sort_key ur_username (d_users d))) (\<lambda>rows.
     lift_res (collect_rows user_from_row rows))"

text \<open>\<open>sessions.user_id\<close> cascades.\<close>

definition delete_user :: "string \<Rightarrow> database \<Rightarrow> sql_error + nat \<times> database" where
  "delete_user username d =
     (let gone = filter (\<lambda>r. ur_username r = username) (d_users d) in
      Inr (length gone, d\<lparr> d_users := filter (\<lambda>r. ur_username r \<noteq> username) (d_users d),
        d_sessions := filter (\<lambda>s. se_user_id s \<notin> ur_id ` set gone) (d_sessions d) \<rparr>))"

definition remove_user :: "string \<Rightarrow> (catalog, bool) io" where
  "remove_user username =
     bnd (lift_res (validate_username username)) (\<lambda>_.
     bnd (exec_sql (catalog_err ''removing user'') (delete_user username)) (\<lambda>n. ret (0 < n)))"

definition user_by_name :: "string \<Rightarrow> database \<Rightarrow> user_row option" where
  "user_by_name username d = find (\<lambda>r. ur_username r = username) (d_users d)"

definition revoke_sessions :: "string \<Rightarrow> database \<Rightarrow> sql_error + unit \<times> database" where
  "revoke_sessions username d = Inr ((), d\<lparr> d_sessions :=
     filter (\<lambda>s. Some (se_user_id s) \<noteq> map_option ur_id (user_by_name username d)) (d_sessions d) \<rparr>)"

definition set_user_password :: "auth_lib \<Rightarrow> string \<Rightarrow> string \<Rightarrow> (catalog, bool) io" where
  "set_user_password A username password =
     bnd (lift_res (validate_username username)) (\<lambda>_.
     bnd (lift_res (validate_password password)) (\<lambda>_.
     bnd (hash_password A password) (\<lambda>hash.
     bnd (exec_sql (catalog_err ''beginning transaction'') (\<lambda>d. Inr ((), d))) (\<lambda>_.
     in_transaction (
       bnd (exec_sql (catalog_err ''updating password'') (update_users username (\<lambda>r. r\<lparr> ur_password_hash := hash \<rparr>))) (\<lambda>n.
       if n = 0 then ret (False, False) else
       bnd (exec_sql (catalog_err ''revoking sessions'') (revoke_sessions username)) (\<lambda>_.
       bnd (exec_sql (catalog_err ''committing'') (\<lambda>d. Inr ((), d))) (\<lambda>_.
       ret (True, True)))))))))"

section \<open>Sessions\<close>

definition limit_login :: "int \<Rightarrow> database \<Rightarrow> sql_error + nat \<times> database" where
  "limit_login now d =
     (let cutoff = now - LOGIN_WINDOW_SECS in
      case find (\<lambda>r. ll_bucket r = LOGIN_BUCKET) (d_login_limits d) of
        None \<Rightarrow> Inr (1, d\<lparr> d_login_limits := d_login_limits d @
          [\<lparr> ll_bucket = LOGIN_BUCKET, ll_window_start = now, ll_attempts = 1 \<rparr>] \<rparr>)
      | Some r \<Rightarrow>
          if ll_window_start r \<le> cutoff \<or> ll_attempts r < LOGIN_LIMIT
          then Inr (1, d\<lparr> d_login_limits := map (\<lambda>x. if ll_bucket x = LOGIN_BUCKET
             then x\<lparr> ll_attempts := (if ll_window_start x \<le> cutoff then 1 else ll_attempts x + 1),
                     ll_window_start := (if ll_window_start x \<le> cutoff then now else ll_window_start x) \<rparr>
             else x) (d_login_limits d) \<rparr>)
          else Inr (0, d))"

definition enforce_login_limit_at :: "int \<Rightarrow> (catalog, unit) io" where
  "enforce_login_limit_at now =
     bnd (exec_sql (catalog_err ''updating login limits'') (limit_login now)) (\<lambda>n.
     if n = 0 then raise RateLimited else ret ())"

definition enforce_login_limit :: "(catalog, unit) io" where
  "enforce_login_limit = bnd now_secs enforce_login_limit_at"

definition expire_sessions :: "int \<Rightarrow> database \<Rightarrow> sql_error + unit \<times> database" where
  "expire_sessions now d = Inr ((), d\<lparr> d_sessions := filter (\<lambda>s. now < se_expires_at s) (d_sessions d) \<rparr>)"

text \<open>The session is inserted only while the user still has the hash that was checked.\<close>

definition insert_session :: "string \<Rightarrow> int \<Rightarrow> string \<Rightarrow> string \<Rightarrow> database \<Rightarrow> sql_error + nat \<times> database" where
  "insert_session th expires_at user_id hash d =
     (let us = filter (\<lambda>r. ur_id r = user_id \<and> ur_password_hash r = hash) (d_users d) in
      if us \<noteq> [] \<and> th \<in> se_token_hash ` set (d_sessions d) then Inl Unique_Violation
      else Inr (length us, d\<lparr> d_sessions := d_sessions d @
        map (\<lambda>r. \<lparr> se_token_hash = th, se_user_id = ur_id r, se_expires_at = expires_at \<rparr>) us \<rparr>))"

definition login_check :: "auth_lib \<Rightarrow> string \<Rightarrow> string \<Rightarrow> (catalog, user \<times> string) io" where
  "login_check A username password =
     bnd (lift_res (validate_username username)) (\<lambda>_.
     bnd (lift_res (validate_password password)) (\<lambda>_.
     bnd enforce_login_limit (\<lambda>_.
     bnd (query_sql (catalog_err ''fetching user'') (user_by_name username)) (\<lambda>row.
     bnd (lift_res (case row of
            Some r \<Rightarrow> res_bind (user_from_row r) (\<lambda>u. Inr (Some u, ur_password_hash r))
          | None \<Rightarrow> Inr (None, DUMMY_HASH))) (\<lambda>(user, hash).
     case (user, verify_password A password hash) of
       (Some u, True) \<Rightarrow> ret (u, hash)
     | _ \<Rightarrow> raise Unauthorized)))))"

definition login_issue :: "foreign \<Rightarrow> auth_lib \<Rightarrow> user \<times> string \<Rightarrow> (catalog, session) io" where
  "login_issue L A = (\<lambda>(user, hash).
     bnd (fresh_token A) (\<lambda>token.
     bnd now_secs (\<lambda>now.
     let expires_at = now + SESSION_TTL_SECS in
     bnd now_secs (\<lambda>now'.
     bnd (exec_sql (catalog_err ''cleaning sessions'') (expire_sessions now')) (\<lambda>_.
     bnd (exec_sql (catalog_err ''creating session'') (insert_session (token_hash L token) expires_at (us_id user) hash)) (\<lambda>n.
     if n \<noteq> 1 then raise Unauthorized
     else ret \<lparr> ss_token = token, ss_user = user, ss_expires_at = expires_at \<rparr>))))))"

definition login :: "foreign \<Rightarrow> auth_lib \<Rightarrow> string \<Rightarrow> string \<Rightarrow> (catalog, session) io" where
  "login L A username password = bnd (login_check A username password) (login_issue L A)"

definition session_row_of :: "string \<Rightarrow> int \<Rightarrow> database \<Rightarrow> user_row option" where
  "session_row_of th now d =
     (case concat (map (\<lambda>s. if se_token_hash s = th \<and> now < se_expires_at s
                            then filter (\<lambda>u. ur_id u = se_user_id s) (d_users d) else []) (d_sessions d)) of
        [] \<Rightarrow> None | u # _ \<Rightarrow> Some u)"

definition session_user :: "foreign \<Rightarrow> string \<Rightarrow> (catalog, user) io" where
  "session_user L token =
     bnd now_secs (\<lambda>now.
     bnd (query_sql (catalog_err ''looking up session'') (session_row_of (token_hash L token) now)) (\<lambda>row.
     case row of None \<Rightarrow> raise Unauthorized | Some r \<Rightarrow> lift_res (user_from_row r)))"

definition logout :: "foreign \<Rightarrow> string \<Rightarrow> (catalog, bool) io" where
  "logout L token =
     bnd (exec_sql (catalog_err ''deleting session'') (\<lambda>d. Inr (length (filter (\<lambda>s. se_token_hash s = token_hash L token) (d_sessions d)),
       d\<lparr> d_sessions := filter (\<lambda>s. se_token_hash s \<noteq> token_hash L token) (d_sessions d) \<rparr>))) (\<lambda>n. ret (0 < n))"

end
