(* ===== verification/Api.thy ===== *)
theory Api
  imports Metrics Catalog_Auth Repo_Read Remote_Text
begin

text \<open>
  The REST API of the control plane (aegis-server/src/api.rs) over the catalog: the session
  middleware, the role gate and the handlers of hosts, jobs, policies, users, sessions and
  alerts, and the router that puts the middleware in front of the protected ones. A
  handler ends in a value or in an \<open>ApiError\<close> (HTTP status and message). What the server
  reaches outside the catalog (SSH, the environment, the repository a triggered backup
  writes to) and the text of an error are the record \<open>remote\<close>.
\<close>

section \<open>Handlers\<close>

record api_error =
  er_status :: nat
  er_message :: string

type_synonym ('e, 'a) outcome = "catalog \<Rightarrow> ('e + 'a) \<times> catalog"

type_synonym 'a handler = "(api_error, 'a) outcome"

definition unauthorized :: "string \<Rightarrow> api_error" where "unauthorized m = \<lparr> er_status = 401, er_message = m \<rparr>"
definition forbidden :: "string \<Rightarrow> api_error" where "forbidden m = \<lparr> er_status = 403, er_message = m \<rparr>"
definition bad_request :: "string \<Rightarrow> api_error" where "bad_request m = \<lparr> er_status = 400, er_message = m \<rparr>"
definition not_found :: "string \<Rightarrow> api_error" where "not_found m = \<lparr> er_status = 404, er_message = m \<rparr>"
definition too_many_requests :: "string \<Rightarrow> api_error" where "too_many_requests m = \<lparr> er_status = 429, er_message = m \<rparr>"
definition internal :: "string \<Rightarrow> api_error" where "internal m = \<lparr> er_status = 500, er_message = m \<rparr>"

definition reply :: "'a \<Rightarrow> ('e, 'a) outcome" where
  "reply a = (\<lambda>c. (Inr a, c))"

definition reject :: "'e \<Rightarrow> ('e, 'a) outcome" where
  "reject e = (\<lambda>c. (Inl e, c))"

definition then_do :: "('e, 'a) outcome \<Rightarrow> ('a \<Rightarrow> ('e, 'b) outcome) \<Rightarrow> ('e, 'b) outcome" where
  "then_do h f = (\<lambda>c. case h c of (Inl e, t) \<Rightarrow> (Inl e, t) | (Inr a, t) \<Rightarrow> f a t)"

text \<open>\<open>catalog.op().await.map_err(g)?\<close> and \<open>let _ = catalog.op().await;\<close>.\<close>

definition call :: "(error \<Rightarrow> 'e) \<Rightarrow> (catalog, 'a) io \<Rightarrow> ('e, 'a) outcome" where
  "call g m = (\<lambda>c. case m c of (Inl e, t) \<Rightarrow> (Inl (g e), t) | (Inr a, t) \<Rightarrow> (Inr a, t))"

definition ignoring :: "(catalog, 'a) io \<Rightarrow> ('e, unit) outcome" where
  "ignoring m = (\<lambda>c. (Inr (), snd (m c)))"

definition check :: "'e + 'a \<Rightarrow> ('e, 'a) outcome" where
  "check r = (\<lambda>c. (r, c))"

section \<open>The outside\<close>

text \<open>How opening the repository of a trigger fails: a location that is refused, or the server's own fault.\<close>

datatype open_fault = Bad_Location string | Own_Fault string

definition open_fault_err :: "open_fault \<Rightarrow> api_error" where
  "open_fault_err f = (case f of Bad_Location m \<Rightarrow> bad_request m | Own_Fault m \<Rightarrow> internal m)"

datatype agent_outcome = Agent_Line string | Agent_Unsupported string | Agent_Failed string

record remote =
  rm_show :: "error \<Rightarrow> string"
  rm_password :: "string option"
  rm_passphrase :: "string option"
  rm_utf8 :: "bytes \<Rightarrow> bool"
  rm_key_error :: "bytes \<Rightarrow> string option"
  rm_connect :: "host \<Rightarrow> string option"
  rm_open_repo :: "string option \<Rightarrow> open_fault + string"
  rm_agent :: "host \<Rightarrow> string list \<Rightarrow> agent_outcome"
  rm_backup :: "host \<Rightarrow> string list \<Rightarrow> string + snapshot"
  rm_find_bytes :: "string \<Rightarrow> 64 word option"
  rm_null :: "int option"
  rm_own_repo :: "string option"
  rm_restore :: "string \<Rightarrow> string \<Rightarrow> string \<Rightarrow> snapshot res"
  rm_stats :: "storage_stats res"
  rm_floats :: float_lib
  rm_uptime :: "64 word option"

definition core_err :: "remote \<Rightarrow> error \<Rightarrow> api_error" where
  "core_err E e = internal (rm_show E e)"

section \<open>Sessions and roles\<close>

text \<open>The bearer token: the header, else a \<open>token=\<close> pair of the query string.\<close>

fun query_token :: "string list \<Rightarrow> string option" where
  "query_token [] = None"
| "query_token (pair # ps) = (case split_once (CHR ''='') pair of
     Some (k, v) \<Rightarrow> if k = ''token'' then Some v else query_token ps
   | None \<Rightarrow> query_token ps)"

definition bearer :: "string option \<Rightarrow> string option" where
  "bearer header = (case header of None \<Rightarrow> None | Some v \<Rightarrow> strip_prefix v ''Bearer '')"

definition request_token :: "string option \<Rightarrow> string option \<Rightarrow> string option" where
  "request_token header query = (case bearer header of Some t \<Rightarrow> Some t
     | None \<Rightarrow> (case query of None \<Rightarrow> None | Some q \<Rightarrow> query_token (split_on (CHR ''&'') q)))"

definition require_session :: "foreign \<Rightarrow> string option \<Rightarrow> string option \<Rightarrow> user handler" where
  "require_session L header query = (case request_token header query of
     None \<Rightarrow> reject (unauthorized ''missing bearer token'')
   | Some token \<Rightarrow> call (\<lambda>_. unauthorized ''invalid or expired session'') (session_user L token))"

definition require_min_role :: "user \<Rightarrow> role \<Rightarrow> unit handler" where
  "require_min_role u least = (if least \<le> us_role u then reply () else
     reject (forbidden (''role `'' @ role_str (us_role u) @ ''` may not perform this action (requires `'' @ role_str least @ ''`)'')))"

section \<open>Values\<close>

datatype api_value =
    V_Health
  | V_Session string string int
  | V_Revoked bool
  | V_User user
  | V_Users "user list"
  | V_Removed string
  | V_Role string role
  | V_Host host
  | V_Hosts "host list"
  | V_Rotated
  | V_Tested string host_status string
  | V_Trigger string "64 word" "64 word"
  | V_Subscribed
  | V_Jobs "job list"
  | V_Policy policy
  | V_Policies "policy list"
  | V_Snapshots "snapshot_record list"
  | V_Audit "audit_entry list"
  | V_Restored string string "64 word"
  | V_Stats storage_stats
  | V_Metrics string
  | V_Alerts "(string \<times> string \<times> string \<times> int \<times> string) list"

section \<open>Users and sessions\<close>

definition api_audit_log :: "remote \<Rightarrow> api_value handler" where
  "api_audit_log E = then_do (call (core_err E) (audit_log 200)) (\<lambda>xs. reply (V_Audit xs))"

definition login_err :: "remote \<Rightarrow> error \<Rightarrow> api_error" where
  "login_err E e = (case e of
     Unauthorized \<Rightarrow> unauthorized ''invalid credentials''
   | RateLimited \<Rightarrow> too_many_requests ''try again later''
   | InvalidInput m \<Rightarrow> bad_request m
   | _ \<Rightarrow> internal (rm_show E e))"

definition api_login :: "foreign \<Rightarrow> auth_lib \<Rightarrow> remote \<Rightarrow> string \<Rightarrow> string \<Rightarrow> api_value handler" where
  "api_login L A E username password =
     then_do (call (login_err E) (login L A username password)) (\<lambda>s.
     then_do (ignoring (audit (Some (us_id (ss_user s))) ''session.login'' None)) (\<lambda>_.
     reply (V_Session (ss_token s) (us_username (ss_user s)) (ss_expires_at s))))"

definition api_logout :: "foreign \<Rightarrow> remote \<Rightarrow> string option \<Rightarrow> api_value handler" where
  "api_logout L E header = (case bearer header of
     None \<Rightarrow> reject (unauthorized ''missing bearer token'')
   | Some token \<Rightarrow>
       then_do (call (core_err E) (logout L token)) (\<lambda>revoked.
       then_do (ignoring (audit None ''session.logout'' None)) (\<lambda>_.
       reply (V_Revoked revoked))))"

definition api_me :: "user \<Rightarrow> api_value handler" where
  "api_me u = reply (V_User u)"

definition api_list_users :: "remote \<Rightarrow> user \<Rightarrow> api_value handler" where
  "api_list_users E u =
     then_do (require_min_role u Admin) (\<lambda>_.
     then_do (call (core_err E) list_users) (\<lambda>us. reply (V_Users us)))"

definition unknown_role :: "string \<Rightarrow> error \<Rightarrow> api_error" where
  "unknown_role r = (\<lambda>_. bad_request (''unknown role `'' @ r @ ''`''))"

definition input_err :: "remote \<Rightarrow> error \<Rightarrow> api_error" where
  "input_err E e = (case e of InvalidInput m \<Rightarrow> bad_request m | _ \<Rightarrow> internal (rm_show E e))"

definition api_add_user :: "auth_lib \<Rightarrow> remote \<Rightarrow> user \<Rightarrow> string \<Rightarrow> string \<Rightarrow> string \<Rightarrow> api_value handler" where
  "api_add_user A E u username password role =
     then_do (require_min_role u Admin) (\<lambda>_.
     then_do (call (unknown_role role) (lift_res (role_from_str role))) (\<lambda>ro.
     then_do (call (input_err E) (add_user_with_role A username password ro)) (\<lambda>created.
     then_do (ignoring (audit (Some (us_id u)) ''user.add'' (Some username))) (\<lambda>_.
     reply (V_User created)))))"

definition api_remove_user :: "remote \<Rightarrow> user \<Rightarrow> string \<Rightarrow> api_value handler" where
  "api_remove_user E u username =
     then_do (require_min_role u Admin) (\<lambda>_.
     if username = us_username u then reject (bad_request ''cannot remove your own account'') else
     then_do (call (core_err E) (remove_user username)) (\<lambda>removed.
     if \<not> removed then reject (not_found (''user `'' @ username @ ''` not found'')) else
     then_do (ignoring (audit (Some (us_id u)) ''user.remove'' (Some username))) (\<lambda>_.
     reply (V_Removed username))))"

definition api_set_role :: "remote \<Rightarrow> user \<Rightarrow> string \<Rightarrow> string \<Rightarrow> api_value handler" where
  "api_set_role E u username role =
     then_do (require_min_role u Admin) (\<lambda>_.
     then_do (call (unknown_role role) (lift_res (role_from_str role))) (\<lambda>ro.
     then_do (call (core_err E) (set_user_role username ro)) (\<lambda>updated.
     if \<not> updated then reject (not_found (''user `'' @ username @ ''` not found'')) else
     then_do (ignoring (audit (Some (us_id u)) ''user.role_set'' (Some (username @ ''='' @ role_str ro)))) (\<lambda>_.
     reply (V_Role username ro)))))"

section \<open>Hosts\<close>

definition api_add_host ::
  "foreign \<Rightarrow> remote \<Rightarrow> bytes \<Rightarrow> user \<Rightarrow> string \<Rightarrow> string \<Rightarrow> 16 word \<Rightarrow> string \<Rightarrow> string \<Rightarrow> string \<Rightarrow> api_value handler" where
  "api_add_host L E mk u nm address port ssh_user pem mode =
     then_do (require_min_role u Operator) (\<lambda>_.
     then_do (call (\<lambda>e. bad_request (rm_show E e)) (lift_res (mode_from_str mode))) (\<lambda>m.
     then_do (call (core_err E) (add_host L nm address port ssh_user (str_bytes pem) m mk)) (\<lambda>h.
     then_do (ignoring (audit (Some (us_id u)) ''host.add'' (Some nm))) (\<lambda>_.
     reply (V_Host h)))))"

definition api_list_hosts :: "remote \<Rightarrow> api_value handler" where
  "api_list_hosts E = then_do (call (core_err E) list_hosts) (\<lambda>hs. reply (V_Hosts hs))"

definition api_remove_host :: "remote \<Rightarrow> user \<Rightarrow> string \<Rightarrow> api_value handler" where
  "api_remove_host E u i =
     then_do (require_min_role u Operator) (\<lambda>_.
     then_do (call (core_err E) (remove_host i)) (\<lambda>removed.
     if \<not> removed then reject (not_found (''host `'' @ i @ ''` not found'')) else
     then_do (ignoring (audit (Some (us_id u)) ''host.remove'' (Some i))) (\<lambda>_.
     reply (V_Removed i))))"

definition api_rotate_host_key :: "foreign \<Rightarrow> remote \<Rightarrow> bytes \<Rightarrow> user \<Rightarrow> string \<Rightarrow> string \<Rightarrow> api_value handler" where
  "api_rotate_host_key L E mk u i pem =
     then_do (require_min_role u Admin) (\<lambda>_.
     then_do (call (\<lambda>e. not_found (rm_show E e)) (set_host_key L i (str_bytes pem) mk)) (\<lambda>_.
     then_do (ignoring (audit (Some (us_id u)) ''host.key_rotate'' (Some i))) (\<lambda>_.
     reply V_Rotated)))"

text \<open>The SSH login of a stored host: its key, else the server's password.\<close>

definition host_auth :: "remote \<Rightarrow> bytes \<Rightarrow> api_error + unit" where
  "host_auth E pem =
     (if pem = [] then (case rm_password E of
        None \<Rightarrow> Inl (bad_request ''host has no stored key and AEGIS_SSH_PASSWORD is not set on the server'')
      | Some _ \<Rightarrow> Inr ())
      else if \<not> rm_utf8 E pem then Inl (internal ''stored key is not UTF-8'')
      else (case rm_key_error E pem of Some m \<Rightarrow> Inl (internal (''decoding stored key: '' @ m)) | None \<Rightarrow> Inr ()))"

definition api_test_host :: "foreign \<Rightarrow> remote \<Rightarrow> bytes \<Rightarrow> string \<Rightarrow> api_value handler" where
  "api_test_host L E mk i =
     then_do (call (\<lambda>e. not_found (rm_show E e)) (get_host_with_key L i mk)) (\<lambda>hk.
     then_do (check (host_auth E (hk_ssh_key_pem hk))) (\<lambda>_.
     let (status, detail) = (case rm_connect E (hk_host hk) of None \<Rightarrow> (Reachable, ''connected'') | Some m \<Rightarrow> (Unreachable, m)) in
     then_do (ignoring (set_host_status i status)) (\<lambda>_.
     reply (V_Tested i status detail))))"

definition api_host_snapshots :: "remote \<Rightarrow> string \<Rightarrow> api_value handler" where
  "api_host_snapshots E i =
     then_do (call (\<lambda>_. not_found (''host `'' @ i @ ''` not found'')) (get_host i)) (\<lambda>_.
     then_do (call (core_err E) (list_snapshots_for_host (Some i) 200)) (\<lambda>xs. reply (V_Snapshots xs)))"

section \<open>Jobs and policies\<close>

definition first_word :: "string \<Rightarrow> string" where
  "first_word line = (case split_whitespace line of w # _ \<Rightarrow> w | [] \<Rightarrow> [])"

definition agentless_part :: "foreign \<Rightarrow> remote \<Rightarrow> user \<Rightarrow> string \<Rightarrow> host \<Rightarrow> string list \<Rightarrow> string \<Rightarrow> api_value handler" where
  "agentless_part L E u host_id h paths repo_location =
     then_do (check (case rm_backup E h paths of Inl m \<Rightarrow> Inl (internal (''backup failed: '' @ m)) | Inr s \<Rightarrow> Inr s)) (\<lambda>s.
     then_do (ignoring (set_host_status host_id Reachable)) (\<lambda>_.
     then_do (ignoring (record_snapshot (sn_id s) host_id [] repo_location (sint (st_bytes (sn_stats s))))) (\<lambda>_.
     then_do (ignoring (audit (Some (us_id u)) ''job.run'' (Some host_id))) (\<lambda>_.
     reply (V_Trigger (sn_id s) (st_files (sn_stats s)) (st_new_chunks (sn_stats s)))))))"

definition api_trigger ::
  "foreign \<Rightarrow> remote \<Rightarrow> bytes \<Rightarrow> user \<Rightarrow> string \<Rightarrow> string list \<Rightarrow> string option \<Rightarrow> bool \<Rightarrow> api_value handler" where
  "api_trigger L E mk u host_id paths repo agent =
     then_do (require_min_role u Operator) (\<lambda>_.
     then_do (check (case find (\<lambda>p. \<not> starts_with p ''/'') paths of
         Some p \<Rightarrow> Inl (bad_request (''remote path `'' @ p @ ''` must be absolute'')) | None \<Rightarrow> Inr ())) (\<lambda>_.
     then_do (call (\<lambda>e. not_found (rm_show E e)) (get_host_with_key L host_id mk)) (\<lambda>hk.
     then_do (check (host_auth E (hk_ssh_key_pem hk))) (\<lambda>_.
     then_do (check (case rm_passphrase E of None \<Rightarrow> Inl (internal ''AEGIS_PASSPHRASE is required'') | Some p \<Rightarrow> Inr p)) (\<lambda>_.
     then_do (check (map_sum open_fault_err id (rm_open_repo E repo))) (\<lambda>repo_location.
     if agent then (case rm_agent E (hk_host hk) paths of
         Agent_Line line \<Rightarrow>
           (let i = first_word line in
            then_do (ignoring (set_host_status host_id Reachable)) (\<lambda>_.
            then_do (ignoring (audit (Some (us_id u)) ''job.run.agent'' (Some host_id))) (\<lambda>_.
            then_do (ignoring (record_snapshot i host_id [] repo_location
              (case rm_find_bytes E i of None \<Rightarrow> 0 | Some n \<Rightarrow> sint n))) (\<lambda>_.
            reply (V_Trigger i 0 0)))))
       | Agent_Unsupported reason \<Rightarrow>
            then_do (ignoring (audit (Some (us_id u)) ''job.agent_fallback'' (Some reason))) (\<lambda>_.
            agentless_part L E u host_id (hk_host hk) paths repo_location)
       | Agent_Failed m \<Rightarrow> reject (internal (''agent backup failed: '' @ m)))
     else agentless_part L E u host_id (hk_host hk) paths repo_location))))))"

definition api_jobs_ws :: "foreign \<Rightarrow> string option \<Rightarrow> api_value handler" where
  "api_jobs_ws L token = (case token of
     None \<Rightarrow> reject (unauthorized ''missing token parameter'')
   | Some t \<Rightarrow> then_do (call (\<lambda>_. unauthorized ''invalid or expired session'') (session_user L t)) (\<lambda>_. reply V_Subscribed))"

definition api_list_jobs :: "remote \<Rightarrow> api_value handler" where
  "api_list_jobs E = then_do (call (core_err E) (list_jobs (rm_null E) None None None 100 0)) (\<lambda>js. reply (V_Jobs js))"

definition api_list_policies :: "remote \<Rightarrow> api_value handler" where
  "api_list_policies E = then_do (call (core_err E) list_policies) (\<lambda>ps. reply (V_Policies ps))"

definition api_add_policy :: "remote \<Rightarrow> user \<Rightarrow> policy \<Rightarrow> api_value handler" where
  "api_add_policy E u p =
     then_do (require_min_role u Operator) (\<lambda>_.
     then_do (call (core_err E) catalog_uuid) (\<lambda>i.
     then_do (call (input_err E) (add_policy (p\<lparr> po_id := i, po_enabled := True \<rparr>))) (\<lambda>q.
     then_do (ignoring (audit (Some (us_id u)) ''policy.add'' (Some (po_name p)))) (\<lambda>_.
     reply (V_Policy q)))))"

definition api_remove_policy :: "remote \<Rightarrow> user \<Rightarrow> string \<Rightarrow> api_value handler" where
  "api_remove_policy E u i =
     then_do (require_min_role u Operator) (\<lambda>_.
     then_do (call (core_err E) (remove_policy i)) (\<lambda>removed.
     if \<not> removed then reject (not_found (''policy `'' @ i @ ''` not found'')) else
     then_do (ignoring (audit (Some (us_id u)) ''policy.remove'' (Some i))) (\<lambda>_.
     reply (V_Removed i))))"

definition job_alert :: "job \<Rightarrow> string \<times> string \<times> string \<times> int \<times> string" where
  "job_alert j = (''job_failed'', jo_id j, jo_host_id j,
     (case jo_finished_at j of Some t \<Rightarrow> t | None \<Rightarrow> jo_started_at j),
     (case jo_error j of Some m \<Rightarrow> m | None \<Rightarrow> ''job failed''))"

definition host_alert :: "host \<Rightarrow> string \<times> string \<times> string \<times> int \<times> string" where
  "host_alert h = (''host_unreachable'', ho_id h, ho_id h, 0,
     ''host `'' @ ho_name h @ ''` was unreachable on its last run'')"

definition api_alerts :: "remote \<Rightarrow> api_value handler" where
  "api_alerts E =
     then_do (call (core_err E) (list_jobs (rm_null E) None None (Some ''failed'') 20 0)) (\<lambda>js.
     then_do (call (core_err E) list_hosts) (\<lambda>hs.
     reply (V_Alerts (map job_alert js @ map host_alert (filter (\<lambda>h. ho_status h = Unreachable) hs)))))"

section \<open>The server's own repository\<close>

text \<open>
  The repository next to the catalog is opened, or created, by each request that uses it
  (\<open>rm_own_repo\<close> is the error, if any); what a restore or the statistics then return are
  outcomes of the operations of the repository theories.
\<close>

definition own_repo :: "remote \<Rightarrow> api_error + unit" where
  "own_repo E = (case rm_own_repo E of Some m \<Rightarrow> Inl (internal m) | None \<Rightarrow> Inr ())"

definition restore_err :: "remote \<Rightarrow> string \<Rightarrow> error \<Rightarrow> api_error" where
  "restore_err E i e = (case e of
     SnapshotNotFound _ \<Rightarrow> not_found (''no snapshot matches `'' @ i @ ''`'')
   | InvalidInput m \<Rightarrow> bad_request m
   | _ \<Rightarrow> internal (''restore failed: '' @ rm_show E e))"

definition api_restore :: "remote \<Rightarrow> user \<Rightarrow> string \<Rightarrow> string \<Rightarrow> string \<Rightarrow> api_value handler" where
  "api_restore E u snapshot_id path target =
     then_do (require_min_role u Operator) (\<lambda>_.
     then_do (check (own_repo E)) (\<lambda>_.
     then_do (call (restore_err E snapshot_id) (lift_res (rm_restore E snapshot_id path target))) (\<lambda>s.
     then_do (ignoring (audit (Some (us_id u)) ''snapshot.restore'' (Some (sn_id s @ '' -> '' @ target)))) (\<lambda>_.
     reply (V_Restored (sn_id s) target (count_files s))))))"

definition api_stats :: "remote \<Rightarrow> api_value handler" where
  "api_stats E =
     then_do (check (own_repo E)) (\<lambda>_.
     then_do (call (core_err E) (lift_res (rm_stats E))) (\<lambda>s. reply (V_Stats s)))"

definition api_metrics :: "remote \<Rightarrow> api_value handler" where
  "api_metrics E =
     (let repo_bytes = (case own_repo E of Inl _ \<Rightarrow> None
        | Inr _ \<Rightarrow> (case rm_stats E of Inl _ \<Rightarrow> None | Inr s \<Rightarrow> Some (ss_bytes_stored s))) in
      then_do (call (core_err E) (render (rm_floats E) (rm_null E) repo_bytes (rm_uptime E))) (\<lambda>text. reply (V_Metrics text)))"

section \<open>The router\<close>

datatype public_request = Health | Metrics | Login string string

datatype request =
    Logout
  | Me
  | List_Users
  | Add_User string string string
  | Remove_User string
  | Set_Role string string
  | Add_Host string string "16 word" string string string
  | List_Hosts
  | Remove_Host string
  | Test_Host string
  | Rotate_Host_Key string string
  | Host_Snapshots string
  | List_Jobs
  | Jobs_Ws "string option"
  | Trigger string "string list" "string option" bool
  | List_Policies
  | Add_Policy policy
  | Remove_Policy string
  | Audit_Log
  | Restore string string string
  | Stats
  | Alerts

fun public_route :: "foreign \<Rightarrow> auth_lib \<Rightarrow> remote \<Rightarrow> public_request \<Rightarrow> api_value handler" where
  "public_route L A E Health = reply V_Health"
| "public_route L A E Metrics = api_metrics E"
| "public_route L A E (Login n pw) = api_login L A E n pw"

fun serve :: "foreign \<Rightarrow> auth_lib \<Rightarrow> remote \<Rightarrow> bytes \<Rightarrow> string option \<Rightarrow> request \<Rightarrow> user \<Rightarrow> api_value handler" where
  "serve L A E mk header Logout u = api_logout L E header"
| "serve L A E mk header Me u = api_me u"
| "serve L A E mk header List_Users u = api_list_users E u"
| "serve L A E mk header (Add_User n pw ro) u = api_add_user A E u n pw ro"
| "serve L A E mk header (Remove_User n) u = api_remove_user E u n"
| "serve L A E mk header (Set_Role n ro) u = api_set_role E u n ro"
| "serve L A E mk header (Add_Host n ad p us pem m) u = api_add_host L E mk u n ad p us pem m"
| "serve L A E mk header List_Hosts u = api_list_hosts E"
| "serve L A E mk header (Remove_Host i) u = api_remove_host E u i"
| "serve L A E mk header (Test_Host i) u = api_test_host L E mk i"
| "serve L A E mk header (Rotate_Host_Key i pem) u = api_rotate_host_key L E mk u i pem"
| "serve L A E mk header (Host_Snapshots i) u = api_host_snapshots E i"
| "serve L A E mk header List_Jobs u = api_list_jobs E"
| "serve L A E mk header (Jobs_Ws tok) u = api_jobs_ws L tok"
| "serve L A E mk header (Trigger h ps r a) u = api_trigger L E mk u h ps r a"
| "serve L A E mk header List_Policies u = api_list_policies E"
| "serve L A E mk header (Add_Policy p) u = api_add_policy E u p"
| "serve L A E mk header (Remove_Policy i) u = api_remove_policy E u i"
| "serve L A E mk header Audit_Log u = api_audit_log E"
| "serve L A E mk header (Restore i p tg) u = api_restore E u i p tg"
| "serve L A E mk header Stats u = api_stats E"
| "serve L A E mk header Alerts u = api_alerts E"

text \<open>Every other route: the session middleware, then the handler.\<close>

definition protected_route ::
  "foreign \<Rightarrow> auth_lib \<Rightarrow> remote \<Rightarrow> bytes \<Rightarrow> string option \<Rightarrow> string option \<Rightarrow> request \<Rightarrow> api_value handler" where
  "protected_route L A E mk header query req =
     then_do (require_session L header query) (serve L A E mk header req)"

end
