(* ===== verification/Jobs.thy ===== *)
theory Jobs
  imports Api Transport
begin

text \<open>
  The worker pool and the scheduler of the control plane (aegis-server/src/jobs.rs and
  scheduler.rs): a scheduled policy enqueues a task per attached host, a worker runs a task
  as a remote backup and records it in the catalog. What a worker reaches outside the
  catalog is the record \<open>worker\<close>; its errors are texts, as in the code (\<open>anyhow\<close>). The
  events a run publishes and the notification it sends are values it returns.
\<close>

section \<open>Events and tasks\<close>

record job_event =
  ev_event :: string
  ev_job_id :: string
  ev_host_id :: string
  ev_policy_id :: string
  ev_bytes_new :: "int option"
  ev_bytes_total :: "int option"
  ev_error :: "string option"

record job_task =
  jt_policy_id :: string
  jt_host_id :: string
  jt_paths_json :: string
  jt_bandwidth_limit_kbps :: "int option"
  jt_catalog_path :: string
  jt_master_key :: bytes

section \<open>The login of a host\<close>

record worker =
  wk_show :: "error \<Rightarrow> string"
  wk_password :: "string option"
  wk_decode_key :: "bytes \<Rightarrow> string + string"
  wk_open_repo :: "string \<Rightarrow> string option"
  wk_repo_location :: "string \<Rightarrow> string"
  wk_paths :: "string \<Rightarrow> string + string list"
  wk_backup :: "host_config \<Rightarrow> string list \<Rightarrow> int option \<Rightarrow> string + snapshot"

definition build_host_config :: "foreign \<Rightarrow> worker \<Rightarrow> string \<Rightarrow> bytes \<Rightarrow> (string, host_config) outcome" where
  "build_host_config L W host_id mk =
     then_do (call (wk_show W) (get_host_with_key L host_id mk)) (\<lambda>hk.
     let h = hk_host hk; pem = hk_ssh_key_pem hk in
     then_do (check (if pem = [] then Inr (Auth_Password (case wk_password W of None \<Rightarrow> [] | Some p \<Rightarrow> p))
       else map_sum id Auth_Key (wk_decode_key W pem))) (\<lambda>auth.
     reply (with_port (ho_ssh_port h) (new_config (ho_ssh_user h) (ho_address h) auth))))"

section \<open>A run\<close>

definition job_outcome :: "foreign \<Rightarrow> worker \<Rightarrow> bytes \<Rightarrow> string \<Rightarrow> string \<Rightarrow> job_task \<Rightarrow> (string, snapshot) outcome" where
  "job_outcome L W mk catalog_path job_id task =
     then_do (build_host_config L W (jt_host_id task) mk) (\<lambda>cfg.
     then_do (check (case wk_open_repo W catalog_path of Some m \<Rightarrow> Inl m | None \<Rightarrow> Inr ())) (\<lambda>_.
     then_do (check (wk_paths W (jt_paths_json task))) (\<lambda>paths.
     then_do (check (wk_backup W cfg paths (jt_bandwidth_limit_kbps task))) (\<lambda>s.
     then_do (call (wk_show W) (record_job_completed job_id (sint (st_new_bytes (sn_stats s))) (sint (st_bytes (sn_stats s))))) (\<lambda>_.
     then_do (ignoring (record_snapshot (sn_id s) (jt_host_id task) job_id (wk_repo_location W catalog_path) (sint (st_bytes (sn_stats s))))) (\<lambda>_.
     reply s))))))"

definition started_event :: "string \<Rightarrow> job_task \<Rightarrow> job_event" where
  "started_event job_id task = \<lparr> ev_event = ''started'', ev_job_id = job_id, ev_host_id = jt_host_id task,
     ev_policy_id = jt_policy_id task, ev_bytes_new = None, ev_bytes_total = None, ev_error = None \<rparr>"

definition completed_event :: "string \<Rightarrow> job_task \<Rightarrow> snapshot \<Rightarrow> job_event" where
  "completed_event job_id task s = (started_event job_id task)\<lparr> ev_event := ''completed'',
     ev_bytes_new := Some (sint (st_new_bytes (sn_stats s))), ev_bytes_total := Some (sint (st_bytes (sn_stats s))) \<rparr>"

definition failed_event :: "string \<Rightarrow> job_task \<Rightarrow> string \<Rightarrow> job_event" where
  "failed_event job_id task m = (started_event job_id task)\<lparr> ev_event := ''failed'', ev_error := Some m \<rparr>"

text \<open>The events published in order, the notification sent (if any), and the catalog.\<close>

definition run_task ::
  "foreign \<Rightarrow> worker \<Rightarrow> bytes \<Rightarrow> string \<Rightarrow> job_task \<Rightarrow> catalog \<Rightarrow> job_event list \<times> job_event option \<times> catalog" where
  "run_task L W mk catalog_path task c =
     (let job_id = c_uuids c (c_uuid_pos c); c0 = c\<lparr> c_uuid_pos := Suc (c_uuid_pos c) \<rparr> in
      case record_job_started job_id (jt_host_id task) (jt_policy_id task) c0 of
        (Inl e, t) \<Rightarrow> ([], None, snd (record_job_failed job_id (wk_show W e) t))
      | (Inr _, t) \<Rightarrow>
          (case job_outcome L W mk catalog_path job_id task t of
             (Inr s, u) \<Rightarrow> (let ev = completed_event job_id task s in ([started_event job_id task, ev], Some ev, u))
           | (Inl m, u) \<Rightarrow>
               (let ev = failed_event job_id task m in
                ([started_event job_id task, ev], Some ev, snd (record_job_failed job_id m u)))))"

section \<open>The scheduler\<close>

definition scheduled :: "policy list \<Rightarrow> policy list" where
  "scheduled ps = filter po_enabled ps"

definition task_for :: "bytes \<Rightarrow> string \<Rightarrow> policy \<Rightarrow> host \<Rightarrow> job_task" where
  "task_for mk catalog_path p h = \<lparr> jt_policy_id = po_id p, jt_host_id = ho_id h, jt_paths_json = po_paths_json p,
     jt_bandwidth_limit_kbps = po_bandwidth_limit_kbps p, jt_catalog_path = catalog_path, jt_master_key = mk \<rparr>"

definition fire :: "bytes \<Rightarrow> string \<Rightarrow> policy \<Rightarrow> (catalog, job_task list) io" where
  "fire mk catalog_path p =
     bnd (or_else (list_hosts_for_policy (po_id p)) []) (\<lambda>hosts. ret (map (task_for mk catalog_path p) hosts))"

end
