(* ===== verification/Catalog_Rules.thy ===== *)
theory Catalog_Rules
  imports Catalog_History Catalog_Auth
begin

text \<open>
  Rules for statements of the catalog. \<open>moves R m\<close> says that a run of \<open>m\<close>, whatever
  fails in it, takes the tables along the relation \<open>R\<close>; for a reflexive and transitive
  \<open>R\<close> it composes over the operations (locale \<open>table_relation\<close>), so an invariant or a
  frame of a whole operation is proved on its statements.
\<close>

section \<open>Weakest preconditions\<close>

definition healthy :: "catalog \<Rightarrow> bool" where
  "healthy c \<longleftrightarrow> list_all Not (c_fails c)"

lemma wp_exec [wp_simps]:
  "wp (exec_sql g stmt) Q c = (let t = c\<lparr> c_fails := tl (c_fails c) \<rparr> in
     if c_fails c \<noteq> [] \<and> hd (c_fails c) then Q (Inl (g Storage_Failure)) t
     else case stmt (c_db c) of Inl v \<Rightarrow> Q (Inl (g v)) t | Inr (a, d) \<Rightarrow> Q (Inr a) (t\<lparr> c_db := d \<rparr>))"
  by (auto simp: wp_def exec_sql_def Let_def split: sum.splits prod.splits)

lemma wp_now_secs [wp_simps]: "wp now_secs Q c = Q (Inr (c_clock c (c_clock_pos c))) (c\<lparr> c_clock_pos := Suc (c_clock_pos c) \<rparr>)"
  by (simp add: wp_def now_secs_def)

lemma wp_catalog_uuid [wp_simps]: "wp catalog_uuid Q c = Q (Inr (c_uuids c (c_uuid_pos c))) (c\<lparr> c_uuid_pos := Suc (c_uuid_pos c) \<rparr>)"
  by (simp add: wp_def catalog_uuid_def)

lemma wp_catalog_random [wp_simps]:
  "wp (catalog_random n) Q c = Q (Inr (map (c_rng c) [c_rng_pos c..<c_rng_pos c + n])) (c\<lparr> c_rng_pos := c_rng_pos c + n \<rparr>)"
  by (simp add: wp_def catalog_random_def)

lemma wp_in_transaction [wp_simps]:
  "wp (in_transaction m) Q c = wp m (\<lambda>r t. case r of
       Inr (a, True) \<Rightarrow> Q (Inr a) t | Inr (a, False) \<Rightarrow> Q (Inr a) (t\<lparr> c_db := c_db c \<rparr>)
     | Inl e \<Rightarrow> Q (Inl e) (t\<lparr> c_db := c_db c \<rparr>)) c"
  by (auto simp: wp_def in_transaction_def split: sum.splits prod.splits bool.splits)

section \<open>Updated rows\<close>

lemma keys_update: "(\<And>x. k (f x) = k x) \<Longrightarrow> map k (map (\<lambda>x. if P x then f x else x) xs) = map k xs"
  by (induction xs) auto

lemma keyset_update: "(\<And>x. k (f x) = k x) \<Longrightarrow> k ` set (map (\<lambda>x. if P x then f x else x) xs) = k ` set xs"
  by (metis keys_update set_map)

lemma all_update:
  "\<forall>x\<in>set xs. Q x \<Longrightarrow> (\<And>x. Q x \<Longrightarrow> P x \<Longrightarrow> Q (f x)) \<Longrightarrow> \<forall>x\<in>set (map (\<lambda>x. if P x then f x else x) xs). Q x"
  by auto

lemma at_most_one:
  assumes "distinct (map k xs)" "\<forall>x\<in>set xs. k x = i"
  shows "xs = [] \<or> (\<exists>x. xs = [x])"
proof (cases xs)
  case (Cons x ys)
  then show ?thesis using assms by (cases ys) auto
qed simp

section \<open>Relations on the tables\<close>

definition moves :: "(database \<Rightarrow> database \<Rightarrow> bool) \<Rightarrow> (catalog, 'a) io \<Rightarrow> bool" where
  "moves R m \<longleftrightarrow> (\<forall>c. wp m (\<lambda>_ t. R (c_db c) (c_db t)) c)"

definition moves_stmt :: "(database \<Rightarrow> database \<Rightarrow> bool) \<Rightarrow> (database \<Rightarrow> sql_error + 'a \<times> database) \<Rightarrow> bool" where
  "moves_stmt R stmt \<longleftrightarrow> (\<forall>d a d'. stmt d = Inr (a, d') \<longrightarrow> R d d')"

lemma moves_run: "moves R m \<Longrightarrow> m c = (r, t) \<Longrightarrow> R (c_db c) (c_db t)"
  unfolding moves_def by (metis wp_run)

lemma moves_iff: "moves R m \<longleftrightarrow> (\<forall>c r t. m c = (r, t) \<longrightarrow> R (c_db c) (c_db t))"
  by (simp add: moves_def wp_iff)

locale table_relation =
  fixes R :: "database \<Rightarrow> database \<Rightarrow> bool"
  assumes same [simp]: "R d d"
    and along: "R d e \<Longrightarrow> R e f \<Longrightarrow> R d f"
begin

lemma move_ret: "moves R (ret a)"
  by (simp add: moves_def wp_simps)

lemma move_raise: "moves R (raise e)"
  by (simp add: moves_def wp_simps)

lemma move_lift: "moves R (lift_res r)"
  by (simp add: moves_def wp_lift_res)

lemma move_try:
  assumes "moves R m" "\<And>e. moves R (h e)" "\<And>a. moves R (f a)"
  shows "moves R (try_io m h f)"
  unfolding moves_iff
proof (intro allI impI)
  fix c r t
  assume run: "try_io m h f c = (r, t)"
  obtain s u where m: "m c = (s, u)" by fastforce
  have one: "R (c_db c) (c_db u)" by (rule moves_run [OF assms(1) m])
  have "R (c_db u) (c_db t)"
    using run m moves_run [OF assms(2)] moves_run [OF assms(3)] by (cases s) (auto simp: try_io_def)
  then show "R (c_db c) (c_db t)" by (rule along [OF one])
qed

lemma move_bnd:
  assumes "moves R m" "\<And>a. moves R (f a)"
  shows "moves R (bnd m f)"
proof -
  have "bnd m f = try_io m raise f" by (rule ext) (simp add: bnd_def try_io_def raise_def split: prod.splits sum.splits)
  then show ?thesis using move_try [OF assms(1) move_raise assms(2)] by simp
qed

lemma move_attempt: "moves R m \<Longrightarrow> moves R (attempt m)"
  unfolding attempt_def by (intro move_try move_ret)

lemma move_if: "(b \<Longrightarrow> moves R m) \<Longrightarrow> (\<not> b \<Longrightarrow> moves R n) \<Longrightarrow> moves R (if b then m else n)"
  by simp

lemma move_exec: "moves_stmt R stmt \<Longrightarrow> moves R (exec_sql g stmt)"
  unfolding moves_def moves_stmt_def by (auto simp: wp_simps Let_def split: sum.splits)

lemma move_query: "moves R (query_sql g q)"
  unfolding query_sql_def by (rule move_exec) (simp add: moves_stmt_def)

lemma move_now: "moves R now_secs"
  by (simp add: moves_def wp_simps)

lemma move_uuid: "moves R catalog_uuid"
  by (simp add: moves_def wp_simps)

lemma move_random: "moves R (catalog_random n)"
  by (simp add: moves_def wp_simps)

lemma move_nothing: "moves R (exec_sql g (\<lambda>d. Inr ((), d)))"
  by (rule move_exec) (simp add: moves_stmt_def)

lemma move_transaction:
  assumes "moves R m"
  shows "moves R (in_transaction m)"
  unfolding moves_iff
proof (intro allI impI)
  fix c r t
  assume run: "in_transaction m c = (r, t)"
  obtain s u where m: "m c = (s, u)" by fastforce
  show "R (c_db c) (c_db t)"
    using run m moves_run [OF assms m] by (auto simp: in_transaction_def split: sum.splits prod.splits bool.splits)
qed

lemmas moves_intros = move_bnd move_try move_attempt move_ret move_raise move_lift move_query move_now move_uuid
  move_random move_transaction move_nothing

end

end
