(* ===== verification/Catalog_Invariant.thy ===== *)
theory Catalog_Invariant
  imports Catalog_Rules
begin

text \<open>
  What every catalog satisfies: keys are unique, references point at rows, the text of the
  enum columns parses, a job has a finish time exactly when it is not running and its byte
  counts when it is completed, the login counter stays within its limit, and no host is
  ever attached to a policy.
\<close>

section \<open>The invariant\<close>

definition hosts_ok :: "database \<Rightarrow> bool" where
  "hosts_ok d \<longleftrightarrow> distinct (map hr_id (d_hosts d)) \<and> (\<forall>h\<in>set (d_hosts d). is_ok (host_from_row h))"

definition policies_ok :: "database \<Rightarrow> bool" where
  "policies_ok d \<longleftrightarrow> distinct (map po_id (d_policies d)) \<and> d_host_policies d = []"

definition job_status_ok :: "job_row \<Rightarrow> bool" where
  "job_status_ok j \<longleftrightarrow> (jr_status j = ''running'' \<and> jr_finished_at j = None)
     \<or> ((jr_status j = ''completed'' \<or> jr_status j = ''failed'') \<and> jr_finished_at j \<noteq> None)"

text \<open>A completed job has its byte counts, and no job has one of them only.\<close>

definition job_bytes_ok :: "job_row \<Rightarrow> bool" where
  "job_bytes_ok j \<longleftrightarrow> (jr_bytes_new j = None \<longleftrightarrow> jr_bytes_total j = None)
     \<and> (jr_status j = ''completed'' \<longrightarrow> jr_bytes_new j \<noteq> None)"

definition jobs_ok :: "database \<Rightarrow> bool" where
  "jobs_ok d \<longleftrightarrow> distinct (map jr_id (d_jobs d))
     \<and> (\<forall>j\<in>set (d_jobs d). jr_id j \<noteq> [] \<and> jr_host_id j \<in> hr_id ` set (d_hosts d)
          \<and> jr_policy_id j \<in> po_id ` set (d_policies d) \<and> job_status_ok j \<and> job_bytes_ok j)"

definition snapshots_ok :: "database \<Rightarrow> bool" where
  "snapshots_ok d \<longleftrightarrow> distinct (map sr_id (d_snapshots d))
     \<and> (\<forall>s\<in>set (d_snapshots d). sr_host_id s \<in> hr_id ` set (d_hosts d) \<and> sr_job_id s \<in> jr_id ` set (d_jobs d))"

definition users_ok :: "database \<Rightarrow> bool" where
  "users_ok d \<longleftrightarrow> distinct (map ur_id (d_users d)) \<and> distinct (map ur_username (d_users d))
     \<and> (\<forall>u\<in>set (d_users d). is_ok (role_from_str (ur_role u)) \<and> validate_username (ur_username u) = Inr ())"

definition sessions_ok :: "database \<Rightarrow> bool" where
  "sessions_ok d \<longleftrightarrow> distinct (map se_token_hash (d_sessions d))
     \<and> (\<forall>s\<in>set (d_sessions d). se_user_id s \<in> ur_id ` set (d_users d))"

definition limits_ok :: "database \<Rightarrow> bool" where
  "limits_ok d \<longleftrightarrow> d_login_limits d = []
     \<or> (\<exists>r. d_login_limits d = [r] \<and> ll_bucket r = LOGIN_BUCKET \<and> 1 \<le> ll_attempts r \<and> ll_attempts r \<le> LOGIN_LIMIT)"

definition db_ok :: "database \<Rightarrow> bool" where
  "db_ok d \<longleftrightarrow> hosts_ok d \<and> policies_ok d \<and> jobs_ok d \<and> snapshots_ok d \<and> users_ok d \<and> sessions_ok d \<and> limits_ok d"

lemmas db_ok_defs = db_ok_def hosts_ok_def policies_ok_def jobs_ok_def snapshots_ok_def users_ok_def sessions_ok_def limits_ok_def

definition keeps_ok :: "database \<Rightarrow> database \<Rightarrow> bool" where
  "keeps_ok d d' \<longleftrightarrow> (db_ok d \<longrightarrow> db_ok d')"

lemma empty_ok: "db_ok empty_database"
  by (simp add: db_ok_defs empty_database_def)

text \<open>Each part of the invariant looks at its own tables only.\<close>

lemma hosts_frame [simp]:
  "hosts_ok (d\<lparr> d_policies := x_d_policies \<rparr>) = hosts_ok d"
  "hosts_ok (d\<lparr> d_host_policies := x_d_host_policies \<rparr>) = hosts_ok d"
  "hosts_ok (d\<lparr> d_jobs := x_d_jobs \<rparr>) = hosts_ok d"
  "hosts_ok (d\<lparr> d_snapshots := x_d_snapshots \<rparr>) = hosts_ok d"
  "hosts_ok (d\<lparr> d_users := x_d_users \<rparr>) = hosts_ok d"
  "hosts_ok (d\<lparr> d_sessions := x_d_sessions \<rparr>) = hosts_ok d"
  "hosts_ok (d\<lparr> d_login_limits := x_d_login_limits \<rparr>) = hosts_ok d"
  "hosts_ok (d\<lparr> d_audit_log := x_d_audit_log \<rparr>) = hosts_ok d"
  by (simp_all add: hosts_ok_def)

lemma policies_frame [simp]:
  "policies_ok (d\<lparr> d_hosts := x_d_hosts \<rparr>) = policies_ok d"
  "policies_ok (d\<lparr> d_jobs := x_d_jobs \<rparr>) = policies_ok d"
  "policies_ok (d\<lparr> d_snapshots := x_d_snapshots \<rparr>) = policies_ok d"
  "policies_ok (d\<lparr> d_users := x_d_users \<rparr>) = policies_ok d"
  "policies_ok (d\<lparr> d_sessions := x_d_sessions \<rparr>) = policies_ok d"
  "policies_ok (d\<lparr> d_login_limits := x_d_login_limits \<rparr>) = policies_ok d"
  "policies_ok (d\<lparr> d_audit_log := x_d_audit_log \<rparr>) = policies_ok d"
  by (simp_all add: policies_ok_def)

lemma jobs_frame [simp]:
  "jobs_ok (d\<lparr> d_host_policies := x_d_host_policies \<rparr>) = jobs_ok d"
  "jobs_ok (d\<lparr> d_snapshots := x_d_snapshots \<rparr>) = jobs_ok d"
  "jobs_ok (d\<lparr> d_users := x_d_users \<rparr>) = jobs_ok d"
  "jobs_ok (d\<lparr> d_sessions := x_d_sessions \<rparr>) = jobs_ok d"
  "jobs_ok (d\<lparr> d_login_limits := x_d_login_limits \<rparr>) = jobs_ok d"
  "jobs_ok (d\<lparr> d_audit_log := x_d_audit_log \<rparr>) = jobs_ok d"
  by (simp_all add: jobs_ok_def)

lemma snapshots_frame [simp]:
  "snapshots_ok (d\<lparr> d_policies := x_d_policies \<rparr>) = snapshots_ok d"
  "snapshots_ok (d\<lparr> d_host_policies := x_d_host_policies \<rparr>) = snapshots_ok d"
  "snapshots_ok (d\<lparr> d_users := x_d_users \<rparr>) = snapshots_ok d"
  "snapshots_ok (d\<lparr> d_sessions := x_d_sessions \<rparr>) = snapshots_ok d"
  "snapshots_ok (d\<lparr> d_login_limits := x_d_login_limits \<rparr>) = snapshots_ok d"
  "snapshots_ok (d\<lparr> d_audit_log := x_d_audit_log \<rparr>) = snapshots_ok d"
  by (simp_all add: snapshots_ok_def)

lemma users_frame [simp]:
  "users_ok (d\<lparr> d_hosts := x_d_hosts \<rparr>) = users_ok d"
  "users_ok (d\<lparr> d_policies := x_d_policies \<rparr>) = users_ok d"
  "users_ok (d\<lparr> d_host_policies := x_d_host_policies \<rparr>) = users_ok d"
  "users_ok (d\<lparr> d_jobs := x_d_jobs \<rparr>) = users_ok d"
  "users_ok (d\<lparr> d_snapshots := x_d_snapshots \<rparr>) = users_ok d"
  "users_ok (d\<lparr> d_sessions := x_d_sessions \<rparr>) = users_ok d"
  "users_ok (d\<lparr> d_login_limits := x_d_login_limits \<rparr>) = users_ok d"
  "users_ok (d\<lparr> d_audit_log := x_d_audit_log \<rparr>) = users_ok d"
  by (simp_all add: users_ok_def)

lemma sessions_frame [simp]:
  "sessions_ok (d\<lparr> d_hosts := x_d_hosts \<rparr>) = sessions_ok d"
  "sessions_ok (d\<lparr> d_policies := x_d_policies \<rparr>) = sessions_ok d"
  "sessions_ok (d\<lparr> d_host_policies := x_d_host_policies \<rparr>) = sessions_ok d"
  "sessions_ok (d\<lparr> d_jobs := x_d_jobs \<rparr>) = sessions_ok d"
  "sessions_ok (d\<lparr> d_snapshots := x_d_snapshots \<rparr>) = sessions_ok d"
  "sessions_ok (d\<lparr> d_login_limits := x_d_login_limits \<rparr>) = sessions_ok d"
  "sessions_ok (d\<lparr> d_audit_log := x_d_audit_log \<rparr>) = sessions_ok d"
  by (simp_all add: sessions_ok_def)

lemma limits_frame [simp]:
  "limits_ok (d\<lparr> d_hosts := x_d_hosts \<rparr>) = limits_ok d"
  "limits_ok (d\<lparr> d_policies := x_d_policies \<rparr>) = limits_ok d"
  "limits_ok (d\<lparr> d_host_policies := x_d_host_policies \<rparr>) = limits_ok d"
  "limits_ok (d\<lparr> d_jobs := x_d_jobs \<rparr>) = limits_ok d"
  "limits_ok (d\<lparr> d_snapshots := x_d_snapshots \<rparr>) = limits_ok d"
  "limits_ok (d\<lparr> d_users := x_d_users \<rparr>) = limits_ok d"
  "limits_ok (d\<lparr> d_sessions := x_d_sessions \<rparr>) = limits_ok d"
  "limits_ok (d\<lparr> d_audit_log := x_d_audit_log \<rparr>) = limits_ok d"
  by (simp_all add: limits_ok_def)

section \<open>Statements keep it\<close>

lemma mode_roundtrip [simp]: "mode_from_str (mode_str m) = Inr m"
  by (cases m) (simp_all add: mode_from_str_def)

lemma status_roundtrip [simp]: "status_from_str (status_str s) = Inr s"
  by (cases s) (simp_all add: status_from_str_def)

lemma role_roundtrip [simp]: "role_from_str (role_str r) = Inr r"
  by (cases r) (simp_all add: role_from_str_def)

lemma insert_host_keeps:
  assumes "is_ok (host_from_row row)"
  shows "moves_stmt keeps_ok (insert_host row)"
  unfolding moves_stmt_def keeps_ok_def
proof (intro allI impI)
  fix d n d'
  assume u: "insert_host row d = Inr (n, d')" and ok: "db_ok d"
  then have new: "hr_id row \<notin> hr_id ` set (d_hosts d)" and d': "d' = d\<lparr> d_hosts := d_hosts d @ [row] \<rparr>"
    by (auto simp: insert_host_def split: if_splits)
  have "hosts_ok d'" using ok new assms by (simp add: db_ok_def hosts_ok_def d')
  moreover have "jobs_ok d'" "snapshots_ok d'" using ok by (simp_all add: db_ok_def jobs_ok_def snapshots_ok_def d')
  moreover have "policies_ok d'" "users_ok d'" "sessions_ok d'" "limits_ok d'" using ok by (simp_all add: db_ok_def d')
  ultimately show "db_ok d'" by (simp add: db_ok_def)
qed

lemma update_hosts_keeps:
  assumes "\<And>h. hr_id (f h) = hr_id h" "\<And>h. is_ok (host_from_row h) \<Longrightarrow> is_ok (host_from_row (f h))"
  shows "moves_stmt keeps_ok (update_hosts i f)"
  unfolding moves_stmt_def keeps_ok_def
proof (intro allI impI)
  fix d n d'
  assume u: "update_hosts i f d = Inr (n, d')" and ok: "db_ok d"
  let ?g = "\<lambda>h. if hr_id h = i then f h else h"
  have d': "d' = d\<lparr> d_hosts := map ?g (d_hosts d) \<rparr>" using u by (simp add: update_hosts_def)
  have rows: "d_hosts d' = map ?g (d_hosts d)" by (simp add: d')
  have ids: "map hr_id (d_hosts d') = map hr_id (d_hosts d)" unfolding rows by (rule keys_update) (simp add: assms)
  have set: "hr_id ` set (d_hosts d') = hr_id ` set (d_hosts d)" by (metis ids set_map)
  have "\<forall>h\<in>set (d_hosts d). is_ok (host_from_row h)" using ok by (simp add: db_ok_def hosts_ok_def)
  then have "\<forall>h\<in>set (d_hosts d'). is_ok (host_from_row h)" unfolding rows by (rule all_update) (rule assms(2))
  then have "hosts_ok d'" using ok ids by (simp add: db_ok_def hosts_ok_def)
  moreover have "jobs_ok d'" "snapshots_ok d'" using ok set by (simp_all add: db_ok_def jobs_ok_def snapshots_ok_def d')
  moreover have "policies_ok d'" "users_ok d'" "sessions_ok d'" "limits_ok d'" using ok by (simp_all add: db_ok_def d')
  ultimately show "db_ok d'" by (simp add: db_ok_def)
qed

lemma delete_host_keeps: "moves_stmt keeps_ok (delete_host i)"
  unfolding moves_stmt_def keeps_ok_def
proof (intro allI impI)
  fix d n d'
  assume u: "delete_host i d = Inr (n, d')" and ok: "db_ok d"
  then have d': "d' = d\<lparr> d_hosts := filter (\<lambda>h. hr_id h \<noteq> i) (d_hosts d) \<rparr>"
    and free: "\<not> host_referenced d i \<or> i \<notin> hr_id ` set (d_hosts d)"
    by (auto simp: delete_host_def Let_def filter_empty_conv split: if_splits)
  have set: "hr_id ` set (d_hosts d') = hr_id ` set (d_hosts d) - {i}" by (auto simp: d')
  have j: "\<forall>j\<in>set (d_jobs d). jr_host_id j \<noteq> i" "\<forall>s\<in>set (d_snapshots d). sr_host_id s \<noteq> i"
    using free ok by (auto simp: host_referenced_def db_ok_defs)
  have "hosts_ok d'" using ok by (auto simp: db_ok_defs d' distinct_map_filter)
  moreover have "jobs_ok d'" using ok j(1) set by (simp add: db_ok_def jobs_ok_def d')
  moreover have "snapshots_ok d'" using ok j(2) set by (simp add: db_ok_def snapshots_ok_def d')
  moreover have "policies_ok d'" "users_ok d'" "sessions_ok d'" "limits_ok d'" using ok by (simp_all add: db_ok_def d')
  ultimately show "db_ok d'" by (simp add: db_ok_def)
qed

lemma insert_policy_keeps: "moves_stmt keeps_ok (insert_policy p)"
  by (auto simp: moves_stmt_def keeps_ok_def db_ok_def insert_policy_def policies_ok_def jobs_ok_def split: if_splits)

lemma update_policies_keeps:
  assumes "\<And>q. po_id (f q) = po_id q"
  shows "moves_stmt keeps_ok (\<lambda>d. Inr ((), d\<lparr> d_policies := map (\<lambda>q. if P q then f q else q) (d_policies d) \<rparr>))"
  using keys_update [of po_id f, OF assms] keyset_update [of po_id f, OF assms]
  by (auto simp: moves_stmt_def keeps_ok_def db_ok_def policies_ok_def jobs_ok_def simp del: map_map set_map)

lemma delete_policy_keeps: "moves_stmt keeps_ok (delete_policy i)"
  unfolding moves_stmt_def keeps_ok_def
proof (intro allI impI)
  fix d n d'
  assume u: "delete_policy i d = Inr (n, d')" and ok: "db_ok d"
  then have d': "d' = d\<lparr> d_policies := filter (\<lambda>h. po_id h \<noteq> i) (d_policies d) \<rparr>"
    and free: "\<not> policy_referenced d i \<or> i \<notin> po_id ` set (d_policies d)"
    by (auto simp: delete_policy_def Let_def filter_empty_conv split: if_splits)
  have set: "po_id ` set (d_policies d') = po_id ` set (d_policies d) - {i}" by (auto simp: d')
  have j: "\<forall>j\<in>set (d_jobs d). jr_policy_id j \<noteq> i" using free ok by (auto simp: policy_referenced_def db_ok_defs)
  have "policies_ok d'" using ok by (auto simp: db_ok_defs d' distinct_map_filter)
  moreover have "jobs_ok d'" using ok j set by (simp add: db_ok_def jobs_ok_def d')
  moreover have "hosts_ok d'" "snapshots_ok d'" "users_ok d'" "sessions_ok d'" "limits_ok d'" using ok by (simp_all add: db_ok_def d')
  ultimately show "db_ok d'" by (simp add: db_ok_def)
qed

lemma insert_job_keeps:
  "jr_id j \<noteq> [] \<Longrightarrow> job_status_ok j \<Longrightarrow> job_bytes_ok j \<Longrightarrow> moves_stmt keeps_ok (insert_job j)"
  by (auto simp: moves_stmt_def keeps_ok_def db_ok_def insert_job_def jobs_ok_def snapshots_ok_def split: if_splits)

lemma update_jobs_keeps:
  assumes "\<And>j. jr_id (f j) = jr_id j \<and> jr_host_id (f j) = jr_host_id j \<and> jr_policy_id (f j) = jr_policy_id j \<and> job_status_ok (f j)"
    and "\<And>j. job_bytes_ok j \<Longrightarrow> job_bytes_ok (f j)"
  shows "moves_stmt keeps_ok (update_jobs i f)"
  unfolding moves_stmt_def keeps_ok_def
proof (intro allI impI)
  fix d n d'
  assume u: "update_jobs i f d = Inr (n, d')" and ok: "db_ok d"
  let ?g = "\<lambda>j. if jr_id j = i then f j else j"
  have d': "d' = d\<lparr> d_jobs := map ?g (d_jobs d) \<rparr>" using u by (simp add: update_jobs_def)
  have rows: "d_jobs d' = map ?g (d_jobs d)" by (simp add: d')
  have ids: "map jr_id (d_jobs d') = map jr_id (d_jobs d)" unfolding rows by (rule keys_update) (simp add: assms)
  have set: "jr_id ` set (d_jobs d') = jr_id ` set (d_jobs d)" by (metis ids set_map)
  have "\<forall>j\<in>set (d_jobs d). jr_id j \<noteq> [] \<and> jr_host_id j \<in> hr_id ` set (d_hosts d)
          \<and> jr_policy_id j \<in> po_id ` set (d_policies d) \<and> job_status_ok j \<and> job_bytes_ok j" using ok by (simp add: db_ok_defs)
  then have "\<forall>j\<in>set (d_jobs d'). jr_id j \<noteq> [] \<and> jr_host_id j \<in> hr_id ` set (d_hosts d)
          \<and> jr_policy_id j \<in> po_id ` set (d_policies d) \<and> job_status_ok j \<and> job_bytes_ok j"
    unfolding rows by (rule all_update) (use assms in simp)
  moreover have "d_hosts d' = d_hosts d" "d_policies d' = d_policies d" by (simp_all add: d')
  ultimately have "jobs_ok d'" using ok ids by (simp add: db_ok_def jobs_ok_def)
  moreover have "d_snapshots d' = d_snapshots d" "d_hosts d' = d_hosts d" by (simp_all add: d')
  then have "snapshots_ok d'" using ok set by (simp add: db_ok_def snapshots_ok_def)
  moreover have "hosts_ok d'" "policies_ok d'" "users_ok d'" "sessions_ok d'" "limits_ok d'" using ok by (simp_all add: db_ok_def d')
  ultimately show "db_ok d'" by (simp add: db_ok_def)
qed

lemma insert_snapshot_keeps: "moves_stmt keeps_ok (insert_snapshot s)"
  by (auto simp: moves_stmt_def keeps_ok_def db_ok_def insert_snapshot_def snapshots_ok_def split: if_splits)

lemma insert_user_keeps:
  "is_ok (role_from_str (ur_role u)) \<Longrightarrow> validate_username (ur_username u) = Inr () \<Longrightarrow> moves_stmt keeps_ok (insert_user u)"
  by (auto simp: moves_stmt_def keeps_ok_def db_ok_def insert_user_def users_ok_def sessions_ok_def split: if_splits)

lemma update_users_keeps:
  assumes "\<And>u. ur_id (f u) = ur_id u \<and> ur_username (f u) = ur_username u"
    and "\<And>u. is_ok (role_from_str (ur_role u)) \<Longrightarrow> is_ok (role_from_str (ur_role (f u)))"
  shows "moves_stmt keeps_ok (update_users n f)"
  unfolding moves_stmt_def keeps_ok_def
proof (intro allI impI)
  fix d m d'
  assume u: "update_users n f d = Inr (m, d')" and ok: "db_ok d"
  let ?g = "\<lambda>u. if ur_username u = n then f u else u"
  have d': "d' = d\<lparr> d_users := map ?g (d_users d) \<rparr>" using u by (simp add: update_users_def)
  have rows: "d_users d' = map ?g (d_users d)" by (simp add: d')
  have ids: "map ur_id (d_users d') = map ur_id (d_users d)" "map ur_username (d_users d') = map ur_username (d_users d)"
    unfolding rows by (rule keys_update, simp add: assms)+
  have set: "ur_id ` set (d_users d') = ur_id ` set (d_users d)" by (metis ids(1) set_map)
  have "\<forall>u\<in>set (d_users d). is_ok (role_from_str (ur_role u)) \<and> validate_username (ur_username u) = Inr ()"
    using ok by (simp add: db_ok_defs)
  then have "\<forall>u\<in>set (d_users d'). is_ok (role_from_str (ur_role u)) \<and> validate_username (ur_username u) = Inr ()"
    unfolding rows by (rule all_update) (use assms in simp)
  then have "users_ok d'" using ok ids by (simp add: db_ok_def users_ok_def)
  moreover have "d_sessions d' = d_sessions d" by (simp add: d')
  then have "sessions_ok d'" using ok set by (simp add: db_ok_def sessions_ok_def)
  moreover have "hosts_ok d'" "policies_ok d'" "jobs_ok d'" "snapshots_ok d'" "limits_ok d'" using ok by (simp_all add: db_ok_def d')
  ultimately show "db_ok d'" by (simp add: db_ok_def)
qed

lemma delete_user_keeps: "moves_stmt keeps_ok (delete_user n)"
  unfolding moves_stmt_def keeps_ok_def
proof (intro allI impI)
  fix d m d'
  assume u: "delete_user n d = Inr (m, d')" and ok: "db_ok d"
  then have d': "d' = d\<lparr> d_users := filter (\<lambda>r. ur_username r \<noteq> n) (d_users d),
      d_sessions := filter (\<lambda>s. se_user_id s \<notin> ur_id ` {r \<in> set (d_users d). ur_username r = n}) (d_sessions d) \<rparr>"
    by (simp add: delete_user_def Let_def)
  have "users_ok d'" using ok by (auto simp: db_ok_defs d' distinct_map_filter)
  moreover have "sessions_ok d'"
  proof -
    have "se_user_id s \<in> ur_id ` set (d_users d')" if "s \<in> set (d_sessions d')" for s
    proof -
      have "se_user_id s \<in> ur_id ` set (d_users d)" using that ok by (simp add: db_ok_defs d')
      then obtain v where v: "v \<in> set (d_users d)" "se_user_id s = ur_id v" by blast
      then have "ur_username v \<noteq> n" using that by (auto simp: d')
      then show ?thesis using v by (simp add: d')
    qed
    then show ?thesis using ok by (simp add: sessions_ok_def db_ok_def d' distinct_map_filter)
  qed
  moreover have "hosts_ok d'" "policies_ok d'" "jobs_ok d'" "snapshots_ok d'" "limits_ok d'" using ok by (simp_all add: db_ok_def d')
  ultimately show "db_ok d'" by (simp add: db_ok_def)
qed

lemma filter_sessions_keeps: "moves_stmt keeps_ok (\<lambda>d. Inr (f d, d\<lparr> d_sessions := filter (P d) (d_sessions d) \<rparr>))"
  by (auto simp: moves_stmt_def keeps_ok_def db_ok_def sessions_ok_def distinct_map_filter)

lemma insert_session_keeps: "moves_stmt keeps_ok (insert_session th ex i h)"
  unfolding moves_stmt_def keeps_ok_def
proof (intro allI impI)
  fix d m d'
  assume u: "insert_session th ex i h d = Inr (m, d')" and ok: "db_ok d"
  let ?us = "filter (\<lambda>r. ur_id r = i \<and> ur_password_hash r = h) (d_users d)"
  have new: "?us = [] \<or> th \<notin> se_token_hash ` set (d_sessions d)"
    and d': "d' = d\<lparr> d_sessions := d_sessions d @ map (\<lambda>r. \<lparr> se_token_hash = th, se_user_id = ur_id r, se_expires_at = ex \<rparr>) ?us \<rparr>"
    using u by (auto simp: insert_session_def Let_def split: if_splits)
  have "distinct (map ur_id ?us)" using ok by (simp add: db_ok_def users_ok_def distinct_map_filter)
  moreover have "\<forall>u\<in>set ?us. ur_id u = i" by simp
  ultimately consider "?us = []" | u where "?us = [u]"
    using at_most_one [of ur_id ?us i] by blast
  then have "sessions_ok d'"
  proof cases
    case 1
    then show ?thesis using ok unfolding d' 1 by (simp add: db_ok_def)
  next
    case (2 u)
    then have "u \<in> set ?us" by simp
    then have "u \<in> set (d_users d)" by simp
    then show ?thesis using ok new unfolding d' 2 by (simp add: db_ok_def sessions_ok_def)
  qed
  moreover have "hosts_ok d'" "policies_ok d'" "jobs_ok d'" "snapshots_ok d'" "users_ok d'" "limits_ok d'" using ok by (simp_all add: db_ok_def d')
  ultimately show "db_ok d'" by (simp add: db_ok_def)
qed

lemma limit_login_keeps: "moves_stmt keeps_ok (limit_login now)"
  unfolding moves_stmt_def keeps_ok_def
proof (intro allI impI)
  fix d m d'
  assume u: "limit_login now d = Inr (m, d')" and ok: "db_ok d"
  have rest: "d' = d\<lparr> d_login_limits := d_login_limits d' \<rparr>"
    using u by (auto simp: limit_login_def Let_def split: option.splits if_splits)
  have "limits_ok d" using ok by (simp add: db_ok_def)
  then have "limits_ok d'"
    using u by (auto simp: limits_ok_def limit_login_def Let_def LOGIN_LIMIT_def split: if_splits)
  moreover have "hosts_ok d'" "policies_ok d'" "jobs_ok d'" "snapshots_ok d'" "users_ok d'" "sessions_ok d'"
    using ok by (subst rest, simp add: db_ok_def)+
  ultimately show "db_ok d'" by (simp add: db_ok_def)
qed

lemma audit_keeps: "moves_stmt keeps_ok (\<lambda>d. if P d then Inl e else Inr ((), d\<lparr> d_audit_log := f d \<rparr>))"
  by (auto simp: moves_stmt_def keeps_ok_def db_ok_def split: if_splits)

end
