(* ===== verification/Catalog_Machine.thy ===== *)
theory Catalog_Machine
  imports Catalog_Invariant
begin

text \<open>
  The catalog as a state machine: \<open>catalog_step\<close> is one call of its interface with any
  arguments (a job id is not empty: every caller passes a fresh UUID), any failures of its statements and any clock (a login is two calls, so that others can
  come between its check and the creation of its session), and the reachable states are
  those some sequence of calls leads to from the empty schema. Every reachable state
  satisfies the invariant.
\<close>

section \<open>The machine\<close>

inductive catalog_step :: "foreign \<Rightarrow> auth_lib \<Rightarrow> catalog \<Rightarrow> catalog \<Rightarrow> bool" for L A where
  idle: "c_db t = c_db c \<Longrightarrow> catalog_step L A c t"
| add_host: "add_host L nm ad p us pem mode key c = (r, t) \<Longrightarrow> catalog_step L A c t"
| set_host_status: "set_host_status i st c = (r, t) \<Longrightarrow> catalog_step L A c t"
| set_host_key: "set_host_key L i pem key c = (r, t) \<Longrightarrow> catalog_step L A c t"
| remove_host: "remove_host i c = (r, t) \<Longrightarrow> catalog_step L A c t"
| audit: "audit u a d c = (r, t) \<Longrightarrow> catalog_step L A c t"
| add_policy: "add_policy p c = (r, t) \<Longrightarrow> catalog_step L A c t"
| update_policy: "update_policy i p c = (r, t) \<Longrightarrow> catalog_step L A c t"
| remove_policy: "remove_policy i c = (r, t) \<Longrightarrow> catalog_step L A c t"
| record_job_started: "j \<noteq> [] \<Longrightarrow> record_job_started j h p c = (r, t) \<Longrightarrow> catalog_step L A c t"
| record_job_completed: "record_job_completed j m n c = (r, t) \<Longrightarrow> catalog_step L A c t"
| record_job_failed: "record_job_failed j msg c = (r, t) \<Longrightarrow> catalog_step L A c t"
| record_snapshot: "record_snapshot s h j ref n c = (r, t) \<Longrightarrow> catalog_step L A c t"
| add_user: "add_user_with_role A u pw ro c = (r, t) \<Longrightarrow> catalog_step L A c t"
| set_user_role: "set_user_role u ro c = (r, t) \<Longrightarrow> catalog_step L A c t"
| remove_user: "remove_user u c = (r, t) \<Longrightarrow> catalog_step L A c t"
| set_user_password: "set_user_password A u pw c = (r, t) \<Longrightarrow> catalog_step L A c t"
| login_check: "login_check A u pw c = (r, t) \<Longrightarrow> catalog_step L A c t"
| login_issue: "login_issue L A x c = (r, t) \<Longrightarrow> catalog_step L A c t"
| logout: "logout L tok c = (r, t) \<Longrightarrow> catalog_step L A c t"

definition reachable :: "foreign \<Rightarrow> auth_lib \<Rightarrow> catalog \<Rightarrow> bool" where
  "reachable L A c \<longleftrightarrow> (\<exists>c0. c_db c0 = empty_database \<and> (catalog_step L A)\<^sup>*\<^sup>* c0 c)"

section \<open>Relations every step follows\<close>

text \<open>
  A relation on the tables that every statement of the catalog follows is followed by
  every step: the proof is by the operations' statements, once for all such relations.
\<close>

definition new_host :: "string \<Rightarrow> string \<Rightarrow> string \<Rightarrow> 16 word \<Rightarrow> string \<Rightarrow> bytes \<Rightarrow> backup_mode \<Rightarrow> int \<Rightarrow> host_row" where
  "new_host i nm ad p us blob m t = \<lparr> hr_id = i, hr_name = nm, hr_address = ad, hr_ssh_port = uint p, hr_ssh_user = us,
     hr_ssh_key_encrypted = blob, hr_mode = mode_str m, hr_status = status_str Unknown, hr_created_at = t \<rparr>"

definition new_job :: "string \<Rightarrow> string \<Rightarrow> string \<Rightarrow> int \<Rightarrow> job_row" where
  "new_job j h p now = \<lparr> jr_id = j, jr_host_id = h, jr_policy_id = p, jr_status = ''running'', jr_started_at = now,
     jr_finished_at = None, jr_bytes_new = None, jr_bytes_total = None, jr_error = None \<rparr>"

definition new_user :: "string \<Rightarrow> string \<Rightarrow> string \<Rightarrow> role \<Rightarrow> user_row" where
  "new_user i u h ro = \<lparr> ur_id = i, ur_username = u, ur_password_hash = h, ur_role = role_str ro \<rparr>"

locale machine_relation = table_relation R for R :: "database \<Rightarrow> database \<Rightarrow> bool" +
  assumes s_insert_host: "moves_stmt R (insert_host (new_host i nm ad p us blob m t))"
    and s_host_status: "moves_stmt R (update_hosts i (\<lambda>h. h\<lparr> hr_status := status_str st \<rparr>))"
    and s_host_key: "moves_stmt R (update_hosts i (\<lambda>h. h\<lparr> hr_ssh_key_encrypted := blob \<rparr>))"
    and s_delete_host: "moves_stmt R (delete_host i)"
    and s_audit: "moves_stmt R (\<lambda>d. if P d then Inl e else Inr ((), d\<lparr> d_audit_log := f d \<rparr>))"
    and s_insert_policy: "moves_stmt R (insert_policy q)"
    and s_update_policies: "moves_stmt R (\<lambda>d. Inr ((), d\<lparr> d_policies := map (\<lambda>x. if po_id x = i then q\<lparr> po_id := i \<rparr> else x) (d_policies d) \<rparr>))"
    and s_delete_policy: "moves_stmt R (delete_policy i)"
    and s_insert_job: "j \<noteq> [] \<Longrightarrow> moves_stmt R (insert_job (new_job j h pl t))"
    and s_complete: "moves_stmt R (update_jobs i (\<lambda>j. j\<lparr> jr_status := ''completed'', jr_finished_at := Some t, jr_bytes_new := Some x, jr_bytes_total := Some y \<rparr>))"
    and s_fail: "moves_stmt R (update_jobs i (\<lambda>j. j\<lparr> jr_status := ''failed'', jr_finished_at := Some t, jr_error := Some msg \<rparr>))"
    and s_insert_snapshot: "moves_stmt R (insert_snapshot s)"
    and s_insert_user: "validate_username u = Inr () \<Longrightarrow> moves_stmt R (insert_user (new_user i u hash ro))"
    and s_role: "moves_stmt R (update_users u (\<lambda>r. r\<lparr> ur_role := role_str ro \<rparr>))"
    and s_password: "moves_stmt R (update_users u (\<lambda>r. r\<lparr> ur_password_hash := hash \<rparr>))"
    and s_delete_user: "moves_stmt R (delete_user u)"
    and s_filter_sessions: "moves_stmt R (\<lambda>d. Inr ((g :: database \<Rightarrow> nat) d, d\<lparr> d_sessions := filter (D d) (d_sessions d) \<rparr>))"
    and s_filter_sessions_unit: "moves_stmt R (\<lambda>d. Inr ((), d\<lparr> d_sessions := filter (D d) (d_sessions d) \<rparr>))"
    and s_insert_session: "moves_stmt R (insert_session th ex i hash)"
    and s_limit: "moves_stmt R (limit_login now)"
begin

lemma op_seal: "moves R (seal_host_key L key i pem)"
  unfolding seal_host_key_def fresh_nonce_def by (intro moves_intros)

lemma op_add_host: "moves R (add_host L nm ad p us pem mode key)"
  unfolding add_host_def new_host_def [symmetric]
  by (intro move_if moves_intros op_seal move_exec s_insert_host)

lemma op_set_host_status: "moves R (set_host_status i st)"
  unfolding set_host_status_def by (intro move_if moves_intros move_exec s_host_status)

lemma op_set_host_key: "moves R (set_host_key L i pem key)"
  unfolding set_host_key_def by (intro move_if moves_intros op_seal move_exec s_host_key)

lemma op_remove_host: "moves R (remove_host i)"
  unfolding remove_host_def by (intro moves_intros move_exec s_delete_host)

lemma op_audit: "moves R (audit u a d)"
  unfolding audit_def by (intro moves_intros move_exec s_audit)

lemma op_add_policy: "moves R (add_policy p)"
  unfolding add_policy_def Let_def by (intro moves_intros move_exec s_insert_policy)

lemma op_update_policy: "moves R (update_policy i p)"
  unfolding update_policy_def get_policy_def by (intro moves_intros move_exec s_update_policies)

lemma op_remove_policy: "moves R (remove_policy i)"
  unfolding remove_policy_def by (intro moves_intros move_exec s_delete_policy)

lemma op_job_started: "j \<noteq> [] \<Longrightarrow> moves R (record_job_started j h p)"
  unfolding record_job_started_def new_job_def [symmetric] by (intro moves_intros move_exec s_insert_job)

lemma op_job_completed: "moves R (record_job_completed j a b)"
  unfolding record_job_completed_def by (intro moves_intros move_exec s_complete)

lemma op_job_failed: "moves R (record_job_failed j m)"
  unfolding record_job_failed_def by (intro moves_intros move_exec s_fail)

lemma op_record_snapshot: "moves R (record_snapshot s h j r n)"
  unfolding record_snapshot_def by (intro moves_intros move_exec s_insert_snapshot)

lemma op_add_user: "moves R (add_user_with_role A u pw ro)"
proof (cases "validate_username u = Inr ()")
  case True
  then show ?thesis unfolding add_user_with_role_def hash_password_def new_user_def [symmetric]
    by (intro moves_intros move_exec s_insert_user)
next
  case False
  then obtain e where "validate_username u = Inl e" by (cases "validate_username u") auto
  then show ?thesis by (simp add: add_user_with_role_def move_raise)
qed

lemma op_set_user_role: "moves R (set_user_role u ro)"
  unfolding set_user_role_def by (intro moves_intros move_exec s_role)

lemma op_remove_user: "moves R (remove_user u)"
  unfolding remove_user_def by (intro moves_intros move_exec s_delete_user)

lemma op_set_user_password: "moves R (set_user_password A u pw)"
  unfolding set_user_password_def hash_password_def revoke_sessions_def
  by (intro move_if moves_intros move_exec s_password s_filter_sessions_unit)

lemma op_login_check: "moves R (login_check A u pw)"
  unfolding login_check_def enforce_login_limit_def enforce_login_limit_at_def
  by (intro move_if moves_intros move_exec s_limit)
    (auto split: prod.splits option.splits bool.splits intro!: moves_intros)

lemma op_login_issue: "moves R (login_issue L A x)"
  unfolding login_issue_def fresh_token_def Let_def expire_sessions_def
  by (cases x) (simp only: prod.case, intro move_if moves_intros move_exec s_filter_sessions_unit s_insert_session)

lemma op_login: "moves R (login L A u pw)"
  unfolding login_def by (intro moves_intros op_login_check op_login_issue)

lemma op_logout: "moves R (logout L tok)"
  unfolding logout_def by (intro moves_intros move_exec s_filter_sessions)

lemmas ops = op_add_host op_set_host_status op_set_host_key op_remove_host op_audit op_add_policy op_update_policy
  op_remove_policy op_job_completed op_job_failed op_record_snapshot op_add_user op_set_user_role
  op_remove_user op_set_user_password op_login_check op_login_issue op_logout

lemma step_moves: "catalog_step L A c t \<Longrightarrow> R (c_db c) (c_db t)"
proof (induction rule: catalog_step.induct)
  case (idle t c)
  then show ?case by simp
qed (rule ops [THEN moves_run], assumption | rule op_job_started [THEN moves_run], assumption, assumption)+

lemma steps_move: "(catalog_step L A)\<^sup>*\<^sup>* c t \<Longrightarrow> R (c_db c) (c_db t)"
  by (induction rule: rtranclp_induct) (auto intro: step_moves along)

end

section \<open>The invariant holds in every reachable catalog\<close>

lemma is_ok_bind: "is_ok (res_bind r f) \<longleftrightarrow> (\<exists>a. r = Inr a \<and> is_ok (f a))"
  by (cases r) auto

lemma new_host_ok: "is_ok (host_from_row (new_host i nm ad p us blob m t))"
  using uint_lt2p [of p] by (simp add: host_from_row_def new_host_def status_from_str_def)

interpretation inv: machine_relation keeps_ok
proof
  fix i nm ad p us blob m t st P e f q j h pl x y msg s u hash ro g D th ex now
  show "moves_stmt keeps_ok (insert_host (new_host i nm ad p us blob m t))" by (rule insert_host_keeps [OF new_host_ok])
  show "moves_stmt keeps_ok (update_hosts i (\<lambda>h. h\<lparr> hr_status := status_str st \<rparr>))"
    "moves_stmt keeps_ok (update_hosts i (\<lambda>h. h\<lparr> hr_ssh_key_encrypted := blob \<rparr>))"
    by (rule update_hosts_keeps; auto simp: host_from_row_def is_ok_bind split: if_splits)+
  show "moves_stmt keeps_ok (\<lambda>d. Inr ((), d\<lparr> d_policies := map (\<lambda>x. if po_id x = i then q\<lparr> po_id := i \<rparr> else x) (d_policies d) \<rparr>))"
  proof -
    have "(\<lambda>x. if po_id x = i then q\<lparr> po_id := i \<rparr> else x) = (\<lambda>x. if po_id x = i then q\<lparr> po_id := po_id x \<rparr> else x)" by auto
    then show ?thesis by (simp only:) (rule update_policies_keeps, simp)
  qed
  show "j \<noteq> [] \<Longrightarrow> moves_stmt keeps_ok (insert_job (new_job j h pl t))"
    by (rule insert_job_keeps) (simp_all add: job_status_ok_def job_bytes_ok_def new_job_def)
  show "moves_stmt keeps_ok (update_jobs i (\<lambda>j. j\<lparr> jr_status := ''completed'', jr_finished_at := Some t, jr_bytes_new := Some x, jr_bytes_total := Some y \<rparr>))"
    "moves_stmt keeps_ok (update_jobs i (\<lambda>j. j\<lparr> jr_status := ''failed'', jr_finished_at := Some t, jr_error := Some msg \<rparr>))"
    by (rule update_jobs_keeps; simp add: job_status_ok_def job_bytes_ok_def)+
  show "validate_username u = Inr () \<Longrightarrow> moves_stmt keeps_ok (insert_user (new_user i u hash ro))"
    by (rule insert_user_keeps) (simp_all add: new_user_def)
  show "moves_stmt keeps_ok (update_users u (\<lambda>r. r\<lparr> ur_role := role_str ro \<rparr>))"
    "moves_stmt keeps_ok (update_users u (\<lambda>r. r\<lparr> ur_password_hash := hash \<rparr>))"
    by (rule update_users_keeps; simp)+
  show "keeps_ok d d" for d by (simp add: keeps_ok_def)
  show "keeps_ok d e \<Longrightarrow> keeps_ok e f \<Longrightarrow> keeps_ok d f" for d e f by (simp add: keeps_ok_def)
qed (rule delete_host_keeps audit_keeps insert_policy_keeps delete_policy_keeps insert_snapshot_keeps delete_user_keeps
    filter_sessions_keeps insert_session_keeps limit_login_keeps)+

lemma reachable_ok: "reachable L A c \<Longrightarrow> db_ok (c_db c)"
  using inv.steps_move empty_ok unfolding reachable_def keeps_ok_def by metis

end
