(* ===== verification/Console.thy ===== *)
theory Console
  imports Jobs Catalog_Machine
begin

text \<open>
  The commands of the command line that work on the catalog (aegis-cli/src/users.rs, policy.rs,
  hosts.rs and the host and job commands of main.rs). A command is a handler over the catalog
  whose errors are texts; what it prints is its value. The record \<open>console\<close> holds what a
  command takes from outside: the environment, the terminal, and key handling by russh.
\<close>

section \<open>Values\<close>

record console =
  co_show :: "error \<Rightarrow> string"
  co_env :: "string \<Rightarrow> string option"
  co_tty :: bool
  co_prompt :: "string \<Rightarrow> string + string"
  co_generate :: "string \<Rightarrow> string + bytes \<times> string"
  co_utf8 :: "bytes \<Rightarrow> bool"
  co_decode_key :: "bytes \<Rightarrow> string + string"
  co_null :: "int option"

datatype console_value =
    Out_Session session
  | Out_Revoked bool
  | Out_User user
  | Out_Users "user list"
  | Out_User_Removed string bool
  | Out_User_Updated string bool
  | Out_Role_Set string role bool
  | Out_Policy policy
  | Out_Policies "policy list"
  | Out_Policy_Removed string bool
  | Out_Host host "string option"
  | Out_Hosts "host list"
  | Out_Host_Removed host bool
  | Out_Jobs "job list"

type_synonym 'a command = "(string, 'a) outcome"

section \<open>Accounts and sessions\<close>

definition load_password :: "console \<Rightarrow> string \<Rightarrow> string + string" where
  "load_password K prompt = (case co_env K ''AEGIS_USER_PASSWORD'' of
      Some password \<Rightarrow> Inr password
    | None \<Rightarrow> if \<not> co_tty K then Inl ''no password available: set AEGIS_USER_PASSWORD or run interactively''
              else co_prompt K prompt)"

definition load_token :: "console \<Rightarrow> string option \<Rightarrow> string + string" where
  "load_token K flag = (case flag of
      Some token \<Rightarrow> Inr token
    | None \<Rightarrow> (case co_env K ''AEGIS_SESSION_TOKEN'' of
        Some token \<Rightarrow> Inr token
      | None \<Rightarrow> Inl ''no session token: pass --token or set AEGIS_SESSION_TOKEN''))"

datatype session_command =
    Session_Login string
  | Session_Logout "string option"
  | Session_Show "string option"

fun run_session :: "foreign \<Rightarrow> auth_lib \<Rightarrow> console \<Rightarrow> session_command \<Rightarrow> console_value command" where
  "run_session L A K (Session_Login username) =
     then_do (check (load_password K ''password: '')) (\<lambda>password.
     then_do (call (co_show K) (login L A username password)) (\<lambda>s.
     then_do (ignoring (audit (Some (us_id (ss_user s))) ''session.login'' None)) (\<lambda>_.
     reply (Out_Session s))))"
| "run_session L A K (Session_Logout flag) =
     then_do (check (load_token K flag)) (\<lambda>token.
     then_do (call (co_show K) (logout L token)) (\<lambda>revoked.
     then_do (ignoring (audit None ''session.logout'' None)) (\<lambda>_.
     reply (Out_Revoked revoked))))"
| "run_session L A K (Session_Show flag) =
     then_do (check (load_token K flag)) (\<lambda>token.
     then_do (call (co_show K) (session_user L token)) (\<lambda>u.
     reply (Out_User u)))"

datatype user_command =
    User_Add string string
  | User_List
  | User_Remove string
  | User_Passwd string
  | User_Role string string

definition parse_role :: "string \<Rightarrow> string + role" where
  "parse_role r = (case role_from_str r of
      Inr ro \<Rightarrow> Inr ro | Inl _ \<Rightarrow> Inl (''unknown role `'' @ r @ ''` (viewer, operator, admin)''))"

definition audit_if :: "bool \<Rightarrow> string \<Rightarrow> string \<Rightarrow> unit command" where
  "audit_if b action target = (if b then ignoring (audit None action (Some target)) else reply ())"

fun run_user :: "auth_lib \<Rightarrow> console \<Rightarrow> user_command \<Rightarrow> console_value command" where
  "run_user A K (User_Add username role) =
     then_do (check (parse_role role)) (\<lambda>ro.
     then_do (check (load_password K ''new user password: '')) (\<lambda>password.
     then_do (call (co_show K) (add_user_with_role A username password ro)) (\<lambda>u.
     then_do (ignoring (audit None ''user.add'' (Some username))) (\<lambda>_.
     reply (Out_User u)))))"
| "run_user A K User_List = then_do (call (co_show K) list_users) (\<lambda>us. reply (Out_Users us))"
| "run_user A K (User_Remove username) =
     then_do (call (co_show K) (remove_user username)) (\<lambda>removed.
     then_do (audit_if removed ''user.remove'' username) (\<lambda>_.
     reply (Out_User_Removed username removed)))"
| "run_user A K (User_Passwd username) =
     then_do (check (load_password K ''new password: '')) (\<lambda>password.
     then_do (call (co_show K) (set_user_password A username password)) (\<lambda>updated.
     then_do (audit_if updated ''user.passwd'' username) (\<lambda>_.
     reply (Out_User_Updated username updated))))"
| "run_user A K (User_Role username role) =
     then_do (check (parse_role role)) (\<lambda>ro.
     then_do (call (co_show K) (set_user_role username ro)) (\<lambda>updated.
     then_do (audit_if updated ''user.role_set'' username) (\<lambda>_.
     reply (Out_Role_Set username ro updated))))"

section \<open>Policies\<close>

datatype policy_command =
    Policy_Add string string string string string "int option"
  | Policy_List
  | Policy_Remove string

fun run_policy :: "console \<Rightarrow> policy_command \<Rightarrow> console_value command" where
  "run_policy K (Policy_Add nm schedule_cron retention_json paths_json exclude_json limit) =
     then_do (call (co_show K) catalog_uuid) (\<lambda>i.
     let p = \<lparr> po_id = i, po_name = nm, po_schedule_cron = schedule_cron, po_retention_json = retention_json,
               po_paths_json = paths_json, po_exclude_json = exclude_json, po_bandwidth_limit_kbps = limit,
               po_pre_hook = None, po_post_hook = None, po_enabled = True \<rparr> in
     then_do (call (co_show K) (add_policy p)) (\<lambda>q.
     then_do (ignoring (audit None ''policy.add'' (Some nm))) (\<lambda>_.
     reply (Out_Policy q))))"
| "run_policy K Policy_List = then_do (call (co_show K) list_policies) (\<lambda>ps. reply (Out_Policies ps))"
| "run_policy K (Policy_Remove policy) =
     then_do (call (co_show K) (remove_policy policy)) (\<lambda>removed.
     then_do (audit_if removed ''policy.remove'' policy) (\<lambda>_.
     reply (Out_Policy_Removed policy removed)))"

section \<open>Hosts and jobs\<close>

text \<open>A host by its id, its name, or at least four characters of its id.\<close>

definition matching_hosts :: "string \<Rightarrow> host list \<Rightarrow> host list" where
  "matching_hosts given hosts =
     (let exact = filter (\<lambda>h. ho_id h = given \<or> ho_name h = given) hosts in
      if exact = [] \<and> 4 \<le> length given then filter (\<lambda>h. starts_with (ho_id h) given) hosts else exact)"

definition find_host :: "console \<Rightarrow> string \<Rightarrow> host command" where
  "find_host K given =
     then_do (call (co_show K) list_hosts) (\<lambda>hosts.
     check (case matching_hosts given hosts of
         [h] \<Rightarrow> Inr h
       | [] \<Rightarrow> Inl (''no host matches `'' @ given @ ''`'')
       | _ \<Rightarrow> Inl (''`'' @ given @ ''` is ambiguous; use more characters'')))"

definition host_login :: "console \<Rightarrow> host \<Rightarrow> bytes \<Rightarrow> string + sftp_auth" where
  "host_login K h key_pem =
     (if key_pem = [] then
        (case co_env K ''AEGIS_SSH_PASSWORD'' of
           Some password \<Rightarrow> Inr (Auth_Password password)
         | None \<Rightarrow> Inl (''host '' @ ho_name h @ '' has no stored key; set AEGIS_SSH_PASSWORD to use password auth''))
      else if \<not> co_utf8 K key_pem then Inl (''host '' @ ho_name h @ '' has a malformed stored key'')
      else (case co_decode_key K key_pem of
           Inr key \<Rightarrow> Inr (Auth_Key key)
         | Inl e \<Rightarrow> Inl (saying (''decoding stored key for '' @ ho_name h) e)))"

definition login_config :: "console \<Rightarrow> host \<Rightarrow> bytes \<Rightarrow> bool \<Rightarrow> string + host_config" where
  "login_config K h key_pem insecure = map_sum id
     (\<lambda>auth. let cfg = with_port (ho_ssh_port h) (new_config (ho_ssh_user h) (ho_address h) auth)
             in if insecure then with_host_key_policy AcceptAny cfg else cfg)
     (host_login K h key_pem)"

definition parse_mode :: "console \<Rightarrow> string \<Rightarrow> string + backup_mode" where
  "parse_mode K s = map_sum (co_show K) id (mode_from_str s)"

datatype host_command =
    Host_Add string string "16 word" string bool string
  | Host_List
  | Host_Remove string

fun run_host :: "foreign \<Rightarrow> console \<Rightarrow> bytes \<Rightarrow> host_command \<Rightarrow> console_value command" where
  "run_host L K mk (Host_Add nm address port ssh_user generate_key mode) =
     then_do (check (parse_mode K mode)) (\<lambda>m.
     then_do (check (if generate_key then map_sum id (\<lambda>(pem, line). (pem, Some line)) (co_generate K (''aegis:'' @ nm))
                     else Inr ([], None))) (\<lambda>(key_pem, public_key).
     then_do (call (\<lambda>_. ''registering the host'') (add_host L nm address port ssh_user key_pem m mk)) (\<lambda>h.
     then_do (ignoring (audit None ''host.add'' (Some nm))) (\<lambda>_.
     reply (Out_Host h public_key)))))"
| "run_host L K mk Host_List = then_do (call (co_show K) list_hosts) (\<lambda>hs. reply (Out_Hosts hs))"
| "run_host L K mk (Host_Remove given) =
     then_do (find_host K given) (\<lambda>h.
     then_do (call (co_show K) (remove_host (ho_id h))) (\<lambda>removed.
     then_do (ignoring (audit None ''host.remove'' (Some (ho_name h)))) (\<lambda>_.
     reply (Out_Host_Removed h removed))))"

definition run_job_list :: "console \<Rightarrow> string option \<Rightarrow> string option \<Rightarrow> int \<Rightarrow> console_value command" where
  "run_job_list K host status limit =
     then_do (case host of None \<Rightarrow> reply None | Some given \<Rightarrow> then_do (find_host K given) (\<lambda>h. reply (Some (ho_id h)))) (\<lambda>host_id.
     then_do (call (\<lambda>_. ''listing jobs'') (list_jobs (co_null K) host_id None status limit 0)) (\<lambda>js.
     reply (Out_Jobs js)))"

section \<open>Backing up every host\<close>

record host_run_result =
  hx_name :: string
  hx_id :: string
  hx_snapshot :: "snapshot option"
  hx_error :: "string option"

definition run_result_of :: "host \<Rightarrow> string + snapshot \<Rightarrow> host_run_result" where
  "run_result_of h r = \<lparr> hx_name = ho_name h, hx_id = ho_id h,
     hx_snapshot = (case r of Inr s \<Rightarrow> Some s | Inl _ \<Rightarrow> None), hx_error = (case r of Inl e \<Rightarrow> Some e | Inr _ \<Rightarrow> None) \<rparr>"

text \<open>
  One host of a run: \<open>bk\<close> is the agentless backup under a configuration, or the text of its
  error. The runs are concurrent; \<open>join\<close> is the order in which they finish.
\<close>

definition host_run ::
  "foreign \<Rightarrow> console \<Rightarrow> bytes \<Rightarrow> bool \<Rightarrow> (host_config \<Rightarrow> string + snapshot) \<Rightarrow> host \<Rightarrow> host_run_result command" where
  "host_run L K mk insecure bk h = (\<lambda>c. case get_host_with_key L (ho_id h) mk c of
      (Inl e, t) \<Rightarrow> (Inr (run_result_of h (Inl (''decrypting the key for '' @ ho_name h))), t)
    | (Inr hk, t) \<Rightarrow> (Inr (run_result_of h (case login_config K h (hk_ssh_key_pem hk) insecure of
          Inl e \<Rightarrow> Inl e | Inr cfg \<Rightarrow> bk cfg)), t))"

fun host_runs ::
  "foreign \<Rightarrow> console \<Rightarrow> bytes \<Rightarrow> bool \<Rightarrow> (host_config \<Rightarrow> string + snapshot) \<Rightarrow> host list \<Rightarrow> host_run_result list command" where
  "host_runs L K mk insecure bk [] = reply []"
| "host_runs L K mk insecure bk (h # hs) =
     then_do (host_run L K mk insecure bk h) (\<lambda>r.
     then_do (host_runs L K mk insecure bk hs) (\<lambda>rs. reply (r # rs)))"

fun record_status :: "host_run_result list \<Rightarrow> unit command" where
  "record_status [] = reply ()"
| "record_status (r # rs) =
     then_do (ignoring (set_host_status (hx_id r) (if hx_error r \<noteq> None then Unreachable else Reachable))) (\<lambda>_. record_status rs)"

definition backup_all ::
  "foreign \<Rightarrow> console \<Rightarrow> bytes \<Rightarrow> bool \<Rightarrow> (host_config \<Rightarrow> string + snapshot)
   \<Rightarrow> (host_run_result list \<Rightarrow> host_run_result list) \<Rightarrow> host_run_result list command" where
  "backup_all L K mk insecure bk join = (\<lambda>c. case list_hosts c of
      (Inl e, t) \<Rightarrow> (Inr [\<lparr> hx_name = ''<catalog>'', hx_id = [], hx_snapshot = None, hx_error = Some (co_show K e) \<rparr>], t)
    | (Inr hosts, t) \<Rightarrow>
        then_do (host_runs L K mk insecure bk hosts) (\<lambda>rs.
        then_do (record_status (join rs)) (\<lambda>_. reply (join rs))) t)"

end
