(* ===== verification/Catalog_Correct.thy ===== *)
theory Catalog_Correct
  imports Catalog_Machine Reference_Instance
begin

text \<open>
  Properties of the catalog's tables: consistency of every reachable catalog, what the
  schema's references mean for removing a host and for recording a snapshot, and the
  sealed SSH keys.
\<close>

section \<open>Reachable catalogs\<close>

lemma collect_rows_ok: "\<forall>r\<in>set rows. is_ok (f r) \<Longrightarrow> is_ok (collect_rows f rows)"
  by (induction rows) (auto simp: is_ok_iff)

text \<open>A row of a job can be read when its byte counts are set or a NULL reads as a number.\<close>

lemma job_from_row_ok: "is_ok (job_from_row nul j) \<longleftrightarrow> nul \<noteq> None \<or> (jr_bytes_new j \<noteq> None \<and> jr_bytes_total j \<noteq> None)"
  by (cases "jr_bytes_new j"; cases "jr_bytes_total j"; cases nul) (simp_all add: job_from_row_def read_i64_def ok_or_def is_ok_iff)

lemma user_from_row_ok: "is_ok (role_from_str (ur_role r)) \<Longrightarrow> is_ok (user_from_row r)"
  by (auto simp: user_from_row_def is_ok_iff)

lemma read_rows_ok:
  assumes "healthy u" "\<forall>r\<in>set (q (c_db u)). is_ok (f r)"
  shows "is_ok (fst (bnd (query_sql g q) (\<lambda>rows. lift_res (collect_rows f rows)) u))"
proof -
  have "\<not> (c_fails u \<noteq> [] \<and> hd (c_fails u))" using assms(1) by (cases "c_fails u") (auto simp: healthy_def)
  then show ?thesis
    using collect_rows_ok [OF assms(2)] by (auto simp: bnd_def query_sql_def exec_sql_def lift_res_def Let_def split: sum.splits)
qed

lemma limited_rows: "set (sql_limit l off rows) \<subseteq> set rows"
  by (auto simp: sql_limit_def Let_def dest!: in_set_takeD in_set_dropD)


text \<open>
  No host is ever attached to a policy: the table the scheduler takes its work from has no
  writer.
\<close>

lemma none_attached:
  assumes "reachable L A c" "list_hosts_for_policy p c = (r, t)"
  shows "r = Inr [] \<or> r = Inl (Catalog ''listing hosts for policy'')"
proof -
  have "d_host_policies (c_db c) = []" using reachable_ok [OF assms(1)] by (simp add: db_ok_def policies_ok_def)
  then have "wp (list_hosts_for_policy p) (\<lambda>r t. r = Inr [] \<or> r = Inl (Catalog ''listing hosts for policy'')) c"
    by (simp add: list_hosts_for_policy_def query_sql_def wp_simps attached_hosts_def catalog_err_def Let_def)
  then show ?thesis using assms(2) by (rule wp_run)
qed

section \<open>References\<close>

definition keeps_jobs :: "database \<Rightarrow> database \<Rightarrow> bool" where
  "keeps_jobs d d' \<longleftrightarrow> (\<lambda>j. (jr_id j, jr_host_id j)) ` set (d_jobs d) \<subseteq> (\<lambda>j. (jr_id j, jr_host_id j)) ` set (d_jobs d')"

lemma keeps_jobs_same: "(\<And>d a d'. stmt d = Inr (a, d') \<Longrightarrow> d_jobs d' = d_jobs d) \<Longrightarrow> moves_stmt keeps_jobs stmt"
  by (simp add: moves_stmt_def keeps_jobs_def)

lemma update_jobs_keeps_jobs:
  "(\<And>j. jr_id (f j) = jr_id j \<and> jr_host_id (f j) = jr_host_id j) \<Longrightarrow> moves_stmt keeps_jobs (update_jobs i f)"
  using keyset_update [of "\<lambda>j. (jr_id j, jr_host_id j)" f]
  by (auto simp: moves_stmt_def keeps_jobs_def update_jobs_def simp del: set_map)

lemma insert_job_keeps_jobs: "moves_stmt keeps_jobs (insert_job j)"
  by (auto simp: moves_stmt_def keeps_jobs_def insert_job_def split: if_splits)

interpretation kj: machine_relation keeps_jobs
proof
  show "keeps_jobs d d" for d by (simp add: keeps_jobs_def)
  show "keeps_jobs d e \<Longrightarrow> keeps_jobs e f \<Longrightarrow> keeps_jobs d f" for d e f unfolding keeps_jobs_def by (rule subset_trans)
  show "moves_stmt keeps_jobs (insert_job (new_job j h pl t))" for j h pl t by (rule insert_job_keeps_jobs)
  show "moves_stmt keeps_jobs (update_jobs i (\<lambda>j. j\<lparr> jr_status := ''completed'', jr_finished_at := Some t, jr_bytes_new := Some x, jr_bytes_total := Some y \<rparr>))"
    "moves_stmt keeps_jobs (update_jobs i (\<lambda>j. j\<lparr> jr_status := ''failed'', jr_finished_at := Some t, jr_error := Some msg \<rparr>))" for i t x y msg
    by (rule update_jobs_keeps_jobs; simp)+
qed (rule keeps_jobs_same; auto simp: insert_host_def update_hosts_def delete_host_def insert_policy_def delete_policy_def
  insert_snapshot_def insert_user_def update_users_def delete_user_def limit_login_def insert_session_def Let_def
  split: if_splits option.splits)+

definition keeps_snapshots :: "database \<Rightarrow> database \<Rightarrow> bool" where
  "keeps_snapshots d d' \<longleftrightarrow> (\<exists>new. d_snapshots d' = d_snapshots d @ new)"

lemma keeps_snapshots_same: "(\<And>d a d'. stmt d = Inr (a, d') \<Longrightarrow> d_snapshots d' = d_snapshots d) \<Longrightarrow> moves_stmt keeps_snapshots stmt"
  by (simp add: moves_stmt_def keeps_snapshots_def)

interpretation ks: machine_relation keeps_snapshots
proof
  show "keeps_snapshots d d" for d by (simp add: keeps_snapshots_def)
  show "keeps_snapshots d e \<Longrightarrow> keeps_snapshots e f \<Longrightarrow> keeps_snapshots d f" for d e f
    by (auto simp: keeps_snapshots_def)
  show "moves_stmt keeps_snapshots (insert_snapshot s)" for s
    by (auto simp: moves_stmt_def keeps_snapshots_def insert_snapshot_def split: if_splits)
qed (rule keeps_snapshots_same; auto simp: insert_host_def update_hosts_def delete_host_def insert_policy_def delete_policy_def
  insert_job_def update_jobs_def insert_user_def update_users_def delete_user_def limit_login_def insert_session_def Let_def
  split: if_splits option.splits)+

text \<open>The hosts that have a history: a job, or a snapshot (whose job may be another host's).\<close>

definition history_hosts :: "database \<Rightarrow> string set" where
  "history_hosts d = jr_host_id ` set (d_jobs d) \<union> sr_host_id ` set (d_snapshots d)"

lemma history_stays:
  assumes "(catalog_step L A)\<^sup>*\<^sup>* c t"
  shows "history_hosts (c_db c) \<subseteq> history_hosts (c_db t)"
proof -
  have "snd ` (\<lambda>j. (jr_id j, jr_host_id j)) ` set (d_jobs (c_db c)) \<subseteq> snd ` (\<lambda>j. (jr_id j, jr_host_id j)) ` set (d_jobs (c_db t))"
    using kj.steps_move [OF assms] unfolding keeps_jobs_def by (rule image_mono)
  moreover have "sr_host_id ` set (d_snapshots (c_db c)) \<subseteq> sr_host_id ` set (d_snapshots (c_db t))"
    using ks.steps_move [OF assms] unfolding keeps_snapshots_def by auto
  ultimately show ?thesis by (auto simp: history_hosts_def image_image)
qed

text \<open>C27: A host with a history can never be removed: once a job or a snapshot of a host is
  recorded, whatever calls follow, the row of the host stays, and an attempt to remove it
  fails with a database error and changes nothing. The catalog has no call that deletes
  jobs or snapshots.\<close>

theorem history_pins_host:
  assumes "reachable L A c" "(\<exists>j\<in>set (d_jobs (c_db c)). jr_host_id j = i) \<or> (\<exists>s\<in>set (d_snapshots (c_db c)). sr_host_id s = i)"
    and "(catalog_step L A)\<^sup>*\<^sup>* c t"
  shows "i \<in> hr_id ` set (d_hosts (c_db t))
     \<and> (\<forall>r u. remove_host i t = (r, u) \<longrightarrow> r = Inl (Catalog ''removing host'') \<and> c_db u = c_db t)"
proof -
  have "reachable L A t" using assms(1,3) unfolding reachable_def by (metis rtranclp_trans)
  then have ok: "db_ok (c_db t)" by (rule reachable_ok)
  have "i \<in> history_hosts (c_db c)" using assms(2) by (auto simp: history_hosts_def)
  then have i: "i \<in> history_hosts (c_db t)" using history_stays [OF assms(3)] by blast
  then have here: "i \<in> hr_id ` set (d_hosts (c_db t))"
    using ok by (auto simp: history_hosts_def db_ok_def jobs_ok_def snapshots_ok_def)
  then have some: "filter (\<lambda>h. hr_id h = i) (d_hosts (c_db t)) \<noteq> []" by (auto simp: filter_empty_conv)
  have ref: "host_referenced (c_db t) i" using i by (auto simp: host_referenced_def history_hosts_def)
  have "wp (remove_host i) (\<lambda>r u. r = Inl (Catalog ''removing host'') \<and> c_db u = c_db t) t"
    using some ref by (simp add: remove_host_def wp_simps delete_host_def catalog_err_def Let_def)
  then show ?thesis using here by (auto dest: wp_run)
qed

text \<open>C28: A snapshot recorded outside the job pool is never stored: the server passes the empty
  job id for it, no job has that id, and the reference of the snapshots table makes the
  statement fail, in every reachable catalog.\<close>

theorem poolless_snapshot_refused:
  assumes "reachable L A c" "sid \<notin> sr_id ` set (d_snapshots (c_db c))" "record_snapshot sid h [] ref n c = (r, t)"
  shows "r = Inl (Catalog ''recording snapshot'') \<and> c_db t = c_db c"
proof -
  have "[] \<notin> jr_id ` set (d_jobs (c_db c))" using reachable_ok [OF assms(1)] by (auto simp: db_ok_def jobs_ok_def)
  then have "wp (record_snapshot sid h [] ref n) (\<lambda>r t. r = Inl (Catalog ''recording snapshot'') \<and> c_db t = c_db c) c"
    using assms(2) by (simp add: record_snapshot_def wp_simps insert_snapshot_def catalog_err_def Let_def)
  then show ?thesis using assms(3) by (rule wp_run)
qed

section \<open>Sealed SSH keys\<close>

lemma sealed_opens:
  assumes "foreign_laws L" "seal L key nonce a p = Inr ct" "length nonce = NONCE_LEN"
  shows "open_sealed L key a (nonce @ ct) = Inr p"
  using assms aead_roundtrip aead_length unfolding seal_def open_sealed_def by (simp add: Let_def)

text \<open>A stored key: the nonce and the ciphertext made with the host's id as associated data.\<close>

definition sealed_for :: "foreign \<Rightarrow> bytes \<Rightarrow> string \<Rightarrow> bytes \<Rightarrow> bytes \<Rightarrow> bool" where
  "sealed_for L key i pem blob \<longleftrightarrow> (\<exists>nonce ct. length nonce = NONCE_LEN
     \<and> aead_encrypt L key nonce (aad (CtxHost i)) pem = Some ct \<and> blob = nonce @ ct)"

lemma sealed_for_opens: "foreign_laws L \<Longrightarrow> sealed_for L key i pem blob \<Longrightarrow> open_sealed L key (aad (CtxHost i)) blob = Inr pem"
  using sealed_opens by (auto simp: sealed_for_def seal_def ok_or_def)

lemma wp_seal_host_key:
  "wp (seal_host_key L key i pem) (\<lambda>r t. c_db t = c_db c \<and> c_fails t = c_fails c
     \<and> (\<forall>blob. r = Inr blob \<longrightarrow> sealed_for L key i pem blob)) c"
proof -
  let ?n = "map (c_rng c) [c_rng_pos c..<c_rng_pos c + NONCE_LEN]"
  show ?thesis
  proof (cases "aead_encrypt L key ?n (aad (CtxHost i)) pem")
    case (Some ct)
    then have "sealed_for L key i pem (?n @ ct)" unfolding sealed_for_def by (intro exI [of _ ?n] exI [of _ ct]) simp
    then show ?thesis
      using Some by (simp add: seal_host_key_def fresh_nonce_def wp_simps seal_def ok_or_def del: aad.simps)
  qed (simp add: seal_host_key_def fresh_nonce_def wp_simps seal_def ok_or_def del: aad.simps)
qed

text \<open>
  The cipher refuses under the associated data of one host what it encrypted under that of
  another.
\<close>

definition binds_hosts :: "foreign \<Rightarrow> bytes \<Rightarrow> string \<Rightarrow> string \<Rightarrow> bool" where
  "binds_hosts L key i j \<longleftrightarrow> (\<forall>n p ct. aead_encrypt L key n (aad (CtxHost i)) p = Some ct
     \<longrightarrow> aead_decrypt L key n (aad (CtxHost j)) ct = None)"

definition host_blob :: "string \<Rightarrow> catalog \<Rightarrow> bytes option" where
  "host_blob i c = map_option hr_ssh_key_encrypted (host_by_id i (c_db c))"

lemma moved_blob_refused:
  assumes "sealed_for L key i pem blob" "binds_hosts L key i j" "healthy v" "host_blob j v = Some blob"
  shows "\<not> is_ok (fst (get_host_with_key L j key v))"
proof -
  obtain row where row: "host_by_id j (c_db v) = Some row" "hr_ssh_key_encrypted row = blob"
    using assms(4) by (auto simp: host_blob_def)
  have "open_sealed L key (aad (CtxHost j)) blob = Inl DecryptFailed"
    using assms(1,2) by (auto simp: sealed_for_def binds_hosts_def open_sealed_def Let_def ok_or_def)
  then have "wp (get_host_with_key L j key) (\<lambda>r t. \<not> is_ok r) v"
    using row assms(3) by (cases "c_fails v"; cases "host_from_row row")
      (auto simp: get_host_with_key_def query_sql_def wp_simps Let_def healthy_def)
  then show ?thesis by (auto simp: wp_def split: prod.splits)
qed

lemma host_by_id_insert:
  "i \<notin> hr_id ` set (d_hosts d) \<Longrightarrow> host_by_id i (d\<lparr> d_hosts := d_hosts d @ [row] \<rparr>) = (if hr_id row = i then Some row else None)"
proof -
  assume new: "i \<notin> hr_id ` set (d_hosts d)"
  have "i \<notin> hr_id ` set hs \<Longrightarrow> find (\<lambda>h. hr_id h = i) (hs @ xs) = find (\<lambda>h. hr_id h = i) xs" for hs xs
    by (induction hs) auto
  from this [OF new] show ?thesis by (simp add: host_by_id_def)
qed

lemma host_by_id_update:
  "update_hosts i f d = Inr (n, d') \<Longrightarrow> (\<And>h. hr_id (f h) = hr_id h) \<Longrightarrow> host_by_id i d' = map_option f (host_by_id i d)"
proof -
  assume "update_hosts i f d = Inr (n, d')" and f: "\<And>h. hr_id (f h) = hr_id h"
  then have d': "d_hosts d' = map (\<lambda>h. if hr_id h = i then f h else h) (d_hosts d)" by (auto simp: update_hosts_def)
  have "find (\<lambda>h. hr_id h = i) (map (\<lambda>h. if hr_id h = i then f h else h) hs) = map_option f (find (\<lambda>h. hr_id h = i) hs)" for hs
    using f by (induction hs) auto
  then show ?thesis by (simp add: host_by_id_def d')
qed

lemma get_with_key_run:
  assumes "healthy u" "host_by_id i (c_db u) = Some row" "host_from_row row = Inr h"
    and "open_sealed L key (aad (CtxHost i)) (hr_ssh_key_encrypted row) = Inr pem"
  shows "fst (get_host_with_key L i key u) = Inr \<lparr> hk_host = h, hk_ssh_key_pem = pem \<rparr>"
proof -
  have "wp (get_host_with_key L i key) (\<lambda>r t. r = Inr \<lparr> hk_host = h, hk_ssh_key_pem = pem \<rparr>) u"
    using assms by (cases "c_fails u") (auto simp: get_host_with_key_def query_sql_def wp_simps Let_def healthy_def)
  then show ?thesis by (auto simp: wp_def split: prod.splits)
qed

lemma wp_add_host:
  "wp (add_host L nm ad p us pem mode key) (\<lambda>r t. \<forall>h. r = Inr h \<longrightarrow>
     (\<exists>row. host_by_id (ho_id h) (c_db t) = Some row \<and> host_from_row row = Inr h
        \<and> sealed_for L key (ho_id h) pem (hr_ssh_key_encrypted row))) c"
proof (cases "length key = KEY_LEN")
  case True
  show ?thesis
    unfolding add_host_def if_not_P [OF not_not [THEN iffD2, OF True]] wp_bnd wp_catalog_uuid wp_now_secs sum.case
  proof (rule wp_mono [OF wp_seal_host_key], goal_cases)
    case (1 r t)
    show ?case
    proof (cases r)
      case (Inr blob)
      let ?row = "new_host (c_uuids c (c_uuid_pos c)) nm ad p us blob mode (c_clock c (c_clock_pos c))"
      have sealed: "sealed_for L key (c_uuids c (c_uuid_pos c)) pem blob" using 1 Inr by simp
      have port: "uint p < 65536" using uint_lt2p [of p] by simp
      show ?thesis
        unfolding Inr sum.case wp_exec
        using sealed port host_by_id_insert [of "hr_id ?row" "c_db t" ?row]
        by (simp add: Let_def insert_host_def wp_simps new_host_def host_from_row_def status_from_str_def)
    qed simp
  qed
next
  case False
  then show ?thesis by (simp add: add_host_def wp_simps)
qed

lemma wp_set_host_key:
  assumes "healthy u" "host_by_id i (c_db u) = Some row"
  shows "wp (set_host_key L i pem key) (\<lambda>r w. r = Inr () \<longrightarrow> healthy w
     \<and> (\<exists>blob. host_by_id i (c_db w) = Some (row\<lparr> hr_ssh_key_encrypted := blob \<rparr>) \<and> sealed_for L key i pem blob)) u"
  unfolding set_host_key_def
proof (rule wp_bndI [OF wp_seal_host_key], goal_cases)
  case (2 blob v)
  have "healthy v" using 2 assms(1) by (simp add: healthy_def)
  then have ready: "\<not> (c_fails v \<noteq> [] \<and> hd (c_fails v))" "healthy (v\<lparr> c_fails := tl (c_fails v) \<rparr>)"
    by (cases "c_fails v"; simp add: healthy_def)+
  obtain n d' where upd: "update_hosts i (\<lambda>h. h\<lparr> hr_ssh_key_encrypted := blob \<rparr>) (c_db u) = Inr (n, d')"
    by (simp add: update_hosts_def)
  have "host_by_id i d' = Some (row\<lparr> hr_ssh_key_encrypted := blob \<rparr>)"
    using host_by_id_update [OF upd] assms(2) by simp
  then show ?case using ready 2 unfolding wp_bnd wp_exec Let_def if_not_P [OF ready(1)]
    by (auto simp: wp_simps upd healthy_def split: sum.splits if_splits)
qed simp

text \<open>C26: The SSH key of a host comes back, for that host only: after a host is registered,
  reading it with its key, as long as its row is untouched, returns the record and the key
  it was registered with; after its key is replaced, the same record and the new key. And
  the stored bytes, copied into the row of any other host, do not open there: the
  associated data of two hosts differ, and a cipher that refuses what was encrypted under
  the other's makes the read fail.\<close>

theorem host_key_roundtrip:
  assumes "foreign_laws L" "add_host L nm ad p us pem mode key c = (Inr h, t)"
    and "host_by_id (ho_id h) (c_db u) = host_by_id (ho_id h) (c_db t)" "healthy u"
  shows "fst (get_host_with_key L (ho_id h) key u) = Inr \<lparr> hk_host = h, hk_ssh_key_pem = pem \<rparr>
     \<and> (\<forall>w. set_host_key L (ho_id h) pem' key u = (Inr (), w) \<longrightarrow>
          fst (get_host_with_key L (ho_id h) key w) = Inr \<lparr> hk_host = h, hk_ssh_key_pem = pem' \<rparr>)
     \<and> (\<forall>j. j \<noteq> ho_id h \<longrightarrow> aad (CtxHost j) \<noteq> aad (CtxHost (ho_id h)))
     \<and> (\<forall>j v. binds_hosts L key (ho_id h) j \<and> healthy v
          \<and> (host_blob j v = host_blob (ho_id h) u
             \<or> (\<exists>w. set_host_key L (ho_id h) pem' key u = (Inr (), w) \<and> host_blob j v = host_blob (ho_id h) w))
          \<longrightarrow> \<not> is_ok (fst (get_host_with_key L j key v)))"
proof -
  let ?i = "ho_id h"
  obtain row where row: "host_by_id ?i (c_db u) = Some row" "host_from_row row = Inr h"
    "sealed_for L key ?i pem (hr_ssh_key_encrypted row)"
    using wp_run [OF wp_add_host assms(2)] assms(3) by auto
  have set: "\<exists>blob. healthy w \<and> host_by_id ?i (c_db w) = Some (row\<lparr> hr_ssh_key_encrypted := blob \<rparr>) \<and> sealed_for L key ?i pem' blob"
    if "set_host_key L ?i pem' key u = (Inr (), w)" for w
    using wp_run [OF wp_set_host_key [OF assms(4) row(1)] that] by blast
  have new: "fst (get_host_with_key L ?i key w) = Inr \<lparr> hk_host = h, hk_ssh_key_pem = pem' \<rparr>"
    if run: "set_host_key L ?i pem' key u = (Inr (), w)" for w
  proof -
    obtain blob where w: "healthy w" "host_by_id ?i (c_db w) = Some (row\<lparr> hr_ssh_key_encrypted := blob \<rparr>)"
      "sealed_for L key ?i pem' blob" using set [OF run] by blast
    have "host_from_row (row\<lparr> hr_ssh_key_encrypted := blob \<rparr>) = host_from_row row" by (simp add: host_from_row_def)
    then have "host_from_row (row\<lparr> hr_ssh_key_encrypted := blob \<rparr>) = Inr h" using row(2) by simp
    then show ?thesis using get_with_key_run [OF w(1,2)] sealed_for_opens [OF assms(1) w(3)] by simp
  qed
  have other: "\<not> is_ok (fst (get_host_with_key L j key v))"
    if "binds_hosts L key ?i j" "healthy v" "host_blob j v = host_blob ?i u
       \<or> (\<exists>w. set_host_key L ?i pem' key u = (Inr (), w) \<and> host_blob j v = host_blob ?i w)" for j v
    using that(3)
  proof (elim disjE exE conjE)
    assume "host_blob j v = host_blob ?i u"
    then show ?thesis using moved_blob_refused [OF row(3) that(1,2)] row(1) by (simp add: host_blob_def)
  next
    fix w
    assume w: "set_host_key L ?i pem' key u = (Inr (), w)" "host_blob j v = host_blob ?i w"
    then obtain blob where "sealed_for L key ?i pem' blob" "host_blob j v = Some blob"
      using set [OF w(1)] by (auto simp: host_blob_def)
    then show ?thesis using moved_blob_refused [OF _ that(1,2)] by blast
  qed
  have "aad (CtxHost j) \<noteq> aad (CtxHost ?i)" if "j \<noteq> ?i" for j
    using that by (simp add: str_bytes_inj)
  then show ?thesis using get_with_key_run [OF assms(4) row(1,2) sealed_for_opens [OF assms(1) row(3)]] new other by blast
qed

section \<open>A catalog\<close>

definition sample_catalog :: catalog where
  "sample_catalog = \<lparr> c_db = empty_database, c_fails = [], c_clock = (\<lambda>_. 100), c_clock_pos = 0,
     c_uuids = (\<lambda>n. replicate (Suc n) (CHR ''u'')), c_uuid_pos = 0, c_rng = (\<lambda>_. 0), c_rng_pos = 0 \<rparr>"

definition sample_policy :: policy where
  "sample_policy = \<lparr> po_id = [], po_name = ''daily'', po_schedule_cron = ''0 0 3 * * *'', po_retention_json = [],
     po_paths_json = ''[]'', po_exclude_json = [], po_bandwidth_limit_kbps = None, po_pre_hook = None, po_post_hook = None,
     po_enabled = True \<rparr>"

definition sample_with_host :: catalog where
  "sample_with_host = snd (add_host ref_lib ''web'' ''10.0.0.5'' 22 ''root'' [7] Agentless (replicate 32 0) sample_catalog)"

definition sample_with_policy :: catalog where
  "sample_with_policy = snd (add_policy sample_policy sample_with_host)"

definition sample_with_job :: catalog where
  "sample_with_job = snd (record_job_started ''j1'' ''u'' ''uu'' sample_with_policy)"


lemma sample_reachable: "reachable ref_lib A sample_catalog" "reachable ref_lib A sample_with_job"
proof -
  show "reachable ref_lib A sample_catalog"
    unfolding reachable_def by (rule exI [of _ sample_catalog]) (simp add: sample_catalog_def)
  have 1: "catalog_step ref_lib A sample_catalog sample_with_host"
    unfolding sample_with_host_def by (rule catalog_step.add_host [OF surjective_pairing])
  have 2: "catalog_step ref_lib A sample_with_host sample_with_policy"
    unfolding sample_with_policy_def by (rule catalog_step.add_policy [OF surjective_pairing])
  have 3: "catalog_step ref_lib A sample_with_policy sample_with_job"
    unfolding sample_with_job_def by (rule catalog_step.record_job_started [OF _ surjective_pairing]) simp
  show "reachable ref_lib A sample_with_job"
    unfolding reachable_def using 1 2 3
    by (intro exI [of _ sample_catalog]) (auto simp: sample_catalog_def intro: rtranclp.rtrancl_into_rtrancl)
qed

lemmas sample_run = add_host_def seal_host_key_def fresh_nonce_def catalog_random_def catalog_uuid_def now_secs_def run_simps
  exec_sql_def sample_catalog_def empty_database_def KEY_LEN_def insert_host_def seal_def ref_lib_def ref_encrypt_def Let_def
  ret_def healthy_def

lemma sample_host:
  "fst (add_host ref_lib ''web'' ''10.0.0.5'' 22 ''root'' [7] Agentless (replicate 32 0) sample_catalog) =
     Inr \<lparr> ho_id = ''u'', ho_name = ''web'', ho_address = ''10.0.0.5'', ho_ssh_port = 22, ho_ssh_user = ''root'',
       ho_mode = Agentless, ho_status = Unknown, ho_created_at = 100 \<rparr>"
  "healthy sample_with_host"
  by (simp_all add: sample_with_host_def sample_run)

lemma sample_job: "\<exists>j. d_jobs (c_db sample_with_job) = [j] \<and> jr_host_id j = ''u''" "d_snapshots (c_db sample_with_job) = []"
  by (simp_all add: sample_with_job_def sample_with_policy_def sample_with_host_def sample_run add_policy_def insert_policy_def
    record_job_started_def insert_job_def)


theorem history_pins_host_witness:
  "\<exists>r u. remove_host ''u'' sample_with_job = (r, u) \<and> r = Inl (Catalog ''removing host'') \<and> c_db u = c_db sample_with_job"
proof -
  obtain j where j: "j \<in> set (d_jobs (c_db sample_with_job))" "jr_host_id j = ''u''" using sample_job(1) by auto
  obtain r u where "remove_host ''u'' sample_with_job = (r, u)" by fastforce
  then show ?thesis
    using history_pins_host [OF sample_reachable(2) _ rtranclp.rtrancl_refl, of "''u''"] j by blast
qed

theorem poolless_snapshot_refused_witness:
  "\<exists>r t. record_snapshot ''s1'' ''u'' [] ''/repo'' 5 sample_with_job = (r, t) \<and> \<not> is_ok r \<and> d_snapshots (c_db t) = []"
proof -
  obtain r t where run: "record_snapshot ''s1'' ''u'' [] ''/repo'' 5 sample_with_job = (r, t)" by fastforce
  show ?thesis
    using poolless_snapshot_refused [OF sample_reachable(2) _ run] run by (simp add: sample_job(2))
qed

text \<open>The sample cipher tells apart associated data that differ in the last byte.\<close>

lemma poly_low_byte: "(of_nat (poly (bs @ [b])) :: byte) = of_nat (poly bs) * 257 + b + 1"
proof -
  have "(of_nat (x mod 2 ^ 256) :: byte) = of_nat x" for x
    by (simp add: word_of_nat_eq_iff take_bit_eq_mod mod_mod_cancel)
  then show ?thesis by (simp add: poly_def)
qed

lemma poly_bytes_last: "poly_bytes 16 (bs @ [b]) = poly_bytes 16 (bs @ [d]) \<Longrightarrow> b = d"
proof -
  assume eq: "poly_bytes 16 (bs @ [b]) = poly_bytes 16 (bs @ [d])"
  have "poly_bytes 16 xs ! 0 = of_nat (poly xs)" for xs by (simp add: poly_bytes_def)
  then have "(of_nat (poly (bs @ [b])) :: byte) = of_nat (poly (bs @ [d]))" using eq by metis
  then show "b = d" unfolding poly_low_byte by simp
qed

lemma sample_binds: "binds_hosts ref_lib key ''u'' ''v''"
proof -
  have "poly_bytes 16 (key @ n @ aad (CtxHost ''u'')) \<noteq> poly_bytes 16 (key @ n @ aad (CtxHost ''v''))" for n
  proof
    let ?p = "key @ n @ str_bytes ''aegis/host/v1:''"
    assume "poly_bytes 16 (key @ n @ aad (CtxHost ''u'')) = poly_bytes 16 (key @ n @ aad (CtxHost ''v''))"
    then have "poly_bytes 16 (?p @ [117]) = poly_bytes 16 (?p @ [118])" by simp
    then have "(117 :: byte) = 118" by (rule poly_bytes_last)
    then show False by simp
  qed
  then show ?thesis
    by (auto simp: binds_hosts_def ref_lib_def ref_encrypt_def ref_decrypt_def poly_bytes_def simp del: aad.simps)
qed

text \<open>The catalog in which the key's bytes have been copied to a host with another id.\<close>

definition sample_moved :: catalog where
  "sample_moved = sample_with_host\<lparr> c_db := (c_db sample_with_host)\<lparr> d_hosts := map (\<lambda>h. h\<lparr> hr_id := ''v'' \<rparr>) (d_hosts (c_db sample_with_host)) \<rparr> \<rparr>"

theorem host_key_roundtrip_witness:
  "\<exists>h. fst (get_host_with_key ref_lib ''u'' (replicate 32 0) sample_with_host) = Inr \<lparr> hk_host = h, hk_ssh_key_pem = [7] \<rparr>
     \<and> host_blob ''v'' sample_moved = host_blob ''u'' sample_with_host
     \<and> \<not> is_ok (fst (get_host_with_key ref_lib ''v'' (replicate 32 0) sample_moved))"
proof -
  obtain h where h: "add_host ref_lib ''web'' ''10.0.0.5'' 22 ''root'' [7] Agentless (replicate 32 0) sample_catalog = (Inr h, sample_with_host)"
    "ho_id h = ''u''"
    using sample_host(1) unfolding sample_with_host_def by (metis host.select_convs(1) prod.collapse)
  obtain row where row: "d_hosts (c_db sample_with_host) = [row]" "hr_id row = ''u''"
    by (simp add: sample_with_host_def sample_run)
  have moved: "host_blob ''v'' sample_moved = host_blob ''u'' sample_with_host" "healthy sample_moved"
    using row sample_host(2) by (simp_all add: host_blob_def host_by_id_def sample_moved_def healthy_def)
  note key = host_key_roundtrip [OF ref_lib_laws h(1) refl sample_host(2), unfolded h(2)]
  have "\<not> is_ok (fst (get_host_with_key ref_lib ''v'' (replicate 32 0) sample_moved))"
    using key sample_binds moved by blast
  then show ?thesis using key moved(1) by blast
qed

end
