(* ===== verification/Auth_Correct.thy ===== *)
theory Auth_Correct
  imports Catalog_Correct
begin

text \<open>
  Users and sessions: what a login proves and gives, what ends a session, and the race
  between a login and a password change.
\<close>

section \<open>Sessions and the users they belong to\<close>

lemma key_unique: "distinct (map k xs) \<Longrightarrow> x \<in> set xs \<Longrightarrow> y \<in> set xs \<Longrightarrow> k x = k y \<Longrightarrow> x = y"
  by (meson distinct_map inj_onD)

lemma session_row_iff:
  assumes "db_ok d"
  shows "session_row_of th now d = Some u \<longleftrightarrow>
    (\<exists>s\<in>set (d_sessions d). se_token_hash s = th \<and> now < se_expires_at s \<and> u \<in> set (d_users d) \<and> ur_id u = se_user_id s)"
    (is "_ \<longleftrightarrow> ?P u")
proof -
  define xs where "xs = concat (map (\<lambda>s. if se_token_hash s = th \<and> now < se_expires_at s
                            then filter (\<lambda>u. ur_id u = se_user_id s) (d_users d) else []) (d_sessions d))"
  have mem: "v \<in> set xs \<longleftrightarrow> ?P v" for v by (auto simp: xs_def)
  have d: "distinct (map se_token_hash (d_sessions d))" "distinct (map ur_id (d_users d))"
    using assms by (simp_all add: db_ok_def sessions_ok_def users_ok_def)
  have uniq: "v = w" if v: "?P v" and w: "?P w" for v w
  proof -
    from v w obtain s s' where s: "s \<in> set (d_sessions d)" "se_token_hash s = th" "v \<in> set (d_users d)" "ur_id v = se_user_id s"
      and s': "s' \<in> set (d_sessions d)" "se_token_hash s' = th" "w \<in> set (d_users d)" "ur_id w = se_user_id s'" by blast
    have "s = s'" using key_unique [OF d(1) s(1) s'(1)] s(2) s'(2) by simp
    then show ?thesis using key_unique [OF d(2) s(3) s'(3)] s(4) s'(4) by simp
  qed
  have row: "session_row_of th now d = (case xs of [] \<Rightarrow> None | v # _ \<Rightarrow> Some v)"
    by (simp add: session_row_of_def xs_def)
  show ?thesis
  proof (cases xs)
    case Nil
    then show ?thesis using mem [of u] row by simp
  next
    case (Cons v vs)
    then have "?P v" using mem [of v] by simp
    then show ?thesis using row Cons uniq [of u v] by auto
  qed
qed

lemma session_row_None:
  assumes "\<forall>s\<in>set (d_sessions d). se_token_hash s = th \<longrightarrow> se_expires_at s \<le> now"
  shows "session_row_of th now d = None"
proof -
  have "concat (map (\<lambda>s. if se_token_hash s = th \<and> now < se_expires_at s
          then filter (\<lambda>u. ur_id u = se_user_id s) (d_users d) else []) (d_sessions d)) = []"
    using assms by (auto simp: concat_eq_Nil_conv)
  then show ?thesis unfolding session_row_of_def by (simp only: list.case)
qed

lemma ready_statement: "healthy c \<Longrightarrow> \<not> (c_fails c \<noteq> [] \<and> hd (c_fails c))"
  by (cases "c_fails c") (auto simp: healthy_def)

lemma session_user_run:
  assumes "healthy v"
  shows "fst (session_user L tok v) = (case session_row_of (token_hash L tok) (c_clock v (c_clock_pos v)) (c_db v) of
     None \<Rightarrow> Inl Unauthorized | Some r \<Rightarrow> user_from_row r)"
  using ready_statement [OF assms]
  by (auto simp: session_user_def query_sql_def exec_sql_def now_secs_def run_simps Let_def split: option.splits)

lemma session_user_Inr:
  assumes "session_user L tok c = (Inr usr, t)"
  shows "c_db t = c_db c \<and> (\<exists>r. session_row_of (token_hash L tok) (c_clock c (c_clock_pos c)) (c_db c) = Some r \<and> user_from_row r = Inr usr)"
  using assms by (auto simp: session_user_def query_sql_def exec_sql_def now_secs_def run_simps Let_def
      split: option.splits if_splits sum.splits)

lemma find_SomeD: "find P xs = Some x \<Longrightarrow> x \<in> set xs \<and> P x"
  by (induction xs) (auto split: if_splits)

lemma user_by_name_SomeD: "user_by_name n d = Some r \<Longrightarrow> r \<in> set (d_users d) \<and> ur_username r = n"
  unfolding user_by_name_def by (drule find_SomeD) simp

lemma user_by_name_iff:
  assumes "distinct (map ur_username (d_users d))"
  shows "user_by_name n d = Some r \<longleftrightarrow> r \<in> set (d_users d) \<and> ur_username r = n"
proof
  assume "user_by_name n d = Some r"
  then show "r \<in> set (d_users d) \<and> ur_username r = n" by (rule user_by_name_SomeD)
next
  assume r: "r \<in> set (d_users d) \<and> ur_username r = n"
  show "user_by_name n d = Some r"
  proof (cases "user_by_name n d")
    case None
    then have "\<forall>x\<in>set (d_users d). ur_username x \<noteq> n" by (simp add: user_by_name_def find_None_iff)
    then show ?thesis using r by blast
  next
    case (Some r')
    then have "r' \<in> set (d_users d) \<and> ur_username r' = n" by (rule user_by_name_SomeD)
    then show ?thesis using Some key_unique [OF assms, of r r'] r by simp
  qed
qed

section \<open>Logging in\<close>

lemma limit_login_frame: "limit_login now d = Inr (n, d') \<Longrightarrow> d_users d' = d_users d \<and> d_sessions d' = d_sessions d"
  by (auto simp: limit_login_def Let_def split: option.splits if_splits)

lemma wp_login_check:
  "wp (login_check A u pw) (\<lambda>r t. d_users (c_db t) = d_users (c_db c) \<and> d_sessions (c_db t) = d_sessions (c_db c)
     \<and> (\<forall>usr h. r = Inr (usr, h) \<longrightarrow>
          (\<exists>row. user_by_name u (c_db t) = Some row \<and> user_from_row row = Inr usr \<and> h = ur_password_hash row \<and> phc_verify A pw h))) c"
proof (cases "validate_username u")
  case (Inr x)
  show ?thesis
  proof (cases "validate_password pw")
    case (Inr y)
    let ?M = "\<lambda>r t. d_users (c_db t) = d_users (c_db c) \<and> d_sessions (c_db t) = d_sessions (c_db c)"
    have lim: "wp enforce_login_limit ?M c"
      by (auto simp: enforce_login_limit_def enforce_login_limit_at_def wp_simps Let_def dest: limit_login_frame split: sum.splits)
    show ?thesis
      unfolding login_check_def Inr \<open>validate_username u = Inr x\<close> lift_res_Inr bnd_ret
    proof (rule wp_bndI [OF lim], goal_cases)
      case (1 e t)
      then show ?case by simp
    next
      case (2 a t)
      show ?case
      proof (rule wp_bndI [where M = "\<lambda>r s. c_db s = c_db t \<and> (\<forall>row. r = Inr row \<longrightarrow> row = user_by_name u (c_db t))"], goal_cases)
        case 1
        then show ?case by (simp add: query_sql_def wp_simps Let_def)
      next
        case (2 e s)
        then show ?case using \<open>?M (Inr a) t\<close> by simp
      next
        case (3 row s)
        then have s: "c_db s = c_db t" "row = user_by_name u (c_db t)" by simp_all
        have m: "d_users (c_db s) = d_users (c_db c)" "d_sessions (c_db s) = d_sessions (c_db c)" using s \<open>?M (Inr a) t\<close> by simp_all
        show ?case
        proof (cases row)
          case None
          then show ?thesis using m by (cases "verify_password A pw DUMMY_HASH") (simp_all add: wp_simps)
        next
          case (Some rw)
          then have here: "user_by_name u (c_db s) = Some rw" using s by simp
          show ?thesis
          proof (cases "user_from_row rw")
            case (Inl e)
            then show ?thesis using m Some by (simp add: wp_simps)
          next
            case (Inr usr)
            then show ?thesis using m Some here
              by (cases "verify_password A pw (ur_password_hash rw)") (simp_all add: wp_simps verify_password_def)
          qed
        qed
      qed
    qed
  qed (simp add: login_check_def Inr wp_simps)
qed (simp add: login_check_def wp_simps)

lemma wp_login_issue:
  assumes "distinct (map ur_id (d_users (c_db c)))"
  shows "wp (login_issue L A (usr, h)) (\<lambda>r t. d_users (c_db t) = d_users (c_db c)
     \<and> (case r of Inl e \<Rightarrow> set (d_sessions (c_db t)) \<subseteq> set (d_sessions (c_db c))
        | Inr s \<Rightarrow> ss_user s = usr \<and> (\<exists>row\<in>set (d_users (c_db c)). ur_id row = us_id usr \<and> ur_password_hash row = h)
            \<and> \<lparr> se_token_hash = token_hash L (ss_token s), se_user_id = us_id usr, se_expires_at = ss_expires_at s \<rparr> \<in> set (d_sessions (c_db t)))) c"
proof -
  have issue: "wp (exec_sql (catalog_err ''creating session'') (insert_session th e (us_id usr) h)) (\<lambda>r t. d_users (c_db t) = d_users (c_db x)
     \<and> (case r of Inl e \<Rightarrow> d_sessions (c_db t) = d_sessions (c_db x)
        | Inr n \<Rightarrow> n = length (filter (\<lambda>r. ur_id r = us_id usr \<and> ur_password_hash r = h) (d_users (c_db x)))
            \<and> d_sessions (c_db t) = d_sessions (c_db x) @ map (\<lambda>r. \<lparr> se_token_hash = th, se_user_id = ur_id r, se_expires_at = e \<rparr>)
                (filter (\<lambda>r. ur_id r = us_id usr \<and> ur_password_hash r = h) (d_users (c_db x))))) x" for th e x
    by (auto simp: wp_simps insert_session_def Let_def)
  have expire: "wp (exec_sql (catalog_err ''cleaning sessions'') (expire_sessions now)) (\<lambda>r t. d_users (c_db t) = d_users (c_db x)
     \<and> set (d_sessions (c_db t)) \<subseteq> set (d_sessions (c_db x))) x" for now x
    by (auto simp: wp_simps expire_sessions_def Let_def)
  let ?matching = "filter (\<lambda>r. ur_id r = us_id usr \<and> ur_password_hash r = h)"
  show ?thesis
    unfolding login_issue_def prod.case fresh_token_def wp_bnd wp_catalog_random wp_ret wp_now_secs sum.case Let_def
  proof (rule wp_mono [OF expire], goal_cases)
    case (1 r t)
    then have t: "d_users (c_db t) = d_users (c_db c)" "set (d_sessions (c_db t)) \<subseteq> set (d_sessions (c_db c))" by simp_all
    show ?case
    proof (cases r)
      case (Inl e)
      then show ?thesis using t by simp
    next
      case (Inr a)
      show ?thesis
        unfolding Inr sum.case
      proof (rule wp_mono [OF issue], goal_cases)
        case (1 q v)
        then have users: "d_users (c_db v) = d_users (c_db c)" using t by simp
        show ?case
        proof (cases q)
          case (Inl e)
          then show ?thesis using 1 t by simp
        next
          case (Inr n)
          show ?thesis
          proof (cases "n = 1")
            case False
            have "distinct (map ur_id (?matching (d_users (c_db t))))" using assms t(1) by (simp add: distinct_map_filter)
            then have "?matching (d_users (c_db t)) = [] \<or> (\<exists>x. ?matching (d_users (c_db t)) = [x])"
              by (rule at_most_one [where i = "us_id usr"]) simp
            then have "?matching (d_users (c_db t)) = []" using False 1 Inr by auto
            then show ?thesis using False Inr 1 t by (simp add: wp_simps)
          next
            case True
            then have "length (?matching (d_users (c_db t))) = Suc 0" using 1 Inr by simp
            then obtain row where row: "?matching (d_users (c_db t)) = [row]" by (auto simp: length_Suc_conv)
            then have "row \<in> set (?matching (d_users (c_db t)))" by simp
            then have "row \<in> set (d_users (c_db c))" "ur_id row = us_id usr" "ur_password_hash row = h" using t(1) by auto
            then show ?thesis using True Inr 1 users unfolding row by (auto simp: wp_simps)
          qed
        qed
      qed
    qed
  qed
qed

lemma login_session:
  assumes "db_ok (c_db c)" "login L A u pw c = (Inr s, t)"
  shows "(\<exists>row\<in>set (d_users (c_db c)). ur_username row = u \<and> phc_verify A pw (ur_password_hash row) \<and> user_from_row row = Inr (ss_user s))
     \<and> (\<forall>v. c_db v = c_db t \<longrightarrow> healthy v \<longrightarrow> fst (session_user L (ss_token s) v) =
          (if c_clock v (c_clock_pos v) < ss_expires_at s then Inr (ss_user s) else Inl Unauthorized))"
proof -
  obtain c1 usr h where chk: "login_check A u pw c = (Inr (usr, h), c1)" and iss: "login_issue L A (usr, h) c1 = (Inr s, t)"
    using assms(2) by (auto simp: login_def bnd_def split: prod.splits sum.splits)
  note p = wp_run [OF wp_login_check chk]
  have d1: "distinct (map ur_id (d_users (c_db c1)))" using p assms(1) by (simp add: db_ok_def users_ok_def)
  note q = wp_run [OF wp_login_issue [OF d1] iss, unfolded sum.case]
  obtain row where row: "user_by_name u (c_db c1) = Some row" "user_from_row row = Inr usr" "phc_verify A pw (ur_password_hash row)"
    using p by blast
  have in_c: "row \<in> set (d_users (c_db c))" "ur_username row = u" using user_by_name_SomeD [OF row(1)] p by simp_all
  have usr: "ss_user s = usr" using q by simp
  have okt: "db_ok (c_db t)"
    using inv.op_login [THEN moves_run, OF assms(2)] assms(1) by (simp add: keeps_ok_def)
  have uid: "us_id usr = ur_id row" using row(2) by (auto simp: user_from_row_def res_bind_Inr)
  have rt: "row \<in> set (d_users (c_db t))" using in_c q p by simp
  let ?s = "\<lparr> se_token_hash = token_hash L (ss_token s), se_user_id = us_id usr, se_expires_at = ss_expires_at s \<rparr>"
  have st: "?s \<in> set (d_sessions (c_db t))" using q by simp
  have dk: "distinct (map se_token_hash (d_sessions (c_db t)))" using okt by (simp add: db_ok_def sessions_ok_def)
  have "fst (session_user L (ss_token s) v) = (if c_clock v (c_clock_pos v) < ss_expires_at s then Inr usr else Inl Unauthorized)"
    if v: "c_db v = c_db t" "healthy v" for v
  proof -
    let ?now = "c_clock v (c_clock_pos v)"
    have "session_row_of (token_hash L (ss_token s)) ?now (c_db t) = (if ?now < ss_expires_at s then Some row else None)"
    proof (cases "?now < ss_expires_at s")
      case True
      then show ?thesis using session_row_iff [OF okt, of "token_hash L (ss_token s)" ?now row] st rt uid
        by (auto intro!: bexI [of _ ?s])
    next
      case False
      have "session_row_of (token_hash L (ss_token s)) ?now (c_db t) \<noteq> Some w" for w
      proof
        assume "session_row_of (token_hash L (ss_token s)) ?now (c_db t) = Some w"
        then obtain s' where s': "s' \<in> set (d_sessions (c_db t))" "se_token_hash s' = token_hash L (ss_token s)" "?now < se_expires_at s'"
          using session_row_iff [OF okt] by blast
        have "s' = ?s" using key_unique [OF dk s'(1) st] s'(2) by simp
        then show False using s'(3) False by simp
      qed
      then show ?thesis using False by (metis not_Some_eq)
    qed
    then show ?thesis using session_user_run [OF v(2)] v(1) row(2) by simp
  qed
  then show ?thesis using in_c row usr by blast
qed

text \<open>C20: What a login proves and gives: it succeeds only for a registered user with that name
  whose stored hash verifies the password and whose role it reports, and from then on the
  returned token resolves to exactly that user until the expiry time and to nobody after
  it. The catalog stores the hash of the token only.\<close>

theorem login_gives_session:
  assumes "db_ok (c_db c)" "login L A u pw c = (Inr s, t)"
  shows "(\<exists>row\<in>set (d_users (c_db c)). ur_username row = u \<and> phc_verify A pw (ur_password_hash row) \<and> user_from_row row = Inr (ss_user s))
     \<and> (\<forall>v. c_db v = c_db t \<longrightarrow> healthy v \<longrightarrow> fst (session_user L (ss_token s) v) =
          (if c_clock v (c_clock_pos v) < ss_expires_at s then Inr (ss_user s) else Inl Unauthorized))"
  by (rule login_session [OF assms])

section \<open>Ending a session\<close>

definition password_set :: "auth_lib \<Rightarrow> string \<Rightarrow> string \<Rightarrow> database \<Rightarrow> database \<Rightarrow> bool" where
  "password_set A u h d d' \<longleftrightarrow>
     d_users d' = map (\<lambda>x. if ur_username x = u then x\<lparr> ur_password_hash := h \<rparr> else x) (d_users d)
     \<and> (\<forall>s\<in>set (d_sessions d'). s \<in> set (d_sessions d)
          \<and> (\<forall>x\<in>set (d_users d). ur_username x = u \<longrightarrow> se_user_id s \<noteq> ur_id x))"

lemma user_by_name_password:
  "user_by_name u (d\<lparr> d_users := map (\<lambda>x. if ur_username x = u then x\<lparr> ur_password_hash := h \<rparr> else x) (d_users d) \<rparr>)
    = map_option (\<lambda>x. x\<lparr> ur_password_hash := h \<rparr>) (user_by_name u d)"
proof -
  have "find (\<lambda>r. ur_username r = u) (map (\<lambda>x. if ur_username x = u then x\<lparr> ur_password_hash := h \<rparr> else x) us)
    = map_option (\<lambda>x. x\<lparr> ur_password_hash := h \<rparr>) (find (\<lambda>r. ur_username r = u) us)" for us
    by (induction us) auto
  then show ?thesis by (simp add: user_by_name_def)
qed

lemma password_set_revoked:
  assumes "distinct (map ur_username (d_users d))"
    and "update_users u (\<lambda>r. r\<lparr> ur_password_hash := h \<rparr>) d = Inr (n, e)" "revoke_sessions u e = Inr (x, d')"
  shows "password_set A u h d d'"
proof -
  have e: "e = d\<lparr> d_users := map (\<lambda>x. if ur_username x = u then x\<lparr> ur_password_hash := h \<rparr> else x) (d_users d) \<rparr>"
    using assms(2) by (simp add: update_users_def)
  have d': "d_users d' = d_users e" "d_sessions d' = filter (\<lambda>s. Some (se_user_id s) \<noteq> map_option ur_id (user_by_name u e)) (d_sessions d)"
    using assms(3) by (auto simp: revoke_sessions_def e)
  have "se_user_id s \<noteq> ur_id x" if "s \<in> set (d_sessions d')" "x \<in> set (d_users d)" "ur_username x = u" for s x
  proof -
    have "user_by_name u d = Some x" using user_by_name_iff [OF assms(1)] that(2,3) by simp
    then have "user_by_name u e = Some (x\<lparr> ur_password_hash := h \<rparr>)" unfolding e user_by_name_password by simp
    then show ?thesis using that(1) d'(2) by simp
  qed
  moreover have "d_users d' = map (\<lambda>x. if ur_username x = u then x\<lparr> ur_password_hash := h \<rparr> else x) (d_users d)"
    using d'(1) by (simp add: e)
  ultimately show ?thesis using d'(2) by (auto simp: password_set_def)
qed

lemma wp_set_user_password:
  assumes "db_ok (c_db c)"
  shows "wp (set_user_password A u pw) (\<lambda>r t. (r \<noteq> Inr True \<longrightarrow> c_db t = c_db c)
     \<and> (r = Inr True \<longrightarrow> (\<exists>salt h. phc_hash A pw salt = Some h \<and> password_set A u h (c_db c) (c_db t)))) c"
proof (cases "validate_username u = Inr () \<and> validate_password pw = Inr ()")
  case True
  have dn: "distinct (map ur_username (d_users (c_db c)))" using assms by (simp add: db_ok_def users_ok_def)
  let ?body = "\<lambda>hash. bnd (exec_sql (catalog_err ''updating password'') (update_users u (\<lambda>r. r\<lparr> ur_password_hash := hash \<rparr>))) (\<lambda>n.
       if n = 0 then ret (False, False) else
       bnd (exec_sql (catalog_err ''revoking sessions'') (revoke_sessions u)) (\<lambda>_.
       bnd (exec_sql (catalog_err ''committing'') (\<lambda>d. Inr ((), d))) (\<lambda>_.
       ret (True, True))))"
  have body: "wp (?body h) (\<lambda>r t. \<forall>a b. r = Inr (a, b) \<longrightarrow> a = b \<and> (a \<longrightarrow> password_set A u h (c_db c) (c_db t))) x"
    if x: "c_db x = c_db c" for x h
  proof -
    obtain n e where upd: "update_users u (\<lambda>r. r\<lparr> ur_password_hash := h \<rparr>) (c_db c) = Inr (n, e)" by (simp add: update_users_def)
    obtain d' where rev: "revoke_sessions u e = Inr ((), d')" by (simp add: revoke_sessions_def)
    have "password_set A u h (c_db c) d'" by (rule password_set_revoked [OF dn upd rev])
    then show ?thesis by (simp add: wp_simps Let_def x upd rev)
  qed
  have tx: "wp (in_transaction (?body h)) (\<lambda>r t. (r \<noteq> Inr True \<longrightarrow> c_db t = c_db c)
     \<and> (r = Inr True \<longrightarrow> password_set A u h (c_db c) (c_db t))) x"
    if x: "c_db x = c_db c" for x h
    unfolding wp_in_transaction by (rule wp_mono [OF body [OF x]]) (auto simp: x split: sum.splits prod.splits bool.splits)
  have started: "wp (exec_sql (catalog_err ''beginning transaction'') (\<lambda>d. Inr ((), d))) (\<lambda>r t. c_db t = c_db x) x" for x
    by (simp add: wp_simps Let_def)
  have hash: "wp (hash_password A pw) (\<lambda>r t. c_db t = c_db c \<and> (\<forall>h. r = Inr h \<longrightarrow> (\<exists>salt. phc_hash A pw salt = Some h))) c"
    by (auto simp: hash_password_def wp_simps)
  have u: "validate_username u = Inr ()" and v: "validate_password pw = Inr ()" using True by simp_all
  show ?thesis
    unfolding set_user_password_def u v lift_res_Inr bnd_ret
  proof (rule wp_bndI [OF hash], goal_cases)
    case (2 h t)
    then obtain salt where salt: "phc_hash A pw salt = Some h" and t: "c_db t = c_db c" by blast
    show ?case
    proof (rule wp_bndI [OF started], goal_cases)
      case (2 y s)
      then have s: "c_db s = c_db c" using t by simp
      show ?case by (rule wp_mono [OF tx [OF s]]) (use salt in blast)
    qed (simp add: t)
  qed simp
next
  case False
  then show ?thesis by (cases "validate_username u"; cases "validate_password pw") (simp_all add: set_user_password_def wp_simps)
qed

lemma wp_remove_user:
  "wp (remove_user u) (\<lambda>r t. r = Inr True \<longrightarrow> (\<forall>s\<in>set (d_sessions (c_db t)). s \<in> set (d_sessions (c_db c))
     \<and> (\<forall>x\<in>set (d_users (c_db c)). ur_username x = u \<longrightarrow> se_user_id s \<noteq> ur_id x))) c"
  by (cases "validate_username u") (auto simp: remove_user_def wp_simps delete_user_def Let_def)

lemma wp_logout: "wp (logout L tok) (\<lambda>r t. is_ok r \<longrightarrow> (\<forall>s\<in>set (d_sessions (c_db t)). se_token_hash s \<noteq> token_hash L tok)) c"
  by (auto simp: logout_def wp_simps Let_def)

lemma resolved_session:
  assumes "db_ok (c_db c)" "session_user L tok c = (Inr usr, c')"
  obtains row s where "user_from_row row = Inr usr" "ur_username row = us_username usr" "row \<in> set (d_users (c_db c))"
    "s \<in> set (d_sessions (c_db c))" "se_token_hash s = token_hash L tok" "ur_id row = se_user_id s"
    "c_clock c (c_clock_pos c) < se_expires_at s" "c_db c' = c_db c"
proof -
  obtain row where row: "session_row_of (token_hash L tok) (c_clock c (c_clock_pos c)) (c_db c) = Some row"
    "user_from_row row = Inr usr" "c_db c' = c_db c" using session_user_Inr [OF assms(2)] by blast
  have "ur_username row = us_username usr" using row(2) by (auto simp: user_from_row_def res_bind_Inr)
  with row session_row_iff [OF assms(1)] show ?thesis using that by blast
qed

text \<open>
  The calls that end the sessions of a user, and the one that ends a single session.
\<close>

definition ends_session :: "foreign \<Rightarrow> auth_lib \<Rightarrow> user \<Rightarrow> string \<Rightarrow> catalog \<Rightarrow> catalog \<Rightarrow> bool" where
  "ends_session L A usr tok c t \<longleftrightarrow> (\<exists>pw. set_user_password A (us_username usr) pw c = (Inr True, t))
     \<or> remove_user (us_username usr) c = (Inr True, t) \<or> (\<exists>b. logout L tok c = (Inr b, t))"

lemma ends_session_gone:
  assumes "db_ok (c_db c)" "session_user L tok c = (Inr usr, c')" "ends_session L A usr tok c' t"
  shows "\<forall>x\<in>set (d_sessions (c_db t)). se_token_hash x \<noteq> token_hash L tok"
proof -
  obtain row s where r: "ur_username row = us_username usr" "row \<in> set (d_users (c_db c))"
    "s \<in> set (d_sessions (c_db c))" "se_token_hash s = token_hash L tok" "ur_id row = se_user_id s" "c_db c' = c_db c"
    using resolved_session [OF assms(1,2)] by metis
  have dk: "distinct (map se_token_hash (d_sessions (c_db c)))" using assms(1) by (simp add: db_ok_def sessions_ok_def)
  have ok': "db_ok (c_db c')" using assms(1) r(6) by simp
  have gone: ?thesis
    if removed: "\<forall>x\<in>set (d_sessions (c_db t)). x \<in> set (d_sessions (c_db c'))
        \<and> (\<forall>w\<in>set (d_users (c_db c')). ur_username w = us_username usr \<longrightarrow> se_user_id x \<noteq> ur_id w)"
  proof
    fix x
    assume "x \<in> set (d_sessions (c_db t))"
    then have x: "x \<in> set (d_sessions (c_db c))" "se_user_id x \<noteq> ur_id row" using removed r(1,2,6) by auto
    then show "se_token_hash x \<noteq> token_hash L tok" using key_unique [OF dk x(1) r(3)] r(4,5) by metis
  qed
  show ?thesis
    using assms(3) unfolding ends_session_def
  proof (elim disjE exE)
    fix pw
    assume "set_user_password A (us_username usr) pw c' = (Inr True, t)"
    from wp_run [OF wp_set_user_password [OF ok'] this] show ?thesis unfolding password_set_def by (intro gone) blast
  next
    assume "remove_user (us_username usr) c' = (Inr True, t)"
    from wp_run [OF wp_remove_user this] show ?thesis by (intro gone) blast
  next
    fix b
    assume "logout L tok c' = (Inr b, t)"
    from wp_run [OF wp_logout this] show ?thesis by simp
  qed
qed

text \<open>C21: A session ends with its expiry, or with its user's password, account or logout. A token
  that resolves to a user belongs to a session row: as long as no table changes it
  resolves to that user at any time before the row's expiry, and as long as no other row
  is issued for it, whatever else changes, to nobody from the expiry on. And if the user's
  password is set, the user is removed, or the token is logged out, it resolves to nobody
  afterwards, at any time.\<close>

theorem session_ends:
  assumes "db_ok (c_db c)" "session_user L tok c = (Inr usr, c')"
  shows "(\<exists>s\<in>set (d_sessions (c_db c)). se_token_hash s = token_hash L tok
       \<and> (\<forall>v. healthy v \<and> c_db v = c_db c \<and> c_clock v (c_clock_pos v) < se_expires_at s
            \<longrightarrow> fst (session_user L tok v) = Inr usr)
       \<and> (\<forall>v. healthy v \<and> (\<forall>x\<in>set (d_sessions (c_db v)). se_token_hash x = token_hash L tok \<longrightarrow> x = s)
            \<and> se_expires_at s \<le> c_clock v (c_clock_pos v) \<longrightarrow> fst (session_user L tok v) = Inl Unauthorized))
     \<and> (\<forall>t v. ends_session L A usr tok c' t \<and> c_db v = c_db t \<and> healthy v
            \<longrightarrow> fst (session_user L tok v) = Inl Unauthorized)"
proof (intro conjI allI impI)
  obtain row s where r: "user_from_row row = Inr usr" "row \<in> set (d_users (c_db c))"
    "s \<in> set (d_sessions (c_db c))" "se_token_hash s = token_hash L tok" "ur_id row = se_user_id s"
    using resolved_session [OF assms] by metis
  have before: "fst (session_user L tok v) = Inr usr"
    if v: "healthy v" "c_db v = c_db c" "c_clock v (c_clock_pos v) < se_expires_at s" for v
  proof -
    have "session_row_of (token_hash L tok) (c_clock v (c_clock_pos v)) (c_db v) = Some row"
      unfolding v(2) session_row_iff [OF assms(1)] using r v(3) by blast
    then show ?thesis using session_user_run [OF v(1)] r(1) by simp
  qed
  have after: "fst (session_user L tok v) = Inl Unauthorized"
    if v: "healthy v" "\<forall>x\<in>set (d_sessions (c_db v)). se_token_hash x = token_hash L tok \<longrightarrow> x = s"
      "se_expires_at s \<le> c_clock v (c_clock_pos v)" for v
  proof -
    have "session_row_of (token_hash L tok) (c_clock v (c_clock_pos v)) (c_db v) = None"
      by (rule session_row_None) (use v(2,3) in auto)
    then show ?thesis using session_user_run [OF v(1)] by simp
  qed
  show "\<exists>s\<in>set (d_sessions (c_db c)). se_token_hash s = token_hash L tok
       \<and> (\<forall>v. healthy v \<and> c_db v = c_db c \<and> c_clock v (c_clock_pos v) < se_expires_at s
            \<longrightarrow> fst (session_user L tok v) = Inr usr)
       \<and> (\<forall>v. healthy v \<and> (\<forall>x\<in>set (d_sessions (c_db v)). se_token_hash x = token_hash L tok \<longrightarrow> x = s)
            \<and> se_expires_at s \<le> c_clock v (c_clock_pos v) \<longrightarrow> fst (session_user L tok v) = Inl Unauthorized)"
    using r(3,4) before after by (intro bexI [of _ s] conjI) blast+
next
  fix t v
  assume "ends_session L A usr tok c' t \<and> c_db v = c_db t \<and> healthy v"
  then show "fst (session_user L tok v) = Inl Unauthorized"
    using session_user_run [of v] ends_session_gone [OF assms, of A t] session_row_None [of "c_db v"] by fastforce
qed

text \<open>C22: Setting a password is atomic: unless it reports success no table changes, whatever
  statement fails; on success the user's stored hash verifies the new password, no session
  of the user is left, and every other user is unchanged.\<close>

theorem password_change_atomic:
  assumes "phc_law A" "db_ok (c_db c)" "set_user_password A u pw c = (r, t)"
  shows "(r \<noteq> Inr True \<longrightarrow> c_db t = c_db c)
     \<and> (r = Inr True \<longrightarrow> (\<forall>x\<in>set (d_users (c_db t)). ur_username x = u \<longrightarrow> phc_verify A pw (ur_password_hash x)
          \<and> ur_id x \<notin> se_user_id ` set (d_sessions (c_db t))))
     \<and> (\<forall>x. ur_username x \<noteq> u \<longrightarrow> (x \<in> set (d_users (c_db t)) \<longleftrightarrow> x \<in> set (d_users (c_db c))))"
proof -
  note p = wp_run [OF wp_set_user_password [OF assms(2)] assms(3)]
  have success: "(\<forall>x\<in>set (d_users (c_db t)). ur_username x = u \<longrightarrow> phc_verify A pw (ur_password_hash x)
          \<and> ur_id x \<notin> se_user_id ` set (d_sessions (c_db t)))
     \<and> (\<forall>x. ur_username x \<noteq> u \<longrightarrow> (x \<in> set (d_users (c_db t)) \<longleftrightarrow> x \<in> set (d_users (c_db c))))" if r: "r = Inr True"
  proof -
    obtain salt h where h: "phc_hash A pw salt = Some h" "password_set A u h (c_db c) (c_db t)" using p r by blast
    have v: "phc_verify A pw h" using assms(1) h(1) by (simp add: phc_law_def)
    have users: "d_users (c_db t) = map (\<lambda>x. if ur_username x = u then x\<lparr> ur_password_hash := h \<rparr> else x) (d_users (c_db c))"
      using h(2) by (simp add: password_set_def)
    have one: "phc_verify A pw (ur_password_hash x) \<and> ur_id x \<notin> se_user_id ` set (d_sessions (c_db t))"
      if x: "x \<in> set (d_users (c_db t))" "ur_username x = u" for x
    proof -
      obtain y where y: "y \<in> set (d_users (c_db c))" "x = (if ur_username y = u then y\<lparr> ur_password_hash := h \<rparr> else y)"
        using x(1) unfolding users by auto
      then have n: "ur_username y = u" using x(2) by (cases "ur_username y = u") simp_all
      have "ur_id y \<notin> se_user_id ` set (d_sessions (c_db t))" using h(2) y(1) n unfolding password_set_def by fastforce
      then show ?thesis using y(2) n v by simp
    qed
    have "x \<in> set (d_users (c_db t)) \<longleftrightarrow> x \<in> set (d_users (c_db c))" if "ur_username x \<noteq> u" for x
      unfolding users using that by (auto simp: image_iff)
    then show ?thesis using one by blast
  qed
  show ?thesis
  proof (cases "r = Inr True")
    case True
    then show ?thesis using success by simp
  next
    case False
    then show ?thesis using p by simp
  qed
qed

text \<open>C23: A password change beats a login that is under way: when a login has checked the old
  password and the password is changed before the login creates its session, the login
  fails and no session is created, provided the old password does not verify against a
  hash of the new one.\<close>

theorem password_change_beats_login:
  assumes "db_ok (c_db c)" "login_check A u pw c = (Inr (usr, h), c1)" "set_user_password A u pw' c1 = (Inr True, c2)"
    and "\<forall>salt g. phc_hash A pw' salt = Some g \<longrightarrow> \<not> phc_verify A pw g"
    and "login_issue L A (usr, h) c2 = (r, t)"
  shows "\<not> is_ok r \<and> set (d_sessions (c_db t)) \<subseteq> set (d_sessions (c_db c2))"
proof -
  note p = wp_run [OF wp_login_check assms(2)]
  obtain row where row: "user_by_name u (c_db c1) = Some row" "user_from_row row = Inr usr" "h = ur_password_hash row" "phc_verify A pw h"
    using p by blast
  have ok1: "db_ok (c_db c1)"
    using inv.op_login_check [THEN moves_run, OF assms(2)] assms(1) by (simp add: keeps_ok_def)
  obtain salt g where g: "phc_hash A pw' salt = Some g"
    "d_users (c_db c2) = map (\<lambda>x. if ur_username x = u then x\<lparr> ur_password_hash := g \<rparr> else x) (d_users (c_db c1))"
    using wp_run [OF wp_set_user_password [OF ok1] assms(3)] unfolding password_set_def by blast
  have "db_ok (c_db c2)"
    using inv.op_set_user_password [THEN moves_run, OF assms(3)] ok1 by (simp add: keeps_ok_def)
  then have d2: "distinct (map ur_id (d_users (c_db c2)))" by (simp add: db_ok_def users_ok_def)
  have uid: "us_id usr = ur_id row" "row \<in> set (d_users (c_db c1))" "ur_username row = u"
    using row(2) user_by_name_SomeD [OF row(1)] by (auto simp: user_from_row_def res_bind_Inr)
  have d1: "distinct (map ur_id (d_users (c_db c1)))" using ok1 by (simp add: db_ok_def users_ok_def)
  have ne: "g \<noteq> h" using assms(4) g(1) row(4) by metis
  have none: "\<not> (\<exists>x\<in>set (d_users (c_db c2)). ur_id x = us_id usr \<and> ur_password_hash x = h)"
  proof
    assume "\<exists>x\<in>set (d_users (c_db c2)). ur_id x = us_id usr \<and> ur_password_hash x = h"
    then obtain y where y: "y \<in> set (d_users (c_db c1))" "ur_id (if ur_username y = u then y\<lparr> ur_password_hash := g \<rparr> else y) = us_id usr"
      "ur_password_hash (if ur_username y = u then y\<lparr> ur_password_hash := g \<rparr> else y) = h" unfolding g(2) by auto
    then have "ur_id y = ur_id row" using uid(1) by (cases "ur_username y = u") simp_all
    then have "y = row" using key_unique [OF d1 y(1) uid(2)] by simp
    then show False using y(3) uid(3) ne by simp
  qed
  note q = wp_run [OF wp_login_issue [OF d2] assms(5)]
  show ?thesis using q none by (cases r) auto
qed

end
