(* ===== verification/Auth_Samples.thy ===== *)
theory Auth_Samples
  imports Auth_Correct
begin

text \<open>The theorems on users and sessions at a concrete catalog with one user.\<close>

definition ref_auth :: auth_lib where
  "ref_auth = \<lparr> phc_hash = (\<lambda>pw salt. Some (CHR ''$'' # pw)), phc_verify = (\<lambda>pw h. h = CHR ''$'' # pw), base64_url = ref_b64_encode \<rparr>"

lemma ref_auth_law: "phc_law ref_auth"
  by (simp add: phc_law_def ref_auth_def)

definition first_password :: string where "first_password = ''correct-horse-battery''"
definition second_password :: string where "second_password = ''staple-staple-staple''"

definition with_alice :: "role \<Rightarrow> catalog" where
  "with_alice ro = snd (add_user_with_role ref_auth ''alice'' first_password ro sample_catalog)"

lemma passwords_valid [simp]:
  "validate_password first_password = Inr ()" "validate_password second_password = Inr ()" "validate_username ''alice'' = Inr ()"
  by (simp_all add: validate_password_def first_password_def second_password_def PASSWORD_MIN_def PASSWORD_MAX_def
    validate_username_def USERNAME_MAX_def username_char_def less_eq_char_def)

lemmas auth_run = sample_run add_user_with_role_def hash_password_def insert_user_def ref_auth_def login_def login_check_def
  enforce_login_limit_def enforce_login_limit_at_def limit_login_def query_sql_def user_by_name_def user_from_row_def
  verify_password_def login_issue_def fresh_token_def expire_sessions_def insert_session_def

lemma alice_db: "d_users (c_db (with_alice ro)) = [\<lparr> ur_id = ''u'', ur_username = ''alice'', ur_password_hash = CHR ''$'' # first_password,
     ur_role = role_str ro \<rparr>]" "d_sessions (c_db (with_alice ro)) = []" "healthy (with_alice ro)" "d_login_limits (c_db (with_alice ro)) = []"
  by (simp_all add: with_alice_def auth_run)

lemma alice_ok: "db_ok (c_db (with_alice ro))"
proof -
  have "moves keeps_ok (add_user_with_role ref_auth ''alice'' first_password ro)" by (rule inv.op_add_user)
  then have "keeps_ok (c_db sample_catalog) (c_db (with_alice ro))"
    unfolding with_alice_def by (rule moves_run) (rule surjective_pairing)
  then show ?thesis using empty_ok by (simp add: keeps_ok_def sample_catalog_def)
qed

lemma alice_login: "\<exists>s t. login ref_lib ref_auth ''alice'' first_password (with_alice ro) = (Inr s, t) \<and> us_username (ss_user s) = ''alice''
    \<and> us_role (ss_user s) = ro \<and> ss_expires_at s = 86500 \<and> healthy t \<and> c_clock t = (\<lambda>_. 100)"
  by (simp add: with_alice_def auth_run LOGIN_WINDOW_SECS_def SESSION_TTL_SECS_def)

theorem login_gives_session_witness:
  "\<exists>s t. login ref_lib ref_auth ''alice'' first_password (with_alice Operator) = (Inr s, t)
     \<and> fst (session_user ref_lib (ss_token s) t) = Inr (ss_user s)"
proof -
  obtain s t where st: "login ref_lib ref_auth ''alice'' first_password (with_alice Operator) = (Inr s, t)" "ss_expires_at s = 86500" "healthy t"
    "c_clock t = (\<lambda>_. 100)" using alice_login by blast
  show ?thesis using login_gives_session [OF alice_ok st(1)] st by auto
qed

definition logged_in :: "role \<Rightarrow> catalog" where
  "logged_in ro = snd (login ref_lib ref_auth ''alice'' first_password (with_alice ro))"

lemmas change_run = auth_run set_user_password_def in_transaction_def update_users_def revoke_sessions_def

lemma alice_changes:
  "\<exists>t. set_user_password ref_auth ''alice'' second_password (with_alice ro) = (Inr True, t)"
  "\<exists>t. set_user_password ref_auth ''alice'' second_password (logged_in ro) = (Inr True, t) \<and> healthy t"
  by (simp_all add: with_alice_def logged_in_def change_run)

lemma alice_logged_in:
  "db_ok (c_db (logged_in ro))" "\<exists>s. login ref_lib ref_auth ''alice'' first_password (with_alice ro) = (Inr s, (logged_in ro))
     \<and> us_username (ss_user s) = ''alice'' \<and> us_role (ss_user s) = ro \<and> ss_expires_at s = 86500 \<and> healthy (logged_in ro) \<and> c_clock (logged_in ro) = (\<lambda>_. 100)"
proof -
  show two: "\<exists>s. login ref_lib ref_auth ''alice'' first_password (with_alice ro) = (Inr s, (logged_in ro))
     \<and> us_username (ss_user s) = ''alice'' \<and> us_role (ss_user s) = ro \<and> ss_expires_at s = 86500 \<and> healthy (logged_in ro) \<and> c_clock (logged_in ro) = (\<lambda>_. 100)"
    using alice_login [of ro] by (auto simp: logged_in_def)
  have "moves keeps_ok (login ref_lib ref_auth ''alice'' first_password)" by (rule inv.op_login)
  then have "keeps_ok (c_db (with_alice ro)) (c_db (logged_in ro))"
    unfolding logged_in_def by (rule moves_run) (rule surjective_pairing)
  then show "db_ok (c_db (logged_in ro))" using alice_ok by (simp add: keeps_ok_def)
qed

lemma alice_session:
  "\<exists>tok usr t. session_user ref_lib tok (logged_in ro) = (Inr usr, t) \<and> us_username usr = ''alice'' \<and> us_role usr = ro \<and> c_db t = c_db (logged_in ro)
     \<and> c_fails t = []"
proof -
  obtain s where s: "login ref_lib ref_auth ''alice'' first_password (with_alice ro) = (Inr s, (logged_in ro))" "us_username (ss_user s) = ''alice''" "us_role (ss_user s) = ro"
    "ss_expires_at s = 86500" "healthy (logged_in ro)" "c_clock (logged_in ro) = (\<lambda>_. 100)" using alice_logged_in by blast
  have f: "fst (session_user ref_lib (ss_token s) (logged_in ro)) = Inr (ss_user s)"
    using login_session [OF alice_ok s(1)] s by auto
  then obtain t where t: "session_user ref_lib (ss_token s) (logged_in ro) = (Inr (ss_user s), t)" by (metis prod.collapse)
  have "c_fails (logged_in ro) = []" by (simp add: logged_in_def with_alice_def auth_run)
  then have "c_fails t = []"
    using t by (auto simp: session_user_def query_sql_def exec_sql_def now_secs_def run_simps Let_def split: option.splits)
  then show ?thesis using t s(2,3) session_user_Inr [OF t] by blast
qed

theorem session_ends_witness:
  "\<exists>tok usr c t. session_user ref_lib tok (logged_in Operator) = (Inr usr, c) \<and> logout ref_lib tok c = (Inr True, t)
     \<and> fst (session_user ref_lib tok t) = Inl Unauthorized
     \<and> (\<exists>e. fst (session_user ref_lib tok ((logged_in Operator)\<lparr> c_clock := \<lambda>_. e - 1 \<rparr>)) = Inr usr
           \<and> fst (session_user ref_lib tok ((logged_in Operator)\<lparr> c_clock := \<lambda>_. e \<rparr>)) = Inl Unauthorized)"
proof -
  obtain tok usr c where s: "session_user ref_lib tok (logged_in Operator) = (Inr usr, c)" "c_db c = c_db (logged_in Operator)" "c_fails c = []"
    using alice_session by blast
  obtain x where x: "x \<in> set (d_sessions (c_db (logged_in Operator)))" "se_token_hash x = token_hash ref_lib tok"
    using resolved_session [OF alice_logged_in(1) s(1)] by metis
  then have "filter (\<lambda>s. se_token_hash s = token_hash ref_lib tok) (d_sessions (c_db c)) \<noteq> []"
    using s(2) by (auto simp: filter_empty_conv)
  then obtain t where t: "logout ref_lib tok c = (Inr True, t)" "healthy t"
    using s(3) by (simp add: logout_def exec_sql_def run_simps Let_def healthy_def)
  note ends = session_ends [OF alice_logged_in(1) s(1), where A = ref_auth]
  have h: "healthy (logged_in Operator)" using alice_logged_in by blast
  have dk: "distinct (map se_token_hash (d_sessions (c_db (logged_in Operator))))"
    using alice_logged_in(1) by (simp add: db_ok_def sessions_ok_def)
  have only: "\<forall>y\<in>set (d_sessions (c_db (logged_in Operator))). se_token_hash y = token_hash ref_lib tok \<longrightarrow> y = z"
    if "z \<in> set (d_sessions (c_db (logged_in Operator)))" "se_token_hash z = token_hash ref_lib tok" for z
    using key_unique [OF dk] that by metis
  have "\<exists>e. fst (session_user ref_lib tok ((logged_in Operator)\<lparr> c_clock := \<lambda>_. e - 1 \<rparr>)) = Inr usr
           \<and> fst (session_user ref_lib tok ((logged_in Operator)\<lparr> c_clock := \<lambda>_. e \<rparr>)) = Inl Unauthorized"
  proof -
    obtain z where z: "z \<in> set (d_sessions (c_db (logged_in Operator)))" "se_token_hash z = token_hash ref_lib tok"
      "\<forall>v. healthy v \<and> c_db v = c_db (logged_in Operator) \<and> c_clock v (c_clock_pos v) < se_expires_at z
            \<longrightarrow> fst (session_user ref_lib tok v) = Inr usr"
      "\<forall>v. healthy v \<and> (\<forall>x\<in>set (d_sessions (c_db v)). se_token_hash x = token_hash ref_lib tok \<longrightarrow> x = z)
            \<and> se_expires_at z \<le> c_clock v (c_clock_pos v) \<longrightarrow> fst (session_user ref_lib tok v) = Inl Unauthorized"
      using ends [THEN conjunct1] by blast
    have h': "healthy ((logged_in Operator)\<lparr> c_clock := f \<rparr>)" for f using h by (simp add: healthy_def)
    show ?thesis
      by (rule exI [of _ "se_expires_at z"], rule conjI; rule z(3,4) [rule_format])
        (use h' only [OF z(1,2)] in simp_all)
  qed
  moreover have "ends_session ref_lib ref_auth usr tok c t" using t(1) by (auto simp: ends_session_def)
  then have "fst (session_user ref_lib tok t) = Inl Unauthorized" using ends [THEN conjunct2] t(2) by blast
  ultimately show ?thesis using s(1) t(1) by blast
qed

theorem password_change_atomic_witness:
  "\<exists>t. set_user_password ref_auth ''alice'' second_password (logged_in Operator) = (Inr True, t)
     \<and> (\<forall>x\<in>set (d_users (c_db t)). ur_username x = ''alice'' \<longrightarrow> ur_id x \<notin> se_user_id ` set (d_sessions (c_db t)))"
proof -
  obtain t where t: "set_user_password ref_auth ''alice'' second_password (logged_in Operator) = (Inr True, t)" using alice_changes(2) by blast
  show ?thesis using t password_change_atomic [OF ref_auth_law alice_logged_in(1) t] by blast
qed

theorem password_change_beats_login_witness:
  "\<exists>usr h c t r v. login_check ref_auth ''alice'' first_password (with_alice Operator) = (Inr (usr, h), c)
     \<and> set_user_password ref_auth ''alice'' second_password c = (Inr True, t)
     \<and> login_issue ref_lib ref_auth (usr, h) t = (r, v) \<and> \<not> is_ok r"
proof -
  have "\<exists>usr h c t. login_check ref_auth ''alice'' first_password (with_alice Operator) = (Inr (usr, h), c)
     \<and> set_user_password ref_auth ''alice'' second_password c = (Inr True, t)"
    by (simp add: with_alice_def change_run role_from_str_def)
  then obtain usr h c t where ct: "login_check ref_auth ''alice'' first_password (with_alice Operator) = (Inr (usr, h), c)"
    "set_user_password ref_auth ''alice'' second_password c = (Inr True, t)" by blast
  obtain r v where rv: "login_issue ref_lib ref_auth (usr, h) t = (r, v)" by fastforce
  have "\<forall>salt g. phc_hash ref_auth second_password salt = Some g \<longrightarrow> \<not> phc_verify ref_auth first_password g"
    by (simp add: ref_auth_def first_password_def second_password_def)
  from password_change_beats_login [OF alice_ok ct this rv] show ?thesis using ct rv by blast
qed

end
