(* ===== verification/Api_Correct.thy ===== *)
theory Api_Correct
  imports Api Auth_Samples
begin

text \<open>
  Access control of the API: without a session a protected route answers 401, below the
  role a route requires it answers 403, and in both cases no table changes; what a viewer
  can change at all, and who can change accounts.
\<close>

section \<open>Handlers along a relation\<close>

definition handler_moves :: "(database \<Rightarrow> database \<Rightarrow> bool) \<Rightarrow> ('e, 'a) outcome \<Rightarrow> bool" where
  "handler_moves R h \<longleftrightarrow> (\<forall>c r t. h c = (r, t) \<longrightarrow> R (c_db c) (c_db t))"

lemma handler_run: "handler_moves R h \<Longrightarrow> h c = (r, t) \<Longrightarrow> R (c_db c) (c_db t)"
  by (simp add: handler_moves_def)

context table_relation
begin

lemma h_reply: "handler_moves R (reply a)"
  by (simp add: handler_moves_def reply_def)

lemma h_reject: "handler_moves R (reject e)"
  by (simp add: handler_moves_def reject_def)

lemma h_check: "handler_moves R (check x)"
  by (simp add: handler_moves_def check_def)

lemma h_call:
  assumes "moves R m"
  shows "handler_moves R (call g m)"
  unfolding handler_moves_def
proof (intro allI impI)
  fix c r t
  assume "call g m c = (r, t)"
  then obtain s where "m c = (s, t)" by (auto simp: call_def split: prod.splits sum.splits)
  then show "R (c_db c) (c_db t)" by (rule moves_run [OF assms])
qed

lemma h_ignoring: "moves R m \<Longrightarrow> handler_moves R (ignoring m)"
  unfolding handler_moves_def ignoring_def by (metis moves_run prod.collapse prod.inject)

lemma h_then:
  assumes "handler_moves R h" "\<And>a. handler_moves R (f a)"
  shows "handler_moves R (then_do h f)"
  unfolding handler_moves_def
proof (intro allI impI)
  fix c r t
  assume run: "then_do h f c = (r, t)"
  obtain s u where h: "h c = (s, u)" by fastforce
  have "R (c_db u) (c_db t)"
    using run h handler_run [OF assms(2)] by (cases s) (auto simp: then_do_def)
  then show "R (c_db c) (c_db t)" by (rule along [OF handler_run [OF assms(1) h]])
qed

lemma h_role: "handler_moves R (require_min_role u r)"
  by (simp add: require_min_role_def h_reply h_reject)

lemmas h_intros = h_then h_reply h_reject h_check h_role

lemma reads:
  "moves R (session_user L tok)" "moves R list_hosts" "moves R (get_host i)" "moves R (get_host_with_key L i mk)"
  "moves R (list_snapshots_for_host h n)" "moves R (list_jobs nul h p s a b)" "moves R list_policies" "moves R (audit_log n)"
  "moves R (lift_res x)" "moves R catalog_uuid"
  unfolding session_user_def list_hosts_def get_host_def get_host_with_key_def list_snapshots_for_host_def list_jobs_def
    list_policies_def audit_log_def
  by (intro moves_intros; (simp split: option.splits add: move_raise move_lift)?)+

lemma h_readers:
  "handler_moves R (api_me u)" "handler_moves R (api_list_hosts E)" "handler_moves R (api_host_snapshots E i)"
  "handler_moves R (api_list_jobs E)" "handler_moves R (api_list_policies E)" "handler_moves R (api_audit_log E)"
  "handler_moves R (api_stats E)" "handler_moves R (api_alerts E)"
  unfolding api_me_def api_list_hosts_def api_host_snapshots_def api_list_jobs_def api_list_policies_def api_audit_log_def
    api_stats_def api_alerts_def
  by (intro h_intros h_call reads)+

lemma h_jobs_ws: "handler_moves R (api_jobs_ws L tok)"
  unfolding api_jobs_ws_def by (cases tok) (simp_all only: option.case, (intro h_intros h_call reads)+)

end

text \<open>
  A relation the status of a host, the audit log and a logout follow is followed by every
  handler without a role gate.
\<close>

locale api_relation = table_relation +
  assumes o_status: "moves R (set_host_status i st)"
    and o_audit: "moves R (audit u a x)"
    and o_logout: "moves R (logout L tok)"
begin

lemma h_logout: "handler_moves R (api_logout L E header)"
  unfolding api_logout_def
  by (cases "bearer header") (simp_all only: option.case, (intro h_intros h_call h_ignoring o_logout o_audit)+)

lemma h_test_host: "handler_moves R (api_test_host L E mk i)"
  unfolding api_test_host_def Let_def case_prod_beta by (intro h_intros h_call h_ignoring reads o_status)

end

lemma reject_then [simp]: "then_do (reject e) f = reject e"
  by (rule ext) (simp add: then_do_def reject_def)

lemma reply_then [simp]: "then_do (reply a) f = f a"
  by (rule ext) (simp add: then_do_def reply_def)

section \<open>What a reader can change\<close>

definition reader_frame :: "database \<Rightarrow> database \<Rightarrow> bool" where
  "reader_frame d d' \<longleftrightarrow> d_policies d' = d_policies d \<and> d_host_policies d' = d_host_policies d \<and> d_jobs d' = d_jobs d
     \<and> d_snapshots d' = d_snapshots d \<and> d_users d' = d_users d \<and> d_login_limits d' = d_login_limits d
     \<and> map (\<lambda>h. h\<lparr> hr_status := [] \<rparr>) (d_hosts d') = map (\<lambda>h. h\<lparr> hr_status := [] \<rparr>) (d_hosts d)
     \<and> set (d_sessions d') \<subseteq> set (d_sessions d)"

interpretation rf0: table_relation reader_frame
  by unfold_locales (auto simp: reader_frame_def)

lemma rf_status: "moves reader_frame (set_host_status i st)"
proof -
  have "map (\<lambda>h. h\<lparr> hr_status := [] \<rparr>) (map (\<lambda>h. if hr_id h = i then h\<lparr> hr_status := s \<rparr> else h) hs)
      = map (\<lambda>h. h\<lparr> hr_status := [] \<rparr>) hs" for s hs
    by (induction hs) auto
  then have "moves_stmt reader_frame (update_hosts i (\<lambda>h. h\<lparr> hr_status := status_str st \<rparr>))"
    by (auto simp: moves_stmt_def update_hosts_def reader_frame_def simp del: map_map)
  then show ?thesis unfolding set_host_status_def by (intro rf0.move_if rf0.moves_intros rf0.move_exec)
qed

lemma rf_audit: "moves reader_frame (audit u a x)"
proof -
  have "moves_stmt reader_frame (\<lambda>d. if P d then Inl e else Inr ((), d\<lparr> d_audit_log := f d \<rparr>))" for P e f
    by (auto simp: moves_stmt_def reader_frame_def split: if_splits)
  then show ?thesis unfolding audit_def by (intro rf0.moves_intros rf0.move_exec)
qed

lemma rf_logout: "moves reader_frame (logout L tok)"
proof -
  have "moves_stmt reader_frame (\<lambda>d. Inr (g d, d\<lparr> d_sessions := filter (P d) (d_sessions d) \<rparr>))" for g :: "database \<Rightarrow> nat" and P
    by (auto simp: moves_stmt_def reader_frame_def)
  then show ?thesis unfolding logout_def by (intro rf0.moves_intros rf0.move_exec)
qed

interpretation rf: api_relation reader_frame
  by unfold_locales (rule rf_status rf_audit rf_logout)+

lemma role_rejected: "us_role u < least \<Longrightarrow> \<exists>m. \<forall>f. then_do (require_min_role u least) f = reject (forbidden m)"
  by (simp add: require_min_role_def not_le [symmetric]) metis

section \<open>The access matrix\<close>

text \<open>The role each route requires, as the API documents it.\<close>

fun required_role :: "request \<Rightarrow> role" where
  "required_role List_Users = Admin"
| "required_role (Add_User _ _ _) = Admin"
| "required_role (Remove_User _) = Admin"
| "required_role (Set_Role _ _) = Admin"
| "required_role (Rotate_Host_Key _ _) = Admin"
| "required_role (Add_Host _ _ _ _ _ _) = Operator"
| "required_role (Remove_Host _) = Operator"
| "required_role (Trigger _ _ _ _) = Operator"
| "required_role (Add_Policy _) = Operator"
| "required_role (Restore _ _ _) = Operator"
| "required_role (Remove_Policy _) = Operator"
| "required_role _ = Viewer"

lemma viewer_least: "\<not> r < Viewer"
  by (simp add: less_role_def)

lemma serve_rejected:
  assumes "us_role u < required_role req"
  shows "\<exists>m. serve L A E mk header req u = reject (forbidden m)"
proof -
  obtain m where "\<forall>f :: unit \<Rightarrow> api_value handler. then_do (require_min_role u (required_role req)) f = reject (forbidden m)"
    using role_rejected [OF assms] by blast
  then show ?thesis using assms
    by (cases req) (auto simp: viewer_least api_list_users_def api_add_user_def api_remove_user_def api_set_role_def
      api_rotate_host_key_def api_add_host_def api_remove_host_def api_trigger_def api_add_policy_def api_remove_policy_def api_restore_def)
qed

lemma wp_session_db: "session_user L tok c = (r, t) \<Longrightarrow> c_db t = c_db c"
  by (auto simp: session_user_def query_sql_def exec_sql_def now_secs_def run_simps Let_def split: option.splits if_splits)

lemma require_session_db: "require_session L header query c = (r, t) \<Longrightarrow> c_db t = c_db c \<and> (\<forall>e. r = Inl e \<longrightarrow> er_status e = 401)"
  by (auto simp: require_session_def reject_def call_def unauthorized_def dest: wp_session_db split: option.splits prod.splits sum.splits)

text \<open>Handlers that never answer 403: every handler behind its role check.\<close>

definition open_to :: "'a handler \<Rightarrow> bool" where
  "open_to h \<longleftrightarrow> (\<forall>c e t. h c = (Inl e, t) \<longrightarrow> er_status e \<noteq> 403)"

lemma open_reply: "open_to (reply a)"
  by (simp add: open_to_def reply_def)

lemma open_reject: "er_status e \<noteq> 403 \<Longrightarrow> open_to (reject e)"
  by (simp add: open_to_def reject_def)

lemma open_then: "open_to h \<Longrightarrow> (\<And>a. open_to (f a)) \<Longrightarrow> open_to (then_do h f)"
  unfolding open_to_def then_do_def by (auto split: prod.splits sum.splits)

lemma open_call: "(\<And>e. er_status (g e) \<noteq> 403) \<Longrightarrow> open_to (call g m)"
  unfolding open_to_def call_def by (auto split: prod.splits sum.splits)

lemma open_ignoring: "open_to (ignoring m)"
  by (simp add: open_to_def ignoring_def)

lemma open_check: "(\<And>e. x = Inl e \<Longrightarrow> er_status e \<noteq> 403) \<Longrightarrow> open_to (check x)"
  by (auto simp: open_to_def check_def)

lemma open_role: "least \<le> us_role u \<Longrightarrow> open_to (require_min_role u least)"
  by (simp add: require_min_role_def open_reply)

lemma open_if: "open_to h \<Longrightarrow> open_to k \<Longrightarrow> open_to (if b then h else k)"
  by simp

lemma error_statuses [simp]:
  "er_status (unauthorized m) = 401" "er_status (bad_request m) = 400" "er_status (not_found m) = 404"
  "er_status (too_many_requests m) = 429" "er_status (internal m) = 500" "er_status (core_err E e) = 500"
  "er_status (unknown_role r e) = 400" "er_status (forbidden m) = 403"
  by (simp_all add: unauthorized_def bad_request_def not_found_def too_many_requests_def internal_def core_err_def
      unknown_role_def forbidden_def)

lemma mapped_statuses:
  "er_status (input_err E e) \<noteq> 403" "er_status (restore_err E i e) \<noteq> 403" "er_status (open_fault_err f) \<noteq> 403"
  by (simp_all add: input_err_def restore_err_def open_fault_err_def split: error.splits open_fault.splits)

lemma checked_statuses:
  "host_auth E pem = Inl e \<Longrightarrow> er_status e \<noteq> 403" "own_repo E = Inl e \<Longrightarrow> er_status e \<noteq> 403"
  "map_sum open_fault_err id x = Inl e \<Longrightarrow> er_status e \<noteq> 403"
  using mapped_statuses(3)
  by (cases x; auto simp: host_auth_def own_repo_def split: if_splits option.splits)+

lemmas open_intros = open_then open_reply open_call open_ignoring open_check open_if

lemma open_agentless: "open_to (agentless_part L E u i h ps ref)"
  unfolding agentless_part_def by (intro open_intros) (auto split: sum.splits)

lemma serve_open:
  assumes "required_role req \<le> us_role u"
  shows "open_to (serve L A E mk header req u)"
proof (cases req)
  case (Trigger h ps ref ag)
  then show ?thesis using assms
    unfolding Trigger serve.simps required_role.simps api_trigger_def Let_def
    by (intro open_intros open_role open_agentless)
      (auto simp: checked_statuses intro!: open_intros open_agentless open_reject split: option.splits agent_outcome.splits)
qed (use assms in \<open>simp_all only: serve.simps required_role.simps api_logout_def api_me_def api_list_users_def api_add_user_def
    api_remove_user_def api_set_role_def api_add_host_def api_list_hosts_def api_remove_host_def api_test_host_def
    api_rotate_host_key_def api_host_snapshots_def api_list_jobs_def api_jobs_ws_def api_list_policies_def api_add_policy_def
    api_remove_policy_def api_audit_log_def api_restore_def api_stats_def api_alerts_def Let_def case_prod_beta,
    auto intro!: open_intros open_role open_reject simp: mapped_statuses checked_statuses split: option.splits\<close>)

text \<open>C19: The access matrix of the API: a protected route without a valid session answers 401, and
  with one it answers 403 exactly when the user's role is below the one the route requires
  (user and key management require an admin, other mutations an operator); in both cases no
  table changes.\<close>

theorem api_access_matrix:
  assumes "protected_route L A E mk header query req c = (r, t)"
  shows "case require_session L header query c of
       (Inl e, _) \<Rightarrow> r = Inl e \<and> er_status e = 401 \<and> c_db t = c_db c
     | (Inr u, _) \<Rightarrow> ((\<exists>e. r = Inl e \<and> er_status e = 403) \<longleftrightarrow> us_role u < required_role req)
         \<and> (us_role u < required_role req \<longrightarrow> c_db t = c_db c)"
proof -
  obtain s c' where ses: "require_session L header query c = (s, c')" by fastforce
  note db = require_session_db [OF ses]
  show ?thesis
  proof (cases s)
    case (Inl e)
    then show ?thesis using assms ses db by (simp add: protected_route_def then_do_def)
  next
    case (Inr u)
    have run: "serve L A E mk header req u c' = (r, t)" using assms ses Inr by (simp add: protected_route_def then_do_def)
    show ?thesis
    proof (cases "us_role u < required_role req")
      case True
      obtain m where m: "serve L A E mk header req u = reject (forbidden m)" using serve_rejected [OF True] by blast
      show ?thesis using run ses db Inr m True by (auto simp: reject_def)
    next
      case False
      then have "open_to (serve L A E mk header req u)" by (intro serve_open) simp
      then show ?thesis using run ses Inr False by (auto simp: open_to_def)
    qed
  qed
qed

context api_relation
begin

lemma h_viewer: "required_role req = Viewer \<Longrightarrow> handler_moves R (serve L A E mk header req u)"
  by (cases req) (simp_all add: h_readers h_jobs_ws h_logout h_test_host)

end

lemma serve_viewer:
  assumes "us_role u = Viewer"
  shows "handler_moves reader_frame (serve L A E mk header req u)"
proof (cases "required_role req = Viewer")
  case False
  then have "us_role u < required_role req" using assms by (cases "required_role req") (simp_all add: less_role_def)
  then show ?thesis using serve_rejected rf0.h_reject by metis
qed (rule rf.h_viewer)

text \<open>C29: A viewer reads: whatever protected route a viewer calls, no user, policy, job, snapshot or
  login limit changes, no session is created, and a host changes at most in its reachability
  status, which the connection test updates without a role check.\<close>

theorem viewer_reads_only:
  assumes "protected_route L A E mk header query req c = (r, t)"
    and "require_session L header query c = (Inr u, c')" "us_role u = Viewer"
  shows "reader_frame (c_db c) (c_db t)"
proof -
  have "serve L A E mk header req u c' = (r, t)" using assms(1,2) by (simp add: protected_route_def then_do_def)
  then have "reader_frame (c_db c') (c_db t)" by (rule handler_run [OF serve_viewer [OF assms(3)]])
  then show ?thesis using require_session_db [OF assms(2)] by simp
qed

section \<open>Accounts\<close>

definition same_accounts :: "database \<Rightarrow> database \<Rightarrow> bool" where
  "same_accounts d d' \<longleftrightarrow> d_users d' = d_users d"

interpretation sa0: table_relation same_accounts
  by unfold_locales (auto simp: same_accounts_def)

lemma sa_stmts:
  "moves_stmt same_accounts (insert_host row)" "moves_stmt same_accounts (update_hosts i f)" "moves_stmt same_accounts (delete_host i)"
  "moves_stmt same_accounts (\<lambda>d. if P d then Inl e else Inr ((), d\<lparr> d_audit_log := g d \<rparr>))" "moves_stmt same_accounts (insert_policy p)"
  "moves_stmt same_accounts (delete_policy i)" "moves_stmt same_accounts (insert_snapshot sn)"
  "moves_stmt same_accounts (\<lambda>d. Inr ((k :: database \<Rightarrow> nat) d, d\<lparr> d_sessions := filter (Q d) (d_sessions d) \<rparr>))"
  by (auto simp: moves_stmt_def same_accounts_def insert_host_def update_hosts_def delete_host_def insert_policy_def
    delete_policy_def insert_snapshot_def Let_def split: if_splits)

lemma sa_ops:
  "moves same_accounts (set_host_status i st)" "moves same_accounts (audit u a x)" "moves same_accounts (logout L tok)"
  "moves same_accounts (add_host L nm ad p us pem mode key)" "moves same_accounts (remove_host i)" "moves same_accounts (add_policy q)"
  "moves same_accounts (remove_policy i)" "moves same_accounts (record_snapshot s h j ref n)"
  unfolding set_host_status_def audit_def logout_def add_host_def seal_host_key_def fresh_nonce_def remove_host_def add_policy_def
    remove_policy_def record_snapshot_def Let_def
  by (intro sa0.move_if sa0.moves_intros sa0.move_exec sa_stmts)+

interpretation sa: api_relation same_accounts
  by unfold_locales (rule sa_ops)+

lemma moves_weaken: "moves R m \<Longrightarrow> (\<And>d d'. R d d' \<Longrightarrow> S d d') \<Longrightarrow> moves S m"
  unfolding moves_iff by blast

lemma sa_if: "(b \<Longrightarrow> handler_moves same_accounts h) \<Longrightarrow> (\<not> b \<Longrightarrow> handler_moves same_accounts k) \<Longrightarrow>
  handler_moves same_accounts (if b then h else k)"
  by simp

lemmas sa_intros = sa_if sa0.h_intros sa0.h_call sa0.h_ignoring sa0.reads sa_ops

lemma sa_agentless: "handler_moves same_accounts (agentless_part L E u i h ps ref)"
  unfolding agentless_part_def by (intro sa_intros)

lemma sa_trigger: "handler_moves same_accounts (api_trigger L E mk u i ps ref ag)"
  unfolding api_trigger_def Let_def
  by (intro sa_intros sa_agentless) (simp split: agent_outcome.splits, intro conjI allI impI sa_intros sa_agentless)

lemma sa_operator:
  "handler_moves same_accounts (api_add_host L E mk u nm ad p us pem md)" "handler_moves same_accounts (api_remove_host E u i)"
  "handler_moves same_accounts (api_add_policy E u q)" "handler_moves same_accounts (api_remove_policy E u i)"
  "handler_moves same_accounts (api_restore E u i pa tg)"
  unfolding api_add_host_def api_remove_host_def api_add_policy_def api_remove_policy_def api_restore_def
  by (intro sa_intros)+

lemma serve_accounts:
  assumes "us_role u < Admin"
  shows "handler_moves same_accounts (serve L A E mk header req u)"
proof (cases "required_role req")
  case Admin
  then show ?thesis using serve_rejected assms sa0.h_reject by metis
next
  case Operator
  then show ?thesis by (cases req) (simp_all add: sa_operator sa_trigger)
qed (rule sa.h_viewer)

definition keeps_row :: "user_row \<Rightarrow> database \<Rightarrow> database \<Rightarrow> bool" where
  "keeps_row row d d' \<longleftrightarrow> (row \<in> set (d_users d) \<longrightarrow> row \<in> set (d_users d'))"

interpretation kr: table_relation "keeps_row row" for row
  by unfold_locales (auto simp: keeps_row_def)

lemma keeps_other: "n \<noteq> ur_username row \<Longrightarrow> moves (keeps_row row) (remove_user n)"
proof -
  assume "n \<noteq> ur_username row"
  then have "moves_stmt (keeps_row row) (delete_user n)" by (auto simp: moves_stmt_def keeps_row_def delete_user_def Let_def)
  then show ?thesis unfolding remove_user_def by (intro kr.moves_intros kr.move_exec)
qed

lemma remove_keeps_own:
  assumes "ur_username row = us_username u"
  shows "handler_moves (keeps_row row) (api_remove_user E u n)"
proof -
  have audits: "moves (keeps_row row) (audit x a y)" for x a y
    using sa_ops(2) by (rule moves_weaken) (simp add: same_accounts_def keeps_row_def)
  show ?thesis
    using keeps_other [of n row] assms
    by (auto simp: api_remove_user_def intro!: kr.h_intros kr.h_call kr.h_ignoring audits)
qed

text \<open>C30: Accounts belong to admins: whatever protected route a user below admin calls, no user
  record (name, password hash, role) is added, removed or changed; and an admin's own
  account survives every call to remove a user.\<close>

theorem accounts_need_admin:
  assumes "protected_route L A E mk header query req c = (r, t)"
    and "require_session L header query c = (Inr u, c')"
  shows "(us_role u \<noteq> Admin \<longrightarrow> d_users (c_db t) = d_users (c_db c))
     \<and> (\<forall>n row. req = Remove_User n \<longrightarrow> row \<in> set (d_users (c_db c)) \<longrightarrow> ur_username row = us_username u
          \<longrightarrow> row \<in> set (d_users (c_db t)))"
proof -
  have s: "serve L A E mk header req u c' = (r, t)" using assms by (simp add: protected_route_def then_do_def)
  have db: "c_db c' = c_db c" using require_session_db [OF assms(2)] by simp
  have "d_users (c_db t) = d_users (c_db c)" if "us_role u \<noteq> Admin"
  proof -
    have "us_role u < Admin" using that by (cases "us_role u") (simp_all add: less_role_def)
    from handler_run [OF serve_accounts [OF this] s] show ?thesis using db by (simp add: same_accounts_def)
  qed
  moreover have "row \<in> set (d_users (c_db t))"
    if req: "req = Remove_User n" and row: "row \<in> set (d_users (c_db c))" "ur_username row = us_username u" for n row
  proof -
    have "api_remove_user E u n c' = (r, t)" using s req by simp
    from handler_run [OF remove_keeps_own [OF row(2)] this] show ?thesis using row(1) db by (simp add: keeps_row_def)
  qed
  ultimately show ?thesis by blast
qed

section \<open>Requests\<close>

definition no_remote :: remote where
  "no_remote = \<lparr> rm_show = (\<lambda>_. ''error''), rm_password = None, rm_passphrase = None, rm_utf8 = (\<lambda>_. True),
     rm_key_error = (\<lambda>_. None), rm_connect = (\<lambda>_. None), rm_open_repo = (\<lambda>_. Inr ''/repo''),
     rm_agent = (\<lambda>_ _. Agent_Failed ''none''), rm_backup = (\<lambda>_ _. Inl ''none''), rm_find_bytes = (\<lambda>_. None), rm_null = Some 0,
     rm_own_repo = Some ''none'', rm_restore = (\<lambda>_ _ _. Inl (SnapshotNotFound ''none'')), rm_stats = Inl (SnapshotNotFound ''none''),
     rm_floats = \<lparr> f_int = word_of_int, f_zero = 0, f_add = (+), f_show = (\<lambda>w. show_int (uint w)) \<rparr>, rm_uptime = None \<rparr>"

lemma sample_request:
  "\<exists>tok u c. require_session ref_lib (Some (''Bearer '' @ tok)) None (logged_in ro) = (Inr u, c) \<and> us_username u = ''alice'' \<and> us_role u = ro"
proof -
  obtain tok usr t where s: "session_user ref_lib tok (logged_in ro) = (Inr usr, t)" "us_username usr = ''alice''" "us_role usr = ro"
    using alice_session by blast
  have "request_token (Some (''Bearer '' @ tok)) None = Some tok"
    by (simp add: request_token_def bearer_def strip_prefix_def starts_with_def)
  then have "require_session ref_lib (Some (''Bearer '' @ tok)) None (logged_in ro) = (Inr usr, t)"
    using s(1) by (simp add: require_session_def call_def)
  then show ?thesis using s(2,3) by blast
qed

theorem api_access_matrix_witness:
  "\<exists>hdr r t. protected_route ref_lib ref_auth no_remote [] hdr None List_Users (logged_in Viewer) = (r, t)
     \<and> (\<exists>e. r = Inl e \<and> er_status e = 403) \<and> c_db t = c_db (logged_in Viewer)"
proof -
  obtain tok u c where s: "require_session ref_lib (Some (''Bearer '' @ tok)) None (logged_in Viewer) = (Inr u, c)" "us_role u = Viewer"
    using sample_request by blast
  obtain r t where run: "protected_route ref_lib ref_auth no_remote [] (Some (''Bearer '' @ tok)) None List_Users (logged_in Viewer) = (r, t)"
    by fastforce
  have low: "us_role u < required_role List_Users" by (simp add: s(2) less_role_def)
  have "(\<exists>e. r = Inl e \<and> er_status e = 403) \<and> c_db t = c_db (logged_in Viewer)"
    using api_access_matrix [OF run, unfolded s(1) prod.case sum.case] low by blast
  then show ?thesis using run by blast
qed

theorem viewer_reads_only_witness:
  "\<exists>hdr r t. protected_route ref_lib ref_auth no_remote [] hdr None (Remove_User ''alice'') (logged_in Viewer) = (r, t)
     \<and> d_users (c_db t) = d_users (c_db (logged_in Viewer))"
proof -
  obtain tok u c where s: "require_session ref_lib (Some (''Bearer '' @ tok)) None (logged_in Viewer) = (Inr u, c)" "us_role u = Viewer"
    using sample_request by blast
  obtain r t where run: "protected_route ref_lib ref_auth no_remote [] (Some (''Bearer '' @ tok)) None (Remove_User ''alice'') (logged_in Viewer) = (r, t)"
    by fastforce
  show ?thesis using viewer_reads_only [OF run s] run by (auto simp: reader_frame_def)
qed

theorem accounts_need_admin_witness:
  "\<exists>hdr r t. protected_route ref_lib ref_auth no_remote [] hdr None (Remove_User ''alice'') (logged_in Operator) = (r, t)
     \<and> d_users (c_db t) = d_users (c_db (logged_in Operator))"
proof -
  obtain tok u c where s: "require_session ref_lib (Some (''Bearer '' @ tok)) None (logged_in Operator) = (Inr u, c)" "us_role u = Operator"
    using sample_request by blast
  obtain r t where run: "protected_route ref_lib ref_auth no_remote [] (Some (''Bearer '' @ tok)) None (Remove_User ''alice'') (logged_in Operator) = (r, t)"
    by fastforce
  show ?thesis using accounts_need_admin [OF run s(1)] s(2) run by auto
qed

end
