(* ===== verification/Console_Correct.thy ===== *)
theory Console_Correct
  imports Console Api_Correct
begin

text \<open>
  The commands of the console keep the catalog consistent, a host is found by what names it
  alone, and a run over all hosts reports every host once, whatever fails.
\<close>

section \<open>The catalog\<close>

context machine_relation
begin

lemma h_audit_if: "handler_moves R (audit_if b action target)"
  by (simp add: audit_if_def h_reply h_ignoring op_audit)

lemma o_users: "moves R list_users"
  unfolding list_users_def by (intro moves_intros; (simp split: option.splits add: move_raise move_lift)?)+

lemma h_session: "handler_moves R (run_session L A K cmd)"
  by (cases cmd) (simp_all only: run_session.simps,
    (intro h_intros h_call h_ignoring op_login op_logout op_audit reads)+)

lemma h_user: "handler_moves R (run_user A K cmd)"
  by (cases cmd) (simp_all only: run_user.simps,
    (intro h_intros h_call h_ignoring h_audit_if op_add_user op_remove_user op_set_user_password op_set_user_role
      op_audit o_users)+)

lemma h_policy: "handler_moves R (run_policy K cmd)"
  by (cases cmd) (simp_all only: run_policy.simps Let_def,
    (intro h_intros h_call h_ignoring h_audit_if op_add_policy op_remove_policy op_audit reads)+)

lemma h_find_host: "handler_moves R (find_host K given)"
  unfolding find_host_def by (intro h_intros h_call reads)

lemma h_case: "(\<And>a b. handler_moves R (f a b)) \<Longrightarrow> handler_moves R (case p of (a, b) \<Rightarrow> f a b)"
  by (cases p) simp

lemma h_host: "handler_moves R (run_host L K mk cmd)"
  by (cases cmd) (simp_all only: run_host.simps,
    (intro h_intros h_case h_call h_ignoring h_find_host op_add_host op_remove_host op_audit reads)+)

lemma h_job_list: "handler_moves R (run_job_list K host status limit)"
  unfolding run_job_list_def
  by (cases host) (simp_all only: option.case, (intro h_intros h_call h_find_host reads)+)

lemma h_host_run: "handler_moves R (host_run L K mk insecure bk h)"
  unfolding handler_moves_def host_run_def
  by (auto split: prod.splits sum.splits dest: moves_run [OF reads(4)])

lemma h_host_runs: "handler_moves R (host_runs L K mk insecure bk hs)"
  by (induction hs) (simp_all only: host_runs.simps, (intro h_intros h_host_run)+)

lemma h_record_status: "handler_moves R (record_status rs)"
  by (induction rs) (simp_all only: record_status.simps, (intro h_intros h_ignoring op_set_host_status)+)

lemma h_backup_all: "handler_moves R (backup_all L K mk insecure bk join)"
  unfolding handler_moves_def
proof (intro allI impI)
  fix c r t
  assume run: "backup_all L K mk insecure bk join c = (r, t)"
  obtain q u where l: "list_hosts c = (q, u)" by fastforce
  have first: "R (c_db c) (c_db u)" by (rule moves_run [OF reads(2) l])
  show "R (c_db c) (c_db t)"
  proof (cases q)
    case (Inl e)
    then show ?thesis using run l first by (simp add: backup_all_def)
  next
    case (Inr hosts)
    have "handler_moves R (then_do (host_runs L K mk insecure bk hosts) (\<lambda>rs. then_do (record_status (join rs)) (\<lambda>_. reply (join rs))))"
      by (intro h_intros h_host_runs h_record_status)
    then have "R (c_db u) (c_db t)" using run l Inr handler_run by (fastforce simp: backup_all_def)
    then show ?thesis by (rule along [OF first])
  qed
qed

end

text \<open>Every command of the console keeps the invariant of the catalog.\<close>

lemma handler_keeps_ok: "handler_moves keeps_ok h \<Longrightarrow> db_ok (c_db c) \<Longrightarrow> h c = (r, t) \<Longrightarrow> db_ok (c_db t)"
  unfolding handler_moves_def keeps_ok_def by blast

lemmas console_keeps_ok = inv.h_user [THEN handler_keeps_ok] inv.h_session [THEN handler_keeps_ok]
  inv.h_policy [THEN handler_keeps_ok] inv.h_host [THEN handler_keeps_ok] inv.h_job_list [THEN handler_keeps_ok] inv.h_backup_all [THEN handler_keeps_ok]

section \<open>Finding a host\<close>

lemma find_host_found:
  assumes "find_host K given c = (Inr h, t)"
  shows "\<exists>hosts. list_hosts c = (Inr hosts, t) \<and> h \<in> set hosts
     \<and> (ho_id h = given \<or> ho_name h = given \<or> 4 \<le> length given \<and> starts_with (ho_id h) given)
     \<and> (\<forall>h'\<in>set hosts. ho_id h' = given \<or> ho_name h' = given \<longrightarrow> h' = h)"
proof -
  obtain hosts where l: "list_hosts c = (Inr hosts, t)" and m: "matching_hosts given hosts = [h]"
    using assms by (auto simp: find_host_def then_do_def call_def check_def split: prod.splits sum.splits list.splits)
  let ?exact = "filter (\<lambda>h. ho_id h = given \<or> ho_name h = given) hosts"
  have x: "?exact = [h] \<or> ?exact = [] \<and> 4 \<le> length given \<and> filter (\<lambda>h. starts_with (ho_id h) given) hosts = [h]"
    using m by (auto simp: matching_hosts_def Let_def split: if_splits)
  have u: "\<forall>h'\<in>set hosts. ho_id h' = given \<or> ho_name h' = given \<longrightarrow> h' = h"
  proof (intro ballI impI)
    fix h'
    assume "h' \<in> set hosts" "ho_id h' = given \<or> ho_name h' = given"
    then have "h' \<in> set ?exact" by simp
    moreover have "set ?exact \<subseteq> {h}" using x by (elim disjE conjE) (simp_all only:, simp_all)
    ultimately show "h' = h" by blast
  qed
  have s: "h \<in> set hosts \<and> (ho_id h = given \<or> ho_name h = given)" if "?exact = [h]"
  proof -
    have "h \<in> set ?exact" unfolding that by simp
    then show ?thesis by simp
  qed
  have p: "h \<in> set hosts \<and> starts_with (ho_id h) given" if "filter (\<lambda>h. starts_with (ho_id h) given) hosts = [h]"
  proof -
    have "h \<in> set (filter (\<lambda>h. starts_with (ho_id h) given) hosts)" unfolding that by simp
    then show ?thesis by simp
  qed
  show ?thesis using l u x s p by blast
qed

section \<open>Every host is reported\<close>

lemma host_run_ok: "\<exists>r t. host_run L K mk insecure bk h c = (Inr r, t) \<and> hx_id r = ho_id h"
  by (auto simp: host_run_def run_result_of_def split: prod.splits sum.splits)

lemma host_runs_ok: "\<exists>rs t. host_runs L K mk insecure bk hs c = (Inr rs, t) \<and> map hx_id rs = map ho_id hs"
proof (induction hs arbitrary: c)
  case (Cons h hs)
  obtain r u where h: "host_run L K mk insecure bk h c = (Inr r, u)" "hx_id r = ho_id h" using host_run_ok by blast
  obtain rs t where "host_runs L K mk insecure bk hs u = (Inr rs, t)" "map hx_id rs = map ho_id hs" using Cons by blast
  then show ?case using h by (simp add: then_do_def reply_def)
qed (simp add: reply_def)

lemma record_status_ok: "fst (record_status rs c) = Inr ()"
  by (induction rs arbitrary: c) (simp_all add: then_do_def ignoring_def reply_def)

lemma backup_all_reports:
  assumes "list_hosts c = (Inr hosts, u)" "\<And>rs. mset (join rs) = mset rs"
  shows "\<exists>rs t. backup_all L K mk insecure bk join c = (Inr rs, t) \<and> image_mset hx_id (mset rs) = mset (map ho_id hosts)"
proof -
  obtain rs v where r: "host_runs L K mk insecure bk hosts u = (Inr rs, v)" "map hx_id rs = map ho_id hosts"
    using host_runs_ok by blast
  obtain w where w: "record_status (join rs) v = (Inr (), w)" using record_status_ok by (metis prod.collapse)
  have "image_mset hx_id (mset (join rs)) = mset (map ho_id hosts)" using r(2) assms(2) by (metis mset_map)
  then show ?thesis using assms(1) r(1) w by (simp add: backup_all_def then_do_def reply_def)
qed

end
