(* ===== verification/Server_Repository.thy ===== *)
theory Server_Repository
  imports Sftp_Backend
begin

text \<open>
  The control plane's own repository (aegis-server/src/repo.rs): where it lies and how it is
  opened, created on first use. Errors are texts (\<open>anyhow\<close>); \<open>shw\<close> is the \<open>Display\<close> of an
  engine error and \<open>env\<close> the process environment.
\<close>

section \<open>Definitions\<close>

type_synonym ('s, 'a) texted = "'s \<Rightarrow> (string + 'a) \<times> 's"

text \<open>\<open>Path::parent\<close>, for a path without dot segments.\<close>

definition path_parent :: "string \<Rightarrow> string option" where
  "path_parent p = (let q = trim_end (CHR ''/'') p in
     if q = [] then None
     else (case rsplit_once (CHR ''/'') q of
         None \<Rightarrow> Some []
       | Some (d, _) \<Rightarrow> Some (let t = trim_end (CHR ''/'') d in if t = [] then ''/'' else t)))"

definition repo_path :: "(string \<Rightarrow> string option) \<Rightarrow> string \<Rightarrow> string" where
  "repo_path env catalog_path = (case env ''AEGIS_REPO'' of
      Some p \<Rightarrow> if trim_text p \<noteq> [] then p
               else (case path_parent catalog_path of Some d \<Rightarrow> d | None \<Rightarrow> ''.'')
    | None \<Rightarrow> (case path_parent catalog_path of Some d \<Rightarrow> d | None \<Rightarrow> ''.''))"

definition open_backend_or_init ::
  "foreign \<Rightarrow> (error \<Rightarrow> string) \<Rightarrow> path \<Rightarrow> (local_state \<times> 's sftp_state) backend \<Rightarrow> string
   \<Rightarrow> ((local_state \<times> 's sftp_state) world, (local_state \<times> 's sftp_state) repository) texted" where
  "open_backend_or_init L shw cwd B passphrase = (\<lambda>s.
     let location = b_describe B in
     case open_repo L B passphrase s of
       (Inr repo, t) \<Rightarrow> (Inr repo, t)
     | (Inl e, t) \<Rightarrow> (case e of
           RepoNotFound _ \<Rightarrow>
             (case init L (local_at cwd location) default_chunker passphrase t of
                (Inr repo, u) \<Rightarrow> (Inr repo, u)
              | (Inl _, u) \<Rightarrow> (Inl (''creating repository at '' @ location), u))
         | _ \<Rightarrow> (Inl (saying (''opening repository at '' @ location) (shw e)), t)))"

definition open_or_init ::
  "foreign \<Rightarrow> (error \<Rightarrow> string) \<Rightarrow> path \<Rightarrow> (string \<Rightarrow> string option) \<Rightarrow> string
   \<Rightarrow> ((local_state \<times> 's sftp_state) world, (local_state \<times> 's sftp_state) repository) texted" where
  "open_or_init L shw cwd env catalog_path = (case env ''AEGIS_PASSPHRASE'' of
      None \<Rightarrow> (\<lambda>s. (Inl ''AEGIS_PASSPHRASE is required to open the repository'', s))
    | Some pass \<Rightarrow> open_backend_or_init L shw cwd (local_at cwd (repo_path env catalog_path)) pass)"

section \<open>Facts\<close>

lemma open_repo_backend: "open_repo L B passphrase s = (Inr repo, t) \<Longrightarrow> rp_backend repo = B"
  by (auto simp: open_repo_def bnd_def ret_def raise_def split: prod.splits sum.splits if_splits)

lemma init_backend: "init L B chunker passphrase s = (Inr repo, t) \<Longrightarrow> rp_backend repo = B"
  by (auto simp: init_def init_with_kdf_def Let_def bnd_def ret_def raise_def split: prod.splits sum.splits if_splits)

text \<open>
  A remote location that holds no repository yet: the repository that is created and used
  from then on is a local one, in a directory named after the URL.
\<close>

lemma first_run_is_local:
  assumes "open_repo L (as_second (sftp_backend X SF T auth policy)) passphrase s = (Inl (RepoNotFound m), t)"
    and "open_backend_or_init L shw cwd (as_second (sftp_backend X SF T auth policy)) passphrase s = (Inr repo, u)"
  shows "rp_backend repo = local_at cwd (sftp_url T)"
  using assms
  by (auto simp: open_backend_or_init_def Let_def as_second_def sftp_backend_def split: prod.splits sum.splits dest: init_backend)

end
