(* ===== verification/Master_Key.thy ===== *)
theory Master_Key
  imports Server_Repository Remote_Text
begin

text \<open>
  The master key of the catalog (aegis-server/src/state.rs and aegis-cli/src/hosts.rs): it lies
  in a sidecar file next to the database, wrapped under the control plane's passphrase, and
  is created on first use. The files are those of \<open>w_os\<close>, and the
  database is open by then.
\<close>

section \<open>Definitions\<close>

definition key_sidecar :: "path \<Rightarrow> path" where
  "key_sidecar p = (if p = [] \<or> last p = ''..'' then p @ [''catalog.db.key.json''] else butlast p @ [last p @ ''.key.json''])"

definition text_bnd :: "('s, 'a) texted \<Rightarrow> ('a \<Rightarrow> ('s, 'b) texted) \<Rightarrow> ('s, 'b) texted" where
  "text_bnd m f = (\<lambda>s. case m s of (Inl e, t) \<Rightarrow> (Inl e, t) | (Inr a, t) \<Rightarrow> f a t)"

definition text_call :: "(error \<Rightarrow> string) \<Rightarrow> ('s, 'a) io \<Rightarrow> ('s, 'a) texted" where
  "text_call msg m = (\<lambda>s. case m s of (Inl e, t) \<Rightarrow> (Inl (msg e), t) | (Inr a, t) \<Rightarrow> (Inr a, t))"

definition text_ret :: "string + 'a \<Rightarrow> ('s, 'a) texted" where
  "text_ret r = (\<lambda>s. (r, s))"

definition write_key :: "path \<Rightarrow> bytes \<Rightarrow> ('b world, unit) io" where
  "write_key p data = on_os (bnd (os_call p (fs_create p)) (\<lambda>_. os_write p data))"

text \<open>A file is text when replacing the invalid parts of its bytes changes nothing.\<close>

definition is_utf8 :: "bytes \<Rightarrow> bool" where
  "is_utf8 d \<longleftrightarrow> str_bytes (from_utf8_lossy d) = d"

text \<open>
  Reading the sidecar: its bytes, or whether the path exists at all, which
  \<open>Path::exists\<close> denies on every error.
\<close>

definition read_key :: "path \<Rightarrow> ('b world, bool + bytes) io" where
  "read_key p = bnd (on_os (os_try (fs_read p))) (\<lambda>r. case (case r of Inr d \<Rightarrow> if is_utf8 d then Some d else None | Inl _ \<Rightarrow> None) of
      Some d \<Rightarrow> ret (Inr d)
    | None \<Rightarrow> bnd (on_os (os_try (fs_stat p))) (\<lambda>q. ret (Inl (case q of Inr _ \<Rightarrow> True | Inl _ \<Rightarrow> False))))"

definition open_key :: "foreign \<Rightarrow> (error \<Rightarrow> string) \<Rightarrow> key_file \<Rightarrow> string \<Rightarrow> ('b world, bytes) texted" where
  "open_key L shw kf passphrase = text_ret (case from_key_file L kf passphrase of
      Inl e \<Rightarrow> Inl (saying ''wrong catalog passphrase'' (shw e)) | Inr crypto \<Rightarrow> Inr (cr_key crypto))"

definition create_key :: "foreign \<Rightarrow> (error \<Rightarrow> string) \<Rightarrow> path \<Rightarrow> string \<Rightarrow> ('b world, bytes) texted" where
  "create_key L shw keyp passphrase =
     text_bnd (text_call shw (bnd generate_master_key (\<lambda>master.
       bnd (new_wrapped L ''catalog'' master passphrase default_kdf) (\<lambda>(_, kf). ret (master, kf))))) (\<lambda>(master, kf).
     text_bnd (text_call (\<lambda>_. ''writing '' @ path_str keyp) (write_key keyp (keyfile_json L kf))) (\<lambda>_.
     text_ret (Inr master)))"

text \<open>\<open>first\<close> and \<open>again\<close> load the passphrase on first use and later.\<close>

definition unlock ::
  "foreign \<Rightarrow> (error \<Rightarrow> string) \<Rightarrow> ('b world, string) texted \<Rightarrow> ('b world, string) texted \<Rightarrow> path \<Rightarrow> ('b world, bytes) texted" where
  "unlock L shw first again keyp =
     text_bnd (text_call shw (read_key keyp)) (\<lambda>r. case r of
         Inr d \<Rightarrow>
           text_bnd (text_ret (case keyfile_from_json L d of Inl _ \<Rightarrow> Inl ''parsing the catalog key file'' | Inr f \<Rightarrow> Inr f)) (\<lambda>kf.
           text_bnd again (\<lambda>passphrase. open_key L shw kf passphrase))
       | Inl False \<Rightarrow> text_bnd first (\<lambda>passphrase. create_key L shw keyp passphrase)
       | Inl True \<Rightarrow> text_ret (Inl (saying (''reading '' @ path_str keyp) (shw (Io (path_str keyp))))))"

definition server_passphrase :: "string \<Rightarrow> ('b world, string) texted" where
  "server_passphrase m = (\<lambda>w. (case w_env w ''AEGIS_PASSPHRASE'' of Some p \<Rightarrow> Inr p | None \<Rightarrow> Inl m, w))"

text \<open>The server takes the passphrase from the environment; the console prompts for a new one.\<close>

definition open_state :: "foreign \<Rightarrow> (error \<Rightarrow> string) \<Rightarrow> path \<Rightarrow> ('b world, bytes) texted" where
  "open_state L shw catalog_path =
     unlock L shw (server_passphrase ''AEGIS_PASSPHRASE is required on first run'')
       (server_passphrase ''AEGIS_PASSPHRASE is required to unlock the catalog'') (key_sidecar catalog_path)"

definition open_handle :: "foreign \<Rightarrow> (error \<Rightarrow> string) \<Rightarrow> path \<Rightarrow> ('b world, bytes) texted" where
  "open_handle L shw catalog_path =
     unlock L shw (text_call (\<lambda>_. ''choosing a catalog passphrase'') (load_passphrase (Prompt True)))
       (text_call (\<lambda>_. ''loading the catalog passphrase (AEGIS_PASSPHRASE or prompt)'') (load_passphrase Env))
       (key_sidecar catalog_path)"

section \<open>The same key again\<close>

text \<open>What creating a sidecar leaves: a file that the passphrase opens to the returned key.\<close>

lemma create_key_leaves:
  assumes L: "foreign_laws L" and p: "p \<noteq> []" and run: "create_key L shw p pw w = (Inr master, t)"
  shows "\<exists>kf m c. ent (os_fs (w_os t)) p = Some (EFile (keyfile_json L kf) m None)
     \<and> from_key_file L kf pw = Inr c \<and> cr_key c = master"
proof -
  obtain kf u where made: "bnd generate_master_key (\<lambda>master.
       bnd (new_wrapped L ''catalog'' master pw default_kdf) (\<lambda>(_, kf). ret (master, kf))) w = (Inr (master, kf), u)"
    and wr: "write_key p (keyfile_json L kf) u = (Inr (), t)"
    using run by (auto simp: create_key_def text_bnd_def text_call_def text_ret_def split: prod.splits sum.splits)
  have "wp (bnd generate_master_key (\<lambda>master.
       bnd (new_wrapped L ''catalog'' master pw default_kdf) (\<lambda>(_, kf). ret (master, kf))))
     (\<lambda>r v. \<forall>m f. r = Inr (m, f) \<longrightarrow> from_key_file L f pw = Inr \<lparr> cr_key_slot = ''catalog'', cr_key = m \<rparr>) w"
    unfolding generate_master_key_def wp_bnd wp_random_bytes sum.case
    by (rule wp_mono [OF wp_new_wrapped [OF L]]) (auto simp: wp_simps split: sum.splits)
  from wp_run [OF this made] have k: "from_key_file L kf pw = Inr \<lparr> cr_key_slot = ''catalog'', cr_key = master \<rparr>" by simp
  have "wp (write_key p (keyfile_json L kf)) (\<lambda>r v. r = Inr () \<longrightarrow>
      (\<exists>m. ent (os_fs (w_os v)) p = Some (EFile (keyfile_json L kf) m None))) u"
    by (auto simp: write_key_def wp_simps fs_create_def fs_append_def p split: option.splits sum.splits fs_entry.splits io_kind.splits if_splits)
  from wp_run [OF this wr] k show ?thesis by auto
qed

text \<open>
  Reading it back with no failing call and the same passphrase gives that key.
\<close>

lemma unlock_again:
  assumes L: "foreign_laws L" and no: "next_fault (w_os w) = None"
    and f: "stat (os_fs (w_os w)) p = Inr (EFile (keyfile_json L kf) m c)" "from_key_file L kf pw = Inr crypto"
    and utf8: "is_utf8 (keyfile_json L kf)"
    and again: "\<And>v. again v = (Inr pw, v)"
  shows "fst (unlock L shw first again p w) = Inr (cr_key crypto)"
proof -
  have "keyfile_parse L (keyfile_json L kf) = Some kf" using L by (simp add: foreign_laws_def codec_law_def)
  then show ?thesis
    using assms by (simp add: unlock_def text_bnd_def text_call_def text_ret_def read_key_def on_os_def os_try_def fs_read_def
        bnd_def ret_def keyfile_from_json_def ok_or_def open_key_def Let_def)
qed

text \<open>
  A sidecar that cannot be read while \<open>exists\<close> fails as well counts as missing: a new master key is
  made and written over it, and with the old one every stored host key is lost.
\<close>

lemma unseen_key_is_replaced:
  assumes "next_fault (w_os w) = Some a" "next_fault (used_fault (w_os w)) = Some b"
  shows "unlock L shw first again p w
     = text_bnd first (\<lambda>pw. create_key L shw p pw) (w\<lparr> w_os := used_fault (used_fault (w_os w)) \<rparr>)"
  using assms by (simp add: unlock_def text_bnd_def text_call_def read_key_def on_os_def os_try_def bnd_def ret_def Let_def)

end
