(* ===== verification/Command_Line.thy ===== *)
theory Command_Line
  imports Master_Key Console Agent Repo_Backup Repo_Restore Repo_Prune Repo_Verify
begin

text \<open>
  The commands of the command line that work on a repository (aegis-cli/src/main.rs): how the
  location and the SSH options select a backend, and which engine operations each command
  composes. An error is the text of \<open>anyhow\<close>'s outermost context; the value of a command is
  what it prints. \<open>shw\<close> is the \<open>Display\<close> of an engine error and \<open>n\<close> the fuel of its loops.
\<close>

section \<open>Repositories by location and options\<close>

record ssh_args =
  sa_ssh_user :: "string option"
  sa_ssh_password :: bool
  sa_ssh_key :: "string option"
  sa_ssh_key_passphrase :: bool
  sa_insecure :: bool

definition at_path :: "path \<Rightarrow> string \<Rightarrow> path" where
  "at_path cwd p = resolve (if starts_with p ''/'' then [] else cwd) p"

text \<open>\<open>Path::exists\<close> on the machine of the command.\<close>

definition path_exists :: "path \<Rightarrow> ('b world, bool) io" where
  "path_exists p = bnd (on_os (os_try (fs_stat p))) (\<lambda>r. ret (case r of Inr _ \<Rightarrow> True | Inl _ \<Rightarrow> False))"

fun first_existing :: "path \<Rightarrow> string list \<Rightarrow> ('b world, string option) io" where
  "first_existing cwd [] = ret None"
| "first_existing cwd (p # ps) =
     bnd (path_exists (at_path cwd p)) (\<lambda>e. if e then ret (Some p) else first_existing cwd ps)"

definition home_of :: "(string \<Rightarrow> string option) \<Rightarrow> string option" where
  "home_of env = (case env ''HOME'' of Some h \<Rightarrow> Some h | None \<Rightarrow> env ''USERPROFILE'')"

definition key_passphrase :: "ssh_args \<Rightarrow> ('b world, string option) io" where
  "key_passphrase args =
     (if sa_ssh_key_passphrase args then
        bnd (gets (\<lambda>w. w_env w ''AEGIS_SSH_KEY_PASSPHRASE'')) (\<lambda>v. case v of
            Some p \<Rightarrow> ret (Some p)
          | None \<Rightarrow> try_io prompt_password (\<lambda>_. ret (Some [])) (\<lambda>p. ret (Some p)))
      else ret None)"

definition ssh_auth :: "path \<Rightarrow> ssh_args \<Rightarrow> string \<Rightarrow> ('b world, string + sftp_auth) io" where
  "ssh_auth cwd args location =
     bnd (gets w_env) (\<lambda>env. case sa_ssh_key args of
         Some p \<Rightarrow> bnd (key_passphrase args) (\<lambda>kp. ret (Inr (Auth_KeyFile p kp)))
       | None \<Rightarrow>
           if sa_ssh_password args then
             ret (case env ''AEGIS_SSH_PASSWORD'' of
                 Some password \<Rightarrow> Inr (Auth_Password password)
               | None \<Rightarrow> Inl ''--ssh-password set but AEGIS_SSH_PASSWORD is not'')
           else
             bnd (case home_of env of
                 Some home \<Rightarrow> first_existing cwd (map (path_join (path_join home ''.ssh'')) DEFAULT_KEYS)
               | None \<Rightarrow> ret None) (\<lambda>k.
             ret (case k of
                 Some p \<Rightarrow> Inr (Auth_KeyFile p None)
               | None \<Rightarrow> (case env ''AEGIS_SSH_PASSWORD'' of
                     Some password \<Rightarrow> Inr (Auth_Password password)
                   | None \<Rightarrow> Inl (''no SSH authentication available for '' @ location @ '': pass --ssh-password with ''
                               @ ''AEGIS_SSH_PASSWORD, or --ssh-key FILE'')))))"

text \<open>A call whose value is itself a result with a text.\<close>

definition text_join :: "(error \<Rightarrow> string) \<Rightarrow> ('s, string + 'a) io \<Rightarrow> ('s, 'a) texted" where
  "text_join shw m = text_bnd (text_call shw m) text_ret"

definition open_location ::
  "(error \<Rightarrow> string) \<Rightarrow> 's russh \<Rightarrow> (nat \<Rightarrow> 's sftp_session) \<Rightarrow> path \<Rightarrow> ssh_args \<Rightarrow> string
   \<Rightarrow> ((local_state \<times> 's sftp_state) world, (local_state \<times> 's sftp_state) backend) texted" where
  "open_location shw X SF cwd args location =
     text_bnd (text_ret (map_sum shw id (parse_location location))) (\<lambda>l. case l of
         Local_At p \<Rightarrow> text_ret (Inr (local_at cwd p))
       | Sftp_At target \<Rightarrow>
           let target = (case sa_ssh_user args of Some u \<Rightarrow> target\<lparr> tg_user := u \<rparr> | None \<Rightarrow> target) in
           text_bnd (text_join shw (ssh_auth cwd args location)) (\<lambda>auth.
           text_ret (Inr (as_second (sftp_backend X SF target auth (if sa_insecure args then AcceptAny else Strict))))))"

definition open_at ::
  "foreign \<Rightarrow> (error \<Rightarrow> string) \<Rightarrow> 's russh \<Rightarrow> (nat \<Rightarrow> 's sftp_session) \<Rightarrow> path \<Rightarrow> ssh_args \<Rightarrow> string
   \<Rightarrow> ((local_state \<times> 's sftp_state) world, (local_state \<times> 's sftp_state) repository) texted" where
  "open_at L shw X SF cwd args repo =
     text_bnd (text_call shw (load_passphrase Env)) (\<lambda>pass.
     text_bnd (open_location shw X SF cwd args repo) (\<lambda>B.
     text_call (\<lambda>_. ''opening repository at '' @ repo) (open_repo L B pass)))"

section \<open>Commands\<close>

datatype engine_command =
    Init_Repo string nat nat nat
  | Key_Add string
  | Key_List string
  | Key_Remove string string
  | Backup_Paths "string list" string
  | Show_Snapshots string
  | Restore_To string string string
  | Prune_Repo string bool retention_policy
  | Verify_Repo string "string option" bool
  | Show_Stats string

datatype engine_value =
    Out_Init string
  | Out_Key_Slot string
  | Out_Key_Slots "key_slot list"
  | Out_Key_Removed string
  | Out_Snapshot snapshot
  | Out_Snapshots "snapshot list"
  | Out_Prune prune_report
  | Out_Verify verify_report
  | Out_Stats storage_stats

definition run_init where
  "run_init L shw X SF cwd args repo mn avg mx =
     text_bnd (text_ret (map_sum shw id (chunker_new mn avg mx))) (\<lambda>chunker.
     text_bnd (text_call (\<lambda>_. ''loading a passphrase for the new repository'') (load_passphrase (Prompt True))) (\<lambda>pass.
     text_bnd (open_location shw X SF cwd args repo) (\<lambda>B.
     text_bnd (text_call (\<lambda>_. ''initializing repository at '' @ repo) (init L B chunker pass)) (\<lambda>r.
     text_ret (Inr (Out_Init (rc_id (rp_config r))))))))"

definition run_key_add where
  "run_key_add L shw X SF cwd n args repo =
     text_bnd (text_call (\<lambda>_. ''loading the repository'' @ [CHR 0x27] @ ''s current passphrase'') (load_passphrase Env)) (\<lambda>existing.
     text_bnd (text_call (\<lambda>_. ''loading the new passphrase'') load_new_passphrase) (\<lambda>new_pass.
     text_bnd (open_location shw X SF cwd args repo) (\<lambda>B.
     text_bnd (text_call (\<lambda>_. ''adding a key to '' @ repo) (key_add_backend L B n existing new_pass)) (\<lambda>slot.
     text_ret (Inr (Out_Key_Slot slot))))))"

definition run_key_list where
  "run_key_list L shw X SF cwd args repo =
     text_bnd (open_location shw X SF cwd args repo) (\<lambda>B.
     text_bnd (text_call (\<lambda>_. ''listing key slots in '' @ repo) (key_list_backend L B)) (\<lambda>slots.
     text_ret (Inr (Out_Key_Slots slots))))"

definition run_key_remove where
  "run_key_remove L shw X SF cwd args repo slot =
     text_bnd (text_call (\<lambda>_. ''loading a passphrase that opens the repository'') (load_passphrase Env)) (\<lambda>existing.
     text_bnd (open_location shw X SF cwd args repo) (\<lambda>B.
     text_bnd (text_call (\<lambda>_. ''revoking key slot '' @ [CHR 0x27] @ slot @ [CHR 0x27] @ '' from '' @ repo) (key_remove_backend L B slot existing)) (\<lambda>_.
     text_ret (Inr (Out_Key_Removed slot)))))"

definition run_backup where
  "run_backup L shw X SF cwd sfs args paths repo =
     text_bnd (open_at L shw X SF cwd args repo) (\<lambda>r.
     text_bnd (text_call (\<lambda>_. ''running backup'') (backup L r sfs paths)) (\<lambda>s.
     text_ret (Inr (Out_Snapshot s))))"

definition run_snapshots where
  "run_snapshots L shw X SF cwd args repo =
     text_bnd (open_at L shw X SF cwd args repo) (\<lambda>r.
     text_bnd (text_call (\<lambda>_. ''listing snapshots'') (list_snapshots L r)) (\<lambda>ss.
     text_ret (Inr (Out_Snapshots ss))))"

definition run_restore where
  "run_restore L shw X SF cwd n args snapshot repo target =
     text_bnd (open_at L shw X SF cwd args repo) (\<lambda>r.
     text_bnd (text_call (\<lambda>_. ''restoring snapshot '' @ snapshot) (restore L r n snapshot (at_path cwd target))) (\<lambda>s.
     text_ret (Inr (Out_Snapshot s))))"

definition run_prune where
  "run_prune L shw X SF cwd n args repo dry_run policy =
     text_bnd (open_at L shw X SF cwd args repo) (\<lambda>r.
     text_bnd (text_call (\<lambda>_. ''pruning repository'') (prune L r n policy dry_run)) (\<lambda>report.
     text_ret (Inr (Out_Prune report))))"

definition run_verify where
  "run_verify L shw X SF cwd n args repo snapshot deep =
     text_bnd (open_at L shw X SF cwd args repo) (\<lambda>r.
     text_bnd (case snapshot of
         Some i \<Rightarrow> text_call (\<lambda>_. ''finding snapshot '' @ i) (find_snapshot L r i)
       | None \<Rightarrow> text_bnd (text_call (\<lambda>_. ''listing snapshots'') (list_snapshots L r)) (\<lambda>ss.
                 text_ret (case ss of [] \<Rightarrow> Inl ''repository has no snapshots to verify'' | s # _ \<Rightarrow> Inr s))) (\<lambda>s.
     text_bnd (text_call (\<lambda>_. ''verifying snapshot integrity'') (verify L r n s deep)) (\<lambda>report.
     text_ret (Inr (Out_Verify report)))))"

definition run_stats where
  "run_stats L shw X SF cwd n args repo =
     text_bnd (open_at L shw X SF cwd args repo) (\<lambda>r.
     text_bnd (text_call (\<lambda>_. ''collecting repository stats'') (stats L r n)) (\<lambda>st.
     text_ret (Inr (Out_Stats st))))"

fun run_engine ::
  "foreign \<Rightarrow> (error \<Rightarrow> string) \<Rightarrow> 's russh \<Rightarrow> (nat \<Rightarrow> 's sftp_session) \<Rightarrow> path \<Rightarrow> source_fs \<Rightarrow> nat \<Rightarrow> ssh_args
   \<Rightarrow> engine_command \<Rightarrow> ((local_state \<times> 's sftp_state) world, engine_value) texted" where
  "run_engine L shw X SF cwd sfs n args (Init_Repo repo mn avg mx) = run_init L shw X SF cwd args repo mn avg mx"
| "run_engine L shw X SF cwd sfs n args (Key_Add repo) = run_key_add L shw X SF cwd n args repo"
| "run_engine L shw X SF cwd sfs n args (Key_List repo) = run_key_list L shw X SF cwd args repo"
| "run_engine L shw X SF cwd sfs n args (Key_Remove repo slot) = run_key_remove L shw X SF cwd args repo slot"
| "run_engine L shw X SF cwd sfs n args (Backup_Paths paths repo) = run_backup L shw X SF cwd sfs args paths repo"
| "run_engine L shw X SF cwd sfs n args (Show_Snapshots repo) = run_snapshots L shw X SF cwd args repo"
| "run_engine L shw X SF cwd sfs n args (Restore_To snapshot repo target) = run_restore L shw X SF cwd n args snapshot repo target"
| "run_engine L shw X SF cwd sfs n args (Prune_Repo repo dry_run policy) = run_prune L shw X SF cwd n args repo dry_run policy"
| "run_engine L shw X SF cwd sfs n args (Verify_Repo repo snapshot deep) = run_verify L shw X SF cwd n args repo snapshot deep"
| "run_engine L shw X SF cwd sfs n args (Show_Stats repo) = run_stats L shw X SF cwd n args repo"

text \<open>The paths of \<open>host backup-all\<close> and its exit code: only the text output reports failures there.\<close>

fun check_remote_paths :: "string list \<Rightarrow> string + unit" where
  "check_remote_paths [] = Inr ()"
| "check_remote_paths (p # ps) =
     (if starts_with p ''/'' then check_remote_paths ps
      else Inl (''remote path `'' @ p @ ''` must be absolute (agentless mode reads remote files directly)''))"

definition backup_all_exit :: "bool \<Rightarrow> host_run_result list \<Rightarrow> nat" where
  "backup_all_exit json results =
     (if \<not> json \<and> filter (\<lambda>r. hx_error r \<noteq> None) results \<noteq> [] then 2 else 0)"

section \<open>Agents on registered hosts\<close>

text \<open>
  The commands that install or ask an agent work on the catalog and on the network; each makes
  a new \<open>SshManager\<close>.
\<close>

definition agent_text :: "agent_error \<Rightarrow> string" where
  "agent_text e = (case e of
      Unsupported m \<Rightarrow> saying ''target cannot run the agent'' m | Failed m \<Rightarrow> saying ''agent run failed'' m)"

definition on_catalog :: "'a command \<Rightarrow> (catalog \<times> 's, 'a) texted" where
  "on_catalog m = (\<lambda>(c, s). case m c of (r, d) \<Rightarrow> (r, (d, s)))"

definition with_manager :: "string \<Rightarrow> ('s, 'a) agent_io \<Rightarrow> (catalog \<times> 's, 'a) texted" where
  "with_manager what m = (\<lambda>(c, s). case m \<lparr> sm_cache = Map.empty, sm_world = s \<rparr> of
      (r, t) \<Rightarrow> (map_sum (\<lambda>e. saying what (agent_text e)) id r, (c, sm_world t)))"

definition agent_target :: "foreign \<Rightarrow> console \<Rightarrow> bytes \<Rightarrow> string \<Rightarrow> bool \<Rightarrow> (host \<times> host_config) command" where
  "agent_target L K mk given insecure =
     then_do (find_host K given) (\<lambda>h.
     then_do (call (co_show K) (get_host_with_key L (ho_id h) mk)) (\<lambda>hk.
     then_do (check (login_config K (hk_host hk) (hk_ssh_key_pem hk) insecure)) (\<lambda>cfg. reply (h, cfg))))"

definition agent_setup ::
  "foreign \<Rightarrow> console \<Rightarrow> 's russh \<Rightarrow> (nat \<Rightarrow> 's sftp_session) \<Rightarrow> (string \<Rightarrow> string + bytes) \<Rightarrow> bytes \<Rightarrow> bool
   \<Rightarrow> string \<Rightarrow> string \<Rightarrow> string \<Rightarrow> string \<Rightarrow> bool \<Rightarrow> (catalog \<times> 's, string \<times> string) texted" where
  "agent_setup L K X SF bins mk is_upgrade given repo agent_bin_dir on_calendar insecure =
     text_bnd (on_catalog (agent_target L K mk given insecure)) (\<lambda>(h, cfg).
     text_bnd (text_ret (case co_env K ''AEGIS_PASSPHRASE'' of Some p \<Rightarrow> Inr p | None \<Rightarrow> Inl (co_show K NoPassphrase))) (\<lambda>pass.
     text_bnd (with_manager ''agent install failed''
       (if is_upgrade then upgrade X SF bins cfg agent_bin_dir repo pass on_calendar
        else install X SF bins cfg agent_bin_dir repo pass on_calendar)) (\<lambda>enabled.
     text_bnd (on_catalog (ignoring (audit None ''host.agent_install'' (Some (ho_name h))))) (\<lambda>_.
     text_ret (Inr (ho_name h, enabled))))))"

definition agent_state ::
  "foreign \<Rightarrow> console \<Rightarrow> 's russh \<Rightarrow> bytes \<Rightarrow> string \<Rightarrow> bool \<Rightarrow> (catalog \<times> 's, string \<times> bool \<times> string) texted" where
  "agent_state L K X mk given insecure =
     text_bnd (on_catalog (agent_target L K mk given insecure)) (\<lambda>(h, cfg).
     text_bnd (with_manager ''agent status failed'' (agent_status X cfg)) (\<lambda>(installed, version).
     text_ret (Inr (ho_name h, installed, version))))"

section \<open>Facts\<close>

text \<open>Without a passphrase in the environment no existing repository is touched.\<close>

lemma needs_passphrase:
  assumes "w_env w ''AEGIS_PASSPHRASE'' = None"
  shows "open_at L shw X SF cwd args repo w = (Inl (shw NoPassphrase), w)"
  using assms by (simp add: open_at_def text_bnd_def text_call_def load_passphrase_def bnd_def gets_def lift_res_def ok_or_def)

text \<open>
  A host key that was not recorded is accepted without a check only with the flag for it,
  and the user of the URL is replaced only by the option.
\<close>

lemma open_location_sftp:
  assumes "parse_location location = Inr (Sftp_At T)" "open_location shw X SF cwd args location w = (Inr B, t)"
  shows "\<exists>auth. B = as_second (sftp_backend X SF (case sa_ssh_user args of Some u \<Rightarrow> T\<lparr> tg_user := u \<rparr> | None \<Rightarrow> T)
           auth (if sa_insecure args then AcceptAny else Strict))"
  using assms by (auto simp: open_location_def text_bnd_def text_ret_def Let_def split: prod.splits sum.splits)

lemma open_location_local:
  "parse_location location = Inr (Local_At p) \<Longrightarrow> open_location shw X SF cwd args location w = (Inr (local_at cwd p), w)"
  by (simp add: open_location_def text_bnd_def text_ret_def)

text \<open>An agent is set up only on a host that the catalog names, and never without a passphrase.\<close>

lemma agent_setup_host:
  assumes "agent_setup L K X SF bins mk up given repo dir cal insecure (c, s) = (Inr (nm, enabled), t)"
  shows "\<exists>h cfg d. find_host K given c = (Inr h, d) \<and> nm = ho_name h \<and> co_env K ''AEGIS_PASSPHRASE'' \<noteq> None"
  using assms
  by (auto simp: agent_setup_def agent_target_def text_bnd_def text_ret_def on_catalog_def then_do_def reply_def
      split: prod.splits sum.splits option.splits)

text \<open>The failures of a run over every host do not reach the exit code under \<open>--json\<close>.\<close>

lemma json_hides_failures: "backup_all_exit True results = 0"
  by (simp add: backup_all_exit_def)

lemma check_remote_paths_iff: "check_remote_paths ps = Inr () \<longleftrightarrow> (\<forall>p\<in>set ps. starts_with p ''/'')"
  by (induction ps) auto

end
