(* ===== verification/Login_Limit.thy ===== *)
theory Login_Limit
  imports Catalog_Correct
begin

text \<open>
  The login limit: a fixed window of 60 seconds with 30 attempts bounds the attempts
  admitted in every interval of that length by twice the limit, because such an interval
  meets at most two windows.
\<close>

text \<open>The times, among those of a series of attempts, at which one is let through.\<close>

fun admitted :: "int list \<Rightarrow> catalog \<Rightarrow> int list" where
  "admitted [] c = []"
| "admitted (now # ts) c =
     (case enforce_login_limit_at now c of (r, t) \<Rightarrow> (if is_ok r then [now] else []) @ admitted ts t)"

definition in_window :: "int \<Rightarrow> int list \<Rightarrow> nat" where
  "in_window t xs = length (filter (\<lambda>x. t \<le> x \<and> x < t + LOGIN_WINDOW_SECS) xs)"

lemma in_window_append [simp]: "in_window t (xs @ ys) = in_window t xs + in_window t ys"
  by (simp add: in_window_def)

lemma in_window_le: "in_window t xs \<le> length xs"
  by (simp add: in_window_def)

lemma in_window_Nil [simp]: "in_window t [] = 0"
  by (simp add: in_window_def)

lemma in_window_before: "\<forall>x\<in>set xs. x < t \<Longrightarrow> in_window t xs = 0"
  by (auto simp: in_window_def filter_empty_conv)

lemma in_window_other: "\<not> (t \<le> x \<and> x < t + LOGIN_WINDOW_SECS) \<Longrightarrow> in_window t [x] = 0"
  by (simp add: in_window_def)

text \<open>
  The attempts let through so far, split into those of earlier windows (\<open>P\<close>), of the last
  window before the current one (\<open>Q\<close>) and of the current one (\<open>G\<close>).
\<close>

definition windows :: "database \<Rightarrow> int list \<Rightarrow> int list \<Rightarrow> int list \<Rightarrow> int list \<Rightarrow> bool" where
  "windows d P Q G ts \<longleftrightarrow>
     (d_login_limits d = [] \<and> P = [] \<and> Q = [] \<and> G = [])
   \<or> (\<exists>w a. d_login_limits d = [\<lparr> ll_bucket = LOGIN_BUCKET, ll_window_start = w, ll_attempts = a \<rparr>]
        \<and> 0 \<le> a \<and> a \<le> LOGIN_LIMIT \<and> int (length G) \<le> a \<and> int (length Q) \<le> LOGIN_LIMIT
        \<and> (\<forall>y\<in>set P. y + LOGIN_WINDOW_SECS \<le> w) \<and> (\<forall>y\<in>set Q. y \<le> w)
        \<and> (\<forall>y\<in>set G. \<forall>x\<in>set ts. y \<le> x)
        \<and> (P @ Q = [] \<or> (\<forall>x\<in>set ts. w \<le> x)))"

lemma windows_start:
  assumes "limits_ok d"
  shows "windows d [] [] [] ts"
proof -
  consider "d_login_limits d = []" | r where "d_login_limits d = [r]" "ll_bucket r = LOGIN_BUCKET" "1 \<le> ll_attempts r" "ll_attempts r \<le> LOGIN_LIMIT"
    using assms by (auto simp: limits_ok_def)
  then show ?thesis
  proof cases
    case (2 r)
    have "r = \<lparr> ll_bucket = LOGIN_BUCKET, ll_window_start = ll_window_start r, ll_attempts = ll_attempts r \<rparr>" using 2(2) by simp
    then show ?thesis using 2 unfolding windows_def
      by (intro disjI2 exI [of _ "ll_window_start r"] exI [of _ "ll_attempts r"]) (simp add: LOGIN_LIMIT_def)
  qed (simp add: windows_def)
qed

lemma windows_tail: "windows d P Q G (x # ts) \<Longrightarrow> windows d P Q G ts"
  unfolding windows_def by auto

text \<open>An attempt is refused, extends the current window, or opens a new one.\<close>

lemma limit_cases:
  assumes w: "windows d P Q G (now # ts)" and run: "limit_login now d = Inr (n, d')" and s: "\<forall>x\<in>set ts. now \<le> x"
  obtains (refused) "n = 0" "d' = d"
  | (current) "n \<noteq> 0" "windows d' P Q (G @ [now]) ts" "int (length G) < LOGIN_LIMIT"
      "\<forall>y\<in>set P. y + LOGIN_WINDOW_SECS \<le> now"
  | (fresh) "n \<noteq> 0" "windows d' (P @ Q) G [now] ts" "\<forall>y\<in>set (P @ Q). y + LOGIN_WINDOW_SECS \<le> now"
proof -
  consider (none) "d_login_limits d = []" "P = []" "Q = []" "G = []"
    | (row) w a where "d_login_limits d = [\<lparr> ll_bucket = LOGIN_BUCKET, ll_window_start = w, ll_attempts = a \<rparr>]"
        "0 \<le> a" "a \<le> LOGIN_LIMIT" "int (length G) \<le> a" "int (length Q) \<le> LOGIN_LIMIT"
        "\<forall>y\<in>set P. y + LOGIN_WINDOW_SECS \<le> w" "\<forall>y\<in>set Q. y \<le> w" "P @ Q = [] \<or> w \<le> now" "\<forall>y\<in>set G. y \<le> now" "\<forall>y\<in>set G. \<forall>x\<in>set ts. y \<le> x" "P @ Q = [] \<or> (\<forall>x\<in>set ts. w \<le> x)"
    using w unfolding windows_def by auto
  then show thesis
  proof cases
    case none
    then have "n \<noteq> 0" "d_login_limits d' = [\<lparr> ll_bucket = LOGIN_BUCKET, ll_window_start = now, ll_attempts = 1 \<rparr>]"
      using run by (auto simp: limit_login_def Let_def)
    then show thesis using none s by (intro fresh) (auto simp: windows_def LOGIN_LIMIT_def)
  next
    case (row w a)
    show thesis
    proof (cases "w \<le> now - LOGIN_WINDOW_SECS")
      case True
      then have "n \<noteq> 0" "d_login_limits d' = [\<lparr> ll_bucket = LOGIN_BUCKET, ll_window_start = now, ll_attempts = 1 \<rparr>]"
        using run row(1) by (auto simp: limit_login_def Let_def)
      moreover have old: "\<forall>y\<in>set (P @ Q). y + LOGIN_WINDOW_SECS \<le> now"
        using row(6,7) True by (auto simp: LOGIN_WINDOW_SECS_def)
      ultimately show thesis
        using row s by (intro fresh) (auto simp: windows_def LOGIN_LIMIT_def)
    next
      case False
      show thesis
      proof (cases "a < LOGIN_LIMIT")
        case True
        then have "n \<noteq> 0" "d_login_limits d' = [\<lparr> ll_bucket = LOGIN_BUCKET, ll_window_start = w, ll_attempts = a + 1 \<rparr>]"
          using run row(1) False by (auto simp: limit_login_def Let_def)
        then show thesis using row True s by (intro current) (auto simp: windows_def)
      next
        case full: False
        then show thesis using run row(1) False by (intro refused) (auto simp: limit_login_def Let_def)
      qed
    qed
  qed
qed

lemma windows_lengths: "windows d P Q G ts \<Longrightarrow> length Q \<le> nat LOGIN_LIMIT \<and> length G \<le> nat LOGIN_LIMIT"
  unfolding windows_def by auto

lemma in_window_new:
  assumes "\<forall>y\<in>set P. y + LOGIN_WINDOW_SECS \<le> now" "length Q \<le> N" "length (G @ [now]) \<le> N" "in_window t (P @ Q @ G) \<le> 2 * N"
  shows "in_window t (P @ Q @ G @ [now]) \<le> 2 * N"
proof (cases "t \<le> now \<and> now < t + LOGIN_WINDOW_SECS")
  case True
  then have "in_window t P = 0" using assms(1) by (intro in_window_before) auto
  then have "in_window t (P @ Q @ G @ [now]) \<le> length Q + length (G @ [now])"
    using in_window_le [of t Q] in_window_le [of t "G @ [now]"] by simp
  then show ?thesis using assms(2,3) by linarith
next
  case False
  then show ?thesis using assms(4) in_window_other [of t now] by simp
qed

lemma admitted_rate:
  assumes "sorted ts" "windows (c_db c) P Q G ts" "\<forall>t. in_window t (P @ Q @ G) \<le> 2 * nat LOGIN_LIMIT"
  shows "in_window t (P @ Q @ G @ admitted ts c) \<le> 2 * nat LOGIN_LIMIT"
  using assms
proof (induction ts arbitrary: P Q G c)
  case Nil
  then show ?case by simp
next
  case (Cons now ts)
  have s: "sorted ts" "\<forall>x\<in>set ts. now \<le> x" using Cons.prems(1) by simp_all
  obtain r u where run: "enforce_login_limit_at now c = (r, u)" by fastforce
  obtain n d' where lim: "limit_login now (c_db c) = Inr (n, d')"
    by (cases "limit_login now (c_db c)") (auto simp: limit_login_def Let_def split: option.splits if_splits)
  have "(r = Inr () \<and> n \<noteq> 0 \<and> c_db u = d') \<or> (\<not> is_ok r \<and> c_db u = c_db c) \<or> (\<not> is_ok r \<and> n = 0 \<and> c_db u = d')"
    using run by (auto simp: enforce_login_limit_at_def exec_sql_def run_simps lim Let_def split: if_splits)
  then consider (failed) "\<not> is_ok r" "windows (c_db u) P Q G ts"
    | (ok) "r = Inr ()" "n \<noteq> 0" "c_db u = d'"
    using limit_cases [OF Cons.prems(2) lim s(2)] windows_tail [OF Cons.prems(2)] by metis
  then show ?case
  proof cases
    case failed
    then show ?thesis using Cons.IH [OF s(1) failed(2) Cons.prems(3)] run by simp
  next
    case ok
    have here: "in_window t (P @ Q @ G) \<le> 2 * nat LOGIN_LIMIT" for t using Cons.prems(3) by blast
    show ?thesis
    proof (rule limit_cases [OF Cons.prems(2) lim s(2)], goal_cases refused current fresh)
      case refused
      then show ?case using ok(2) by simp
    next
      case current
      note len = windows_lengths [OF current(2)]
      have "\<forall>t. in_window t (P @ Q @ (G @ [now])) \<le> 2 * nat LOGIN_LIMIT"
        using in_window_new [OF current(4) len [THEN conjunct1] len [THEN conjunct2] here] by simp
      from Cons.IH [OF s(1) current(2) [folded ok(3)] this] show ?case using run ok(1) by simp
    next
      case fresh
      note len = windows_lengths [OF fresh(2)]
      have one: "length ([] @ [now]) \<le> nat LOGIN_LIMIT" by (simp add: LOGIN_LIMIT_def)
      have "in_window t ((P @ Q) @ G @ [] @ [now]) \<le> 2 * nat LOGIN_LIMIT" for t
        by (rule in_window_new [OF fresh(3) len [THEN conjunct1] one]) (use here [of t] in simp)
      then have "\<forall>t. in_window t ((P @ Q) @ G @ [now]) \<le> 2 * nat LOGIN_LIMIT" by simp
      from Cons.IH [OF s(1) fresh(2) [folded ok(3)] this] show ?case using run ok(1) by simp
    qed
  qed
qed

text \<open>C24: Attempts to log in are bounded in every interval, not only in the windows the code
  counts: whatever the catalog holds and whatever statements fail, among attempts made at
  times that do not go backwards at most 60 are let through in any 60 seconds.\<close>

theorem login_rate_bounded:
  assumes "db_ok (c_db c)" "sorted ts"
  shows "length (filter (\<lambda>x. t \<le> x \<and> x < t + LOGIN_WINDOW_SECS) (admitted ts c)) \<le> 60"
proof -
  have "windows (c_db c) [] [] [] ts" using assms(1) by (intro windows_start) (simp add: db_ok_def)
  from admitted_rate [OF assms(2) this, of t] show ?thesis by (simp add: in_window_def LOGIN_LIMIT_def)
qed

theorem login_rate_bounded_witness:
  "length (filter (\<lambda>x. 100 \<le> x \<and> x < 100 + LOGIN_WINDOW_SECS) (admitted [100, 100, 159, 160] sample_catalog)) \<le> 60
    \<and> admitted [100, 100, 159, 160] sample_catalog = [100, 100, 159, 160]"
proof
  have ok: "db_ok (c_db sample_catalog)" using empty_ok by (simp add: sample_catalog_def)
  show "length (filter (\<lambda>x. 100 \<le> x \<and> x < 100 + LOGIN_WINDOW_SECS) (admitted [100, 100, 159, 160] sample_catalog)) \<le> 60"
    by (rule login_rate_bounded [OF ok]) simp
  show "admitted [100, 100, 159, 160] sample_catalog = [100, 100, 159, 160]"
    by (simp add: enforce_login_limit_at_def exec_sql_def run_simps limit_login_def Let_def sample_catalog_def empty_database_def
      LOGIN_WINDOW_SECS_def LOGIN_LIMIT_def)
qed

end
