(* ===== verification/Jobs_Correct.thy ===== *)
theory Jobs_Correct
  imports Jobs Api_Correct Catalog_Correct
begin

text \<open>
  The scheduler never finds work, and a run of a task tells the truth: what it publishes
  is what the catalog records about the job, whatever fails on the way.
\<close>

section \<open>The scheduler\<close>

text \<open>C32: The scheduler is idle: firing any policy in any reachable catalog enqueues no task, whatever
  fails, because the table of attached hosts it reads has no writer.\<close>

theorem scheduler_idle:
  assumes "reachable L A c" "fire mk path p c = (r, t)"
  shows "r = Inr []"
proof -
  obtain s u where l: "list_hosts_for_policy (po_id p) c = (s, u)" by fastforce
  have "s = Inr [] \<or> s = Inl (Catalog ''listing hosts for policy'')" by (rule none_attached [OF assms(1) l])
  then show ?thesis using assms(2) l by (auto simp: fire_def or_else_def run_simps)
qed

section \<open>What a run does to the jobs\<close>

definition only_job :: "string \<Rightarrow> database \<Rightarrow> database \<Rightarrow> bool" where
  "only_job i d d' \<longleftrightarrow> filter (\<lambda>j. jr_id j \<noteq> i) (d_jobs d') = filter (\<lambda>j. jr_id j \<noteq> i) (d_jobs d)
     \<and> (i \<in> jr_id ` set (d_jobs d) \<longrightarrow> i \<in> jr_id ` set (d_jobs d'))"

interpretation oj: table_relation "only_job i" for i
  by unfold_locales (auto simp: only_job_def)

lemma only_job_same: "d_jobs d' = d_jobs d \<Longrightarrow> only_job i d d'"
  by (simp add: only_job_def)

lemma only_job_insert: "jr_id j = i \<Longrightarrow> moves_stmt (only_job i) (insert_job j)"
  by (auto simp: moves_stmt_def insert_job_def only_job_def split: if_splits)

lemma only_job_update:
  assumes "\<And>j. jr_id (f j) = jr_id j"
  shows "moves_stmt (only_job i) (update_jobs i f)"
proof -
  have "filter (\<lambda>j. jr_id j \<noteq> i) (map (\<lambda>j. if jr_id j = i then f j else j) js) = filter (\<lambda>j. jr_id j \<noteq> i) js" for js
    using assms by (induction js) auto
  then show ?thesis
    using keyset_update [of jr_id f, OF assms] by (auto simp: moves_stmt_def update_jobs_def only_job_def simp del: set_map)
qed

lemma only_job_snapshot: "moves_stmt (only_job i) (insert_snapshot s)"
  by (auto simp: moves_stmt_def insert_snapshot_def only_job_def split: if_splits)

lemma only_job_ops:
  "moves (only_job i) (record_job_started i h p)" "moves (only_job i) (record_job_completed i a b)"
  "moves (only_job i) (record_job_failed i m)" "moves (only_job i) (record_snapshot s h j ref n)"
  unfolding record_job_started_def record_job_completed_def record_job_failed_def record_snapshot_def
  by (intro oj.moves_intros oj.move_exec only_job_insert only_job_update only_job_snapshot; simp)+

lemma outcome_only_job: "handler_moves (only_job i) (job_outcome L W mk path i task)"
  unfolding job_outcome_def build_host_config_def Let_def
  by (intro oj.h_intros oj.h_call oj.h_ignoring oj.reads only_job_ops)

lemma only_job_run:
  assumes "only_job i d d'" "i \<notin> jr_id ` set (d_jobs d)"
  shows "filter (\<lambda>j. jr_id j \<noteq> i) (d_jobs d') = d_jobs d"
proof -
  have "filter (\<lambda>j. jr_id j \<noteq> i) (d_jobs d) = d_jobs d" using assms(2) by (auto simp: filter_id_conv)
  then show ?thesis using assms(1) by (simp add: only_job_def)
qed

section \<open>The statements of a run\<close>

lemma started_run:
  assumes "record_job_started i h p c = (r, t)"
  shows "case r of Inl _ \<Rightarrow> c_db t = c_db c | Inr _ \<Rightarrow> i \<in> jr_id ` set (d_jobs (c_db t))"
proof -
  have "wp (record_job_started i h p) (\<lambda>r t. case r of Inl _ \<Rightarrow> c_db t = c_db c | Inr _ \<Rightarrow> i \<in> jr_id ` set (d_jobs (c_db t))) c"
    by (simp add: record_job_started_def wp_simps insert_job_def Let_def)
  then show ?thesis using assms by (rule wp_run)
qed

lemma completed_run:
  assumes "record_job_completed i a b c = (Inr (), t)"
  shows "\<forall>j\<in>set (d_jobs (c_db t)). jr_id j = i \<longrightarrow> jr_status j = ''completed'' \<and> jr_bytes_new j = Some a \<and> jr_bytes_total j = Some b"
proof -
  have "wp (record_job_completed i a b) (\<lambda>r t. is_ok r \<longrightarrow> (\<forall>j\<in>set (d_jobs (c_db t)). jr_id j = i \<longrightarrow>
      jr_status j = ''completed'' \<and> jr_bytes_new j = Some a \<and> jr_bytes_total j = Some b)) c"
    by (simp add: record_job_completed_def wp_simps update_jobs_def Let_def, intro conjI impI ballI; elim UnE imageE; simp)
  from wp_run [OF this assms] show ?thesis by (simp add: is_ok_def)
qed

lemma snapshot_run: "record_snapshot s h j ref n c = (r, t) \<Longrightarrow> d_jobs (c_db t) = d_jobs (c_db c)"
proof -
  have "wp (record_snapshot s h j ref n) (\<lambda>r t. d_jobs (c_db t) = d_jobs (c_db c)) c"
    by (simp add: record_snapshot_def wp_simps insert_snapshot_def Let_def)
  then show "record_snapshot s h j ref n c = (r, t) \<Longrightarrow> d_jobs (c_db t) = d_jobs (c_db c)" by (rule wp_run)
qed

lemma failed_run:
  assumes "record_job_failed i m c = (r, t)" "\<not> (c_fails c \<noteq> [] \<and> hd (c_fails c))"
  shows "\<forall>j\<in>set (d_jobs (c_db t)). jr_id j = i \<longrightarrow> jr_status j = ''failed'' \<and> jr_error j = Some m"
proof -
  have "wp (record_job_failed i m) (\<lambda>r t. \<forall>j\<in>set (d_jobs (c_db t)). jr_id j = i \<longrightarrow> jr_status j = ''failed'' \<and> jr_error j = Some m) c"
    using assms(2)
    by (simp add: record_job_failed_def wp_simps update_jobs_def Let_def, intro conjI impI ballI; elim UnE imageE conjE disjE; simp)
  then show ?thesis using assms(1) by (rule wp_run)
qed

lemma failed_none:
  assumes "record_job_failed i m c = (r, t)" "i \<notin> jr_id ` set (d_jobs (c_db c))"
  shows "d_jobs (c_db t) = d_jobs (c_db c)"
proof -
  have "map (\<lambda>j. if jr_id j = i then f j else j) (d_jobs (c_db c)) = d_jobs (c_db c)" for f
    using assms(2) by (intro map_idI) auto
  then have "wp (record_job_failed i m) (\<lambda>r t. d_jobs (c_db t) = d_jobs (c_db c)) c"
    by (simp add: record_job_failed_def wp_simps update_jobs_def Let_def)
  then show ?thesis using assms(1) by (rule wp_run)
qed

section \<open>A run\<close>

lemma then_do_ok:
  assumes "then_do h f c = (Inr b, t)"
  obtains a u where "h c = (Inr a, u)" "f a u = (Inr b, t)"
  using assms by (auto simp: then_do_def split: prod.splits sum.splits)

lemma outcome_completed:
  assumes "job_outcome L W mk path i task c = (Inr s, t)"
  shows "\<forall>j\<in>set (d_jobs (c_db t)). jr_id j = i \<longrightarrow> jr_status j = ''completed''
     \<and> jr_bytes_new j = Some (sint (st_new_bytes (sn_stats s))) \<and> jr_bytes_total j = Some (sint (st_bytes (sn_stats s)))"
  using assms unfolding job_outcome_def
proof (elim then_do_ok, goal_cases)
  case (1 cfg u1 x u2 paths u3 s' u4 y u5 z u6)
  then have s: "s' = s" "u6 = t" by (simp_all add: reply_def)
  have "record_job_completed i (sint (st_new_bytes (sn_stats s))) (sint (st_bytes (sn_stats s))) u4 = (Inr (), u5)"
    using 1(5) s by (auto simp: call_def split: prod.splits sum.splits)
  note rows = completed_run [OF this]
  obtain r where "record_snapshot (sn_id s) (jt_host_id task) i (wk_repo_location W path) (sint (st_bytes (sn_stats s))) u5 = (r, t)"
    using 1(6) s by (auto simp: ignoring_def) (metis prod.collapse)
  from snapshot_run [OF this] rows show ?case by simp
qed

text \<open>C31: A run tells the truth, under every failure. A worker that runs a task under a fresh
  job id leaves every other job as it was. When the job could not be recorded it publishes
  nothing and adds no row. Otherwise it publishes \<open>started\<close> and then exactly one terminal
  event, which is also the notification sent: \<open>completed\<close> exactly when everything the run
  has to do succeeded, its record in the catalog included, and then the job's row is
  completed with the same byte counts; else \<open>failed\<close> with the error of what did not
  succeed, and then the row is failed with that error, whatever failed before, unless the
  one statement that marks it failed fails itself.\<close>

theorem run_tells_truth:
  assumes "run_task L W mk path task c = (evs, note, t)"
    and "c_uuids c (c_uuid_pos c) = i" "i \<notin> jr_id ` set (d_jobs (c_db c))"
  shows "filter (\<lambda>j. jr_id j \<noteq> i) (d_jobs (c_db t)) = d_jobs (c_db c)
     \<and> (case record_job_started i (jt_host_id task) (jt_policy_id task) (c\<lparr> c_uuid_pos := Suc (c_uuid_pos c) \<rparr>) of
          (Inl e, _) \<Rightarrow> evs = [] \<and> note = None \<and> d_jobs (c_db t) = d_jobs (c_db c)
        | (Inr _, u) \<Rightarrow> (case job_outcome L W mk path i task u of
            (Inr s, _) \<Rightarrow> evs = [started_event i task, completed_event i task s] \<and> note = Some (completed_event i task s)
              \<and> (\<exists>j\<in>set (d_jobs (c_db t)). jr_id j = i \<and> jr_status j = ''completed''
                   \<and> jr_bytes_new j = ev_bytes_new (completed_event i task s) \<and> jr_bytes_total j = ev_bytes_total (completed_event i task s))
          | (Inl m, v) \<Rightarrow> evs = [started_event i task, failed_event i task m] \<and> note = Some (failed_event i task m)
              \<and> (\<exists>j\<in>set (d_jobs (c_db t)). jr_id j = i
                   \<and> (\<not> (c_fails v \<noteq> [] \<and> hd (c_fails v)) \<longrightarrow> jr_status j = ''failed'' \<and> jr_error j = ev_error (failed_event i task m)))))"
proof -
  obtain r u where started: "record_job_started i (jt_host_id task) (jt_policy_id task) (c\<lparr> c_uuid_pos := Suc (c_uuid_pos c) \<rparr>) = (r, u)"
    by fastforce
  have begun: "only_job i (c_db c) (c_db u)" using moves_run [OF only_job_ops(1) started] by simp
  show ?thesis
  proof (cases r)
    case (Inl e)
    then have "d_jobs (c_db u) = d_jobs (c_db c)" using started_run [OF started] by simp
    then have "d_jobs (c_db t) = d_jobs (c_db c)"
      using assms started Inl failed_none [OF prod.collapse [symmetric]] by (auto simp: run_task_def Let_def)
    moreover have "filter (\<lambda>j. jr_id j \<noteq> i) (d_jobs (c_db c)) = d_jobs (c_db c)" using assms(3) by (auto simp: filter_id_conv)
    ultimately show ?thesis using assms started Inl by (simp add: run_task_def Let_def)
  next
    case (Inr x)
    then have there: "i \<in> jr_id ` set (d_jobs (c_db u))" using started_run [OF started] by simp
    obtain q v where outcome: "job_outcome L W mk path i task u = (q, v)" by fastforce
    note ran = handler_run [OF outcome_only_job outcome]
    show ?thesis
    proof (cases q)
      case (Inr s)
      have run: "evs = [started_event i task, completed_event i task s]" "note = Some (completed_event i task s)" "t = v"
        using assms(1,2) started outcome \<open>r = Inr x\<close> Inr by (simp_all add: run_task_def Let_def)
      have only: "only_job i (c_db c) (c_db t)" unfolding run(3) by (rule oj.along [OF begun ran])
      obtain j where "j \<in> set (d_jobs (c_db t))" "jr_id j = i" using there ran run(3) by (auto simp: only_job_def)
      then show ?thesis
        using only_job_run [OF only assms(3)] run outcome_completed [OF outcome [unfolded Inr]] started outcome \<open>r = Inr x\<close> Inr
        by (auto simp: completed_event_def)
    next
      case (Inl m)
      obtain b w where failing: "record_job_failed i m v = (b, w)" by fastforce
      have run: "evs = [started_event i task, failed_event i task m]" "note = Some (failed_event i task m)" "t = w"
        using assms(1,2) started outcome \<open>r = Inr x\<close> Inl failing by (simp_all add: run_task_def Let_def)
      note last = moves_run [OF only_job_ops(3) failing]
      have only: "only_job i (c_db c) (c_db t)" unfolding run(3) by (rule oj.along [OF oj.along [OF begun ran] last])
      obtain j where j: "j \<in> set (d_jobs (c_db t))" "jr_id j = i" using there ran last run(3) by (auto simp: only_job_def)
      have "jr_status j = ''failed'' \<and> jr_error j = Some m" if "\<not> (c_fails v \<noteq> [] \<and> hd (c_fails v))"
        using failed_run [OF failing that] j run(3) by simp
      then show ?thesis
        using only_job_run [OF only assms(3)] run j started outcome \<open>r = Inr x\<close> Inl by (auto simp: failed_event_def)
    qed
  qed
qed

section \<open>A worker\<close>

definition sample_worker :: worker where
  "sample_worker = \<lparr> wk_show = (\<lambda>_. ''error''), wk_password = None, wk_decode_key = (\<lambda>_. Inr ''key''), wk_open_repo = (\<lambda>_. None),
     wk_repo_location = (\<lambda>p. p), wk_paths = (\<lambda>_. Inr []), wk_backup = (\<lambda>_ _ _. Inr (ref_snapshot ''s1'' ''10'')) \<rparr>"

definition sample_task :: job_task where
  "sample_task = \<lparr> jt_policy_id = ''uu'', jt_host_id = ''u'', jt_paths_json = ''[]'', jt_bandwidth_limit_kbps = None,
     jt_catalog_path = ''/var/aegis'', jt_master_key = replicate 32 0 \<rparr>"

lemma sample_policy_state:
  "d_jobs (c_db sample_with_policy) = []" "c_uuids sample_with_policy (c_uuid_pos sample_with_policy) = ''uuu''" "healthy sample_with_policy"
  by (simp_all add: sample_with_policy_def sample_with_host_def sample_run add_policy_def insert_policy_def)

theorem scheduler_idle_witness: "fst (fire [] ''/var/aegis'' sample_policy sample_with_job) = Inr []"
  using scheduler_idle [OF sample_reachable(2)] by (metis prod.collapse)

text \<open>
  The backup of the sample task succeeds, but recording its completion fails: the run is
  reported as failed and its row says so.
\<close>

definition sample_failing :: catalog where
  "sample_failing = sample_with_policy\<lparr> c_fails := [False, False, True] \<rparr>"

lemma sample_key:
  "\<exists>u row. record_job_started ''uuu'' ''u'' ''uu'' (sample_failing\<lparr> c_uuid_pos := Suc (c_uuid_pos sample_failing) \<rparr>) = (Inr (), u)
     \<and> c_fails u = [False, True] \<and> host_by_id ''u'' (c_db u) = Some row \<and> is_ok (host_from_row row)
     \<and> open_sealed ref_lib (replicate 32 0) (aad (CtxHost ''u'')) (hr_ssh_key_encrypted row) = Inr [7]"
proof -
  obtain h where h: "add_host ref_lib ''web'' ''10.0.0.5'' 22 ''root'' [7] Agentless (replicate 32 0) sample_catalog = (Inr h, sample_with_host)"
    "ho_id h = ''u''"
    using sample_host(1) unfolding sample_with_host_def by (metis host.select_convs(1) prod.collapse)
  obtain row where row: "host_by_id ''u'' (c_db sample_with_host) = Some row" "host_from_row row = Inr h"
    "sealed_for ref_lib (replicate 32 0) ''u'' [7] (hr_ssh_key_encrypted row)"
    using wp_run [OF wp_add_host h(1)] h(2) by auto
  have "\<exists>u. record_job_started ''uuu'' ''u'' ''uu'' (sample_failing\<lparr> c_uuid_pos := Suc (c_uuid_pos sample_failing) \<rparr>) = (Inr (), u)
     \<and> c_fails u = [False, True] \<and> d_hosts (c_db u) = d_hosts (c_db sample_with_host)"
    by (simp add: sample_failing_def sample_with_policy_def sample_with_host_def sample_run add_policy_def insert_policy_def
      record_job_started_def insert_job_def)
  then show ?thesis using row sealed_for_opens [OF ref_lib_laws row(3)] by (fastforce simp: host_by_id_def)
qed

lemma sample_outcome:
  assumes "c_fails u = [False, True]" "host_by_id ''u'' (c_db u) = Some row" "host_from_row row = Inr h"
    and "open_sealed ref_lib (replicate 32 0) (aad (CtxHost ''u'')) (hr_ssh_key_encrypted row) = Inr [7]"
  shows "\<exists>v. job_outcome ref_lib sample_worker (replicate 32 0) ''/var/aegis'' ''uuu'' sample_task u = (Inl ''error'', v) \<and> c_fails v = []"
proof -
  have "get_host_with_key ref_lib ''u'' (replicate 32 0) u = (Inr \<lparr> hk_host = h, hk_ssh_key_pem = [7] \<rparr>, u\<lparr> c_fails := [True] \<rparr>)"
    using assms by (simp add: get_host_with_key_def query_sql_def exec_sql_def run_simps Let_def ok_or_def del: aad.simps)
  then have "build_host_config ref_lib sample_worker ''u'' (replicate 32 0) u
      = (Inr (with_port (ho_ssh_port h) (new_config (ho_ssh_user h) (ho_address h) (Auth_Key ''key''))), u\<lparr> c_fails := [True] \<rparr>)"
    by (simp add: build_host_config_def then_do_def call_def check_def reply_def sample_worker_def Let_def)
  moreover have "jt_host_id sample_task = ''u''" by (simp add: sample_task_def)
  ultimately show ?thesis
    by (simp add: job_outcome_def then_do_def call_def check_def sample_worker_def sample_task_def record_job_completed_def
      exec_sql_def now_secs_def run_simps Let_def)
qed

theorem run_tells_truth_witness:
  "\<exists>evs note t. run_task ref_lib sample_worker (replicate 32 0) ''/var/aegis'' sample_task sample_failing = (evs, note, t)
     \<and> evs = [started_event ''uuu'' sample_task, failed_event ''uuu'' sample_task ''error'']
     \<and> (\<exists>j\<in>set (d_jobs (c_db t)). jr_id j = ''uuu'' \<and> jr_status j = ''failed'' \<and> jr_error j = Some ''error'')"
proof -
  obtain evs nt t where run: "run_task ref_lib sample_worker (replicate 32 0) ''/var/aegis'' sample_task sample_failing = (evs, nt, t)"
    by (metis prod.collapse)
  have s: "c_uuids sample_failing (c_uuid_pos sample_failing) = ''uuu''" "''uuu'' \<notin> jr_id ` set (d_jobs (c_db sample_failing))"
    using sample_policy_state by (simp_all add: sample_failing_def)
  obtain u v where ran: "record_job_started ''uuu'' (jt_host_id sample_task) (jt_policy_id sample_task)
       (sample_failing\<lparr> c_uuid_pos := Suc (c_uuid_pos sample_failing) \<rparr>) = (Inr (), u)"
    "job_outcome ref_lib sample_worker (replicate 32 0) ''/var/aegis'' ''uuu'' sample_task u = (Inl ''error'', v)" "c_fails v = []"
  proof -
    obtain u row where u: "record_job_started ''uuu'' ''u'' ''uu'' (sample_failing\<lparr> c_uuid_pos := Suc (c_uuid_pos sample_failing) \<rparr>) = (Inr (), u)"
      "c_fails u = [False, True]" "host_by_id ''u'' (c_db u) = Some row" "is_ok (host_from_row row)"
      "open_sealed ref_lib (replicate 32 0) (aad (CtxHost ''u'')) (hr_ssh_key_encrypted row) = Inr [7]"
      using sample_key by blast
    obtain h where "host_from_row row = Inr h" using u(4) by (auto simp: is_ok_iff)
    from sample_outcome [OF u(2,3) this u(5)] show ?thesis using that u(1) by (auto simp: sample_task_def)
  qed
  show ?thesis
    using run_tells_truth [OF run s] run ran by (auto simp: failed_event_def)
qed

end
