(* ===== verification/Metrics_Correct.thy ===== *)
theory Metrics_Correct
  imports Metrics Catalog_Correct
begin

text \<open>
  The exposition as a function of the tables: every sample is a count or a sum over the
  rows, the gauges add up to the tables they count, and rendering neither fails nor writes.
\<close>

lemma collected: "collect_rows f rows = Inr xs \<Longrightarrow> list_all2 (\<lambda>r x. f r = Inr x) rows xs"
proof (induction rows arbitrary: xs)
  case (Cons r rows)
  then show ?case by (cases "f r"; cases "collect_rows f rows") auto
qed simp

lemma count_partition:
  assumes "distinct ks" "\<forall>x\<in>set xs. f x \<in> set ks"
  shows "sum_list (map (\<lambda>k. length (filter (\<lambda>x. f x = k) xs)) ks) = length xs"
proof -
  have "(\<Sum>k\<in>set ks. length (filter (\<lambda>x. f x = k) xs)) = length xs"
    using assms(2)
  proof (induction xs)
    case (Cons x xs)
    have "(\<Sum>k\<in>set ks. length (filter (\<lambda>x. f x = k) (x # xs)))
        = (\<Sum>k\<in>set ks. (if f x = k then 1 else 0) + length (filter (\<lambda>x. f x = k) xs))"
      by (rule sum.cong) auto
    then show ?case using Cons by (simp add: sum.distrib)
  qed simp
  then show ?thesis by (simp add: sum_list_distinct_conv_sum_set assms(1))
qed

section \<open>What the samples say of the rows\<close>

definition hosts_with :: "database \<Rightarrow> string \<Rightarrow> nat" where
  "hosts_with d s = length (filter (\<lambda>h. hr_status h = s) (d_hosts d))"

text \<open>The thousand jobs started last.\<close>

definition recent_jobs :: "database \<Rightarrow> job_row list" where
  "recent_jobs d = take 1000 (sort_key (\<lambda>j. - jr_started_at j) (d_jobs d))"

definition jobs_with :: "database \<Rightarrow> string \<Rightarrow> nat" where
  "jobs_with d s = length (filter (\<lambda>j. jr_status j = s) (recent_jobs d))"

definition completed_jobs :: "database \<Rightarrow> job_row list" where
  "completed_jobs d = filter (\<lambda>j. jr_status j = ''completed'') (recent_jobs d)"

lemma filter_list_all2:
  assumes "list_all2 R xs ys" "\<And>x y. R x y \<Longrightarrow> P x = Q y \<and> (P x \<longrightarrow> S x y)"
  shows "list_all2 S (filter P xs) (filter Q ys)"
  using assms by (induction xs ys rule: list_all2_induct) auto

lemma filter_sort_key: "length (filter P (sort_key k xs)) = length (filter P xs)"
  by (metis mset_filter mset_sort size_mset)

lemma status_text: "status_from_str s = Inr st \<Longrightarrow> status_str st = s"
  by (auto simp: status_from_str_def split: if_splits)

lemma host_status_text: "host_from_row r = Inr h \<Longrightarrow> status_str (ho_status h) = hr_status r"
  by (auto simp: host_from_row_def res_bind_Inr dest: status_text)

lemma job_text: "job_from_row nul r = Inr j \<Longrightarrow> jo_status j = jr_status r
    \<and> (\<forall>n. jr_bytes_new r = Some n \<longrightarrow> jo_bytes_new j = n) \<and> (\<forall>n. jr_bytes_total r = Some n \<longrightarrow> jo_bytes_total j = n)"
  by (auto simp: job_from_row_def read_i64_def res_bind_Inr)

lemma host_samples_rows:
  assumes "list_all2 (\<lambda>r h. host_from_row r = Inr h) (sort_key k (d_hosts d)) hs"
  shows "host_samples hs = map (\<lambda>s. (s, hosts_with d s)) [''reachable'', ''unreachable'', ''unknown'']"
proof -
  have "list_all2 (\<lambda>r h. True) (filter (\<lambda>r. hr_status r = s) (sort_key k (d_hosts d))) (filter (\<lambda>h. status_str (ho_status h) = s) hs)" for s
    by (rule filter_list_all2 [OF assms]) (simp add: host_status_text)
  then have "length (filter (\<lambda>h. status_str (ho_status h) = s) hs) = hosts_with d s" for s
    unfolding hosts_with_def by (metis filter_sort_key list_all2_lengthD)
  then show ?thesis by (simp add: host_samples_def)
qed

lemma job_samples_rows:
  assumes "list_all2 (\<lambda>r j. job_from_row nul r = Inr j) (recent_jobs d) js"
  shows "job_samples js = map (\<lambda>s. (s, jobs_with d s)) [''running'', ''completed'', ''failed'']"
proof -
  have "list_all2 (\<lambda>r j. True) (filter (\<lambda>r. jr_status r = s) (recent_jobs d)) (filter (\<lambda>j. jo_status j = s) js)" for s
    by (rule filter_list_all2 [OF assms]) (simp add: job_text)
  then have "length (filter (\<lambda>j. jo_status j = s) js) = jobs_with d s" for s
    unfolding jobs_with_def by (metis list_all2_lengthD)
  then show ?thesis by (simp add: job_samples_def)
qed

lemma completed_rows:
  assumes "list_all2 (\<lambda>r j. job_from_row nul r = Inr j) (recent_jobs d) js" "jobs_ok d"
  shows "map jo_bytes_total (filter (\<lambda>j. jo_status j = ''completed'') js) = map (\<lambda>r. the (jr_bytes_total r)) (completed_jobs d)"
    "map jo_bytes_new (filter (\<lambda>j. jo_status j = ''completed'') js) = map (\<lambda>r. the (jr_bytes_new r)) (completed_jobs d)"
proof -
  have rows: "set (recent_jobs d) \<subseteq> set (d_jobs d)" by (auto simp: recent_jobs_def dest: in_set_takeD)
  have b: "list_all2 (\<lambda>r j. job_from_row nul r = Inr j \<and> job_bytes_ok r) (recent_jobs d) js"
  proof -
    have "job_bytes_ok r" if "r \<in> set (recent_jobs d)" for r using assms(2) rows that by (auto simp: jobs_ok_def)
    then have "list_all2 (\<lambda>r j. job_bytes_ok r) (recent_jobs d) js"
      using list_all2_lengthD [OF assms(1)] by (simp add: list_all2_conv_all_nth)
    then show ?thesis using assms(1) by (simp add: list_all2_conv_all_nth)
  qed
  have "list_all2 (\<lambda>r j. the (jr_bytes_total r) = jo_bytes_total j \<and> the (jr_bytes_new r) = jo_bytes_new j)
      (completed_jobs d) (filter (\<lambda>j. jo_status j = ''completed'') js)"
    unfolding completed_jobs_def by (rule filter_list_all2 [OF b]) (auto simp: job_bytes_ok_def dest: job_text)
  then have "list_all2 (=) (map (\<lambda>r. the (jr_bytes_total r)) (completed_jobs d)) (map jo_bytes_total (filter (\<lambda>j. jo_status j = ''completed'') js))"
    "list_all2 (=) (map (\<lambda>r. the (jr_bytes_new r)) (completed_jobs d)) (map jo_bytes_new (filter (\<lambda>j. jo_status j = ''completed'') js))"
    by (auto simp: list_all2_map1 list_all2_map2 elim: list_all2_mono)
  then show "map jo_bytes_total (filter (\<lambda>j. jo_status j = ''completed'') js) = map (\<lambda>r. the (jr_bytes_total r)) (completed_jobs d)"
    "map jo_bytes_new (filter (\<lambda>j. jo_status j = ''completed'') js) = map (\<lambda>r. the (jr_bytes_new r)) (completed_jobs d)"
    by (simp_all add: list.rel_eq)
qed

lemma hosts_with_sum:
  assumes "hosts_ok d"
  shows "(\<Sum>s\<leftarrow>[''reachable'', ''unreachable'', ''unknown'']. hosts_with d s) = length (d_hosts d)"
proof -
  have "hr_status h \<in> set [''reachable'', ''unreachable'', ''unknown'']" if h: "h \<in> set (d_hosts d)" for h
  proof -
    obtain x where "host_from_row h = Inr x" using assms h by (auto simp: hosts_ok_def is_ok_iff)
    then show ?thesis using host_status_text [of h x] by (cases "ho_status x") auto
  qed
  then show ?thesis
    using count_partition [of "[''reachable'', ''unreachable'', ''unknown'']" "d_hosts d" hr_status] by (simp add: hosts_with_def)
qed

lemma jobs_with_sum:
  assumes "jobs_ok d"
  shows "(\<Sum>s\<leftarrow>[''running'', ''completed'', ''failed'']. jobs_with d s) = min 1000 (length (d_jobs d))"
proof -
  have "jr_status j \<in> set [''running'', ''completed'', ''failed'']" if j: "j \<in> set (recent_jobs d)" for j
    using assms j by (auto simp: jobs_ok_def recent_jobs_def job_status_ok_def dest!: in_set_takeD)
  then have "(\<Sum>s\<leftarrow>[''running'', ''completed'', ''failed'']. jobs_with d s) = length (recent_jobs d)"
    using count_partition [of "[''running'', ''completed'', ''failed'']" "recent_jobs d" jr_status] by (simp add: jobs_with_def)
  then show ?thesis by (simp add: recent_jobs_def min.commute)
qed

section \<open>Rendering\<close>

lemma or_else_run: "\<exists>b t. or_else m a c = (Inr b, t)"
  by (auto simp: or_else_def try_io_def ret_def split: prod.splits sum.splits)

lemma or_else_Inr: "m c = (Inr b, t) \<Longrightarrow> or_else m a c = (Inr b, t)"
  by (simp add: or_else_def try_io_def ret_def)

lemma bnd_Inr: "m c = (Inr a, t) \<Longrightarrow> bnd m f c = f a t"
  by (simp add: bnd_def)

lemma bnd_total:
  assumes "\<exists>a u. m c = (Inr a, u)" "\<And>a u. \<exists>b t. f a u = (Inr b, t)"
  shows "\<exists>b t. bnd m f c = (Inr b, t)"
  using assms by (auto simp: bnd_def)

lemma ret_total: "\<exists>b t. ret a c = (Inr b, t)"
  by (simp add: ret_def)

lemma render_total: "\<exists>body t. render F nul rb up c = (Inr body, t)"
  unfolding render_def Let_def by (intro bnd_total or_else_run ret_total)

interpretation fx: table_relation "\<lambda>d d'. d' = d"
  by unfold_locales simp_all

lemma render_reads: "moves (\<lambda>d d'. d' = d) (render F nul rb up)"
  unfolding render_def or_else_def list_hosts_def list_jobs_def list_snapshots_for_host_def Let_def
  by (intro fx.moves_intros)

text \<open>A listing in which no statement fails and every row can be read.\<close>

lemma listed_rows:
  assumes "healthy u" "\<forall>r\<in>set (q (c_db u)). is_ok (f r)"
  obtains xs v where "bnd (query_sql g q) (\<lambda>rows. lift_res (collect_rows f rows)) u = (Inr xs, v)"
    "list_all2 (\<lambda>r x. f r = Inr x) (q (c_db u)) xs" "healthy v" "c_db v = c_db u"
proof -
  have "\<not> (c_fails u \<noteq> [] \<and> hd (c_fails u))" "healthy (u\<lparr> c_fails := tl (c_fails u) \<rparr>)"
    using assms(1) by (cases "c_fails u"; simp add: healthy_def)+
  moreover obtain xs where "collect_rows f (q (c_db u)) = Inr xs" using collect_rows_ok [OF assms(2)] by (auto simp: is_ok_iff)
  ultimately show ?thesis
    using that [of xs "u\<lparr> c_fails := tl (c_fails u) \<rparr>"] collected [of f "q (c_db u)" xs]
    by (auto simp: bnd_def query_sql_def exec_sql_def lift_res_def Let_def)
qed

lemma listed_snapshots:
  assumes "healthy u"
  obtains v where "bnd (list_snapshots_for_host None 10000) (\<lambda>xs. ret (length xs)) u = (Inr (min 10000 (length (d_snapshots (c_db u)))), v)"
proof -
  have "\<not> (c_fails u \<noteq> [] \<and> hd (c_fails u))" using assms by (cases "c_fails u") (auto simp: healthy_def)
  then show ?thesis
    using that by (auto simp: list_snapshots_for_host_def bnd_def query_sql_def exec_sql_def ret_def Let_def matches_def sql_limit_def min.commute)
qed

text \<open>The text of a scrape, from the tables.\<close>

definition exposition :: "float_lib \<Rightarrow> 64 word option \<Rightarrow> 64 word option \<Rightarrow> database \<Rightarrow> string" where
  "exposition F repo_bytes uptime d =
     metric_lines F ''aegis_hosts'' ''Registered backup hosts by reachability.'' ''gauge''
       (map (\<lambda>s. (s, f_int F (int (hosts_with d s)))) [''reachable'', ''unreachable'', ''unknown''])
   @ metric_lines F ''aegis_jobs'' ''Backup jobs by status (last 1000).'' ''gauge''
       (map (\<lambda>s. (s, f_int F (int (jobs_with d s)))) [''running'', ''completed'', ''failed''])
   @ metric_lines F ''aegis_backup_bytes_total'' ''Logical bytes read by completed jobs (last 1000).'' ''counter''
       [([], f_sum F (map (\<lambda>r. the (jr_bytes_total r)) (completed_jobs d)))]
   @ metric_lines F ''aegis_backup_new_bytes_total'' ''Bytes actually written by completed jobs (last 1000).'' ''counter''
       [([], f_sum F (map (\<lambda>r. the (jr_bytes_new r)) (completed_jobs d)))]
   @ metric_lines F ''aegis_snapshots_recorded'' ''Snapshots recorded in the catalog.'' ''gauge''
       [([], f_int F (int (min 10000 (length (d_snapshots d)))))]
   @ (case repo_bytes of None \<Rightarrow> [] | Some n \<Rightarrow> metric_lines F ''aegis_repository_bytes''
       ''Bytes stored in the control plane's repository.'' ''gauge'' [([], f_int F (uint n))])
   @ (case uptime of None \<Rightarrow> [] | Some n \<Rightarrow> metric_lines F ''aegis_uptime_seconds''
       ''Seconds since the control plane started.'' ''gauge'' [([], f_int F (uint n))])"

lemma render_healthy:
  assumes "db_ok (c_db c)" "healthy c"
  shows "fst (render F (Some n) rb up c) = Inr (exposition F rb up (c_db c))"
proof -
  let ?d = "c_db c"
  have rows: "\<forall>r\<in>set (d_hosts ?d). is_ok (host_from_row r)" using assms(1) by (simp add: db_ok_def hosts_ok_def)
  obtain hs u where 1: "list_hosts c = (Inr hs, u)" "list_all2 (\<lambda>r h. host_from_row r = Inr h) (sort_key (\<lambda>h. (hr_created_at h, hr_id h)) (d_hosts ?d)) hs"
    "healthy u" "c_db u = ?d"
    unfolding list_hosts_def
    by (rule listed_rows [OF assms(2), where f = host_from_row and q = "\<lambda>d. sort_key (\<lambda>h. (hr_created_at h, hr_id h)) (d_hosts d)"])
      (use rows in simp_all)
  let ?q = "\<lambda>d. sql_limit 1000 0 (sort_key (\<lambda>j. - jr_started_at j)
         (filter (\<lambda>j. matches None (jr_host_id j) \<and> matches None (jr_policy_id j) \<and> matches None (jr_status j)) (d_jobs d)))"
  have q: "?q ?d = recent_jobs ?d" by (simp add: recent_jobs_def sql_limit_def matches_def)
  obtain js v where 2: "list_jobs (Some n) None None None 1000 0 u = (Inr js, v)"
    "list_all2 (\<lambda>r j. job_from_row (Some n) r = Inr j) (recent_jobs ?d) js" "healthy v" "c_db v = ?d"
    unfolding list_jobs_def
    by (rule listed_rows [OF 1(3), where f = "job_from_row (Some n)" and q = ?q]) (use 1(4) q in \<open>auto simp: job_from_row_ok\<close>)
  obtain w where 3: "bnd (list_snapshots_for_host None 10000) (\<lambda>xs. ret (length xs)) v = (Inr (min 10000 (length (d_snapshots ?d))), w)"
    using listed_snapshots [OF 2(3)] 2(4) by metis
  have jobs: "jobs_ok ?d" using assms(1) by (simp add: db_ok_def)
  have steps: "bnd (or_else list_hosts []) f c = f hs u" "bnd (or_else (list_jobs (Some n) None None None 1000 0) []) g u = g js v"
    "bnd (or_else (bnd (list_snapshots_for_host None 10000) (\<lambda>xs. ret (length xs))) 0) k v = k (min 10000 (length (d_snapshots ?d))) w"
    for f g k
    by (rule bnd_Inr, rule or_else_Inr, rule 1(1) 2(1) 3)+
  show ?thesis
    unfolding render_def exposition_def Let_def steps host_samples_rows [OF 1(2)] job_samples_rows [OF 2(2)] completed_rows [OF 2(2) jobs]
    by (simp add: ret_def as_floats_def)
qed

text \<open>C33: The metrics add up. Rendering a scrape never fails, whatever statement does, and changes
  no table. When no statement fails, the text is the one that lists, with the names and
  kinds of the seven families, the number of hosts in each of the three states, the number
  of jobs in each of the three statuses among the thousand started last, the sums of the
  two byte counts over the completed ones among these, the number of snapshots up to ten
  thousand, and the two optional gauges; and in every reachable catalog the host gauges sum
  to the number of registered hosts and the job gauges to the number of jobs looked at, so
  no host and no job is in a state that is not exported.\<close>

theorem metrics_account:
  assumes "reachable L A c" "render F nul rb up c = (r, t)"
  shows "is_ok r \<and> c_db t = c_db c
     \<and> (\<forall>n. healthy c \<and> nul = Some n \<longrightarrow> r = Inr (exposition F rb up (c_db c)))
     \<and> (\<Sum>s\<leftarrow>[''reachable'', ''unreachable'', ''unknown'']. hosts_with (c_db c) s) = length (d_hosts (c_db c))
     \<and> (\<Sum>s\<leftarrow>[''running'', ''completed'', ''failed'']. jobs_with (c_db c) s) = min 1000 (length (d_jobs (c_db c)))"
proof -
  have ok: "db_ok (c_db c)" using assms(1) by (rule reachable_ok)
  then have "hosts_ok (c_db c)" "jobs_ok (c_db c)" by (simp_all add: db_ok_def)
  note sums = hosts_with_sum [OF this(1)] jobs_with_sum [OF this(2)]
  have "is_ok r" using render_total [of F nul rb up c] assms(2) by (auto simp: is_ok_iff)
  moreover have "c_db t = c_db c" by (rule moves_run [OF render_reads assms(2)])
  moreover have "r = Inr (exposition F rb up (c_db c))" if "healthy c" "nul = Some n" for n
    using render_healthy [OF ok that(1), of F n rb up] assms(2) that(2) by simp
  ultimately show ?thesis using sums by blast
qed

text \<open>A scrape of the sample catalog, with floats printed as the numerals of small numbers.\<close>

definition sample_floats :: float_lib where
  "sample_floats = \<lparr> f_int = word_of_int, f_zero = 0, f_add = (+), f_show = (\<lambda>x. if x = 0 then ''0'' else ''1'') \<rparr>"

theorem metrics_account_witness:
  "\<exists>t rest. render sample_floats (Some 0) None None sample_with_job = (Inr (
        ''# HELP aegis_hosts Registered backup hosts by reachability.'' @ newline @ ''# TYPE aegis_hosts gauge'' @ newline
      @ ''aegis_hosts{reachable} 0'' @ newline @ ''aegis_hosts{unreachable} 0'' @ newline @ ''aegis_hosts{unknown} 1'' @ newline
      @ ''# HELP aegis_jobs Backup jobs by status (last 1000).'' @ newline @ ''# TYPE aegis_jobs gauge'' @ newline
      @ ''aegis_jobs{running} 1'' @ newline @ rest), t) \<and> c_db t = c_db sample_with_job"
proof -
  obtain h where h: "d_hosts (c_db sample_with_job) = [h]" "hr_status h = ''unknown''" "healthy sample_with_job"
    by (simp add: sample_with_job_def sample_with_policy_def sample_with_host_def sample_run add_policy_def insert_policy_def
      record_job_started_def insert_job_def)
  obtain j where j: "d_jobs (c_db sample_with_job) = [j]" "jr_status j = ''running''"
    by (simp add: sample_with_job_def sample_with_policy_def sample_with_host_def sample_run add_policy_def insert_policy_def
      record_job_started_def insert_job_def)
  have hosts: "hosts_with (c_db sample_with_job) s = (if s = ''unknown'' then 1 else 0)" for s
    using h by (auto simp: hosts_with_def)
  have jobs: "jobs_with (c_db sample_with_job) s = (if s = ''running'' then 1 else 0)" for s
    using j by (auto simp: jobs_with_def recent_jobs_def)
  obtain r t where run: "render sample_floats (Some 0) None None sample_with_job = (r, t)" by fastforce
  note p = metrics_account [OF sample_reachable(2) run]
  then have "r = Inr (exposition sample_floats None None (c_db sample_with_job))" using h(3) by blast
  then show ?thesis
    using run p by (simp add: exposition_def hosts jobs metric_lines_def newline_def sample_floats_def)
qed

end
