(* ===== verification/Spec2Isabelle.thy ===== *)
theory Spec2Isabelle
  imports Local_Keys Local_Verify Local_Replication Sftp_Repository Local_Agentless Listing_Ends
    Agent_Correct Console_Correct Command_Line Login_Limit Jobs_Correct Metrics_Correct
begin

text \<open>
  Aegis server backup: a verification library for the backup engine
  (\<open>src/crates/aegis-core\<close>), the control plane (\<open>src/crates/aegis-server\<close>), the agent
  (\<open>src/crates/aegis-agent\<close>) and the command line (\<open>src/crates/aegis-cli\<close>).

  The program. The engine splits the files of a source tree into content-defined chunks,
  encrypts each chunk and each large directory node under a key derived from its own
  content, and stores them under their hash in a backend (a flat key-value store: a local
  directory or a directory on an SFTP server). A snapshot is a manifest (\<open>snapshots/<id>.json\<close>) holding the inline part of
  the tree, and an index (\<open>index/<id>.json\<close>) listing blobs; both are written after every blob
  they mention. Restoring walks the tree from the manifest, pruning deletes what the
  indexes of the kept snapshots do not list, verification re-reads what a snapshot lists,
  and replication copies a store to a second backend. The repository's master key lies in
  key slots, each wrapped under a passphrase. The source may be a remote host: agentless mode
  reads its files over SFTP, agent mode sends it a binary that runs the engine there. The control plane keeps hosts, policies, jobs,
  users and sessions in a relational catalog, offers them through a REST API with roles, and
  runs scheduled backups; the command line composes the same operations.

  Conventions. A Rust \<open>Result\<close> is \<open>error + 'a\<close>; a computation is a function from a state to a
  result and a new state (\<open>Effects\<close>: \<open>ret\<close>, \<open>raise\<close>, \<open>bnd\<close>, and \<open>wp\<close>, which reads
  off what holds after a run whether or not it failed). A panic is the value \<open>Panicked\<close>, the end of
  fuel the value \<open>OutOfFuel\<close>. Integers the code can overflow are words; a string is the
  sequence of its bytes. A file name is any byte string; where the code decodes one
  (\<open>to_string_lossy\<close>, in \<open>Remote_Text\<close>) so does the model. Every call of the operating system and every statement of the
  database takes its turn in a schedule of failures that is part of the state, so a theorem
  about a run covers every point at which the run may be cut short; the theorems that
  promise success assume an all-clear schedule (\<open>faultless\<close>).

  Theories and sources.
  \<^item> \<open>Prelude\<close>, \<open>Effects\<close> (error.rs): strings, lists, sorting, the result monad and its rules.
  \<^item> \<open>Foreign\<close>: the third-party crates (blake3, chacha20poly1305, argon2, zstd, base64,
    fastcdc, serde_json, time) as one record \<open>lib\<close> of functions with their documented laws
    (\<open>lib_ok\<close>); \<open>Reference_Instance\<close> has an executable instance that satisfies all of them.
  \<^item> \<open>Documents\<close> (tree.rs, snapshot.rs, crypto.rs, keys.rs, repo.rs, chunk.rs): the serialized
    types; \<open>Tree\<close> (tree.rs), \<open>Chunking\<close> (chunk.rs), \<open>Blobs\<close> (blobs.rs), \<open>Cipher\<close> (crypto.rs,
    keys.rs), \<open>Retention\<close> (retention.rs): the operations on them, with no effects.
  \<^item> \<open>File_System\<close>: the file system as a finite map from paths to entries, with the calls of
    \<open>std::fs\<close>: those of the backend on physical paths, those of a restore (\<open>follow_dir_all\<close>,
    \<open>follow_create\<close>) through symbolic links. \<open>Backend\<close> (backend.rs): the storage trait as a record of operations, and the
    locales that state its contract. \<open>backend\<close>: every operation refines a flat store, whatever
    fails. \<open>reliable_backend\<close>: in a ready state the operations succeed. \<open>atomic_backend\<close>: a
    failed write leaves the old object. \<open>Store_Calls\<close>: what a sequence of calls answers, as
    a function of the flat store. \<open>Local_Backend\<close> is LocalBackend,
    \<open>Local_Listing\<close> and \<open>Local_Contract\<close> prove the contract of it.
  \<^item> \<open>Sftp_Location\<close>, \<open>Transport\<close>, \<open>Sftp_Backend\<close> (sftp.rs, ssh.rs): repository URLs, host-key
    policy, authentication and the connection cache over the record \<open>russh\<close>, and SftpBackend over
    the record \<open>sftp_session\<close>, the calls of the two client libraries.
    \<open>Sftp_Contract\<close> states what those libraries and a server promise as the locale
    \<open>sftp_server\<close>: a request applies its change to the tree of the server or, when it fails,
    may have applied it. From it \<open>Sftp_Store\<close> proves the backend contract for SftpBackend.
    \<open>Posix_Server\<close> is a server that satisfies the locale, with a schedule of lost answers.
  \<^item> \<open>World\<close>, \<open>Repo_Core\<close>, \<open>Repo_Backup\<close>, \<open>Repo_Read\<close>, \<open>Repo_Restore\<close>, \<open>Repo_Prune\<close>,
    \<open>Repo_Verify\<close> (repo.rs, snapshot.rs), \<open>Key_Slots\<close> (keys.rs, repo.rs), \<open>Replication\<close>
    (replication.rs): the engine over any backend. The state of a run is a \<open>world\<close>: the store,
    the supplies of randomness, identifiers and clock readings, and the file
    system a restore writes to.
  \<^item> \<open>Store_Rules\<close>, \<open>Backup_Correct\<close>, \<open>Backup_Total\<close>, \<open>Read_Correct\<close>, \<open>Restore_Correct\<close>,
    \<open>Round_Trip\<close>, \<open>Prune_Correct\<close>, \<open>Prune_Safe\<close>, \<open>Open_Correct\<close>, \<open>Keys_Correct\<close>: the
    engine's theorems, proved once inside the contract's locales; \<open>Repository_Laws\<close> brings
    them into the form both kinds of repository inherit.
  \<^item> \<open>Local_Repository\<close>, \<open>Local_Prune\<close>, \<open>Local_Verify\<close>, \<open>Local_Keys\<close>, \<open>Local_Replication\<close>: the
    interpretations on the local backend and the properties of a repository there;
    \<open>Sample_Stores\<close> builds the repositories the witnesses run on. \<open>Sftp_Repository\<close>: the same for
    a repository on an SFTP server. \<open>Listing_Ends\<close>: the listing loop ends.
  \<^item> \<open>Agentless\<close> (agentless.rs), \<open>Agentless_Correct\<close>, \<open>Local_Agentless\<close>: the walk over a remote
    tree and its simulation by the backup of a local one. \<open>Remote_Text\<close>, \<open>Agent\<close> (agent.rs and
    the agent's main.rs), \<open>Agent_Correct\<close>: the commands sent to a target, its shell, and the
    arguments the agent reads.
  \<^item> \<open>Catalog_Store\<close>, \<open>Catalog_History\<close> (catalog.rs), \<open>Catalog_Auth\<close> (catalog_auth.rs): the
    tables as lists of rows, one definition per operation, each SQL statement atomic and
    possibly failing, the constraints of the schema written out in the statement.
    \<open>Catalog_Rules\<close>, \<open>Catalog_Machine\<close>, \<open>Catalog_Invariant\<close>, \<open>Catalog_Correct\<close>,
    \<open>Auth_Correct\<close>, \<open>Auth_Samples\<close>, \<open>Login_Limit\<close>: the catalog as a state machine, its
    invariant, and what follows.
  \<^item> \<open>Api\<close> (api.rs), \<open>Api_Correct\<close>; \<open>Metrics\<close> (metrics.rs), \<open>Metrics_Correct\<close>; \<open>Jobs\<close>
    (jobs.rs, scheduler.rs), \<open>Jobs_Correct\<close>: the control plane over the catalog.
    \<open>Server_Repository\<close> (aegis-server/src/repo.rs): its own repository; \<open>Master_Key\<close> (state.rs and
    the console's hosts.rs): the file with the catalog's wrapped master key.
  \<^item> \<open>Console\<close>, \<open>Console_Correct\<close> (aegis-cli: users.rs, policy.rs, hosts.rs, part of main.rs): the
    commands on the catalog; \<open>Command_Line\<close> (aegis-cli/src/main.rs): the commands on a
    repository, and those that set up agents.

  What the lemmas show.
  \<^item> Backup and restore: a restored tree equals the source, up to names that are not UTF-8 (C1); an interrupted backup at any
    call leaves earlier snapshots readable and, if its manifest is there, a complete snapshot (C2); a
    restore never writes outside a target without symbolic links, whatever a manifest
    claims (C3; \<open>restore_follows_link\<close> shows what a link does); a backup of
    readable sources succeeds (C4).
  \<^item> Prune and verify: a prune stopped anywhere loses nothing a kept index lists (C5); what it
    deletes and reports (C6, C7); inline snapshots stay restorable (C8); which defects a
    verification detects (C9). C6 shows the gap recorded among the findings: blobs below a
    referenced directory are in no index and a prune deletes them.
  \<^item> Keys: C10 to C12. Retention: C13 to C16. Replication: C17, C18.
  \<^item> Control plane: the role matrix of the API (C19, C29, C30), logins, sessions and passwords
    with the race between a login and a password change (C20 to C24), consistency of the
    catalog (C25 to C28), workers, scheduler and metrics (C31 to C33). \<open>console_keeps_ok\<close>: the
    console's commands keep the invariant of the catalog too.
  \<^item> SFTP: an interrupted backup to a server (C34); no sequence of calls tells the two backends apart
    (C35); URLs round-trip and which ones are refused (C36); no credential is sent under a
    changed host key (C37).
  \<^item> Remote hosts: an agentless backup leaves the store that the local backup of the same tree
    would (C38); the target's shell and the agent read the strings that were asked for, and a
    reported snapshot is one the agent made (C39).
  \<^item> The listing loop of a local repository ends (C40).

  Fuel. \<open>list_loop\<close> takes one unit per directory it reads; \<open>local_list\<close> gives it the number
  of entries of the file system plus three, which \<open>Local_Listing\<close> proves to be enough for a
  repository and C40 for every file system. \<open>sftp_walk\<close> takes its fuel from the session's
  bound \<open>sf_entries\<close> on the entries of the server, an assumption of \<open>sftp_server\<close>.
  \<open>restore\<close> takes one unit per level of the tree; a manifest a backup can write is no deeper
  than \<open>json_depth_limit\<close>, and C1 holds for every fuel from there on. The chains of
  references that \<open>verify\<close>, \<open>prune\<close> and \<open>live_of\<close> follow have no bound in the code (a
  cyclic chain would not end, and no hash function rules one out), so their theorems hold for every
  fuel, and the end of fuel counts as one more failure. \<open>key_add\<close> probes
  slot numbers upwards; C11 promises success once the fuel reaches a free one.

  Not modelled. Of ssh.rs the helpers that only call russh (key generation, PEM encoding). The
  bandwidth limiter (throttle.rs): a token bucket in floating point over the
  clock, which delays and never changes data. Of the command line the argument parser, the
  printing and the replicate command, whose two locations may lie in one file system while
  \<open>Replication\<close> gives each backend a state of its own; the agentless backups of a run over
  all hosts are an argument there. The server's start-up code, e-mail and webhook
  notifications, the MCP server, the web interface and its
  desktop shell: glue and presentation. Tests and benchmarks. Within the modelled
  parts: HTTP framing and JSON of the API, the broadcast channel and the cron parser of the
  scheduler, the semaphore that bounds concurrent password hashing, tracing output; the
  bytes on the wire of SSH and SFTP, symbolic links on a remote host or inside a repository, and
  changes of a source while it is read.
\<close>

end
